(* ===== verification/Prelude.thy ===== *)
theory Prelude
  imports Main "HOL-Library.AList" "HOL-Library.Word" "HOL-Library.List_Lexorder"
    "HOL-Library.Char_ord"
begin

text \<open>
  Shared vocabulary of the development: Python exceptions as values, insertion-ordered
  dictionaries, process memory as a map from addresses to bytes, and the generic facts
  about them that the component theories rewrite with.

  Exceptions carry the constant text of their message; the numbers that an f-string
  interpolates are left out. Python's unbounded integers are \<^typ>\<open>int\<close>.
\<close>

section \<open>Exceptions and results\<close>

datatype py_error =
    ValueError string
  | KeyError string
  | IndexError string
  | TypeError string
  | AttributeError string
  | MemoryError string
  | RuntimeError string
  | OSError int string
  | ConnectionError string
  | FileNotFoundError string
  | NotImplementedError string
  | AssertionError string
  | StructError string
  | ZeroDivisionError
  | HTTPException int string

type_synonym 'a result = "py_error + 'a"

abbreviation Err :: "py_error \<Rightarrow> 'a result" where "Err \<equiv> Inl"
abbreviation Ok :: "'a \<Rightarrow> 'a result" where "Ok \<equiv> Inr"

definition bind_res :: "'a result \<Rightarrow> ('a \<Rightarrow> 'b result) \<Rightarrow> 'b result" where
  "bind_res r f = (case r of Inl e \<Rightarrow> Inl e | Inr x \<Rightarrow> f x)"

lemma bind_res_simps [simp]:
  "bind_res (Inl e) f = Inl e"
  "bind_res (Inr x) f = f x"
  by (simp_all add: bind_res_def)

lemma bind_res_Ok [simp]: "bind_res r f = Inr y \<longleftrightarrow> (\<exists>x. r = Inr x \<and> f x = Inr y)"
  by (cases r) auto

text \<open>Running a fallible operation over a list, left to right, up to the first error.\<close>

fun map_res :: "('a \<Rightarrow> 'b result) \<Rightarrow> 'a list \<Rightarrow> 'b list result" where
  "map_res f [] = Ok []"
| "map_res f (x # xs) = bind_res (f x) (\<lambda>y. bind_res (map_res f xs) (\<lambda>ys. Ok (y # ys)))"

lemma map_res_all_Ok: "(\<And>x. x \<in> set xs \<Longrightarrow> f x = Ok (g x)) \<Longrightarrow> map_res f xs = Ok (map g xs)"
  by (induction xs) auto

lemma map_res_length: "map_res f xs = Ok ys \<Longrightarrow> length ys = length xs"
  by (induction xs arbitrary: ys) auto

lemma map_res_Ok_nth: "map_res f xs = Ok ys \<longleftrightarrow> length ys = length xs \<and> (\<forall>i < length xs. f (xs ! i) = Ok (ys ! i))"
proof (induction xs arbitrary: ys)
  case (Cons x xs)
  show ?case
  proof (cases ys)
    case (Cons y ys')
    have "map_res f (x # xs) = Ok ys \<longleftrightarrow> f x = Ok y \<and> map_res f xs = Ok ys'" by (auto simp: Cons)
    also have "\<dots> \<longleftrightarrow> f x = Ok y \<and> length ys' = length xs \<and> (\<forall>i < length xs. f (xs ! i) = Ok (ys' ! i))"
      using Cons.IH [of ys'] by simp
    also have "\<dots> \<longleftrightarrow> length ys = length (x # xs) \<and> (\<forall>i < length (x # xs). f ((x # xs) ! i) = Ok (ys ! i))"
      by (auto simp: Cons nth_Cons' less_Suc_eq_0_disj)
    finally show ?thesis .
  qed simp
qed auto

section \<open>Insertion-ordered dictionaries\<close>

text \<open>
  A Python dict keeps its keys in insertion order and overwrites in place. It is an
  association list with distinct keys; \<open>AList.update\<close> and \<open>AList.delete\<close> do what
  \<open>d[k] = v\<close> and \<open>del d[k]\<close> do.
\<close>

type_synonym ('k, 'v) dict = "('k \<times> 'v) list"

abbreviation dict_get :: "('k, 'v) dict \<Rightarrow> 'k \<Rightarrow> 'v option" where "dict_get \<equiv> map_of"
abbreviation dict_set :: "'k \<Rightarrow> 'v \<Rightarrow> ('k, 'v) dict \<Rightarrow> ('k, 'v) dict" where "dict_set \<equiv> AList.update"
abbreviation dict_del :: "'k \<Rightarrow> ('k, 'v) dict \<Rightarrow> ('k, 'v) dict" where "dict_del \<equiv> AList.delete"
abbreviation dict_keys :: "('k, 'v) dict \<Rightarrow> 'k list" where "dict_keys d \<equiv> map fst d"
abbreviation dict_values :: "('k, 'v) dict \<Rightarrow> 'v list" where "dict_values d \<equiv> map snd d"

definition dict_has :: "'k \<Rightarrow> ('k, 'v) dict \<Rightarrow> bool" where
  "dict_has k d \<longleftrightarrow> map_of d k \<noteq> None"

definition dict_ok :: "('k, 'v) dict \<Rightarrow> bool" where
  "dict_ok d \<longleftrightarrow> distinct (map fst d)"

definition dict_index :: "'k \<Rightarrow> ('k, 'v) dict \<Rightarrow> 'v result" where
  "dict_index k d = (case map_of d k of None \<Rightarrow> Err (KeyError '''') | Some v \<Rightarrow> Ok v)"

named_theorems dict_simps

lemma dict_get_set [simp, dict_simps]: "dict_get (dict_set k v d) = (dict_get d)(k \<mapsto> v)"
  by (rule update_conv')

lemma dict_get_del [simp, dict_simps]: "dict_get (dict_del k d) = (dict_get d)(k := None)"
  by (rule delete_conv')

lemma dict_has_set [simp, dict_simps]: "dict_has j (dict_set k v d) \<longleftrightarrow> j = k \<or> dict_has j d"
  by (simp add: dict_has_def)

lemma dict_has_del [simp, dict_simps]: "dict_has j (dict_del k d) \<longleftrightarrow> j \<noteq> k \<and> dict_has j d"
  by (simp add: dict_has_def)

lemma dict_has_Nil [simp]: "\<not> dict_has k []"
  by (simp add: dict_has_def)

lemma dict_has_Cons [simp]: "dict_has k (p # d) \<longleftrightarrow> k = fst p \<or> dict_has k d"
  by (cases p) (simp add: dict_has_def)

lemma dict_has_iff: "dict_has k d \<longleftrightarrow> k \<in> set (dict_keys d)"
  by (induction d) auto

lemma dict_ok_Nil [simp]: "dict_ok []"
  by (simp add: dict_ok_def)

lemma dict_ok_set [simp]: "dict_ok d \<Longrightarrow> dict_ok (dict_set k v d)"
  by (simp add: dict_ok_def distinct_update)

lemma dict_ok_del [simp]: "dict_ok d \<Longrightarrow> dict_ok (dict_del k d)"
  by (simp add: dict_ok_def distinct_delete)

lemma dict_index_Ok: "dict_index k d = Ok v \<longleftrightarrow> dict_get d k = Some v"
  by (simp add: dict_index_def split: option.splits)

lemma dict_set_values: "v \<in> set (dict_values (dict_set k x d)) \<Longrightarrow> v = x \<or> v \<in> set (dict_values d)"
  by (induction d) (auto split: if_splits)

text \<open>A new key is appended at the end; an old one keeps its place.\<close>

lemma dict_set_new: "\<not> dict_has k d \<Longrightarrow> dict_set k v d = d @ [(k, v)]"
  by (induction d) auto

lemma dict_keys_set_old: "dict_has k d \<Longrightarrow> dict_keys (dict_set k v d) = dict_keys d"
  by (simp add: dict_has_iff update_keys)

text \<open>\<open>d.get(k, v)\<close>, and \<open>d.setdefault(f(x), []).append(x)\<close> over a list.\<close>

definition dict_get_default :: "'k \<Rightarrow> 'v \<Rightarrow> ('k, 'v) dict \<Rightarrow> 'v" where
  "dict_get_default k v d = (case dict_get d k of None \<Rightarrow> v | Some x \<Rightarrow> x)"

definition group_by :: "('a \<Rightarrow> 'k) \<Rightarrow> 'a list \<Rightarrow> ('k, 'a list) dict" where
  "group_by f xs = foldl (\<lambda>d x. dict_set (f x) (dict_get_default (f x) [] d @ [x]) d) [] xs"

lemma dict_get_default_simps [simp]:
  "dict_get_default k v [] = v"
  "dict_get_default j v (dict_set k x d) = (if j = k then x else dict_get_default j v d)"
  by (simp_all add: dict_get_default_def)

lemma group_by_snoc: "group_by f (xs @ [x]) =
    dict_set (f x) (dict_get_default (f x) [] (group_by f xs) @ [x]) (group_by f xs)"
  by (simp add: group_by_def)

lemma group_by_Nil [simp]: "group_by f [] = []"
  by (simp add: group_by_def)

lemma group_by_get:
  "dict_get (group_by f xs) k = (if k \<in> f ` set xs then Some (filter (\<lambda>x. f x = k) xs) else None)"
proof (induction xs rule: rev_induct)
  case (snoc x xs)
  have "filter (\<lambda>y. f y = f x) xs = []" if "f x \<notin> f ` set xs"
    using that by (auto simp: filter_empty_conv image_iff)
  with snoc show ?case
    by (auto simp: group_by_snoc dict_get_default_def)
qed simp

lemma group_by_ok: "dict_ok (group_by f xs)"
  by (induction xs rule: rev_induct) (simp_all add: group_by_snoc)

lemma group_by_member: "(k, ys) \<in> set (group_by f xs) \<longleftrightarrow> k \<in> f ` set xs \<and> ys = filter (\<lambda>x. f x = k) xs"
proof -
  have "(k, ys) \<in> set (group_by f xs) \<longleftrightarrow> dict_get (group_by f xs) k = Some ys"
    using group_by_ok [of f xs] by (simp add: dict_ok_def)
  then show ?thesis by (auto simp: group_by_get)
qed

section \<open>Process memory\<close>

type_synonym byte = "8 word"
type_synonym mem = "int \<Rightarrow> byte"

definition mem_read :: "mem \<Rightarrow> int \<Rightarrow> nat \<Rightarrow> byte list" where
  "mem_read m p n = map (\<lambda>i. m (p + int i)) [0..<n]"

definition mem_write :: "mem \<Rightarrow> int \<Rightarrow> byte list \<Rightarrow> mem" where
  "mem_write m p bs = (\<lambda>a. if p \<le> a \<and> a < p + int (length bs) then bs ! nat (a - p) else m a)"

named_theorems mem_simps

lemma length_mem_read [simp]: "length (mem_read m p n) = n"
  by (simp add: mem_read_def)

lemma nth_mem_read [simp]: "i < n \<Longrightarrow> mem_read m p n ! i = m (p + int i)"
  by (simp add: mem_read_def)

lemma mem_read_0 [simp]: "mem_read m p 0 = []"
  by (simp add: mem_read_def)

lemma mem_write_Nil [simp]: "mem_write m p [] = m"
  by (rule ext) (auto simp: mem_write_def)

lemma mem_read_write_same [simp, mem_simps]: "mem_read (mem_write m p bs) p (length bs) = bs"
  by (rule nth_equalityI) (simp_all add: mem_write_def)

lemma mem_read_write_disjoint [mem_simps]:
  "p + int n \<le> q \<or> q + int (length bs) \<le> p \<Longrightarrow> mem_read (mem_write m q bs) p n = mem_read m p n"
  by (rule nth_equalityI) (auto simp: mem_write_def)

lemma mem_write_outside: "a < p \<or> p + int (length bs) \<le> a \<Longrightarrow> mem_write m p bs a = m a"
  by (auto simp: mem_write_def)

lemma mem_read_append: "mem_read m p (j + k) = mem_read m p j @ mem_read m (p + int j) k"
  by (rule nth_equalityI) (auto simp: nth_append)

lemma mem_read_sub:
  "i + k \<le> n \<Longrightarrow> take k (drop i (mem_read m p n)) = mem_read m (p + int i) k"
  by (rule nth_equalityI) (simp_all add: algebra_simps)

lemma mem_read_prefix: "k \<le> n \<Longrightarrow> mem_read m p k = take k (mem_read m p n)"
  using mem_read_sub [of 0 k n m p] by simp

lemma mem_read_cong:
  "(\<And>i. i < n \<Longrightarrow> m (p + int i) = m' (q + int i)) \<Longrightarrow> mem_read m p n = mem_read m' q n"
  by (rule nth_equalityI) simp_all

lemma mem_write_append:
  "mem_write (mem_write m p xs) (p + int (length xs)) ys = mem_write m p (xs @ ys)"
proof
  fix a
  have "nat (a - (p + int (length xs))) = nat (a - p) - length xs" by simp
  then show "mem_write (mem_write m p xs) (p + int (length xs)) ys a = mem_write m p (xs @ ys) a"
    by (auto simp: mem_write_def nth_append nat_less_iff)
qed

section \<open>Python slices\<close>

text \<open>The bound \<open>i\<close> of a slice of a sequence of length \<open>n\<close>.\<close>

definition slice_bound :: "int \<Rightarrow> int \<Rightarrow> int" where
  "slice_bound n i = (if i < 0 then max 0 (i + n) else min i n)"

definition py_slice_list :: "'a list \<Rightarrow> int \<Rightarrow> int \<Rightarrow> 'a list" where
  "py_slice_list xs lo hi =
     (let n = int (length xs); l = slice_bound n lo; h = slice_bound n hi
      in take (nat (h - l)) (drop (nat l) xs))"

lemma py_slice_list_in: "0 \<le> lo \<Longrightarrow> lo \<le> hi \<Longrightarrow>
    py_slice_list xs lo hi = take (nat (hi - lo)) (drop (nat lo) xs)"
proof -
  assume a: "0 \<le> lo" "lo \<le> hi"
  show ?thesis
  proof (cases "hi \<le> int (length xs)")
    case True
    with a show ?thesis by (simp add: py_slice_list_def slice_bound_def)
  next
    case False
    with a show ?thesis
      by (cases "lo \<le> int (length xs)")
        (auto simp: py_slice_list_def slice_bound_def min_def)
  qed
qed

text \<open>Indexing a Python sequence: negative indices count from the end.\<close>

definition py_nth :: "'a list \<Rightarrow> int \<Rightarrow> 'a result" where
  "py_nth xs i =
     (let n = int (length xs); j = (if i < 0 then i + n else i)
      in if 0 \<le> j \<and> j < n then Ok (xs ! nat j) else Err (IndexError ''list index out of range''))"

lemma py_nth_in: "0 \<le> i \<Longrightarrow> i < int (length xs) \<Longrightarrow> py_nth xs i = Ok (xs ! nat i)"
  by (simp add: py_nth_def)

section \<open>Decimal text\<close>

fun dec_string :: "nat \<Rightarrow> string" where
  "dec_string n = (if n < 10 then [char_of (48 + n)] else dec_string (n div 10) @ [char_of (48 + n mod 10)])"

declare dec_string.simps [simp del]

definition is_digit :: "char \<Rightarrow> bool" where
  "is_digit c \<longleftrightarrow> 48 \<le> (of_char c :: nat) \<and> (of_char c :: nat) \<le> 57"

definition is_space :: "char \<Rightarrow> bool" where
  "is_space c \<longleftrightarrow> (of_char c :: nat) \<in> {9, 10, 11, 12, 13, 28, 29, 30, 31, 32}"

text \<open>The digits of \<open>int(s)\<close>; a single underscore may stand between two of them.\<close>

fun int_digits :: "nat \<Rightarrow> string \<Rightarrow> nat option" where
  "int_digits acc [] = Some acc"
| "int_digits acc (c # cs) =
     (if is_digit c then int_digits (acc * 10 + (of_char c - 48)) cs
      else if c = CHR ''_'' then (case cs of d # ds \<Rightarrow> if is_digit d then int_digits (acc * 10 + (of_char d - 48)) ds else None | [] \<Rightarrow> None)
      else None)"

definition strip_spaces :: "string \<Rightarrow> string" where
  "strip_spaces s = rev (dropWhile is_space (rev (dropWhile is_space s)))"

definition py_int :: "string \<Rightarrow> int result" where
  "py_int s =
     (let t = strip_spaces s;
          (neg, u) = (case t of [] \<Rightarrow> (False, [])
            | c # cs \<Rightarrow> if c = CHR ''-'' then (True, cs) else if c = CHR ''+'' then (False, cs) else (False, t));
          r = (case u of c # cs \<Rightarrow> if is_digit c then int_digits 0 u else None | [] \<Rightarrow> None)
      in case r of Some n \<Rightarrow> Ok (if neg then - int n else int n)
         | None \<Rightarrow> Err (ValueError ''invalid literal for int() with base 10''))"

lemma of_char_digit: "n < 10 \<Longrightarrow> (of_char (char_of (48 + n) :: char) :: nat) = 48 + n"
  by simp

lemma dec_string_digits: "list_all is_digit (dec_string n) \<and> dec_string n \<noteq> []"
proof (induction n rule: dec_string.induct)
  case (1 n)
  show ?case
  proof (cases "n < 10")
    case True then show ?thesis by (simp add: dec_string.simps [of n] is_digit_def)
  next
    case False
    then show ?thesis using 1 [OF False]
      by (simp add: dec_string.simps [of n] is_digit_def)
  qed
qed

lemma int_digits_append:
  "list_all is_digit xs \<Longrightarrow> int_digits acc xs = Some v \<Longrightarrow> int_digits acc (xs @ ys) = int_digits v ys"
  by (induction xs arbitrary: acc) auto

lemma int_digits_dec: "int_digits 0 (dec_string n) = Some n"
proof (induction n rule: dec_string.induct)
  case (1 n)
  show ?case
  proof (cases "n < 10")
    case True then show ?thesis by (simp add: dec_string.simps [of n] is_digit_def)
  next
    case False
    then show ?thesis using 1 [OF False] dec_string_digits [of "n div 10"]
      by (simp add: dec_string.simps [of n] int_digits_append is_digit_def)
  qed
qed

lemma digit_not_special: "is_digit c \<Longrightarrow> \<not> is_space c \<and> c \<noteq> CHR ''-'' \<and> c \<noteq> CHR ''+'' \<and> c \<noteq> CHR '':''"
  by (auto simp: is_digit_def is_space_def)

lemma strip_digits: "list_all is_digit s \<Longrightarrow> strip_spaces s = s"
proof -
  assume "list_all is_digit s"
  then have ns: "\<forall>c \<in> set s. \<not> is_space c" by (simp add: list_all_iff digit_not_special)
  have "dropWhile is_space t = t" if "set t \<subseteq> set s" for t
    using that ns by (cases t) auto
  then show ?thesis by (simp add: strip_spaces_def)
qed

lemma py_int_dec [simp]: "py_int (dec_string n) = Ok (int n)"
proof -
  obtain c cs where s: "dec_string n = c # cs" using dec_string_digits [of n] by (cases "dec_string n") auto
  then have "is_digit c" using dec_string_digits [of n] by simp
  then show ?thesis
    using strip_digits [of "dec_string n"] dec_string_digits [of n] int_digits_dec [of n]
    by (simp add: py_int_def s digit_not_special del: int_digits.simps)
qed

end
