(* ===== verification/HostMem.thy ===== *)
theory HostMem
  imports Prelude
begin

text \<open>
  The host memory pool of the cache server (\<open>static_weight_cache/host_mem_manager.py\<close>):
  one long-lived buffer, cut into buckets by a bump allocator. A torch tensor of bytes
  is a view, an address with a length; \<open>torch.empty\<close> gives a view at an address the
  allocator chose, which is an argument here. The memory behind the views is a separate
  \<^typ>\<open>mem\<close>. The lemmas show that the pool is aligned and inside its owner, that the
  buckets tile the used part of the pool without overlap, and that writes stay inside
  their bucket.
\<close>

section \<open>Views of torch tensors\<close>

record view =
  v_ptr :: int
  v_numel :: int

definition torch_empty :: "int \<Rightarrow> int \<Rightarrow> view result" where
  "torch_empty raw n =
     (if n < 0 then Err (RuntimeError ''negative dimension'')
      else Ok \<lparr>v_ptr = raw, v_numel = n\<rparr>)"

text \<open>\<open>narrow(0, start, length)\<close>; a negative start counts from the end.\<close>

definition narrow :: "view \<Rightarrow> int \<Rightarrow> int \<Rightarrow> view result" where
  "narrow v start len =
     (let s = (if start < 0 then start + v_numel v else start)
      in if len < 0 \<or> s < 0 \<or> v_numel v < s + len
         then Err (RuntimeError ''narrow: out of range'')
         else Ok \<lparr>v_ptr = v_ptr v + s, v_numel = len\<rparr>)"

text \<open>\<open>v[lo:hi]\<close>.\<close>

definition view_slice :: "view \<Rightarrow> int \<Rightarrow> int \<Rightarrow> view" where
  "view_slice v lo hi =
     (let l = slice_bound (v_numel v) lo; h = slice_bound (v_numel v) hi
      in \<lparr>v_ptr = v_ptr v + l, v_numel = max 0 (h - l)\<rparr>)"

text \<open>\<open>dst.copy_(src)\<close> of bytes: equal lengths, or one byte broadcast.\<close>

definition view_copy :: "view \<Rightarrow> byte list \<Rightarrow> mem \<Rightarrow> mem result" where
  "view_copy v src m =
     (if int (length src) = v_numel v then Ok (mem_write m (v_ptr v) src)
      else if length src = 1 then Ok (mem_write m (v_ptr v) (replicate (nat (v_numel v)) (hd src)))
      else Err (RuntimeError ''The size of tensor must match''))"

lemma narrow_in: "0 \<le> start \<Longrightarrow> 0 \<le> len \<Longrightarrow> start + len \<le> v_numel v \<Longrightarrow>
    narrow v start len = Ok \<lparr>v_ptr = v_ptr v + start, v_numel = len\<rparr>"
  by (simp add: narrow_def)

lemma view_slice_in: "0 \<le> lo \<Longrightarrow> lo \<le> hi \<Longrightarrow> hi \<le> v_numel v \<Longrightarrow>
    view_slice v lo hi = \<lparr>v_ptr = v_ptr v + lo, v_numel = hi - lo\<rparr>"
  by (simp add: view_slice_def slice_bound_def)

section \<open>Data\<close>

definition align_up :: "int \<Rightarrow> int \<Rightarrow> int result" where
  "align_up x alignment =
     (if alignment = 0 then Err ZeroDivisionError
      else Ok ((x + alignment - 1) div alignment * alignment))"

record host_mem_config =
  capacity_bytes :: int
  alignment :: int
  pin_memory :: bool
  lock_memory :: bool

record bucket_allocation =
  ba_bucket_id :: int
  ba_offset :: int
  ba_capacity :: int
  ba_used_bytes :: int
  ba_buffer :: view

definition ba_base_ptr :: "bucket_allocation \<Rightarrow> int" where
  "ba_base_ptr b = v_ptr (ba_buffer b)"

record host_mem_manager =
  hm_config :: host_mem_config
  hm_pool_owner :: view
  hm_pool :: view
  hm_next_offset :: int
  hm_next_bucket_id :: int
  hm_allocations :: "(int, bucket_allocation) dict"
  hm_locked :: bool

definition hm_base_ptr :: "host_mem_manager \<Rightarrow> int" where
  "hm_base_ptr h = v_ptr (hm_pool h)"

section \<open>Operations\<close>

text \<open>
  \<open>mlock\<close> and \<open>munlock\<close> are calls into libc: their return value and errno are
  arguments.
\<close>

definition lock_pool :: "int \<Rightarrow> int \<Rightarrow> host_mem_manager \<Rightarrow> host_mem_manager result" where
  "lock_pool ret errno h =
     bind_res (align_up (capacity_bytes (hm_config h)) (alignment (hm_config h))) (\<lambda>_.
       if ret \<noteq> 0 then Err (OSError errno ''mlock failed for static weight cache pool'')
       else Ok (h\<lparr>hm_locked := True\<rparr>))"

definition unlock_pool :: "int \<Rightarrow> host_mem_manager \<Rightarrow> host_mem_manager result" where
  "unlock_pool ret h =
     bind_res (align_up (capacity_bytes (hm_config h)) (alignment (hm_config h))) (\<lambda>_.
       Ok (h\<lparr>hm_locked := False\<rparr>))"

definition hm_init :: "host_mem_config \<Rightarrow> int \<Rightarrow> int \<Rightarrow> int \<Rightarrow> host_mem_manager result" where
  "hm_init cfg raw_ptr mlock_ret errno =
     (if capacity_bytes cfg \<le> 0 then Err (ValueError ''capacity_bytes must be positive'')
      else
        bind_res (torch_empty raw_ptr (capacity_bytes cfg + alignment cfg)) (\<lambda>owner.
        bind_res (align_up (v_ptr owner) (alignment cfg)) (\<lambda>up.
        bind_res (narrow owner (up - v_ptr owner) (capacity_bytes cfg)) (\<lambda>pool.
          let h = \<lparr>hm_config = cfg, hm_pool_owner = owner, hm_pool = pool, hm_next_offset = 0,
                   hm_next_bucket_id = 0, hm_allocations = [], hm_locked = False\<rparr>
          in if lock_memory cfg \<and> \<not> pin_memory cfg then lock_pool mlock_ret errno h
             else Ok h))))"

text \<open>
  An operation that raises may have changed the state before: it returns the state
  beside the result. \<open>used\<close> is the optional \<open>used_bytes\<close> argument.
\<close>

definition allocate_bucket ::
    "int \<Rightarrow> int option \<Rightarrow> host_mem_manager \<Rightarrow> bucket_allocation result \<times> host_mem_manager" where
  "allocate_bucket cap used h =
     (if cap \<le> 0 then (Err (ValueError ''capacity must be positive''), h)
      else case align_up cap (alignment (hm_config h)) of
        Inl e \<Rightarrow> (Err e, h)
      | Inr c \<Rightarrow>
          if capacity_bytes (hm_config h) < hm_next_offset h + c
          then (Err (MemoryError ''Static weight cache exhausted''), h)
          else
            (let bid = hm_next_bucket_id h;
                 off = hm_next_offset h;
                 h1 = h\<lparr>hm_next_bucket_id := bid + 1, hm_next_offset := off + c\<rparr>
             in case narrow (hm_pool h) off c of
                  Inl e \<Rightarrow> (Err e, h1)
                | Inr buf \<Rightarrow>
                    (let b = \<lparr>ba_bucket_id = bid, ba_offset = off, ba_capacity = c,
                              ba_used_bytes = (case used of None \<Rightarrow> c | Some u \<Rightarrow> u),
                              ba_buffer = buf\<rparr>
                     in (Ok b, h1\<lparr>hm_allocations := dict_set bid b (hm_allocations h1)\<rparr>))))"

definition get_bucket :: "int \<Rightarrow> host_mem_manager \<Rightarrow> bucket_allocation result" where
  "get_bucket bid h = dict_index bid (hm_allocations h)"

text \<open>
  An allocation is a mutable object that the manager's dict also holds. A change to it is
  written back under its id.
\<close>

definition put_alloc :: "bucket_allocation \<Rightarrow> host_mem_manager \<Rightarrow> host_mem_manager" where
  "put_alloc b h = h\<lparr>hm_allocations := dict_set (ba_bucket_id b) b (hm_allocations h)\<rparr>"

definition write_bytes ::
    "bucket_allocation \<Rightarrow> int \<Rightarrow> byte list \<Rightarrow> mem \<Rightarrow> (bucket_allocation \<times> mem) result" where
  "write_bytes b off data m =
     (let e = off + int (length data)
      in if ba_capacity b < e then Err (ValueError ''Write exceeds bucket capacity'')
         else if data = [] then Err (ValueError ''frombuffer: both buffer length and count must not be 0'')
         else bind_res (view_copy (view_slice (ba_buffer b) off e) data m) (\<lambda>m'.
           Ok (b\<lparr>ba_used_bytes := max (ba_used_bytes b) e\<rparr>, m')))"

definition get_registered_regions :: "host_mem_manager \<Rightarrow> bucket_allocation list" where
  "get_registered_regions h = dict_values (hm_allocations h)"

record pool_stats =
  st_capacity_bytes :: int
  st_used_bytes :: int
  st_free_bytes :: int
  st_bucket_count :: int
  st_pin_memory :: bool
  st_locked :: bool

definition stats :: "host_mem_manager \<Rightarrow> pool_stats" where
  "stats h = \<lparr>st_capacity_bytes = capacity_bytes (hm_config h), st_used_bytes = hm_next_offset h,
     st_free_bytes = capacity_bytes (hm_config h) - hm_next_offset h,
     st_bucket_count = int (length (hm_allocations h)),
     st_pin_memory = pin_memory (hm_config h), st_locked = hm_locked h\<rparr>"

definition hm_close :: "int \<Rightarrow> host_mem_manager \<Rightarrow> host_mem_manager result" where
  "hm_close munlock_ret h = (if hm_locked h then unlock_pool munlock_ret h else Ok h)"

section \<open>Alignment\<close>

lemma align_up_Ok: "0 < a \<Longrightarrow> align_up x a = Ok ((x + a - 1) div a * a)"
  by (simp add: align_up_def)

lemma align_up_bounds:
  assumes "0 < a" "align_up x a = Ok y"
  shows "x \<le> y" "y < x + a" "a dvd y"
proof -
  let ?q = "(x + a - 1) div a"
  have y: "y = ?q * a" using assms by (simp add: align_up_def)
  have "?q * a + (x + a - 1) mod a = x + a - 1" by (rule div_mult_mod_eq)
  moreover have "0 \<le> (x + a - 1) mod a" "(x + a - 1) mod a < a" using assms(1) by simp_all
  ultimately show "x \<le> y" "y < x + a" using y by linarith+
  show "a dvd y" using y by simp
qed

lemma align_up_fixed: "0 < a \<Longrightarrow> a dvd x \<Longrightarrow> align_up x a = Ok x"
proof -
  assume a: "0 < a" "a dvd x"
  then obtain k where x: "x = a * k" by (auto elim: dvdE)
  have "(a * k + (a - 1)) div a = k" using a(1) by simp
  then have "(x + a - 1) div a = k" by (simp add: x algebra_simps)
  then show ?thesis using a(1) by (simp add: align_up_def x mult.commute)
qed

text \<open>\<open>align_up\<close> returns the least multiple of a positive alignment that is not below its argument.\<close>

theorem align_up_least:
  assumes "0 < a"
  shows "\<exists>y. align_up x a = Ok y \<and> a dvd y \<and> x \<le> y \<and> (\<forall>z. a dvd z \<and> x \<le> z \<longrightarrow> y \<le> z)"
proof -
  obtain y where y: "align_up x a = Ok y" using assms by (simp add: align_up_Ok)
  note b = align_up_bounds [OF assms y]
  have "y \<le> z" if z: "a dvd z" "x \<le> z" for z
  proof (rule ccontr)
    assume "\<not> y \<le> z"
    then have "0 < y - z" "a dvd y - z" using b(3) z(1) by (simp_all add: dvd_diff)
    then have "a \<le> y - z" by (rule zdvd_imp_le [rotated])
    with b(2) z(2) show False by simp
  qed
  with y b show ?thesis by blast
qed

theorem align_up_least_witness:
  "\<exists>y. align_up 5000 4096 = Ok y \<and> 4096 dvd y \<and> 5000 \<le> y"
  using align_up_least [of 4096 5000] by auto

section \<open>The allocator invariant\<close>

text \<open>
  \<open>tiled base off i bs fin\<close>: the allocations \<open>bs\<close> lie one after the other from offset
  \<open>off\<close> up to \<open>fin\<close>, are numbered from \<open>i\<close>, and each one's buffer is the view of the
  pool at its offset.
\<close>

fun tiled :: "int \<Rightarrow> int \<Rightarrow> int \<Rightarrow> (int, bucket_allocation) dict \<Rightarrow> int \<Rightarrow> bool" where
  "tiled base off i [] fin \<longleftrightarrow> off = fin"
| "tiled base off i ((k, b) # bs) fin \<longleftrightarrow>
     k = i \<and> ba_bucket_id b = i \<and> ba_offset b = off \<and> 0 < ba_capacity b \<and>
     ba_buffer b = \<lparr>v_ptr = base + off, v_numel = ba_capacity b\<rparr> \<and>
     tiled base (off + ba_capacity b) (i + 1) bs fin"

definition pool_ok :: "host_mem_manager \<Rightarrow> bool" where
  "pool_ok h \<longleftrightarrow>
     (let cfg = hm_config h
      in 0 < capacity_bytes cfg \<and> 0 < alignment cfg \<and>
         alignment cfg dvd hm_base_ptr h \<and>
         v_numel (hm_pool h) = capacity_bytes cfg \<and>
         v_ptr (hm_pool_owner h) \<le> hm_base_ptr h \<and>
         hm_base_ptr h + capacity_bytes cfg
           \<le> v_ptr (hm_pool_owner h) + v_numel (hm_pool_owner h))"

definition hm_wf :: "host_mem_manager \<Rightarrow> bool" where
  "hm_wf h \<longleftrightarrow> pool_ok h \<and>
     0 \<le> hm_next_offset h \<and> hm_next_offset h \<le> capacity_bytes (hm_config h) \<and>
     hm_next_bucket_id h = int (length (hm_allocations h)) \<and>
     alignment (hm_config h) dvd hm_next_offset h \<and>
     (\<forall>b \<in> set (dict_values (hm_allocations h)). alignment (hm_config h) dvd ba_offset b) \<and>
     tiled (hm_base_ptr h) 0 0 (hm_allocations h) (hm_next_offset h)"

lemma tiled_le: "tiled base off i bs fin \<Longrightarrow> off \<le> fin"
  by (induction bs arbitrary: off i) force+

lemma tiled_keys: "tiled base off i bs fin \<Longrightarrow> dict_has k bs \<longleftrightarrow> i \<le> k \<and> k < i + int (length bs)"
proof (induction bs arbitrary: off i)
  case (Cons p bs)
  obtain k' b where p: "p = (k', b)" by (cases p)
  with Cons.prems have "tiled base (off + ba_capacity b) (i + 1) bs fin" "k' = i" by auto
  with Cons.IH [of "off + ba_capacity b" "i + 1"] p show ?case by auto
qed simp

lemma tiled_snoc:
  "tiled base off i (bs @ [(k, b)]) fin' \<longleftrightarrow>
     (\<exists>fin. tiled base off i bs fin \<and> tiled base fin (i + int (length bs)) [(k, b)] fin')"
  by (induction bs arbitrary: off i) (auto simp: add.assoc)

lemma tiled_member:
  assumes "tiled base off i bs fin" "(k, b) \<in> set bs"
  shows "ba_bucket_id b = k \<and> off \<le> ba_offset b \<and> ba_offset b + ba_capacity b \<le> fin \<and>
    0 < ba_capacity b \<and> ba_buffer b = \<lparr>v_ptr = base + ba_offset b, v_numel = ba_capacity b\<rparr>"
  using assms
proof (induction bs arbitrary: off i)
  case (Cons p bs)
  obtain k' b' where p: "p = (k', b')" by (cases p)
  with Cons.prems have t: "tiled base (off + ba_capacity b') (i + 1) bs fin" "0 < ba_capacity b'"
    by auto
  show ?case
  proof (cases "(k, b) \<in> set bs")
    case True
    from Cons.IH [OF t(1) True] t(2) show ?thesis by auto
  next
    case False
    with Cons.prems p tiled_le [OF t(1)] show ?thesis by auto
  qed
qed simp

lemma tiled_disjoint:
  assumes "tiled base off i bs fin" "(j, a) \<in> set bs" "(k, b) \<in> set bs" "j < k"
  shows "ba_offset a + ba_capacity a \<le> ba_offset b"
  using assms
proof (induction bs arbitrary: off i)
  case (Cons p bs)
  obtain i' c where p: "p = (i', c)" by (cases p)
  have t: "tiled base (off + ba_capacity c) (i + 1) bs fin" "i' = i" "ba_offset c = off"
    using Cons.prems(1) p by auto
  have ge: "(m, d) \<in> set bs \<Longrightarrow> i < m" for m d
    using tiled_keys [OF t(1), of m] dict_has_iff [of m bs] by force
  show ?case
  proof (cases "(j, a) \<in> set bs")
    case True
    moreover have "(k, b) \<in> set bs" using ge [OF True] Cons.prems(3,4) p t(2) by auto
    ultimately show ?thesis using Cons.IH t(1) Cons.prems(4) by blast
  next
    case False
    then have "j = i'" "a = c" using Cons.prems(2) p by auto
    moreover have "(k, b) \<in> set bs" using \<open>j = i'\<close> Cons.prems(3,4) p by auto
    ultimately show ?thesis using tiled_member [OF t(1)] t(3) by auto
  qed
qed simp

lemma tiled_put:
  assumes "tiled base off i bs fin" "dict_get bs (ba_bucket_id b) = Some b0"
    "ba_offset b = ba_offset b0" "ba_capacity b = ba_capacity b0" "ba_buffer b = ba_buffer b0"
  shows "tiled base off i (dict_set (ba_bucket_id b) b bs) fin"
  using assms by (induction bs arbitrary: off i) (auto split: if_splits)

subsection \<open>Every operation keeps it\<close>

lemma hm_init_wf:
  assumes "0 < alignment cfg" "hm_init cfg raw ret errno = Ok h"
  shows "hm_wf h" "hm_config h = cfg" "hm_allocations h = []" "hm_next_offset h = 0"
proof -
  let ?a = "alignment cfg" and ?c = "capacity_bytes cfg"
  from assms(2) have c: "0 < ?c" by (auto simp: hm_init_def split: if_splits)
  obtain up where up: "align_up raw ?a = Ok up" using assms(1) by (simp add: align_up_Ok)
  note b = align_up_bounds [OF assms(1) up]
  let ?owner = "\<lparr>v_ptr = raw, v_numel = ?c + ?a\<rparr>" and ?pool = "\<lparr>v_ptr = up, v_numel = ?c\<rparr>"
  let ?h = "\<lparr>hm_config = cfg, hm_pool_owner = ?owner, hm_pool = ?pool, hm_next_offset = 0,
             hm_next_bucket_id = 0, hm_allocations = [], hm_locked = False\<rparr>"
  have n: "narrow ?owner (up - raw) ?c = Ok ?pool" using b c by (simp add: narrow_in)
  have wf: "hm_wf ?h" using b c assms(1) by (simp add: hm_wf_def pool_ok_def hm_base_ptr_def Let_def)
  have "h = ?h \<or> h = ?h\<lparr>hm_locked := True\<rparr>"
    using assms c up n by (auto simp: hm_init_def torch_empty_def lock_pool_def Let_def split: if_splits)
  with wf show "hm_wf h" "hm_config h = cfg" "hm_allocations h = []" "hm_next_offset h = 0"
    by (auto simp: hm_wf_def pool_ok_def hm_base_ptr_def Let_def)
qed

text \<open>What \<open>allocate_bucket\<close> does on a well-formed pool, branch by branch.\<close>

lemma allocate_bucket_cases:
  assumes "hm_wf h"
  obtains
    (bad) "cap \<le> 0" "allocate_bucket cap used h = (Err (ValueError ''capacity must be positive''), h)"
  | (full) c where "0 < cap" "align_up cap (alignment (hm_config h)) = Ok c"
      "capacity_bytes (hm_config h) < hm_next_offset h + c"
      "allocate_bucket cap used h = (Err (MemoryError ''Static weight cache exhausted''), h)"
  | (ok) c b h' where "0 < cap" "align_up cap (alignment (hm_config h)) = Ok c"
      "hm_next_offset h + c \<le> capacity_bytes (hm_config h)"
      "allocate_bucket cap used h = (Ok b, h')"
      "b = \<lparr>ba_bucket_id = hm_next_bucket_id h, ba_offset = hm_next_offset h, ba_capacity = c,
            ba_used_bytes = (case used of None \<Rightarrow> c | Some u \<Rightarrow> u),
            ba_buffer = \<lparr>v_ptr = hm_base_ptr h + hm_next_offset h, v_numel = c\<rparr>\<rparr>"
      "h' = h\<lparr>hm_next_bucket_id := hm_next_bucket_id h + 1, hm_next_offset := hm_next_offset h + c,
              hm_allocations := hm_allocations h @ [(hm_next_bucket_id h, b)]\<rparr>"
proof (cases "cap \<le> 0")
  case True then show ?thesis by (intro bad) (simp_all add: allocate_bucket_def)
next
  case False
  have a: "0 < alignment (hm_config h)" using assms by (simp add: hm_wf_def pool_ok_def Let_def)
  obtain c where c: "align_up cap (alignment (hm_config h)) = Ok c" using a by (simp add: align_up_Ok)
  show ?thesis
  proof (cases "capacity_bytes (hm_config h) < hm_next_offset h + c")
    case True
    with False c show ?thesis by (intro full) (simp_all add: allocate_bucket_def)
  next
    case fits: False
    have "narrow (hm_pool h) (hm_next_offset h) c
        = Ok \<lparr>v_ptr = hm_base_ptr h + hm_next_offset h, v_numel = c\<rparr>"
      using assms fits align_up_bounds(1) [OF a c] False
      by (simp add: narrow_in hm_wf_def pool_ok_def hm_base_ptr_def Let_def)
    moreover have "\<not> dict_has (hm_next_bucket_id h) (hm_allocations h)"
      using assms by (auto simp: hm_wf_def tiled_keys)
    ultimately show ?thesis using False c fits
      by (intro ok [OF _ c _ _ refl refl]) (simp_all add: allocate_bucket_def Let_def dict_set_new)
  qed
qed

lemma allocate_bucket_wf:
  assumes "hm_wf h"
  shows "hm_wf (snd (allocate_bucket cap used h))"
  using assms
proof (cases rule: allocate_bucket_cases [OF assms, of cap used])
  case (3 c b h')
  have a: "0 < alignment (hm_config h)" using assms by (simp add: hm_wf_def pool_ok_def Let_def)
  note al = align_up_bounds [OF a 3(2)]
  have "hm_wf h'" using assms al 3
    by (auto simp: hm_wf_def pool_ok_def hm_base_ptr_def Let_def tiled_snoc)
  then show ?thesis using 3 by simp
qed (use assms in simp_all)

lemma put_alloc_wf:
  assumes "hm_wf h" "(ba_bucket_id b, b0) \<in> set (hm_allocations h)"
    "ba_offset b = ba_offset b0" "ba_capacity b = ba_capacity b0" "ba_buffer b = ba_buffer b0"
  shows "hm_wf (put_alloc b h)"
proof -
  let ?A = "hm_allocations h" and ?k = "ba_bucket_id b"
  have t: "tiled (hm_base_ptr h) 0 0 ?A (hm_next_offset h)" using assms(1) by (simp add: hm_wf_def)
  have has: "dict_has ?k ?A" using assms(2) by (force simp: dict_has_iff)
  have "distinct (dict_keys xs)" if "tiled p o' i xs f" for p o' i xs f
    using that
  proof (induction xs arbitrary: o' i)
    case (Cons x xs)
    obtain k c where x: "x = (k, c)" by (cases x)
    with Cons.prems have tt: "tiled p (o' + ba_capacity c) (i + 1) xs f" "k = i" by auto
    have "\<not> dict_has i xs" by (simp add: tiled_keys [OF tt(1)])
    with Cons.IH [OF tt(1)] x tt(2) show ?case by (auto simp: dict_has_iff)
  qed simp
  then have get: "dict_get ?A ?k = Some b0" using t assms(2) by (intro map_of_is_SomeI) auto
  have "tiled (hm_base_ptr h) 0 0 (dict_set ?k b ?A) (hm_next_offset h)"
    using tiled_put [OF t get] assms(3-5) by simp
  moreover have "length (dict_set ?k b ?A) = length ?A"
    using dict_keys_set_old [OF has] by (metis length_map)
  moreover have "alignment (hm_config h) dvd ba_offset c" if "c \<in> set (dict_values (dict_set ?k b ?A))" for c
  proof -
    from that have "c = b \<or> c \<in> set (dict_values ?A)" by (rule dict_set_values)
    then show ?thesis using assms(1-3) by (auto simp: hm_wf_def image_iff)
  qed
  ultimately show ?thesis using assms(1)
    by (simp add: hm_wf_def pool_ok_def put_alloc_def hm_base_ptr_def Let_def)
qed

lemma view_copy_frame:
  assumes "view_copy v src m = Ok m'" "a < v_ptr v \<or> v_ptr v + v_numel v \<le> a" "0 \<le> v_numel v"
  shows "m' a = m a"
  using assms by (auto simp: view_copy_def mem_write_outside split: if_splits)

lemma view_slice_inside: "0 \<le> v_numel v \<Longrightarrow> v_ptr v \<le> v_ptr (view_slice v lo hi) \<and>
    0 \<le> v_numel (view_slice v lo hi) \<and>
    v_ptr (view_slice v lo hi) + v_numel (view_slice v lo hi) \<le> v_ptr v + v_numel v"
  by (auto simp: view_slice_def slice_bound_def Let_def)

lemma write_bytes_shape:
  assumes "write_bytes b off data m = Ok (b', m')"
  shows "b' = b\<lparr>ba_used_bytes := ba_used_bytes b'\<rparr> \<and> ba_used_bytes b \<le> ba_used_bytes b' \<and>
    off + int (length data) \<le> ba_capacity b"
  using assms by (auto simp: write_bytes_def Let_def split: if_splits)

section \<open>Reachable pools\<close>

text \<open>The operations a process can run on the pool object, in any order.\<close>

inductive hm_step :: "host_mem_manager \<Rightarrow> host_mem_manager \<Rightarrow> bool" where
  allocate: "hm_step h (snd (allocate_bucket cap used h))"
| write_data: "get_bucket k h = Ok b \<Longrightarrow> write_bytes b off data m = Ok (b', m') \<Longrightarrow>
    hm_step h (put_alloc b' h)"
| close_pool: "hm_close ret h = Ok h' \<Longrightarrow> hm_step h h'"

inductive hm_reach :: "host_mem_config \<Rightarrow> host_mem_manager \<Rightarrow> bool" for cfg where
  init: "hm_init cfg raw ret errno = Ok h \<Longrightarrow> hm_reach cfg h"
| step: "hm_reach cfg h \<Longrightarrow> hm_step h h' \<Longrightarrow> hm_reach cfg h'"

lemma get_bucket_member: "get_bucket k h = Ok b \<Longrightarrow> (k, b) \<in> set (hm_allocations h)"
  by (simp add: get_bucket_def dict_index_Ok map_of_SomeD)

lemma hm_step_wf:
  assumes "hm_step h h'" "hm_wf h"
  shows "hm_wf h'"
  using assms
proof (induction rule: hm_step.induct)
  case (allocate h cap used)
  then show ?case by (rule allocate_bucket_wf)
next
  case (write_data k h b off data m b' m')
  have mem: "(k, b) \<in> set (hm_allocations h)" by (rule get_bucket_member [OF write_data(1)])
  then have "ba_bucket_id b = k" using write_data(3) tiled_member unfolding hm_wf_def by blast
  moreover have "b' = b\<lparr>ba_used_bytes := ba_used_bytes b'\<rparr>"
    using write_bytes_shape [OF write_data(2)] by blast
  then have s: "ba_bucket_id b' = ba_bucket_id b" "ba_offset b' = ba_offset b"
    "ba_capacity b' = ba_capacity b" "ba_buffer b' = ba_buffer b"
    by (metis bucket_allocation.select_convs bucket_allocation.surjective
        bucket_allocation.update_convs(4))+
  ultimately show ?case using put_alloc_wf [OF write_data(3) _ s(2-4)] mem by simp
next
  case (close_pool ret h h')
  then show ?case
    by (fastforce simp: hm_close_def unlock_pool_def hm_wf_def pool_ok_def hm_base_ptr_def Let_def
        split: if_splits)
qed

lemma hm_reach_wf: "hm_reach cfg h \<Longrightarrow> 0 < alignment cfg \<Longrightarrow> hm_wf h"
  by (induction rule: hm_reach.induct) (auto intro: hm_init_wf hm_step_wf)


definition demo_cfg :: host_mem_config where
  "demo_cfg = \<lparr>capacity_bytes = 64, alignment = 16, pin_memory = True, lock_memory = False\<rparr>"

definition demo_pool :: host_mem_manager where
  "demo_pool = (case hm_init demo_cfg 1000 0 0 of Inr h \<Rightarrow>
     snd (allocate_bucket 20 None (snd (allocate_bucket 10 (Some 0) h))) | Inl _ \<Rightarrow> undefined)"

definition demo_bucket :: "int \<Rightarrow> int \<Rightarrow> int \<Rightarrow> int \<Rightarrow> bucket_allocation" where
  "demo_bucket i off c u = \<lparr>ba_bucket_id = i, ba_offset = off, ba_capacity = c, ba_used_bytes = u,
     ba_buffer = \<lparr>v_ptr = 1008 + off, v_numel = c\<rparr>\<rparr>"

lemma demo_init: "\<exists>h. hm_init demo_cfg 1000 0 0 = Ok h \<and>
    demo_pool = snd (allocate_bucket 20 None (snd (allocate_bucket 10 (Some 0) h)))"
  by (simp add: demo_pool_def hm_init_def demo_cfg_def torch_empty_def align_up_def narrow_def Let_def)

lemma demo_reach: "hm_reach demo_cfg demo_pool"
proof -
  obtain h where h: "hm_init demo_cfg 1000 0 0 = Ok h"
    and d: "demo_pool = snd (allocate_bucket 20 None (snd (allocate_bucket 10 (Some 0) h)))"
    using demo_init by blast
  show ?thesis unfolding d
    by (rule hm_reach.step [OF hm_reach.step [OF hm_reach.init [OF h] hm_step.allocate] hm_step.allocate])
qed

lemma demo_allocations:
  "hm_allocations demo_pool = [(0, demo_bucket 0 0 16 0), (1, demo_bucket 1 16 32 32)]"
  by (simp add: demo_pool_def demo_bucket_def hm_init_def demo_cfg_def torch_empty_def align_up_def
      narrow_def allocate_bucket_def Let_def)


section \<open>Allocation and writing\<close>

text \<open>
  On a well-formed pool \<open>allocate_bucket\<close> succeeds exactly when the capacity is positive and
  its aligned size fits behind the allocation pointer; a refused request changes nothing, and a
  granted one appends one bucket and moves the pointer by its aligned size.
\<close>

theorem allocate_bucket_succeeds_iff:
  assumes "hm_wf h" "align_up cap (alignment (hm_config h)) = Ok c"
  shows "(case allocate_bucket cap used h of
      (Inl e, h') \<Rightarrow> h' = h \<and> (cap \<le> 0 \<or> capacity_bytes (hm_config h) < hm_next_offset h + c)
    | (Inr b, h') \<Rightarrow> 0 < cap \<and> hm_next_offset h + c \<le> capacity_bytes (hm_config h) \<and>
        ba_capacity b = c \<and> cap \<le> c \<and> ba_offset b = hm_next_offset h \<and>
        hm_next_offset h' = hm_next_offset h + c \<and>
        hm_allocations h' = hm_allocations h @ [(hm_next_bucket_id h, b)])"
proof -
  have a: "0 < alignment (hm_config h)" using assms(1) by (simp add: hm_wf_def pool_ok_def Let_def)
  show ?thesis
    using align_up_bounds(1) [OF a assms(2)] assms(2)
    by (cases rule: allocate_bucket_cases [OF assms(1), of cap used]) simp_all
qed

theorem allocate_bucket_succeeds_iff_witness:
  "case allocate_bucket 17 None demo_pool of (Inl e, h') \<Rightarrow> h' = demo_pool | (Inr b, h') \<Rightarrow> False"
proof -
  have wf: "hm_wf demo_pool" using hm_reach_wf [OF demo_reach] by (simp add: demo_cfg_def)
  have s: "hm_config demo_pool = demo_cfg" "hm_next_offset demo_pool = 48"
    by (simp_all add: demo_pool_def hm_init_def demo_cfg_def torch_empty_def align_up_def
      narrow_def allocate_bucket_def Let_def)
  show ?thesis
    using allocate_bucket_succeeds_iff [OF wf, of 17 32 None]
    by (auto simp: s align_up_def demo_cfg_def split: prod.splits sum.splits)
qed

text \<open>
  \<open>write_bytes\<close> reads back what it wrote, touches no byte outside its bucket whatever the
  offset, and never lowers \<open>used_bytes\<close>.
\<close>

theorem write_bytes_contained:
  assumes "write_bytes b off data m = Ok (b', m')" "0 \<le> off"
    "v_numel (ba_buffer b) = ba_capacity b"
  shows "mem_read m' (ba_base_ptr b + off) (length data) = data \<and>
    (\<forall>p. p < ba_base_ptr b \<or> ba_base_ptr b + ba_capacity b \<le> p \<longrightarrow> m' p = m p) \<and>
    ba_used_bytes b' = max (ba_used_bytes b) (off + int (length data))"
proof -
  let ?e = "off + int (length data)"
  have e: "?e \<le> ba_capacity b" using write_bytes_shape [OF assms(1)] by blast
  have sl: "view_slice (ba_buffer b) off ?e = \<lparr>v_ptr = ba_base_ptr b + off, v_numel = int (length data)\<rparr>"
    using assms(2,3) e by (simp add: view_slice_in ba_base_ptr_def)
  have "m' = mem_write m (ba_base_ptr b + off) data" "ba_used_bytes b' = max (ba_used_bytes b) ?e"
    using assms(1) by (auto simp: write_bytes_def Let_def sl view_copy_def split: if_splits)
  with assms(2) e show ?thesis by (auto simp: mem_write_outside)
qed

theorem write_bytes_contained_witness:
  "\<exists>b' m'. write_bytes (demo_bucket 0 0 16 0) 4 [7, 9] (\<lambda>_. 0) = Ok (b', m') \<and>
     mem_read m' 1012 2 = [7, 9]"
proof -
  have w: "write_bytes (demo_bucket 0 0 16 0) 4 [7, 9] (\<lambda>_. 0)
      = Ok ((demo_bucket 0 0 16 0)\<lparr>ba_used_bytes := 6\<rparr>, mem_write (\<lambda>_. 0) 1012 [7, 9])"
    by (simp add: write_bytes_def demo_bucket_def view_slice_def slice_bound_def view_copy_def Let_def)
  show ?thesis
    using w write_bytes_contained [OF w]
    by (simp add: demo_bucket_def ba_base_ptr_def) (simp add: numeral_2_eq_2)
qed

lemma stats_balance: "st_used_bytes (stats h) + st_free_bytes (stats h) = st_capacity_bytes (stats h)"
  by (simp add: stats_def)

lemma stats_bucket_count: "hm_wf h \<Longrightarrow> st_bucket_count (stats h) = hm_next_bucket_id h"
  by (simp add: stats_def hm_wf_def)

end
