(* ===== verification/Protocol.thy ===== *)
theory Protocol
  imports Prelude
begin

text \<open>
  The metadata objects and their wire form (\<open>static_weight_cache/protocol.py\<close>). The control
  socket carries pickled Python values; \<open>wire\<close> is the part of them that the protocol uses.
\<close>

section \<open>Wire values\<close>

datatype wire =
    WNone
  | WBool bool
  | WInt int
  | WStr string
  | WTuple "wire list"
  | WList "wire list"
  | WDict "(string \<times> wire) list"

text \<open>Subscripting, \<open>.get\<close> with a default, truth value and hashability of a Python value.\<close>

fun wire_get :: "string \<Rightarrow> wire \<Rightarrow> wire result" where
  "wire_get k (WDict d) = dict_index k d"
| "wire_get k _ = Err (TypeError ''not subscriptable by a string'')"

fun wire_get_default :: "string \<Rightarrow> wire \<Rightarrow> wire \<Rightarrow> wire result" where
  "wire_get_default k dflt (WDict d) = Ok (case dict_get d k of None \<Rightarrow> dflt | Some v \<Rightarrow> v)"
| "wire_get_default k dflt _ = Err (AttributeError ''no attribute get'')"

fun wire_nth :: "wire \<Rightarrow> int \<Rightarrow> wire result" where
  "wire_nth (WList xs) i = py_nth xs i"
| "wire_nth (WTuple xs) i = py_nth xs i"
| "wire_nth (WStr s) i = bind_res (py_nth s i) (\<lambda>c. Ok (WStr [c]))"
| "wire_nth (WDict d) i = Err (KeyError '''')"
| "wire_nth _ i = Err (TypeError ''object is not subscriptable'')"

fun wire_int :: "wire \<Rightarrow> int result" where
  "wire_int (WInt i) = Ok i"
| "wire_int (WBool b) = Ok (if b then 1 else 0)"
| "wire_int (WStr s) = py_int s"
| "wire_int _ = Err (TypeError ''int() argument'')"

text \<open>A value used as an integer without \<open>int()\<close>, and a tuple of such values.\<close>

fun wire_index :: "wire \<Rightarrow> int result" where
  "wire_index (WInt i) = Ok i"
| "wire_index (WBool b) = Ok (if b then 1 else 0)"
| "wire_index _ = Err (TypeError ''cannot be interpreted as an integer'')"

fun wire_ints :: "wire \<Rightarrow> int list result" where
  "wire_ints (WTuple xs) = map_res wire_index xs"
| "wire_ints (WList xs) = map_res wire_index xs"
| "wire_ints (WStr s) = map_res wire_index (map (\<lambda>c. WStr [c]) s)"
| "wire_ints (WDict d) = map_res wire_index (map (\<lambda>kv. WStr (fst kv)) d)"
| "wire_ints _ = Err (TypeError ''not iterable'')"

fun wire_true :: "wire \<Rightarrow> bool" where
  "wire_true WNone = False"
| "wire_true (WBool b) = b"
| "wire_true (WInt i) = (i \<noteq> 0)"
| "wire_true (WStr s) = (s \<noteq> [])"
| "wire_true (WTuple xs) = (xs \<noteq> [])"
| "wire_true (WList xs) = (xs \<noteq> [])"
| "wire_true (WDict d) = (d \<noteq> [])"

fun hashable :: "wire \<Rightarrow> bool" where
  "hashable (WTuple xs) = list_all hashable xs"
| "hashable (WList xs) = False"
| "hashable (WDict d) = False"
| "hashable _ = True"

definition opt_str :: "string option \<Rightarrow> wire" where
  "opt_str s = (case s of None \<Rightarrow> WNone | Some x \<Rightarrow> WStr x)"

lemma wire_ints_tuple [simp]: "wire_ints (WTuple (map WInt xs)) = Ok xs"
  by (simp, induction xs) simp_all

section \<open>Metadata\<close>

record tensor_metadata =
  tm_name :: string
  tm_shape :: "int list"
  tm_dtype :: string
  tm_offset :: int
  tm_nbytes :: int

definition tensor_to_wire :: "tensor_metadata \<Rightarrow> wire" where
  "tensor_to_wire t = WDict
     [(''name'', WStr (tm_name t)), (''shape'', WTuple (map WInt (tm_shape t))),
      (''dtype'', WStr (tm_dtype t)), (''offset'', WInt (tm_offset t)),
      (''nbytes'', WInt (tm_nbytes t))]"

record bucket_metadata =
  bm_bucket_id :: int
  bm_base_ptr :: int
  bm_capacity :: int
  bm_used_bytes :: int
  bm_tensors :: "(string, tensor_metadata) dict"

definition tensor_entry :: "tensor_metadata \<Rightarrow> wire" where
  "tensor_entry t = WDict
     [(''shape'', WTuple (map WInt (tm_shape t))), (''dtype'', WStr (tm_dtype t)),
      (''offset'', WInt (tm_offset t)), (''nbytes'', WInt (tm_nbytes t))]"

definition to_flexfetch_bucket_meta :: "bucket_metadata \<Rightarrow> wire" where
  "to_flexfetch_bucket_meta b = WDict (map (\<lambda>(name, t). (name, tensor_entry t)) (bm_tensors b))"

record model_metadata =
  mm_model_id :: string
  mm_revision :: "string option"
  mm_bucket_num :: int
  mm_buckets :: "bucket_metadata list"
  mm_status :: string

definition to_weight_info :: "model_metadata \<Rightarrow> wire" where
  "to_weight_info md = WDict
     [(''bucket_num'', WInt (mm_bucket_num md)),
      (''bucket_meta'', WList (map to_flexfetch_bucket_meta (mm_buckets md))),
      (''bases'', WList (map (\<lambda>b. WInt (bm_base_ptr b)) (mm_buckets md))),
      (''capacities'', WList (map (\<lambda>b. WInt (bm_capacity b)) (mm_buckets md))),
      (''used_bytes'', WList (map (\<lambda>b. WInt (bm_used_bytes b)) (mm_buckets md)))]"

section \<open>Queries and responses\<close>

record cache_query =
  cq_model_id :: wire
  cq_revision :: wire

fun query_from_wire :: "wire \<Rightarrow> cache_query result" where
  "query_from_wire (WStr s) = Ok \<lparr>cq_model_id = WStr s, cq_revision = WNone\<rparr>"
| "query_from_wire (WDict d) =
     bind_res (wire_get ''model_id'' (WDict d)) (\<lambda>mid.
     bind_res (wire_get_default ''revision'' WNone (WDict d)) (\<lambda>rev.
       Ok \<lparr>cq_model_id = mid, cq_revision = rev\<rparr>))"
| "query_from_wire _ = Err (TypeError ''Unsupported cache query payload'')"

record cache_response =
  cr_ok :: bool
  cr_peer_sid :: "string option"
  cr_weight_info :: "wire option"
  cr_error :: "string option"

definition response_to_wire :: "cache_response \<Rightarrow> wire" where
  "response_to_wire r = WDict
     [(''ok'', WBool (cr_ok r)),
      (''peer_sid'', opt_str (cr_peer_sid r)),
      (''weight_info'', (case cr_weight_info r of None \<Rightarrow> WDict []
                        | Some w \<Rightarrow> if wire_true w then w else WDict [])),
      (''error'', opt_str (cr_error r))]"

text \<open>\<open>str(err)\<close>: the message, or the quoted key of a \<open>KeyError\<close>.\<close>

fun err_text :: "py_error \<Rightarrow> string" where
  "err_text (KeyError k) = CHR 0x27 # k @ [CHR 0x27]"
| "err_text (ValueError s) = s"
| "err_text (IndexError s) = s"
| "err_text (TypeError s) = s"
| "err_text (AttributeError s) = s"
| "err_text (MemoryError s) = s"
| "err_text (RuntimeError s) = s"
| "err_text (OSError n s) = s"
| "err_text (ConnectionError s) = s"
| "err_text (FileNotFoundError s) = s"
| "err_text (NotImplementedError s) = s"
| "err_text (AssertionError s) = s"
| "err_text (StructError s) = s"
| "err_text ZeroDivisionError = ''integer division or modulo by zero''"

lemma to_weight_info_get:
  "wire_get ''bucket_num'' (to_weight_info md) = Ok (WInt (mm_bucket_num md))"
  "wire_get ''bucket_meta'' (to_weight_info md) = Ok (WList (map to_flexfetch_bucket_meta (mm_buckets md)))"
  "wire_get ''bases'' (to_weight_info md) = Ok (WList (map (\<lambda>b. WInt (bm_base_ptr b)) (mm_buckets md)))"
  "wire_get ''capacities'' (to_weight_info md) = Ok (WList (map (\<lambda>b. WInt (bm_capacity b)) (mm_buckets md)))"
  "wire_get_default ''used_bytes'' d (to_weight_info md)
     = Ok (WList (map (\<lambda>b. WInt (bm_used_bytes b)) (mm_buckets md)))"
  by (simp_all add: to_weight_info_def dict_index_def)

lemma tensor_entry_get:
  "wire_get ''shape'' (tensor_entry t) = Ok (WTuple (map WInt (tm_shape t)))"
  "wire_get ''dtype'' (tensor_entry t) = Ok (WStr (tm_dtype t))"
  "wire_get ''offset'' (tensor_entry t) = Ok (WInt (tm_offset t))"
  by (simp_all add: tensor_entry_def dict_index_def)

lemma to_weight_info_true: "wire_true (to_weight_info md)"
  by (simp add: to_weight_info_def)

lemma response_get:
  "wire_get ''peer_sid'' (response_to_wire r) = Ok (opt_str (cr_peer_sid r))"
  "wire_get_default ''ok'' d (response_to_wire r) = Ok (WBool (cr_ok r))"
  "wire_get_default ''error'' d (response_to_wire r) = Ok (opt_str (cr_error r))"
  "cr_weight_info r = Some w \<Longrightarrow> wire_true w \<Longrightarrow> wire_get ''weight_info'' (response_to_wire r) = Ok w"
  by (simp_all add: response_to_wire_def dict_index_def)

end
