(* ===== verification/ModelPack.thy ===== *)
theory ModelPack
  imports HostMem Protocol
begin

text \<open>
  Packing model weights into buckets (\<open>static_weight_cache/model_manager.py\<close>). The iterable
  of named tensors is a list; a tensor is its shape, dtype name, element size and its bytes
  in contiguous order. The loop of \<open>load_from_named_tensors\<close> with its four local variables
  is a state that each tensor steps. The lemmas show that the buckets hold the tensors in
  order, one behind the other, that nothing outside the newly allocated part of the pool is
  written, and that the only failures are the pool's exhaustion and a repeated model id.
\<close>

section \<open>Data\<close>

record tensor =
  t_shape :: "int list"
  t_dtype :: string
  t_elem_size :: int
  t_data :: "byte list"

definition t_numel :: "tensor \<Rightarrow> int" where
  "t_numel t = prod_list (t_shape t)"

text \<open>What torch guarantees of a contiguous CPU tensor.\<close>

definition tensor_ok :: "tensor \<Rightarrow> bool" where
  "tensor_ok t \<longleftrightarrow> 0 < t_elem_size t \<and> int (length (t_data t)) = t_numel t * t_elem_size t"

record model_manager =
  mg_pool :: host_mem_manager
  mg_bucket_size :: int
  mg_models :: "(string, model_metadata) dict"

definition mg_init :: "host_mem_manager \<Rightarrow> int \<Rightarrow> model_manager result" where
  "mg_init h bucket_size =
     (if bucket_size \<le> 0 then Err (ValueError ''bucket_size_bytes must be positive'')
      else Ok \<lparr>mg_pool = h, mg_bucket_size = bucket_size, mg_models = []\<rparr>)"

definition list_models :: "model_manager \<Rightarrow> string list" where
  "list_models g = dict_keys (mg_models g)"

text \<open>The id comes from the wire: any value; an unhashable one cannot be looked up.\<close>

definition get_model :: "wire \<Rightarrow> model_manager \<Rightarrow> model_metadata result" where
  "get_model mid g =
     (if \<not> hashable mid then Err (TypeError ''unhashable type'')
      else case mid of
        WStr s \<Rightarrow> (case dict_get (mg_models g) s of None \<Rightarrow> Err (KeyError s) | Some md \<Rightarrow> Ok md)
      | _ \<Rightarrow> Err (KeyError ''''))"

section \<open>The packing loop\<close>

record pack_state =
  pk_pool :: host_mem_manager
  pk_mem :: mem
  pk_buckets :: "bucket_metadata list"
  pk_alloc :: "bucket_allocation option"
  pk_tensors :: "(string, tensor_metadata) dict"
  pk_offset :: int

definition flush_bucket :: "pack_state \<Rightarrow> pack_state" where
  "flush_bucket s = (case pk_alloc s of
       None \<Rightarrow> s
     | Some b \<Rightarrow>
         (let b' = b\<lparr>ba_used_bytes := pk_offset s\<rparr>
          in s\<lparr>pk_pool := put_alloc b' (pk_pool s),
               pk_buckets := pk_buckets s @
                 [\<lparr>bm_bucket_id = ba_bucket_id b', bm_base_ptr = ba_base_ptr b',
                   bm_capacity = ba_capacity b', bm_used_bytes = ba_used_bytes b',
                   bm_tensors = pk_tensors s\<rparr>],
               pk_alloc := None, pk_tensors := [], pk_offset := 0\<rparr>))"

definition copy_tensor_to_bucket ::
    "bucket_allocation \<Rightarrow> int \<Rightarrow> tensor \<Rightarrow> mem \<Rightarrow> (int \<times> bucket_allocation \<times> mem) result" where
  "copy_tensor_to_bucket b off t m =
     (let src = t_data t; e = off + int (length src)
      in if ba_capacity b < e then Err (ValueError ''Write exceeds bucket capacity'')
         else bind_res (view_copy (view_slice (ba_buffer b) off e) src m) (\<lambda>m'.
           Ok (int (length src), b\<lparr>ba_used_bytes := max (ba_used_bytes b) e\<rparr>, m')))"

definition open_bucket :: "int \<Rightarrow> pack_state \<Rightarrow> unit result \<times> pack_state" where
  "open_bucket cap s = (case allocate_bucket cap (Some 0) (pk_pool s) of
       (Inl e, h) \<Rightarrow> (Err e, s\<lparr>pk_pool := h\<rparr>)
     | (Inr b, h) \<Rightarrow> (Ok (), s\<lparr>pk_pool := h, pk_alloc := Some b\<rparr>))"

text \<open>Copy a tensor to the open bucket at the current offset and record its metadata.\<close>

definition store_tensor :: "string \<Rightarrow> tensor \<Rightarrow> pack_state \<Rightarrow> unit result \<times> pack_state" where
  "store_tensor name t s = (case pk_alloc s of
       None \<Rightarrow> (Err (TypeError ''NoneType''), s)
     | Some b \<Rightarrow>
         (case copy_tensor_to_bucket b (pk_offset s) t (pk_mem s) of
            Inl e \<Rightarrow> (Err e, s)
          | Inr (written, b', m') \<Rightarrow>
              (Ok (), s\<lparr>pk_pool := put_alloc b' (pk_pool s), pk_mem := m', pk_alloc := Some b',
                 pk_offset := pk_offset s + written,
                 pk_tensors := dict_set name
                   \<lparr>tm_name = name, tm_shape = t_shape t, tm_dtype = t_dtype t,
                    tm_offset = pk_offset s, tm_nbytes = written\<rparr> (pk_tensors s)\<rparr>)))"

definition then_do ::
    "unit result \<times> pack_state \<Rightarrow> (pack_state \<Rightarrow> unit result \<times> pack_state) \<Rightarrow> unit result \<times> pack_state" where
  "then_do r f = (case r of (Inl e, s) \<Rightarrow> (Err e, s) | (Inr _, s) \<Rightarrow> f s)"

definition pack_tensor :: "int \<Rightarrow> string \<times> tensor \<Rightarrow> pack_state \<Rightarrow> unit result \<times> pack_state" where
  "pack_tensor bsz nt s =
     (let name = fst nt; t = snd nt; nbytes = t_numel t * t_elem_size t
      in if bsz < nbytes then
           then_do (open_bucket nbytes (flush_bucket s)) (\<lambda>s1.
           then_do (store_tensor name t s1) (\<lambda>s2.
             (Ok (), flush_bucket s2)))
         else
           then_do (case pk_alloc s of
                      None \<Rightarrow> open_bucket bsz s
                    | Some b \<Rightarrow> if ba_capacity b < pk_offset s + nbytes
                                then open_bucket bsz (flush_bucket s) else (Ok (), s))
             (store_tensor name t))"

fun pack_all :: "int \<Rightarrow> (string \<times> tensor) list \<Rightarrow> pack_state \<Rightarrow> unit result \<times> pack_state" where
  "pack_all bsz [] s = (Ok (), s)"
| "pack_all bsz (nt # nts) s = then_do (pack_tensor bsz nt s) (pack_all bsz nts)"

definition pack_start :: "host_mem_manager \<Rightarrow> mem \<Rightarrow> pack_state" where
  "pack_start h m = \<lparr>pk_pool = h, pk_mem = m, pk_buckets = [], pk_alloc = None,
     pk_tensors = [], pk_offset = 0\<rparr>"

definition load_from_named_tensors ::
    "string \<Rightarrow> (string \<times> tensor) list \<Rightarrow> string option \<Rightarrow> model_manager \<times> mem
     \<Rightarrow> model_metadata result \<times> model_manager \<times> mem" where
  "load_from_named_tensors mid nts revision gm =
     (let g = fst gm; m = snd gm
      in if dict_has mid (mg_models g) then (Err (ValueError ''Model already loaded''), g, m)
         else case pack_all (mg_bucket_size g) nts (pack_start (mg_pool g) m) of
           (Inl e, s) \<Rightarrow> (Err e, g\<lparr>mg_pool := pk_pool s\<rparr>, pk_mem s)
         | (Inr _, s) \<Rightarrow>
             (let s' = flush_bucket s;
                  md = \<lparr>mm_model_id = mid, mm_revision = revision,
                        mm_bucket_num = int (length (pk_buckets s')),
                        mm_buckets = pk_buckets s', mm_status = ''READY''\<rparr>
              in (Ok md, g\<lparr>mg_pool := pk_pool s', mg_models := dict_set mid md (mg_models g)\<rparr>,
                  pk_mem s')))"

text \<open>
  A directory is its file names with the named tensors of each file, in header order.
  Whether the safetensors package can be imported is an argument.
\<close>

definition has_suffix :: "string \<Rightarrow> string \<Rightarrow> bool" where
  "has_suffix suf s \<longleftrightarrow> length suf \<le> length s \<and> drop (length s - length suf) s = suf"

definition load_safetensors_dir ::
    "bool \<Rightarrow> (string \<times> (string \<times> tensor) list) list \<Rightarrow> string \<Rightarrow> string option
     \<Rightarrow> model_manager \<times> mem \<Rightarrow> model_metadata result \<times> model_manager \<times> mem" where
  "load_safetensors_dir have_safetensors dir mid revision gm =
     (if \<not> have_safetensors
      then (Err (RuntimeError ''safetensors is required to load safetensors model files''), gm)
      else let files = sort_key fst (filter (\<lambda>f. has_suffix ''.safetensors'' (fst f)) dir)
        in if files = [] then (Err (FileNotFoundError ''No safetensors files found''), gm)
           else load_from_named_tensors mid (concat (map snd files)) revision gm)"

section \<open>What a bucket holds\<close>

definition bytes_of :: "(string \<times> tensor) list \<Rightarrow> byte list" where
  "bytes_of nts = concat (map (\<lambda>nt. t_data (snd nt)) nts)"

fun metas :: "int \<Rightarrow> (string \<times> tensor) list \<Rightarrow> (string, tensor_metadata) dict" where
  "metas off [] = []"
| "metas off ((n, t) # nts) =
     (n, \<lparr>tm_name = n, tm_shape = t_shape t, tm_dtype = t_dtype t, tm_offset = off,
          tm_nbytes = int (length (t_data t))\<rparr>) # metas (off + int (length (t_data t))) nts"

text \<open>
  \<open>bucket_holds m bm nts\<close>: the bucket's bytes in memory \<open>m\<close> are those of \<open>nts\<close>, one tensor
  behind the other from its base address, and its metadata says so.
\<close>

definition bucket_holds :: "mem \<Rightarrow> bucket_metadata \<Rightarrow> (string \<times> tensor) list \<Rightarrow> bool" where
  "bucket_holds m bm nts \<longleftrightarrow>
     bm_tensors bm = metas 0 nts \<and> bm_used_bytes bm = int (length (bytes_of nts)) \<and>
     bm_used_bytes bm \<le> bm_capacity bm \<and>
     mem_read m (bm_base_ptr bm) (length (bytes_of nts)) = bytes_of nts"

definition bucket_registered :: "host_mem_manager \<Rightarrow> bucket_metadata \<Rightarrow> bool" where
  "bucket_registered h bm \<longleftrightarrow>
     (\<exists>b. dict_get (hm_allocations h) (bm_bucket_id bm) = Some b \<and>
          ba_base_ptr b = bm_base_ptr bm \<and> ba_capacity b = bm_capacity bm)"

definition frontier :: "host_mem_manager \<Rightarrow> int" where
  "frontier h = hm_base_ptr h + hm_next_offset h"

definition pool_end :: "host_mem_manager \<Rightarrow> int" where
  "pool_end h = hm_base_ptr h + capacity_bytes (hm_config h)"

lemma bytes_of_simps [simp]:
  "bytes_of [] = []"
  "bytes_of (nt # nts) = t_data (snd nt) @ bytes_of nts"
  "bytes_of (xs @ ys) = bytes_of xs @ bytes_of ys"
  by (simp_all add: bytes_of_def)

lemma keys_metas [simp]: "dict_keys (metas off nts) = map fst nts"
  by (induction nts arbitrary: off) auto

lemma metas_append: "metas off (xs @ ys) = metas off xs @ metas (off + int (length (bytes_of xs))) ys"
  by (induction xs arbitrary: off) (auto simp: add.assoc)

lemma bucket_holds_frame:
  assumes "bucket_holds m bm nts"
    "\<And>p. bm_base_ptr bm \<le> p \<Longrightarrow> p < bm_base_ptr bm + bm_capacity bm \<Longrightarrow> m' p = m p"
  shows "bucket_holds m' bm nts"
proof -
  have "mem_read m' (bm_base_ptr bm) (length (bytes_of nts))
      = mem_read m (bm_base_ptr bm) (length (bytes_of nts))"
    using assms by (intro mem_read_cong assms(2)) (auto simp: bucket_holds_def)
  with assms(1) show ?thesis by (simp add: bucket_holds_def)
qed

section \<open>The loop invariant\<close>

definition open_front :: "pack_state \<Rightarrow> int" where
  "open_front s = (case pk_alloc s of None \<Rightarrow> frontier (pk_pool s) | Some b \<Rightarrow> ba_base_ptr b)"

definition open_ok :: "int \<Rightarrow> pack_state \<Rightarrow> (string \<times> tensor) list \<Rightarrow> bool" where
  "open_ok F s cur = (case pk_alloc s of
       None \<Rightarrow> cur = []
     | Some b \<Rightarrow>
         F \<le> ba_base_ptr b \<and> ba_base_ptr b + ba_capacity b = frontier (pk_pool s) \<and>
         dict_get (hm_allocations (pk_pool s)) (ba_bucket_id b) = Some b \<and>
         (\<forall>bm \<in> set (pk_buckets s). bm_bucket_id bm \<noteq> ba_bucket_id b) \<and>
         pk_offset s \<le> ba_capacity b \<and>
         mem_read (pk_mem s) (ba_base_ptr b) (length (bytes_of cur)) = bytes_of cur)"

definition pack_inv ::
    "int \<Rightarrow> int \<Rightarrow> mem \<Rightarrow> pack_state \<Rightarrow> (string \<times> tensor) list list \<Rightarrow> (string \<times> tensor) list \<Rightarrow> bool" where
  "pack_inv F E m0 s tss cur \<longleftrightarrow>
     hm_wf (pk_pool s) \<and> pool_end (pk_pool s) = E \<and> F \<le> frontier (pk_pool s) \<and>
     list_all2 (bucket_holds (pk_mem s)) (pk_buckets s) tss \<and>
     (\<forall>bm \<in> set (pk_buckets s). bucket_registered (pk_pool s) bm \<and> F \<le> bm_base_ptr bm \<and>
        bm_base_ptr bm + bm_capacity bm \<le> open_front s) \<and>
     pk_tensors s = metas 0 cur \<and> pk_offset s = int (length (bytes_of cur)) \<and>
     open_ok F s cur \<and>
     (\<forall>p. p < F \<or> E \<le> p \<longrightarrow> pk_mem s p = m0 p)"

lemma pool_wf_D:
  assumes "hm_wf h" "dict_get (hm_allocations h) k = Some b"
  shows "ba_bucket_id b = k" "0 < ba_capacity b"
    "ba_buffer b = \<lparr>v_ptr = ba_base_ptr b, v_numel = ba_capacity b\<rparr>"
    "ba_base_ptr b + ba_capacity b \<le> frontier h" "frontier h \<le> pool_end h"
  using assms tiled_member [of "hm_base_ptr h" 0 0 "hm_allocations h" "hm_next_offset h" k b]
  by (auto simp: hm_wf_def map_of_SomeD ba_base_ptr_def frontier_def pool_end_def)

lemma put_alloc_same_view:
  assumes "hm_wf h" "dict_get (hm_allocations h) (ba_bucket_id b) = Some b"
  shows "hm_wf (put_alloc (b\<lparr>ba_used_bytes := u\<rparr>) h)"
    "frontier (put_alloc (b\<lparr>ba_used_bytes := u\<rparr>) h) = frontier h"
    "pool_end (put_alloc (b\<lparr>ba_used_bytes := u\<rparr>) h) = pool_end h"
    "dict_get (hm_allocations (put_alloc (b\<lparr>ba_used_bytes := u\<rparr>) h))
       = (dict_get (hm_allocations h))(ba_bucket_id b \<mapsto> b\<lparr>ba_used_bytes := u\<rparr>)"
proof -
  show "hm_wf (put_alloc (b\<lparr>ba_used_bytes := u\<rparr>) h)"
    by (rule put_alloc_wf [OF assms(1), of _ b]) (simp_all add: map_of_SomeD assms(2))
qed (simp_all add: put_alloc_def frontier_def pool_end_def hm_base_ptr_def)

lemma base_ptr_used [simp]: "ba_base_ptr (b\<lparr>ba_used_bytes := u\<rparr>) = ba_base_ptr b"
  by (simp add: ba_base_ptr_def)

lemma registered_put [simp]:
  assumes "dict_get (hm_allocations h) (ba_bucket_id b) = Some b" "bucket_registered h bm"
  shows "bucket_registered (put_alloc (b\<lparr>ba_used_bytes := u\<rparr>) h) bm"
  using assms by (auto simp: bucket_registered_def put_alloc_def)

lemma flush_bucket_inv:
  assumes "pack_inv F E m0 s tss cur"
  shows "\<exists>tss'. pack_inv F E m0 (flush_bucket s) tss' [] \<and> concat tss' = concat tss @ cur"
proof (cases "pk_alloc s")
  case None
  then have "flush_bucket s = s" "cur = []"
    using assms by (simp_all add: flush_bucket_def pack_inv_def open_ok_def)
  with assms show ?thesis by auto
next
  case (Some b)
  let ?bm = "\<lparr>bm_bucket_id = ba_bucket_id b, bm_base_ptr = ba_base_ptr b,
                   bm_capacity = ba_capacity b, bm_used_bytes = pk_offset s,
                   bm_tensors = pk_tensors s\<rparr>"
  have op: "F \<le> ba_base_ptr b" "ba_base_ptr b + ba_capacity b = frontier (pk_pool s)"
    "dict_get (hm_allocations (pk_pool s)) (ba_bucket_id b) = Some b" "pk_offset s \<le> ba_capacity b"
    "mem_read (pk_mem s) (ba_base_ptr b) (length (bytes_of cur)) = bytes_of cur"
    and wf: "hm_wf (pk_pool s)"
    using assms Some by (simp_all add: pack_inv_def open_ok_def)
  note pa = put_alloc_same_view [OF wf op(3), of "pk_offset s"]
  have "pack_inv F E m0 (flush_bucket s) (tss @ [cur]) []"
    using assms Some op pa pool_wf_D [OF wf op(3)]
    by (auto simp: flush_bucket_def pack_inv_def open_front_def open_ok_def list_all2_appendI
        bucket_holds_def bucket_registered_def Let_def)
  then show ?thesis by (intro exI [of _ "tss @ [cur]"]) simp
qed

lemma open_bucket_inv:
  assumes "pack_inv F E m0 s tss []" "pk_alloc s = None" "0 < cap"
  shows "(\<exists>b s'. open_bucket cap s = (Ok (), s') \<and> pk_alloc s' = Some b \<and> cap \<le> ba_capacity b \<and>
            pack_inv F E m0 s' tss []) \<or>
         (\<exists>msg. open_bucket cap s = (Err (MemoryError msg), s))"
proof -
  have wf: "hm_wf (pk_pool s)" using assms(1) by (simp add: pack_inv_def)
  have a: "0 < alignment (hm_config (pk_pool s))" using wf by (simp add: hm_wf_def pool_ok_def Let_def)
  from wf show ?thesis
  proof (cases rule: allocate_bucket_cases [of "pk_pool s" cap "Some 0"])
    case bad with assms(3) show ?thesis by simp
  next
    case (full c)
    then show ?thesis by (auto simp: open_bucket_def)
  next
    case (ok c b h')
    have wf': "hm_wf h'" using allocate_bucket_wf [OF wf, of cap "Some 0"] ok(4) by simp
    have new: "\<not> dict_has (hm_next_bucket_id (pk_pool s)) (hm_allocations (pk_pool s))"
      using wf by (auto simp: hm_wf_def tiled_keys)
    have get: "dict_get (hm_allocations h') k = (if k = ba_bucket_id b then Some b
        else dict_get (hm_allocations (pk_pool s)) k)" for k
      using new ok(5,6) by (auto simp: map_add_def dict_has_def split: option.splits)
    have fr: "frontier h' = ba_base_ptr b + ba_capacity b" "ba_base_ptr b = frontier (pk_pool s)"
      "pool_end h' = pool_end (pk_pool s)" "0 \<le> ba_capacity b"
      using ok(1,5,6) align_up_bounds(1) [OF a ok(2)]
      by (simp_all add: frontier_def pool_end_def ba_base_ptr_def hm_base_ptr_def)
    have ne: "bm_bucket_id bm \<noteq> ba_bucket_id b" if "bucket_registered (pk_pool s) bm" for bm
      using that new ok(5) by (auto simp: bucket_registered_def dict_has_def)
    have reg: "bucket_registered h' bm" if "bucket_registered (pk_pool s) bm" for bm
      using that ne [OF that] by (auto simp: bucket_registered_def get)
    let ?s' = "s\<lparr>pk_pool := h', pk_alloc := Some b\<rparr>"
    have "pack_inv F E m0 ?s' tss []"
      using assms(1,2) wf' fr ne reg
      by (auto simp: pack_inv_def open_front_def open_ok_def get)
    moreover have "cap \<le> ba_capacity b" using align_up_bounds(1) [OF a ok(2)] ok(5) by simp
    ultimately show ?thesis using ok(4) by (auto simp: open_bucket_def)
  qed
qed

lemma copy_tensor_Ok:
  assumes "hm_wf h" "dict_get (hm_allocations h) (ba_bucket_id b) = Some b"
    "0 \<le> off" "off + int (length (t_data t)) \<le> ba_capacity b"
  shows "copy_tensor_to_bucket b off t m =
    Ok (int (length (t_data t)), b\<lparr>ba_used_bytes := max (ba_used_bytes b) (off + int (length (t_data t)))\<rparr>,
        mem_write m (ba_base_ptr b + off) (t_data t))"
proof -
  note P = pool_wf_D [OF assms(1,2)]
  have "view_slice (ba_buffer b) off (off + int (length (t_data t)))
      = \<lparr>v_ptr = ba_base_ptr b + off, v_numel = int (length (t_data t))\<rparr>"
    using P assms(3,4) by (simp add: view_slice_in)
  with assms(4) show ?thesis by (simp add: copy_tensor_to_bucket_def view_copy_def Let_def)
qed

lemma store_tensor_inv:
  assumes inv: "pack_inv F E m0 s tss cur" and al: "pk_alloc s = Some b"
    and fits: "pk_offset s + int (length (t_data t)) \<le> ba_capacity b"
    and new: "name \<notin> set (map fst cur)"
  shows "\<exists>s' b'. store_tensor name t s = (Ok (), s') \<and> pk_alloc s' = Some b' \<and>
    ba_capacity b' = ba_capacity b \<and> pack_inv F E m0 s' tss (cur @ [(name, t)])"
proof -
  let ?n = "int (length (t_data t))" and ?off = "pk_offset s"
  have wf: "hm_wf (pk_pool s)" and get: "dict_get (hm_allocations (pk_pool s)) (ba_bucket_id b) = Some b"
    and off: "?off = int (length (bytes_of cur))" "0 \<le> ?off"
    and ba: "F \<le> ba_base_ptr b" "ba_base_ptr b + ba_capacity b = frontier (pk_pool s)"
    and rd: "mem_read (pk_mem s) (ba_base_ptr b) (length (bytes_of cur)) = bytes_of cur"
    using inv al by (simp_all add: pack_inv_def open_ok_def)
  let ?b = "b\<lparr>ba_used_bytes := max (ba_used_bytes b) (?off + ?n)\<rparr>"
  let ?m = "mem_write (pk_mem s) (ba_base_ptr b + ?off) (t_data t)"
  let ?s = "s\<lparr>pk_pool := put_alloc ?b (pk_pool s), pk_mem := ?m, pk_alloc := Some ?b,
      pk_offset := ?off + ?n, pk_tensors := pk_tensors s @ metas ?off [(name, t)]\<rparr>"
  have dict: "\<not> dict_has name (pk_tensors s)" using inv new by (simp add: pack_inv_def dict_has_iff)
  have st: "store_tensor name t s = (Ok (), ?s)"
    using copy_tensor_Ok [OF wf get off(2) fits] al dict_set_new [OF dict]
    by (simp add: store_tensor_def)
  note pa = put_alloc_same_view [OF wf get, of "max (ba_used_bytes b) (?off + ?n)"]
  have old: "bucket_holds ?m bm ts" if "bucket_holds (pk_mem s) bm ts" "bm \<in> set (pk_buckets s)" for bm ts
    using that inv al off(2) by (intro bucket_holds_frame [OF that(1)] mem_write_outside)
      (auto simp: pack_inv_def open_front_def)
  have "list_all2 (bucket_holds ?m) (pk_buckets s) tss"
    using inv old by (auto simp: pack_inv_def intro!: list.rel_mono_strong [of "bucket_holds (pk_mem s)"])
  moreover have "mem_read ?m (ba_base_ptr b) (length (bytes_of cur) + length (t_data t))
      = bytes_of cur @ t_data t"
    using rd off by (simp add: mem_read_append mem_read_write_disjoint)
  moreover have "pk_mem s p = m0 p \<Longrightarrow> p < F \<or> E \<le> p \<Longrightarrow> ?m p = m0 p" for p
    using ba fits off(2) pool_wf_D(4,5) [OF wf get] inv
    by (subst mem_write_outside) (auto simp: pack_inv_def)
  ultimately have "pack_inv F E m0 ?s tss (cur @ [(name, t)])"
    using inv al pa fits get off(1)
    by (auto simp: pack_inv_def open_front_def open_ok_def metas_append)
  with st show ?thesis by auto
qed

text \<open>One step of the loop: it places the tensor, or the pool is exhausted.\<close>

definition pack_stopped :: "int \<Rightarrow> int \<Rightarrow> mem \<Rightarrow> pack_state \<Rightarrow> bool" where
  "pack_stopped F E m0 s \<longleftrightarrow> (\<exists>tss cur. pack_inv F E m0 s tss cur)"

lemma pack_tensor_inv:
  assumes inv: "pack_inv F E m0 s tss cur" and bsz: "0 < bsz" and t: "tensor_ok t"
    and new: "name \<notin> set (map fst cur)"
  shows "(\<exists>s' tss' cur'. pack_tensor bsz (name, t) s = (Ok (), s') \<and> pack_inv F E m0 s' tss' cur' \<and>
            concat tss' @ cur' = concat tss @ cur @ [(name, t)]) \<or>
         (\<exists>s' msg. pack_tensor bsz (name, t) s = (Err (MemoryError msg), s') \<and> pack_stopped F E m0 s')"
proof -
  let ?n = "t_numel t * t_elem_size t"
  have len: "int (length (t_data t)) = ?n" using t by (simp add: tensor_ok_def)
  obtain tssf where fl: "pack_inv F E m0 (flush_bucket s) tssf []" "concat tssf = concat tss @ cur"
    using flush_bucket_inv [OF inv] by blast
  have fn: "pk_alloc (flush_bucket s) = None" by (simp add: flush_bucket_def split: option.splits)
  have fresh: "(\<exists>s' tss' cur'. then_do (open_bucket cap (flush_bucket s)) (store_tensor name t) = (Ok (), s') \<and>
         pack_inv F E m0 s' tss' cur' \<and> concat tss' @ cur' = concat tss @ cur @ [(name, t)]) \<or>
      (\<exists>msg. open_bucket cap (flush_bucket s) = (Err (MemoryError msg), flush_bucket s))"
    if "0 < cap" "?n \<le> cap" for cap
    using open_bucket_inv [OF fl(1) fn that(1)]
  proof (elim disjE exE conjE)
    fix b s1
    assume o: "open_bucket cap (flush_bucket s) = (Ok (), s1)" "pk_alloc s1 = Some b"
      "cap \<le> ba_capacity b" "pack_inv F E m0 s1 tssf []"
    have "pk_offset s1 = 0" using o(4) by (simp add: pack_inv_def)
    then have "pk_offset s1 + int (length (t_data t)) \<le> ba_capacity b" using o(3) that(2) len by simp
    from store_tensor_inv [OF o(4,2) this, of name] obtain s' b' where
      "store_tensor name t s1 = (Ok (), s')" "pk_alloc s' = Some b'"
      "pack_inv F E m0 s' tssf [(name, t)]" by auto
    with o(1) fl(2) show ?thesis
      by (intro disjI1 exI [of _ s'] exI [of _ tssf] exI [of _ "[(name, t)]"]) (simp add: then_do_def)
  qed auto
  show ?thesis
  proof (cases "bsz < ?n")
    case True
    then have "0 < ?n" using bsz by simp
    from fresh [OF this order_refl] show ?thesis
    proof (elim disjE exE conjE)
      fix s' tss' cur'
      assume st: "then_do (open_bucket ?n (flush_bucket s)) (store_tensor name t) = (Ok (), s')"
        and inv': "pack_inv F E m0 s' tss' cur'"
        and eq: "concat tss' @ cur' = concat tss @ cur @ [(name, t)]"
      obtain tss'' where "pack_inv F E m0 (flush_bucket s') tss'' []" "concat tss'' = concat tss' @ cur'"
        using flush_bucket_inv [OF inv'] by blast
      then show ?thesis using True eq st
        by (intro disjI1 exI [of _ "flush_bucket s'"] exI [of _ tss''] exI [of _ "[]"])
          (auto simp: pack_tensor_def then_do_def Let_def split: prod.splits sum.splits)
    next
      fix msg
      assume "open_bucket ?n (flush_bucket s) = (Err (MemoryError msg), flush_bucket s)"
      with True fl(1) show ?thesis
        by (auto simp: pack_tensor_def then_do_def pack_stopped_def Let_def)
    qed
  next
    case small: False
    show ?thesis
    proof (cases "pk_alloc s")
      case None
      then have s: "flush_bucket s = s" by (simp add: flush_bucket_def)
      have p: "pack_tensor bsz (name, t) s = then_do (open_bucket bsz (flush_bucket s)) (store_tensor name t)"
        using small None by (simp add: s pack_tensor_def Let_def)
      from fresh [OF bsz] small fl(1) show ?thesis
        unfolding p by (auto simp: then_do_def pack_stopped_def)
    next
      case (Some b)
      show ?thesis
      proof (cases "ba_capacity b < pk_offset s + ?n")
        case True
        have p: "pack_tensor bsz (name, t) s = then_do (open_bucket bsz (flush_bucket s)) (store_tensor name t)"
          using small Some True by (simp add: pack_tensor_def Let_def)
        from fresh [OF bsz] small fl(1) show ?thesis
          unfolding p by (auto simp: then_do_def pack_stopped_def)
      next
        case False
        then have "pk_offset s + int (length (t_data t)) \<le> ba_capacity b" using len by simp
        from store_tensor_inv [OF inv Some this new] obtain s' where
          "store_tensor name t s = (Ok (), s')" "pack_inv F E m0 s' tss (cur @ [(name, t)])" by blast
        then show ?thesis using small Some False
          by (intro disjI1 exI [of _ s'] exI [of _ tss] exI [of _ "cur @ [(name, t)]"])
            (simp add: pack_tensor_def then_do_def Let_def)
      qed
    qed
  qed
qed

lemma pack_all_inv:
  assumes "pack_inv F E m0 s tss cur" "0 < bsz" "\<And>nt. nt \<in> set nts \<Longrightarrow> tensor_ok (snd nt)"
    "distinct (map fst (concat tss @ cur @ nts))"
  shows "(\<exists>s' tss' cur'. pack_all bsz nts s = (Ok (), s') \<and> pack_inv F E m0 s' tss' cur' \<and>
            concat tss' @ cur' = concat tss @ cur @ nts) \<or>
         (\<exists>s' msg. pack_all bsz nts s = (Err (MemoryError msg), s') \<and> pack_stopped F E m0 s')"
  using assms
proof (induction nts arbitrary: s tss cur)
  case Nil then show ?case by auto
next
  case (Cons nt nts)
  obtain name t where nt: "nt = (name, t)" by (cases nt)
  have "tensor_ok t" "name \<notin> set (map fst cur)" using Cons.prems(3,4) nt by force+
  from pack_tensor_inv [OF Cons.prems(1,2) this] show ?case
  proof (elim disjE exE conjE)
    fix s' tss' cur'
    assume st: "pack_tensor bsz (name, t) s = (Ok (), s')" "pack_inv F E m0 s' tss' cur'"
      and eq: "concat tss' @ cur' = concat tss @ cur @ [(name, t)]"
    then have eq': "concat tss' @ cur' @ nts = concat tss @ cur @ nt # nts" using nt by simp
    have "distinct (map fst (concat tss' @ cur' @ nts))" unfolding eq' by (rule Cons.prems(4))
    from Cons.IH [OF st(2) Cons.prems(2) _ this] Cons.prems(3) st(1) show ?thesis
      unfolding eq' by (auto simp: nt then_do_def)
  qed (auto simp: nt then_do_def)
qed


section \<open>Loading a model\<close>

lemma pack_start_inv:
  "hm_wf h \<Longrightarrow> pack_inv (frontier h) (pool_end h) m (pack_start h m) [] []"
  by (simp add: pack_inv_def pack_start_def open_front_def open_ok_def)

definition load_pre :: "model_manager \<Rightarrow> (string \<times> tensor) list \<Rightarrow> bool" where
  "load_pre g nts \<longleftrightarrow> hm_wf (mg_pool g) \<and> 0 < mg_bucket_size g \<and>
     (\<forall>nt \<in> set nts. tensor_ok (snd nt)) \<and> distinct (map fst nts)"

lemma load_cases:
  assumes "load_pre g nts"
  obtains
    (loaded) "dict_has mid (mg_models g)"
      "load_from_named_tensors mid nts revision (g, m) = (Err (ValueError ''Model already loaded''), g, m)"
  | (exhausted) msg s where "\<not> dict_has mid (mg_models g)"
      "load_from_named_tensors mid nts revision (g, m)
         = (Err (MemoryError msg), g\<lparr>mg_pool := pk_pool s\<rparr>, pk_mem s)"
      "pack_stopped (frontier (mg_pool g)) (pool_end (mg_pool g)) m s"
  | (stored) md s tss where "\<not> dict_has mid (mg_models g)"
      "load_from_named_tensors mid nts revision (g, m)
         = (Ok md, g\<lparr>mg_pool := pk_pool s, mg_models := mg_models g @ [(mid, md)]\<rparr>, pk_mem s)"
      "md = \<lparr>mm_model_id = mid, mm_revision = revision, mm_bucket_num = int (length (pk_buckets s)),
             mm_buckets = pk_buckets s, mm_status = ''READY''\<rparr>"
      "pack_inv (frontier (mg_pool g)) (pool_end (mg_pool g)) m s tss []" "concat tss = nts"
proof (cases "dict_has mid (mg_models g)")
  case True then show ?thesis by (intro loaded) (simp_all add: load_from_named_tensors_def)
next
  case False
  let ?F = "frontier (mg_pool g)" and ?E = "pool_end (mg_pool g)"
  have start: "pack_inv ?F ?E m (pack_start (mg_pool g) m) [] []"
    using assms by (intro pack_start_inv) (simp add: load_pre_def)
  have "(\<exists>s' tss' cur'. pack_all (mg_bucket_size g) nts (pack_start (mg_pool g) m) = (Ok (), s') \<and>
            pack_inv ?F ?E m s' tss' cur' \<and> concat tss' @ cur' = concat [] @ [] @ nts) \<or>
         (\<exists>s' msg. pack_all (mg_bucket_size g) nts (pack_start (mg_pool g) m) = (Err (MemoryError msg), s') \<and>
            pack_stopped ?F ?E m s')"
    using assms by (intro pack_all_inv [OF start]) (auto simp: load_pre_def)
  then show ?thesis
  proof (elim disjE exE conjE)
    fix s' tss' cur'
    assume p: "pack_all (mg_bucket_size g) nts (pack_start (mg_pool g) m) = (Ok (), s')"
      "pack_inv ?F ?E m s' tss' cur'" "concat tss' @ cur' = concat [] @ [] @ nts"
    obtain tss'' where f: "pack_inv ?F ?E m (flush_bucket s') tss'' []"
      "concat tss'' = concat tss' @ cur'" using flush_bucket_inv [OF p(2)] by blast
    show ?thesis
      by (rule stored [OF False _ refl f(1)])
        (use False p f(2) in \<open>simp_all add: load_from_named_tensors_def dict_set_new Let_def\<close>)
  next
    fix s' msg
    assume p: "pack_all (mg_bucket_size g) nts (pack_start (mg_pool g) m) = (Err (MemoryError msg), s')"
      "pack_stopped ?F ?E m s'"
    show ?thesis
      by (rule exhausted [OF False _ p(2)]) (use False p in \<open>simp add: load_from_named_tensors_def\<close>)
  qed
qed

text \<open>
  Loading a model places every tensor, in the order given: the buckets of the returned
  metadata, one after the other, hold exactly the tensors' bytes at the offsets the metadata
  states, and every bucket is an allocation of the pool.
\<close>

theorem load_places_tensors:
  assumes "load_pre g nts" "load_from_named_tensors mid nts revision (g, m) = (Ok md, g', m')"
  shows "\<exists>tss. concat tss = nts \<and> list_all2 (bucket_holds m') (mm_buckets md) tss \<and>
    mm_bucket_num md = int (length (mm_buckets md)) \<and>
    (\<forall>bm \<in> set (mm_buckets md). bucket_registered (mg_pool g') bm) \<and>
    dict_get (mg_models g') mid = Some md"
  using assms(1)
proof (cases rule: load_cases [of g nts mid revision m])
  case (stored md' s tss)
  have new: "dict_get (mg_models g) mid = None" using stored(1) by (simp add: dict_has_def)
  show ?thesis
    using assms(2) stored new by (intro exI [of _ tss]) (auto simp: pack_inv_def map_add_def)
qed (use assms(2) in simp_all)

definition demo_mgr :: model_manager where
  "demo_mgr = \<lparr>mg_pool = demo_pool, mg_bucket_size = 4, mg_models = []\<rparr>"

definition demo_tensor :: "byte list \<Rightarrow> tensor" where
  "demo_tensor bs = \<lparr>t_shape = [int (length bs)], t_dtype = ''torch.uint8'', t_elem_size = 1, t_data = bs\<rparr>"

definition demo_model :: "(string \<times> tensor) list" where
  "demo_model = [(''a'', demo_tensor [1, 2, 3]), (''b'', demo_tensor [4])]"

lemma demo_pool_eq:
  "demo_pool = \<lparr>hm_config = demo_cfg, hm_pool_owner = \<lparr>v_ptr = 1000, v_numel = 80\<rparr>,
     hm_pool = \<lparr>v_ptr = 1008, v_numel = 64\<rparr>, hm_next_offset = 48, hm_next_bucket_id = 2,
     hm_allocations = [(0, demo_bucket 0 0 16 0), (1, demo_bucket 1 16 32 32)], hm_locked = False\<rparr>"
  by (simp add: demo_pool_def demo_bucket_def hm_init_def demo_cfg_def torch_empty_def align_up_def
      narrow_def allocate_bucket_def Let_def)

lemma demo_pool_wf: "hm_wf demo_pool"
  using hm_reach_wf [OF demo_reach] by (simp add: demo_cfg_def)

lemma demo_load_pre: "load_pre demo_mgr demo_model"
  using demo_pool_wf
  by (simp add: load_pre_def demo_mgr_def demo_model_def demo_tensor_def tensor_ok_def t_numel_def)

lemma demo_load_Ok: "\<exists>md g' m'. load_from_named_tensors ''m'' demo_model None (demo_mgr, \<lambda>_. 0) = (Ok md, g', m')"
  by (simp add: load_from_named_tensors_def demo_model_def demo_mgr_def demo_pool_eq demo_tensor_def
      pack_start_def pack_tensor_def then_do_def open_bucket_def allocate_bucket_def align_up_def
      demo_cfg_def narrow_def store_tensor_def copy_tensor_to_bucket_def view_copy_def view_slice_def
      slice_bound_def t_numel_def put_alloc_def Let_def)

theorem load_places_tensors_witness:
  "\<exists>(md :: model_metadata) m' tss. concat tss = demo_model \<and> list_all2 (bucket_holds m') (mm_buckets md) tss"
proof -
  obtain md g' m' where "load_from_named_tensors ''m'' demo_model None (demo_mgr, \<lambda>_. 0) = (Ok md, g', m')"
    using demo_load_Ok by blast
  from load_places_tensors [OF demo_load_pre this] show ?thesis by blast
qed

text \<open>
  Loading, whether it succeeds or runs out of pool, writes only into the part of the pool
  that was free before: every byte below the old allocation pointer keeps its value, so the models
  loaded earlier stay intact. A failed load registers no model, and it can fail only because
  the id is taken or the pool is exhausted, never by overrunning a bucket.
\<close>

theorem load_frame_and_errors:
  assumes "load_pre g nts" "load_from_named_tensors mid nts revision (g, m) = (r, g', m')"
  shows "(\<forall>p. p < frontier (mg_pool g) \<or> pool_end (mg_pool g) \<le> p \<longrightarrow> m' p = m p) \<and>
    hm_wf (mg_pool g') \<and>
    (case r of Inl e \<Rightarrow> mg_models g' = mg_models g \<and>
        (e = ValueError ''Model already loaded'' \<and> dict_has mid (mg_models g) \<or> (\<exists>msg. e = MemoryError msg))
     | Inr md \<Rightarrow> mg_models g' = mg_models g @ [(mid, md)])"
  using assms(1)
proof (cases rule: load_cases [of g nts mid revision m])
  case loaded then show ?thesis using assms by (auto simp: load_pre_def)
next
  case (exhausted msg s)
  then show ?thesis using assms(2) by (auto simp: pack_stopped_def pack_inv_def)
next
  case (stored md s tss)
  then show ?thesis using assms(2) by (auto simp: pack_inv_def)
qed

theorem load_frame_and_errors_witness:
  "\<exists>md g' m'. load_from_named_tensors ''m'' demo_model None (demo_mgr, \<lambda>_. 0) = (Ok md, g', m') \<and>
     m' 1008 = 0 \<and> hm_wf (mg_pool g')"
proof -
  obtain md g' m' where L: "load_from_named_tensors ''m'' demo_model None (demo_mgr, \<lambda>_. 0) = (Ok md, g', m')"
    using demo_load_Ok by blast
  from load_frame_and_errors [OF demo_load_pre L] have "m' 1008 = 0" "hm_wf (mg_pool g')"
    by (simp_all add: demo_mgr_def frontier_def demo_pool_eq hm_base_ptr_def)
  with L show ?thesis by blast
qed

end
