(* ===== verification/TcpTransfer.thy ===== *)
theory TcpTransfer
  imports HostMem
begin

text \<open>
  The data plane (\<open>static_weight_cache/transfer_backend.py\<close>). A socket is what \<open>recv\<close> gives:
  the locale \<open>byte_source\<close> states what the standard library promises of it (some prefix of what
  is left, nothing only at the end), and the receive loops are proved in it. The model's own
  socket is a list of segments, the ways a TCP stream can arrive. Requests and replies are
  framed as \<open>struct\<close> does, big-endian. The Mooncake engine is not in the repository: its return
  codes are arguments.
\<close>

section \<open>Receiving\<close>

text \<open>\<open>_recv_exact\<close>, for any \<open>recv\<close>: the chunks are joined as they come.\<close>

function recv_exact_loop ::
    "(nat \<Rightarrow> 'c \<Rightarrow> byte list \<times> 'c) \<Rightarrow> nat \<Rightarrow> byte list \<Rightarrow> 'c \<Rightarrow> byte list option \<times> 'c" where
  "recv_exact_loop recv remaining chunks c =
     (if remaining = 0 then (Some chunks, c)
      else let (chunk, c') = recv remaining c
        in if chunk = [] then (None, c')
           else recv_exact_loop recv (remaining - length chunk) (chunks @ chunk) c')"
  by pat_completeness auto
termination
  by (relation "measure (\<lambda>(recv, remaining, chunks, c). remaining)") auto

declare recv_exact_loop.simps [simp del]

definition recv_exact :: "(nat \<Rightarrow> 'c \<Rightarrow> byte list \<times> 'c) \<Rightarrow> nat \<Rightarrow> 'c \<Rightarrow> byte list option \<times> 'c" where
  "recv_exact recv n c = recv_exact_loop recv n [] c"

text \<open>\<open>_recv_into_exact\<close>: fill memory from \<open>dst\<close> on; a close in the middle raises.\<close>

function recv_into_loop ::
    "(nat \<Rightarrow> 'c \<Rightarrow> byte list \<times> 'c) \<Rightarrow> int \<Rightarrow> nat \<Rightarrow> nat \<Rightarrow> mem \<Rightarrow> 'c \<Rightarrow> unit result \<times> mem \<times> 'c" where
  "recv_into_loop recv dst n offset m c =
     (if n \<le> offset then (Ok (), m, c)
      else let (chunk, c') = recv (n - offset) c
        in if chunk = [] then (Err (ConnectionError ''peer closed mid-transfer''), m, c')
           else recv_into_loop recv dst n (offset + length chunk)
                  (mem_write m (dst + int offset) chunk) c')"
  by pat_completeness auto
termination
  by (relation "measure (\<lambda>(recv, dst, n, offset, m, c). n - offset)") (auto intro!: diff_less_mono2)

declare recv_into_loop.simps [simp del]

definition recv_into_exact ::
    "(nat \<Rightarrow> 'c \<Rightarrow> byte list \<times> 'c) \<Rightarrow> int \<Rightarrow> nat \<Rightarrow> mem \<Rightarrow> 'c \<Rightarrow> unit result \<times> mem \<times> 'c" where
  "recv_into_exact recv dst n m c = recv_into_loop recv dst n 0 m c"

locale byte_source =
  fixes recv :: "nat \<Rightarrow> 'c \<Rightarrow> byte list \<times> 'c" and left :: "'c \<Rightarrow> byte list" and alive :: "'c \<Rightarrow> bool"
  assumes recv_splits: "alive c \<Longrightarrow> recv n c = (bs, c') \<Longrightarrow> left c = bs @ left c' \<and> length bs \<le> n \<and> alive c'"
    and recv_progress: "alive c \<Longrightarrow> 0 < n \<Longrightarrow> left c \<noteq> [] \<Longrightarrow> fst (recv n c) \<noteq> []"
begin

lemma recv_chunk:
  assumes "alive c" "0 < n" "n \<le> length (left c)"
  obtains bs c' where "recv n c = (bs, c')" "bs \<noteq> []" "length bs \<le> n" "alive c'"
    "left c = bs @ left c'"
proof -
  obtain bs c' where r: "recv n c = (bs, c')" by (cases "recv n c")
  have "left c \<noteq> []" using assms(2,3) by auto
  then have "bs \<noteq> []" using recv_progress [OF assms(1,2)] r by simp
  then show thesis using that [OF r] recv_splits [OF assms(1) r] by blast
qed

lemma recv_exact_loop_full:
  assumes "alive c" "remaining \<le> length (left c)"
  shows "\<exists>c'. recv_exact_loop recv remaining chunks c = (Some (chunks @ take remaining (left c)), c') \<and>
    left c' = drop remaining (left c) \<and> alive c'"
  using assms
proof (induction remaining arbitrary: chunks c rule: less_induct)
  case (less remaining)
  show ?case
  proof (cases "remaining = 0")
    case True then show ?thesis using less.prems by (simp add: recv_exact_loop.simps)
  next
    case False
    then obtain bs c' where r: "recv remaining c = (bs, c')" "bs \<noteq> []" "length bs \<le> remaining"
        "alive c'" "left c = bs @ left c'"
      using recv_chunk [OF less.prems(1) _ less.prems(2)] by auto
    have "remaining - length bs < remaining" "remaining - length bs \<le> length (left c')"
      using r(2,3,5) less.prems(2) False by (simp_all add: diff_less)
    from less.IH [OF this(1) r(4) this(2), of "chunks @ bs"] show ?thesis
      using False r by (simp add: recv_exact_loop.simps [of recv remaining])
  qed
qed

lemma recv_exact_loop_short:
  assumes "alive c" "length (left c) < remaining"
  shows "\<exists>c'. recv_exact_loop recv remaining chunks c = (None, c') \<and> alive c'"
  using assms
proof (induction remaining arbitrary: chunks c rule: less_induct)
  case (less remaining)
  obtain bs c' where r: "recv remaining c = (bs, c')" by (cases "recv remaining c")
  note s = recv_splits [OF less.prems(1) r]
  show ?case
  proof (cases "bs = []")
    case True
    then show ?thesis using r s less.prems(2) by (simp add: recv_exact_loop.simps [of recv remaining])
  next
    case False
    moreover have pos: "0 < remaining" using less.prems(2) by simp
    ultimately have "remaining - length bs < remaining" "length (left c') < remaining - length bs"
      using s less.prems(2) by (cases bs; simp)+
    from less.IH [OF this(1) _ this(2), of "chunks @ bs"] show ?thesis
      using False pos r s by (simp add: recv_exact_loop.simps [of recv remaining])
  qed
qed

lemma recv_exact_full:
  "alive c \<Longrightarrow> n \<le> length (left c) \<Longrightarrow>
    \<exists>c'. recv_exact recv n c = (Some (take n (left c)), c') \<and> left c' = drop n (left c) \<and> alive c'"
  using recv_exact_loop_full [of c n "[]"] by (simp add: recv_exact_def)

lemma recv_exact_short:
  "alive c \<Longrightarrow> length (left c) < n \<Longrightarrow> \<exists>c'. recv_exact recv n c = (None, c') \<and> alive c'"
  using recv_exact_loop_short [of c n "[]"] by (simp add: recv_exact_def)

lemma recv_into_loop_full:
  assumes "alive c" "offset \<le> n" "n - offset \<le> length (left c)"
  shows "\<exists>c'. recv_into_loop recv dst n offset m c =
      (Ok (), mem_write m (dst + int offset) (take (n - offset) (left c)), c') \<and>
    left c' = drop (n - offset) (left c) \<and> alive c'"
  using assms
proof (induction "n - offset" arbitrary: offset m c rule: less_induct)
  case less
  show ?case
  proof (cases "offset = n")
    case True then show ?thesis using less.prems by (simp add: recv_into_loop.simps [of recv dst n])
  next
    case False
    then have pos: "0 < n - offset" using less.prems(2) by simp
    then obtain bs c' where r: "recv (n - offset) c = (bs, c')" "bs \<noteq> []" "length bs \<le> n - offset"
        "alive c'" "left c = bs @ left c'"
      using recv_chunk [OF less.prems(1) _ less.prems(3)] by auto
    let ?o = "offset + length bs"
    have "n - ?o < n - offset" "?o \<le> n" "n - ?o \<le> length (left c')"
      using r(2,3,5) less.prems(3) pos by (auto simp: diff_less_mono2)
    moreover have "mem_write (mem_write m (dst + int offset) bs) (dst + int ?o) ys
        = mem_write m (dst + int offset) (bs @ ys)" for ys
      using mem_write_append [of m "dst + int offset" bs ys] by (simp add: add.assoc)
    ultimately show ?thesis
      using less.hyps [of ?o c' "mem_write m (dst + int offset) bs"] r False less.prems(2)
      by (auto simp: recv_into_loop.simps [of recv dst n offset])
  qed
qed

lemma recv_into_exact_full:
  "alive c \<Longrightarrow> n \<le> length (left c) \<Longrightarrow>
    \<exists>c'. recv_into_exact recv dst n m c = (Ok (), mem_write m dst (take n (left c)), c') \<and>
      left c' = drop n (left c) \<and> alive c'"
  using recv_into_loop_full [of c 0 n dst m] by (simp add: recv_into_exact_def)

end

text \<open>The model's socket: the segments that are still to arrive, none of them empty.\<close>

type_synonym segments = "byte list list"

fun sock_recv :: "nat \<Rightarrow> segments \<Rightarrow> byte list \<times> segments" where
  "sock_recv n [] = ([], [])"
| "sock_recv n (s # ss) = (take n s, if length s \<le> n then ss else drop n s # ss)"

definition segments_ok :: "segments \<Rightarrow> bool" where
  "segments_ok ss \<longleftrightarrow> [] \<notin> set ss"

interpretation sock: byte_source sock_recv concat segments_ok
proof
  fix c n bs c'
  assume "segments_ok c" "sock_recv n c = (bs, c')"
  then show "concat c = bs @ concat c' \<and> length bs \<le> n \<and> segments_ok c'"
    by (cases c) (auto simp: segments_ok_def split: if_splits)
next
  fix c and n :: nat
  assume "segments_ok c" "0 < n" "concat c \<noteq> []"
  then show "fst (sock_recv n c) \<noteq> []" by (cases c) (auto simp: segments_ok_def)
qed

text \<open>
  C36. \<open>_recv_exact\<close> does not depend on how the stream was cut into segments: it returns the next
  \<open>n\<close> bytes and leaves the rest, or, when the peer closes before \<open>n\<close> bytes arrived, it returns
  None (after zero bytes and in the middle of a message alike).
\<close>

theorem recv_exact_segmentation:
  assumes "segments_ok ss"
  shows "(case recv_exact sock_recv n ss of
      (Some bs, ss') \<Rightarrow> n \<le> length (concat ss) \<and> bs = take n (concat ss) \<and> concat ss' = drop n (concat ss) \<and> segments_ok ss'
    | (None, _) \<Rightarrow> length (concat ss) < n)"
proof (cases "n \<le> length (concat ss)")
  case True then show ?thesis using sock.recv_exact_full [OF assms True] by auto
next
  case False then show ?thesis using sock.recv_exact_short [OF assms, of n] by auto
qed

theorem recv_exact_segmentation_witness:
  "case recv_exact sock_recv 3 [[1, 2], [3, 4]] of
      (Some bs, ss') \<Rightarrow> bs = [1, 2, 3] \<and> concat ss' = [4] | (None, _) \<Rightarrow> False"
  using recv_exact_segmentation [of "[[1, 2], [3, 4]]" 3]
  by (auto simp: segments_ok_def split: prod.splits option.splits)

section \<open>Frames\<close>

text \<open>\<open>struct.Struct(">BQQ")\<close> and \<open>struct.Struct(">BQ")\<close>: unsigned, big-endian, no padding.\<close>

fun be_bytes :: "nat \<Rightarrow> nat \<Rightarrow> byte list" where
  "be_bytes 0 v = []"
| "be_bytes (Suc k) v = be_bytes k (v div 256) @ [word_of_nat (v mod 256)]"

definition be_val :: "byte list \<Rightarrow> nat" where
  "be_val bs = foldl (\<lambda>a b. a * 256 + unat b) 0 bs"

definition struct_uint :: "nat \<Rightarrow> int \<Rightarrow> byte list result" where
  "struct_uint k v = (if 0 \<le> v \<and> v < 256 ^ k then Ok (be_bytes k (nat v))
     else Err (StructError ''argument out of range''))"

definition request_size :: nat where "request_size = 17"
definition reply_size :: nat where "reply_size = 9"

definition request_pack :: "int \<Rightarrow> int \<Rightarrow> int \<Rightarrow> byte list result" where
  "request_pack op src n = bind_res (struct_uint 1 op) (\<lambda>a. bind_res (struct_uint 8 src) (\<lambda>b.
     bind_res (struct_uint 8 n) (\<lambda>c. Ok (a @ b @ c))))"

definition request_unpack :: "byte list \<Rightarrow> (int \<times> int \<times> int) result" where
  "request_unpack bs = (if length bs \<noteq> request_size then Err (StructError ''unpack requires a buffer of 17 bytes'')
     else Ok (int (be_val (take 1 bs)), int (be_val (take 8 (drop 1 bs))), int (be_val (drop 9 bs))))"

definition reply_pack :: "int \<Rightarrow> int \<Rightarrow> byte list result" where
  "reply_pack status n = bind_res (struct_uint 1 status) (\<lambda>a. bind_res (struct_uint 8 n) (\<lambda>b. Ok (a @ b)))"

definition reply_unpack :: "byte list \<Rightarrow> (int \<times> int) result" where
  "reply_unpack bs = (if length bs \<noteq> reply_size then Err (StructError ''unpack requires a buffer of 9 bytes'')
     else Ok (int (be_val (take 1 bs)), int (be_val (drop 1 bs))))"

lemma length_be_bytes [simp]: "length (be_bytes k v) = k"
  by (induction k arbitrary: v) auto

lemma be_val_snoc: "be_val (bs @ [b]) = be_val bs * 256 + unat b"
  by (simp add: be_val_def)

lemma be_val_bytes: "v < 256 ^ k \<Longrightarrow> be_val (be_bytes k v) = v"
proof (induction k arbitrary: v)
  case (Suc k)
  have "v div 256 < 256 ^ k" using Suc.prems by (simp add: less_mult_imp_div_less mult.commute)
  moreover have "unat (word_of_nat (v mod 256) :: byte) = v mod 256" by (simp add: unat_of_nat)
  ultimately show ?case using Suc.IH by (simp add: be_val_snoc)
qed (simp add: be_val_def)

lemma struct_uint_Ok: "struct_uint k v = Ok bs \<longleftrightarrow> 0 \<le> v \<and> v < 256 ^ k \<and> bs = be_bytes k (nat v)"
  by (auto simp: struct_uint_def)

lemma struct_uint_length: "struct_uint k v = Ok bs \<Longrightarrow> length bs = k"
  by (simp add: struct_uint_Ok)

lemma struct_uint_val: "struct_uint k v = Ok bs \<Longrightarrow> int (be_val bs) = v"
  by (auto simp: struct_uint_Ok be_val_bytes nat_less_iff)

lemma request_pack_length: "request_pack op src n = Ok bs \<Longrightarrow> length bs = request_size"
  by (auto simp: request_pack_def request_size_def dest!: struct_uint_length)

lemma request_unpack_pack: "request_pack op src n = Ok bs \<Longrightarrow> request_unpack bs = Ok (op, src, n)"
  using struct_uint_length struct_uint_val
  by (fastforce simp: request_pack_def request_unpack_def request_size_def)

lemma reply_pack_length: "reply_pack s n = Ok bs \<Longrightarrow> length bs = reply_size"
  by (auto simp: reply_pack_def reply_size_def dest!: struct_uint_length)

lemma reply_unpack_pack: "reply_pack s n = Ok bs \<Longrightarrow> reply_unpack bs = Ok (s, n)"
  using struct_uint_length struct_uint_val
  by (fastforce simp: reply_pack_def reply_unpack_def reply_size_def)

text \<open>
  The frames are exact: a request packs if and only if its operation fits a byte and its
  address and length fit 64 bits, it is 17 bytes long, and unpacking gives back the same triple;
  every other argument is a \<open>struct.error\<close> and nothing is sent.
\<close>

theorem request_roundtrip:
  "case request_pack op src n of
      Inr bs \<Rightarrow> 0 \<le> op \<and> op < 2 ^ 8 \<and> 0 \<le> src \<and> src < 2 ^ 64 \<and> 0 \<le> n \<and> n < 2 ^ 64 \<and>
        length bs = 17 \<and> request_unpack bs = Ok (op, src, n)
    | Inl e \<Rightarrow> \<not> (0 \<le> op \<and> op < 2 ^ 8 \<and> 0 \<le> src \<and> src < 2 ^ 64 \<and> 0 \<le> n \<and> n < 2 ^ 64)"
proof (cases "request_pack op src n")
  case (Inr bs)
  then have "0 \<le> op \<and> op < 2 ^ 8 \<and> 0 \<le> src \<and> src < 2 ^ 64 \<and> 0 \<le> n \<and> n < 2 ^ 64"
    by (auto simp: request_pack_def struct_uint_Ok)
  then show ?thesis
    using Inr request_pack_length [OF Inr] request_unpack_pack [OF Inr] by (simp add: request_size_def)
next
  case (Inl e)
  then show ?thesis by (auto simp: request_pack_def struct_uint_def split: if_splits)
qed

section \<open>Serving\<close>

type_synonym region = "int \<times> int"

definition is_served :: "region list \<Rightarrow> int \<Rightarrow> int \<Rightarrow> bool" where
  "is_served regions src_ptr nbytes =
     (let end_ptr = src_ptr + nbytes
      in list_ex (\<lambda>(base, capacity). base \<le> src_ptr \<and> end_ptr \<le> base + capacity) regions)"

text \<open>
  What the handler thread sees in its \<open>i\<close>-th iteration: the stop flag, the regions registered so
  far and the process memory (other threads change all three), and how its sends fare
  (\<open>None\<close>: delivered; \<open>Some j\<close>: an \<open>OSError\<close> after \<open>j\<close> bytes).
\<close>

record serve_env =
  se_stop :: bool
  se_regions :: "region list"
  se_mem :: mem
  se_header_send :: "nat option"
  se_body_send :: "nat option"

definition sendall :: "nat option \<Rightarrow> byte list \<Rightarrow> byte list \<Rightarrow> bool \<times> byte list" where
  "sendall r bs out = (case r of None \<Rightarrow> (True, out @ bs) | Some j \<Rightarrow> (False, out @ take j bs))"

datatype conn_end = Stopped | Peer_closed | Rejected | Send_failed | Handler_raised

lemma recv_exact_loop_consumes:
  "recv_exact_loop sock_recv remaining chunks ss = (Some bs, ss') \<Longrightarrow>
    length bs = length chunks + remaining \<and> length (concat ss) = length (concat ss') + remaining"
proof (induction sock_recv remaining chunks ss rule: recv_exact_loop.induct)
  case (1 remaining chunks ss)
  show ?case
  proof (cases "remaining = 0")
    case True then show ?thesis using 1(2) by (simp add: recv_exact_loop.simps)
  next
    case False
    obtain chunk ss1 where r: "sock_recv remaining ss = (chunk, ss1)" by (cases "sock_recv remaining ss")
    have l: "length (concat ss) = length chunk + length (concat ss1)" "length chunk \<le> remaining"
      using r by (cases ss; auto split: if_splits)+
    have ne: "chunk \<noteq> []" using 1(2) r False by (auto simp: recv_exact_loop.simps [of sock_recv remaining])
    then have "recv_exact_loop sock_recv (remaining - length chunk) (chunks @ chunk) ss1 = (Some bs, ss')"
      using 1(2) r False by (simp add: recv_exact_loop.simps [of sock_recv remaining])
    from 1(1) [OF False r [symmetric] refl ne this] l show ?thesis by auto
  qed
qed

lemma recv_exact_consumes:
  "recv_exact sock_recv n ss = (Some bs, ss') \<Longrightarrow> length bs = n \<and> length (concat ss) = length (concat ss') + n"
  using recv_exact_loop_consumes [of n "[]"] by (simp add: recv_exact_def)

text \<open>
  One request: what is sent, and whether the handler goes on (\<open>None\<close>) or how it ends. A rejected
  request is answered with status 1 and ends the connection.
\<close>

definition serve_request :: "serve_env \<Rightarrow> byte list \<Rightarrow> byte list \<Rightarrow> conn_end option \<times> byte list" where
  "serve_request e header out = (case request_unpack header of
      Inl err \<Rightarrow> (Some Handler_raised, out)
    | Inr (op, src_ptr, nbytes) \<Rightarrow>
       (if op \<noteq> 0 \<or> \<not> is_served (se_regions e) src_ptr nbytes
        then (case reply_pack 1 0 of
            Inl err \<Rightarrow> (Some Handler_raised, out)
          | Inr hdr \<Rightarrow> (case sendall (se_header_send e) hdr out of
              (ok, out') \<Rightarrow> (Some (if ok then Rejected else Send_failed), out')))
        else (case reply_pack 0 nbytes of
            Inl err \<Rightarrow> (Some Handler_raised, out)
          | Inr hdr \<Rightarrow> (case sendall (se_header_send e) hdr out of
              (ok, out') \<Rightarrow>
                (if \<not> ok then (Some Send_failed, out')
                 else (case sendall (se_body_send e) (mem_read (se_mem e) src_ptr (nat nbytes)) out' of
                    (ok', out'') \<Rightarrow> (if ok' then None else Some Send_failed, out'')))))))"

text \<open>
  \<open>_serve_conn\<close>: \<open>i\<close> counts the iterations, \<open>out\<close> is what has been sent. Every iteration eats 17
  bytes of the stream, so the loop ends when the peer does. The connection is closed on every exit.
\<close>

function serve_conn_loop ::
    "(nat \<Rightarrow> serve_env) \<Rightarrow> nat \<Rightarrow> byte list \<Rightarrow> segments \<Rightarrow> conn_end \<times> byte list" where
  "serve_conn_loop env i out ss =
     (if se_stop (env i) then (Stopped, out)
      else (case recv_exact sock_recv request_size ss of
        (None, ss') \<Rightarrow> (Peer_closed, out)
      | (Some header, ss') \<Rightarrow>
         (case serve_request (env i) header out of
            (Some e, out') \<Rightarrow> (e, out')
          | (None, out') \<Rightarrow> serve_conn_loop env (Suc i) out' ss')))"
  by pat_completeness auto
termination
  by (relation "measure (\<lambda>(env, i, out, ss). length (concat ss))")
    (auto dest!: recv_exact_consumes [OF sym] simp: request_size_def)

declare serve_conn_loop.simps [simp del]

definition serve_conn :: "(nat \<Rightarrow> serve_env) \<Rightarrow> segments \<Rightarrow> conn_end \<times> byte list" where
  "serve_conn env ss = serve_conn_loop env 0 [] ss"

text \<open>Two environments that differ only in memory outside the registered regions.\<close>

definition in_regions :: "region list \<Rightarrow> int \<Rightarrow> bool" where
  "in_regions regions a \<longleftrightarrow> (\<exists>(base, capacity) \<in> set regions. base \<le> a \<and> a < base + capacity)"

definition env_agrees :: "serve_env \<Rightarrow> serve_env \<Rightarrow> bool" where
  "env_agrees e f \<longleftrightarrow> se_stop e = se_stop f \<and> se_regions e = se_regions f \<and>
     se_header_send e = se_header_send f \<and> se_body_send e = se_body_send f \<and>
     (\<forall>a. in_regions (se_regions e) a \<longrightarrow> se_mem e a = se_mem f a)"

lemma is_served_in_regions:
  assumes "is_served regions src n" "i < nat n"
  shows "in_regions regions (src + int i)"
proof -
  obtain base cap where r: "(base, cap) \<in> set regions" "base \<le> src" "src + n \<le> base + cap"
    using assms(1) by (auto simp: is_served_def list_ex_iff)
  moreover have "src + int i < base + cap" using r(3) assms(2) by linarith
  ultimately show ?thesis unfolding in_regions_def by (intro bexI [of _ "(base, cap)"]) auto
qed

lemma served_read_agrees:
  "env_agrees e f \<Longrightarrow> is_served (se_regions f) src n \<Longrightarrow>
    mem_read (se_mem e) src (nat n) = mem_read (se_mem f) src (nat n)"
  by (rule mem_read_cong) (simp add: env_agrees_def is_served_in_regions)

lemma serve_request_agrees:
  assumes "env_agrees e f"
  shows "serve_request e header out = serve_request f header out"
proof -
  have "se_regions e = se_regions f" "se_header_send e = se_header_send f" "se_body_send e = se_body_send f"
    using assms by (simp_all add: env_agrees_def)
  then show ?thesis
    unfolding serve_request_def
    by (auto simp: served_read_agrees [OF assms] split: sum.splits prod.splits)
qed

text \<open>
  C21. Nothing outside a registered region is reachable: whatever requests arrive, in whatever
  segments, and however the sends fare, all that the handler sends and the way it ends depend
  only on the stop flag, the registered regions and the memory inside them.
\<close>

theorem serve_conn_confined:
  assumes "\<And>i. env_agrees (env i) (env' i)"
  shows "serve_conn env ss = serve_conn env' ss"
proof -
  have "serve_conn_loop env i out ss = serve_conn_loop env' i out ss" for i out
    using assms
  proof (induction env i out ss rule: serve_conn_loop.induct)
    case (1 env i out ss)
    have "se_stop (env i) = se_stop (env' i)" using "1.prems" [of i] by (simp add: env_agrees_def)
    with 1 show ?case
      by (subst (1 2) serve_conn_loop.simps)
        (auto simp: serve_request_agrees [OF "1.prems"] split: prod.splits option.splits)
  qed
  then show ?thesis by (simp add: serve_conn_def)
qed

theorem serve_conn_confined_witness:
  "serve_conn (\<lambda>_. \<lparr>se_stop = False, se_regions = [(0, 4)], se_mem = (\<lambda>_. 7),
       se_header_send = None, se_body_send = None\<rparr>) [[0, 0, 0, 0, 0], [0, 0, 0, 0, 0, 0, 0, 0, 0, 0, 0, 2]] =
   serve_conn (\<lambda>_. \<lparr>se_stop = False, se_regions = [(0, 4)], se_mem = (\<lambda>a. if a < 4 then 7 else 9),
       se_header_send = None, se_body_send = None\<rparr>) [[0, 0, 0, 0, 0], [0, 0, 0, 0, 0, 0, 0, 0, 0, 0, 0, 2]]"
  by (rule serve_conn_confined) (auto simp: env_agrees_def in_regions_def)

section \<open>Endpoints\<close>

text \<open>\<open>s.rpartition(c)\<close> for a one-character separator.\<close>

definition rpartition :: "char \<Rightarrow> string \<Rightarrow> string \<times> string \<times> string" where
  "rpartition c s =
     (let r = List.rev s; after = takeWhile (\<lambda>x. x \<noteq> c) r
      in case dropWhile (\<lambda>x. x \<noteq> c) r of [] \<Rightarrow> ([], [], s)
         | _ # before \<Rightarrow> (List.rev before, [c], List.rev after))"

lemma rpartition_last:
  assumes "c \<notin> set after"
  shows "rpartition c (before @ c # after) = (before, [c], after)"
proof -
  have "takeWhile (\<lambda>x. x \<noteq> c) (rev after @ c # rev before) = rev after"
       "dropWhile (\<lambda>x. x \<noteq> c) (rev after @ c # rev before) = c # rev before"
    using assms by (auto simp: takeWhile_append dropWhile_append)
  then show ?thesis by (simp add: rpartition_def)
qed

lemma dec_no_colon: "CHR '':'' \<notin> set (dec_string n)"
  using dec_string_digits [of n] digit_not_special by (auto simp: list_all_iff)

section \<open>The TCP backend\<close>

record transfer_config =
  tc_backend :: string
  tc_protocol :: string
  tc_device_name :: string
  tc_metadata_server :: string
  tc_ascend_device_id :: int
  tc_init_ascend_device :: bool

definition default_transfer_config :: transfer_config where
  "default_transfer_config = \<lparr>tc_backend = ''tcp'', tc_protocol = ''tcp'', tc_device_name = [],
     tc_metadata_server = ''P2PHANDSHAKE'', tc_ascend_device_id = 0, tc_init_ascend_device = True\<rparr>"

text \<open>The connections to peers are values of type \<open>'c\<close>; the port is 0 until \<open>start\<close>.\<close>

record 'c tcp_backend =
  tb_local_ip :: string
  tb_config :: transfer_config
  tb_regions :: "region list"
  tb_listening :: bool
  tb_port :: nat
  tb_stop :: bool
  tb_peers :: "(string, 'c) dict"

definition tcp_init :: "string \<Rightarrow> transfer_config \<Rightarrow> 'c tcp_backend" where
  "tcp_init ip cfg = \<lparr>tb_local_ip = ip, tb_config = cfg, tb_regions = [], tb_listening = False,
     tb_port = 0, tb_stop = False, tb_peers = []\<rparr>"

text \<open>\<open>start\<close>: \<open>bound\<close> is the port the kernel picked, or the error of \<open>bind\<close>.\<close>

definition tcp_start :: "nat result \<Rightarrow> 'c tcp_backend \<Rightarrow> unit result \<times> 'c tcp_backend" where
  "tcp_start bound b = (case bound of Inl e \<Rightarrow> (Err e, b)
     | Inr p \<Rightarrow> (Ok (), b\<lparr>tb_port := p, tb_listening := True\<rparr>))"

definition tcp_peer_sid :: "'c tcp_backend \<Rightarrow> string" where
  "tcp_peer_sid b = tb_local_ip b @ '':'' @ dec_string (tb_port b)"

definition tcp_close :: "'c tcp_backend \<Rightarrow> 'c tcp_backend" where
  "tcp_close b = b\<lparr>tb_stop := True, tb_listening := False, tb_peers := []\<rparr>"

text \<open>
  \<open>_accept_loop\<close>: each event is the stop flag as the loop tests it and what \<open>accept\<close> does then
  (\<open>None\<close>: an \<open>OSError\<close>). The result are the connections given to handlers.
\<close>

fun accept_loop :: "(bool \<times> 'a option) list \<Rightarrow> 'a list" where
  "accept_loop [] = []"
| "accept_loop ((stop, conn) # es) =
     (if stop then [] else case conn of None \<Rightarrow> [] | Some c \<Rightarrow> c # accept_loop es)"

definition tcp_register :: "region list \<Rightarrow> 'c tcp_backend \<Rightarrow> 'c tcp_backend" where
  "tcp_register rs b = b\<lparr>tb_regions := tb_regions b @ rs\<rparr>"

definition bucket_regions :: "bucket_allocation list \<Rightarrow> region list" where
  "bucket_regions bs = map (\<lambda>a. (ba_base_ptr a, ba_capacity a)) bs"

text \<open>\<open>_peer\<close>: \<open>connect\<close> is the operating system's.\<close>

definition tcp_peer ::
    "(string \<Rightarrow> int \<Rightarrow> 'c result) \<Rightarrow> string \<Rightarrow> 'c tcp_backend \<Rightarrow> 'c result \<times> 'c tcp_backend" where
  "tcp_peer connect sid b = (case dict_get (tb_peers b) sid of
      Some c \<Rightarrow> (Ok c, b)
    | None \<Rightarrow>
       (let (host, _, port) = rpartition CHR '':'' sid
        in case bind_res (py_int port) (connect host) of
             Inl e \<Rightarrow> (Err e, b)
           | Inr c \<Rightarrow> (Ok c, b\<lparr>tb_peers := dict_set sid c (tb_peers b)\<rparr>)))"

text \<open>The exchange on a connection: the reply's own length is what is received.\<close>

definition read_on ::
    "(byte list \<Rightarrow> 'c \<Rightarrow> unit result \<times> 'c) \<Rightarrow> (nat \<Rightarrow> 'c \<Rightarrow> byte list \<times> 'c) \<Rightarrow>
      int \<Rightarrow> int \<Rightarrow> int \<Rightarrow> mem \<Rightarrow> 'c \<Rightarrow> unit result \<times> mem \<times> 'c" where
  "read_on send recv dst_ptr src_ptr nbytes m c =
     (case request_pack 0 src_ptr nbytes of
        Inl e \<Rightarrow> (Err e, m, c)
      | Inr req \<Rightarrow> (case send req c of
          (Inl e, c1) \<Rightarrow> (Err e, m, c1)
        | (Inr _, c1) \<Rightarrow> (case recv_exact recv reply_size c1 of
            (None, c2) \<Rightarrow> (Err (ConnectionError ''closed during transfer''), m, c2)
          | (Some header, c2) \<Rightarrow> (case reply_unpack header of
              Inl e \<Rightarrow> (Err e, m, c2)
            | Inr (status, actual) \<Rightarrow>
                if status \<noteq> 0 then (Err (RuntimeError ''rejected read''), m, c2)
                else recv_into_exact recv dst_ptr (nat actual) m c2))))"

definition tcp_read ::
    "(string \<Rightarrow> int \<Rightarrow> 'c result) \<Rightarrow> (byte list \<Rightarrow> 'c \<Rightarrow> unit result \<times> 'c) \<Rightarrow> (nat \<Rightarrow> 'c \<Rightarrow> byte list \<times> 'c) \<Rightarrow>
      string \<Rightarrow> int \<Rightarrow> int \<Rightarrow> int \<Rightarrow> mem \<Rightarrow> 'c tcp_backend \<Rightarrow> unit result \<times> mem \<times> 'c tcp_backend" where
  "tcp_read connect send recv sid dst_ptr src_ptr nbytes m b =
     (case tcp_peer connect sid b of
        (Inl e, b') \<Rightarrow> (Err e, m, b')
      | (Inr c, b') \<Rightarrow> (case read_on send recv dst_ptr src_ptr nbytes m c of
          (r, m', c') \<Rightarrow> (r, m', b'\<lparr>tb_peers := dict_set sid c' (tb_peers b')\<rparr>)))"

text \<open>
  A connection to a serving process: its environment, how the kernel cuts a reply into segments,
  the bytes on their way and whether the handler still listens. A request that is sent is handled
  by \<open>serve_conn\<close>; a handler that waits for the next request has ended with \<open>Peer_closed\<close> there.
\<close>

record wired =
  wi_env :: serve_env
  wi_cut :: "byte list \<Rightarrow> segments"
  wi_pending :: segments
  wi_open :: bool

definition wired_send :: "byte list \<Rightarrow> wired \<Rightarrow> unit result \<times> wired" where
  "wired_send req w = (Ok (), if \<not> wi_open w then w
     else let (ending, sent) = serve_conn (\<lambda>_. wi_env w) [req]
       in w\<lparr>wi_pending := wi_pending w @ wi_cut w sent, wi_open := (ending = Peer_closed)\<rparr>)"

definition wired_recv :: "nat \<Rightarrow> wired \<Rightarrow> byte list \<times> wired" where
  "wired_recv n w = (case sock_recv n (wi_pending w) of (bs, ss) \<Rightarrow> (bs, w\<lparr>wi_pending := ss\<rparr>))"

definition wired_ok :: "wired \<Rightarrow> bool" where
  "wired_ok w \<longleftrightarrow> segments_ok (wi_pending w) \<and> (\<forall>bs. segments_ok (wi_cut w bs) \<and> concat (wi_cut w bs) = bs)"

interpretation wired: byte_source wired_recv "\<lambda>w. concat (wi_pending w)"
    "\<lambda>w. wired_ok w \<and> wi_env w = e \<and> wi_open w = opened" for e opened
proof
  fix c n bs c'
  assume a: "wired_ok c \<and> wi_env c = e \<and> wi_open c = opened" "wired_recv n c = (bs, c')"
  then obtain ss where s: "sock_recv n (wi_pending c) = (bs, ss)" "c' = c\<lparr>wi_pending := ss\<rparr>"
    by (auto simp: wired_recv_def split: prod.splits)
  then show "concat (wi_pending c) = bs @ concat (wi_pending c') \<and> length bs \<le> n \<and>
      wired_ok c' \<and> wi_env c' = e \<and> wi_open c' = opened"
    using sock.recv_splits [OF _ s(1)] a(1) by (simp add: wired_ok_def)
next
  fix c and n :: nat
  assume "wired_ok c \<and> wi_env c = e \<and> wi_open c = opened" "0 < n" "concat (wi_pending c) \<noteq> []"
  then show "fst (wired_recv n c) \<noteq> []"
    using sock.recv_progress [of "wi_pending c" n] by (auto simp: wired_ok_def wired_recv_def split: prod.splits)
qed

definition wired_idle :: "wired \<Rightarrow> bool" where
  "wired_idle w \<longleftrightarrow> wired_ok w \<and> wi_pending w = [] \<and> wi_open w \<and> \<not> se_stop (wi_env w) \<and>
     se_header_send (wi_env w) = None \<and> se_body_send (wi_env w) = None"

text \<open>What the server sends for one well-formed request.\<close>

lemma recv_exact_single:
  "length req = n \<Longrightarrow> 0 < n \<Longrightarrow> recv_exact sock_recv n [req] = (Some req, [])"
  by (cases req) (simp_all add: recv_exact_def recv_exact_loop.simps [of sock_recv])

lemma serve_conn_one:
  assumes "\<not> se_stop e" "length req = request_size"
  shows "serve_conn (\<lambda>_. e) [req] = (case serve_request e req [] of
      (Some ending, out) \<Rightarrow> (ending, out) | (None, out) \<Rightarrow> (Peer_closed, out))"
proof -
  have "recv_exact sock_recv request_size [] = (None, [])"
    by (simp add: recv_exact_def recv_exact_loop.simps [of sock_recv] request_size_def)
  moreover have "recv_exact sock_recv request_size [req] = (Some req, [])"
    using assms(2) by (intro recv_exact_single) (simp_all add: request_size_def)
  ultimately show ?thesis using assms(1)
    by (simp add: serve_conn_def serve_conn_loop.simps [of "\<lambda>_. e"] split: prod.split option.split)
qed

lemma serve_request_read:
  assumes "request_pack 0 src n = Ok req" "se_header_send e = None" "se_body_send e = None"
  shows "serve_request e req [] =
    (if is_served (se_regions e) src n
     then (None, be_bytes 1 0 @ be_bytes 8 (nat n) @ mem_read (se_mem e) src (nat n))
     else (Some Rejected, be_bytes 1 1 @ be_bytes 8 0))"
proof -
  have "0 \<le> n" "n < 256 ^ 8" using assms(1) by (auto simp: request_pack_def struct_uint_Ok)
  then have "reply_pack 0 n = Ok (be_bytes 1 0 @ be_bytes 8 (nat n))"
    and "reply_pack 1 0 = Ok (be_bytes 1 1 @ be_bytes 8 0)"
    by (simp_all add: reply_pack_def struct_uint_def)
  then show ?thesis
    using request_unpack_pack [OF assms(1)] assms(2,3)
    by (simp add: serve_request_def sendall_def)
qed

lemma reply_unpack_bytes:
  "s < 256 \<Longrightarrow> n < 256 ^ 8 \<Longrightarrow> reply_unpack (be_bytes 1 s @ be_bytes 8 n) = Ok (int s, int n)"
  using be_val_bytes [of s 1] be_val_bytes [of n 8]
  by (simp add: reply_unpack_def reply_size_def del: be_bytes.simps)

text \<open>One read on an idle connection to a serving process.\<close>

lemma read_on_wired:
  assumes w: "wired_idle w" and range: "0 \<le> src" "0 \<le> n" "src < 2 ^ 64" "n < 2 ^ 64"
  shows "\<exists>w'. read_on wired_send wired_recv dst src n m w =
      (if is_served (se_regions (wi_env w)) src n
       then (Ok (), mem_write m dst (mem_read (se_mem (wi_env w)) src (nat n)), w')
       else (Err (RuntimeError ''rejected read''), m, w')) \<and>
    (is_served (se_regions (wi_env w)) src n \<longrightarrow> wired_idle w' \<and> wi_env w' = wi_env w)"
proof -
  let ?e = "wi_env w"
  obtain req where req: "request_pack 0 src n = Ok req"
    using range by (simp add: request_pack_def struct_uint_def)
  note len = request_pack_length [OF req]
  define out where "out = snd (serve_conn (\<lambda>_. ?e) [req])"
  define b where "b = (fst (serve_conn (\<lambda>_. ?e) [req]) = Peer_closed)"
  define w1 where "w1 = w\<lparr>wi_pending := wi_cut w out, wi_open := b\<rparr>"
  have idle: "wired_ok w" "wi_pending w = []" "wi_open w" "\<not> se_stop ?e" "se_header_send ?e = None"
    "se_body_send ?e = None" using w by (simp_all add: wired_idle_def)
  have send: "wired_send req w = (Ok (), w1)"
    using idle by (simp add: wired_send_def w1_def out_def b_def split: prod.splits)
  have w1: "wired_ok w1 \<and> wi_env w1 = ?e \<and> wi_open w1 = b" "concat (wi_pending w1) = out"
    using idle by (simp_all add: w1_def wired_ok_def)
  have conn: "serve_conn (\<lambda>_. ?e) [req] = (case serve_request ?e req [] of
      (Some ending, out) \<Rightarrow> (ending, out) | (None, out) \<Rightarrow> (Peer_closed, out))"
    by (rule serve_conn_one [OF idle(4) len])
  note sr = serve_request_read [OF req idle(5,6)]
  have n8: "nat n < 256 ^ 8" using range by (simp add: nat_less_iff)
  show ?thesis
  proof (cases "is_served (se_regions ?e) src n")
    case True
    let ?body = "mem_read (se_mem ?e) src (nat n)"
    have out: "out = (be_bytes 1 0 @ be_bytes 8 (nat n)) @ ?body" and b: b
      using conn sr True by (simp_all add: out_def b_def)
    obtain w2 where w2: "recv_exact wired_recv reply_size w1 = (Some (be_bytes 1 0 @ be_bytes 8 (nat n)), w2)"
        "concat (wi_pending w2) = ?body" "wired_ok w2 \<and> wi_env w2 = ?e \<and> wi_open w2 = b"
      using wired.recv_exact_full [OF w1(1), of reply_size] w1(2) out
      by (auto simp: reply_size_def simp del: be_bytes.simps)
    obtain w3 where w3: "recv_into_exact wired_recv dst (nat n) m w2 = (Ok (), mem_write m dst ?body, w3)"
        "concat (wi_pending w3) = []" "wired_ok w3 \<and> wi_env w3 = ?e \<and> wi_open w3 = b"
      using wired.recv_into_exact_full [OF w2(3), of "nat n" dst m] w2(2) by auto
    have "wi_pending w3 = []"
      using w3(2,3) by (cases "wi_pending w3") (auto simp: wired_ok_def segments_ok_def)
    then have "wired_idle w3" using w3(3) idle b by (simp add: wired_idle_def)
    then show ?thesis
      using True req send w2(1) w3(1,3) reply_unpack_bytes [of 0 "nat n"] n8
      by (auto simp: read_on_def simp del: be_bytes.simps)
  next
    case False
    have out: "out = be_bytes 1 1 @ be_bytes 8 0"
      using conn sr False by (simp add: out_def)
    obtain w2 where w2: "recv_exact wired_recv reply_size w1 = (Some (be_bytes 1 1 @ be_bytes 8 0), w2)"
      using wired.recv_exact_full [OF w1(1), of reply_size] w1(2) out
      by (auto simp: reply_size_def simp del: be_bytes.simps)
    then show ?thesis
      using False req send reply_unpack_bytes [of 1 0]
      by (auto simp: read_on_def simp del: be_bytes.simps)
  qed
qed

text \<open>
  A read over TCP is a copy: from an idle connection to a serving process, however the reply
  is cut into segments, reading \<open>n\<close> bytes at a registered address puts exactly the server's
  \<open>n\<close> bytes at \<open>dst\<close>, touches nothing else and leaves the connection idle for the next read; a
  range that is not wholly inside one region raises and leaves the client's memory alone.
\<close>

theorem tcp_read_copies:
  assumes "dict_get (tb_peers b) sid = Some w" "wired_idle w"
    and "0 \<le> src" "0 \<le> n" "src < 2 ^ 64" "n < 2 ^ 64"
  shows "case tcp_read connect wired_send wired_recv sid dst src n m b of
      (Inr _, m', b') \<Rightarrow> is_served (se_regions (wi_env w)) src n \<and>
        m' = mem_write m dst (mem_read (se_mem (wi_env w)) src (nat n)) \<and>
        (\<exists>w'. wired_idle w' \<and> wi_env w' = wi_env w \<and> b' = b\<lparr>tb_peers := dict_set sid w' (tb_peers b)\<rparr>)
    | (Inl e, m', b') \<Rightarrow> \<not> is_served (se_regions (wi_env w)) src n \<and> m' = m \<and> e = RuntimeError ''rejected read''"
proof -
  obtain w' where "read_on wired_send wired_recv dst src n m w =
      (if is_served (se_regions (wi_env w)) src n
       then (Ok (), mem_write m dst (mem_read (se_mem (wi_env w)) src (nat n)), w')
       else (Err (RuntimeError ''rejected read''), m, w'))"
    "is_served (se_regions (wi_env w)) src n \<longrightarrow> wired_idle w' \<and> wi_env w' = wi_env w"
    using read_on_wired [OF assms(2,3,4,5,6), of dst m] by blast
  then show ?thesis using assms(1) by (auto simp: tcp_read_def tcp_peer_def)
qed

definition demo_wired :: wired where
  "demo_wired = \<lparr>wi_env = \<lparr>se_stop = False, se_regions = [(100, 4)], se_mem = (\<lambda>a. word_of_int a),
      se_header_send = None, se_body_send = None\<rparr>,
    wi_cut = (\<lambda>bs. if bs = [] then [] else [bs]), wi_pending = [], wi_open = True\<rparr>"

definition demo_backend :: "wired tcp_backend" where
  "demo_backend = (tcp_init ''10.0.0.2'' default_transfer_config)\<lparr>tb_peers := [(''10.0.0.1:80'', demo_wired)]\<rparr>"

lemma demo_wired_idle: "wired_idle demo_wired"
  by (simp add: wired_idle_def wired_ok_def demo_wired_def segments_ok_def)

theorem tcp_read_copies_witness:
  "case tcp_read (\<lambda>_ _. Err (ConnectionError [])) wired_send wired_recv ''10.0.0.1:80'' 0 101 3 (\<lambda>_. 0) demo_backend of
      (Inr _, m', b') \<Rightarrow> m' = mem_write (\<lambda>_. 0) 0 [101, 102, 103] | (Inl e, _) \<Rightarrow> False"
  using tcp_read_copies [OF _ demo_wired_idle, where b = demo_backend and sid = "''10.0.0.1:80''"
      and src = 101 and n = 3 and connect = "\<lambda>_ _. Err (ConnectionError [])" and dst = 0 and m = "\<lambda>_. 0"]
  by (auto simp: demo_backend_def demo_wired_def is_served_def mem_read_def upt_rec split: prod.splits sum.splits)

text \<open>
  An endpoint is understood as it was published: for the \<open>peer_sid\<close> of a started backend,
  whatever its address (colons included) and port, a first \<open>_peer\<close> connects to exactly that
  address and port and caches the connection; later calls return it without connecting.
\<close>

theorem peer_sid_roundtrip:
  "tcp_peer connect (tcp_peer_sid srv) b =
     (case dict_get (tb_peers b) (tcp_peer_sid srv) of
        Some c \<Rightarrow> (Ok c, b)
      | None \<Rightarrow> (case connect (tb_local_ip srv) (int (tb_port srv)) of
          Inl e \<Rightarrow> (Err e, b)
        | Inr c \<Rightarrow> (Ok c, b\<lparr>tb_peers := dict_set (tcp_peer_sid srv) c (tb_peers b)\<rparr>)))"
proof -
  have "CHR '':'' \<notin> set (dec_string (tb_port srv))"
    by (rule dec_no_colon)
  then have "rpartition CHR '':'' (tcp_peer_sid srv) = (tb_local_ip srv, [CHR '':''], dec_string (tb_port srv))"
    using rpartition_last [of "CHR '':''" "dec_string (tb_port srv)" "tb_local_ip srv"]
    by (simp add: tcp_peer_sid_def)
  then show ?thesis by (simp add: tcp_peer_def split: option.splits sum.splits)
qed

text \<open>
  The reader trusts the length in the reply header: whatever length was asked for, as many
  bytes as the peer announces are written from \<open>dst\<close> on, past the end of the range the caller set
  aside when the peer announces more.
\<close>

theorem read_takes_announced_length:
  assumes "0 \<le> src" "src < 2 ^ 64" "0 \<le> n" "n < 2 ^ 64" "length body < 2 ^ 64"
  shows "read_on (\<lambda>req c. (Ok (), c)) sock_recv dst src n m [be_bytes 1 0 @ be_bytes 8 (length body) @ body]
    = (Ok (), mem_write m dst body, [])"
proof -
  let ?hdr = "be_bytes 1 0 @ be_bytes 8 (length body)"
  obtain req where req: "request_pack 0 src n = Ok req"
    using assms(1-4) by (simp add: request_pack_def struct_uint_def)
  have ok: "segments_ok [?hdr @ body]" by (simp add: segments_ok_def)
  obtain ss where s1: "recv_exact sock_recv reply_size [?hdr @ body] = (Some ?hdr, ss)" "concat ss = body" "segments_ok ss"
    using sock.recv_exact_full [OF ok, of reply_size] by (auto simp: reply_size_def simp del: be_bytes.simps)
  obtain ss' where s2: "recv_into_exact sock_recv dst (length body) m ss = (Ok (), mem_write m dst body, ss')"
      "concat ss' = []" "segments_ok ss'"
    using sock.recv_into_exact_full [OF s1(3), of "length body" dst m] s1(2) by auto
  have "ss' = []" using s2(2,3) by (cases ss') (auto simp: segments_ok_def)
  then show ?thesis
    using req s1(1) s2(1) reply_unpack_bytes [of 0 "length body"] assms(5)
    by (simp add: read_on_def del: be_bytes.simps)
qed

theorem read_takes_announced_length_witness:
  "read_on (\<lambda>req c. (Ok (), c)) sock_recv 100 0 1 (\<lambda>_. 0) [be_bytes 1 0 @ be_bytes 8 (length [1, 2, 3 :: byte]) @ [1, 2, 3]]
    = (Ok (), mem_write (\<lambda>_. 0) 100 [1, 2, 3], [])"
  by (rule read_takes_announced_length) simp_all

section \<open>The Mooncake backend\<close>

text \<open>
  \<open>TransferEngine\<close> is a third-party class: its operations are a parameter, and a return code
  other than 0 is an error. \<open>ensure_ascend_device\<close> sees the ACL library through what loading it
  and its two calls return.
\<close>

definition ensure_ascend_device :: "bool \<Rightarrow> int \<Rightarrow> (int \<Rightarrow> int) \<Rightarrow> int \<Rightarrow> bool" where
  "ensure_ascend_device library_loads get_device_ret set_device_ret device_id =
     (if \<not> library_loads then False
      else if get_device_ret = 0 then True
      else if set_device_ret device_id \<noteq> 0 then False
      else True)"

record 'e engine =
  en_initialize :: "string \<Rightarrow> string \<Rightarrow> string \<Rightarrow> string \<Rightarrow> int \<times> 'e"
  en_rpc_port :: "'e \<Rightarrow> nat"
  en_batch_register :: "int list \<Rightarrow> int list \<Rightarrow> 'e \<Rightarrow> int \<times> 'e"
  en_sync_read :: "string \<Rightarrow> int \<Rightarrow> int \<Rightarrow> int \<Rightarrow> mem \<Rightarrow> 'e \<Rightarrow> int \<times> mem \<times> 'e"

record 'e mooncake_backend =
  mk_local_ip :: string
  mk_config :: transfer_config
  mk_engine :: "'e option"

definition mooncake_init :: "string \<Rightarrow> transfer_config \<Rightarrow> 'e mooncake_backend" where
  "mooncake_init ip cfg = \<lparr>mk_local_ip = ip, mk_config = cfg, mk_engine = None\<rparr>"

definition mooncake_start :: "'e engine \<Rightarrow> 'e mooncake_backend \<Rightarrow> unit result \<times> 'e mooncake_backend" where
  "mooncake_start en b =
     (let (ret, e) = en_initialize en (mk_local_ip b) (tc_metadata_server (mk_config b))
            (tc_protocol (mk_config b)) (tc_device_name (mk_config b));
          b' = b\<lparr>mk_engine := Some e\<rparr>
      in if ret \<noteq> 0 then (Err (RuntimeError ''Failed to initialize Mooncake TransferEngine''), b') else (Ok (), b'))"

definition require_started :: "'e mooncake_backend \<Rightarrow> 'e result" where
  "require_started b = (case mk_engine b of
     None \<Rightarrow> Err (RuntimeError ''Transfer backend has not been started'') | Some e \<Rightarrow> Ok e)"

definition mooncake_peer_sid :: "'e engine \<Rightarrow> 'e mooncake_backend \<Rightarrow> string result" where
  "mooncake_peer_sid en b = bind_res (require_started b) (\<lambda>e.
     Ok (mk_local_ip b @ '':'' @ dec_string (en_rpc_port en e)))"

definition mooncake_register :: "'e engine \<Rightarrow> region list \<Rightarrow> 'e mooncake_backend \<Rightarrow> unit result \<times> 'e mooncake_backend" where
  "mooncake_register en regions b = (case require_started b of
     Inl err \<Rightarrow> (Err err, b)
   | Inr e \<Rightarrow>
      (if regions = [] then (Ok (), b)
       else let (ret, e') = en_batch_register en (map fst regions) (map snd regions) e;
                b' = b\<lparr>mk_engine := Some e'\<rparr>
         in if ret \<noteq> 0 then (Err (RuntimeError ''Mooncake batch_register_memory failed''), b') else (Ok (), b')))"

definition mooncake_read :: "'e engine \<Rightarrow> string \<Rightarrow> int \<Rightarrow> int \<Rightarrow> int \<Rightarrow> mem \<Rightarrow> 'e mooncake_backend \<Rightarrow>
    unit result \<times> mem \<times> 'e mooncake_backend" where
  "mooncake_read en sid dst_ptr src_ptr nbytes m b = (case require_started b of
     Inl err \<Rightarrow> (Err err, m, b)
   | Inr e \<Rightarrow>
      (case en_sync_read en sid dst_ptr src_ptr nbytes m e of (ret, m', e') \<Rightarrow>
         (if ret \<noteq> 0 then Err (RuntimeError ''Mooncake transfer_sync_read failed'') else Ok (),
          m', b\<lparr>mk_engine := Some e'\<rparr>)))"

definition mooncake_close :: "'e mooncake_backend \<Rightarrow> 'e mooncake_backend" where
  "mooncake_close b = b\<lparr>mk_engine := None\<rparr>"

section \<open>Either backend\<close>

datatype ('c, 'e) backend = Tcp "'c tcp_backend" | Mooncake "'e mooncake_backend"

definition build_transfer_backend :: "string \<Rightarrow> transfer_config \<Rightarrow> ('c, 'e) backend result" where
  "build_transfer_backend ip cfg =
     (if tc_backend cfg = ''tcp'' then Ok (Tcp (tcp_init ip cfg))
      else if tc_backend cfg = ''mooncake'' then Ok (Mooncake (mooncake_init ip cfg))
      else Err (ValueError ''Unsupported transfer backend''))"

definition backend_start :: "'e engine \<Rightarrow> nat result \<Rightarrow> ('c, 'e) backend \<Rightarrow> unit result \<times> ('c, 'e) backend" where
  "backend_start en bound b = (case b of
     Tcp t \<Rightarrow> map_prod id Tcp (tcp_start bound t)
   | Mooncake k \<Rightarrow> map_prod id Mooncake (mooncake_start en k))"

definition backend_peer_sid :: "'e engine \<Rightarrow> ('c, 'e) backend \<Rightarrow> string result" where
  "backend_peer_sid en b = (case b of Tcp t \<Rightarrow> Ok (tcp_peer_sid t) | Mooncake k \<Rightarrow> mooncake_peer_sid en k)"

definition backend_register :: "'e engine \<Rightarrow> region list \<Rightarrow> ('c, 'e) backend \<Rightarrow> unit result \<times> ('c, 'e) backend" where
  "backend_register en rs b = (case b of
     Tcp t \<Rightarrow> (Ok (), Tcp (tcp_register rs t))
   | Mooncake k \<Rightarrow> map_prod id Mooncake (mooncake_register en rs k))"

definition register_buckets :: "'e engine \<Rightarrow> bucket_allocation list \<Rightarrow> ('c, 'e) backend \<Rightarrow> unit result \<times> ('c, 'e) backend" where
  "register_buckets en bs b = (if bs = [] then (Ok (), b) else backend_register en (bucket_regions bs) b)"

definition backend_read :: "'e engine \<Rightarrow> (string \<Rightarrow> int \<Rightarrow> 'c result) \<Rightarrow> (byte list \<Rightarrow> 'c \<Rightarrow> unit result \<times> 'c) \<Rightarrow>
    (nat \<Rightarrow> 'c \<Rightarrow> byte list \<times> 'c) \<Rightarrow> string \<Rightarrow> int \<Rightarrow> int \<Rightarrow> int \<Rightarrow> mem \<Rightarrow> ('c, 'e) backend \<Rightarrow>
    unit result \<times> mem \<times> ('c, 'e) backend" where
  "backend_read en connect send recv sid dst_ptr src_ptr nbytes m b = (case b of
     Tcp t \<Rightarrow> map_prod id (map_prod id Tcp) (tcp_read connect send recv sid dst_ptr src_ptr nbytes m t)
   | Mooncake k \<Rightarrow> map_prod id (map_prod id Mooncake) (mooncake_read en sid dst_ptr src_ptr nbytes m k))"

definition backend_close :: "('c, 'e) backend \<Rightarrow> ('c, 'e) backend" where
  "backend_close b = (case b of Tcp t \<Rightarrow> Tcp (tcp_close t) | Mooncake k \<Rightarrow> Mooncake (mooncake_close k))"

end
