(* ===== verification/CacheServer.thy ===== *)
theory CacheServer
  imports ModelPack TcpTransfer
begin

text \<open>
  The server process (\<open>static_weight_cache/server.py\<close>, \<open>net_utils.py\<close>): the pool, the model
  manager and a data plane behind one control socket. What the operating system and ZeroMQ do is
  an argument: addresses, ports, and the messages of the control loop.

  The locale \<open>data_plane\<close> is what the server relies on when it registers a model's buckets: the
  new regions become readable and nothing else changes.
\<close>

section \<open>The data plane contract\<close>

definition covers :: "region list \<Rightarrow> int \<Rightarrow> int \<Rightarrow> bool" where
  "covers rs p n \<longleftrightarrow> (\<exists>(base, cap) \<in> set rs. base \<le> p \<and> p + n \<le> base + cap)"

locale data_plane =
  fixes register :: "region list \<Rightarrow> 'b \<Rightarrow> 'b" and reach :: "'b \<Rightarrow> int \<Rightarrow> int \<Rightarrow> bool"
  assumes reach_register: "reach (register rs b) p n \<longleftrightarrow> reach b p n \<or> covers rs p n"
begin

lemma reach_kept: "reach b p n \<Longrightarrow> reach (register rs b) p n"
  by (simp add: reach_register)

lemma reach_new: "(base, cap) \<in> set rs \<Longrightarrow> base \<le> p \<Longrightarrow> p + n \<le> base + cap \<Longrightarrow> reach (register rs b) p n"
  by (auto simp: reach_register covers_def)

lemma reach_batches:
  "reach (foldl (\<lambda>b rs. register rs b) b batches) p n \<longleftrightarrow> reach b p n \<or> (\<exists>rs \<in> set batches. covers rs p n)"
  by (induction batches arbitrary: b) (auto simp: reach_register)

end

interpretation tcp_plane: data_plane tcp_register "\<lambda>b. is_served (tb_regions b)"
  by unfold_locales (auto simp: tcp_register_def is_served_def covers_def list_ex_iff)

section \<open>Network helpers\<close>

text \<open>\<open>get_local_ip\<close>: \<open>route\<close> is the address of the default route, or the error of \<open>connect\<close>.\<close>

definition get_local_ip :: "string result \<Rightarrow> string" where
  "get_local_ip route = (case route of Inr ip \<Rightarrow> ip | Inl _ \<Rightarrow> ''127.0.0.1'')"

text \<open>\<open>get_free_port\<close>: \<open>bound\<close> is the port that binding to port 0 gives.\<close>

definition get_free_port :: "(string \<Rightarrow> nat result) \<Rightarrow> string \<Rightarrow> nat result" where
  "get_free_port bound ip = bound ip"

section \<open>State\<close>

record server_config =
  sc_model_id :: string
  sc_model_path :: "string option"
  sc_revision :: "string option"
  sc_bind_ip :: "string option"
  sc_metadata_port :: nat
  sc_capacity_bytes :: int
  sc_bucket_size_bytes :: int
  sc_host_mem :: "host_mem_config option"
  sc_transfer :: transfer_config

text \<open>The model manager holds the pool. The three flags say whether the control socket, the ZeroMQ
  context and the control thread exist.\<close>

record ('c, 'e) server =
  sv_config :: server_config
  sv_ip :: string
  sv_manager :: model_manager
  sv_backend :: "('c, 'e) backend"
  sv_context :: bool
  sv_control_socket :: bool
  sv_thread :: bool
  sv_stop :: bool
  sv_metadata_port :: nat

definition or_str :: "string option \<Rightarrow> string \<Rightarrow> string" where
  "or_str s d = (case s of None \<Rightarrow> d | Some x \<Rightarrow> if x = [] then d else x)"

definition default_host_mem :: "int \<Rightarrow> host_mem_config" where
  "default_host_mem cap = \<lparr>capacity_bytes = cap, alignment = 4096, pin_memory = True, lock_memory = False\<rparr>"

definition server_init ::
    "server_config \<Rightarrow> string result \<Rightarrow> int \<Rightarrow> int \<Rightarrow> int \<Rightarrow> ('c, 'e) server result" where
  "server_init cfg route raw_ptr mlock_ret errno =
     (let ip = or_str (sc_bind_ip cfg) (get_local_ip route);
          hcfg = (case sc_host_mem cfg of Some h \<Rightarrow> h | None \<Rightarrow> default_host_mem (sc_capacity_bytes cfg))
      in bind_res (hm_init hcfg raw_ptr mlock_ret errno) (\<lambda>pool.
         bind_res (mg_init pool (sc_bucket_size_bytes cfg)) (\<lambda>mg.
         bind_res (build_transfer_backend ip (sc_transfer cfg)) (\<lambda>b.
           Ok \<lparr>sv_config = cfg, sv_ip = ip, sv_manager = mg, sv_backend = b, sv_context = False,
               sv_control_socket = False, sv_thread = False, sv_stop = False,
               sv_metadata_port = sc_metadata_port cfg\<rparr>))))"

definition metadata_endpoint :: "('c, 'e) server \<Rightarrow> string" where
  "metadata_endpoint s = ''tcp://'' @ sv_ip s @ '':'' @ dec_string (sv_metadata_port s)"

section \<open>Loading\<close>

text \<open>The buckets of the new model are looked up in the pool and given to the data plane.\<close>

definition register_model ::
    "'e engine \<Rightarrow> model_metadata result \<times> model_manager \<times> mem \<Rightarrow> ('c, 'e) server
     \<Rightarrow> unit result \<times> ('c, 'e) server \<times> mem" where
  "register_model en loaded s = (case loaded of
     (Inl e, g, m) \<Rightarrow> (Err e, s\<lparr>sv_manager := g\<rparr>, m)
   | (Inr md, g, m) \<Rightarrow>
      (case map_res (\<lambda>bm. get_bucket (bm_bucket_id bm) (mg_pool g)) (mm_buckets md) of
         Inl e \<Rightarrow> (Err e, s\<lparr>sv_manager := g\<rparr>, m)
       | Inr allocs \<Rightarrow> (case register_buckets en allocs (sv_backend s) of
           (r, b) \<Rightarrow> (r, s\<lparr>sv_manager := g, sv_backend := b\<rparr>, m))))"

definition server_load_model ::
    "'e engine \<Rightarrow> bool \<Rightarrow> (string \<Rightarrow> (string \<times> (string \<times> tensor) list) list) \<Rightarrow> string \<Rightarrow> string \<Rightarrow> string option
     \<Rightarrow> ('c, 'e) server \<times> mem \<Rightarrow> unit result \<times> ('c, 'e) server \<times> mem" where
  "server_load_model en have_st dirs mid path revision sm =
     register_model en (load_safetensors_dir have_st (dirs path) mid revision (sv_manager (fst sm), snd sm)) (fst sm)"

definition server_load_named_tensors ::
    "'e engine \<Rightarrow> string \<Rightarrow> (string \<times> tensor) list \<Rightarrow> string option
     \<Rightarrow> ('c, 'e) server \<times> mem \<Rightarrow> unit result \<times> ('c, 'e) server \<times> mem" where
  "server_load_named_tensors en mid nts revision sm =
     register_model en (load_from_named_tensors mid nts revision (sv_manager (fst sm), snd sm)) (fst sm)"

section \<open>Queries and the control loop\<close>

definition handle_query :: "'e engine \<Rightarrow> ('c, 'e) server \<Rightarrow> wire \<Rightarrow> wire" where
  "handle_query en s payload =
     response_to_wire
      (case bind_res (query_from_wire payload) (\<lambda>q.
            bind_res (get_model (cq_model_id q) (sv_manager s)) (\<lambda>md.
            bind_res (backend_peer_sid en (sv_backend s)) (\<lambda>sid.
              Ok \<lparr>cr_ok = True, cr_peer_sid = Some sid, cr_weight_info = Some (to_weight_info md),
                  cr_error = None\<rparr>))) of
         Inr r \<Rightarrow> r
       | Inl err \<Rightarrow> \<lparr>cr_ok = False, cr_peer_sid = None, cr_weight_info = None, cr_error = Some (err_text err)\<rparr>)"

text \<open>
  \<open>_serve_control_loop\<close>. Each event is what one turn of the loop meets: the stop flag when it is
  tested, and what \<open>recv_pyobj\<close> does: it delivers a value and the reply can or cannot be sent, it
  raises a \<open>ZMQError\<close>, or it raises something else because the message does not unpickle (only
  \<open>ZMQError\<close> is caught). The server may change between turns.
\<close>

datatype control_event = Query wire bool | Zmq_error | Bad_pickle
datatype loop_end = Loop_waiting | Loop_stopped | Loop_zmq_error | Loop_crashed

fun serve_control_loop :: "'e engine \<Rightarrow> (bool \<times> ('c, 'e) server \<times> control_event) list \<Rightarrow> wire list \<times> loop_end" where
  "serve_control_loop en [] = ([], Loop_waiting)"
| "serve_control_loop en ((stop, s, ev) # evs) =
     (if stop then ([], Loop_stopped)
      else case ev of
        Query payload sent \<Rightarrow>
          if sent then (case serve_control_loop en evs of (rs, e) \<Rightarrow> (handle_query en s payload # rs, e))
          else ([], Loop_zmq_error)
      | Zmq_error \<Rightarrow> ([], Loop_zmq_error)
      | Bad_pickle \<Rightarrow> ([], Loop_crashed))"

section \<open>Starting and stopping\<close>

definition start_control_socket :: "(string \<Rightarrow> nat result) \<Rightarrow> unit result \<Rightarrow> ('c, 'e) server \<Rightarrow> unit result \<times> ('c, 'e) server" where
  "start_control_socket bound zmq_bind s =
     (case (if sv_metadata_port s = 0 then get_free_port bound (sv_ip s) else Ok (sv_metadata_port s)) of
        Inl e \<Rightarrow> (Err e, s)
      | Inr p \<Rightarrow>
         (let s1 = s\<lparr>sv_metadata_port := p, sv_context := True, sv_control_socket := True\<rparr>
          in case zmq_bind of Inl e \<Rightarrow> (Err e, s1) | Inr _ \<Rightarrow> (Ok (), s1\<lparr>sv_thread := True\<rparr>)))"

definition server_start ::
    "'e engine \<Rightarrow> nat result \<Rightarrow> (string \<Rightarrow> nat result) \<Rightarrow> unit result \<Rightarrow> bool \<Rightarrow>
     (string \<Rightarrow> (string \<times> (string \<times> tensor) list) list) \<Rightarrow> ('c, 'e) server \<times> mem
     \<Rightarrow> unit result \<times> ('c, 'e) server \<times> mem" where
  "server_start en data_bound bound zmq_bind have_st dirs sm =
     (case backend_start en data_bound (sv_backend (fst sm)) of
        (Inl e, b) \<Rightarrow> (Err e, (fst sm)\<lparr>sv_backend := b\<rparr>, snd sm)
      | (Inr _, b) \<Rightarrow>
         (case start_control_socket bound zmq_bind ((fst sm)\<lparr>sv_backend := b\<rparr>) of
            (Inl e, s1) \<Rightarrow> (Err e, s1, snd sm)
          | (Inr _, s1) \<Rightarrow>
             (let path = or_str (sc_model_path (sv_config s1)) []
              in if path = [] then (Ok (), s1, snd sm)
                 else server_load_model en have_st dirs (sc_model_id (sv_config s1)) path
                        (sc_revision (sv_config s1)) (s1, snd sm))))"

definition serve_forever :: "('c, 'e) server \<Rightarrow> unit result" where
  "serve_forever s = (if \<not> sv_thread s then Err (RuntimeError ''Server has not been started'') else Ok ())"

definition server_stop :: "int \<Rightarrow> ('c, 'e) server \<Rightarrow> unit result \<times> ('c, 'e) server" where
  "server_stop munlock_ret s =
     (let s1 = s\<lparr>sv_stop := True, sv_control_socket := False, sv_context := False,
                 sv_backend := backend_close (sv_backend s)\<rparr>
      in case hm_close munlock_ret (mg_pool (sv_manager s1)) of
           Inl e \<Rightarrow> (Err e, s1)
         | Inr h \<Rightarrow> (Ok (), s1\<lparr>sv_manager := (sv_manager s1)\<lparr>mg_pool := h\<rparr>\<rparr>))"

section \<open>Answers\<close>

text \<open>The model a payload asks for: a bare id, or a dict with the id under \<open>model_id\<close>.\<close>

fun asked_model :: "wire \<Rightarrow> string option" where
  "asked_model (WStr mid) = Some mid"
| "asked_model (WDict d) = (case dict_get d ''model_id'' of Some (WStr mid) \<Rightarrow> Some mid | _ \<Rightarrow> None)"
| "asked_model _ = None"

lemma asked_model_found:
  "asked_model payload = Some mid \<Longrightarrow> dict_get (mg_models g) mid = Some md \<Longrightarrow>
    bind_res (query_from_wire payload) (\<lambda>q. get_model (cq_model_id q) g) = Ok md"
proof -
  assume a: "asked_model payload = Some mid" "dict_get (mg_models g) mid = Some md"
  then obtain q where "query_from_wire payload = Ok q" "cq_model_id q = WStr mid"
    by (cases payload) (auto simp: dict_index_def split: option.splits wire.splits)
  then show ?thesis using a(2) by (simp add: get_model_def del: bind_res_Ok)
qed

lemma asked_model_missing:
  assumes "\<And>mid. asked_model payload = Some mid \<Longrightarrow> dict_get (mg_models g) mid = None"
  shows "\<exists>e. bind_res (query_from_wire payload) (\<lambda>q. get_model (cq_model_id q) g) = Err e"
  using assms
  by (cases payload) (auto simp: get_model_def dict_index_def split: option.splits wire.splits if_splits)

lemma bind_res_assoc: "bind_res (bind_res r f) g = bind_res r (\<lambda>x. bind_res (f x) g)"
  by (cases r) simp_all

lemma handle_query_shape:
  "handle_query en s payload = response_to_wire
     (case bind_res (bind_res (query_from_wire payload) (\<lambda>q. get_model (cq_model_id q) (sv_manager s)))
        (\<lambda>md. bind_res (backend_peer_sid en (sv_backend s)) (\<lambda>sid. Ok (sid, md))) of
       Inr (sid, md) \<Rightarrow> \<lparr>cr_ok = True, cr_peer_sid = Some sid, cr_weight_info = Some (to_weight_info md), cr_error = None\<rparr>
     | Inl err \<Rightarrow> \<lparr>cr_ok = False, cr_peer_sid = None, cr_weight_info = None, cr_error = Some (err_text err)\<rparr>)"
  unfolding handle_query_def bind_res_assoc by (simp add: bind_res_def split: sum.splits)

text \<open>
  Every payload gets an answer: when it names a loaded model, the answer says so and carries
  the data plane's address and exactly the stored metadata; every other payload (an unknown
  model, a dict without an id, a value of any other type) gets \<open>ok = False\<close> and an error text.
\<close>

theorem handle_query_answers:
  "case (case asked_model payload of None \<Rightarrow> None | Some mid \<Rightarrow> dict_get (mg_models (sv_manager s)) mid) of
      Some md \<Rightarrow>
        (case backend_peer_sid en (sv_backend s) of
           Inr sid \<Rightarrow> handle_query en s payload = WDict [(''ok'', WBool True), (''peer_sid'', WStr sid),
             (''weight_info'', to_weight_info md), (''error'', WNone)]
         | Inl e \<Rightarrow> \<exists>msg. handle_query en s payload = WDict [(''ok'', WBool False), (''peer_sid'', WNone),
             (''weight_info'', WDict []), (''error'', WStr msg)])
    | None \<Rightarrow> \<exists>msg. handle_query en s payload = WDict [(''ok'', WBool False), (''peer_sid'', WNone),
        (''weight_info'', WDict []), (''error'', WStr msg)]"
proof (cases "case asked_model payload of None \<Rightarrow> None | Some mid \<Rightarrow> dict_get (mg_models (sv_manager s)) mid")
  case None
  then have "asked_model payload = Some mid \<Longrightarrow> dict_get (mg_models (sv_manager s)) mid = None" for mid by simp
  from asked_model_missing [OF this] obtain e where
    "bind_res (query_from_wire payload) (\<lambda>q. get_model (cq_model_id q) (sv_manager s)) = Err e" by blast
  then show ?thesis unfolding None handle_query_shape by (simp add: response_to_wire_def opt_str_def)
next
  case (Some md)
  then obtain mid where "asked_model payload = Some mid" "dict_get (mg_models (sv_manager s)) mid = Some md"
    by (auto split: option.splits)
  from asked_model_found [OF this] show ?thesis
    unfolding Some handle_query_shape
    by (cases "backend_peer_sid en (sv_backend s)")
      (simp_all add: response_to_wire_def opt_str_def to_weight_info_true del: bind_res_Ok)
qed

text \<open>
  The control loop answers in order, one reply for each message, whatever the messages say;
  but a message that does not unpickle ends it: the exception is not a \<open>ZMQError\<close>, so the control
  thread dies and what follows is never answered.
\<close>

theorem control_loop_replies:
  "serve_control_loop en (List.map (\<lambda>(s, p). (False, s, Query p True)) qs @ evs) =
     (case evs of
        [] \<Rightarrow> (List.map (\<lambda>(s, p). handle_query en s p) qs, Loop_waiting)
      | (stop, s, ev) # rest \<Rightarrow>
          (if stop then (List.map (\<lambda>(s, p). handle_query en s p) qs, Loop_stopped)
           else case ev of
             Bad_pickle \<Rightarrow> (List.map (\<lambda>(s, p). handle_query en s p) qs, Loop_crashed)
           | _ \<Rightarrow> (case serve_control_loop en evs of
               (rs, e) \<Rightarrow> (List.map (\<lambda>(s, p). handle_query en s p) qs @ rs, e))))"
proof (induction qs)
  case Nil
  then show ?case by (cases evs) (auto split: control_event.splits prod.splits)
next
  case (Cons q qs)
  then show ?case
    by (cases q) (auto split: list.splits control_event.splits prod.splits)
qed

section \<open>The server's invariant\<close>

text \<open>
  \<open>log\<close> are the models loaded so far, with the tensors they were given. Every one of them is still
  in memory, byte for byte, and readable over the data plane; nothing below \<open>lo\<close> (the base of the
  pool) or above the allocation pointer is readable.
\<close>

definition model_served :: "int \<Rightarrow> ('c, 'e) server \<Rightarrow> region list \<Rightarrow> mem \<Rightarrow> string \<times> (string \<times> tensor) list \<Rightarrow> bool" where
  "model_served lo s regions m entry \<longleftrightarrow>
     (\<exists>md tss. dict_get (mg_models (sv_manager s)) (fst entry) = Some md \<and> concat tss = snd entry \<and>
        list_all2 (bucket_holds m) (mm_buckets md) tss \<and> mm_bucket_num md = int (length (mm_buckets md)) \<and>
        (\<forall>bm \<in> set (mm_buckets md). lo \<le> bm_base_ptr bm \<and>
           bm_base_ptr bm + bm_capacity bm \<le> frontier (mg_pool (sv_manager s)) \<and>
           is_served regions (bm_base_ptr bm) (bm_capacity bm)))"

definition sv_inv ::
    "int \<Rightarrow> int \<Rightarrow> ('c, 'e) server \<Rightarrow> mem \<Rightarrow> (string \<times> (string \<times> tensor) list) list \<Rightarrow> bool" where
  "sv_inv lo hi s m log \<longleftrightarrow>
     (\<exists>t. sv_backend s = Tcp t \<and>
        (\<forall>(base, cap) \<in> set (tb_regions t). lo \<le> base \<and> base + cap \<le> frontier (mg_pool (sv_manager s))) \<and>
        (\<forall>entry \<in> set log. model_served lo s (tb_regions t) m entry)) \<and>
     hm_wf (mg_pool (sv_manager s)) \<and> 0 < mg_bucket_size (sv_manager s) \<and>
     pool_end (mg_pool (sv_manager s)) = hi \<and> lo \<le> frontier (mg_pool (sv_manager s))"

definition tensors_pre :: "(string \<times> tensor) list \<Rightarrow> bool" where
  "tensors_pre nts \<longleftrightarrow> (\<forall>nt \<in> set nts. tensor_ok (snd nt)) \<and> distinct (List.map fst nts)"

lemma get_registered_buckets:
  assumes "\<forall>bm \<in> set bms. bucket_registered h bm"
  shows "\<exists>allocs. map_res (\<lambda>bm. get_bucket (bm_bucket_id bm) h) bms = Ok allocs \<and>
    bucket_regions allocs = List.map (\<lambda>bm. (bm_base_ptr bm, bm_capacity bm)) bms \<and> (allocs = [] \<longleftrightarrow> bms = [])"
  using assms
  by (induction bms) (auto simp: bucket_registered_def get_bucket_def dict_index_def bucket_regions_def)

lemma frontier_le_pool_end: "hm_wf h \<Longrightarrow> frontier h \<le> pool_end h"
  by (simp add: hm_wf_def frontier_def pool_end_def)

lemma open_front_le:
  assumes "pack_inv F E m0 s tss cur"
  shows "open_front s \<le> frontier (pk_pool s)"
proof (cases "pk_alloc s")
  case (Some b)
  then have b: "dict_get (hm_allocations (pk_pool s)) (ba_bucket_id b) = Some b" "hm_wf (pk_pool s)"
    using assms by (auto simp: pack_inv_def open_ok_def)
  from pool_wf_D [OF b(2,1)] Some show ?thesis by (simp add: open_front_def)
qed (simp add: open_front_def)

lemma model_served_mono:
  assumes "model_served lo s regions m entry"
    and "\<And>mid md. dict_get (mg_models (sv_manager s)) mid = Some md \<Longrightarrow> dict_get (mg_models (sv_manager s')) mid = Some md"
    and "\<And>p. p < frontier (mg_pool (sv_manager s)) \<Longrightarrow> m' p = m p"
    and "frontier (mg_pool (sv_manager s)) \<le> frontier (mg_pool (sv_manager s'))"
    and "\<And>p n. is_served regions p n \<Longrightarrow> is_served regions' p n"
  shows "model_served lo s' regions' m' entry"
proof -
  obtain md tss where d: "dict_get (mg_models (sv_manager s)) (fst entry) = Some md" "concat tss = snd entry"
      "list_all2 (bucket_holds m) (mm_buckets md) tss" "mm_bucket_num md = int (length (mm_buckets md))"
      "\<forall>bm \<in> set (mm_buckets md). lo \<le> bm_base_ptr bm \<and>
           bm_base_ptr bm + bm_capacity bm \<le> frontier (mg_pool (sv_manager s)) \<and>
           is_served regions (bm_base_ptr bm) (bm_capacity bm)"
    using assms(1) unfolding model_served_def by blast
  have "list_all2 (bucket_holds m') (mm_buckets md) tss"
  proof (rule list.rel_mono_strong [OF d(3)])
    fix bm nts assume "bm \<in> set (mm_buckets md)" "bucket_holds m bm nts"
    then show "bucket_holds m' bm nts"
      using d(5) by (intro bucket_holds_frame [of m bm nts m'] assms(3)) fastforce+
  qed
  then show ?thesis unfolding model_served_def
    using d assms(2,4,5) by (intro exI [of _ md] exI [of _ tss]) fastforce
qed

lemma register_model_inv:
  assumes inv: "sv_inv lo hi s m log" and pre: "tensors_pre nts"
    and step: "register_model en (load_from_named_tensors mid nts vsn (sv_manager s, m)) s = (r, s', m')"
  shows "sv_inv lo hi s' m' (case r of Inl _ \<Rightarrow> log | Inr _ \<Rightarrow> log @ [(mid, nts)])"
proof -
  let ?g = "sv_manager s"
  obtain t where t: "sv_backend s = Tcp t"
      "\<forall>(base, cap) \<in> set (tb_regions t). lo \<le> base \<and> base + cap \<le> frontier (mg_pool ?g)"
      "\<forall>entry \<in> set log. model_served lo s (tb_regions t) m entry"
    using inv by (auto simp: sv_inv_def)
  have wf: "hm_wf (mg_pool ?g)" "0 < mg_bucket_size ?g" "pool_end (mg_pool ?g) = hi" "lo \<le> frontier (mg_pool ?g)"
    using inv by (simp_all add: sv_inv_def)
  have lp: "load_pre ?g nts" using wf pre by (simp add: load_pre_def tensors_pre_def)
  show ?thesis
    using lp
  proof (cases rule: load_cases [of ?g nts mid vsn m])
    case loaded
    then have "r = Err (ValueError ''Model already loaded'')" "s' = s" "m' = m"
      using step by (auto simp: register_model_def)
    then show ?thesis using inv by simp
  next
    case (exhausted msg ps)
    then have e: "r = Err (MemoryError msg)" "s' = s\<lparr>sv_manager := ?g\<lparr>mg_pool := pk_pool ps\<rparr>\<rparr>" "m' = pk_mem ps"
      using step by (auto simp: register_model_def)
    obtain tss cur where pi: "pack_inv (frontier (mg_pool ?g)) (pool_end (mg_pool ?g)) m ps tss cur"
      using exhausted(3) by (auto simp: pack_stopped_def)
    then have p: "hm_wf (pk_pool ps)" "pool_end (pk_pool ps) = hi" "frontier (mg_pool ?g) \<le> frontier (pk_pool ps)"
      "\<And>p. p < frontier (mg_pool ?g) \<Longrightarrow> pk_mem ps p = m p" using wf(3) by (simp_all add: pack_inv_def)
    have "\<forall>entry \<in> set log. model_served lo s' (tb_regions t) m' entry"
      using t(3) p e by (auto intro: model_served_mono)
    moreover have "\<forall>(base, cap) \<in> set (tb_regions t). lo \<le> base \<and> base + cap \<le> frontier (pk_pool ps)"
      using t(2) p(3) by fastforce
    ultimately show ?thesis using t(1) p wf e by (simp add: sv_inv_def)
  next
    case (stored md ps tss)
    let ?g' = "?g\<lparr>mg_pool := pk_pool ps, mg_models := mg_models ?g @ [(mid, md)]\<rparr>"
    let ?new = "List.map (\<lambda>bm. (bm_base_ptr bm, bm_capacity bm)) (pk_buckets ps)"
    have pi: "pack_inv (frontier (mg_pool ?g)) (pool_end (mg_pool ?g)) m ps tss []" by (rule stored(4))
    then have p: "hm_wf (pk_pool ps)" "pool_end (pk_pool ps) = hi" "frontier (mg_pool ?g) \<le> frontier (pk_pool ps)"
      "\<And>p. p < frontier (mg_pool ?g) \<Longrightarrow> pk_mem ps p = m p" using wf(3) by (simp_all add: pack_inv_def)
    have bms: "list_all2 (bucket_holds (pk_mem ps)) (pk_buckets ps) tss"
        "\<forall>bm \<in> set (pk_buckets ps). bucket_registered (pk_pool ps) bm"
        "\<forall>bm \<in> set (pk_buckets ps). lo \<le> bm_base_ptr bm \<and> bm_base_ptr bm + bm_capacity bm \<le> frontier (pk_pool ps)"
      using pi open_front_le [OF pi] wf(4) by (fastforce simp: pack_inv_def)+
    obtain allocs where al: "map_res (\<lambda>bm. get_bucket (bm_bucket_id bm) (pk_pool ps)) (pk_buckets ps) = Ok allocs"
        "bucket_regions allocs = ?new" "allocs = [] \<longleftrightarrow> pk_buckets ps = []"
      using get_registered_buckets [OF bms(2)] by blast
    define t' where "t' = tcp_register ?new t"
    have same: "tcp_register [] t = t" by (simp add: tcp_register_def)
    have e: "r = Ok ()" "s' = s\<lparr>sv_manager := ?g', sv_backend := Tcp t'\<rparr>" "m' = pk_mem ps"
      using step stored(2,3) al t(1) same
      by (auto simp: register_model_def register_buckets_def backend_register_def t'_def)
    have regions: "tb_regions t' = tb_regions t @ ?new" by (simp add: t'_def tcp_register_def)
    have old: "\<forall>entry \<in> set log. model_served lo s' (tb_regions t') m' entry"
    proof
      fix entry assume "entry \<in> set log"
      then have ms: "model_served lo s (tb_regions t) m entry" using t(3) by blast
      show "model_served lo s' (tb_regions t') m' entry"
      proof (rule model_served_mono [OF ms])
        fix k md' assume "dict_get (mg_models ?g) k = Some md'"
        then show "dict_get (mg_models (sv_manager s')) k = Some md'"
          using stored(1) by (auto simp: e map_add_def dict_has_def split: option.splits)
      qed (use p e tcp_plane.reach_kept in \<open>auto simp: t'_def\<close>)
    qed
    have "model_served lo s' (tb_regions t') m' (mid, nts)"
      unfolding model_served_def
    proof (intro exI conjI)
      show "dict_get (mg_models (sv_manager s')) (fst (mid, nts)) = Some md"
        using stored(1) by (simp add: e map_add_def dict_has_def)
      show "\<forall>bm \<in> set (mm_buckets md). lo \<le> bm_base_ptr bm \<and>
          bm_base_ptr bm + bm_capacity bm \<le> frontier (mg_pool (sv_manager s')) \<and>
          is_served (tb_regions t') (bm_base_ptr bm) (bm_capacity bm)"
      proof
        fix bm assume "bm \<in> set (mm_buckets md)"
        then have b: "bm \<in> set (pk_buckets ps)" using stored(3) by simp
        have "is_served (tb_regions t') (bm_base_ptr bm) (bm_capacity bm)"
          unfolding t'_def using b
          by (intro tcp_plane.reach_new [of "bm_base_ptr bm" "bm_capacity bm"]) auto
        then show "lo \<le> bm_base_ptr bm \<and>
            bm_base_ptr bm + bm_capacity bm \<le> frontier (mg_pool (sv_manager s')) \<and>
            is_served (tb_regions t') (bm_base_ptr bm) (bm_capacity bm)"
          using bms(3) b by (simp add: e)
      qed
    qed (use stored(3,5) bms(1) e in simp_all)
    moreover have "\<forall>(base, cap) \<in> set (tb_regions t'). lo \<le> base \<and> base + cap \<le> frontier (pk_pool ps)"
      using t(2) p(3) bms(3) unfolding regions by fastforce
    ultimately show ?thesis using old p wf by (auto simp: sv_inv_def e)
  qed
qed

text \<open>What can happen to a server after it was built, and the log of successful loads.\<close>

definition dir_tensors :: "(string \<times> (string \<times> tensor) list) list \<Rightarrow> (string \<times> tensor) list" where
  "dir_tensors dir = concat (List.map snd (sort_key fst (filter (\<lambda>f. has_suffix ''.safetensors'' (fst f)) dir)))"

definition log_load :: "unit result \<Rightarrow> string \<Rightarrow> (string \<times> tensor) list \<Rightarrow> (string \<times> (string \<times> tensor) list) list
    \<Rightarrow> (string \<times> (string \<times> tensor) list) list" where
  "log_load r mid nts log = (case r of Inl _ \<Rightarrow> log | Inr _ \<Rightarrow> log @ [(mid, nts)])"

inductive sv_reach ::
    "int \<Rightarrow> int \<Rightarrow> ('c, 'e) server \<Rightarrow> mem \<Rightarrow> (string \<times> (string \<times> tensor) list) list \<Rightarrow> bool" where
  built: "\<lbrakk>server_init cfg route raw ret errno = Ok s; tc_backend (sc_transfer cfg) = ''tcp'';
      0 < alignment (case sc_host_mem cfg of Some h \<Rightarrow> h | None \<Rightarrow> default_host_mem (sc_capacity_bytes cfg))\<rbrakk> \<Longrightarrow>
    sv_reach (hm_base_ptr (mg_pool (sv_manager s))) (pool_end (mg_pool (sv_manager s))) s m []"
| started: "\<lbrakk>sv_reach lo hi s m log; or_str (sc_model_path (sv_config s)) [] = [];
      server_start en data_bound bound zmq_bind have_st dirs (s, m) = (r, s', m')\<rbrakk> \<Longrightarrow> sv_reach lo hi s' m' log"
| named: "\<lbrakk>sv_reach lo hi s m log; tensors_pre nts;
      server_load_named_tensors en mid nts vsn (s, m) = (r, s', m')\<rbrakk> \<Longrightarrow> sv_reach lo hi s' m' (log_load r mid nts log)"
| from_dir: "\<lbrakk>sv_reach lo hi s m log; tensors_pre (dir_tensors (dirs path));
      server_load_model en have_st dirs mid path vsn (s, m) = (r, s', m')\<rbrakk> \<Longrightarrow>
    sv_reach lo hi s' m' (log_load r mid (dir_tensors (dirs path)) log)"
| stopped: "\<lbrakk>sv_reach lo hi s m log; server_stop munlock_ret s = (r, s')\<rbrakk> \<Longrightarrow> sv_reach lo hi s' m log"

text \<open>Changes that leave the manager and the regions alone.\<close>

lemma sv_inv_same:
  assumes "sv_inv lo hi s m log" "sv_backend s = Tcp t" "sv_backend s' = Tcp t'" "tb_regions t' = tb_regions t"
    "mg_models (sv_manager s') = mg_models (sv_manager s)"
    "mg_bucket_size (sv_manager s') = mg_bucket_size (sv_manager s)"
    "hm_wf (mg_pool (sv_manager s'))"
    "frontier (mg_pool (sv_manager s')) = frontier (mg_pool (sv_manager s))"
    "pool_end (mg_pool (sv_manager s')) = pool_end (mg_pool (sv_manager s))"
  shows "sv_inv lo hi s' m log"
  using assms by (auto simp: sv_inv_def model_served_def)

lemma server_init_inv:
  assumes "server_init cfg route raw ret errno = Ok s" "tc_backend (sc_transfer cfg) = ''tcp''"
    "0 < alignment (case sc_host_mem cfg of Some h \<Rightarrow> h | None \<Rightarrow> default_host_mem (sc_capacity_bytes cfg))"
  shows "sv_inv (hm_base_ptr (mg_pool (sv_manager s))) (pool_end (mg_pool (sv_manager s))) s m []"
proof -
  let ?cfg = "case sc_host_mem cfg of Some h \<Rightarrow> h | None \<Rightarrow> default_host_mem (sc_capacity_bytes cfg)"
  obtain h where h: "hm_init ?cfg raw ret errno = Ok h" "mg_pool (sv_manager s) = h"
      "0 < mg_bucket_size (sv_manager s)" "\<exists>t. sv_backend s = Tcp t \<and> tb_regions t = []"
    using assms(1,2)
    by (auto simp: server_init_def mg_init_def build_transfer_backend_def tcp_init_def Let_def split: if_splits)
  from hm_init_wf [OF assms(3) h(1)] h(2,3,4) show ?thesis by (auto simp: sv_inv_def frontier_def)
qed

lemma server_start_inv:
  assumes "sv_inv lo hi s m log" "or_str (sc_model_path (sv_config s)) [] = []"
    "server_start en data_bound bound zmq_bind have_st dirs (s, m) = (r, s', m')"
  shows "sv_inv lo hi s' m' log"
proof -
  obtain t where t: "sv_backend s = Tcp t" using assms(1) by (auto simp: sv_inv_def)
  have wf: "hm_wf (mg_pool (sv_manager s))" using assms(1) by (simp add: sv_inv_def)
  obtain t' where "m' = m" "sv_manager s' = sv_manager s" "sv_backend s' = Tcp t'" "tb_regions t' = tb_regions t"
    using assms(2,3) t
    by (auto simp: server_start_def backend_start_def tcp_start_def start_control_socket_def Let_def
        split: sum.splits prod.splits if_splits)
  then show ?thesis using sv_inv_same [OF assms(1) t, of s' t'] wf by simp
qed

lemma server_stop_inv:
  assumes "sv_inv lo hi s m log" "server_stop munlock_ret s = (r, s')"
  shows "sv_inv lo hi s' m log"
proof -
  obtain t where t: "sv_backend s = Tcp t" using assms(1) by (auto simp: sv_inv_def)
  have wf: "hm_wf (mg_pool (sv_manager s))" using assms(1) by (simp add: sv_inv_def)
  have same: "hm_wf h' \<and> frontier h' = frontier h \<and> pool_end h' = pool_end h"
    if "hm_close munlock_ret h = Ok h'" "hm_wf h" for h h'
  proof -
    have "h' = h \<or> h' = h\<lparr>hm_locked := False\<rparr>"
      using that(1) by (auto simp: hm_close_def unlock_pool_def split: if_splits)
    then show ?thesis
      using that(2)
      by (elim disjE) (simp_all add: hm_wf_def pool_ok_def frontier_def pool_end_def hm_base_ptr_def Let_def)
  qed
  obtain t' where "mg_models (sv_manager s') = mg_models (sv_manager s)"
      "mg_bucket_size (sv_manager s') = mg_bucket_size (sv_manager s)"
      "hm_wf (mg_pool (sv_manager s'))"
      "frontier (mg_pool (sv_manager s')) = frontier (mg_pool (sv_manager s))"
      "pool_end (mg_pool (sv_manager s')) = pool_end (mg_pool (sv_manager s))"
      "sv_backend s' = Tcp t'" "tb_regions t' = tb_regions t"
    using assms(2) t wf same [OF _ wf]
    by (auto simp: server_stop_def backend_close_def tcp_close_def Let_def split: sum.splits)
  then show ?thesis using sv_inv_same [OF assms(1) t, of s' t'] by simp
qed

lemma sv_reach_inv: "sv_reach lo hi s m log \<Longrightarrow> sv_inv lo hi s m log"
proof (induction rule: sv_reach.induct)
  case (built cfg route raw ret errno s m)
  then show ?case by (rule server_init_inv)
next
  case (started lo hi s m log en data_bound bound zmq_bind have_st dirs r s' m')
  then show ?case by (blast intro: server_start_inv)
next
  case (named lo hi s m log nts en mid vsn r s' m')
  then show ?case unfolding log_load_def
    by (intro register_model_inv) (simp_all add: server_load_named_tensors_def)
next
  case (from_dir lo hi s m log dirs path en have_st mid vsn r s' m')
  show ?case
  proof (cases "have_st \<and> filter (\<lambda>f. has_suffix ''.safetensors'' (fst f)) (dirs path) \<noteq> []")
    case True
    then have "sort_key fst (filter (\<lambda>f. has_suffix ''.safetensors'' (fst f)) (dirs path)) \<noteq> []"
      by (metis set_empty set_sort)
    with True have "load_safetensors_dir have_st (dirs path) mid vsn (sv_manager s, m)
        = load_from_named_tensors mid (dir_tensors (dirs path)) vsn (sv_manager s, m)"
      by (simp add: load_safetensors_dir_def dir_tensors_def Let_def)
    then show ?thesis unfolding log_load_def using from_dir
      by (intro register_model_inv) (simp_all add: server_load_model_def)
  next
    case False
    then have "\<exists>e. r = Err e \<and> s' = s \<and> m' = m"
      using from_dir.hyps(3)
      by (auto simp: server_load_model_def load_safetensors_dir_def register_model_def Let_def split: if_splits)
    then show ?thesis using from_dir.IH by (auto simp: log_load_def)
  qed
next
  case (stopped lo hi s m log munlock_ret r s')
  then show ?case by (blast intro: server_stop_inv)
qed


definition demo_server_config :: server_config where
  "demo_server_config = \<lparr>sc_model_id = ''m'', sc_model_path = None, sc_revision = None,
     sc_bind_ip = Some ''10.0.0.1'', sc_metadata_port = 0, sc_capacity_bytes = 64,
     sc_bucket_size_bytes = 4, sc_host_mem = Some demo_cfg, sc_transfer = default_transfer_config\<rparr>"

definition demo_server :: "(wired, unit) server" where
  "demo_server = \<lparr>sv_config = demo_server_config, sv_ip = ''10.0.0.1'',
     sv_manager = \<lparr>mg_pool = \<lparr>hm_config = demo_cfg, hm_pool_owner = \<lparr>v_ptr = 1000, v_numel = 80\<rparr>,
         hm_pool = \<lparr>v_ptr = 1008, v_numel = 64\<rparr>, hm_next_offset = 0, hm_next_bucket_id = 0,
         hm_allocations = [], hm_locked = False\<rparr>, mg_bucket_size = 4, mg_models = []\<rparr>,
     sv_backend = Tcp (tcp_init ''10.0.0.1'' default_transfer_config), sv_context = False,
     sv_control_socket = False, sv_thread = False, sv_stop = False, sv_metadata_port = 0\<rparr>"

definition demo_engine :: "unit engine" where
  "demo_engine = \<lparr>en_initialize = (\<lambda>_ _ _ _. (0, ())), en_rpc_port = (\<lambda>_. 1),
     en_batch_register = (\<lambda>_ _ e. (0, e)), en_sync_read = (\<lambda>_ _ _ _ m e. (0, m, e))\<rparr>"

lemma demo_server_init: "server_init demo_server_config (Ok []) 1000 0 0 = Ok demo_server"
  by (simp add: server_init_def demo_server_config_def demo_server_def hm_init_def demo_cfg_def torch_empty_def
      align_up_def narrow_def mg_init_def build_transfer_backend_def default_transfer_config_def or_str_def Let_def)

lemma demo_server_load: "\<exists>s m. server_load_named_tensors demo_engine ''m'' demo_model None (demo_server, \<lambda>_. 0) = (Ok (), s, m)"
  by (simp add: server_load_named_tensors_def register_model_def demo_server_def
      load_from_named_tensors_def demo_model_def demo_tensor_def
      pack_start_def pack_tensor_def then_do_def open_bucket_def allocate_bucket_def align_up_def
      demo_cfg_def narrow_def store_tensor_def copy_tensor_to_bucket_def view_copy_def view_slice_def
      slice_bound_def t_numel_def put_alloc_def flush_bucket_def get_bucket_def dict_index_def
      register_buckets_def backend_register_def Let_def)

lemma demo_server_reach: "\<exists>s m. sv_reach 1008 1072 (s :: (wired, unit) server) m [(''m'', demo_model)]"
proof -
  have "sv_reach 1008 1072 demo_server (\<lambda>_. 0) []"
    using sv_reach.built [OF demo_server_init, of "\<lambda>_. 0"]
    by (simp add: demo_server_config_def default_transfer_config_def demo_cfg_def demo_server_def
        hm_base_ptr_def pool_end_def)
  moreover have "tensors_pre demo_model"
    by (simp add: tensors_pre_def demo_model_def demo_tensor_def tensor_ok_def t_numel_def)
  moreover obtain s m where "server_load_named_tensors demo_engine ''m'' demo_model None (demo_server, \<lambda>_. 0) = (Ok (), s, m)"
    using demo_server_load by blast
  ultimately have "sv_reach 1008 1072 s m (log_load (Ok ()) ''m'' demo_model [])" by (rule sv_reach.named)
  then show ?thesis by (auto simp: log_load_def)
qed


end
