(* ===== verification/CacheClient.thy ===== *)
theory CacheClient
  imports CacheServer
begin

text \<open>
  The receiving side (\<open>static_weight_cache/client.py\<close>, \<open>checkpoint_engine.py\<close>). The generator
  \<open>receive_weights\<close> is its list of yields with the way it ends; a yielded tensor is a typed window
  of the receive buffer, taken down with the bytes it shows when it is yielded. The tensor
  library's \<open>view\<close> keeps its documented preconditions (divisible offset and size, matching
  element count). The consumer does not write between two yields.
\<close>

section \<open>Element types and windows\<close>

definition dtype_by_name :: "(string, string \<times> int) dict" where
  "dtype_by_name =
    [(''torch.float32'', ''float32'', 4), (''torch.float'', ''float32'', 4),
     (''torch.float16'', ''float16'', 2), (''torch.half'', ''float16'', 2),
     (''torch.bfloat16'', ''bfloat16'', 2), (''torch.int64'', ''int64'', 8), (''torch.long'', ''int64'', 8),
     (''torch.int32'', ''int32'', 4), (''torch.int16'', ''int16'', 2), (''torch.int8'', ''int8'', 1),
     (''torch.uint8'', ''uint8'', 1), (''torch.bool'', ''bool'', 1)]"

text \<open>\<open>_parse_dtype\<close> of a wire value: the element type and its item size.\<close>

definition parse_dtype :: "wire \<Rightarrow> (string \<times> int) result" where
  "parse_dtype w =
     (if \<not> hashable w then Err (TypeError ''unhashable type'')
      else case w of
        WStr s \<Rightarrow> (case dict_get dtype_by_name s of Some d \<Rightarrow> Ok d
                  | None \<Rightarrow> Err (ValueError ''Unsupported tensor dtype from cache metadata''))
      | _ \<Rightarrow> Err (ValueError ''Unsupported tensor dtype from cache metadata''))"

text \<open>\<open>bytes.view(dtype)\<close> of a window at storage offset \<open>off\<close> with \<open>n\<close> bytes: its element count.\<close>

definition view_dtype :: "int \<Rightarrow> int \<Rightarrow> int \<Rightarrow> int result" where
  "view_dtype itemsize off n =
     (if itemsize = 1 then Ok n
      else if n mod itemsize \<noteq> 0 then Err (RuntimeError ''self.size(-1) must be divisible by the item size'')
      else if off mod itemsize \<noteq> 0 then Err (RuntimeError ''self.storage_offset() must be divisible by the item size'')
      else Ok (n div itemsize))"

text \<open>\<open>view(shape)\<close> of \<open>n\<close> elements; one dimension may be \<open>-1\<close> and is inferred.\<close>

definition view_shape :: "int \<Rightarrow> int list \<Rightarrow> int list result" where
  "view_shape n shape =
     (let holes = length (filter (\<lambda>d. d = -1) shape); rest = prod_list (filter (\<lambda>d. d \<noteq> -1) shape)
      in if list_ex (\<lambda>d. d < -1) shape \<or> 1 < holes then Err (RuntimeError ''invalid shape dimension'')
         else if holes = 0 then (if rest = n then Ok shape else Err (RuntimeError ''shape is invalid for input''))
         else if rest = 0 \<or> n mod rest \<noteq> 0 then Err (RuntimeError ''shape is invalid for input'')
         else Ok (List.map (\<lambda>d. if d = -1 then n div rest else d) shape))"

section \<open>State\<close>

record ('c, 'e) client =
  cl_cache_endpoint :: string
  cl_model_id :: string
  cl_bucket_size :: int
  cl_recv_device :: string
  cl_local_ip :: string
  cl_backend :: "('c, 'e) backend"
  cl_recv_buf :: "view option"
  cl_buf_registered :: bool

text \<open>\<open>_resize_recv_buf\<close>: \<open>raw\<close> is where the allocator puts a new buffer.\<close>

definition resize_recv_buf :: "'e engine \<Rightarrow> int \<Rightarrow> int \<Rightarrow> ('c, 'e) client \<Rightarrow> unit result \<times> ('c, 'e) client" where
  "resize_recv_buf en raw capacity c =
     (if (case cl_recv_buf c of Some v \<Rightarrow> capacity \<le> v_numel v | None \<Rightarrow> False) then (Ok (), c)
      else case torch_empty raw capacity of
        Inl e \<Rightarrow> (Err e, c)
      | Inr v \<Rightarrow>
         (let c1 = c\<lparr>cl_recv_buf := Some v\<rparr>
          in case backend_register en [(v_ptr v, v_numel v)] (cl_backend c1) of
               (Inl e, b) \<Rightarrow> (Err e, c1\<lparr>cl_backend := b\<rparr>)
             | (Inr _, b) \<Rightarrow> (Ok (), c1\<lparr>cl_backend := b, cl_buf_registered := True\<rparr>)))"

text \<open>The constructor; an error after \<open>start\<close> leaves the half-built object to the collector.\<close>

definition client_init ::
    "'e engine \<Rightarrow> string result \<Rightarrow> nat result \<Rightarrow> int \<Rightarrow> string \<Rightarrow> string \<Rightarrow> int \<Rightarrow> transfer_config option \<Rightarrow>
     string \<Rightarrow> string option \<Rightarrow> ('c, 'e) client result" where
  "client_init en route bound raw endpoint model_id bucket_size cfg recv_device local_ip =
     (let ip = or_str local_ip (get_local_ip route)
      in bind_res (build_transfer_backend ip (case cfg of Some t \<Rightarrow> t | None \<Rightarrow> default_transfer_config)) (\<lambda>b.
         case backend_start en bound b of
           (Inl e, _) \<Rightarrow> Err e
         | (Inr _, b1) \<Rightarrow>
            (let c = \<lparr>cl_cache_endpoint = endpoint, cl_model_id = model_id, cl_bucket_size = bucket_size,
                      cl_recv_device = recv_device, cl_local_ip = ip, cl_backend = b1, cl_recv_buf = None,
                      cl_buf_registered = False\<rparr>
             in case resize_recv_buf en raw bucket_size c of
                  (Inl e, _) \<Rightarrow> Err e | (Inr _, c1) \<Rightarrow> Ok c1)))"

definition client_close :: "('c, 'e) client \<Rightarrow> ('c, 'e) client" where
  "client_close c = c\<lparr>cl_backend := backend_close (cl_backend c)\<rparr>"

section \<open>Receiving\<close>

record yielded =
  y_name :: string
  y_dtype :: string
  y_shape :: "int list"
  y_ptr :: int
  y_bytes :: "byte list"

text \<open>One entry of a bucket's metadata: the window of the buffer it names.\<close>

definition window :: "view \<Rightarrow> mem \<Rightarrow> string \<times> wire \<Rightarrow> yielded result" where
  "window buf m nm =
     (case nm of (name, meta) \<Rightarrow>
       bind_res (wire_get ''dtype'' meta) (\<lambda>wd. bind_res (parse_dtype wd) (\<lambda>(dtype, itemsize).
       bind_res (wire_get ''shape'' meta) (\<lambda>ws. bind_res (wire_ints ws) (\<lambda>shape.
       bind_res (wire_get ''offset'' meta) (\<lambda>wo. bind_res (wire_int wo) (\<lambda>off.
         let size = itemsize * prod_list shape; part = view_slice buf off (off + size)
         in bind_res (view_dtype itemsize (v_ptr part - v_ptr buf) (v_numel part)) (\<lambda>n.
            bind_res (view_shape n shape) (\<lambda>shape'.
              Ok \<lparr>y_name = name, y_dtype = dtype, y_shape = shape', y_ptr = v_ptr part,
                  y_bytes = mem_read m (v_ptr part) (nat (v_numel part))\<rparr>)))))))))"

text \<open>Yields up to the first error.\<close>

fun windows :: "view \<Rightarrow> mem \<Rightarrow> (string \<times> wire) list \<Rightarrow> yielded list \<times> unit result" where
  "windows buf m [] = ([], Ok ())"
| "windows buf m (e # es) = (case window buf m e of
     Inl err \<Rightarrow> ([], Err err)
   | Inr y \<Rightarrow> (case windows buf m es of (ys, r) \<Rightarrow> (y # ys, r)))"

fun wire_items :: "wire \<Rightarrow> (string \<times> wire) list result" where
  "wire_items (WDict d) = Ok d"
| "wire_items _ = Err (AttributeError ''no attribute items'')"

text \<open>\<open>int(weight_info[key][idx])\<close>.\<close>

definition info_int :: "wire \<Rightarrow> string \<Rightarrow> int \<Rightarrow> int result" where
  "info_int info key idx = bind_res (wire_get key info) (\<lambda>xs. bind_res (wire_nth xs idx) wire_int)"

definition info_used :: "wire \<Rightarrow> int \<Rightarrow> int result" where
  "info_used info idx = bind_res (wire_get ''capacities'' info) (\<lambda>dflt.
     bind_res (wire_get_default ''used_bytes'' dflt info) (\<lambda>xs. bind_res (wire_nth xs idx) wire_int))"

text \<open>The operating system and the engine as a client sees them.\<close>

record ('c, 'e) outside =
  os_engine :: "'e engine"
  os_connect :: "string \<Rightarrow> int \<Rightarrow> 'c result"
  os_send :: "byte list \<Rightarrow> 'c \<Rightarrow> unit result \<times> 'c"
  os_recv :: "nat \<Rightarrow> 'c \<Rightarrow> byte list \<times> 'c"
  os_alloc :: "nat \<Rightarrow> int"

text \<open>One bucket: grow the buffer, read the whole capacity, yield its tensors.\<close>

definition receive_bucket ::
    "('c, 'e) outside \<Rightarrow> string \<Rightarrow> wire \<Rightarrow> nat \<Rightarrow> ('c, 'e) client \<times> mem \<Rightarrow>
     yielded list \<times> unit result \<times> ('c, 'e) client \<times> mem" where
  "receive_bucket os sid info idx cm = (case cm of (c, m) \<Rightarrow>
     (case info_int info ''capacities'' (int idx) of Inl e \<Rightarrow> ([], Err e, c, m) | Inr capacity \<Rightarrow>
     (case info_used info (int idx) of Inl e \<Rightarrow> ([], Err e, c, m) | Inr used \<Rightarrow>
     (case resize_recv_buf (os_engine os) (os_alloc os idx) capacity c of
        (Inl e, c1) \<Rightarrow> ([], Err e, c1, m)
      | (Inr _, c1) \<Rightarrow>
     (case info_int info ''bases'' (int idx) of Inl e \<Rightarrow> ([], Err e, c1, m) | Inr src \<Rightarrow>
     (case cl_recv_buf c1 of None \<Rightarrow> ([], Err (AttributeError ''data_ptr''), c1, m) | Some buf \<Rightarrow>
     (case backend_read (os_engine os) (os_connect os) (os_send os) (os_recv os) sid (v_ptr buf) src capacity m (cl_backend c1) of
        (Inl e, m2, b2) \<Rightarrow> ([], Err e, c1\<lparr>cl_backend := b2\<rparr>, m2)
      | (Inr _, m2, b2) \<Rightarrow>
         (let c2 = c1\<lparr>cl_backend := b2\<rparr>
          in case bind_res (wire_get ''bucket_meta'' info) (\<lambda>bm. bind_res (wire_nth bm (int idx)) wire_items) of
               Inl e \<Rightarrow> ([], Err e, c2, m2)
             | Inr items \<Rightarrow> (case windows buf m2 items of (ys, r) \<Rightarrow> (ys, r, c2, m2))))))))))"

fun receive_buckets ::
    "('c, 'e) outside \<Rightarrow> string \<Rightarrow> wire \<Rightarrow> nat list \<Rightarrow> ('c, 'e) client \<times> mem \<Rightarrow>
     yielded list \<times> unit result \<times> ('c, 'e) client \<times> mem" where
  "receive_buckets os sid info [] cm = ([], Ok (), cm)"
| "receive_buckets os sid info (i # is) cm = (case receive_bucket os sid info i cm of
     (ys, Inl e, cm') \<Rightarrow> (ys, Err e, cm')
   | (ys, Inr _, cm') \<Rightarrow> (case receive_buckets os sid info is cm' of (zs, r, cm'') \<Rightarrow> (ys @ zs, r, cm'')))"

text \<open>\<open>_query_weight_info\<close>: one request and reply on the control socket, which is the argument.\<close>

definition query_weight_info :: "(wire \<Rightarrow> wire result) \<Rightarrow> string \<Rightarrow> wire result" where
  "query_weight_info ask model_id = ask (WDict [(''model_id'', WStr model_id)])"

fun wire_text :: "wire \<Rightarrow> string" where
  "wire_text (WStr s) = s"
| "wire_text _ = []"

text \<open>\<open>peer_sid\<close> of the response goes to \<open>_peer\<close>, which needs a string.\<close>

definition receive_weights ::
    "('c, 'e) outside \<Rightarrow> (wire \<Rightarrow> wire result) \<Rightarrow> string option \<Rightarrow> ('c, 'e) client \<times> mem \<Rightarrow>
     yielded list \<times> unit result \<times> ('c, 'e) client \<times> mem" where
  "receive_weights os ask model_id cm =
     (let target = or_str model_id (cl_model_id (fst cm))
      in case bind_res (query_weight_info ask target) (\<lambda>resp.
           bind_res (wire_get_default ''ok'' (WBool False) resp) (\<lambda>ok.
           if \<not> wire_true ok
           then bind_res (wire_get_default ''error'' WNone resp) (\<lambda>err.
                  Err (RuntimeError (if wire_true err then wire_text err else ''Cache query failed for model '' @ target)))
           else bind_res (wire_get ''peer_sid'' resp) (\<lambda>wsid.
                bind_res (wire_get ''weight_info'' resp) (\<lambda>info.
                bind_res (wire_get ''bucket_num'' info) (\<lambda>bn.
                bind_res (wire_index bn) (\<lambda>n. Ok (wsid, info, n))))))) of
           Inl e \<Rightarrow> ([], Err e, cm)
         | Inr (wsid, info, n) \<Rightarrow>
            (case wsid of
               WStr sid \<Rightarrow> receive_buckets os sid info [0..<nat n] cm
             | _ \<Rightarrow> if n \<le> 0 then ([], Ok (), cm) else ([], Err (AttributeError ''no attribute rpartition''), cm)))"

section \<open>The checkpoint engine\<close>

definition engine_init ::
    "'e engine \<Rightarrow> string result \<Rightarrow> nat result \<Rightarrow> int \<Rightarrow> int \<Rightarrow> string \<Rightarrow> string \<Rightarrow> string \<Rightarrow> string \<Rightarrow> string \<Rightarrow>
     string \<Rightarrow> string option \<Rightarrow> ('c, 'e) client result" where
  "engine_init en route bound raw bucket_size endpoint model_id transfer_backend transfer_protocol device_name
     recv_device local_ip =
     client_init en route bound raw endpoint model_id bucket_size
       (Some (default_transfer_config\<lparr>tc_backend := transfer_backend, tc_protocol := transfer_protocol,
          tc_device_name := device_name\<rparr>)) recv_device local_ip"

definition engine_receive_weights ::
    "('c, 'e) outside \<Rightarrow> (wire \<Rightarrow> wire result) \<Rightarrow> (string, string) dict \<Rightarrow> ('c, 'e) client \<times> mem \<Rightarrow>
     yielded list \<times> unit result \<times> ('c, 'e) client \<times> mem" where
  "engine_receive_weights os ask kwargs cm = receive_weights os ask (dict_get kwargs ''model_id'') cm"

definition engine_send_weights :: "unit result" where
  "engine_send_weights = Err (NotImplementedError ''static_weight_cache is a receive-only backend'')"

section \<open>A window shows its tensor\<close>

definition displays :: "string \<times> tensor \<Rightarrow> yielded \<Rightarrow> bool" where
  "displays nt y \<longleftrightarrow> y_name y = fst nt \<and> y_shape y = t_shape (snd nt) \<and> y_bytes y = t_data (snd nt) \<and>
     dict_get dtype_by_name (t_dtype (snd nt)) = Some (y_dtype y, t_elem_size (snd nt))"

definition receivable :: "(string \<times> tensor) list \<Rightarrow> bool" where
  "receivable nts \<longleftrightarrow> (\<forall>nt \<in> set nts. tensor_ok (snd nt) \<and> (\<forall>d \<in> set (t_shape (snd nt)). 0 \<le> d) \<and>
      (\<exists>name. dict_get dtype_by_name (t_dtype (snd nt)) = Some (name, t_elem_size (snd nt))))"

text \<open>Every element size of the model divides every tensor's length: mixed element types are
  packed back to back, so this is what keeps each offset a multiple of its own item size.\<close>

definition offsets_divisible :: "(string \<times> tensor) list \<Rightarrow> bool" where
  "offsets_divisible nts \<longleftrightarrow> (\<forall>nt \<in> set nts. \<forall>other \<in> set nts.
      t_elem_size (snd nt) dvd int (length (t_data (snd other))))"

lemma view_shape_exact: "\<forall>d \<in> set shape. 0 \<le> d \<Longrightarrow> view_shape (prod_list shape) shape = Ok shape"
proof -
  assume nn: "\<forall>d \<in> set shape. 0 \<le> d"
  then have "filter (\<lambda>d. d = -1) shape = []" "filter (\<lambda>d. d \<noteq> -1) shape = shape"
    by (auto simp: filter_empty_conv filter_id_conv)
  moreover have "\<not> list_ex (\<lambda>d. d < -1) shape" using nn by (auto simp: list_ex_iff)
  ultimately show ?thesis by (simp add: view_shape_def)
qed

text \<open>
  The window of a well-formed tensor, in general: it is yielded exactly when its offset is a
  multiple of its item size.
\<close>

lemma window_cases:
  assumes t: "tensor_ok t" "\<forall>d \<in> set (t_shape t). 0 \<le> d"
      "dict_get dtype_by_name (t_dtype t) = Some (dt, t_elem_size t)"
    and off: "0 \<le> off" "off + int (length (t_data t)) \<le> v_numel buf"
    and tm: "tm_shape tm = t_shape t" "tm_dtype tm = t_dtype t" "tm_offset tm = off"
  shows "window buf m (name, tensor_entry tm) =
    (if t_elem_size t = 1 \<or> off mod t_elem_size t = 0
     then Ok \<lparr>y_name = name, y_dtype = dt, y_shape = t_shape t, y_ptr = v_ptr buf + off,
              y_bytes = mem_read m (v_ptr buf + off) (length (t_data t))\<rparr>
     else Err (RuntimeError ''self.storage_offset() must be divisible by the item size''))"
proof -
  let ?n = "int (length (t_data t))" and ?k = "t_elem_size t"
  have n: "?k * prod_list (t_shape t) = ?n" "0 < ?k"
    using t(1) by (simp_all add: tensor_ok_def t_numel_def mult.commute)
  then have q: "?n mod ?k = 0" "?n div ?k = prod_list (t_shape t)"
    by (metis mod_mult_self1_is_0, metis less_irrefl nonzero_mult_div_cancel_left)
  have sl: "view_slice buf off (off + ?n) = \<lparr>v_ptr = v_ptr buf + off, v_numel = ?n\<rparr>"
    using off view_slice_in [of off "off + ?n" buf] by simp
  have pd: "parse_dtype (WStr (t_dtype t)) = Ok (dt, ?k)" using t(3) by (simp add: parse_dtype_def)
  have "prod_list (t_shape t) = ?n" if "?k = 1" using n that by simp
  then show ?thesis
    using n q pd sl view_shape_exact [OF t(2)]
    by (auto simp: window_def tensor_entry_get tm view_dtype_def Let_def simp del: bind_res_Ok wire_ints.simps)
qed

lemma windows_show:
  assumes "receivable nts" "\<forall>nt \<in> set nts. t_elem_size (snd nt) dvd off"
    "offsets_divisible nts" "0 \<le> off" "off + int (length (bytes_of nts)) \<le> v_numel buf"
    "mem_read m (v_ptr buf + off) (length (bytes_of nts)) = bytes_of nts"
  shows "\<exists>ys. windows buf m (List.map (\<lambda>(name, t). (name, tensor_entry t)) (metas off nts)) = (ys, Ok ()) \<and>
    list_all2 displays nts ys"
  using assms
proof (induction nts arbitrary: off)
  case (Cons nt nts)
  obtain name t where nt: "nt = (name, t)" by (cases nt)
  let ?n = "length (t_data t)"
  obtain dt where t: "tensor_ok t" "\<forall>d \<in> set (t_shape t). 0 \<le> d"
      "dict_get dtype_by_name (t_dtype t) = Some (dt, t_elem_size t)"
    using Cons.prems(1) nt by (auto simp: receivable_def)
  have bytes: "mem_read m (v_ptr buf + off) ?n = t_data t"
      "mem_read m (v_ptr buf + (off + int ?n)) (length (bytes_of nts)) = bytes_of nts"
    using Cons.prems(6) by (simp_all add: nt mem_read_append add.assoc)
  have dv: "\<forall>nt' \<in> set nts. t_elem_size (snd nt') dvd off + int ?n"
    using Cons.prems(2,3) nt by (auto simp: offsets_divisible_def)
  have "\<exists>ys. windows buf m (List.map (\<lambda>(name, t). (name, tensor_entry t)) (metas (off + int ?n) nts)) = (ys, Ok ()) \<and>
      list_all2 displays nts ys"
    using Cons.prems(1,3,4,5) dv bytes(2)
    by (intro Cons.IH) (auto simp: nt receivable_def offsets_divisible_def)
  moreover have "window buf m (name, tensor_entry \<lparr>tm_name = name, tm_shape = t_shape t, tm_dtype = t_dtype t,
        tm_offset = off, tm_nbytes = int ?n\<rparr>) =
      Ok \<lparr>y_name = name, y_dtype = dt, y_shape = t_shape t, y_ptr = v_ptr buf + off, y_bytes = t_data t\<rparr>"
    using window_cases [OF t Cons.prems(4)] Cons.prems(2,5) bytes(1) nt by (auto simp: dvd_eq_mod_eq_0)
  moreover have "displays (name, t) \<lparr>y_name = name, y_dtype = dt, y_shape = t_shape t,
      y_ptr = v_ptr buf + off, y_bytes = t_data t\<rparr>" using t(3) by (simp add: displays_def)
  ultimately show ?case by (auto simp: nt)
qed simp

section \<open>From the server's pool to the consumer\<close>

text \<open>The peer's connection, already open or about to be opened, leads to a serving process.\<close>

definition peer_ready :: "(string \<Rightarrow> int \<Rightarrow> wired result) \<Rightarrow> serve_env \<Rightarrow> string \<Rightarrow> wired tcp_backend \<Rightarrow> bool" where
  "peer_ready connect e sid b \<longleftrightarrow> (\<exists>w. fst (tcp_peer connect sid b) = Ok w \<and> wired_idle w \<and> wi_env w = e)"

lemma peer_ready_register: "peer_ready connect e sid b \<Longrightarrow> peer_ready connect e sid (tcp_register rs b)"
  by (auto simp: peer_ready_def tcp_peer_def tcp_register_def split: option.splits sum.splits prod.splits)

lemma tcp_read_ready:
  assumes "peer_ready connect e sid b" "is_served (se_regions e) src n"
    "0 \<le> src" "0 \<le> n" "src < 2 ^ 64" "n < 2 ^ 64"
  shows "\<exists>b'. tcp_read connect wired_send wired_recv sid dst src n m b =
      (Ok (), mem_write m dst (mem_read (se_mem e) src (nat n)), b') \<and> peer_ready connect e sid b'"
proof -
  obtain w where w: "fst (tcp_peer connect sid b) = Ok w" "wired_idle w" "wi_env w = e"
    using assms(1) by (auto simp: peer_ready_def)
  obtain b1 where b1: "tcp_peer connect sid b = (Ok w, b1)" using w(1) by (cases "tcp_peer connect sid b") auto
  obtain w' where "read_on wired_send wired_recv dst src n m w =
      (Ok (), mem_write m dst (mem_read (se_mem e) src (nat n)), w')" "wired_idle w'" "wi_env w' = e"
    using read_on_wired [OF w(2) assms(3,4,5,6), of dst m] w(3) assms(2) by auto
  with b1 show ?thesis by (auto simp: tcp_read_def peer_ready_def tcp_peer_def)
qed

text \<open>A client that can read from that process.\<close>

definition client_ready :: "(wired, 'e) outside \<Rightarrow> serve_env \<Rightarrow> string \<Rightarrow> (wired, 'e) client \<Rightarrow> bool" where
  "client_ready os e sid c \<longleftrightarrow> (\<exists>b. cl_backend c = Tcp b \<and> peer_ready (os_connect os) e sid b)"

lemma resize_recv_buf_ready:
  assumes "client_ready os e sid c" "0 \<le> capacity"
  shows "\<exists>c' buf. resize_recv_buf (os_engine os) raw capacity c = (Ok (), c') \<and> client_ready os e sid c' \<and>
    cl_recv_buf c' = Some buf \<and> capacity \<le> v_numel buf"
  using assms peer_ready_register
  by (cases "cl_recv_buf c")
    (fastforce simp: resize_recv_buf_def torch_empty_def client_ready_def backend_register_def Let_def)+

lemma receive_bucket_displays:
  assumes c: "client_ready os e sid c" and os: "os_send os = wired_send" "os_recv os = wired_recv"
    and idx: "idx < length (mm_buckets md)"
    and bm: "bm = mm_buckets md ! idx" "bucket_holds (se_mem e) bm nts"
      "is_served (se_regions e) (bm_base_ptr bm) (bm_capacity bm)"
      "0 \<le> bm_base_ptr bm" "bm_base_ptr bm < 2 ^ 64" "bm_capacity bm < 2 ^ 64"
    and nts: "receivable nts" "offsets_divisible nts"
  shows "\<exists>ys c' m'. receive_bucket os sid (to_weight_info md) idx (c, m) = (ys, Ok (), c', m') \<and>
    list_all2 displays nts ys \<and> client_ready os e sid c'"
proof -
  have info: "info_int (to_weight_info md) ''capacities'' (int idx) = Ok (bm_capacity bm)"
      "info_used (to_weight_info md) (int idx) = Ok (bm_used_bytes bm)"
      "info_int (to_weight_info md) ''bases'' (int idx) = Ok (bm_base_ptr bm)"
      "bind_res (wire_get ''bucket_meta'' (to_weight_info md)) (\<lambda>b. bind_res (wire_nth b (int idx)) wire_items)
         = Ok (List.map (\<lambda>(name, t). (name, tensor_entry t)) (bm_tensors bm))"
    using idx bm(1) by (simp_all add: info_int_def info_used_def to_weight_info_get py_nth_in
        to_flexfetch_bucket_meta_def)
  have holds: "bm_tensors bm = metas 0 nts" "int (length (bytes_of nts)) \<le> bm_capacity bm"
      "mem_read (se_mem e) (bm_base_ptr bm) (length (bytes_of nts)) = bytes_of nts"
    using bm(2) by (simp_all add: bucket_holds_def)
  then have cap: "0 \<le> bm_capacity bm" by linarith
  obtain c1 buf where c1: "resize_recv_buf (os_engine os) (os_alloc os idx) (bm_capacity bm) c = (Ok (), c1)"
      "client_ready os e sid c1" "cl_recv_buf c1 = Some buf" "bm_capacity bm \<le> v_numel buf"
    using resize_recv_buf_ready [OF c cap] by blast
  obtain b where b: "cl_backend c1 = Tcp b" "peer_ready (os_connect os) e sid b"
    using c1(2) by (auto simp: client_ready_def)
  let ?data = "mem_read (se_mem e) (bm_base_ptr bm) (nat (bm_capacity bm))"
  obtain b' where b': "tcp_read (os_connect os) wired_send wired_recv sid (v_ptr buf) (bm_base_ptr bm)
        (bm_capacity bm) m b = (Ok (), mem_write m (v_ptr buf) ?data, b')" "peer_ready (os_connect os) e sid b'"
    using tcp_read_ready [OF b(2) bm(3,4) cap bm(5,6)] by blast
  let ?m = "mem_write m (v_ptr buf) ?data"
  have "mem_read ?m (v_ptr buf) (nat (bm_capacity bm)) = ?data"
    using mem_read_write_same [of m "v_ptr buf" ?data] by simp
  then have "mem_read ?m (v_ptr buf) (length (bytes_of nts)) = bytes_of nts"
    using holds(2,3) mem_read_prefix [of "length (bytes_of nts)" "nat (bm_capacity bm)"] by (simp add: le_nat_iff)
  then obtain ys where "windows buf ?m (List.map (\<lambda>(name, t). (name, tensor_entry t)) (metas 0 nts)) = (ys, Ok ())"
      "list_all2 displays nts ys"
    using windows_show [OF nts(1) _ nts(2), of 0 buf ?m] holds(2) c1(4) by auto
  then show ?thesis
    using info c1 b b' os holds(1)
    by (auto simp: receive_bucket_def backend_read_def client_ready_def simp del: bind_res_Ok)
qed

lemma receive_buckets_display:
  assumes os: "os_send os = wired_send" "os_recv os = wired_recv"
    and held: "list_all2 (bucket_holds (se_mem e)) (drop i (mm_buckets md)) tss"
    and bms: "\<forall>bm \<in> set (mm_buckets md). is_served (se_regions e) (bm_base_ptr bm) (bm_capacity bm) \<and>
        0 \<le> bm_base_ptr bm \<and> bm_base_ptr bm < 2 ^ 64 \<and> bm_capacity bm < 2 ^ 64"
    and nts: "receivable (concat tss)" "offsets_divisible (concat tss)"
    and c: "client_ready os e sid c"
  shows "\<exists>ys c' m'. receive_buckets os sid (to_weight_info md) [i..<length (mm_buckets md)] (c, m) = (ys, Ok (), c', m') \<and>
    list_all2 displays (concat tss) ys \<and> client_ready os e sid c'"
  using held nts c
proof (induction tss arbitrary: i c m rule: list.induct)
  case Nil
  have "drop i (mm_buckets md) = []" using Nil.prems(1) by (simp only: list_all2_Nil2)
  then have "[i..<length (mm_buckets md)] = []" by (simp only: drop_eq_Nil upt_eq_Nil_conv) simp
  then show ?case using Nil.prems(4) by auto
next
  case (Cons ts tss)
  let ?n = "length (mm_buckets md)"
  have "drop i (mm_buckets md) \<noteq> []" using Cons.prems(1) by (metis list_all2_Nil list.discI)
  then have i: "i < ?n" by simp
  then have dr: "drop i (mm_buckets md) = mm_buckets md ! i # drop (Suc i) (mm_buckets md)"
    by (simp add: Cons_nth_drop_Suc)
  have h: "bucket_holds (se_mem e) (mm_buckets md ! i) ts"
      "list_all2 (bucket_holds (se_mem e)) (drop (Suc i) (mm_buckets md)) tss"
    using Cons.prems(1) unfolding dr by simp_all
  have r: "receivable ts" "offsets_divisible ts" "receivable (concat tss)" "offsets_divisible (concat tss)"
    using Cons.prems(2,3) unfolding receivable_def offsets_divisible_def concat.simps set_append by blast+
  have b: "is_served (se_regions e) (bm_base_ptr (mm_buckets md ! i)) (bm_capacity (mm_buckets md ! i))"
      "0 \<le> bm_base_ptr (mm_buckets md ! i)" "bm_base_ptr (mm_buckets md ! i) < 2 ^ 64"
      "bm_capacity (mm_buckets md ! i) < 2 ^ 64" using bms i by (meson nth_mem)+
  obtain ys c' m' where s1: "receive_bucket os sid (to_weight_info md) i (c, m) = (ys, Ok (), c', m')"
      "list_all2 displays ts ys" "client_ready os e sid c'"
    using receive_bucket_displays [OF Cons.prems(4) os i refl h(1) b r(1,2)] by blast
  obtain zs c'' m'' where s2: "receive_buckets os sid (to_weight_info md) [Suc i..<?n] (c', m') = (zs, Ok (), c'', m'')"
      "list_all2 displays (concat tss) zs" "client_ready os e sid c''"
    using Cons.IH [OF h(2) r(3,4) s1(3)] by blast
  have "[i..<?n] = i # [Suc i..<?n]" using i by (rule upt_conv_Cons)
  then show ?case using s1 s2 by (auto intro: list_all2_appendI)
qed


definition demo_outside :: "wired \<Rightarrow> (wired, unit) outside" where
  "demo_outside w = \<lparr>os_engine = demo_engine, os_connect = (\<lambda>_ _. Ok w), os_send = wired_send,
     os_recv = wired_recv, os_alloc = (\<lambda>_. 5000)\<rparr>"

definition demo_client :: "(wired, unit) client" where
  "demo_client = \<lparr>cl_cache_endpoint = ''tcp://10.0.0.1:9000'', cl_model_id = ''m'', cl_bucket_size = 4,
     cl_recv_device = ''cpu'', cl_local_ip = ''10.0.0.2'',
     cl_backend = Tcp (tcp_init ''10.0.0.2'' default_transfer_config), cl_recv_buf = None, cl_buf_registered = False\<rparr>"


section \<open>When a bucket cannot be received\<close>

text \<open>Each tensor of a bucket starts at a multiple of its own item size.\<close>

fun aligned_from :: "int \<Rightarrow> (string \<times> tensor) list \<Rightarrow> bool" where
  "aligned_from off [] = True"
| "aligned_from off (nt # nts) \<longleftrightarrow>
     t_elem_size (snd nt) dvd off \<and> aligned_from (off + int (length (t_data (snd nt)))) nts"

lemma windows_ok_iff:
  assumes "receivable nts" "0 \<le> off" "off + int (length (bytes_of nts)) \<le> v_numel buf"
  shows "snd (windows buf m (List.map (\<lambda>(name, t). (name, tensor_entry t)) (metas off nts))) =
    (if aligned_from off nts then Ok ()
     else Err (RuntimeError ''self.storage_offset() must be divisible by the item size''))"
  using assms
proof (induction nts arbitrary: off)
  case (Cons nt nts)
  obtain name t where nt: "nt = (name, t)" by (cases nt)
  let ?n = "length (t_data t)"
  obtain dt where t: "tensor_ok t" "\<forall>d \<in> set (t_shape t). 0 \<le> d"
      "dict_get dtype_by_name (t_dtype t) = Some (dt, t_elem_size t)"
    using Cons.prems(1) nt by (auto simp: receivable_def)
  have room: "off + int ?n \<le> v_numel buf" using Cons.prems(3) by (simp add: nt)
  have IH: "snd (windows buf m (List.map (\<lambda>(name, t). (name, tensor_entry t)) (metas (off + int ?n) nts))) =
      (if aligned_from (off + int ?n) nts then Ok ()
       else Err (RuntimeError ''self.storage_offset() must be divisible by the item size''))"
    using Cons.prems by (intro Cons.IH) (auto simp: nt receivable_def)
  let ?tm = "\<lparr>tm_name = name, tm_shape = t_shape t, tm_dtype = t_dtype t, tm_offset = off, tm_nbytes = int ?n\<rparr>"
  have w: "window buf m (name, tensor_entry ?tm) =
    (if t_elem_size t dvd off
     then Ok \<lparr>y_name = name, y_dtype = dt, y_shape = t_shape t, y_ptr = v_ptr buf + off,
              y_bytes = mem_read m (v_ptr buf + off) ?n\<rparr>
     else Err (RuntimeError ''self.storage_offset() must be divisible by the item size''))"
    using window_cases [OF t Cons.prems(2) room, of ?tm m name] by (auto simp: dvd_eq_mod_eq_0)
  show ?case
    using IH w by (auto simp: nt split: prod.splits)
qed simp



text \<open>
  Growing the buffer adds a region and removes none: the replaced buffer, which the allocator may
  reuse, stays readable by any peer.
\<close>

lemma resize_keeps_old_region:
  assumes "cl_backend c = Tcp b" "cl_recv_buf c = Some old" "v_numel old < capacity" "0 \<le> v_numel old"
    "(v_ptr old, v_numel old) \<in> set (tb_regions b)"
  shows "\<exists>c' b'. resize_recv_buf en raw capacity c = (Ok (), c') \<and> cl_backend c' = Tcp b' \<and>
    is_served (tb_regions b') (v_ptr old) (v_numel old) \<and> cl_recv_buf c' \<noteq> Some old"
  using assms
  by (auto simp: resize_recv_buf_def torch_empty_def backend_register_def tcp_register_def is_served_def
      list_ex_iff Let_def intro!: bexI [of _ "(v_ptr old, v_numel old)"])

end
