(* ===== verification/TQSampler.thy ===== *)
theory TQSampler
  imports Prelude "HOL-Library.Multiset"
begin

text \<open>
  The samplers of the transfer queue (\<open>transfer_queue/tq_sampler.py\<close>). The draws of Python's
  generator are an argument: \<open>rs k\<close> is the number drawn when \<open>k\<close> picks are still to be made. A
  version is \<open>None\<close> for an index that has none; Python cannot compare that, so sorting or taking
  the maximum of two or more of them raises.

  The contract of \<open>BaseSampler.sample\<close>, that it picks among the indexes it was given, is the locale
  \<open>sampler\<close>; \<open>picking_sampler\<close> adds that it picks none twice and not more than asked.
\<close>

section \<open>The contract\<close>

locale sampler =
  fixes sample :: "int list \<Rightarrow> int \<Rightarrow> int option list \<Rightarrow> int list option result"
  assumes sample_subset: "sample xs c vs = Ok (Some ys) \<Longrightarrow> set ys \<subseteq> set xs"
begin

text \<open>Marking what was sampled as consumed never repeats something consumed before.\<close>

lemma fresh_after:
  assumes "sample xs c vs = Ok (Some ys)" "set xs \<inter> consumed = {}"
  shows "set ys \<inter> consumed = {}" and "set xs - (consumed \<union> set ys) \<subseteq> set xs - set ys"
  using sample_subset [OF assms(1)] assms(2) by auto

end

locale picking_sampler = sampler +
  assumes sample_distinct: "distinct xs \<Longrightarrow> sample xs c vs = Ok (Some ys) \<Longrightarrow> distinct ys"
    and sample_length: "sample xs c vs = Ok (Some ys) \<Longrightarrow> 0 \<le> c \<Longrightarrow> int (length ys) \<le> c"
begin

lemma sample_card: "distinct xs \<Longrightarrow> 0 \<le> c \<Longrightarrow> sample xs c vs = Ok (Some ys) \<Longrightarrow> int (card (set ys)) \<le> c"
  using sample_distinct sample_length by (simp add: distinct_card)

end

section \<open>Random draws\<close>

fun draw_choices :: "(nat \<Rightarrow> nat) \<Rightarrow> 'a list \<Rightarrow> nat \<Rightarrow> 'a list" where
  "draw_choices rs xs 0 = []"
| "draw_choices rs xs (Suc k) = xs ! (rs k mod length xs) # draw_choices rs xs k"

fun draw_sample :: "(nat \<Rightarrow> nat) \<Rightarrow> 'a list \<Rightarrow> nat \<Rightarrow> 'a list" where
  "draw_sample rs xs 0 = []"
| "draw_sample rs xs (Suc k) =
     (let i = rs k mod length xs in xs ! i # draw_sample rs (take i xs @ drop (Suc i) xs) k)"

definition random_sample :: "(nat \<Rightarrow> nat) \<Rightarrow> bool \<Rightarrow> int list \<Rightarrow> int \<Rightarrow> int list option result" where
  "random_sample rs replace indexes cnt =
     (if indexes = [] \<or> cnt = 0 then Err (ValueError ''Sampler: Must provide indexes and count'')
      else if replace then Ok (Some (draw_choices rs indexes (nat cnt)))
      else let actual = min cnt (int (length indexes))
        in if actual < 0 then Err (ValueError ''Sample larger than population or is negative'')
           else Ok (Some (draw_sample rs (sort indexes) (nat actual))))"

lemma draw_choices_subset: "xs \<noteq> [] \<Longrightarrow> set (draw_choices rs xs k) \<subseteq> set xs"
  by (induction k) auto

lemma draw_sample_mset: "k \<le> length xs \<Longrightarrow>
    set (draw_sample rs xs k) \<subseteq> set xs \<and> length (draw_sample rs xs k) = k \<and> (distinct xs \<longrightarrow> distinct (draw_sample rs xs k))"
proof (induction k arbitrary: xs)
  case (Suc k)
  let ?i = "rs k mod length xs" let ?ys = "take ?i xs @ drop (Suc ?i) xs"
  have i: "?i < length xs" using Suc.prems by (intro mod_less_divisor) linarith
  then have xs: "xs = take ?i xs @ xs ! ?i # drop (Suc ?i) xs" by (rule id_take_nth_drop)
  have "k \<le> length ?ys" using i Suc.prems by simp
  note IH = Suc.IH [OF this]
  have sub: "set ?ys \<subseteq> set xs" by (auto dest: in_set_takeD in_set_dropD)
  have "distinct ?ys \<and> xs ! ?i \<notin> set ?ys" if "distinct xs"
    using that by (subst (asm) xs) auto
  then show ?case using IH sub i by (auto simp: Let_def)
qed simp

section \<open>Versions\<close>

text \<open>The largest (smallest) of some versions, as Python's \<open>max\<close> (\<open>min\<close>).\<close>

definition pick_version :: "bool \<Rightarrow> int option list \<Rightarrow> int option result" where
  "pick_version largest vs = (case vs of
      [] \<Rightarrow> Err (ValueError ''max() arg is an empty sequence'')
    | [v] \<Rightarrow> Ok v
    | _ \<Rightarrow> if None \<in> set vs then Err (TypeError ''not supported between instances of NoneType and int'')
          else Ok (Some (let ns = List.map the vs in if largest then Max (set ns) else Min (set ns))))"

text \<open>Stable sorting by version; \<open>reverse\<close> keeps equal elements in their order.\<close>

definition sort_versions :: "bool \<Rightarrow> ('a \<times> int option) list \<Rightarrow> ('a \<times> int option) list result" where
  "sort_versions descending ps =
     (if 2 \<le> length ps \<and> None \<in> set (List.map snd ps)
      then Err (TypeError ''not supported between instances of NoneType and int'')
      else Ok (sort_key (\<lambda>p. (if descending then - 1 else 1) * (case snd p of Some v \<Rightarrow> v | None \<Rightarrow> 0)) ps))"

record version_sampler =
  vs_n_samples :: int
  vs_by_group :: bool
  vs_descending :: bool
  vs_group_max :: bool

definition version_sampler_init :: "int \<Rightarrow> bool \<Rightarrow> string \<Rightarrow> string option \<Rightarrow> version_sampler result" where
  "version_sampler_init n by_group mode group_ver =
     (if mode \<noteq> ''newest'' \<and> mode \<noteq> ''oldest'' then Err (ValueError ''selection_mode must be newest or oldest'')
      else case group_ver of
        None \<Rightarrow> Ok \<lparr>vs_n_samples = max 1 n, vs_by_group = by_group, vs_descending = (mode = ''newest''), vs_group_max = (mode = ''newest'')\<rparr>
      | Some g \<Rightarrow>
          if g \<noteq> ''max'' \<and> g \<noteq> ''min'' then Err (ValueError ''group_ver must be max, min, or None'')
          else Ok \<lparr>vs_n_samples = max 1 n, vs_by_group = by_group, vs_descending = (mode = ''newest''), vs_group_max = (g = ''max'')\<rparr>)"

text \<open>Consecutive slices of \<open>n\<close> elements.\<close>

fun slices :: "nat \<Rightarrow> nat \<Rightarrow> 'a list \<Rightarrow> 'a list list" where
  "slices 0 n xs = []"
| "slices (Suc k) n xs = take n xs # slices k n (drop n xs)"

definition version_sample :: "version_sampler \<Rightarrow> int list \<Rightarrow> int \<Rightarrow> int option list \<Rightarrow> int list option result" where
  "version_sample s indexes cnt versions =
     (if indexes = [] \<or> cnt = 0 then Err (ValueError ''Sampler: Must provide indexes and count'')
      else if \<not> vs_by_group s then
        bind_res (sort_versions (vs_descending s) (zip indexes versions)) (\<lambda>ps.
          Ok (Some (py_slice_list (List.map fst ps) 0 cnt)))
      else let n = vs_n_samples s in
        if int (length indexes) mod n \<noteq> 0 then Err (ValueError ''Total indexes must be a multiple of n_samples'')
        else if cnt mod n \<noteq> 0 then Err (ValueError ''count must be a multiple of n_samples'')
        else let k = nat (int (length indexes) div n);
                 data = slices k (nat n) indexes; vers = slices k (nat n) versions
          in bind_res (map_res (pick_version (vs_group_max s)) vers) (\<lambda>features.
             bind_res (sort_versions (vs_descending s) (zip data features)) (\<lambda>groups.
               Ok (Some (concat (py_slice_list (List.map fst groups) 0 (min (cnt div n) (int (length groups)))))))))"

datatype mode = Newest | Oldest

record same_version_sampler =
  ss_target :: "int option"
  ss_mode :: mode

definition same_version_init :: "int option \<Rightarrow> string \<Rightarrow> same_version_sampler result" where
  "same_version_init target mode =
     (if target = None \<and> mode \<noteq> ''newest'' \<and> mode \<noteq> ''oldest'' then Err (ValueError ''selection_mode'')
      else Ok \<lparr>ss_target = target, ss_mode = (if mode = ''newest'' then Newest else Oldest)\<rparr>)"

definition same_version_sample :: "same_version_sampler \<Rightarrow> int list \<Rightarrow> int \<Rightarrow> int option list \<Rightarrow> int list option result" where
  "same_version_sample s indexes cnt versions =
     (if indexes = [] \<or> cnt = 0 then Err (ValueError ''SameVersionSampler: indexes and count'')
      else if length indexes \<noteq> length versions then Err (ValueError ''SameVersionSampler: indexes != versions'')
      else bind_res (case ss_target s of Some v \<Rightarrow> Ok (Some v) | None \<Rightarrow> pick_version (ss_mode s = Newest) versions) (\<lambda>sel.
        let found = List.map fst (filter (\<lambda>p. snd p = sel) (zip indexes versions))
        in if found = [] then Ok None
           else if int (length found) < cnt then Ok None
           else Ok (Some (py_slice_list found 0 cnt))))"

section \<open>Any sampler\<close>

datatype any_sampler =
    Random_sampler bool
  | Version_sampler version_sampler
  | Same_version_sampler same_version_sampler

text \<open>Does \<open>sample\<close> take the versions? The manager asks the signature.\<close>

fun takes_versions :: "any_sampler \<Rightarrow> bool" where
  "takes_versions (Random_sampler _) = False"
| "takes_versions _ = True"

fun run_sampler :: "(nat \<Rightarrow> nat) \<Rightarrow> any_sampler \<Rightarrow> int list \<Rightarrow> int \<Rightarrow> int option list \<Rightarrow> int list option result" where
  "run_sampler rs (Random_sampler replace) xs c vs = random_sample rs replace xs c"
| "run_sampler rs (Version_sampler s) xs c vs = version_sample s xs c vs"
| "run_sampler rs (Same_version_sampler s) xs c vs = same_version_sample s xs c vs"

section \<open>The contract holds\<close>

lemma py_slice_list_subset: "set (py_slice_list xs lo hi) \<subseteq> set xs"
  by (auto simp: py_slice_list_def Let_def dest!: in_set_takeD in_set_dropD)

lemma py_slice_list_distinct: "distinct xs \<Longrightarrow> distinct (py_slice_list xs lo hi)"
  by (simp add: py_slice_list_def Let_def)

lemma py_slice_prefix: "0 \<le> c \<Longrightarrow> py_slice_list xs 0 c = take (nat c) xs"
  by (simp add: py_slice_list_in)

lemma py_slice_from_0: "\<exists>k. py_slice_list xs 0 c = take k xs"
  by (auto simp: py_slice_list_def slice_bound_def Let_def)

lemma sort_versions_mset: "sort_versions desc ps = Ok qs \<Longrightarrow> mset qs = mset ps"
  by (auto simp: sort_versions_def split: if_splits)

lemma fst_zip_sorted:
  assumes "sort_versions desc (zip xs vs) = Ok qs"
  shows "set (List.map fst qs) \<subseteq> set xs" "distinct xs \<Longrightarrow> distinct (List.map fst qs)"
proof -
  have m: "mset (List.map fst qs) = mset (List.map fst (zip xs vs))"
    using sort_versions_mset [OF assms] by simp
  then have "set (List.map fst qs) = set (List.map fst (zip xs vs))" by (rule mset_eq_setD)
  then show "set (List.map fst qs) \<subseteq> set xs" by (auto dest: set_zip_leftD)
  assume "distinct xs"
  then have "distinct (List.map fst (zip xs vs))" by (simp add: map_fst_zip_take)
  then show "distinct (List.map fst qs)" using mset_eq_imp_distinct_iff [OF m] by simp
qed

lemma concat_slices: "concat (slices k n xs) = take (k * n) xs"
  by (induction k n xs rule: slices.induct) (simp_all add: take_add)

lemma slices_length: "x \<in> set (slices k n xs) \<Longrightarrow> length x \<le> n"
  by (induction k n xs rule: slices.induct) auto

lemma concat_le: "(\<And>x. x \<in> set xss \<Longrightarrow> length x \<le> n) \<Longrightarrow> length (concat xss) \<le> length xss * n"
  by (induction xss) fastforce+

text \<open>Whole groups, sorted and cut off.\<close>

lemma sorted_groups:
  fixes xs :: "'a list"
  assumes "sort_versions desc (zip (slices k n xs) fs) = Ok qs" "length fs = k"
    and ys_def: "ys = concat (py_slice_list (List.map fst qs) 0 c)"
  shows "set ys \<subseteq> set xs" "distinct xs \<Longrightarrow> distinct ys" "0 \<le> c \<Longrightarrow> int (length ys) \<le> c * int n"
proof -
  have ls: "length (slices k n xs) = k" by (induction k n xs rule: slices.induct) auto
  have m: "mset (List.map fst qs) = mset (slices k n xs)"
  proof -
    have "mset (List.map fst qs) = mset (List.map fst (zip (slices k n xs) fs))"
      using sort_versions_mset [OF assms(1)] by simp
    then show ?thesis using assms(2) ls by simp
  qed
  have mc: "mset (concat (List.map fst qs)) = mset (concat (slices k n xs))"
  proof -
    have "mset (concat a) = sum_mset (image_mset mset (mset a))" for a :: "'a list list"
      by (induction a) auto
    then show ?thesis by (simp only: m)
  qed
  obtain j where j: "py_slice_list (List.map fst qs) 0 c = take j (List.map fst qs)"
    using py_slice_from_0 by blast
  have pre: "concat (List.map fst qs) = ys @ concat (drop j (List.map fst qs))"
    unfolding ys_def j by (metis append_take_drop_id concat_append)
  have "set (concat (List.map fst qs)) \<subseteq> set xs"
    using mset_eq_setD [OF mc] by (auto simp: concat_slices dest: in_set_takeD)
  then show "set ys \<subseteq> set xs" using pre by auto
  show "distinct ys" if "distinct xs"
  proof -
    have "distinct (concat (slices k n xs))" using that by (simp add: concat_slices)
    then have "distinct (concat (List.map fst qs))" using mset_eq_imp_distinct_iff [OF mc] by simp
    then show ?thesis unfolding pre by simp
  qed
  assume c: "0 \<le> c"
  have "length x \<le> n" if "x \<in> set (take (nat c) (List.map fst qs))" for x
    using that mset_eq_setD [OF m] slices_length [of x k n xs] by (metis in_set_takeD)
  from concat_le [OF this] have "length ys \<le> length (take (nat c) (List.map fst qs)) * n"
    unfolding ys_def py_slice_prefix [OF c] by blast
  also have "\<dots> \<le> nat c * n" by simp
  finally show "int (length ys) \<le> c * int n" using c by (metis int_nat_eq of_nat_le_iff of_nat_mult)
qed

lemma version_group_cases:
  assumes "version_sample s xs c vs = Ok (Some ys)" "vs_by_group s" "0 < vs_n_samples s"
  obtains k fs qs where "sort_versions (vs_descending s) (zip (slices k (nat (vs_n_samples s)) xs) fs) = Ok qs" "length fs = k"
    "ys = concat (py_slice_list (List.map fst qs) 0 (min (c div vs_n_samples s) (int (length qs))))"
proof -
  let ?n = "vs_n_samples s" let ?k = "nat (int (length xs) div ?n)"
  have ls: "length (slices k n (zs :: 'a list)) = k" for k n zs by (induction k n zs rule: slices.induct) auto
  from assms obtain fs qs where f: "map_res (pick_version (vs_group_max s)) (slices ?k (nat ?n) vs) = Ok fs"
      "sort_versions (vs_descending s) (zip (slices ?k (nat ?n) xs) fs) = Ok qs"
      "ys = concat (py_slice_list (List.map fst qs) 0 (min (c div ?n) (int (length qs))))"
    by (auto simp: version_sample_def Let_def split: if_splits)
  have "length fs = ?k" using map_res_length [OF f(1)] ls by simp
  with f(2,3) show thesis using that by blast
qed

lemma version_sample_ok:
  assumes a: "version_sample s xs c vs = Ok (Some ys)" and n: "0 < vs_n_samples s"
  shows "set ys \<subseteq> set xs" "distinct xs \<Longrightarrow> distinct ys" "0 \<le> c \<Longrightarrow> int (length ys) \<le> c"
proof -
  have "set ys \<subseteq> set xs \<and> (distinct xs \<longrightarrow> distinct ys) \<and> (0 \<le> c \<longrightarrow> int (length ys) \<le> c)"
  proof (cases "vs_by_group s")
    case True
    obtain k fs qs where g: "sort_versions (vs_descending s) (zip (slices k (nat (vs_n_samples s)) xs) fs) = Ok qs" "length fs = k"
        "ys = concat (py_slice_list (List.map fst qs) 0 (min (c div vs_n_samples s) (int (length qs))))"
      using version_group_cases [OF a True n] by blast
    note sg = sorted_groups [OF g]
    have "int (length ys) \<le> c" if "0 \<le> c"
    proof -
      have nn: "0 \<le> min (c div vs_n_samples s) (int (length qs))"
        using that n by (simp add: pos_imp_zdiv_nonneg_iff)
      have "int (length ys) \<le> min (c div vs_n_samples s) (int (length qs)) * vs_n_samples s"
        using sg(3) [OF nn] n by simp
      also have "\<dots> \<le> c div vs_n_samples s * vs_n_samples s" using n by simp
      also have "\<dots> \<le> c" using div_mult_mod_eq [of c "vs_n_samples s"] pos_mod_sign [OF n, of c] by linarith
      finally show ?thesis .
    qed
    then show ?thesis using sg(1,2) by blast
  next
    case False
    then obtain qs where q: "sort_versions (vs_descending s) (zip xs vs) = Ok qs" "ys = py_slice_list (List.map fst qs) 0 c"
      using a by (auto simp: version_sample_def split: if_splits)
    have "int (length ys) \<le> c" if "0 \<le> c" using that q(2) by (simp add: py_slice_prefix)
    then show ?thesis
      using q(2) fst_zip_sorted [OF q(1)] py_slice_list_subset [of "List.map fst qs" 0 c] py_slice_list_distinct
      by blast
  qed
  then show "set ys \<subseteq> set xs" "distinct xs \<Longrightarrow> distinct ys" "0 \<le> c \<Longrightarrow> int (length ys) \<le> c" by blast+
qed

lemma same_version_sample_ok:
  assumes "same_version_sample s xs c vs = Ok (Some ys)"
  shows "set ys \<subseteq> set xs" "distinct xs \<Longrightarrow> distinct ys" "0 \<le> c \<Longrightarrow> int (length ys) \<le> c"
proof -
  obtain sel where ys: "ys = py_slice_list (List.map fst (filter (\<lambda>p. snd p = sel) (zip xs vs))) 0 c"
    using assms by (auto simp: same_version_sample_def Let_def split: if_splits)
  let ?f = "List.map fst (filter (\<lambda>p. snd p = sel) (zip xs vs))"
  have "set ?f \<subseteq> set xs" by (auto dest: set_zip_leftD)
  then show "set ys \<subseteq> set xs" using py_slice_list_subset [of ?f 0 c] unfolding ys by (rule subset_trans [rotated])
  show "distinct ys" if "distinct xs"
  proof -
    have "distinct (List.map fst (zip xs vs))" using that by (simp add: map_fst_zip_take)
    then have "distinct ?f" by (rule distinct_map_filter)
    then show ?thesis unfolding ys by (rule py_slice_list_distinct)
  qed
  show "0 \<le> c \<Longrightarrow> int (length ys) \<le> c" unfolding ys by (simp add: py_slice_prefix)
qed

lemma random_sample_ok:
  assumes "random_sample rs replace xs c = Ok (Some ys)"
  shows "set ys \<subseteq> set xs" "\<not> replace \<Longrightarrow> distinct xs \<Longrightarrow> distinct ys" "\<not> replace \<Longrightarrow> int (length ys) \<le> c"
  using assms draw_choices_subset [of xs rs "nat c"] draw_sample_mset [of "nat (min c (int (length xs)))" "sort xs" rs]
  by (auto simp: random_sample_def Let_def nat_le_iff split: if_splits)

interpretation drawn: picking_sampler "\<lambda>xs c vs. random_sample rs False xs c" for rs
  by unfold_locales (auto dest: random_sample_ok)

interpretation versioned: picking_sampler "version_sample \<lparr>vs_n_samples = max 1 n, vs_by_group = g, vs_descending = d, vs_group_max = m\<rparr>"
  for n g d m
  by unfold_locales (auto dest: version_sample_ok)

interpretation same_version: picking_sampler "same_version_sample s" for s
  by unfold_locales (auto dest: same_version_sample_ok)

text \<open>Every sampler the manager can be given, built by its constructor.\<close>

fun sampler_ok :: "any_sampler \<Rightarrow> bool" where
  "sampler_ok (Version_sampler s) \<longleftrightarrow> 0 < vs_n_samples s"
| "sampler_ok _ = True"

lemma version_sampler_init_ok: "version_sampler_init n g mode gv = Ok s \<Longrightarrow> 0 < vs_n_samples s"
  by (auto simp: version_sampler_init_def split: option.splits if_splits)

lemma run_sampler_subset: "sampler_ok s \<Longrightarrow> run_sampler rs s xs c vs = Ok (Some ys) \<Longrightarrow> set ys \<subseteq> set xs"
  by (cases s) (auto dest: random_sample_ok(1) version_sample_ok(1) same_version_sample_ok(1))

section \<open>Which samples are picked\<close>

lemma in_zip_at: "distinct xs \<Longrightarrow> length vs = length xs \<Longrightarrow> i < length xs \<Longrightarrow> (xs ! i, v) \<in> set (zip xs vs) \<Longrightarrow> v = vs ! i"
  by (auto simp: set_zip nth_eq_iff_index_eq)

text \<open>
  The version sampler takes the best versions: a sample that is picked has a version at
  least as new (in the mode \<open>oldest\<close>, at least as old) as every sample that is left behind.
\<close>

theorem version_sample_best:
  assumes "version_sample s xs c vs = Ok (Some ys)" "\<not> vs_by_group s" "length vs = length xs" "distinct xs" "0 \<le> c"
    and "i < length xs" "j < length xs" "xs ! i \<in> set ys" "xs ! j \<notin> set ys"
  shows "if vs_descending s then the (vs ! j) \<le> the (vs ! i) else the (vs ! i) \<le> the (vs ! j)"
proof -
  let ?k = "\<lambda>p :: int \<times> int option. (if vs_descending s then - 1 else 1) * (case snd p of Some v \<Rightarrow> v | None \<Rightarrow> 0)"
  obtain qs where q: "sort_versions (vs_descending s) (zip xs vs) = Ok qs" "ys = take (nat c) (List.map fst qs)"
    using assms(1,2,5) by (auto simp: version_sample_def py_slice_prefix split: if_splits)
  have "i \<noteq> j" using assms(8,9) by auto
  then have "2 \<le> length (zip xs vs)" using assms(3,6,7) by simp
  then have none: "None \<notin> set vs" and qs: "qs = sort_key ?k (zip xs vs)"
    using q(1) assms(3) by (auto simp: sort_versions_def simp del: length_zip split: if_splits)
  have sorted: "sorted (List.map ?k qs)" unfolding qs by simp
  have at: "\<exists>a < length qs. qs ! a = (xs ! i, vs ! i)" if "i < length xs" for i
  proof -
    have "(xs ! i, vs ! i) \<in> set qs" using that assms(3) unfolding qs by (auto simp: set_zip)
    then show ?thesis by (metis in_set_conv_nth)
  qed
  obtain a where a: "a < length qs" "a < nat c" "qs ! a = (xs ! i, vs ! i)"
  proof -
    obtain a where "a < length qs" "a < nat c" "fst (qs ! a) = xs ! i" using assms(8) unfolding q(2) by (auto simp: in_set_conv_nth)
    moreover from this(1) have "qs ! a \<in> set (zip xs vs)" unfolding qs by (metis nth_mem set_sort)
    ultimately show thesis using that in_zip_at [OF assms(4,3,6)] by (cases "qs ! a") auto
  qed
  obtain b where b: "b < length qs" "qs ! b = (xs ! j, vs ! j)" using at [OF assms(7)] by blast
  have "nat c \<le> b"
  proof (rule ccontr)
    assume "\<not> nat c \<le> b"
    then have "fst (qs ! b) \<in> set ys" using b(1) unfolding q(2) by (auto simp: in_set_conv_nth intro!: exI [of _ b])
    then show False using b(2) assms(9) by simp
  qed
  then have "a \<le> b" using a(2) by simp
  then have "?k (qs ! a) \<le> ?k (qs ! b)" using sorted_nth_mono [OF sorted, of a b] a(1) b(1) by simp
  moreover have "vs ! i \<noteq> None" "vs ! j \<noteq> None" using none assms(3,6,7) by (metis nth_mem)+
  ultimately show ?thesis using a(3) b(2) by (auto split: if_splits)
qed

theorem version_sample_best_witness:
  "version_sample \<lparr>vs_n_samples = 1, vs_by_group = False, vs_descending = True, vs_group_max = True\<rparr> [10, 11, 12] 2
     [Some 1, Some 4, Some 2] = Ok (Some [11, 12]) \<and> the (Some (1 :: int)) \<le> 2"
proof -
  let ?s = "\<lparr>vs_n_samples = 1, vs_by_group = False, vs_descending = True, vs_group_max = True\<rparr>"
  have r: "version_sample ?s [10, 11, 12] 2 [Some 1, Some 4, Some 2] = Ok (Some [11, 12])" by code_simp
  from version_sample_best [OF r, of 2 0] r show ?thesis by (simp add: nth_Cons')
qed

lemma pick_version_Ok: "pick_version largest vs = Ok v \<Longrightarrow>
    vs = [v] \<or> v = Some (if largest then Max (set (List.map the vs)) else Min (set (List.map the vs)))"
  by (auto simp: pick_version_def Let_def simp del: list.map set_map split: list.splits if_splits)

text \<open>
  The same-version sampler mixes no versions: everything it picks has one version, the target
  when one is set, else the newest (oldest) of all that are offered.
\<close>

theorem same_version_uniform:
  assumes "same_version_sample s xs c vs = Ok (Some ys)" "distinct xs"
  shows "\<exists>v. (\<forall>i < length xs. xs ! i \<in> set ys \<longrightarrow> vs ! i = v) \<and> (\<forall>t. ss_target s = Some t \<longrightarrow> v = Some t) \<and>
    (ss_target s = None \<longrightarrow> (\<forall>w \<in> set vs. if ss_mode s = Newest then the w \<le> the v else the v \<le> the w))"
proof -
  have len: "length vs = length xs" using assms(1) by (auto simp: same_version_sample_def split: if_splits)
  obtain v where v: "(case ss_target s of Some v \<Rightarrow> Ok (Some v) | None \<Rightarrow> pick_version (ss_mode s = Newest) vs) = Ok v"
      "ys = py_slice_list (List.map fst (filter (\<lambda>p. snd p = v) (zip xs vs))) 0 c"
    using assms(1) by (auto simp: same_version_sample_def Let_def split: if_splits)
  have "vs ! i = v" if i: "i < length xs" "xs ! i \<in> set ys" for i
  proof -
    have "xs ! i \<in> set (List.map fst (filter (\<lambda>p. snd p = v) (zip xs vs)))" 
      by (rule subsetD [OF py_slice_list_subset i(2) [unfolded v(2)]])
    then have "(xs ! i, v) \<in> set (zip xs vs)" by auto
    then show ?thesis using in_zip_at [OF assms(2) len i(1)] by simp
  qed
  moreover have "if ss_mode s = Newest then the w \<le> the v else the v \<le> the w" if "ss_target s = None" "w \<in> set vs" for w
  proof -
    have w: "the w \<in> set (List.map the vs)" using that(2) by simp
    have "vs = [v] \<or> v = Some (if ss_mode s = Newest then Max (set (List.map the vs)) else Min (set (List.map the vs)))"
      using v(1) that(1) by (intro pick_version_Ok) simp
    then show ?thesis using that(2) Max_ge [OF _ w] Min_le [OF _ w] by auto
  qed
  ultimately show ?thesis using v(1) by auto
qed

theorem same_version_uniform_witness:
  "same_version_sample \<lparr>ss_target = None, ss_mode = Newest\<rparr> [10, 11, 12] 1 [Some 1, Some 4, Some 2] = Ok (Some [11]) \<and>
   (\<exists>v. Some 4 = v \<and> the (Some (2 :: int)) \<le> the v)"
proof -
  let ?s = "\<lparr>ss_target = None, ss_mode = Newest\<rparr>"
  have r: "same_version_sample ?s [10, 11, 12] 1 [Some 1, Some 4, Some 2] = Ok (Some [11])" by code_simp
  have "distinct [10, 11, 12 :: int]" by simp
  from same_version_uniform [OF r this] obtain v where
    v: "\<forall>i < length [10, 11, 12 :: int]. [10, 11, 12 :: int] ! i \<in> set [11] \<longrightarrow> [Some 1, Some 4, Some (2 :: int)] ! i = v"
    "ss_target ?s = None \<longrightarrow> (\<forall>w \<in> set [Some 1, Some 4, Some 2]. if ss_mode ?s = Newest then the w \<le> the v else the v \<le> the w)"
    by (elim exE conjE)
  from v(1) [rule_format, of 1] v(2) show ?thesis using r by simp
qed

end
