(* ===== verification/TQTable.thy ===== *)
theory TQTable
  imports Prelude
begin

text \<open>
  The columnar store of one topic on one shard (\<open>transfer_queue/tq_structures.py\<close>). A received
  frame is a segment that several index entries share; it counts them and drops the frame when
  the count reaches zero. Segments are shared mutable objects, so a table keeps them in a heap
  (a list, its positions are the object identities) and the indices refer to positions. The
  numpy item size of an element type is an argument.
\<close>

section \<open>Segments\<close>

record segment =
  sg_frame :: "byte list option"
  sg_ref :: int

definition new_segment :: "byte list \<Rightarrow> int \<Rightarrow> segment" where
  "new_segment frame initial_ref = \<lparr>sg_frame = Some frame, sg_ref = initial_ref\<rparr>"

definition release :: "int \<Rightarrow> segment \<Rightarrow> bool \<times> segment" where
  "release count s =
     (let s' = s\<lparr>sg_ref := sg_ref s - count\<rparr>
      in if sg_ref s' \<le> 0 then (True, s'\<lparr>sg_frame := None\<rparr>) else (False, s'))"

type_synonym heap = "segment list"

definition release_at :: "nat \<Rightarrow> heap \<Rightarrow> heap" where
  "release_at s h = h[s := snd (release 1 (h ! s))]"

section \<open>The table\<close>

text \<open>An entry: the segment, the offset and the length in bytes.\<close>

type_synonym entry = "nat \<times> int \<times> int"
type_synonym col_index = "(int, entry) dict"
type_synonym shape = "int list option"

record experience_table =
  et_n_samples :: int
  et_columns :: "string list"
  et_indices :: "(string, col_index) dict"
  et_col_metas :: "(string, int \<times> string \<times> string) dict"
  et_col_shapes :: "(string, (int, shape) dict) dict"
  et_owned_groups :: "int set"
  et_heap :: heap

definition table_init :: "int \<Rightarrow> string list \<Rightarrow> experience_table result" where
  "table_init n columns =
     (if n \<le> 0 then Err (ValueError ''n_samples_per_prompt must be a positive integer'')
      else if columns = [] then Err (ValueError ''experience_columns must be provided'')
      else Ok \<lparr>et_n_samples = n, et_columns = columns, et_indices = [], et_col_metas = [],
               et_col_shapes = [], et_owned_groups = {}, et_heap = []\<rparr>)"

section \<open>Writing a batch\<close>

text \<open>What the header says of a column; a missing multiplier is 1, a missing encoding \<open>raw\<close>.\<close>

record col_info =
  ci_ref_multiplier :: int
  ci_lengths :: "int list"
  ci_dtype :: string
  ci_encoding :: string
  ci_shapes :: "shape list option"

record validated =
  va_col :: string
  va_frame :: "byte list"
  va_item_size :: int
  va_lengths :: "int list"
  va_dtype :: string
  va_ref_multiplier :: int
  va_initial_ref :: int
  va_encoding :: string
  va_shapes :: "shape list option"

definition check_meta :: "(string \<Rightarrow> int result) \<Rightarrow> col_info \<Rightarrow> (int \<times> string \<times> string) option \<Rightarrow> int result" where
  "check_meta itemsize ci known = (case known of
      Some (item_size, dtype, encoding) \<Rightarrow>
        (if encoding \<noteq> ci_encoding ci then Err (ValueError ''Encoding mismatch'')
         else if ci_encoding ci = ''raw'' \<and> dtype \<noteq> ci_dtype ci then Err (ValueError ''Dtype mismatch'')
         else Ok item_size)
    | None \<Rightarrow> (if ci_encoding ci = ''raw'' then itemsize (ci_dtype ci) else Ok 1))"

definition expected_bytes :: "col_info \<Rightarrow> int \<Rightarrow> int" where
  "expected_bytes ci item_size =
     (if ci_encoding ci = ''pickle'' then sum_list (ci_lengths ci) else sum_list (ci_lengths ci) * item_size)"

text \<open>The checks of one column. The metadata of a new column are stored before the sizes are
  checked: a rejected batch leaves them behind.\<close>

definition validate_col ::
    "(string \<Rightarrow> int result) \<Rightarrow> int \<Rightarrow> (string, col_info) dict \<Rightarrow> string \<Rightarrow> byte list \<Rightarrow>
     (string, int \<times> string \<times> string) dict \<Rightarrow> validated result \<times> (string, int \<times> string \<times> string) dict" where
  "validate_col itemsize batch infos col frame metas = (case dict_index col infos of
      Inl e \<Rightarrow> (Err e, metas)
    | Inr ci \<Rightarrow> (case check_meta itemsize ci (dict_get metas col) of
        Inl e \<Rightarrow> (Err e, metas)
      | Inr item_size \<Rightarrow>
         (let metas' = (if dict_has col metas then metas else dict_set col (item_size, ci_dtype ci, ci_encoding ci) metas)
          in if expected_bytes ci item_size \<noteq> int (length frame) then (Err (ValueError ''Size Mismatch''), metas')
             else if int (length (ci_lengths ci)) \<noteq> batch then (Err (ValueError ''Length mismatch''), metas')
             else (Ok \<lparr>va_col = col, va_frame = frame, va_item_size = item_size, va_lengths = ci_lengths ci,
                       va_dtype = ci_dtype ci, va_ref_multiplier = ci_ref_multiplier ci,
                       va_initial_ref = batch * ci_ref_multiplier ci, va_encoding = ci_encoding ci,
                       va_shapes = ci_shapes ci\<rparr>, metas'))))"

fun validate_cols ::
    "(string \<Rightarrow> int result) \<Rightarrow> int \<Rightarrow> (string, col_info) dict \<Rightarrow> (string \<times> byte list) list \<Rightarrow>
     (string, int \<times> string \<times> string) dict \<Rightarrow> validated list result \<times> (string, int \<times> string \<times> string) dict" where
  "validate_cols itemsize batch infos [] metas = (Ok [], metas)"
| "validate_cols itemsize batch infos ((col, frame) # cfs) metas =
     (case validate_col itemsize batch infos col frame metas of
        (Inl e, metas') \<Rightarrow> (Err e, metas')
      | (Inr va, metas') \<Rightarrow> (case validate_cols itemsize batch infos cfs metas' of
          (Inl e, metas'') \<Rightarrow> (Err e, metas'')
        | (Inr vas, metas'') \<Rightarrow> (Ok (va # vas), metas'')))"

text \<open>The entries of a column, in the order of the ids; the offsets accumulate.\<close>

definition byte_len :: "validated \<Rightarrow> int \<Rightarrow> int" where
  "byte_len va n = (if va_encoding va = ''pickle'' then n else n * va_item_size va)"

fun layout :: "nat \<Rightarrow> int \<Rightarrow> (int \<times> int) list \<Rightarrow> (int \<times> entry) list" where
  "layout seg off [] = []"
| "layout seg off ((g, l) # gls) = (g, (seg, off, l)) # layout seg (off + l) gls"

text \<open>A shared column (multiplier above 1) is indexed under every member of the id's group.\<close>

definition group_members :: "int \<Rightarrow> int \<Rightarrow> int list" where
  "group_members n g = List.map (\<lambda>j. g div n * n + int j) [0..<nat n]"

definition expand :: "int \<Rightarrow> int \<Rightarrow> (int \<times> 'a) list \<Rightarrow> (int \<times> 'a) list" where
  "expand multiplier n gxs =
     (if 1 < multiplier then concat (List.map (\<lambda>(g, x). List.map (\<lambda>m. (m, x)) (group_members n g)) gxs) else gxs)"

text \<open>Setting an entry releases the segment of the entry it replaces.\<close>

definition put_entry :: "int \<times> entry \<Rightarrow> col_index \<times> heap \<Rightarrow> col_index \<times> heap" where
  "put_entry ge ch = (case (ge, ch) of ((g, e), (d, h)) \<Rightarrow>
     (dict_set g e d, (case dict_get d g of None \<Rightarrow> h | Some old \<Rightarrow> release_at (fst old) h)))"

fun put_entries :: "(int \<times> entry) list \<Rightarrow> col_index \<times> heap \<Rightarrow> col_index \<times> heap" where
  "put_entries [] ch = ch"
| "put_entries (ge # ges) ch = put_entries ges (put_entry ge ch)"

definition put_shapes :: "(int \<times> shape) list \<Rightarrow> (int, shape) dict \<Rightarrow> (int, shape) dict" where
  "put_shapes gss d = foldl (\<lambda>d (g, s). dict_set g s d) d gss"

definition col_entries :: "int list \<Rightarrow> int \<Rightarrow> nat \<Rightarrow> validated \<Rightarrow> (int \<times> entry) list" where
  "col_entries ids n seg va =
     expand (va_ref_multiplier va) n (layout seg 0 (zip ids (List.map (byte_len va) (va_lengths va))))"

definition apply_col :: "int list \<Rightarrow> validated \<Rightarrow> experience_table \<Rightarrow> experience_table" where
  "apply_col ids va t =
     (let col = va_col va; n = et_n_samples t;
          metas = (if dict_has col (et_col_metas t) then et_col_metas t
                   else dict_set col (va_item_size va, va_dtype va, va_encoding va) (et_col_metas t));
          seg = length (et_heap t);
          heap = et_heap t @ [new_segment (va_frame va) (va_initial_ref va)];
          (d, heap') = put_entries (col_entries ids n seg va) (dict_get_default col [] (et_indices t), heap);
          shapes = (case va_shapes va of
              None \<Rightarrow> et_col_shapes t
            | Some ss \<Rightarrow> dict_set col (put_shapes (expand (va_ref_multiplier va) n (zip (take (length (va_lengths va)) ids) ss))
                           (dict_get_default col [] (et_col_shapes t))) (et_col_shapes t))
      in t\<lparr>et_col_metas := metas, et_indices := dict_set col d (et_indices t), et_col_shapes := shapes, et_heap := heap'\<rparr>)"

definition put_batch ::
    "(string \<Rightarrow> int result) \<Rightarrow> int list \<Rightarrow> string list \<Rightarrow> (string, col_info) dict \<Rightarrow> byte list list \<Rightarrow>
     experience_table \<Rightarrow> unit result \<times> experience_table" where
  "put_batch itemsize ids order infos frames t =
     (if ids = [] then (Ok (), t)
      else if length frames < length order then (Err (ValueError ''Missing frame for column''), t)
      else case validate_cols itemsize (int (length ids)) infos (zip order frames) (et_col_metas t) of
        (Inl e, metas) \<Rightarrow> (Err e, t\<lparr>et_col_metas := metas\<rparr>)
      | (Inr vas, metas) \<Rightarrow> (Ok (), foldl (\<lambda>t va. apply_col ids va t) (t\<lparr>et_col_metas := metas\<rparr>) vas))"

section \<open>Reading a batch\<close>

text \<open>Assigning a slice of a \<open>bytearray\<close>.\<close>

definition slice_assign :: "'a list \<Rightarrow> int \<Rightarrow> int \<Rightarrow> 'a list \<Rightarrow> 'a list" where
  "slice_assign xs lo hi ys =
     (let n = int (length xs); l = slice_bound n lo; h = max l (slice_bound n hi)
      in take (nat l) xs @ ys @ drop (nat h) xs)"

fun copy_entries :: "heap \<Rightarrow> entry list \<Rightarrow> int \<Rightarrow> byte list \<Rightarrow> byte list result" where
  "copy_entries h [] cursor dest = Ok dest"
| "copy_entries h ((seg, off, len) # es) cursor dest = (case sg_frame (h ! seg) of
      None \<Rightarrow> Err (TypeError ''NoneType object is not subscriptable'')
    | Some f \<Rightarrow> copy_entries h es (cursor + len) (slice_assign dest cursor (cursor + len) (py_slice_list f off (off + len))))"

record col_result =
  cr_lengths :: "int list"
  cr_dtype :: string
  cr_encoding :: string
  cr_shapes :: "shape list"

definition get_col :: "int list \<Rightarrow> string \<Rightarrow> experience_table \<Rightarrow> (col_result \<times> byte list) result" where
  "get_col ids col t = (case dict_get (et_col_metas t) col of
      None \<Rightarrow> Err (KeyError ''Column not found'')
    | Some (item_size, dtype, encoding) \<Rightarrow> (case dict_get (et_indices t) col of
        None \<Rightarrow> Err (KeyError ''Column index is empty or missing'')
      | Some d \<Rightarrow>
         bind_res (map_res (\<lambda>g. case dict_get d g of None \<Rightarrow> Err (KeyError ''Global ID missing'') | Some e \<Rightarrow> Ok e) ids) (\<lambda>entries.
         bind_res (map_res (\<lambda>e. if encoding = ''pickle'' then Ok (snd (snd e))
                       else if item_size = 0 then Err ZeroDivisionError else Ok (snd (snd e) div item_size)) entries) (\<lambda>lengths.
         bind_res (copy_entries (et_heap t) entries 0 (replicate (nat (sum_list (List.map (\<lambda>e. snd (snd e)) entries))) 0)) (\<lambda>frame.
           Ok (\<lparr>cr_lengths = lengths, cr_dtype = dtype, cr_encoding = encoding,
                cr_shapes = List.map (\<lambda>g. case dict_get (et_col_shapes t) col of None \<Rightarrow> None
                   | Some ss \<Rightarrow> (case dict_get ss g of None \<Rightarrow> None | Some s \<Rightarrow> s)) ids\<rparr>, frame))))))"

definition get_batch :: "int list \<Rightarrow> string list \<Rightarrow> experience_table \<Rightarrow> ((string \<times> col_result) list \<times> byte list list) result" where
  "get_batch ids cols t =
     bind_res (map_res (\<lambda>c. get_col ids c t) cols) (\<lambda>rs. Ok (zip cols (List.map fst rs), List.map snd rs))"

section \<open>Removing\<close>

definition prune_entry :: "int \<Rightarrow> col_index \<times> heap \<Rightarrow> col_index \<times> heap" where
  "prune_entry g ch = (case ch of (d, h) \<Rightarrow> (case dict_get d g of
      None \<Rightarrow> (d, h) | Some e \<Rightarrow> (dict_del g d, release_at (fst e) h)))"

fun prune_cols :: "int list \<Rightarrow> (string, col_index) dict \<Rightarrow> heap \<Rightarrow> (string, col_index) dict \<times> heap" where
  "prune_cols ids [] h = ([], h)"
| "prune_cols ids ((c, d) # cds) h =
     (let (d', h') = foldl (\<lambda>ch g. prune_entry g ch) (d, h) ids; (cds', h'') = prune_cols ids cds h'
      in ((c, d') # cds', h''))"

definition prune :: "int list \<Rightarrow> experience_table \<Rightarrow> experience_table" where
  "prune ids t =
     (let (indices, heap) = prune_cols ids (et_indices t) (et_heap t)
      in t\<lparr>et_indices := indices, et_heap := heap,
           et_col_shapes := List.map (\<lambda>(c, ss). (c, foldl (\<lambda>ss g. dict_del g ss) ss ids)) (et_col_shapes t),
           et_owned_groups := et_owned_groups t - (\<lambda>g. g div et_n_samples t) ` set ids\<rparr>)"

definition clear_table :: "experience_table \<Rightarrow> experience_table" where
  "clear_table t = t\<lparr>et_heap := foldl (\<lambda>h e. release_at (fst e) h) (et_heap t)
        (concat (List.map (\<lambda>(c, d). dict_values d) (et_indices t))),
     et_indices := [], et_col_metas := [], et_col_shapes := [], et_owned_groups := {}\<rparr>"

section \<open>Counting references\<close>

definition dsum :: "('v \<Rightarrow> int) \<Rightarrow> ('k, 'v) dict \<Rightarrow> int" where
  "dsum f d = sum_list (List.map (\<lambda>kv. f (snd kv)) d)"

definition dval :: "('v \<Rightarrow> int) \<Rightarrow> 'v option \<Rightarrow> int" where
  "dval f v = (case v of None \<Rightarrow> 0 | Some x \<Rightarrow> f x)"

lemma dsum_simps [simp]:
  "dsum f [] = 0" "dsum f (kv # d) = f (snd kv) + dsum f d" "dsum f (d @ e) = dsum f d + dsum f e"
  by (simp_all add: dsum_def)

lemma dval_simps [simp]: "dval f None = 0" "dval f (Some x) = f x"
  by (simp_all add: dval_def)

lemma dsum_set: "dict_ok d \<Longrightarrow> dsum f (dict_set k v d) = dsum f d + f v - dval f (dict_get d k)"
  by (induction d) (auto simp: dict_ok_def)

lemma dict_del_absent: "k \<notin> set (dict_keys d) \<Longrightarrow> dict_del k d = d"
  by (induction d) (auto simp: AList.delete_eq)

lemma dsum_del: "dict_ok d \<Longrightarrow> dsum f (dict_del k d) = dsum f d - dval f (dict_get d k)"
  by (induction d) (auto simp: dict_ok_def dict_del_absent)

lemma dsum_nonneg: "(\<And>v. 0 \<le> f v) \<Longrightarrow> 0 \<le> dsum f d"
  by (induction d) (auto intro: add_nonneg_nonneg)

lemma dsum_get_le: "(\<And>v. 0 \<le> f v) \<Longrightarrow> dict_get d k = Some v \<Longrightarrow> f v \<le> dsum f d"
  by (induction d) (auto simp: dsum_nonneg add_increasing add_increasing2 split: if_splits)

lemma dsum_zero: "(\<And>v. v \<in> set (dict_values d) \<Longrightarrow> f v = 0) \<Longrightarrow> dsum f d = 0"
  by (induction d) auto

abbreviation refs_to :: "nat \<Rightarrow> entry \<Rightarrow> int" where
  "refs_to s e \<equiv> of_bool (fst e = s)"

definition crefs :: "col_index \<Rightarrow> nat \<Rightarrow> int" where
  "crefs d s = dsum (refs_to s) d"

definition trefs :: "(string, col_index) dict \<Rightarrow> nat \<Rightarrow> int" where
  "trefs cds s = dsum (\<lambda>d. crefs d s) cds"

text \<open>The heap agrees with a count: the reference count is it, and the frame is there while it is
  positive. \<open>F\<close> are the frames as they were received.\<close>

definition heap_ok :: "(nat \<Rightarrow> byte list) \<Rightarrow> (nat \<Rightarrow> int) \<Rightarrow> heap \<Rightarrow> bool" where
  "heap_ok F cnt h \<longleftrightarrow> (\<forall>s < length h. sg_ref (h ! s) = cnt s \<and>
     sg_frame (h ! s) = (if cnt s \<le> 0 then None else Some (F s)))"

definition entry_ok :: "(nat \<Rightarrow> byte list) \<Rightarrow> nat \<Rightarrow> entry \<Rightarrow> bool" where
  "entry_ok F k e \<longleftrightarrow> (case e of (s, off, l) \<Rightarrow> s < k \<and> 0 \<le> off \<and> 0 \<le> l \<and> off + l \<le> int (length (F s)))"

lemma crefs_nonneg: "0 \<le> crefs d s"
  by (simp add: crefs_def dsum_nonneg)

lemma trefs_nonneg: "0 \<le> trefs cds s"
  by (simp add: trefs_def dsum_nonneg crefs_nonneg)

lemma length_release_at [simp]: "length (release_at s h) = length h"
  by (simp add: release_at_def)

lemma heap_ok_release:
  "heap_ok F cnt h \<Longrightarrow> heap_ok F (\<lambda>s'. cnt s' - of_bool (s = s')) (release_at s h)"
  unfolding heap_ok_def release_at_def release_def
  by (auto simp: nth_list_update Let_def)

lemma heap_ok_cong: "heap_ok F cnt h \<Longrightarrow> (\<And>s. s < length h \<Longrightarrow> cnt s = cnt' s) \<Longrightarrow> heap_ok F cnt' h"
  by (simp add: heap_ok_def)

lemma ran_value: "dict_get d k = Some v \<Longrightarrow> v \<in> set (dict_values d)"
  by (force dest!: map_of_SomeD)

lemma entries_get: "\<forall>e \<in> set (dict_values d). P e \<Longrightarrow> dict_get d g = Some e \<Longrightarrow> P e"
  by (auto dest!: map_of_SomeD)

section \<open>Placing entries\<close>

lemma put_entries_spec:
  assumes "put_entries es (d, h) = (d', h')" "dict_ok d" "heap_ok F cnt h"
    "\<forall>e \<in> set (dict_values d). entry_ok F k e" "\<forall>e \<in> set (dict_values es). entry_ok F k e"
  shows "dict_ok d' \<and> length h' = length h \<and>
    heap_ok F (\<lambda>s. cnt s + crefs d' s - crefs d s - crefs es s) h' \<and>
    (\<forall>e \<in> set (dict_values d'). entry_ok F k e) \<and>
    dict_get d' = dict_get d ++ dict_get (rev es)"
  using assms
proof (induction es arbitrary: d h cnt)
  case Nil
  then show ?case by (simp add: crefs_def)
next
  case (Cons ge es)
  obtain g e where ge: "ge = (g, e)" by (cases ge)
  let ?d = "dict_set g e d"
  let ?h = "case dict_get d g of None \<Rightarrow> h | Some old \<Rightarrow> release_at (fst old) h"
  let ?cnt = "\<lambda>s. cnt s - dval (refs_to s) (dict_get d g)"
  have step: "put_entries es (?d, ?h) = (d', h')" using Cons.prems(1) by (simp add: ge put_entry_def)
  have h: "heap_ok F ?cnt ?h" "length ?h = length h"
    using Cons.prems(3) heap_ok_release [of F cnt h] by (auto split: option.split)
  have vals: "\<forall>e' \<in> set (dict_values ?d). entry_ok F k e'"
  proof
    fix x assume "x \<in> set (dict_values ?d)"
    then have "x = e \<or> x \<in> set (dict_values d)" by (rule dict_set_values)
    then show "entry_ok F k x" using Cons.prems(4,5) ge by auto
  qed
  have c1: "crefs ?d s = crefs d s + refs_to s e - dval (refs_to s) (dict_get d g)" for s
    using dsum_set [OF Cons.prems(2)] by (simp add: crefs_def)
  have c2: "crefs (ge # es) s = refs_to s e + crefs es s" for s by (simp add: crefs_def ge)
  have d0: "dict_ok ?d" "\<forall>e \<in> set (dict_values es). entry_ok F k e" using Cons.prems(2,5) by simp_all
  have IH: "dict_ok d'" "length h' = length h"
      "heap_ok F (\<lambda>s. ?cnt s + crefs d' s - crefs ?d s - crefs es s) h'"
      "\<forall>e \<in> set (dict_values d'). entry_ok F k e" "dict_get d' = dict_get ?d ++ dict_get (rev es)"
    using Cons.IH [OF step d0(1) h(1) vals d0(2)] unfolding h(2) by blast+
  have "heap_ok F (\<lambda>s. cnt s + crefs d' s - crefs d s - crefs (ge # es) s) h'"
    using IH(3) by (rule heap_ok_cong) (simp add: c1 c2)
  moreover have "dict_get d ++ dict_get (rev (ge # es)) = dict_get ?d ++ dict_get (rev es)"
    by (auto simp: ge map_add_def fun_eq_iff split: option.splits)
  ultimately show ?case using IH(1,2,4,5) by (simp only: simp_thms)
qed

lemma layout_ok:
  assumes "0 \<le> off" "\<forall>gl \<in> set gls. 0 \<le> snd gl" "off + sum_list (List.map snd gls) \<le> int (length (F seg))" "seg < k"
  shows "\<forall>e \<in> set (dict_values (layout seg off gls)). entry_ok F k e"
  using assms
proof (induction gls arbitrary: off)
  case (Cons gl gls)
  obtain g l where gl: "gl = (g, l)" by (cases gl)
  have "0 \<le> sum_list (List.map snd gls)" using Cons.prems(2) by (intro sum_list_nonneg) auto
  with Cons.prems Cons.IH [of "off + l"] show ?case by (auto simp: gl entry_ok_def)
qed simp

lemma layout_length [simp]: "length (layout seg off gls) = length gls"
  by (induction seg off gls rule: layout.induct) auto

lemma layout_segs: "e \<in> set (dict_values (layout seg off gls)) \<Longrightarrow> fst e = seg"
  by (induction seg off gls rule: layout.induct) auto

lemma crefs_uniform: "(\<And>e. e \<in> set (dict_values es) \<Longrightarrow> fst e = seg) \<Longrightarrow>
    crefs es s = (if s = seg then int (length es) else 0)"
  by (induction es) (auto simp: crefs_def)

lemma length_group_members [simp]: "length (group_members n g) = nat n"
  by (simp add: group_members_def)

lemma expand_length: "0 < n \<Longrightarrow> int (length (expand m n gxs)) = int (length gxs) * (if 1 < m then n else 1)"
  by (induction gxs) (auto simp: expand_def algebra_simps)

lemma expand_values: "x \<in> set (dict_values (expand m n gxs)) \<Longrightarrow> x \<in> set (dict_values gxs)"
  by (force simp: expand_def split: if_splits)

section \<open>The table invariant\<close>

definition table_wf :: "(nat \<Rightarrow> byte list) \<Rightarrow> experience_table \<Rightarrow> bool" where
  "table_wf F t \<longleftrightarrow> 0 < et_n_samples t \<and> dict_ok (et_indices t) \<and>
     (\<forall>d \<in> set (dict_values (et_indices t)). dict_ok d \<and> (\<forall>e \<in> set (dict_values d). entry_ok F (length (et_heap t)) e)) \<and>
     heap_ok F (trefs (et_indices t)) (et_heap t) \<and>
     (\<forall>cm \<in> set (et_col_metas t). 0 < fst (snd cm))"

text \<open>What the header of a well-formed batch says of one column.\<close>

definition va_ok :: "int \<Rightarrow> int \<Rightarrow> validated \<Rightarrow> bool" where
  "va_ok batch n va \<longleftrightarrow> 0 < batch \<and> int (length (va_lengths va)) = batch \<and>
     va_initial_ref va = batch * va_ref_multiplier va \<and> (va_ref_multiplier va = 1 \<or> va_ref_multiplier va = n) \<and>
     (\<forall>l \<in> set (va_lengths va). 0 \<le> byte_len va l) \<and> 0 < va_item_size va \<and>
     sum_list (List.map (byte_len va) (va_lengths va)) = int (length (va_frame va))"

lemma trefs_fresh:
  assumes "\<forall>d \<in> set (dict_values cds). \<forall>e \<in> set (dict_values d). entry_ok F k e"
  shows "trefs cds k = 0"
  unfolding trefs_def crefs_def
proof (intro dsum_zero)
  fix d e assume "d \<in> set (dict_values cds)" "e \<in> set (dict_values d)"
  then have "entry_ok F k e" using assms by blast
  then show "refs_to k e = 0" by (auto simp: entry_ok_def)
qed

lemma trefs_set:
  assumes "dict_ok cds"
  shows "trefs (dict_set c d cds) s = trefs cds s + crefs d s - crefs (dict_get_default c [] cds) s"
  using dsum_set [OF assms, of "\<lambda>d. crefs d s" c d]
  by (simp add: trefs_def dict_get_default_def crefs_def split: option.splits)

lemma entry_ok_mono: "entry_ok F k e \<Longrightarrow> k \<le> k' \<Longrightarrow> (\<And>s. s < k \<Longrightarrow> F' s = F s) \<Longrightarrow> entry_ok F' k' e"
  by (auto simp: entry_ok_def)

definition lens_of :: "int list \<Rightarrow> validated \<Rightarrow> (int \<times> int) list" where
  "lens_of ids va = zip ids (List.map (byte_len va) (va_lengths va))"

lemma col_entries_facts:
  assumes "va_ok (int (length ids)) n va" "0 < n"
  shows "int (length (col_entries ids n seg va)) = va_initial_ref va" "col_entries ids n seg va \<noteq> []"
    "\<And>e. e \<in> set (dict_values (col_entries ids n seg va)) \<Longrightarrow> fst e = seg"
    "\<And>F k. F seg = va_frame va \<Longrightarrow> seg < k \<Longrightarrow> \<forall>e \<in> set (dict_values (col_entries ids n seg va)). entry_ok F k e"
proof -
  have len: "length (va_lengths va) = length ids" "ids \<noteq> []" using assms(1) by (auto simp: va_ok_def)
  then have l: "length (lens_of ids va) = length ids" by (simp add: lens_of_def)
  show ref: "int (length (col_entries ids n seg va)) = va_initial_ref va"
    using assms len by (auto simp: col_entries_def expand_length va_ok_def)
  show "col_entries ids n seg va \<noteq> []"
    using ref assms len by (auto simp: va_ok_def)
  show "\<And>e. e \<in> set (dict_values (col_entries ids n seg va)) \<Longrightarrow> fst e = seg"
    unfolding col_entries_def by (drule expand_values) (rule layout_segs)
  fix F :: "nat \<Rightarrow> byte list" and k assume F: "F seg = va_frame va" "seg < k"
  have "sum_list (List.map snd (lens_of ids va)) = int (length (va_frame va))"
    using assms(1) len by (simp add: lens_of_def va_ok_def)
  moreover have "\<forall>gl \<in> set (lens_of ids va). 0 \<le> snd gl"
    using assms(1) by (auto simp: lens_of_def va_ok_def dest!: set_zip_rightD)
  ultimately have "\<forall>e \<in> set (dict_values (layout seg 0 (lens_of ids va))). entry_ok F k e"
    using F by (intro layout_ok) simp_all
  then show "\<forall>e \<in> set (dict_values (col_entries ids n seg va)). entry_ok F k e"
    unfolding col_entries_def lens_of_def by (blast dest: expand_values)
qed

lemma apply_col_wf:
  assumes wf: "table_wf F t" and va: "va_ok (int (length ids)) (et_n_samples t) va"
  defines "k \<equiv> length (et_heap t)"
  shows "table_wf (F(k := va_frame va)) (apply_col ids va t)"
    and "et_n_samples (apply_col ids va t) = et_n_samples t"
    and "length (et_heap (apply_col ids va t)) = Suc k"
    and "dict_get (et_indices (apply_col ids va t)) = (dict_get (et_indices t))(va_col va \<mapsto>
      fst (put_entries (col_entries ids (et_n_samples t) k va) (dict_get_default (va_col va) [] (et_indices t), et_heap t @ [new_segment (va_frame va) (va_initial_ref va)])))"
    and "dict_get (fst (put_entries (col_entries ids (et_n_samples t) k va) (dict_get_default (va_col va) [] (et_indices t), et_heap t @ [new_segment (va_frame va) (va_initial_ref va)])))
      = dict_get (dict_get_default (va_col va) [] (et_indices t)) ++ dict_get (rev (col_entries ids (et_n_samples t) k va))"
proof -
  let ?n = "et_n_samples t" and ?c = "va_col va" and ?F = "F(k := va_frame va)"
  let ?es = "col_entries ids ?n k va" and ?d = "dict_get_default ?c [] (et_indices t)"
  let ?h = "et_heap t @ [new_segment (va_frame va) (va_initial_ref va)]"
  have t: "0 < ?n" "dict_ok (et_indices t)" "heap_ok F (trefs (et_indices t)) (et_heap t)"
    "\<forall>d \<in> set (dict_values (et_indices t)). dict_ok d \<and> (\<forall>e \<in> set (dict_values d). entry_ok F k e)"
    "\<forall>cm \<in> set (et_col_metas t). 0 < fst (snd cm)"
    using wf by (simp_all add: table_wf_def k_def)
  note es = col_entries_facts [OF va t(1), where seg = k]
  obtain d' h' where put: "put_entries ?es (?d, ?h) = (d', h')" by (cases "put_entries ?es (?d, ?h)")
  let ?cnt = "\<lambda>s. trefs (et_indices t) s + crefs ?es s"
  have old: "\<forall>d \<in> set (dict_values (et_indices t)). \<forall>e \<in> set (dict_values d). entry_ok ?F (Suc k) e"
  proof (intro ballI)
    fix d e assume "d \<in> set (dict_values (et_indices t))" "e \<in> set (dict_values d)"
    then have "entry_ok F k e" using t(4) by blast
    then show "entry_ok ?F (Suc k) e" by (rule entry_ok_mono) auto
  qed
  have d: "dict_ok ?d" "\<forall>e \<in> set (dict_values ?d). entry_ok ?F (Suc k) e"
  proof -
    have D: "?d = [] \<or> ?d \<in> set (dict_values (et_indices t))"
      by (cases "dict_get (et_indices t) ?c") (auto simp: dict_get_default_def dest: ran_value)
    show "dict_ok ?d" using D t(4) by (cases "?d = []") (simp, blast)
    show "\<forall>e \<in> set (dict_values ?d). entry_ok ?F (Suc k) e" using D old by (cases "?d = []") (simp, blast)
  qed
  have cs: "crefs ?es s = (if s = k then va_initial_ref va else 0)" for s
    using crefs_uniform [OF es(3)] es(1) by simp
  have pos: "0 < va_initial_ref va" using es(1,2) by (cases ?es) auto
  have "trefs (et_indices t) k = 0" using t(4) by (intro trefs_fresh [of _ F]) auto
  then have h: "heap_ok ?F ?cnt ?h"
    using t(3) pos by (auto simp: heap_ok_def cs nth_append new_segment_def less_Suc_eq simp flip: k_def)
  have ese: "\<forall>e \<in> set (dict_values ?es). entry_ok ?F (Suc k) e" using es(4) [of ?F "Suc k"] by simp
  from put_entries_spec [OF put d(1) h d(2) ese]
  have sp: "dict_ok d'" "length h' = Suc k" "heap_ok ?F (\<lambda>s. trefs (et_indices t) s + (crefs d' s - crefs ?d s)) h'"
      "\<forall>e \<in> set (dict_values d'). entry_ok ?F (Suc k) e" "dict_get d' = dict_get ?d ++ dict_get (rev ?es)"
    by (simp_all add: k_def)
  have ap: "et_indices (apply_col ids va t) = dict_set ?c d' (et_indices t)" "et_heap (apply_col ids va t) = h'"
      "et_n_samples (apply_col ids va t) = ?n"
      "et_col_metas (apply_col ids va t) = (if dict_has ?c (et_col_metas t) then et_col_metas t
         else dict_set ?c (va_item_size va, va_dtype va, va_encoding va) (et_col_metas t))"
    using put by (simp_all add: apply_col_def k_def Let_def split: prod.splits)
  have metas: "\<forall>cm \<in> set (et_col_metas (apply_col ids va t)). 0 < fst (snd cm)"
    using t(5) va by (auto simp: ap dict_set_new va_ok_def)
  have vals: "dict_ok x \<and> (\<forall>e \<in> set (dict_values x). entry_ok ?F (Suc k) e)"
    if "x \<in> set (dict_values (dict_set ?c d' (et_indices t)))" for x
    using dict_set_values [OF that] sp(1,4) t(4) old by auto
  have "heap_ok ?F (trefs (dict_set ?c d' (et_indices t))) h'"
    using sp(3) by (rule heap_ok_cong) (simp add: trefs_set [OF t(2)])
  then show "table_wf ?F (apply_col ids va t)"
    unfolding table_wf_def using t(1,2) metas vals by (auto simp: ap sp(2))
  show "et_n_samples (apply_col ids va t) = ?n" by (rule ap(3))
  show "length (et_heap (apply_col ids va t)) = Suc k" by (simp add: ap sp(2))
  show "dict_get (et_indices (apply_col ids va t)) = (dict_get (et_indices t))(?c \<mapsto> fst (put_entries ?es (?d, ?h)))"
    by (simp add: ap put)
  show "dict_get (fst (put_entries ?es (?d, ?h))) = dict_get ?d ++ dict_get (rev ?es)"
    by (simp add: put sp(5))
qed

section \<open>What a table stores\<close>

text \<open>The abstract table: the bytes stored for a column and an id.\<close>

definition cut_entry :: "byte list \<Rightarrow> entry \<Rightarrow> byte list" where
  "cut_entry f e = (case e of (s, off, l) \<Rightarrow> take (nat l) (drop (nat off) f))"

definition stored :: "experience_table \<Rightarrow> string \<Rightarrow> int \<Rightarrow> byte list option" where
  "stored t c g = (case dict_get (dict_get_default c [] (et_indices t)) g of
      None \<Rightarrow> None
    | Some e \<Rightarrow> (case sg_frame (et_heap t ! fst e) of None \<Rightarrow> None | Some f \<Rightarrow> Some (cut_entry f e)))"

text \<open>A frame cut into consecutive pieces, and the ids they go to.\<close>

fun cut :: "int list \<Rightarrow> byte list \<Rightarrow> byte list list" where
  "cut [] f = []"
| "cut (l # ls) f = take (nat l) f # cut ls (drop (nat l) f)"

definition chunks :: "int list \<Rightarrow> int \<Rightarrow> int \<Rightarrow> int list \<Rightarrow> byte list \<Rightarrow> (int \<times> byte list) list" where
  "chunks ids n multiplier lens f = expand multiplier n (zip ids (cut lens f))"

lemma default_get:
  "dict_get (dict_get_default c [] ds) g = Some e \<Longrightarrow> \<exists>d. dict_get ds c = Some d \<and> dict_get d g = Some e"
  by (cases "dict_get ds c") (simp_all add: dict_get_default_def)

lemma entry_counted:
  assumes "dict_get cds c = Some d" "dict_get d g = Some e"
  shows "0 < trefs cds (fst e)"
proof -
  have "1 \<le> crefs d (fst e)"
    using dsum_get_le [OF _ assms(2), of "refs_to (fst e)"] by (simp add: crefs_def)
  also have "\<dots> \<le> trefs cds (fst e)"
    using dsum_get_le [OF _ assms(1), of "\<lambda>d. crefs d (fst e)"] by (simp add: trefs_def crefs_nonneg)
  finally show ?thesis by simp
qed

lemma stored_wf:
  assumes "table_wf F t"
  shows "stored t c g = map_option (\<lambda>e. cut_entry (F (fst e)) e) (dict_get (dict_get_default c [] (et_indices t)) g)"
proof (cases "dict_get (dict_get_default c [] (et_indices t)) g")
  case (Some e)
  then obtain d where d: "dict_get (et_indices t) c = Some d" "dict_get d g = Some e"
    using default_get [OF Some] by blast
  have "entry_ok F (length (et_heap t)) e"
    using assms ran_value [OF d(1)] ran_value [OF d(2)] unfolding table_wf_def by blast
  then have "sg_frame (et_heap t ! fst e) = Some (F (fst e))"
    using assms entry_counted [OF d] by (auto simp: table_wf_def heap_ok_def entry_ok_def)
  then show ?thesis by (simp add: stored_def Some)
qed (simp add: stored_def)

lemma expand_map: "expand m n (List.map (map_prod id f) gxs) = List.map (map_prod id f) (expand m n gxs)"
  by (induction gxs) (auto simp: expand_def)

lemma layout_cut:
  assumes "0 \<le> off" "\<forall>l \<in> set ls. 0 \<le> l"
  shows "List.map (map_prod id (cut_entry f)) (layout seg off (zip ids ls)) = zip ids (cut ls (drop (nat off) f))"
  using assms
proof (induction ls arbitrary: off ids)
  case (Cons l ls)
  have "nat (off + l) = nat l + nat off" using Cons.prems by (simp add: nat_add_distrib)
  then show ?case using Cons by (cases ids) (simp_all add: cut_entry_def add.commute)
qed simp

definition va_chunks :: "int list \<Rightarrow> int \<Rightarrow> validated \<Rightarrow> (int \<times> byte list) list" where
  "va_chunks ids n va = chunks ids n (va_ref_multiplier va) (List.map (byte_len va) (va_lengths va)) (va_frame va)"

lemma col_entries_chunks:
  assumes "va_ok (int (length ids)) n va"
  shows "List.map (map_prod id (cut_entry (va_frame va))) (col_entries ids n seg va) = va_chunks ids n va"
  using assms layout_cut [of 0 "List.map (byte_len va) (va_lengths va)" "va_frame va" seg ids]
  by (simp add: col_entries_def va_chunks_def chunks_def va_ok_def flip: expand_map)

lemma stored_apply_col:
  assumes wf: "table_wf F t" and va: "va_ok (int (length ids)) (et_n_samples t) va"
  shows "stored (apply_col ids va t) c g =
    (if c = va_col va then (case dict_get (rev (va_chunks ids (et_n_samples t) va)) g of
       Some b \<Rightarrow> Some b | None \<Rightarrow> stored t c g) else stored t c g)"
proof -
  let ?k = "length (et_heap t)" and ?n = "et_n_samples t"
  let ?F = "F(?k := va_frame va)" and ?es = "col_entries ids ?n ?k va"
  note ap = apply_col_wf [OF wf va]
  have n: "0 < ?n" using wf by (simp add: table_wf_def)
  have old: "?F (fst e) = F (fst e)" if g: "dict_get (dict_get_default c [] (et_indices t)) j = Some e" for e j
  proof -
    obtain d where d: "dict_get (et_indices t) c = Some d" "dict_get d j = Some e"
      using default_get [OF g] by blast
    then have "entry_ok F ?k e" using wf ran_value [OF d(1)] ran_value [OF d(2)] unfolding table_wf_def by blast
    then show ?thesis by (auto simp: entry_ok_def)
  qed
  have new: "map_option (\<lambda>e. cut_entry (?F (fst e)) e) (dict_get (rev ?es) g)
      = dict_get (rev (va_chunks ids ?n va)) g"
  proof -
    have "dict_get (rev (va_chunks ids ?n va)) g = dict_get (List.map (\<lambda>(k, v). (k, cut_entry (va_frame va) v)) (rev ?es)) g"
      using col_entries_chunks [OF va, of ?k] by (simp add: map_prod_def flip: rev_map)
    also have "\<dots> = map_option (cut_entry (va_frame va)) (dict_get (rev ?es) g)" by (simp add: map_of_map)
    also have "\<dots> = map_option (\<lambda>e. cut_entry (?F (fst e)) e) (dict_get (rev ?es) g)"
    proof (cases "dict_get (rev ?es) g")
      case (Some e)
      then have "e \<in> set (dict_values ?es)" by (force dest!: map_of_SomeD)
      then show ?thesis using col_entries_facts(3) [OF va n] Some by simp
    qed simp
    finally show ?thesis by simp
  qed
  let ?G = "\<lambda>e. cut_entry (?F (fst e)) e"
  have O: "map_option ?G (dict_get (dict_get_default c [] (et_indices t)) g) = stored t c g"
    using old by (cases "dict_get (dict_get_default c [] (et_indices t)) g") (auto simp: stored_wf [OF wf])
  have N: "stored (apply_col ids va t) c g = map_option ?G (dict_get (dict_get_default c [] (et_indices (apply_col ids va t))) g)"
    by (rule stored_wf [OF ap(1)])
  show ?thesis
  proof (cases "c = va_col va")
    case True
    then have "dict_get_default c [] (et_indices (apply_col ids va t)) = fst (put_entries ?es
        (dict_get_default c [] (et_indices t), et_heap t @ [new_segment (va_frame va) (va_initial_ref va)]))"
      unfolding dict_get_default_def [of c "[]" "et_indices (apply_col ids va t)"] ap(4) by simp
    then have "dict_get (dict_get_default c [] (et_indices (apply_col ids va t))) g =
        (dict_get (dict_get_default c [] (et_indices t)) ++ dict_get (rev ?es)) g"
      using ap(5) True by simp
    then show ?thesis
      using True N O new by (cases "dict_get (rev ?es) g") (auto simp: map_add_def split: option.splits)
  next
    case False
    then have "dict_get_default c [] (et_indices (apply_col ids va t)) = dict_get_default c [] (et_indices t)"
      by (simp add: dict_get_default_def ap(4))
    then show ?thesis using False N O by simp
  qed
qed

section \<open>Whole batches\<close>

text \<open>A header that the table's writers send: lengths are not negative, and the multiplier is 1 or
  the group size; item sizes are positive.\<close>

definition header_ok :: "(string \<Rightarrow> int result) \<Rightarrow> int \<Rightarrow> (string, col_info) dict \<Rightarrow> bool" where
  "header_ok itemsize n infos \<longleftrightarrow> (\<forall>ci \<in> set (dict_values infos).
     (\<forall>l \<in> set (ci_lengths ci). 0 \<le> l) \<and> (ci_ref_multiplier ci = 1 \<or> ci_ref_multiplier ci = n) \<and>
     (case itemsize (ci_dtype ci) of Inl _ \<Rightarrow> True | Inr k \<Rightarrow> 0 < k))"

text \<open>The pieces of one column of a batch, given the item size the table knows for it.\<close>

definition col_chunks :: "int list \<Rightarrow> int \<Rightarrow> col_info \<Rightarrow> int \<Rightarrow> byte list \<Rightarrow> (int \<times> byte list) list" where
  "col_chunks ids n ci item f = chunks ids n (ci_ref_multiplier ci)
     (List.map (\<lambda>l. if ci_encoding ci = ''pickle'' then l else l * item) (ci_lengths ci)) f"

definition metas_ok :: "(string, int \<times> string \<times> string) dict \<Rightarrow> bool" where
  "metas_ok metas \<longleftrightarrow> (\<forall>cm \<in> set metas. 0 < fst (snd cm))"

text \<open>A validated column against the header it came from.\<close>

definition va_from :: "int list \<Rightarrow> int \<Rightarrow> (string, col_info) dict \<Rightarrow> (string, int \<times> string \<times> string) dict \<Rightarrow>
    string \<times> byte list \<Rightarrow> validated \<Rightarrow> bool" where
  "va_from ids n infos metas cf va \<longleftrightarrow> va_ok (int (length ids)) n va \<and> va_col va = fst cf \<and>
     (\<exists>ci item dt enc. dict_get infos (fst cf) = Some ci \<and> dict_get metas (fst cf) = Some (item, dt, enc) \<and>
        va_chunks ids n va = col_chunks ids n ci item (snd cf) \<and> length (ci_lengths ci) = length ids)"

lemma metas_ok_get: "metas_ok metas \<Longrightarrow> dict_get metas c = Some (i, dt, enc) \<Longrightarrow> 0 < i"
  by (force simp: metas_ok_def dest!: map_of_SomeD)

lemma sum_list_mult: "sum_list (List.map (\<lambda>l. l * k) ls) = sum_list ls * (k :: int)"
  by (induction ls) (simp_all add: algebra_simps)

lemma validate_col_spec:
  assumes "validate_col itemsize (int (length ids)) infos c f metas = (r, metas')" "ids \<noteq> []"
    "header_ok itemsize n infos" "metas_ok metas"
  shows "metas_ok metas' \<and> (\<forall>c' m. dict_get metas c' = Some m \<longrightarrow> dict_get metas' c' = Some m) \<and>
    (\<forall>va. r = Ok va \<longrightarrow> va_from ids n infos metas' (c, f) va)"
proof (cases "dict_index c infos")
  case (Inl e)
  then show ?thesis using assms by (auto simp: validate_col_def)
next
  case (Inr ci)
  then have ci: "dict_get infos c = Some ci" by (simp add: dict_index_Ok)
  then have h: "\<forall>l \<in> set (ci_lengths ci). 0 \<le> l" "ci_ref_multiplier ci = 1 \<or> ci_ref_multiplier ci = n"
      "case itemsize (ci_dtype ci) of Inl _ \<Rightarrow> True | Inr k \<Rightarrow> 0 < k"
    using assms(3) ran_value [OF ci] unfolding header_ok_def by blast+
  show ?thesis
  proof (cases "check_meta itemsize ci (dict_get metas c)")
    case (Inl e)
    then show ?thesis using assms Inr by (auto simp: validate_col_def)
  next
    case ck: (Inr item)
    have item: "0 < item"
      using ck h(3) metas_ok_get [OF assms(4), of c]
      by (auto simp: check_meta_def split: option.splits if_splits)
    let ?m = "if dict_has c metas then metas else dict_set c (item, ci_dtype ci, ci_encoding ci) metas"
    have m: "metas_ok ?m" "\<forall>c' m. dict_get metas c' = Some m \<longrightarrow> dict_get ?m c' = Some m"
        "\<exists>dt enc. dict_get ?m c = Some (item, dt, enc)"
      using assms(4) item ck
      by (auto simp: metas_ok_def dict_set_new dict_has_def check_meta_def map_add_def split: option.splits if_splits)
    have metas': "metas' = ?m" using assms(1) Inr ck by (auto simp: validate_col_def Let_def split: if_splits)
    have "va_from ids n infos ?m (c, f) va" if "r = Ok va" for va
    proof -
      have va: "va_col va = c" "va_frame va = f" "va_item_size va = item" "va_lengths va = ci_lengths ci"
          "va_ref_multiplier va = ci_ref_multiplier ci" "va_encoding va = ci_encoding ci"
          "va_initial_ref va = int (length ids) * ci_ref_multiplier ci"
          "expected_bytes ci item = int (length f)" "length (ci_lengths ci) = length ids"
        using assms(1) Inr ck that by (auto simp: validate_col_def Let_def split: if_splits)
      have bl: "byte_len va = (\<lambda>l. if ci_encoding ci = ''pickle'' then l else l * item)"
        by (auto simp: byte_len_def va fun_eq_iff)
      have "va_ok (int (length ids)) n va"
        using assms(2) h(1,2) va(8,9) item
        by (auto simp: va_ok_def va(1-7) bl expected_bytes_def sum_list_mult split: if_splits)
      moreover have "va_chunks ids n va = col_chunks ids n ci item f"
        by (simp add: va_chunks_def col_chunks_def va bl)
      ultimately show ?thesis using ci m(3) va(1,9) by (auto simp: va_from_def)
    qed
    with m(1,2) metas' show ?thesis by simp
  qed
qed

lemma validate_cols_spec:
  assumes "validate_cols itemsize (int (length ids)) infos cfs metas = (r, metas')" "ids \<noteq> []"
    "header_ok itemsize n infos" "metas_ok metas"
  shows "metas_ok metas' \<and> (\<forall>c' m. dict_get metas c' = Some m \<longrightarrow> dict_get metas' c' = Some m) \<and>
    (\<forall>vas. r = Ok vas \<longrightarrow> list_all2 (va_from ids n infos metas') cfs vas)"
  using assms
proof (induction cfs arbitrary: metas metas' r)
  case (Cons cf cfs)
  obtain c f where cf: "cf = (c, f)" by (cases cf)
  obtain r1 m1 where v1: "validate_col itemsize (int (length ids)) infos c f metas = (r1, m1)"
    by (cases "validate_col itemsize (int (length ids)) infos c f metas")
  note s1 = validate_col_spec [OF v1 Cons.prems(2,3,4)]
  show ?case
  proof (cases r1)
    case (Inl e)
    then show ?thesis using Cons.prems(1) v1 s1 by (auto simp: cf)
  next
    case (Inr va)
    obtain r2 m2 where v2: "validate_cols itemsize (int (length ids)) infos cfs m1 = (r2, m2)"
      by (cases "validate_cols itemsize (int (length ids)) infos cfs m1")
    have s2: "metas_ok m2" "\<forall>c' m. dict_get m1 c' = Some m \<longrightarrow> dict_get m2 c' = Some m"
        "\<forall>vas. r2 = Ok vas \<longrightarrow> list_all2 (va_from ids n infos m2) cfs vas"
      using Cons.IH [OF v2 Cons.prems(2,3)] s1 by blast+
    have eq: "metas' = m2" "\<forall>vas. r = Ok vas \<longrightarrow> (\<exists>vs. r2 = Ok vs \<and> vas = va # vs)"
      using Cons.prems(1) v1 v2 Inr by (auto simp: cf split: sum.splits)
    have "va_from ids n infos m2 cf va" using s1 s2(2) Inr by (auto simp: va_from_def cf)
    then show ?thesis using s1 s2 eq by auto
  qed
qed auto

text \<open>Applying validated columns with distinct names.\<close>

lemma apply_cols_spec:
  assumes "table_wf F t" "\<forall>va \<in> set vas. va_ok (int (length ids)) (et_n_samples t) va" "distinct (List.map va_col vas)"
  defines "t' \<equiv> foldl (\<lambda>t va. apply_col ids va t) t vas"
  shows "(\<exists>F'. table_wf F' t') \<and> et_n_samples t' = et_n_samples t \<and>
    (\<forall>va \<in> set vas. \<forall>g. stored t' (va_col va) g = (case dict_get (rev (va_chunks ids (et_n_samples t) va)) g of
       Some b \<Rightarrow> Some b | None \<Rightarrow> stored t (va_col va) g)) \<and>
    (\<forall>c g. c \<notin> set (List.map va_col vas) \<longrightarrow> stored t' c g = stored t c g)"
  using assms(1-3) unfolding t'_def
proof (induction vas arbitrary: t F)
  case (Cons va vas)
  have va: "va_ok (int (length ids)) (et_n_samples t) va" using Cons.prems(2) by simp
  let ?t = "apply_col ids va t"
  note a = apply_col_wf(1,2) [OF Cons.prems(1) va]
  note st = stored_apply_col [OF Cons.prems(1) va]
  have "\<forall>v \<in> set vas. va_ok (int (length ids)) (et_n_samples ?t) v" "distinct (List.map va_col vas)"
    using Cons.prems(2,3) a(2) by simp_all
  note IH = Cons.IH [OF a(1) this]
  have "\<forall>v \<in> set vas. va_col v \<noteq> va_col va" using Cons.prems(3) by (simp add: image_iff) metis
  then show ?case
    using IH Cons.prems(3) by (auto simp: a(2) st split: option.splits)
qed auto

text \<open>Taking entries out.\<close>

lemma dict_del_values: "x \<in> set (dict_values (dict_del k d)) \<Longrightarrow> x \<in> set (dict_values d)"
  by (force simp: AList.delete_eq)

lemma prune_entries_spec:
  assumes "foldl (\<lambda>ch g. prune_entry g ch) (d, h) ids = (d', h')" "dict_ok d" "heap_ok F cnt h"
    "\<forall>e \<in> set (dict_values d). entry_ok F k e"
  shows "dict_ok d' \<and> length h' = length h \<and> heap_ok F (\<lambda>s. cnt s + (crefs d' s - crefs d s)) h' \<and>
    (\<forall>e \<in> set (dict_values d'). entry_ok F k e) \<and> dict_get d' = dict_get d |` (- set ids)"
  using assms
proof (induction ids arbitrary: d h cnt)
  case Nil
  then show ?case by simp
next
  case (Cons g ids)
  show ?case
  proof (cases "dict_get d g")
    case None
    then have "foldl (\<lambda>ch g. prune_entry g ch) (d, h) ids = (d', h')"
      using Cons.prems(1) by (simp add: prune_entry_def)
    from Cons.IH [OF this Cons.prems(2,3,4)] None show ?thesis
      by (auto simp: restrict_map_def fun_eq_iff)
  next
    case (Some e)
    let ?d = "dict_del g d" and ?h = "release_at (fst e) h" and ?cnt = "\<lambda>s. cnt s - refs_to s e"
    have st: "foldl (\<lambda>ch g. prune_entry g ch) (?d, ?h) ids = (d', h')"
      using Cons.prems(1) Some by (simp add: prune_entry_def)
    have d: "dict_ok ?d" "\<forall>e \<in> set (dict_values ?d). entry_ok F k e"
      using Cons.prems(2,4) by (simp, metis dict_del_values)
    have h: "heap_ok F ?cnt ?h" by (rule heap_ok_release [OF Cons.prems(3)])
    have IH: "dict_ok d'" "length h' = length ?h" "heap_ok F (\<lambda>s. ?cnt s + (crefs d' s - crefs ?d s)) h'"
        "\<forall>e \<in> set (dict_values d'). entry_ok F k e" "dict_get d' = dict_get ?d |` (- set ids)"
      using Cons.IH [OF st d(1) h d(2)] by blast+
    have cd: "crefs ?d s = crefs d s - refs_to s e" for s
      using dsum_del [OF Cons.prems(2)] Some by (simp add: crefs_def)
    have "heap_ok F (\<lambda>s. cnt s + (crefs d' s - crefs d s)) h'"
      using IH(3) by (rule heap_ok_cong) (simp add: cd)
    moreover have "dict_get d' = dict_get d |` (- set (g # ids))"
      unfolding IH(5) by (auto simp: restrict_map_def fun_eq_iff)
    ultimately show ?thesis using IH by simp
  qed
qed

lemma prune_cols_spec:
  assumes "prune_cols ids cds h = (cds', h')" "heap_ok F cnt h"
    "\<forall>d \<in> set (dict_values cds). dict_ok d \<and> (\<forall>e \<in> set (dict_values d). entry_ok F k e)"
  shows "dict_keys cds' = dict_keys cds \<and> length h' = length h \<and>
    heap_ok F (\<lambda>s. cnt s + (trefs cds' s - trefs cds s)) h' \<and>
    (\<forall>d \<in> set (dict_values cds'). dict_ok d \<and> (\<forall>e \<in> set (dict_values d). entry_ok F k e)) \<and>
    (\<forall>c g. dict_get (dict_get_default c [] cds') g = (if g \<in> set ids then None else dict_get (dict_get_default c [] cds) g))"
  using assms
proof (induction cds arbitrary: h h' cds' cnt)
  case Nil
  then show ?case by (simp add: dict_get_default_def)
next
  case (Cons cd cds)
  obtain c d where cd: "cd = (c, d)" by (cases cd)
  obtain d1 h1 where s1: "foldl (\<lambda>ch g. prune_entry g ch) (d, h) ids = (d1, h1)"
    by (cases "foldl (\<lambda>ch g. prune_entry g ch) (d, h) ids")
  obtain cds2 h2 where s2: "prune_cols ids cds h1 = (cds2, h2)" by (cases "prune_cols ids cds h1")
  have eq: "cds' = (c, d1) # cds2" "h' = h2" using Cons.prems(1) s1 s2 by (simp_all add: cd Let_def)
  have p: "dict_ok d" "\<forall>e \<in> set (dict_values d). entry_ok F k e"
      "\<forall>d \<in> set (dict_values cds). dict_ok d \<and> (\<forall>e \<in> set (dict_values d). entry_ok F k e)"
    using Cons.prems(3) cd by simp_all
  have a: "dict_ok d1" "length h1 = length h" "heap_ok F (\<lambda>s. cnt s + (crefs d1 s - crefs d s)) h1"
      "\<forall>e \<in> set (dict_values d1). entry_ok F k e" "dict_get d1 = dict_get d |` (- set ids)"
    using prune_entries_spec [OF s1 p(1) Cons.prems(2) p(2)] by blast+
  note IH = Cons.IH [OF s2 a(3) p(3)]
  have tr: "trefs ((c, x) # xs) s = crefs x s + trefs xs s" for x xs s by (simp add: trefs_def)
  have "heap_ok F (\<lambda>s. cnt s + (trefs cds' s - trefs (cd # cds) s)) h'"
    unfolding eq(2) using conjunct1 [OF conjunct2 [OF conjunct2 [OF IH]]]
    by (rule heap_ok_cong) (simp add: eq cd tr)
  moreover have "\<forall>j g. dict_get (dict_get_default j [] cds') g =
      (if g \<in> set ids then None else dict_get (dict_get_default j [] (cd # cds)) g)"
    using IH a(5) by (auto simp: eq cd dict_get_default_def restrict_map_def)
  ultimately show ?case using IH a eq cd by simp
qed

lemma prune_spec:
  assumes "table_wf F t"
  shows "table_wf F (prune ids t) \<and> (\<forall>c g. stored (prune ids t) c g = (if g \<in> set ids then None else stored t c g))"
proof -
  obtain cds h where p: "prune_cols ids (et_indices t) (et_heap t) = (cds, h)"
    by (cases "prune_cols ids (et_indices t) (et_heap t)")
  have w: "heap_ok F (trefs (et_indices t)) (et_heap t)"
      "\<forall>d \<in> set (dict_values (et_indices t)). dict_ok d \<and> (\<forall>e \<in> set (dict_values d). entry_ok F (length (et_heap t)) e)"
    using assms by (simp_all add: table_wf_def)
  have s: "dict_keys cds = dict_keys (et_indices t)" "length h = length (et_heap t)"
      "heap_ok F (\<lambda>s. trefs (et_indices t) s + (trefs cds s - trefs (et_indices t) s)) h"
      "\<forall>d \<in> set (dict_values cds). dict_ok d \<and> (\<forall>e \<in> set (dict_values d). entry_ok F (length (et_heap t)) e)"
      "\<And>c g. dict_get (dict_get_default c [] cds) g = (if g \<in> set ids then None else dict_get (dict_get_default c [] (et_indices t)) g)"
    using prune_cols_spec [OF p w] by blast+
  have e: "et_indices (prune ids t) = cds" "et_heap (prune ids t) = h" "et_n_samples (prune ids t) = et_n_samples t"
      "et_col_metas (prune ids t) = et_col_metas t"
    using p by (simp_all add: prune_def Let_def)
  have "heap_ok F (trefs cds) h" using s(3) by (rule heap_ok_cong) simp
  then have wf: "table_wf F (prune ids t)"
    using assms s(1,2,4) by (simp add: table_wf_def e dict_ok_def)
  then show ?thesis using s(5) by (simp add: stored_wf [OF wf] stored_wf [OF assms] e(1))
qed

lemma release_all_spec:
  assumes "heap_ok F cnt h"
  shows "heap_ok F (\<lambda>s. cnt s - sum_list (List.map (refs_to s) es)) (foldl (\<lambda>h e. release_at (fst e) h) h es)"
  using assms
proof (induction es arbitrary: h cnt)
  case (Cons e es)
  from Cons.IH [OF heap_ok_release [OF Cons.prems, of "fst e"]] show ?case
    by (auto simp: algebra_simps elim!: heap_ok_cong)
qed simp

lemma clear_wf:
  assumes "table_wf F t"
  shows "table_wf F (clear_table t)"
proof -
  let ?es = "concat (List.map (\<lambda>(c, d). dict_values d) (et_indices t))"
  have "sum_list (List.map (refs_to s) (concat (List.map (\<lambda>(c, d). dict_values d) cds))) = trefs cds s" for cds s
    by (induction cds) (auto simp: trefs_def crefs_def dsum_def comp_def)
  moreover have "heap_ok F (\<lambda>s. trefs (et_indices t) s - sum_list (List.map (refs_to s) ?es)) (et_heap (clear_table t))"
    unfolding clear_table_def using assms by (simp add: release_all_spec table_wf_def del: map_concat)
  ultimately have "heap_ok F (\<lambda>s. 0) (et_heap (clear_table t))"
    by (auto simp del: map_concat elim!: heap_ok_cong)
  moreover have "trefs [] = (\<lambda>s. 0)" by (simp add: trefs_def fun_eq_iff)
  ultimately show ?thesis using assms by (simp add: table_wf_def clear_table_def)
qed

lemma put_batch_spec:
  assumes wf: "table_wf F t" and hd: "header_ok itemsize (et_n_samples t) infos" "distinct order"
    and put: "put_batch itemsize ids order infos frames t = (r, t')"
  shows "(\<exists>F'. table_wf F' t') \<and> et_n_samples t' = et_n_samples t \<and>
    (case r of Inl _ \<Rightarrow> (\<forall>c g. stored t' c g = stored t c g)
     | Inr _ \<Rightarrow> ids \<noteq> [] \<longrightarrow>
        (\<forall>(c, f) \<in> set (zip order frames). \<exists>ci item dt enc. dict_get infos c = Some ci \<and>
           dict_get (et_col_metas t') c = Some (item, dt, enc) \<and> length (ci_lengths ci) = length ids \<and>
           (\<forall>g. stored t' c g = (case dict_get (rev (col_chunks ids (et_n_samples t) ci item f)) g of
              Some b \<Rightarrow> Some b | None \<Rightarrow> stored t c g))) \<and>
        (\<forall>c g. c \<notin> set order \<longrightarrow> stored t' c g = stored t c g))"
proof -
  let ?n = "et_n_samples t"
  consider (empty) "ids = []" | (short) "ids \<noteq> []" "length frames < length order" | (check) "ids \<noteq> []" "length order \<le> length frames"
    by linarith
  then show ?thesis
  proof cases
    case empty
    then have "r = Ok ()" "t' = t" using put by (simp_all add: put_batch_def)
    then show ?thesis using wf empty by auto
  next
    case short
    then have "\<exists>e. r = Err e" "t' = t" using put by (auto simp: put_batch_def)
    then show ?thesis using wf by auto
  next
    case check
    obtain r1 metas where v: "validate_cols itemsize (int (length ids)) infos (zip order frames) (et_col_metas t) = (r1, metas)"
      by (cases "validate_cols itemsize (int (length ids)) infos (zip order frames) (et_col_metas t)")
    have m0: "metas_ok (et_col_metas t)" using wf by (simp add: table_wf_def metas_ok_def)
    note vs = validate_cols_spec [OF v check(1) hd(1) m0]
    let ?t = "t\<lparr>et_col_metas := metas\<rparr>"
    have wf1: "table_wf F ?t" using wf vs by (simp add: table_wf_def metas_ok_def)
    have st1: "stored ?t = stored t" by (simp add: stored_def fun_eq_iff split: option.split)
    show ?thesis
    proof (cases r1)
      case (Inl e)
      then have "r = Err e" "t' = ?t" using put check v by (auto simp: put_batch_def)
      then show ?thesis using wf1 st1 by auto
    next
      case (Inr vas)
      then have r: "r = Ok ()" and t': "t' = foldl (\<lambda>t va. apply_col ids va t) ?t vas"
        using put check v by (auto simp: put_batch_def)
      have va: "list_all2 (va_from ids ?n infos metas) (zip order frames) vas" using vs Inr by blast
      have cols: "List.map va_col vas = order"
      proof -
        have "List.map va_col vas = List.map fst (zip order frames)"
          using va by (induction rule: list_all2_induct) (auto simp: va_from_def)
        then show ?thesis using check(2) by (simp add: map_fst_zip_take)
      qed
      have vok: "\<forall>va \<in> set vas. va_ok (int (length ids)) (et_n_samples ?t) va"
        using va by (induction rule: list_all2_induct) (auto simp: va_from_def)
      have has: "\<forall>va \<in> set vas. dict_has (va_col va) metas"
        using va by (induction rule: list_all2_induct) (auto simp: va_from_def dict_has_def)
      have metas': "et_col_metas (foldl (\<lambda>t va. apply_col ids va t) u vas) = metas" if "et_col_metas u = metas" for u
        using that has
      proof (induction vas arbitrary: u)
        case (Cons x xs)
        then have "et_col_metas (apply_col ids x u) = metas" by (simp add: apply_col_def Let_def split: prod.split)
        with Cons show ?case by simp
      qed simp
      have "distinct (List.map va_col vas)" using hd(2) by (simp add: cols)
      note ap = apply_cols_spec [OF wf1 vok this, folded t']
      have "\<exists>ci item dt enc. dict_get infos c = Some ci \<and> dict_get (et_col_metas t') c = Some (item, dt, enc) \<and>
           length (ci_lengths ci) = length ids \<and> (\<forall>g. stored t' c g = (case dict_get (rev (col_chunks ids ?n ci item f)) g of
              Some b \<Rightarrow> Some b | None \<Rightarrow> stored t c g))" if cf: "(c, f) \<in> set (zip order frames)" for c f
      proof -
        obtain i where i: "i < length (zip order frames)" "zip order frames ! i = (c, f)"
          using cf by (metis in_set_conv_nth)
        let ?va = "vas ! i"
        have "va_from ids ?n infos metas (c, f) ?va" "?va \<in> set vas"
          using va i by (metis list_all2_conv_all_nth, metis list_all2_lengthD nth_mem)
        then obtain ci item dt enc where x: "va_col ?va = c" "dict_get infos c = Some ci"
            "dict_get metas c = Some (item, dt, enc)" "va_chunks ids ?n ?va = col_chunks ids ?n ci item f"
            "length (ci_lengths ci) = length ids"
          by (auto simp: va_from_def)
        then have "\<forall>g. stored t' c g = (case dict_get (rev (col_chunks ids ?n ci item f)) g of
              Some b \<Rightarrow> Some b | None \<Rightarrow> stored t c g)"
          using ap \<open>?va \<in> set vas\<close> unfolding st1 by auto
        then show ?thesis using x metas' [of ?t] by (auto simp: t')
      qed
      then show ?thesis using ap by (auto simp: r st1 cols)
    qed
  qed
qed

text \<open>The ids a column is stored under.\<close>

lemma member_of_group: "0 < n \<Longrightarrow> g \<in> set (group_members n g)"
proof -
  assume n: "0 < n"
  have "nat (g mod n) \<in> set [0..<nat n]" using n by simp
  then have "g div n * n + int (nat (g mod n)) \<in> set (group_members n g)"
    unfolding group_members_def set_map by (rule imageI)
  then show ?thesis using n by simp
qed

lemma length_cut [simp]: "length (cut ls f) = length ls"
  by (induction ls arbitrary: f) auto

lemma col_chunks_keys:
  assumes "length (ci_lengths ci) = length ids"
  shows "set (dict_keys (col_chunks ids n ci item f)) =
    (if 1 < ci_ref_multiplier ci then (\<Union>g \<in> set ids. set (group_members n g)) else set ids)"
proof -
  let ?z = "zip ids (cut (List.map (\<lambda>l. if ci_encoding ci = ''pickle'' then l else l * item) (ci_lengths ci)) f)"
  have z: "List.map fst ?z = ids" using assms by simp
  have "set (dict_keys (expand m n gxs)) = (if 1 < m then (\<Union>g \<in> set (List.map fst gxs). set (group_members n g)) else set (List.map fst gxs))"
    for m and gxs :: "(int \<times> byte list) list"
    by (force simp: expand_def)
  then show ?thesis unfolding col_chunks_def chunks_def z by (simp only: z)
qed

lemma put_batch_keys:
  assumes "table_wf F t" "header_ok itemsize (et_n_samples t) infos" "distinct order" "ids \<noteq> []"
    and "put_batch itemsize ids order infos frames t = (Ok (), t')" and c: "c \<in> set order"
  shows "\<exists>ci. dict_get infos c = Some ci \<and> (\<forall>g. g \<in> (if 1 < ci_ref_multiplier ci
    then (\<Union>i \<in> set ids. set (group_members (et_n_samples t) i)) else set ids) \<longrightarrow> stored t' c g \<noteq> None)"
proof -
  have "length order \<le> length frames" using assms(4,5) by (auto simp: put_batch_def split: if_splits)
  then have "c \<in> set (List.map fst (zip order frames))" using c by (simp add: map_fst_zip_take)
  then obtain f where cf: "(c, f) \<in> set (zip order frames)" by auto
  have "\<forall>(c, f) \<in> set (zip order frames). \<exists>ci item dt enc. dict_get infos c = Some ci \<and>
           dict_get (et_col_metas t') c = Some (item, dt, enc) \<and> length (ci_lengths ci) = length ids \<and>
           (\<forall>g. stored t' c g = (case dict_get (rev (col_chunks ids (et_n_samples t) ci item f)) g of
              Some b \<Rightarrow> Some b | None \<Rightarrow> stored t c g))"
    using put_batch_spec [OF assms(1,2,3,5)] assms(4) by simp
  then obtain ci item where ci: "dict_get infos c = Some ci" "length (ci_lengths ci) = length ids"
      "\<forall>g. stored t' c g = (case dict_get (rev (col_chunks ids (et_n_samples t) ci item f)) g of
              Some b \<Rightarrow> Some b | None \<Rightarrow> stored t c g)" using cf by blast
  have "stored t' c g \<noteq> None" if "g \<in> set (dict_keys (col_chunks ids (et_n_samples t) ci item f))" for g
  proof -
    have "g \<in> set (dict_keys (rev (col_chunks ids (et_n_samples t) ci item f)))" using that by simp
    then have "dict_get (rev (col_chunks ids (et_n_samples t) ci item f)) g \<noteq> None"
      unfolding map_of_eq_None_iff by simp
    then show ?thesis using ci(3) by auto
  qed
  then show ?thesis using ci(1) col_chunks_keys [OF ci(2)] by auto
qed

section \<open>Reading\<close>

lemma slice_assign_fill:
  assumes "0 \<le> cursor" "0 \<le> len" "int (length dest) = cursor + len + rest" "0 \<le> rest" "int (length bs) = len"
  shows "take (nat (cursor + len)) (slice_assign dest cursor (cursor + len) bs) = take (nat cursor) dest @ bs \<and>
    int (length (slice_assign dest cursor (cursor + len) bs)) = int (length dest)"
  using assms by (simp add: slice_assign_def slice_bound_def Let_def nat_add_distrib)

lemma copy_entries_spec:
  assumes "\<forall>e \<in> set es. entry_ok F k e \<and> sg_frame (h ! fst e) = Some (F (fst e))"
    "0 \<le> cursor" "int (length dest) = cursor + sum_list (List.map (\<lambda>e. snd (snd e)) es)"
  shows "copy_entries h es cursor dest = Ok (take (nat cursor) dest @ concat (List.map (\<lambda>e. cut_entry (F (fst e)) e) es))"
  using assms
proof (induction es arbitrary: cursor dest)
  case (Cons e es)
  obtain s off len where e: "e = (s, off, len)" by (cases e)
  have ok: "0 \<le> off" "0 \<le> len" "off + len \<le> int (length (F s))" "sg_frame (h ! s) = Some (F s)"
    using Cons.prems(1) by (auto simp: e entry_ok_def)
  let ?rest = "sum_list (List.map (\<lambda>e. snd (snd e)) es)"
  have rest: "0 \<le> ?rest" using Cons.prems(1) by (intro sum_list_nonneg) (auto simp: entry_ok_def)
  have sl: "py_slice_list (F s) off (off + len) = cut_entry (F s) e"
    using ok by (simp add: py_slice_list_in cut_entry_def e)
  have len: "int (length (cut_entry (F s) e)) = len" using ok by (simp add: cut_entry_def e)
  let ?d = "slice_assign dest cursor (cursor + len) (cut_entry (F s) e)"
  have d: "take (nat (cursor + len)) ?d = take (nat cursor) dest @ cut_entry (F s) e" "int (length ?d) = int (length dest)"
    using slice_assign_fill [OF Cons.prems(2) ok(2) _ rest len, of dest] Cons.prems(3) by (simp_all add: e add.assoc)
  have "copy_entries h es (cursor + len) ?d = Ok (take (nat (cursor + len)) ?d @ concat (List.map (\<lambda>e. cut_entry (F (fst e)) e) es))"
    using Cons.prems d(2) ok(2) by (intro Cons.IH) (simp_all add: e)
  then show ?case using ok(4) sl d(1) by (simp add: e)
qed simp

lemma entry_len: "entry_ok F k e \<Longrightarrow> int (length (cut_entry (F (fst e)) e)) = snd (snd e)"
  by (auto simp: entry_ok_def cut_entry_def)

lemma map_res_missing: "(\<exists>x \<in> set xs. f x = Err err) \<Longrightarrow> (\<And>x. x \<in> set xs \<Longrightarrow> f x = Err err \<or> (\<exists>y. f x = Ok y)) \<Longrightarrow>
    map_res f xs = Err err"
proof (induction xs)
  case (Cons x xs)
  show ?case
  proof (cases "f x")
    case (Inl e) then show ?thesis using Cons.prems(2) [of x] by simp
  next
    case (Inr y)
    then have "map_res f xs = Err err" using Cons by simp
    then show ?thesis by (simp add: Inr)
  qed
qed simp

lemma get_col_spec:
  assumes wf: "table_wf F t"
  shows "get_col ids c t = (case dict_get (et_col_metas t) c of
      None \<Rightarrow> Err (KeyError ''Column not found'')
    | Some (item, dt, enc) \<Rightarrow>
       (if dict_get (et_indices t) c = None then Err (KeyError ''Column index is empty or missing'')
        else if \<exists>g \<in> set ids. stored t c g = None then Err (KeyError ''Global ID missing'')
        else Ok (\<lparr>cr_lengths = List.map (\<lambda>g. let b = int (length (the (stored t c g))) in if enc = ''pickle'' then b else b div item) ids,
                  cr_dtype = dt, cr_encoding = enc,
                  cr_shapes = List.map (\<lambda>g. case dict_get (et_col_shapes t) c of None \<Rightarrow> None
                    | Some ss \<Rightarrow> (case dict_get ss g of None \<Rightarrow> None | Some s \<Rightarrow> s)) ids\<rparr>,
                 concat (List.map (\<lambda>g. the (stored t c g)) ids))))"
proof (cases "dict_get (et_col_metas t) c")
  case None
  then show ?thesis by (simp add: get_col_def)
next
  case m: (Some meta)
  obtain item dt enc where meta: "meta = (item, dt, enc)" by (cases meta)
  have item: "item \<noteq> 0" using wf m meta metas_ok_get [of "et_col_metas t" c item dt enc] by (simp add: table_wf_def metas_ok_def)
  show ?thesis
  proof (cases "dict_get (et_indices t) c")
    case None
    then show ?thesis by (simp add: get_col_def m meta)
  next
    case d: (Some d)
    then have dd: "dict_get_default c [] (et_indices t) = d" by (simp add: dict_get_default_def)
    have st: "stored t c g = map_option (\<lambda>e. cut_entry (F (fst e)) e) (dict_get d g)" for g
      using stored_wf [OF wf, of c g] dd by simp
    let ?f = "\<lambda>g. case dict_get d g of None \<Rightarrow> Err (KeyError ''Global ID missing'') | Some e \<Rightarrow> Ok e"
    show ?thesis
    proof (cases "\<exists>g \<in> set ids. dict_get d g = None")
      case True
      then obtain g where "g \<in> set ids" "?f g = Err (KeyError ''Global ID missing'')" by auto
      then have "map_res ?f ids = Err (KeyError ''Global ID missing'')"
        by (intro map_res_missing) (blast, auto split: option.splits)
      then show ?thesis using True d by (simp add: get_col_def m meta st)
    next
      case False
      define es where "es = List.map (\<lambda>g. the (dict_get d g)) ids"
      have some: "dict_get d g = Some (the (dict_get d g))" if "g \<in> set ids" for g using False that by fastforce
      then have m1: "map_res ?f ids = Ok es"
        unfolding es_def by (intro map_res_all_Ok) (metis option.simps(5))
      have es: "\<forall>e \<in> set es. entry_ok F (length (et_heap t)) e \<and> sg_frame (et_heap t ! fst e) = Some (F (fst e))"
      proof
        fix e assume "e \<in> set es"
        then obtain g where g: "dict_get d g = Some e" using some by (auto simp: es_def)
        have "entry_ok F (length (et_heap t)) e"
          using wf ran_value [OF d] ran_value [OF g] unfolding table_wf_def by blast
        then show "entry_ok F (length (et_heap t)) e \<and> sg_frame (et_heap t ! fst e) = Some (F (fst e))"
          using wf entry_counted [OF d g] by (auto simp: table_wf_def heap_ok_def entry_ok_def)
      qed
      have sum: "0 \<le> sum_list (List.map (\<lambda>e. snd (snd e)) es)"
        using es by (intro sum_list_nonneg) (auto simp: entry_ok_def)
      let ?len = "\<lambda>e. if enc = ''pickle'' then snd (snd e) else snd (snd e) div item"
      have m2: "map_res (\<lambda>e. if enc = ''pickle'' then Ok (snd (snd e))
            else if item = 0 then Err ZeroDivisionError else Ok (snd (snd e) div item)) es = Ok (List.map ?len es)"
        by (rule map_res_all_Ok) (simp add: item)
      have cp: "copy_entries (et_heap t) es 0 (replicate (nat (sum_list (List.map (\<lambda>e. snd (snd e)) es))) 0)
          = Ok (concat (List.map (\<lambda>e. cut_entry (F (fst e)) e) es))"
        using copy_entries_spec [OF es, of 0] sum by simp
      have fr: "concat (List.map (\<lambda>e. cut_entry (F (fst e)) e) es) = concat (List.map (\<lambda>g. the (stored t c g)) ids)"
        unfolding es_def using False by (auto simp: st option.map_sel intro!: arg_cong [of _ _ concat])
      have ln: "List.map ?len es = List.map (\<lambda>g. let b = int (length (the (stored t c g))) in if enc = ''pickle'' then b else b div item) ids"
      proof -
        have "snd (snd (the (dict_get d g))) = int (length (the (stored t c g)))" if "g \<in> set ids" for g
          using es some [OF that] that entry_len [of F "length (et_heap t)" "the (dict_get d g)"]
          by (cases "dict_get d g") (auto simp: st es_def)
        then show ?thesis by (simp add: es_def Let_def)
      qed
      have "\<not> (\<exists>g \<in> set ids. stored t c g = None)" using False by (simp add: st)
      then show ?thesis using m1 m2 cp fr ln d by (simp add: get_col_def m meta del: bind_res_Ok)
    qed
  qed
qed

lemma get_batch_spec:
  assumes "table_wf F t"
  shows "case get_batch ids cols t of
      Inr (res, frames) \<Rightarrow> frames = List.map (\<lambda>c. concat (List.map (\<lambda>g. the (stored t c g)) ids)) cols \<and>
        dict_keys res = cols \<and> (\<forall>c \<in> set cols. \<forall>g \<in> set ids. stored t c g \<noteq> None)
    | Inl e \<Rightarrow> \<exists>c \<in> set cols. dict_get (et_col_metas t) c = None \<or> dict_get (et_indices t) c = None \<or>
        (\<exists>g \<in> set ids. stored t c g = None)"
proof -
  have one: "case get_col ids c t of
      Inr (res, frame) \<Rightarrow> frame = concat (List.map (\<lambda>g. the (stored t c g)) ids) \<and> (\<forall>g \<in> set ids. stored t c g \<noteq> None)
    | Inl e \<Rightarrow> dict_get (et_col_metas t) c = None \<or> dict_get (et_indices t) c = None \<or> (\<exists>g \<in> set ids. stored t c g = None)" for c
    unfolding get_col_spec [OF assms] by (auto split: option.splits)
  have "case map_res (\<lambda>c. get_col ids c t) cs of
      Inr rs \<Rightarrow> List.map snd rs = List.map (\<lambda>c. concat (List.map (\<lambda>g. the (stored t c g)) ids)) cs \<and> length rs = length cs \<and>
        (\<forall>c \<in> set cs. \<forall>g \<in> set ids. stored t c g \<noteq> None)
    | Inl e \<Rightarrow> \<exists>c \<in> set cs. dict_get (et_col_metas t) c = None \<or> dict_get (et_indices t) c = None \<or>
        (\<exists>g \<in> set ids. stored t c g = None)" for cs
  proof (induction cs)
    case (Cons c cs)
    then show ?case using one [of c]
      by (auto simp: bind_res_def split: sum.splits)
  qed simp
  from this [of cols] show ?thesis
    by (auto simp: get_batch_def bind_res_def split: sum.splits)
qed

section \<open>Reachable tables\<close>

text \<open>What a shard does to a table, with the headers its clients send.\<close>

inductive table_reach :: "(string \<Rightarrow> int result) \<Rightarrow> experience_table \<Rightarrow> bool" for itemsize where
  init: "table_init n columns = Ok t \<Longrightarrow> table_reach itemsize t"
| put: "\<lbrakk>table_reach itemsize t; header_ok itemsize (et_n_samples t) infos; distinct order;
      put_batch itemsize ids order infos frames t = (r, t')\<rbrakk> \<Longrightarrow> table_reach itemsize t'"
| prune: "table_reach itemsize t \<Longrightarrow> table_reach itemsize (prune ids t)"
| clear: "table_reach itemsize t \<Longrightarrow> table_reach itemsize (clear_table t)"
| own: "table_reach itemsize t \<Longrightarrow> table_reach itemsize (t\<lparr>et_owned_groups := et_owned_groups t \<union> gs\<rparr>)"

lemma table_reach_wf: "table_reach itemsize t \<Longrightarrow> \<exists>F. table_wf F t"
proof (induction rule: table_reach.induct)
  case (init n columns t)
  then show ?case
    by (auto simp: table_init_def table_wf_def heap_ok_def split: if_splits)
next
  case (put t infos order ids frames r t')
  then show ?case using put_batch_spec by blast
next
  case (prune t ids)
  then show ?case using prune_spec by blast
next
  case (clear t)
  then show ?case using clear_wf by blast
next
  case (own t gs)
  then show ?case by (auto simp: table_wf_def)
qed

definition entries_of :: "experience_table \<Rightarrow> entry list" where
  "entries_of t = concat (List.map (\<lambda>(c, d). dict_values d) (et_indices t))"

lemma segment_counts:
  assumes "table_reach itemsize t" "s < length (et_heap t)"
  shows "sg_ref (et_heap t ! s) =
      int (length (filter (\<lambda>e. fst e = s) (entries_of t))) \<and>
    (sg_frame (et_heap t ! s) = None \<longleftrightarrow> s \<notin> set (List.map fst (entries_of t)))"
proof -
  obtain F where "table_wf F t" using table_reach_wf [OF assms(1)] by blast
  then have h: "sg_ref (et_heap t ! s) = trefs (et_indices t) s"
      "sg_frame (et_heap t ! s) = (if trefs (et_indices t) s \<le> 0 then None else Some (F s))"
    using assms(2) by (auto simp: table_wf_def heap_ok_def)
  have cr: "crefs d s = int (length (filter (\<lambda>e. fst e = s) (dict_values d)))" for d
    by (induction d) (auto simp: crefs_def)
  have tr: "trefs cds s = int (length (filter (\<lambda>e. fst e = s) (concat (List.map (\<lambda>(c, d). dict_values d) cds))))" for cds
    by (induction cds) (auto simp: trefs_def cr)
  show ?thesis using h unfolding tr entries_of_def [symmetric]
    by (force simp: filter_empty_conv)
qed

text \<open>
  C18. Reference counts are exact: in every table a shard can reach, the count of each segment is
  the number of index entries that point to it, and its frame is released exactly when there are
  none; so no stored sample ever points into released memory, and pruning every sample of a batch
  releases it.
\<close>

theorem refcounts_exact:
  assumes "table_reach itemsize t" "s < length (et_heap t)"
  shows "sg_ref (et_heap t ! s) =
      int (length (filter (\<lambda>e. fst e = s) (entries_of t))) \<and>
    (sg_frame (et_heap t ! s) = None \<longleftrightarrow> s \<notin> set (List.map fst (entries_of t)))"
  using assms by (rule segment_counts)

definition demo_itemsize :: "string \<Rightarrow> int result" where
  "demo_itemsize d = (if d = ''int16'' then Ok 2 else if d = ''uint8'' then Ok 1 else Err (TypeError ''data type not understood''))"

definition demo_table :: experience_table where
  "demo_table = \<lparr>et_n_samples = 2, et_columns = [''prompt'', ''reward''], et_indices = [], et_col_metas = [],
     et_col_shapes = [], et_owned_groups = {}, et_heap = []\<rparr>"

definition demo_infos :: "(string, col_info) dict" where
  "demo_infos = [(''prompt'', \<lparr>ci_ref_multiplier = 2, ci_lengths = [2, 1], ci_dtype = ''uint8'', ci_encoding = ''raw'', ci_shapes = None\<rparr>),
     (''reward'', \<lparr>ci_ref_multiplier = 1, ci_lengths = [1, 1], ci_dtype = ''int16'', ci_encoding = ''raw'', ci_shapes = None\<rparr>)]"

definition demo_filled :: experience_table where
  "demo_filled = snd (put_batch demo_itemsize [0, 2] [''prompt'', ''reward''] demo_infos [[7, 8, 9], [1, 0, 2, 0]] demo_table)"

lemma demo_table_reach: "table_reach demo_itemsize demo_table"
  by (rule table_reach.init [of 2 "[''prompt'', ''reward'']"]) (simp add: table_init_def demo_table_def)

lemma demo_header_ok: "header_ok demo_itemsize (et_n_samples demo_table) demo_infos"
  by (simp add: header_ok_def demo_infos_def demo_itemsize_def demo_table_def)

lemma demo_filled_reach: "table_reach demo_itemsize demo_filled"
  unfolding demo_filled_def
  by (rule table_reach.put [OF demo_table_reach demo_header_ok _ prod.collapse [symmetric]]) simp

lemma demo_filled_heap: "length (et_heap demo_filled) = 2"
  by (simp add: demo_filled_def demo_table_def demo_infos_def demo_itemsize_def put_batch_def validate_col_def
      dict_index_def check_meta_def expected_bytes_def apply_col_def col_entries_def byte_len_def expand_def
      group_members_def put_entry_def upt_rec dict_get_default_def Let_def)

theorem refcounts_exact_witness:
  "sg_ref (et_heap demo_filled ! 0) = int (length (filter (\<lambda>e. fst e = 0) (entries_of demo_filled)))"
  using refcounts_exact [OF demo_filled_reach, of 0] demo_filled_heap by simp

text \<open>
  C15. Writing refines the abstract table: an accepted batch stores, for each of its columns, the
  consecutive pieces of the column's frame under the ids of the batch (under the whole prompt
  group for a shared column, a later id winning over an earlier one) and changes nothing else; a
  rejected batch changes no stored value.
\<close>

theorem put_batch_refines:
  assumes "table_reach itemsize t" "header_ok itemsize (et_n_samples t) infos" "distinct order" "ids \<noteq> []"
    and "put_batch itemsize ids order infos frames t = (r, t')"
  shows "case r of Inl _ \<Rightarrow> (\<forall>c g. stored t' c g = stored t c g)
     | Inr _ \<Rightarrow>
        (\<forall>(c, f) \<in> set (zip order frames). \<exists>ci item dt enc. dict_get infos c = Some ci \<and>
           dict_get (et_col_metas t') c = Some (item, dt, enc) \<and> length (ci_lengths ci) = length ids \<and>
           (\<forall>g. stored t' c g = (case dict_get (rev (col_chunks ids (et_n_samples t) ci item f)) g of
              Some b \<Rightarrow> Some b | None \<Rightarrow> stored t c g))) \<and>
        (\<forall>c g. c \<notin> set order \<longrightarrow> stored t' c g = stored t c g)"
proof -
  obtain F where "table_wf F t" using table_reach_wf [OF assms(1)] by blast
  from put_batch_spec [OF this assms(2,3,5)] assms(4) show ?thesis by (simp split: sum.splits)
qed

lemma demo_put: "put_batch demo_itemsize [0, 2] [''prompt'', ''reward''] demo_infos [[7, 8, 9], [1, 0, 2, 0]] demo_table
    = (Ok (), demo_filled)"
  by (simp add: demo_filled_def demo_table_def demo_infos_def demo_itemsize_def put_batch_def validate_col_def
      dict_index_def check_meta_def expected_bytes_def Let_def)

theorem put_batch_refines_witness:
  "stored demo_filled ''other'' 0 = stored demo_table ''other'' 0"
  using put_batch_refines [OF demo_table_reach demo_header_ok _ _ demo_put] by simp

text \<open>
  Reading returns what is stored: a read of some columns at some ids gives one frame for each
  column, the stored values of the ids in the order asked, with no byte added or lost; it fails
  only when a column has never been written or an id is missing from it, never on released memory.
\<close>

theorem get_batch_returns_stored:
  assumes "table_reach itemsize t"
  shows "case get_batch ids cols t of
      Inr (res, frames) \<Rightarrow> frames = List.map (\<lambda>c. concat (List.map (\<lambda>g. the (stored t c g)) ids)) cols \<and>
        dict_keys res = cols \<and> (\<forall>c \<in> set cols. \<forall>g \<in> set ids. stored t c g \<noteq> None)
    | Inl e \<Rightarrow> \<exists>c \<in> set cols. dict_get (et_col_metas t) c = None \<or> dict_get (et_indices t) c = None \<or>
        (\<exists>g \<in> set ids. stored t c g = None)"
proof -
  obtain F where "table_wf F t" using table_reach_wf [OF assms] by blast
  then show ?thesis by (rule get_batch_spec)
qed

lemma demo_get: "get_batch [3, 0] [''prompt''] demo_filled = Ok ([(''prompt'',
    \<lparr>cr_lengths = [1, 2], cr_dtype = ''uint8'', cr_encoding = ''raw'', cr_shapes = [None, None]\<rparr>)], [[9, 7, 8]])"
  by (simp add: demo_filled_def demo_table_def demo_infos_def demo_itemsize_def put_batch_def validate_col_def
      dict_index_def check_meta_def expected_bytes_def apply_col_def col_entries_def byte_len_def expand_def
      group_members_def put_entry_def upt_rec dict_get_default_def get_batch_def get_col_def slice_assign_def
      py_slice_list_def slice_bound_def new_segment_def Let_def)

theorem get_batch_returns_stored_witness:
  "the (stored demo_filled ''prompt'' 3) @ the (stored demo_filled ''prompt'' 0) = [9, 7, 8]"
  using get_batch_returns_stored [OF demo_filled_reach, where ids = "[3, 0]" and cols = "[''prompt'']"] by (simp add: demo_get)

text \<open>
  Pruning forgets exactly the given samples, in every column, and releases what only they
  used; every other sample keeps its value.
\<close>

theorem prune_forgets:
  assumes "table_reach itemsize t"
  shows "(\<forall>c g. stored (prune ids t) c g = (if g \<in> set ids then None else stored t c g)) \<and>
    (\<forall>s < length (et_heap (prune ids t)). sg_frame (et_heap (prune ids t) ! s) = None \<longleftrightarrow>
       s \<notin> set (List.map fst (entries_of (prune ids t))))"
proof -
  obtain F where F: "table_wf F t" using table_reach_wf [OF assms] by blast
  show ?thesis using prune_spec [OF F] segment_counts [OF table_reach.prune [OF assms]] by simp
qed

theorem prune_forgets_witness:
  "stored (prune [0, 1] demo_filled) ''prompt'' 1 = None \<and>
   stored (prune [0, 1] demo_filled) ''prompt'' 3 = stored demo_filled ''prompt'' 3"
  using prune_forgets [OF demo_filled_reach, of "[0, 1]"] by simp

text \<open>
  A rejected first batch still fixes the column's element type: when the frame of a new column
  has the wrong size the batch is rejected, but a correct batch with another element type is
  rejected from then on as well.
\<close>

theorem rejected_batch_fixes_dtype:
  assumes "dict_get (et_col_metas t) c = None" "ci_encoding ci = ''raw''" "itemsize (ci_dtype ci) = Ok k"
    "expected_bytes ci k \<noteq> int (length f)" "ids \<noteq> []"
    and "ci_encoding ci' = ''raw''" "ci_dtype ci' \<noteq> ci_dtype ci" "ids' \<noteq> []"
  shows "\<exists>t'. put_batch itemsize ids [c] [(c, ci)] [f] t = (Err (ValueError ''Size Mismatch''), t') \<and>
    fst (put_batch itemsize ids' [c] [(c, ci')] [f'] t') = Err (ValueError ''Dtype mismatch'')"
  using assms
  by (simp add: put_batch_def validate_col_def dict_index_def check_meta_def dict_has_def map_add_def Let_def)

theorem rejected_batch_fixes_dtype_witness:
  "\<exists>t'. put_batch demo_itemsize [0] [''reward''] [(''reward'', \<lparr>ci_ref_multiplier = 1, ci_lengths = [3],
        ci_dtype = ''int16'', ci_encoding = ''raw'', ci_shapes = None\<rparr>)] [[1, 0]] demo_table
      = (Err (ValueError ''Size Mismatch''), t') \<and>
    fst (put_batch demo_itemsize [0] [''reward''] [(''reward'', \<lparr>ci_ref_multiplier = 1, ci_lengths = [2],
        ci_dtype = ''uint8'', ci_encoding = ''raw'', ci_shapes = None\<rparr>)] [[1, 0]] t') = Err (ValueError ''Dtype mismatch'')"
  by (rule rejected_batch_fixes_dtype [where k = 2]) (simp_all add: demo_table_def demo_itemsize_def expected_bytes_def)

end
