(* ===== verification/TQShard.thy ===== *)
theory TQShard
  imports TQTable
begin

text \<open>
  A data shard (\<open>transfer_queue/tq_data.py\<close>): its tables by topic, and the requests it answers on
  its router socket. A request is what \<open>_process_message\<close> sees after unpickling; a put also says
  what the shard then tells the manager (\<open>update_data_status\<close>). A table that is dropped is
  cleared in the background; nothing refers to it any more. A failed notification is only logged.
\<close>

section \<open>State and table operations\<close>

record shard =
  sh_id :: nat
  sh_tables :: "(string, experience_table) dict"
  sh_running :: bool

definition shard_init :: "nat \<Rightarrow> shard" where
  "shard_init i = \<lparr>sh_id = i, sh_tables = [], sh_running = True\<rparr>"

definition add_experience_table :: "string \<Rightarrow> int \<Rightarrow> string list \<Rightarrow> shard \<Rightarrow> unit result \<times> shard" where
  "add_experience_table topic n columns s =
     (if dict_has topic (sh_tables s) then (Err (ValueError ''Topic already exists''), s)
      else case table_init n columns of
        Inl e \<Rightarrow> (Err e, s)
      | Inr t \<Rightarrow> (Ok (), s\<lparr>sh_tables := dict_set topic t (sh_tables s)\<rparr>))"

definition remove_experience_table :: "string \<Rightarrow> shard \<Rightarrow> shard" where
  "remove_experience_table topic s =
     (if dict_has topic (sh_tables s) then s\<lparr>sh_tables := dict_del topic (sh_tables s)\<rparr> else s)"

definition clear_experience_table :: "string \<Rightarrow> shard \<Rightarrow> unit result \<times> shard" where
  "clear_experience_table topic s = (case dict_get (sh_tables s) topic of
      None \<Rightarrow> (Err (ValueError ''Unknown topic''), s)
    | Some old \<Rightarrow> (case table_init (et_n_samples old) (et_columns old) of
        Inl e \<Rightarrow> (Err e, s)
      | Inr t \<Rightarrow> (Ok (), s\<lparr>sh_tables := dict_set topic t (sh_tables s)\<rparr>)))"

text \<open>The groups of which not all members are given.\<close>

definition incomplete_ids :: "int \<Rightarrow> int list \<Rightarrow> int list" where
  "incomplete_ids n indexes =
     concat (dict_values (filter (\<lambda>(k, xs). int (card (set xs)) \<noteq> n) (group_by (\<lambda>i. i div n) indexes)))"

definition prune_experience_table :: "string \<Rightarrow> int list \<Rightarrow> bool \<Rightarrow> shard \<Rightarrow> unit result \<times> shard" where
  "prune_experience_table topic indexes check_n_samples s = (case dict_get (sh_tables s) topic of
      None \<Rightarrow> (Err (ValueError ''Unknown topic''), s)
    | Some t \<Rightarrow>
       (if indexes = [] then (Err (ValueError ''Indexes must be provided for prune_topic_by_indexes''), s)
        else let n = et_n_samples t; groups = dict_keys (group_by (\<lambda>i. i div n) indexes)
          in if check_n_samples \<and> incomplete_ids n indexes \<noteq> []
             then (Err (ValueError ''incomplete for prompt groups''), s)
             else if check_n_samples \<and> filter (\<lambda>g. g \<notin> et_owned_groups t) groups \<noteq> []
             then (Err (ValueError ''group_ids not in the shard''), s)
             else (Ok (), s\<lparr>sh_tables := dict_set topic (prune indexes t) (sh_tables s)\<rparr>)))"

definition update_owned_groups :: "string \<Rightarrow> int list \<Rightarrow> shard \<Rightarrow> unit result \<times> shard" where
  "update_owned_groups topic group_ids s = (case dict_get (sh_tables s) topic of
      None \<Rightarrow> (Err (ValueError ''Unknown topic''), s)
    | Some t \<Rightarrow> (Ok (), s\<lparr>sh_tables := dict_set topic (t\<lparr>et_owned_groups := et_owned_groups t \<union> set group_ids\<rparr>) (sh_tables s)\<rparr>))"

text \<open>The storage of a column: for each segment the largest end of its entries.\<close>

definition column_bytes :: "col_index \<Rightarrow> int" where
  "column_bytes d = sum_list (dict_values (foldl (\<lambda>acc (g, (seg, off, len)).
      dict_set seg (max (dict_get_default seg 0 acc) (off + len)) acc) [] d))"

definition get_all_columns_storage_bytes :: "string \<Rightarrow> shard \<Rightarrow> (string, int) dict result" where
  "get_all_columns_storage_bytes topic s = (case dict_get (sh_tables s) topic of
      None \<Rightarrow> Err (ValueError ''Unknown topic'')
    | Some t \<Rightarrow> Ok (List.map (\<lambda>(c, d). (c, column_bytes d)) (et_indices t)))"

definition shard_reset_all :: "shard \<Rightarrow> shard" where
  "shard_reset_all s = foldl (\<lambda>s topic. remove_experience_table topic s) s (dict_keys (sh_tables s))"

definition shard_shutdown :: "shard \<Rightarrow> shard" where
  "shard_shutdown s = s\<lparr>sh_running := False\<rparr>"

text \<open>\<open>get_values\<close> reads \<open>tbl.data\<close>, which a table does not have.\<close>

definition get_values :: "string \<Rightarrow> string \<Rightarrow> int list \<Rightarrow> shard \<Rightarrow> byte list list result" where
  "get_values topic column ids s = (case dict_get (sh_tables s) topic of
      None \<Rightarrow> Err (KeyError topic)
    | Some t \<Rightarrow> if ids = [] then Ok [] else Err (AttributeError ''ExperienceTable object has no attribute data''))"

section \<open>Requests\<close>

record put_header =
  ph_topic :: "string option"
  ph_indexes :: "int list"
  ph_order :: "string list"
  ph_columns :: "(string, col_info) dict"

record get_header =
  gh_topic :: "string option"
  gh_indexes :: "int list"
  gh_columns :: "string list"

datatype tq_request =
    Short_message
  | Put put_header "byte list list"
  | Get get_header
  | Other_command

datatype tq_reply =
    Ack
  | Values "(string \<times> col_result) list" "byte list list"
  | Unknown_command
  | Failed py_error

text \<open>What the manager is told: the indexes and the columns that are ready for them.\<close>

type_synonym notice = "int list \<times> string list"

definition GROUP_SHARED_COLUMNS :: "string list" where
  "GROUP_SHARED_COLUMNS = [''prompt'', ''prompt_length'', ''prompt_uuid'']"

definition extended_indexes :: "int \<Rightarrow> int list \<Rightarrow> int list" where
  "extended_indexes n indexes = sorted_list_of_set (set (concat (List.map (group_members n) indexes)))"

definition status_notices :: "int \<Rightarrow> int list \<Rightarrow> string list \<Rightarrow> (string, col_info) dict \<Rightarrow> notice list" where
  "status_notices n indexes order infos =
     (let shared = filter (\<lambda>c. (case dict_get infos c of Some ci \<Rightarrow> 1 < ci_ref_multiplier ci | None \<Rightarrow> False) \<and>
                           c \<in> set GROUP_SHARED_COLUMNS) order;
          other = filter (\<lambda>c. \<not> ((case dict_get infos c of Some ci \<Rightarrow> 1 < ci_ref_multiplier ci | None \<Rightarrow> False) \<and>
                           c \<in> set GROUP_SHARED_COLUMNS)) order
      in (if other \<noteq> [] then [(indexes, other)] else []) @
         (if shared \<noteq> [] then [(extended_indexes n indexes, shared)] else []))"

definition handle_put :: "(string \<Rightarrow> int result) \<Rightarrow> put_header \<Rightarrow> byte list list \<Rightarrow> shard \<Rightarrow> unit result \<times> notice list \<times> shard" where
  "handle_put itemsize h frames s = (case ph_topic h of
      None \<Rightarrow> (Err (ValueError ''Missing topic in header''), [], s)
    | Some topic \<Rightarrow>
       (if topic = [] then (Err (ValueError ''Missing topic in header''), [], s)
        else case dict_get (sh_tables s) topic of
          None \<Rightarrow> (Err (ValueError ''Table is not established for topic''), [], s)
        | Some t \<Rightarrow> (case put_batch itemsize (ph_indexes h) (ph_order h) (ph_columns h) frames t of
            (Inl e, t') \<Rightarrow> (Err e, [], s\<lparr>sh_tables := dict_set topic t' (sh_tables s)\<rparr>)
          | (Inr _, t') \<Rightarrow>
              (let s' = s\<lparr>sh_tables := dict_set topic t' (sh_tables s)\<rparr>
               in if \<forall>c \<in> set (ph_order h). dict_has c (ph_columns h)
                  then (Ok (), status_notices (et_n_samples t') (ph_indexes h) (ph_order h) (ph_columns h), s')
                  else (Ok (), [], s')))))"

definition handle_get :: "get_header \<Rightarrow> shard \<Rightarrow> ((string \<times> col_result) list \<times> byte list list) result" where
  "handle_get h s = (case (case gh_topic h of None \<Rightarrow> None | Some topic \<Rightarrow> dict_get (sh_tables s) topic) of
      None \<Rightarrow> Err (ValueError ''Topic not found on shard'')
    | Some t \<Rightarrow> get_batch (gh_indexes h) (gh_columns h) t)"

text \<open>A short message is dropped without an answer; every other one gets exactly one.\<close>

fun process_message :: "(string \<Rightarrow> int result) \<Rightarrow> tq_request \<Rightarrow> shard \<Rightarrow> tq_reply option \<times> notice list \<times> shard" where
  "process_message itemsize Short_message s = (None, [], s)"
| "process_message itemsize (Put h frames) s = (case handle_put itemsize h frames s of
      (Inl e, ns, s') \<Rightarrow> (Some (Failed e), ns, s') | (Inr _, ns, s') \<Rightarrow> (Some Ack, ns, s'))"
| "process_message itemsize (Get h) s = (case handle_get h s of
      Inl e \<Rightarrow> (Some (Failed e), [], s) | Inr (meta, frames) \<Rightarrow> (Some (Values meta frames), [], s))"
| "process_message itemsize Other_command s = (Some Unknown_command, [], s)"

section \<open>What the manager is told is there\<close>

text \<open>A shard whose tables are reachable, and the puts its clients send.\<close>

definition shard_ok :: "(string \<Rightarrow> int result) \<Rightarrow> shard \<Rightarrow> bool" where
  "shard_ok itemsize s \<longleftrightarrow> (\<forall>topic t. dict_get (sh_tables s) topic = Some t \<longrightarrow> table_reach itemsize t)"

definition put_ok :: "(string \<Rightarrow> int result) \<Rightarrow> shard \<Rightarrow> put_header \<Rightarrow> bool" where
  "put_ok itemsize s h \<longleftrightarrow> distinct (ph_order h) \<and>
     (\<forall>topic t. ph_topic h = Some topic \<longrightarrow> dict_get (sh_tables s) topic = Some t \<longrightarrow>
        header_ok itemsize (et_n_samples t) (ph_columns h))"

lemma shard_table: "shard_ok itemsize s \<Longrightarrow> dict_get (sh_tables s) topic = Some t \<Longrightarrow> \<exists>F. table_wf F t"
  unfolding shard_ok_def by (blast dest: table_reach_wf)

lemma extended_indexes_set: "set (extended_indexes n ids) = (\<Union>i \<in> set ids. set (group_members n i))"
  unfolding extended_indexes_def by (subst set_sorted_list_of_set) auto

lemma handle_put_table:
  assumes "handle_put itemsize h frames s = (Ok (), ns, s')"
  obtains topic t t' where "ph_topic h = Some topic" "dict_get (sh_tables s) topic = Some t"
    "put_batch itemsize (ph_indexes h) (ph_order h) (ph_columns h) frames t = (Ok (), t')"
    "s' = s\<lparr>sh_tables := dict_set topic t' (sh_tables s)\<rparr>"
    "ns = [] \<or> ns = status_notices (et_n_samples t') (ph_indexes h) (ph_order h) (ph_columns h)"
  using assms by (auto simp: handle_put_def Let_def split: option.splits if_splits prod.splits sum.splits)

lemma notice_members:
  assumes "(ids, cols) \<in> set (status_notices n indexes order infos)" "c \<in> set cols"
  shows "c \<in> set order \<and>
    (\<forall>ci. dict_get infos c = Some ci \<longrightarrow>
       set ids \<subseteq> set indexes \<or> 1 < ci_ref_multiplier ci \<and> set ids = (\<Union>i \<in> set indexes. set (group_members n i)))"
  using assms by (auto simp: status_notices_def Let_def extended_indexes_set split: if_splits)

lemma shard_ok_put:
  assumes "shard_ok itemsize s" "put_ok itemsize s h" "handle_put itemsize h frames s = (r, ns, s')"
  shows "shard_ok itemsize s'"
proof -
  have "s' = s \<or> (\<exists>topic t t' r'. ph_topic h = Some topic \<and> dict_get (sh_tables s) topic = Some t \<and>
      put_batch itemsize (ph_indexes h) (ph_order h) (ph_columns h) frames t = (r', t') \<and>
      s' = s\<lparr>sh_tables := dict_set topic t' (sh_tables s)\<rparr>)"
    using assms(3) by (auto simp: handle_put_def Let_def split: option.splits if_splits prod.splits sum.splits)
  then show ?thesis
  proof (elim disjE exE conjE)
    fix topic t t' r'
    assume p: "ph_topic h = Some topic" "dict_get (sh_tables s) topic = Some t"
      "put_batch itemsize (ph_indexes h) (ph_order h) (ph_columns h) frames t = (r', t')"
      "s' = s\<lparr>sh_tables := dict_set topic t' (sh_tables s)\<rparr>"
    have "table_reach itemsize t" using assms(1) p(2) by (auto simp: shard_ok_def)
    moreover have "header_ok itemsize (et_n_samples t) (ph_columns h)" "distinct (ph_order h)"
      using assms(2) p(1,2) by (auto simp: put_ok_def)
    ultimately have "table_reach itemsize t'" using p(3) by (rule table_reach.put)
    then show ?thesis using assms(1) by (simp add: p(4) shard_ok_def)
  qed (use assms(1) in simp)
qed

text \<open>
  C30. The manager is told the truth: after a put that a shard acknowledges, every column and
  index it reports as ready (the whole prompt group for a shared column) has a stored value on
  this shard, so a consumer that is sent there can read it.
\<close>

theorem reported_is_stored:
  assumes "shard_ok itemsize s" "put_ok itemsize s h"
    and "handle_put itemsize h frames s = (Ok (), ns, s')" "(ids, cols) \<in> set ns" "c \<in> set cols" "g \<in> set ids"
  shows "\<exists>topic t'. ph_topic h = Some topic \<and> dict_get (sh_tables s') topic = Some t' \<and> stored t' c g \<noteq> None"
proof -
  obtain topic t t' where p: "ph_topic h = Some topic" "dict_get (sh_tables s) topic = Some t"
      "put_batch itemsize (ph_indexes h) (ph_order h) (ph_columns h) frames t = (Ok (), t')"
      "s' = s\<lparr>sh_tables := dict_set topic t' (sh_tables s)\<rparr>"
      "ns = [] \<or> ns = status_notices (et_n_samples t') (ph_indexes h) (ph_order h) (ph_columns h)"
    using handle_put_table [OF assms(3)] by blast
  obtain F where F: "table_wf F t" using shard_table [OF assms(1) p(2)] by blast
  have h: "header_ok itemsize (et_n_samples t) (ph_columns h)" "distinct (ph_order h)"
    using assms(2) p(1,2) by (auto simp: put_ok_def)
  have n: "et_n_samples t' = et_n_samples t" using put_batch_spec [OF F h p(3)] by blast
  have nz: "0 < et_n_samples t" using F by (simp add: table_wf_def)
  have notice: "(ids, cols) \<in> set (status_notices (et_n_samples t) (ph_indexes h) (ph_order h) (ph_columns h))"
    using p(5) assms(4) n by auto
  note m = notice_members [OF this assms(5)]
  have ne: "ph_indexes h \<noteq> []"
  proof
    assume "ph_indexes h = []"
    then have "ids = []" using notice
      by (auto simp: status_notices_def Let_def extended_indexes_def split: if_splits)
    then show False using assms(6) by simp
  qed
  let ?in = "\<lambda>ci g. g \<in> (if 1 < ci_ref_multiplier ci
      then (\<Union>i \<in> set (ph_indexes h). set (group_members (et_n_samples t) i)) else set (ph_indexes h))"
  obtain ci where ci: "dict_get (ph_columns h) c = Some ci" "\<forall>g. ?in ci g \<longrightarrow> stored t' c g \<noteq> None"
    using put_batch_keys [OF F h ne p(3) conjunct1 [OF m]] by (elim exE conjE)
  have "set ids \<subseteq> set (ph_indexes h) \<or> 1 < ci_ref_multiplier ci \<and>
      set ids = (\<Union>i \<in> set (ph_indexes h). set (group_members (et_n_samples t) i))"
    using m ci(1) by simp
  then have "?in ci g" using assms(6) member_of_group [OF nz, of g] by auto
  then show ?thesis using ci(2) p(1,4) by simp
qed

definition demo_shard :: shard where
  "demo_shard = \<lparr>sh_id = 0, sh_tables = [(''experience'', demo_table)], sh_running = True\<rparr>"

definition demo_put_header :: put_header where
  "demo_put_header = \<lparr>ph_topic = Some ''experience'', ph_indexes = [0, 2], ph_order = [''prompt'', ''reward''], ph_columns = demo_infos\<rparr>"

lemma demo_handle_put: "handle_put demo_itemsize demo_put_header [[7, 8, 9], [1, 0, 2, 0]] demo_shard =
    (Ok (), [([0, 2], [''reward'']), ([0, 1, 2, 3], [''prompt''])],
     demo_shard\<lparr>sh_tables := [(''experience'', demo_filled)]\<rparr>)"
proof -
  have "et_n_samples demo_filled = 2"
    by (simp add: demo_filled_def demo_table_def demo_infos_def demo_itemsize_def put_batch_def validate_col_def
      dict_index_def check_meta_def expected_bytes_def apply_col_def Let_def split: prod.splits)
  moreover have "status_notices 2 [0, 2] [''prompt'', ''reward''] demo_infos = [([0, 2], [''reward'']), ([0, 1, 2, 3], [''prompt''])]"
    by (simp add: status_notices_def demo_infos_def GROUP_SHARED_COLUMNS_def extended_indexes_def group_members_def
        upt_rec insort_insert_key_def)
  ultimately show ?thesis
    by (simp add: handle_put_def demo_put_header_def demo_shard_def demo_put) (simp add: demo_infos_def)
qed

theorem reported_is_stored_witness:
  "stored demo_filled ''prompt'' 1 \<noteq> None"
proof -
  have "shard_ok demo_itemsize demo_shard" "put_ok demo_itemsize demo_shard demo_put_header"
    using demo_table_reach demo_header_ok by (auto simp: shard_ok_def put_ok_def demo_shard_def demo_put_header_def split: if_splits)
  from reported_is_stored [OF this demo_handle_put, of "[0, 1, 2, 3]" "[''prompt'']" "''prompt''" 1]
  show ?thesis by (simp add: demo_put_header_def)
qed

text \<open>
  A checked prune is all or nothing: it succeeds only when every prompt group that is touched is
  given in full and owned by the shard, and then no member of those groups is left in any column;
  otherwise it is an error and the shard is unchanged.
\<close>

theorem checked_prune_whole_groups:
  assumes "shard_ok itemsize s" "prune_experience_table topic indexes True s = (r, s')"
  shows "case r of
      Inl _ \<Rightarrow> s' = s
    | Inr _ \<Rightarrow> \<exists>t t'. dict_get (sh_tables s) topic = Some t \<and> dict_get (sh_tables s') topic = Some t' \<and>
        (\<forall>i \<in> set indexes. i div et_n_samples t \<in> et_owned_groups t \<and>
           set (group_members (et_n_samples t) i) \<subseteq> set indexes \<and>
           (\<forall>c. \<forall>g \<in> set (group_members (et_n_samples t) i). stored t' c g = None))"
proof (cases "dict_get (sh_tables s) topic")
  case None
  then show ?thesis using assms(2) by (auto simp: prune_experience_table_def)
next
  case (Some t)
  let ?n = "et_n_samples t"
  obtain F where F: "table_wf F t" using shard_table [OF assms(1) Some] by blast
  then have n: "0 < ?n" by (simp add: table_wf_def)
  show ?thesis
  proof (cases r)
    case (Inl e)
    then show ?thesis using assms(2) Some by (auto simp: prune_experience_table_def Let_def split: if_splits)
  next
    case (Inr u)
    then have ok: "incomplete_ids ?n indexes = []" "filter (\<lambda>g. g \<notin> et_owned_groups t) (dict_keys (group_by (\<lambda>i. i div ?n) indexes)) = []"
        "dict_get (sh_tables s') topic = Some (prune indexes t)"
      using assms(2) Some by (auto simp: prune_experience_table_def Let_def split: if_splits)
    have "i div ?n \<in> et_owned_groups t \<and> set (group_members ?n i) \<subseteq> set indexes" if i: "i \<in> set indexes" for i
    proof -
      let ?ys = "filter (\<lambda>x. x div ?n = i div ?n) indexes"
      have mem: "(i div ?n, ?ys) \<in> set (group_by (\<lambda>i. i div ?n) indexes)" using i by (auto simp: group_by_member)
      then have own: "i div ?n \<in> et_owned_groups t" using ok(2) by (force simp: filter_empty_conv)
      have "?ys = [] \<or> int (card (set ?ys)) = ?n" using ok(1) mem by (force simp: incomplete_ids_def)
      then have card: "card (set ?ys) = nat ?n" using i by (auto simp: filter_empty_conv)
      have sub: "set ?ys \<subseteq> set (group_members ?n i)"
      proof
        fix x assume "x \<in> set ?ys"
        then have "group_members ?n i = group_members ?n x" by (simp add: group_members_def)
        then show "x \<in> set (group_members ?n i)" using member_of_group [OF n, of x] by simp
      qed
      have "card (set (group_members ?n i)) \<le> nat ?n"
        using card_length [of "group_members ?n i"] by simp
      then have "set ?ys = set (group_members ?n i)"
        using sub card by (intro card_seteq) auto
      then show ?thesis using own by auto
    qed
    then show ?thesis using Inr Some ok(3) prune_spec [OF F, of indexes] by auto
  qed
qed

theorem checked_prune_whole_groups_witness:
  "fst (prune_experience_table ''experience'' [0] True demo_shard) \<noteq> Ok ()"
proof
  have ok: "shard_ok demo_itemsize demo_shard"
    using demo_table_reach by (auto simp: shard_ok_def demo_shard_def split: if_splits)
  assume "fst (prune_experience_table ''experience'' [0] True demo_shard) = Ok ()"
  then obtain s' where "prune_experience_table ''experience'' [0] True demo_shard = (Ok (), s')"
    by (cases "prune_experience_table ''experience'' [0] True demo_shard") auto
  from checked_prune_whole_groups [OF ok this] show False
    by (auto simp: demo_shard_def demo_table_def)
qed

end
