(* ===== verification/TQTopic.thy ===== *)
theory TQTopic
  imports TQSampler TQShard
begin

text \<open>
  The manager's bookkeeping for one topic (\<open>TopicMeta\<close> and the parts of \<open>transfer_queue/tq_mgr.py\<close>
  that work on it alone): which samples are ready in which column, consumed by which consumer, of
  which version, on which shard, and the allocation of indexes and prompt groups. Python sets of
  indexes are sets; where the code iterates over one, the model goes in increasing order. Locks
  make each operation atomic, so an operation is one function of the state. The number of samples
  per prompt is taken to be positive (\<open>add_topic\<close> of the manager fails on the shards otherwise).
\<close>

section \<open>State\<close>

record topic_meta =
  tp_nums_tq_data :: int
  tp_prompts_num :: int
  tp_n_samples :: int
  tp_num_samples_gbs :: int
  tp_columns :: "string list"
  tp_consumers :: "string list"
  tp_ready :: "(string, int set) dict"
  tp_consumed :: "(string, int set) dict"
  tp_max_cur_index :: int
  tp_idx_to_shard :: "(int, nat) dict"
  tp_group_ids_per_shard :: "int set list"
  tp_shared_written :: "(string, int set) dict"
  tp_group_index_sets :: "(int, int set) dict"
  tp_uuid_to_group :: "(string, int) dict"
  tp_versions :: "(int, int set) dict"

definition empty_sets :: "string list \<Rightarrow> (string, int set) dict" where
  "empty_sets ks = foldl (\<lambda>d k. dict_set k {} d) [] ks"

definition topic_init :: "int \<Rightarrow> int \<Rightarrow> int \<Rightarrow> string list \<Rightarrow> string list \<Rightarrow> topic_meta result" where
  "topic_init nums prompts n columns consumers =
     (if nums \<le> 0 then Err (ValueError ''nums_tq_data must be > 0'')
      else Ok \<lparr>tp_nums_tq_data = nums, tp_prompts_num = prompts, tp_n_samples = n,
        tp_num_samples_gbs = prompts * n, tp_columns = columns, tp_consumers = consumers,
        tp_ready = empty_sets columns, tp_consumed = empty_sets consumers, tp_max_cur_index = -1,
        tp_idx_to_shard = [], tp_group_ids_per_shard = replicate (nat nums) {}, tp_shared_written = [],
        tp_group_index_sets = [], tp_uuid_to_group = [], tp_versions = []\<rparr>)"

text \<open>A change to every value of a dict of sets.\<close>

definition dict_sets :: "(int set \<Rightarrow> int set) \<Rightarrow> ('k, int set) dict \<Rightarrow> ('k, int set) dict" where
  "dict_sets f d = List.map (\<lambda>(k, s). (k, f s)) d"

lemma dict_get_sets [simp]: "dict_get (dict_sets f d) k = map_option f (dict_get d k)"
  unfolding dict_sets_def by (rule map_of_map [THEN fun_cong, simplified comp_def])

section \<open>Grouping\<close>

text \<open>The prompt groups all of whose samples are among \<open>xs\<close>, and the samples of a group.\<close>

definition whole_groups :: "int \<Rightarrow> int list \<Rightarrow> int list" where
  "whole_groups n xs = dict_keys (filter (\<lambda>(g, ys). int (card (set ys)) = n) (group_by (\<lambda>i. i div n) xs))"

definition group_range :: "int \<Rightarrow> int \<Rightarrow> int list" where
  "group_range n g = List.map (\<lambda>j. g * n + int j) [0..<nat n]"

definition keep_whole_groups :: "int \<Rightarrow> bool \<Rightarrow> int list \<Rightarrow> int list" where
  "keep_whole_groups n get_n_samples xs =
     (if get_n_samples then concat (List.map (group_range n) (whole_groups n xs)) else xs)"

section \<open>Readiness, consumption, versions\<close>

definition topic_update_data_status :: "int list \<Rightarrow> string list \<Rightarrow> topic_meta \<Rightarrow> topic_meta" where
  "topic_update_data_status indexes columns tp =
     tp\<lparr>tp_ready := foldl (\<lambda>d c. case dict_get d c of None \<Rightarrow> d | Some s \<Rightarrow> dict_set c (s \<union> set indexes) d) (tp_ready tp) columns\<rparr>"

definition consume :: "string \<Rightarrow> int list \<Rightarrow> topic_meta \<Rightarrow> topic_meta" where
  "consume consumer indexes tp =
     tp\<lparr>tp_consumed := dict_set consumer (dict_get_default consumer {} (tp_consumed tp) \<union> set indexes) (tp_consumed tp)\<rparr>"

definition topic_record_versions :: "int \<Rightarrow> int list \<Rightarrow> topic_meta \<Rightarrow> topic_meta result" where
  "topic_record_versions version indexes tp =
     (if indexes = [] then Err (ValueError ''No indexes provided for record_versions'')
      else let ids = set indexes;
               cleaned = List.map (\<lambda>(v, s). (v, s - ids)) (filter (\<lambda>(v, s). s \<inter> ids = {} \<or> s - ids \<noteq> {}) (tp_versions tp))
        in Ok (tp\<lparr>tp_versions := dict_set version (dict_get_default version {} cleaned \<union> ids) cleaned\<rparr>))"

text \<open>The freshness filter applies only when both parameters are given and neither is 0.\<close>

definition fresh_indexes :: "int \<Rightarrow> int \<Rightarrow> (int, int set) dict \<Rightarrow> int set" where
  "fresh_indexes latest staleness vs =
     \<Union> (set (dict_values (filter (\<lambda>(v, s). latest - staleness \<le> v \<and> v \<le> latest) vs)))"

definition apply_freshness :: "int option \<Rightarrow> int option \<Rightarrow> topic_meta \<Rightarrow> int set \<Rightarrow> int set" where
  "apply_freshness latest staleness tp usable = (case (latest, staleness) of
      (Some l, Some st) \<Rightarrow> if l \<noteq> 0 \<and> st \<noteq> 0 then usable \<inter> fresh_indexes l st (tp_versions tp) else usable
    | _ \<Rightarrow> usable)"

definition ready_sets :: "string list \<Rightarrow> topic_meta \<Rightarrow> int set list result" where
  "ready_sets columns tp = map_res (\<lambda>c. dict_index c (tp_ready tp)) columns"

definition ready_in_all :: "string list \<Rightarrow> topic_meta \<Rightarrow> int set result" where
  "ready_in_all columns tp = bind_res (ready_sets columns tp) (\<lambda>ss. case ss of
      [] \<Rightarrow> Err (TypeError ''descriptor intersection needs an argument'')
    | s # ss' \<Rightarrow> Ok (foldl (\<inter>) s ss'))"

text \<open>The version an index has, as the sampler is told.\<close>

definition idx_to_version :: "(int, int set) dict \<Rightarrow> int \<Rightarrow> int option" where
  "idx_to_version vs i = (case filter (\<lambda>(v, s). i \<in> s) (List.rev vs) of [] \<Rightarrow> None | (v, s) # _ \<Rightarrow> Some v)"

section \<open>Sampling\<close>

definition usable_set :: "string \<Rightarrow> string list \<Rightarrow> int option \<Rightarrow> int option \<Rightarrow> topic_meta \<Rightarrow> int set result" where
  "usable_set consumer columns latest staleness tp =
     bind_res (ready_in_all columns tp) (\<lambda>ready.
     bind_res (dict_index consumer (tp_consumed tp)) (\<lambda>consumed.
       Ok (apply_freshness latest staleness tp (ready - consumed))))"

text \<open>What a sampler is asked. A sampler that returns nothing makes the caller iterate over \<open>None\<close>.\<close>

definition ask_sampler :: "(nat \<Rightarrow> nat) \<Rightarrow> any_sampler option \<Rightarrow> int list \<Rightarrow> int \<Rightarrow> int option list \<Rightarrow> int list result" where
  "ask_sampler rs smp xs cnt vs = (case smp of
      None \<Rightarrow> Ok (take (nat cnt) xs)
    | Some s \<Rightarrow> bind_res (run_sampler rs s xs cnt (if takes_versions s then vs else [])) (\<lambda>r. case r of
        None \<Rightarrow> Err (TypeError ''NoneType object is not iterable'') | Some ys \<Rightarrow> Ok ys))"

definition sample_ready_index ::
    "(nat \<Rightarrow> nat) \<Rightarrow> string \<Rightarrow> int \<Rightarrow> string list \<Rightarrow> int option \<Rightarrow> int option \<Rightarrow> any_sampler option \<Rightarrow> topic_meta \<Rightarrow>
     int list option result \<times> topic_meta" where
  "sample_ready_index rs consumer cnt columns staleness latest smp tp =
     (case usable_set consumer columns latest staleness tp of
        Inl e \<Rightarrow> (Err e, tp)
      | Inr usable \<Rightarrow>
         (let xs = sorted_list_of_set usable
          in if int (length xs) < cnt then (Ok None, tp)
             else case ask_sampler rs smp xs cnt (List.map (idx_to_version (tp_versions tp)) xs) of
               Inl e \<Rightarrow> (Err e, tp)
             | Inr ys \<Rightarrow> (Ok (Some ys), consume consumer ys tp)))"

definition sample_ready_index_n_samples ::
    "(nat \<Rightarrow> nat) \<Rightarrow> string \<Rightarrow> int \<Rightarrow> string list \<Rightarrow> int option \<Rightarrow> int option \<Rightarrow> any_sampler option \<Rightarrow> topic_meta \<Rightarrow>
     int list option result \<times> topic_meta" where
  "sample_ready_index_n_samples rs consumer cnt columns staleness latest smp tp =
     (case usable_set consumer columns latest staleness tp of
        Inl e \<Rightarrow> (Err e, tp)
      | Inr usable \<Rightarrow>
         (let n = tp_n_samples tp; k = cnt div n; groups = whole_groups n (sorted_list_of_set usable)
          in if int (length groups) < k then (Ok None, tp)
             else case ask_sampler rs smp groups k (List.map (\<lambda>g. idx_to_version (tp_versions tp) (g * n)) groups) of
               Inl e \<Rightarrow> (Err e, tp)
             | Inr gs \<Rightarrow> (let ys = concat (List.map (group_range n) gs) in (Ok (Some ys), consume consumer ys tp))))"

section \<open>Queries\<close>

definition known_columns :: "string list \<Rightarrow> topic_meta \<Rightarrow> unit result" where
  "known_columns columns tp =
     (if columns = [] then Err (ValueError ''No experience_columns provided'')
      else if list_ex (\<lambda>c. c \<notin> set (tp_columns tp)) columns then Err (ValueError ''Unregistered column'') else Ok ())"

definition restrict_to :: "int list \<Rightarrow> int set \<Rightarrow> int set" where
  "restrict_to indexes s = (if indexes = [] then s else s \<inter> set indexes)"

definition topic_ready_set :: "string list \<Rightarrow> int list \<Rightarrow> bool \<Rightarrow> topic_meta \<Rightarrow> (int \<times> int list) result" where
  "topic_ready_set columns indexes get_n_samples tp =
     bind_res (known_columns columns tp) (\<lambda>_. bind_res (ready_in_all columns tp) (\<lambda>ready.
       let xs = keep_whole_groups (tp_n_samples tp) get_n_samples (sorted_list_of_set (restrict_to indexes ready))
       in Ok (int (length xs), xs)))"

text \<open>\<open>consumed &= set(indexes)\<close> works on the stored set itself.\<close>

definition topic_consumed_set :: "string \<Rightarrow> int list \<Rightarrow> bool \<Rightarrow> topic_meta \<Rightarrow> (int \<times> int list) result \<times> topic_meta" where
  "topic_consumed_set consumer indexes get_n_samples tp =
     (if consumer \<notin> set (tp_consumers tp) then (Err (ValueError ''Unregistered consumer''), tp)
      else case dict_index consumer (tp_consumed tp) of
        Inl e \<Rightarrow> (Err e, tp)
      | Inr s \<Rightarrow>
         (let s' = restrict_to indexes s; tp' = tp\<lparr>tp_consumed := dict_set consumer s' (tp_consumed tp)\<rparr>;
              xs = keep_whole_groups (tp_n_samples tp) get_n_samples (sorted_list_of_set s')
          in (Ok (int (length xs), xs), tp')))"

definition topic_usable_set :: "string \<Rightarrow> string list \<Rightarrow> int option \<Rightarrow> int option \<Rightarrow> int list \<Rightarrow> bool \<Rightarrow> topic_meta \<Rightarrow> (int \<times> int list) result" where
  "topic_usable_set consumer columns staleness latest indexes get_n_samples tp =
     (if consumer \<notin> set (tp_consumers tp) then Err (ValueError ''Unregistered consumer'')
      else bind_res (known_columns columns tp) (\<lambda>_. bind_res (usable_set consumer columns latest staleness tp) (\<lambda>usable.
        let xs = keep_whole_groups (tp_n_samples tp) get_n_samples (sorted_list_of_set (restrict_to indexes usable))
        in Ok (int (length xs), xs))))"

section \<open>Allocating groups and indexes\<close>

definition cur_max_group :: "topic_meta \<Rightarrow> int" where
  "cur_max_group tp = (if tp_max_cur_index tp < 0 then -1 else tp_max_cur_index tp div tp_n_samples tp)"

definition set_shard :: "nat \<Rightarrow> int list \<Rightarrow> (int, nat) dict \<Rightarrow> (int, nat) dict" where
  "set_shard shard ids d = foldl (\<lambda>d i. dict_set i shard d) d ids"

text \<open>Chunks of group ids for the shards, in order; \<open>shard\<close> counts them.\<close>

fun assign_groups ::
    "int \<Rightarrow> nat \<Rightarrow> int list \<Rightarrow> int \<Rightarrow> (int, nat) dict \<Rightarrow> int list list \<times> (int, nat) dict" where
  "assign_groups n shard [] cur d = ([], d)"
| "assign_groups n shard (need # needs) cur d =
     (if 0 < need then
        let ids = List.map (\<lambda>j. cur + int j) [0..<nat need];
            (rest, d') = assign_groups n (Suc shard) needs (cur + need) (set_shard shard (concat (List.map (group_range n) ids)) d)
        in (ids # rest, d')
      else let (rest, d') = assign_groups n (Suc shard) needs cur d in ([] # rest, d'))"

definition needed_counts :: "topic_meta \<Rightarrow> int \<Rightarrow> int list" where
  "needed_counts tp num_new =
     (let current = List.map (\<lambda>g. int (card g)) (tp_group_ids_per_shard tp);
          total = sum_list current + num_new; k = tp_nums_tq_data tp; base = total div k; r = total mod k
      in List.map (\<lambda>i. base + (if int i < r then 1 else 0) - current ! i) [0..<nat k])"

definition topic_new_groups :: "int \<Rightarrow> topic_meta \<Rightarrow> int list list result \<times> topic_meta" where
  "topic_new_groups num_new tp =
     (if num_new < 0 then (Err (ValueError ''The number of new group is negative''), tp)
      else let (ids, d) = assign_groups (tp_n_samples tp) 0 (needed_counts tp num_new) (cur_max_group tp + 1) (tp_idx_to_shard tp)
        in (Ok ids, tp\<lparr>tp_idx_to_shard := d,
                       tp_group_ids_per_shard := List.map (\<lambda>(g, new). g \<union> set new) (zip (tp_group_ids_per_shard tp) ids)\<rparr>))"

definition add_to_group :: "int \<Rightarrow> int \<Rightarrow> (int, int set) dict \<Rightarrow> (int, int set) dict" where
  "add_to_group n i d = dict_set (i div n) (insert i (dict_get_default (i div n) {} d)) d"

text \<open>\<open>_allocate_sequential\<close>: the indexes after the largest allocated one; the groups that are
  missing for them; and, once the groups are there, the bookkeeping of the indexes.\<close>

definition sequential_ids :: "int \<Rightarrow> bool \<Rightarrow> topic_meta \<Rightarrow> int list" where
  "sequential_ids batch needs_expansion tp =
     (let size = (if needs_expansion then batch * tp_n_samples tp else batch)
      in List.map (\<lambda>j. tp_max_cur_index tp + 1 + int j) [0..<nat size])"

definition missing_groups :: "int list \<Rightarrow> topic_meta \<Rightarrow> int" where
  "missing_groups ids tp =
     (let max_idx = (if ids = [] then tp_max_cur_index tp else Max (set ids))
      in max_idx div tp_n_samples tp + 1 - sum_list (List.map (\<lambda>g. int (card g)) (tp_group_ids_per_shard tp)))"

definition commit_sequential :: "int list \<Rightarrow> topic_meta \<Rightarrow> topic_meta" where
  "commit_sequential ids tp =
     tp\<lparr>tp_max_cur_index := (if ids = [] then tp_max_cur_index tp else Max (set ids)),
        tp_group_index_sets := foldl (\<lambda>d i. add_to_group (tp_n_samples tp) i d) (tp_group_index_sets tp) ids\<rparr>"

text \<open>\<open>_allocate_by_uuid\<close>: one group for each new uuid, the next free place of its group for each
  occurrence, nothing for a full group.\<close>

fun place_uuids :: "int \<Rightarrow> string list \<Rightarrow> (string, int) dict \<Rightarrow> (int, int set) dict \<Rightarrow> int list result \<times> (int, int set) dict" where
  "place_uuids n [] groups sets = (Ok [], sets)"
| "place_uuids n (u # us) groups sets = (case dict_get groups u of
      None \<Rightarrow> (Err (KeyError u), sets)
    | Some g \<Rightarrow>
       (let members = dict_get_default g {} sets
        in if n \<le> int (card members) then place_uuids n us groups sets
           else case dict_get sets g of
             None \<Rightarrow> (Err (KeyError ''group''), sets)
           | Some s \<Rightarrow>
              (let i = g * n + int (card members)
               in case place_uuids n us groups (dict_set g (insert i s) sets) of
                    (Inl e, sets') \<Rightarrow> (Err e, sets') | (Inr is, sets') \<Rightarrow> (Ok (i # is), sets'))))"

fun name_uuids :: "string list \<Rightarrow> int \<Rightarrow> topic_meta \<Rightarrow> topic_meta" where
  "name_uuids [] g tp = tp"
| "name_uuids (u # us) g tp =
     name_uuids us (g + 1) (tp\<lparr>tp_uuid_to_group := dict_set u g (tp_uuid_to_group tp),
                               tp_group_index_sets := dict_set g {} (tp_group_index_sets tp)\<rparr>)"

text \<open>\<open>dict.fromkeys\<close>: the first occurrences.\<close>

fun first_occurrences :: "'a list \<Rightarrow> 'a list" where
  "first_occurrences [] = []"
| "first_occurrences (x # xs) = x # filter (\<lambda>y. y \<noteq> x) (first_occurrences xs)"

definition new_uuids :: "string list \<Rightarrow> topic_meta \<Rightarrow> string list" where
  "new_uuids uuids tp = first_occurrences (filter (\<lambda>u. \<not> dict_has u (tp_uuid_to_group tp)) uuids)"

definition commit_uuids :: "string list \<Rightarrow> topic_meta \<Rightarrow> int list result \<times> topic_meta" where
  "commit_uuids uuids tp = (case place_uuids (tp_n_samples tp) uuids (tp_uuid_to_group tp) (tp_group_index_sets tp) of
      (Inl e, sets) \<Rightarrow> (Err e, tp\<lparr>tp_group_index_sets := sets\<rparr>)
    | (Inr ids, sets) \<Rightarrow> (Ok ids, tp\<lparr>tp_group_index_sets := sets,
        tp_max_cur_index := (if ids = [] then tp_max_cur_index tp else max (tp_max_cur_index tp) (Max (set ids)))\<rparr>))"

section \<open>Removing samples\<close>

text \<open>The manager's own part of \<open>_prune_topic_by_indexes\<close>. First the index map is emptied of the
  indexes, one by one; a repeated index is a \<open>KeyError\<close> half way.\<close>

fun pop_indexes :: "int list \<Rightarrow> (int, nat) dict \<Rightarrow> (int \<times> nat) list result \<times> (int, nat) dict" where
  "pop_indexes [] d = (Ok [], d)"
| "pop_indexes (i # is) d = (case dict_get d i of
      None \<Rightarrow> (Err (KeyError ''index''), d)
    | Some sh \<Rightarrow> (case pop_indexes is (dict_del i d) of
        (Inl e, d') \<Rightarrow> (Err e, d') | (Inr ps, d') \<Rightarrow> (Ok ((i, sh) # ps), d')))"

definition forget_status :: "int set \<Rightarrow> topic_meta \<Rightarrow> topic_meta" where
  "forget_status ids tp = tp\<lparr>tp_ready := dict_sets (\<lambda>s. s - ids) (tp_ready tp),
                            tp_consumed := dict_sets (\<lambda>s. s - ids) (tp_consumed tp)\<rparr>"

text \<open>A group without samples is dropped. The comprehension that collects its uuids compares the
  loop variable with itself, so it collects all of them.\<close>

definition drop_group :: "int \<Rightarrow> nat \<Rightarrow> topic_meta \<Rightarrow> topic_meta" where
  "drop_group g shard tp =
     (if list_ex (\<lambda>i. dict_has i (tp_idx_to_shard tp)) (group_range (tp_n_samples tp) g) then tp
      else tp\<lparr>tp_group_ids_per_shard := (tp_group_ids_per_shard tp)[shard := (tp_group_ids_per_shard tp ! shard) - {g}],
              tp_group_index_sets := dict_del g (tp_group_index_sets tp),
              tp_uuid_to_group := filter (\<lambda>(uuid, group_id). \<not> (group_id = group_id)) (tp_uuid_to_group tp),
              tp_shared_written := dict_sets (\<lambda>s. s - {g}) (tp_shared_written tp)\<rparr>)"

definition shrink_groups :: "int list \<Rightarrow> topic_meta \<Rightarrow> topic_meta" where
  "shrink_groups ids tp = tp\<lparr>tp_group_index_sets :=
     foldl (\<lambda>d i. case dict_get d (i div tp_n_samples tp) of None \<Rightarrow> d
        | Some s \<Rightarrow> dict_set (i div tp_n_samples tp) (s - {i}) d) (tp_group_index_sets tp) ids\<rparr>"

definition forget_versions :: "int set \<Rightarrow> topic_meta \<Rightarrow> topic_meta" where
  "forget_versions ids tp = tp\<lparr>tp_versions := filter (\<lambda>(v, s). s \<noteq> {}) (dict_sets (\<lambda>s. s - ids) (tp_versions tp))\<rparr>"

definition touched_groups :: "int \<Rightarrow> (int \<times> nat) list \<Rightarrow> (int \<times> nat) list" where
  "touched_groups n ps = first_occurrences (List.map (\<lambda>(i, sh). (i div n, sh)) ps)"

text \<open>The bookkeeping after the shards have pruned their tables.\<close>

definition finish_prune :: "(int \<times> nat) list \<Rightarrow> topic_meta \<Rightarrow> topic_meta" where
  "finish_prune ps tp =
     forget_versions (set (List.map fst ps)) (shrink_groups (List.map fst ps)
       (foldl (\<lambda>tp (g, sh). drop_group g sh tp) tp (touched_groups (tp_n_samples tp) ps)))"

section \<open>Shared columns\<close>

definition topic_mark_written :: "int \<Rightarrow> string \<Rightarrow> topic_meta \<Rightarrow> topic_meta" where
  "topic_mark_written g column tp =
     (if column \<notin> set GROUP_SHARED_COLUMNS then tp
      else tp\<lparr>tp_shared_written := dict_set column (insert g (dict_get_default column {} (tp_shared_written tp))) (tp_shared_written tp)\<rparr>)"

definition topic_is_written :: "int \<Rightarrow> string \<Rightarrow> topic_meta \<Rightarrow> bool" where
  "topic_is_written g column tp =
     (column \<in> set GROUP_SHARED_COLUMNS \<and> dict_has column (tp_shared_written tp) \<and>
      g \<in> dict_get_default column {} (tp_shared_written tp))"

end
