(* ===== verification/TQManager.thy ===== *)
theory TQManager
  imports TQTopic
begin

text \<open>
  The manager (\<open>transfer_queue/tq_mgr.py\<close>) with the shards it drives. A remote call that is waited for
  is a call of the shard's operation; the manager holds the shards' states, in the order of their
  ids, and their endpoints. Timings are counted in millionths of a second, the precision to which
  the code rounds them.
\<close>

section \<open>State\<close>

record manager =
  tq_topics :: "(string, topic_meta) dict"
  tq_shards :: "shard list"
  tq_endpoints :: "string list"
  tq_timings :: "(string, int) dict"

definition initial_timings :: "(string, int) dict" where
  "initial_timings = [(''put'', 0), (''get'', 0), (''put_prompt'', 0), (''dispatch'', 0)]"

text \<open>The nodes with a CPU, and the endpoints the shards report, come from the cluster.\<close>

definition manager_init :: "string list \<Rightarrow> string list \<Rightarrow> manager result" where
  "manager_init node_ips endpoints =
     (if node_ips = [] then Err (RuntimeError ''No available Ray nodes with CPU resources'')
      else Ok \<lparr>tq_topics = [], tq_shards = List.map shard_init [0..<length endpoints],
               tq_endpoints = endpoints, tq_timings = initial_timings\<rparr>)"

definition find_topic :: "string \<Rightarrow> manager \<Rightarrow> topic_meta result" where
  "find_topic topic m = (case dict_get (tq_topics m) topic of
     None \<Rightarrow> Err (ValueError ''Unknown topic'') | Some tp \<Rightarrow> Ok tp)"

definition put_topic :: "string \<Rightarrow> topic_meta \<Rightarrow> manager \<Rightarrow> manager" where
  "put_topic topic tp m = m\<lparr>tq_topics := dict_set topic tp (tq_topics m)\<rparr>"

text \<open>The same call on every shard in turn, until one raises.\<close>

fun on_shards :: "(shard \<Rightarrow> unit result \<times> shard) \<Rightarrow> shard list \<Rightarrow> unit result \<times> shard list" where
  "on_shards f [] = (Ok (), [])"
| "on_shards f (s # ss) = (case f s of
      (Inl e, s') \<Rightarrow> (Err e, s' # ss)
    | (Inr _, s') \<Rightarrow> (case on_shards f ss of (r, ss') \<Rightarrow> (r, s' # ss')))"

definition add_topic :: "string \<Rightarrow> int \<Rightarrow> int \<Rightarrow> string list \<Rightarrow> string list \<Rightarrow> manager \<Rightarrow> unit result \<times> manager" where
  "add_topic topic prompts n columns consumers m =
     (if dict_has topic (tq_topics m) then (Err (ValueError ''Topic already exists''), m)
      else case topic_init (int (length (tq_shards m))) prompts n columns consumers of
        Inl e \<Rightarrow> (Err e, m)
      | Inr tp \<Rightarrow> (case on_shards (add_experience_table topic n columns) (tq_shards m) of
          (r, ss) \<Rightarrow> (r, (put_topic topic tp m)\<lparr>tq_shards := ss\<rparr>)))"

definition delete_topic :: "string \<Rightarrow> manager \<Rightarrow> manager" where
  "delete_topic topic m =
     (if \<not> dict_has topic (tq_topics m) then m
      else m\<lparr>tq_shards := List.map (remove_experience_table topic) (tq_shards m),
             tq_topics := dict_del topic (tq_topics m)\<rparr>)"

definition reset_all :: "manager \<Rightarrow> manager" where
  "reset_all m = m\<lparr>tq_shards := List.map shard_reset_all (tq_shards m), tq_topics := [], tq_timings := initial_timings\<rparr>"

definition shutdown :: "manager \<Rightarrow> manager" where
  "shutdown m = m\<lparr>tq_shards := [], tq_endpoints := []\<rparr>"

section \<open>Routing\<close>

text \<open>The indexes by the endpoint of their shard, without empty entries. After \<open>shutdown\<close> there are
  no endpoints any more.\<close>

definition empty_routes :: "string list \<Rightarrow> (string, int list) dict" where
  "empty_routes eps = foldl (\<lambda>d ep. dict_set ep [] d) [] eps"

definition endpoint_of :: "string list \<Rightarrow> (int, nat) dict \<Rightarrow> int \<Rightarrow> (string \<times> int) result" where
  "endpoint_of eps shards i = bind_res (dict_index i shards) (\<lambda>sh. bind_res (py_nth eps (int sh)) (\<lambda>ep. Ok (ep, i)))"

definition route :: "string list \<Rightarrow> (int, nat) dict \<Rightarrow> int list \<Rightarrow> (string, int list) dict result" where
  "route eps shards ids = bind_res (map_res (endpoint_of eps shards) ids) (\<lambda>ps.
     Ok (filter (\<lambda>(ep, xs). xs \<noteq> [])
       (foldl (\<lambda>d (ep, i). dict_set ep (dict_get_default ep [] d @ [i]) d) (empty_routes eps) ps)))"

definition routed :: "int list \<Rightarrow> topic_meta \<Rightarrow> manager \<Rightarrow> (string, int list) dict result" where
  "routed ids tp m =
     (if list_ex (\<lambda>i. \<not> dict_has i (tp_idx_to_shard tp)) ids
      then Err (ValueError ''Global indexes does not belong to any shard'')
      else route (tq_endpoints m) (tp_idx_to_shard tp) ids)"

definition get_targets_for_put :: "string \<Rightarrow> int list \<Rightarrow> manager \<Rightarrow> (string, int list) dict result" where
  "get_targets_for_put topic indexes m =
     (if indexes = [] then Err (ValueError ''No indexes provided for get_targets_for_put'')
      else bind_res (find_topic topic m) (\<lambda>tp. routed indexes tp m))"

section \<open>Handing out samples\<close>

definition allocate_shard_for_indexes ::
    "string \<Rightarrow> string \<Rightarrow> string list \<Rightarrow> int list \<Rightarrow> int option \<Rightarrow> int option \<Rightarrow> manager \<Rightarrow>
     (string, int list) dict option result \<times> manager" where
  "allocate_shard_for_indexes topic consumer columns indexes staleness latest m = (case find_topic topic m of
      Inl e \<Rightarrow> (Err e, m)
    | Inr tp \<Rightarrow>
       (if consumer \<notin> set (tp_consumers tp) then (Err (ValueError ''Unregistered consumers''), m)
        else if indexes = [] then (Err (ValueError ''indexes must be provided''), m)
        else if (latest = None) \<noteq> (staleness = None) then (Err (ValueError ''latest_version and allowed_staleness''), m)
        else case bind_res (ready_sets columns tp) (\<lambda>ss. bind_res (dict_index consumer (tp_consumed tp)) (\<lambda>consumed.
               Ok (apply_freshness latest staleness tp (foldl (\<inter>) (set indexes) ss - consumed)))) of
          Inl e \<Rightarrow> (Err e, m)
        | Inr usable \<Rightarrow>
            (if card usable < length indexes then (Ok None, m)
             else let ids = sorted_list_of_set usable; tp' = consume consumer ids tp
               in (bind_res (routed ids tp' m) (\<lambda>d. Ok (Some d)), put_topic topic tp' m))))"

definition allocate_shard_and_indexes ::
    "(nat \<Rightarrow> nat) \<Rightarrow> string \<Rightarrow> string \<Rightarrow> string list \<Rightarrow> int option \<Rightarrow> bool \<Rightarrow> int option \<Rightarrow> int option \<Rightarrow>
     any_sampler option \<Rightarrow> manager \<Rightarrow> (string, int list) dict option result \<times> manager" where
  "allocate_shard_and_indexes rs topic consumer columns exp_count get_n_samples staleness latest smp m =
     (case find_topic topic m of
        Inl e \<Rightarrow> (Err e, m)
      | Inr tp \<Rightarrow>
         (if consumer \<notin> set (tp_consumers tp) then (Err (ValueError ''Consumer not recognized''), m)
          else case exp_count of
            None \<Rightarrow> (Err (ValueError ''experience_count must be a positive integer''), m)
          | Some cnt \<Rightarrow>
             (if cnt \<le> 0 then (Err (ValueError ''experience_count must be a positive integer''), m)
              else if get_n_samples \<and> cnt mod tp_n_samples tp \<noteq> 0 then (Err (ValueError ''divisible by n_samples_per_prompt''), m)
              else if (latest = None) \<noteq> (staleness = None) then (Err (ValueError ''latest_version and allowed_staleness''), m)
              else case (if get_n_samples then sample_ready_index_n_samples rs consumer cnt columns staleness latest smp tp
                         else sample_ready_index rs consumer cnt columns staleness latest smp tp) of
                (Inl e, tp') \<Rightarrow> (Err e, put_topic topic tp' m)
              | (Inr chosen, tp') \<Rightarrow>
                 (case chosen of
                    None \<Rightarrow> (Ok None, put_topic topic tp' m)
                  | Some ids \<Rightarrow> if ids = [] then (Ok None, put_topic topic tp' m)
                      else (bind_res (routed ids tp' m) (\<lambda>d. Ok (Some d)), put_topic topic tp' m)))))"

text \<open>\<open>_fetch_column_values\<close>: one call to each shard that has some of the indexes, and the answers put
  back at the positions that were asked for.\<close>

definition stitch :: "nat \<Rightarrow> ((nat \<times> int) list \<times> 'v list) list \<Rightarrow> 'v option list" where
  "stitch n answers = foldl (\<lambda>out (pairs, vals). foldl (\<lambda>out ((pos, i), v). out[pos := Some v]) out (zip pairs vals))
     (replicate n None) answers"

definition fetch_column_values :: "string \<Rightarrow> string \<Rightarrow> int list \<Rightarrow> manager \<Rightarrow> byte list option list result" where
  "fetch_column_values topic column ids m =
     (if ids = [] then Ok []
      else bind_res (dict_index topic (tq_topics m)) (\<lambda>tp.
        if list_ex (\<lambda>i. \<not> dict_has i (tp_idx_to_shard tp)) ids
        then Err (RuntimeError ''Global index does not belong to any shard'')
        else let groups = group_by (\<lambda>(pos, i). the (dict_get (tp_idx_to_shard tp) i)) (zip [0..<length ids] ids)
          in bind_res (map_res (\<lambda>(sh, pairs). bind_res (py_nth (tq_shards m) (int sh)) (\<lambda>s.
                 bind_res (get_values topic column (List.map snd pairs) s) (\<lambda>vals. Ok (pairs, vals)))) groups) (\<lambda>answers.
               Ok (stitch (length ids) answers))))"

section \<open>Removing samples\<close>

text \<open>The prune calls, one for each shard that holds some of the indexes.\<close>

fun prune_shards :: "string \<Rightarrow> (nat \<times> (int \<times> nat) list) list \<Rightarrow> shard list \<Rightarrow> unit result \<times> shard list" where
  "prune_shards topic [] ss = (Ok (), ss)"
| "prune_shards topic ((sh, ps) # rest) ss =
     (if length ss \<le> sh then (Err (IndexError ''list index out of range''), ss)
      else case prune_experience_table topic (List.map fst ps) False (ss ! sh) of
        (Inl e, s') \<Rightarrow> (Err e, ss[sh := s'])
      | (Inr _, s') \<Rightarrow> prune_shards topic rest (ss[sh := s']))"

definition prune_topic_by_indexes :: "string \<Rightarrow> int list \<Rightarrow> manager \<Rightarrow> unit result \<times> manager" where
  "prune_topic_by_indexes topic ids m = (case find_topic topic m of
      Inl e \<Rightarrow> (Err e, m)
    | Inr tp \<Rightarrow>
       (if ids = [] then (Err (ValueError ''No indexes provided for prune_topic_by_indexes''), m)
        else if list_ex (\<lambda>i. \<not> dict_has i (tp_idx_to_shard tp)) ids
        then (Err (ValueError ''Global indexes does not belong to any shard''), m)
        else let tp1 = forget_status (set ids) tp
          in case pop_indexes ids (tp_idx_to_shard tp1) of
            (Inl e, d) \<Rightarrow> (Err e, put_topic topic (tp1\<lparr>tp_idx_to_shard := d\<rparr>) m)
          | (Inr ps, d) \<Rightarrow>
             (let tp2 = tp1\<lparr>tp_idx_to_shard := d\<rparr>
              in case prune_shards topic (group_by snd ps) (tq_shards m) of
                (Inl e, ss) \<Rightarrow> (Err e, (put_topic topic tp2 m)\<lparr>tq_shards := ss\<rparr>)
              | (Inr _, ss) \<Rightarrow> (Ok (), (put_topic topic (finish_prune ps tp2) m)\<lparr>tq_shards := ss\<rparr>))))"

definition max_stored :: "topic_meta \<Rightarrow> int" where
  "max_stored tp = (if tp_idx_to_shard tp = [] then 0 else Max (set (dict_keys (tp_idx_to_shard tp))))"

definition indexes_of_versions :: "int list \<Rightarrow> topic_meta \<Rightarrow> int list" where
  "indexes_of_versions vs tp = concat (List.map (\<lambda>v. sorted_list_of_set (dict_get_default v {} (tp_versions tp))) vs)"

definition delete_experience ::
    "int list option \<Rightarrow> int list option \<Rightarrow> int option \<Rightarrow> int option \<Rightarrow> bool \<Rightarrow> string option \<Rightarrow> manager \<Rightarrow> unit result \<times> manager" where
  "delete_experience indexes versions latest staleness delete_all topic m = (case topic of
      None \<Rightarrow> (Err (ValueError ''Topic must be specified''), m)
    | Some topic \<Rightarrow> (case find_topic topic m of
        Inl e \<Rightarrow> (Err e, m)
      | Inr tp \<Rightarrow>
         (if (latest = None) \<noteq> (staleness = None) then (Err (ValueError ''latest_version and allowed_staleness''), m)
          else if length (filter id [indexes \<noteq> None, versions \<noteq> None, latest \<noteq> None, delete_all]) \<noteq> 1
          then (Err (ValueError ''Must provide exactly one mode''), m)
          else let top = max_stored tp
            in if delete_all \<and> top \<le> 0 then (Ok (), m)
            else let ids0 = (if delete_all then Some (List.map int [0..<nat (top + 1)]) else indexes);
                     vs = (case (latest, staleness) of
                        (Some l, Some st) \<Rightarrow> Some (filter (\<lambda>v. v < l - st) (dict_keys (tp_versions tp)))
                      | _ \<Rightarrow> versions);
                     ids = (case vs of None \<Rightarrow> (case ids0 of None \<Rightarrow> [] | Some is \<Rightarrow> is) | Some vs \<Rightarrow> indexes_of_versions vs tp)
              in if list_ex (\<lambda>i. top < i) ids then (Err (ValueError ''Invalid indexes exceed max stored index''), m)
                 else prune_topic_by_indexes topic ids m)))"

section \<open>Status and queries\<close>

definition update_data_status :: "string \<Rightarrow> int list \<Rightarrow> string list \<Rightarrow> manager \<Rightarrow> unit result \<times> manager" where
  "update_data_status topic indexes columns m =
     (if indexes = [] \<or> columns = [] then (Ok (), m)
      else case find_topic topic m of
        Inl e \<Rightarrow> (Err e, m)
      | Inr tp \<Rightarrow> (Ok (), put_topic topic (topic_update_data_status indexes columns tp) m))"

definition update_consumer_status :: "string \<Rightarrow> int list \<Rightarrow> string \<Rightarrow> manager \<Rightarrow> unit result \<times> manager" where
  "update_consumer_status topic indexes consumer m =
     (if indexes = [] \<or> consumer = [] then (Ok (), m)
      else case find_topic topic m of
        Inl e \<Rightarrow> (Err e, m)
      | Inr tp \<Rightarrow> if dict_has consumer (tp_consumed tp) then (Ok (), put_topic topic (consume consumer indexes tp) m)
                  else (Err (KeyError consumer), m))"

definition record_versions :: "string \<Rightarrow> int \<Rightarrow> int list \<Rightarrow> manager \<Rightarrow> unit result \<times> manager" where
  "record_versions topic version indexes m =
     (case bind_res (find_topic topic m) (topic_record_versions version indexes) of
        Inl e \<Rightarrow> (Err e, m) | Inr tp \<Rightarrow> (Ok (), put_topic topic tp m))"

definition get_data_ready_set :: "string \<Rightarrow> string list \<Rightarrow> int list \<Rightarrow> bool \<Rightarrow> manager \<Rightarrow> (int \<times> int list) result" where
  "get_data_ready_set topic columns indexes get_n_samples m =
     bind_res (find_topic topic m) (topic_ready_set columns indexes get_n_samples)"

definition get_data_consumed_set :: "string \<Rightarrow> string \<Rightarrow> int list \<Rightarrow> bool \<Rightarrow> manager \<Rightarrow> (int \<times> int list) result \<times> manager" where
  "get_data_consumed_set topic consumer indexes get_n_samples m = (case find_topic topic m of
      Inl e \<Rightarrow> (Err e, m)
    | Inr tp \<Rightarrow> (case topic_consumed_set consumer indexes get_n_samples tp of (r, tp') \<Rightarrow> (r, put_topic topic tp' m)))"

definition get_data_usable_set ::
    "string \<Rightarrow> string \<Rightarrow> string list \<Rightarrow> int option \<Rightarrow> int option \<Rightarrow> int list \<Rightarrow> bool \<Rightarrow> manager \<Rightarrow> (int \<times> int list) result" where
  "get_data_usable_set topic consumer columns staleness latest indexes get_n_samples m =
     bind_res (find_topic topic m) (topic_usable_set consumer columns staleness latest indexes get_n_samples)"

definition add_bytes :: "(string, int) dict \<Rightarrow> (string, int) dict \<Rightarrow> (string, int) dict" where
  "add_bytes acc cols = foldl (\<lambda>d (c, b). dict_set c (dict_get_default c 0 d + b) d) acc cols"

definition get_columns_storage_bytes :: "string \<Rightarrow> manager \<Rightarrow> (string, int) dict result" where
  "get_columns_storage_bytes topic m = bind_res (find_topic topic m) (\<lambda>_.
     bind_res (map_res (get_all_columns_storage_bytes topic) (tq_shards m)) (\<lambda>cs. Ok (foldl add_bytes [] cs)))"

definition get_all_endpoints :: "manager \<Rightarrow> string list" where
  "get_all_endpoints m = tq_endpoints m"

definition get_n_samples_per_prompt :: "string \<Rightarrow> manager \<Rightarrow> int result" where
  "get_n_samples_per_prompt topic m = bind_res (find_topic topic m) (\<lambda>tp. Ok (tp_n_samples tp))"

definition get_cur_max_group_id :: "string \<Rightarrow> manager \<Rightarrow> int result" where
  "get_cur_max_group_id topic m = bind_res (find_topic topic m) (\<lambda>tp. Ok (cur_max_group tp))"

definition mark_column_written_in_group :: "string \<Rightarrow> int \<Rightarrow> string \<Rightarrow> manager \<Rightarrow> unit result \<times> manager" where
  "mark_column_written_in_group topic g column m = (case find_topic topic m of
      Inl e \<Rightarrow> (Err e, m) | Inr tp \<Rightarrow> (Ok (), put_topic topic (topic_mark_written g column tp) m))"

definition is_column_written_in_group :: "string \<Rightarrow> int \<Rightarrow> string \<Rightarrow> manager \<Rightarrow> bool result" where
  "is_column_written_in_group topic g column m = bind_res (find_topic topic m) (\<lambda>tp. Ok (topic_is_written g column tp))"

section \<open>Allocating indexes\<close>

text \<open>The new groups of each shard are announced to it: every call is sent before the first answer is
  looked at.\<close>

definition announce_groups :: "string \<Rightarrow> int list list \<Rightarrow> shard list \<Rightarrow> unit result \<times> shard list" where
  "announce_groups topic told ss =
     (let answers = List.map (\<lambda>(s, gs). update_owned_groups topic gs s) (zip ss told)
      in (if length ss < length told then Err (IndexError ''list index out of range'')
          else bind_res (map_res fst answers) (\<lambda>_. Ok ()),
          List.map snd answers @ drop (length told) ss))"

definition get_allocation_for_new_groups :: "string \<Rightarrow> int \<Rightarrow> manager \<Rightarrow> int list list result \<times> manager" where
  "get_allocation_for_new_groups topic num_new m = (case find_topic topic m of
      Inl e \<Rightarrow> (Err e, m)
    | Inr tp \<Rightarrow> (case topic_new_groups num_new tp of
        (Inl e, tp') \<Rightarrow> (Err e, m)
      | (Inr gs, tp') \<Rightarrow> (case announce_groups topic gs (tq_shards m) of
          (r, ss) \<Rightarrow> (bind_res r (\<lambda>_. Ok gs), (put_topic topic tp' m)\<lparr>tq_shards := ss\<rparr>))))"

definition allocate_sequential :: "string \<Rightarrow> int \<Rightarrow> bool \<Rightarrow> manager \<Rightarrow> int list result \<times> manager" where
  "allocate_sequential topic batch needs_expansion m = (case find_topic topic m of
      Inl e \<Rightarrow> (Err e, m)
    | Inr tp \<Rightarrow>
       (let ids = sequential_ids batch needs_expansion tp; k = missing_groups ids tp
        in case (if 0 < k then get_allocation_for_new_groups topic k m else (Ok [], m)) of
             (Inl e, m') \<Rightarrow> (Err e, m')
           | (Inr _, m') \<Rightarrow> (case find_topic topic m' of
                Inl e \<Rightarrow> (Err e, m')
              | Inr tp' \<Rightarrow> (Ok ids, put_topic topic (commit_sequential ids tp') m'))))"

definition allocate_by_uuid :: "string \<Rightarrow> string list \<Rightarrow> manager \<Rightarrow> int list result \<times> manager" where
  "allocate_by_uuid topic uuids m = (case find_topic topic m of
      Inl e \<Rightarrow> (Err e, m)
    | Inr tp \<Rightarrow>
       (let new = new_uuids uuids tp
        in case (if new \<noteq> [] then get_allocation_for_new_groups topic (int (length new)) m else (Ok [], m)) of
             (Inl e, m') \<Rightarrow> (Err e, m')
           | (Inr _, m') \<Rightarrow> (case find_topic topic m' of
                Inl e \<Rightarrow> (Err e, m')
              | Inr tp' \<Rightarrow> (case commit_uuids uuids (name_uuids new (cur_max_group tp' + 1) tp') of
                  (r, tp'') \<Rightarrow> (r, put_topic topic tp'' m')))))"

definition allocate_indexes :: "string \<Rightarrow> int \<Rightarrow> bool \<Rightarrow> string list \<Rightarrow> manager \<Rightarrow> int list result \<times> manager" where
  "allocate_indexes topic batch needs_expansion uuids m =
     (if uuids \<noteq> [] then allocate_by_uuid topic uuids m else allocate_sequential topic batch needs_expansion m)"

section \<open>Timings\<close>

definition create_timing_item :: "string \<Rightarrow> manager \<Rightarrow> unit result \<times> manager" where
  "create_timing_item name m =
     (if name = [] then (Err (ValueError ''Timing item name must be a non-empty string''), m)
      else if dict_has name (tq_timings m) then (Err (ValueError ''Timing item already exists''), m)
      else (Ok (), m\<lparr>tq_timings := dict_set name 0 (tq_timings m)\<rparr>))"

definition accumulate_timing :: "string \<Rightarrow> int \<Rightarrow> manager \<Rightarrow> manager" where
  "accumulate_timing name micros m =
     m\<lparr>tq_timings := dict_set name (dict_get_default name 0 (tq_timings m) + micros) (tq_timings m)\<rparr>"

definition get_timing :: "string \<Rightarrow> manager \<Rightarrow> int result" where
  "get_timing name m = (case dict_get (tq_timings m) name of
     None \<Rightarrow> Err (ValueError ''Unknown timing name'') | Some v \<Rightarrow> Ok v)"

definition get_timings :: "manager \<Rightarrow> (string, int) dict" where
  "get_timings m = tq_timings m"

definition reset_timings :: "manager \<Rightarrow> manager" where
  "reset_timings m = m\<lparr>tq_timings := List.map (\<lambda>(k, v). (k, 0)) (tq_timings m)\<rparr>"

end
