(* ===== verification/TQDelivery.thy ===== *)
theory TQDelivery
  imports TQManager
begin

text \<open>
  Who gets which sample. The theory follows the manager's requests over any sequence of operations
  that write, allocate, mark and hand out (\<open>transfer_queue/tq_mgr.py\<close>): what is handed out is ready
  and fresh, goes to the endpoint of its shard, and is handed out once.
\<close>

section \<open>Routing\<close>

lemma empty_routes_props: "dict_ok (empty_routes eps) \<and> (\<forall>ep xs. dict_get (empty_routes eps) ep = Some xs \<longrightarrow> xs = [])"
  unfolding empty_routes_def by (induction eps rule: rev_induct) auto

definition add_route :: "(string, int list) dict \<Rightarrow> string \<times> int \<Rightarrow> (string, int list) dict" where
  "add_route d p = (case p of (ep, i) \<Rightarrow> dict_set ep (dict_get_default ep [] d @ [i]) d)"

lemma add_routes:
  assumes "dict_ok d" "\<forall>ep xs. dict_get d ep = Some xs \<longrightarrow> xs = []"
  shows "dict_ok (foldl add_route d ps) \<and>
    (\<forall>ep. dict_get_default ep [] (foldl add_route d ps) = List.map snd (filter (\<lambda>p. fst p = ep) ps))"
proof (induction ps rule: rev_induct)
  case Nil
  then show ?case using assms by (auto simp: dict_get_default_def split: option.splits)
next
  case (snoc p ps)
  then show ?case by (cases p) (auto simp: add_route_def)
qed

lemma endpoints_found: "map_res (endpoint_of eps d) ids = Ok ps \<Longrightarrow>
    List.map snd ps = ids \<and> (\<forall>(ep, i) \<in> set ps. \<exists>sh. dict_get d i = Some sh \<and> sh < length eps \<and> eps ! sh = ep)"
proof (induction ids arbitrary: ps)
  case (Cons i ids)
  then obtain p qs where p: "endpoint_of eps d i = Ok p" "map_res (endpoint_of eps d) ids = Ok qs" "ps = p # qs"
    by auto
  then have "snd p = i \<and> (\<exists>sh. dict_get d i = Some sh \<and> sh < length eps \<and> eps ! sh = fst p)"
    by (auto simp: endpoint_of_def dict_index_Ok py_nth_def Let_def split: if_splits)
  then show ?case using Cons.IH [OF p(2)] p(3) by auto
qed simp

lemma endpoints_filter:
  assumes "map_res (endpoint_of eps d) ids = Ok ps"
  shows "List.map snd (filter (\<lambda>p. fst p = ep) ps) =
    filter (\<lambda>i. \<exists>sh. dict_get d i = Some sh \<and> eps ! sh = ep) ids"
  using assms
proof (induction ids arbitrary: ps)
  case (Cons i ids)
  then obtain p qs where p: "endpoint_of eps d i = Ok p" "map_res (endpoint_of eps d) ids = Ok qs" "ps = p # qs"
    by auto
  then have "snd p = i \<and> (\<exists>sh. dict_get d i = Some sh \<and> eps ! sh = fst p)"
    by (auto simp: endpoint_of_def dict_index_Ok py_nth_def Let_def split: if_splits)
  then show ?case using Cons.IH [OF p(2)] p(3) by auto
qed simp

text \<open>What the routes are: for each endpoint the requested indexes of its shards, in their order.\<close>

lemma route_spec:
  assumes "route eps d ids = Ok r"
  shows "dict_ok r" and "(ep, xs) \<in> set r \<longleftrightarrow>
      xs \<noteq> [] \<and> xs = filter (\<lambda>i. \<exists>sh. dict_get d i = Some sh \<and> eps ! sh = ep) ids"
    and "i \<in> set ids \<Longrightarrow> \<exists>sh. dict_get d i = Some sh \<and> sh < length eps"
proof -
  obtain ps where ps: "map_res (endpoint_of eps d) ids = Ok ps"
      and r: "r = filter (\<lambda>(ep, xs). xs \<noteq> []) (foldl add_route (empty_routes eps) ps)"
    using assms by (auto simp: route_def add_route_def [abs_def])
  let ?d = "foldl add_route (empty_routes eps) ps"
  have a: "dict_ok ?d" "dict_get_default ep [] ?d = List.map snd (filter (\<lambda>p. fst p = ep) ps)" for ep
    using add_routes [of "empty_routes eps" ps] empty_routes_props [of eps] by blast+
  show "dict_ok r" using a(1) unfolding r dict_ok_def by (rule distinct_map_filter)
  have "(ep, xs) \<in> set r \<longleftrightarrow> xs \<noteq> [] \<and> dict_get ?d ep = Some xs"
    using a(1) unfolding r by (auto simp: dict_ok_def)
  also have "\<dots> \<longleftrightarrow> xs \<noteq> [] \<and> xs = dict_get_default ep [] ?d"
    by (auto simp: dict_get_default_def split: option.splits)
  finally show "(ep, xs) \<in> set r \<longleftrightarrow>
      xs \<noteq> [] \<and> xs = filter (\<lambda>i. \<exists>sh. dict_get d i = Some sh \<and> eps ! sh = ep) ids"
    by (simp add: a(2) endpoints_filter [OF ps])
  assume "i \<in> set ids"
  then have "i \<in> snd ` set ps" using endpoints_found [OF ps] by (metis list.set_map)
  then show "\<exists>sh. dict_get d i = Some sh \<and> sh < length eps"
    using endpoints_found [OF ps] by fastforce
qed

lemma route_covers:
  assumes "route eps d ids = Ok r"
  shows "set (concat (dict_values r)) = set ids"
proof
  show "set (concat (dict_values r)) \<subseteq> set ids"
  proof
    fix i assume "i \<in> set (concat (dict_values r))"
    then obtain ep xs where m: "(ep, xs) \<in> set r" "i \<in> set xs" by auto
    have eq: "xs = filter (\<lambda>i. \<exists>sh. dict_get d i = Some sh \<and> eps ! sh = ep) ids"
      by (rule conjunct2 [OF iffD1 [OF route_spec(2) [OF assms] m(1)]])
    have "set xs \<subseteq> set ids" by (subst eq) (rule filter_is_subset)
    then show "i \<in> set ids" using m(2) by (rule subsetD)
  qed
  show "set ids \<subseteq> set (concat (dict_values r))"
  proof
    fix i assume i: "i \<in> set ids"
    then obtain sh where sh: "dict_get d i = Some sh" using route_spec(3) [OF assms] by blast
    let ?xs = "filter (\<lambda>i. \<exists>sh'. dict_get d i = Some sh' \<and> eps ! sh' = eps ! sh) ids"
    have "i \<in> set ?xs" using i sh by simp
    moreover from this have "?xs \<noteq> []" by (metis empty_iff list.set(1))
    then have "(eps ! sh, ?xs) \<in> set r" by (intro iffD2 [OF route_spec(2) [OF assms]] conjI refl)
    ultimately show "i \<in> set (concat (dict_values r))" by (auto intro!: bexI [of _ "(eps ! sh, ?xs)"])
  qed
qed

lemma routed_Ok: "routed ids tp m = Ok r \<Longrightarrow> route (tq_endpoints m) (tp_idx_to_shard tp) ids = Ok r"
  by (auto simp: routed_def split: if_splits)

lemma find_topic_Ok [simp]: "find_topic topic m = Ok tp \<longleftrightarrow> dict_get (tq_topics m) topic = Some tp"
  by (simp add: find_topic_def split: option.splits)

text \<open>
  A put is routed completely and correctly: when the manager answers, every index of the
  request belongs to a shard with an endpoint, appears under that endpoint and under no other, in the order of the request;
  no endpoint is listed twice or with nothing to store.
\<close>

theorem put_routes_partition:
  assumes "get_targets_for_put topic ids m = Ok r" "dict_get (tq_topics m) topic = Some tp"
  shows "dict_ok r \<and> set (concat (dict_values r)) = set ids \<and>
    (\<forall>ep xs. (ep, xs) \<in> set r \<longleftrightarrow> xs \<noteq> [] \<and>
       xs = filter (\<lambda>i. \<exists>sh. dict_get (tp_idx_to_shard tp) i = Some sh \<and> tq_endpoints m ! sh = ep) ids)"
proof -
  have r: "route (tq_endpoints m) (tp_idx_to_shard tp) ids = Ok r"
    using assms by (auto simp: get_targets_for_put_def dest: routed_Ok split: if_splits)
  show ?thesis by (intro conjI allI route_spec(1,2) [OF r] route_covers [OF r])
qed

definition demo_topic :: topic_meta where
  "demo_topic = \<lparr>tp_nums_tq_data = 2, tp_prompts_num = 2, tp_n_samples = 2, tp_num_samples_gbs = 4,
     tp_columns = [''prompt'', ''reward''], tp_consumers = [''actor''],
     tp_ready = [(''prompt'', {0, 1, 2, 3}), (''reward'', {0, 2, 3})], tp_consumed = [(''actor'', {0})],
     tp_max_cur_index = 3, tp_idx_to_shard = [(0, 0), (1, 0), (2, 1), (3, 1)], tp_group_ids_per_shard = [{0}, {1}],
     tp_shared_written = [], tp_group_index_sets = [(0, {0, 1}), (1, {2, 3})], tp_uuid_to_group = [],
     tp_versions = [(4, {0, 1}), (5, {2, 3})]\<rparr>"

definition demo_manager :: manager where
  "demo_manager = \<lparr>tq_topics = [(''experience'', demo_topic)], tq_shards = [shard_init 0, shard_init 1],
     tq_endpoints = [''tcp://a'', ''tcp://b''], tq_timings = initial_timings\<rparr>"

lemma demo_targets: "get_targets_for_put ''experience'' [3, 0, 2] demo_manager = Ok [(''tcp://a'', [0]), (''tcp://b'', [3, 2])]"
  by (simp add: get_targets_for_put_def demo_manager_def demo_topic_def routed_def route_def endpoint_of_def dict_index_def
      py_nth_def empty_routes_def find_topic_def bind_res_def dict_get_default_def)

theorem put_routes_partition_witness:
  "\<exists>r. get_targets_for_put ''experience'' [3, 0, 2] demo_manager = Ok r \<and> set (concat (dict_values r)) = {0, 2, 3}"
proof -
  have "dict_get (tq_topics demo_manager) ''experience'' = Some demo_topic" by (simp add: demo_manager_def)
  from put_routes_partition [OF demo_targets this] demo_targets show ?thesis by auto
qed

section \<open>Handing out\<close>

definition consumed_of :: "string \<Rightarrow> string \<Rightarrow> manager \<Rightarrow> int set" where
  "consumed_of topic consumer m = (case dict_get (tq_topics m) topic of
     None \<Rightarrow> {} | Some tp \<Rightarrow> dict_get_default consumer {} (tp_consumed tp))"

definition ready_for :: "string list \<Rightarrow> topic_meta \<Rightarrow> int set" where
  "ready_for columns tp = {i. \<forall>c \<in> set columns. \<exists>s. dict_get (tp_ready tp) c = Some s \<and> i \<in> s}"

lemma ready_sets_Ok: "ready_sets columns tp = Ok ss \<Longrightarrow>
    length ss = length columns \<and> (\<forall>i. (\<forall>s \<in> set ss. i \<in> s) \<longleftrightarrow> i \<in> ready_for columns tp)"
proof (induction columns arbitrary: ss)
  case (Cons c cs)
  then obtain s ss' where "dict_get (tp_ready tp) c = Some s" "ready_sets cs tp = Ok ss'" "ss = s # ss'"
    by (auto simp: ready_sets_def dict_index_Ok)
  then show ?case using Cons.IH [of ss'] by (auto simp: ready_for_def)
qed (simp add: ready_sets_def ready_for_def)

lemma foldl_Int: "foldl (\<inter>) s ss = {i \<in> s. \<forall>t \<in> set ss. i \<in> t}"
  by (induction ss arbitrary: s) auto

lemma ready_in_all_Ok: "ready_in_all columns tp = Ok s \<Longrightarrow> columns \<noteq> [] \<and> s = ready_for columns tp"
proof -
  assume "ready_in_all columns tp = Ok s"
  then obtain ss where ss: "ready_sets columns tp = Ok ss" "ss \<noteq> []" "s = foldl (\<inter>) (hd ss) (tl ss)"
    by (auto simp: ready_in_all_def neq_Nil_conv split: list.splits)
  note r = ready_sets_Ok [OF ss(1)]
  have "s = {i. \<forall>t \<in> set ss. i \<in> t}" using ss(2,3) by (cases ss) (auto simp: foldl_Int)
  then show ?thesis using r ss(2) by auto
qed

lemma apply_freshness_subset: "apply_freshness l st tp A \<subseteq> A"
  by (auto simp: apply_freshness_def split: option.splits if_splits)

lemma usable_set_Ok:
  assumes "usable_set consumer columns l st tp = Ok A"
  shows "\<exists>s. dict_get (tp_consumed tp) consumer = Some s \<and> A = apply_freshness l st tp (ready_for columns tp - s)"
  using assms ready_in_all_Ok [of columns tp] by (auto simp: usable_set_def dict_index_Ok)

lemma usable_subset: "usable_set consumer columns l st tp = Ok A \<Longrightarrow>
    A \<subseteq> ready_for columns tp \<and> A \<inter> dict_get_default consumer {} (tp_consumed tp) = {} \<and> dict_has consumer (tp_consumed tp)"
  using usable_set_Ok [of consumer columns l st tp A] apply_freshness_subset
  by (fastforce simp: dict_get_default_def dict_has_def)

text \<open>Freshness: with both parameters given and neither 0, only the versions of the window are left.\<close>

lemma fresh_in_window: "i \<in> apply_freshness (Some l) (Some st) tp A \<Longrightarrow> l \<noteq> 0 \<Longrightarrow> st \<noteq> 0 \<Longrightarrow>
    \<exists>v s. (v, s) \<in> set (tp_versions tp) \<and> i \<in> s \<and> l - st \<le> v \<and> v \<le> l"
  by (auto simp: apply_freshness_def fresh_indexes_def)

lemma ask_sampler_subset:
  assumes "ask_sampler rs smp xs cnt vs = Ok ys" "\<forall>s. smp = Some s \<longrightarrow> sampler_ok s"
  shows "set ys \<subseteq> set xs"
  using assms by (auto simp: ask_sampler_def dest: in_set_takeD run_sampler_subset split: option.splits)

lemma sorted_of_set_subset: "set (sorted_list_of_set A) \<subseteq> A"
  by (cases "finite A") auto

lemma sample_ready_index_Ok:
  assumes "sample_ready_index rs consumer cnt columns st l smp tp = (Ok (Some ys), tp')"
    and "\<forall>s. smp = Some s \<longrightarrow> sampler_ok s"
  obtains A where "usable_set consumer columns l st tp = Ok A" "set ys \<subseteq> A" "tp' = consume consumer ys tp"
proof -
  obtain A where A: "usable_set consumer columns l st tp = Ok A"
      "ask_sampler rs smp (sorted_list_of_set A) cnt (List.map (idx_to_version (tp_versions tp)) (sorted_list_of_set A)) = Ok ys"
      "tp' = consume consumer ys tp"
    using assms(1) by (auto simp: sample_ready_index_def Let_def split: sum.splits if_splits)
  then show thesis using that ask_sampler_subset [OF A(2) assms(2)] sorted_of_set_subset [of A] by blast
qed

text \<open>Whole groups of a list lie in it.\<close>

lemma range_is_group:
  assumes "0 < n" shows "i \<in> set (group_range n g) \<longleftrightarrow> i div n = g"
proof
  assume "i \<in> set (group_range n g)"
  then obtain j where "i = g * n + int j" "int j < n" by (auto simp: group_range_def)
  then show "i div n = g" using assms by simp
next
  assume g: "i div n = g"
  have "i = g * n + int (nat (i mod n))" "nat (i mod n) < nat n"
    using assms div_mult_mod_eq [of i n] g pos_mod_sign [OF assms, of i] pos_mod_bound [OF assms, of i] by (simp_all add: nat_less_eq_zless)
  then show "i \<in> set (group_range n g)" unfolding group_range_def set_map by (intro image_eqI [where x = "nat (i mod n)"]) auto
qed

lemma card_group_range: "distinct (group_range n g) \<and> length (group_range n g) = nat n"
  by (simp add: group_range_def distinct_map inj_on_def)

lemma whole_group_subset:
  assumes "g \<in> set (whole_groups n xs)" shows "set (group_range n g) \<subseteq> set xs"
proof (cases "0 < n")
  case True
  let ?ys = "filter (\<lambda>i. i div n = g) xs"
  obtain ys where "(g, ys) \<in> set (group_by (\<lambda>i. i div n) xs)" "int (card (set ys)) = n"
    using assms by (auto simp: whole_groups_def)
  then have "int (card (set ?ys)) = n" by (simp only: group_by_member)
  moreover have "set ?ys \<subseteq> set (group_range n g)" using range_is_group [OF True] by auto
  moreover have "card (set (group_range n g)) = nat n" using card_group_range [of n g] by (simp add: distinct_card)
  ultimately have "set ?ys = set (group_range n g)" by (intro card_subset_eq) auto
  then show ?thesis by auto
qed (simp add: group_range_def)

lemma sample_groups_Ok:
  assumes "sample_ready_index_n_samples rs consumer cnt columns st l smp tp = (Ok (Some ys), tp')"
    and "\<forall>s. smp = Some s \<longrightarrow> sampler_ok s"
  obtains A gs where "usable_set consumer columns l st tp = Ok A" "set ys \<subseteq> A" "tp' = consume consumer ys tp"
    "ys = concat (List.map (group_range (tp_n_samples tp)) gs)"
proof -
  let ?n = "tp_n_samples tp"
  obtain A gs where A: "usable_set consumer columns l st tp = Ok A"
      "ask_sampler rs smp (whole_groups ?n (sorted_list_of_set A)) (cnt div ?n)
         (List.map (\<lambda>g. idx_to_version (tp_versions tp) (g * ?n)) (whole_groups ?n (sorted_list_of_set A))) = Ok gs"
      "ys = concat (List.map (group_range ?n) gs)" "tp' = consume consumer ys tp"
    using assms(1) by (auto simp: sample_ready_index_n_samples_def Let_def split: sum.splits if_splits)
  have "set (group_range ?n g) \<subseteq> A" if "g \<in> set gs" for g
    using that ask_sampler_subset [OF A(2) assms(2)] whole_group_subset [of g ?n] sorted_of_set_subset [of A] by blast
  then have "set ys \<subseteq> A" unfolding A(3) by auto
  then show thesis using that A by blast
qed

text \<open>Any failing or empty-handed request leaves the topic as it was.\<close>

lemma sample_otherwise:
  "sample_ready_index rs consumer cnt columns st l smp tp = (r, tp') \<Longrightarrow> (\<forall>ys. r \<noteq> Ok (Some ys)) \<Longrightarrow> tp' = tp"
  "sample_ready_index_n_samples rs consumer cnt columns st l smp tp = (r, tp') \<Longrightarrow> (\<forall>ys. r \<noteq> Ok (Some ys)) \<Longrightarrow> tp' = tp"
  by (auto simp: sample_ready_index_def sample_ready_index_n_samples_def Let_def split: sum.splits if_splits)

section \<open>Runs\<close>

text \<open>The operations that write, allocate, mark and hand out.\<close>

datatype queue_op =
    Add_topic string int int "string list" "string list"
  | Update_data string "int list" "string list"
  | Update_consumer string "int list" string
  | Record_versions string int "int list"
  | Allocate string int bool "string list"
  | New_groups string int
  | Mark_written string int string
  | Take "nat \<Rightarrow> nat" string string "string list" "int option" bool "int option" "int option" "any_sampler option"
  | Take_indexes string string "string list" "int list" "int option" "int option"

fun op_ok :: "queue_op \<Rightarrow> bool" where
  "op_ok (Take rs topic consumer columns cnt n st l smp) \<longleftrightarrow> (case smp of None \<Rightarrow> True | Some s \<Rightarrow> sampler_ok s)"
| "op_ok _ = True"

text \<open>A delivery: topic, consumer, indexes.\<close>

type_synonym delivery = "string \<times> string \<times> int list"

definition delivered :: "string \<Rightarrow> string \<Rightarrow> (string, int list) dict option result \<Rightarrow> delivery list" where
  "delivered topic consumer r = (case r of
      Inl _ \<Rightarrow> [] | Inr d \<Rightarrow> (case d of None \<Rightarrow> [] | Some d \<Rightarrow> [(topic, consumer, concat (dict_values d))]))"

fun queue_step :: "queue_op \<Rightarrow> manager \<Rightarrow> delivery list \<times> manager" where
  "queue_step (Add_topic topic p n columns consumers) m = ([], snd (add_topic topic p n columns consumers m))"
| "queue_step (Update_data topic ids columns) m = ([], snd (update_data_status topic ids columns m))"
| "queue_step (Update_consumer topic ids consumer) m = ([], snd (update_consumer_status topic ids consumer m))"
| "queue_step (Record_versions topic v ids) m = ([], snd (record_versions topic v ids m))"
| "queue_step (Allocate topic batch e uuids) m = ([], snd (allocate_indexes topic batch e uuids m))"
| "queue_step (New_groups topic k) m = ([], snd (get_allocation_for_new_groups topic k m))"
| "queue_step (Mark_written topic g column) m = ([], snd (mark_column_written_in_group topic g column m))"
| "queue_step (Take rs topic consumer columns cnt n st l smp) m =
     (case allocate_shard_and_indexes rs topic consumer columns cnt n st l smp m of (r, m') \<Rightarrow> (delivered topic consumer r, m'))"
| "queue_step (Take_indexes topic consumer columns ids st l) m =
     (case allocate_shard_for_indexes topic consumer columns ids st l m of (r, m') \<Rightarrow> (delivered topic consumer r, m'))"

fun queue_run :: "queue_op list \<Rightarrow> manager \<Rightarrow> delivery list \<times> manager" where
  "queue_run [] m = ([], m)"
| "queue_run (a # as) m = (let (ds, m') = queue_step a m; (ds', m'') = queue_run as m' in (ds @ ds', m''))"

text \<open>A step only adds to what is consumed; what it hands out was not, and is.\<close>

definition marks_fresh :: "delivery list \<Rightarrow> manager \<Rightarrow> manager \<Rightarrow> bool" where
  "marks_fresh ds m m' \<longleftrightarrow>
     (\<forall>topic consumer. consumed_of topic consumer m \<subseteq> consumed_of topic consumer m') \<and>
     (\<forall>(topic, consumer, ids) \<in> set ds. set ids \<inter> consumed_of topic consumer m = {} \<and> set ids \<subseteq> consumed_of topic consumer m') \<and>
     length ds \<le> 1"

lemma consumed_put [simp]: "consumed_of t c (put_topic topic tp m) =
    (if t = topic then dict_get_default c {} (tp_consumed tp) else consumed_of t c m)"
  by (simp add: consumed_of_def put_topic_def)

lemma consumed_shards [simp]: "consumed_of t c (m\<lparr>tq_shards := ss\<rparr>) = consumed_of t c m"
  by (simp add: consumed_of_def)

lemma marks_fresh_refl: "marks_fresh [] m m"
  by (simp add: marks_fresh_def)

lemma marks_fresh_put:
  assumes "dict_get (tq_topics m) topic = Some tp" "tp_consumed tp' = tp_consumed tp"
  shows "marks_fresh [] m ((put_topic topic tp' m)\<lparr>tq_shards := ss\<rparr>)"
  using assms by (auto simp: marks_fresh_def) (simp_all add: consumed_of_def)

lemma marks_fresh_put': "dict_get (tq_topics m) topic = Some tp \<Longrightarrow> tp_consumed tp' = tp_consumed tp \<Longrightarrow>
    marks_fresh [] m (put_topic topic tp' m)"
  using marks_fresh_put [of m topic tp tp' "tq_shards (put_topic topic tp' m)"] by simp

lemma consume_marks:
  assumes "dict_get (tq_topics m) topic = Some tp"
    and "ds = [] \<or> ds = [(topic, consumer, ys)] \<and> set ys \<inter> dict_get_default consumer {} (tp_consumed tp) = {} \<and> set ys \<subseteq> set ids"
  shows "marks_fresh ds m (put_topic topic (consume consumer ids tp) m)"
proof -
  have "consumed_of topic c m = dict_get_default c {} (tp_consumed tp)" for c
    by (simp add: consumed_of_def assms(1))
  then show ?thesis using assms(2) by (auto simp: marks_fresh_def consume_def)
qed

lemma marks_fresh_trans: "marks_fresh [] m m' \<Longrightarrow> marks_fresh [] m' m'' \<Longrightarrow> marks_fresh [] m m''"
  by (fastforce simp: marks_fresh_def)

lemma new_groups_consumed: "topic_new_groups k tp = (r, tp') \<Longrightarrow> tp_consumed tp' = tp_consumed tp"
  by (auto simp: topic_new_groups_def Let_def split: if_splits prod.splits)

lemma allocation_marks: "marks_fresh [] m (snd (get_allocation_for_new_groups topic k m))"
  by (auto simp: get_allocation_for_new_groups_def marks_fresh_refl split: sum.splits prod.splits
      intro!: marks_fresh_put dest: new_groups_consumed)

lemma name_uuids_fields [simp]:
  "tp_consumed (name_uuids us g tp) = tp_consumed tp"
  "tp_n_samples (name_uuids us g tp) = tp_n_samples tp"
  "tp_idx_to_shard (name_uuids us g tp) = tp_idx_to_shard tp"
  "tp_group_ids_per_shard (name_uuids us g tp) = tp_group_ids_per_shard tp"
  "tp_max_cur_index (name_uuids us g tp) = tp_max_cur_index tp"
  by (induction us g tp rule: name_uuids.induct) auto

lemma commit_uuids_consumed: "commit_uuids us tp = (r, tp') \<Longrightarrow> tp_consumed tp' = tp_consumed tp"
  by (auto simp: commit_uuids_def split: sum.splits prod.splits)

lemma maybe_allocation_marks:
  "marks_fresh [] m (snd (if b then get_allocation_for_new_groups topic k m else (Ok [], m)))"
  by (simp add: allocation_marks marks_fresh_refl)

lemma finish_marks:
  assumes "marks_fresh [] m m'" "dict_get (tq_topics m') topic = Some tp" "tp_consumed tp' = tp_consumed tp"
  shows "marks_fresh [] m (put_topic topic tp' m')"
  by (rule marks_fresh_trans [OF assms(1) marks_fresh_put' [OF assms(2,3)]])

lemma sequential_marks: "marks_fresh [] m (snd (allocate_sequential topic batch e m))"
proof (cases "dict_get (tq_topics m) topic")
  case (Some tp)
  let ?ids = "sequential_ids batch e tp"
  obtain r m' where s: "(if 0 < missing_groups ?ids tp then get_allocation_for_new_groups topic (missing_groups ?ids tp) m
      else (Ok [], m)) = (r, m')" by fastforce
  have "marks_fresh [] m m'" using maybe_allocation_marks [of m _ topic] s by (metis snd_conv)
  then show ?thesis
    by (auto simp: allocate_sequential_def find_topic_def Some s Let_def commit_sequential_def
        split: sum.splits option.splits intro: finish_marks)
qed (simp add: allocate_sequential_def find_topic_def marks_fresh_refl)

lemma uuid_marks: "marks_fresh [] m (snd (allocate_by_uuid topic uuids m))"
proof (cases "dict_get (tq_topics m) topic")
  case (Some tp)
  let ?new = "new_uuids uuids tp"
  obtain r m' where s: "(if ?new \<noteq> [] then get_allocation_for_new_groups topic (int (length ?new)) m
      else (Ok [], m)) = (r, m')" by fastforce
  have M: "marks_fresh [] m m'" using maybe_allocation_marks [of m _ topic] s by (metis snd_conv)
  have "marks_fresh [] m (put_topic topic tp'' m')"
    if "commit_uuids uuids (name_uuids ?new g tp') = (r', tp'')" "dict_get (tq_topics m') topic = Some tp'" for g tp' r' tp''
    using finish_marks [OF M that(2)] commit_uuids_consumed [OF that(1)] by simp
  then show ?thesis using M
    by (auto simp: allocate_by_uuid_def find_topic_def Some s Let_def split: sum.splits option.splits prod.splits)
qed (simp add: allocate_by_uuid_def find_topic_def marks_fresh_refl)

lemma allocate_marks: "marks_fresh [] m (snd (allocate_indexes topic batch e uuids m))"
  by (simp add: allocate_indexes_def sequential_marks uuid_marks)

lemma empty_sets_get: "dict_get_default k {} (empty_sets ks) = {}"
  unfolding empty_sets_def by (induction ks rule: rev_induct) auto

lemma add_topic_marks: "marks_fresh [] m (snd (add_topic topic p n columns consumers m))"
proof -
  have "tp_consumed tp = empty_sets consumers" if "topic_init k p n columns consumers = Ok tp" for k tp
    using that by (auto simp: topic_init_def split: if_splits)
  then show ?thesis
    by (auto simp: add_topic_def marks_fresh_def empty_sets_get split: sum.splits prod.splits)
      (auto simp: consumed_of_def dict_has_def)
qed

lemma routed_set: "routed ids tp m = Ok d \<Longrightarrow> set (concat (dict_values d)) = set ids"
  by (rule route_covers [OF routed_Ok])

lemma delivered_routed:
  assumes "set ys \<inter> C = {}"
  shows "delivered topic consumer (bind_res (routed ys tp m) (\<lambda>d. Ok (Some d))) = [] \<or>
    delivered topic consumer (bind_res (routed ys tp m) (\<lambda>d. Ok (Some d))) =
      [(topic, consumer, concat (dict_values (projr (routed ys tp m))))] \<and>
    set (concat (dict_values (projr (routed ys tp m)))) \<inter> C = {} \<and>
    set (concat (dict_values (projr (routed ys tp m)))) \<subseteq> set ys"
proof (cases "routed ys tp m")
  case (Inr d)
  then show ?thesis using assms routed_set [OF Inr] by (simp add: delivered_def)
qed (simp add: delivered_def)

lemma take_indexes_marks:
  assumes "allocate_shard_for_indexes topic consumer columns ids st l m = (r, m')"
  shows "marks_fresh (delivered topic consumer r) m m'"
proof (cases "dict_get (tq_topics m) topic")
  case None
  then show ?thesis using assms by (auto simp: allocate_shard_for_indexes_def find_topic_def delivered_def marks_fresh_refl)
next
  case (Some tp)
  then have f: "find_topic topic m = Ok tp" by simp
  let ?c = "dict_get_default consumer {} (tp_consumed tp)"
  consider "m' = m" "delivered topic consumer r = []"
    | ys where "set ys \<inter> ?c = {}" "m' = put_topic topic (consume consumer ys tp) m"
      "r = bind_res (routed ys (consume consumer ys tp) m) (\<lambda>d. Ok (Some d))"
  proof -
    let ?u = "bind_res (ready_sets columns tp) (\<lambda>ss. bind_res (dict_index consumer (tp_consumed tp)) (\<lambda>consumed.
               Ok (apply_freshness l st tp (foldl (\<inter>) (set ids) ss - consumed))))"
    show thesis
    proof (cases "\<exists>A. ?u = Ok A \<and> \<not> card A < length ids \<and> m' = put_topic topic (consume consumer (sorted_list_of_set A) tp) m \<and>
        r = bind_res (routed (sorted_list_of_set A) (consume consumer (sorted_list_of_set A) tp) m) (\<lambda>d. Ok (Some d))")
      case True
      then obtain A where A: "?u = Ok A" "m' = put_topic topic (consume consumer (sorted_list_of_set A) tp) m"
          "r = bind_res (routed (sorted_list_of_set A) (consume consumer (sorted_list_of_set A) tp) m) (\<lambda>d. Ok (Some d))"
        by blast
      from A(1) have "A \<inter> ?c = {}"
        using apply_freshness_subset by (fastforce simp: dict_index_Ok dict_get_default_def)
      then show thesis using that(2) [OF _ A(2,3)] sorted_of_set_subset [of A] by blast
    next
      case False
      then have "m' = m \<and> delivered topic consumer r = []"
        using assms by (auto simp: allocate_shard_for_indexes_def f delivered_def Let_def split: if_splits sum.splits)
      then show thesis using that(1) by blast
    qed
  qed
  then show ?thesis
  proof cases
    case 1
    then show ?thesis by (simp add: marks_fresh_refl)
  next
    case 2
    show ?thesis unfolding 2(2,3) by (rule consume_marks [OF Some delivered_routed [OF 2(1)]])
  qed
qed

lemma take_marks:
  assumes "allocate_shard_and_indexes rs topic consumer columns cnt n st l smp m = (r, m')" "\<forall>s. smp = Some s \<longrightarrow> sampler_ok s"
  shows "marks_fresh (delivered topic consumer r) m m'"
proof (cases "dict_get (tq_topics m) topic")
  case None
  then show ?thesis using assms by (auto simp: allocate_shard_and_indexes_def find_topic_def delivered_def marks_fresh_refl)
next
  case (Some tp)
  then have f: "find_topic topic m = Ok tp" by simp
  let ?c = "dict_get_default consumer {} (tp_consumed tp)"
  let ?s = "\<lambda>c. if n then sample_ready_index_n_samples rs consumer c columns st l smp tp
                      else sample_ready_index rs consumer c columns st l smp tp"
  have put: "marks_fresh [] m (put_topic topic tp m)" using marks_fresh_put' [OF Some refl] .
  show ?thesis
  proof (cases "m' = m \<and> delivered topic consumer r = []")
    case True
    then show ?thesis by (simp add: marks_fresh_refl)
  next
    case False
    then obtain c q tp' where s: "?s c = (q, tp')"
        "(r, m') = (case q of Inl e \<Rightarrow> (Err e, put_topic topic tp' m)
          | Inr chosen \<Rightarrow> (case chosen of None \<Rightarrow> (Ok None, put_topic topic tp' m)
             | Some ids \<Rightarrow> if ids = [] then (Ok None, put_topic topic tp' m)
                 else (bind_res (routed ids tp' m) (\<lambda>d. Ok (Some d)), put_topic topic tp' m)))"
      using assms(1) by (cases "?s (the cnt)")
        (auto simp: allocate_shard_and_indexes_def f delivered_def Let_def split: if_splits option.splits sum.splits)
    show ?thesis
    proof (cases "\<exists>ys. q = Ok (Some ys)")
      case False
      then have "tp' = tp" using s(1) sample_otherwise by (auto split: if_splits)
      then have "m' = put_topic topic tp m" "delivered topic consumer r = []"
        using s(2) False by (auto simp: delivered_def split: sum.splits option.splits)
      then show ?thesis using put by simp
    next
      case True
      then obtain ys where q: "q = Ok (Some ys)" by blast
      have u: "\<exists>A. usable_set consumer columns l st tp = Ok A \<and> set ys \<subseteq> A \<and> tp' = consume consumer ys tp"
        using s(1) q sample_ready_index_Ok [OF _ assms(2)] sample_groups_Ok [OF _ assms(2)] by (metis (full_types))
      then have fresh: "set ys \<inter> ?c = {}" using usable_subset [of consumer columns l st tp] by blast
      have m': "m' = put_topic topic (consume consumer ys tp) m" using s(2) q u by (auto split: if_splits)
      have "delivered topic consumer r = [] \<or>
          delivered topic consumer r = delivered topic consumer (bind_res (routed ys tp' m) (\<lambda>d. Ok (Some d)))"
        using s(2) q by (auto simp: delivered_def split: if_splits)
      then show ?thesis using consume_marks [OF Some delivered_routed [OF fresh]] consume_marks [OF Some disjI1 [OF refl]] m'
        by metis
    qed
  qed
qed

lemma update_marks:
  "marks_fresh [] m (snd (update_data_status topic ids columns m))"
  "marks_fresh [] m (snd (record_versions topic v ids m))"
  "marks_fresh [] m (snd (mark_column_written_in_group topic g column m))"
  by (auto simp: update_data_status_def record_versions_def mark_column_written_in_group_def topic_update_data_status_def
      topic_record_versions_def topic_mark_written_def Let_def marks_fresh_refl split: sum.splits if_splits
      intro!: marks_fresh_put')

lemma update_consumer_marks: "marks_fresh [] m (snd (update_consumer_status topic ids consumer m))"
  by (auto simp: update_consumer_status_def marks_fresh_refl split: sum.splits intro!: consume_marks)

lemma step_marks: "op_ok a \<Longrightarrow> queue_step a m = (ds, m') \<Longrightarrow> marks_fresh ds m m'"
proof (cases a)
  case (Take rs topic consumer columns cnt n st l smp)
  assume "op_ok a" "queue_step a m = (ds, m')"
  then show ?thesis
    using Take take_marks [of rs topic consumer columns cnt n st l smp m] by (auto split: prod.splits option.splits)
next
  case (Take_indexes topic consumer columns ids st l)
  assume "queue_step a m = (ds, m')"
  then show ?thesis
    using Take_indexes take_indexes_marks [of topic consumer columns ids st l m] by (auto split: prod.splits)
qed (use add_topic_marks update_marks update_consumer_marks allocate_marks allocation_marks in \<open>fastforce\<close>)+

lemma run_marks:
  assumes "queue_run as m = (ds, m')" "\<forall>a \<in> set as. op_ok a"
  shows "consumed_of topic consumer m \<subseteq> consumed_of topic consumer m' \<and>
    ((topic, consumer, ids) \<in> set ds \<longrightarrow>
       set ids \<inter> consumed_of topic consumer m = {} \<and> set ids \<subseteq> consumed_of topic consumer m')"
  using assms
proof (induction as arbitrary: m ds)
  case (Cons a as)
  obtain ds1 m1 where s: "queue_step a m = (ds1, m1)" by fastforce
  obtain ds2 where r: "queue_run as m1 = (ds2, m')" "ds = ds1 @ ds2" using Cons.prems(1) s by (auto split: prod.splits)
  have "marks_fresh ds1 m m1" using step_marks [OF _ s] Cons.prems(2) by simp
  then show ?case using Cons.IH [OF r(1)] Cons.prems(2) r(2) unfolding marks_fresh_def by fastforce
qed simp


definition demo_requests :: "queue_op list" where
  "demo_requests = [Take (\<lambda>_. 0) ''experience'' ''actor'' [''prompt''] (Some 2) False None None None,
     Take (\<lambda>_. 0) ''experience'' ''actor'' [''prompt''] (Some 1) False None None None]"

lemma demo_take: "fst (queue_run demo_requests demo_manager) = [(''experience'', ''actor'', [1, 2]), (''experience'', ''actor'', [3])]"
  by code_simp


section \<open>What is handed out\<close>

lemma whole_groups_distinct: "distinct (whole_groups n xs)"
  unfolding whole_groups_def using group_by_ok [of "\<lambda>i. i div n" xs] by (simp add: dict_ok_def distinct_map_filter)

lemma whole_group_div: "g \<in> set (whole_groups n xs) \<Longrightarrow> 0 < n \<Longrightarrow> i \<in> set (group_range n g) \<Longrightarrow> i div n = g"
  by (simp add: range_is_group)

lemma concat_groups_card:
  assumes "distinct gs" "0 < n"
  shows "int (card (set (concat (List.map (group_range n) gs)))) = int (length gs) * n"
  using assms(1)
proof (induction gs)
  case (Cons g gs)
  have "set (group_range n g) \<inter> set (concat (List.map (group_range n) gs)) = {}"
    using Cons.prems by (auto simp: range_is_group [OF assms(2)])
  moreover have "int (card (set (group_range n g))) = n" using card_group_range [of n g] assms(2) by (simp add: distinct_card)
  ultimately show ?case using Cons by (simp add: card_Un_disjoint algebra_simps)
qed simp

lemma plain_sample_card:
  assumes "sample_ready_index rs consumer cnt columns st l None tp = (Ok (Some ys), tp')" "0 < cnt"
  shows "int (card (set ys)) = cnt"
proof -
  obtain A where A: "\<not> int (length (sorted_list_of_set A)) < cnt" "ys = take (nat cnt) (sorted_list_of_set A)"
    using assms(1) by (auto simp del: sorted_list_of_set.length_sorted_key_list_of_set simp: sample_ready_index_def ask_sampler_def Let_def split: sum.splits if_splits)
  then show ?thesis using assms(2) by (simp add: distinct_card)
qed

lemma group_sample_card:
  assumes "sample_ready_index_n_samples rs consumer cnt columns st l None tp = (Ok (Some ys), tp')" "0 < cnt"
    "0 < tp_n_samples tp" "cnt mod tp_n_samples tp = 0"
  shows "int (card (set ys)) = cnt"
proof -
  let ?n = "tp_n_samples tp"
  obtain A where A: "\<not> int (length (whole_groups ?n (sorted_list_of_set A))) < cnt div ?n"
      "ys = concat (List.map (group_range ?n) (take (nat (cnt div ?n)) (whole_groups ?n (sorted_list_of_set A))))"
    using assms(1) by (auto simp: sample_ready_index_n_samples_def ask_sampler_def Let_def split: sum.splits if_splits)
  have "0 \<le> cnt div ?n" using assms(2,3) by (simp add: pos_imp_zdiv_nonneg_iff)
  then have "int (length (take (nat (cnt div ?n)) (whole_groups ?n (sorted_list_of_set A)))) = cnt div ?n" using A(1) by simp
  then have "int (card (set ys)) = cnt div ?n * ?n"
    unfolding A(2) using concat_groups_card [OF _ assms(3)] whole_groups_distinct by (simp add: distinct_take)
  then show ?thesis using assms(4) div_mult_mod_eq [of cnt ?n] by simp
qed

lemma take_cases:
  assumes "allocate_shard_and_indexes rs topic consumer columns cnt n st l smp m = (Ok (Some d), m')"
    "dict_get (tq_topics m) topic = Some tp"
  obtains c ys tp' where "cnt = Some c" "0 < c" "n \<longrightarrow> c mod tp_n_samples tp = 0"
    "(if n then sample_ready_index_n_samples rs consumer c columns st l smp tp
      else sample_ready_index rs consumer c columns st l smp tp) = (Ok (Some ys), tp')"
    "routed ys tp' m = Ok d" "m' = put_topic topic tp' m"
proof -
  have f: "find_topic topic m = Ok tp" using assms(2) by simp
  obtain c where c: "cnt = Some c" "0 < c" "n \<longrightarrow> c mod tp_n_samples tp = 0"
    using assms(1) by (auto simp: allocate_shard_and_indexes_def f split: if_splits option.splits)
  obtain q tp' where s: "(if n then sample_ready_index_n_samples rs consumer c columns st l smp tp
      else sample_ready_index rs consumer c columns st l smp tp) = (q, tp')" by fastforce
  obtain ys where "q = Ok (Some ys)" "routed ys tp' m = Ok d" "m' = put_topic topic tp' m"
    using assms(1) s c by (auto simp: allocate_shard_and_indexes_def f split: if_splits option.splits sum.splits)
  with c s show thesis by (intro that) simp_all
qed

text \<open>
  What a consumer is sent is what it asked for: every delivered sample is ready in each
  requested column, was not consumed by this consumer before and is from then on; with a version
  window (neither bound 0) its version lies in it; prompt groups come whole when they were asked for
  so; and without a sampler exactly the requested number of samples is delivered.
\<close>

theorem delivered_as_requested:
  assumes "allocate_shard_and_indexes rs topic consumer columns cnt n st l smp m = (Ok (Some d), m')"
    and "dict_get (tq_topics m) topic = Some tp" "op_ok (Take rs topic consumer columns cnt n st l smp)" "0 < tp_n_samples tp"
  shows "(\<forall>i \<in> set (concat (dict_values d)). i \<in> ready_for columns tp \<and> i \<notin> consumed_of topic consumer m \<and>
      i \<in> consumed_of topic consumer m' \<and>
      (\<forall>lv sv. l = Some lv \<and> st = Some sv \<and> lv \<noteq> 0 \<and> sv \<noteq> 0 \<longrightarrow>
         (\<exists>v s. (v, s) \<in> set (tp_versions tp) \<and> i \<in> s \<and> lv - sv \<le> v \<and> v \<le> lv)) \<and>
      (n \<longrightarrow> set (group_range (tp_n_samples tp) (i div tp_n_samples tp)) \<subseteq> set (concat (dict_values d)))) \<and>
    (smp = None \<longrightarrow> cnt = Some (int (card (set (concat (dict_values d))))))"
proof -
  let ?n = "tp_n_samples tp"
  have sok: "\<forall>s. smp = Some s \<longrightarrow> sampler_ok s" using assms(3) by auto
  obtain c ys tp' where t: "cnt = Some c" "0 < c" "n \<longrightarrow> c mod ?n = 0"
      "(if n then sample_ready_index_n_samples rs consumer c columns st l smp tp
        else sample_ready_index rs consumer c columns st l smp tp) = (Ok (Some ys), tp')"
      "routed ys tp' m = Ok d" "m' = put_topic topic tp' m"
    by (rule take_cases [OF assms(1,2)])
  have set: "set (concat (dict_values d)) = set ys" by (rule routed_set [OF t(5)])
  obtain A where A: "usable_set consumer columns l st tp = Ok A" "set ys \<subseteq> A" "tp' = consume consumer ys tp"
    using t(4) by (cases n) (auto elim!: sample_ready_index_Ok [OF _ sok] sample_groups_Ok [OF _ sok])
  have whole: "set (group_range ?n (i div ?n)) \<subseteq> set ys" if nn: "n" and ii: "i \<in> set ys" for i
  proof -
    have "sample_ready_index_n_samples rs consumer c columns st l smp tp = (Ok (Some ys), tp')" using t(4) nn by simp
    then obtain gs where gs: "ys = concat (List.map (group_range ?n) gs)" using sample_groups_Ok [OF _ sok] by metis
    then obtain g where "g \<in> set gs" "i \<in> set (group_range ?n g)" using ii by auto
    then show ?thesis using gs range_is_group [OF assms(4), of i g] by auto
  qed
  have fresh: "\<exists>v s. (v, s) \<in> set (tp_versions tp) \<and> i \<in> s \<and> lv - sv \<le> v \<and> v \<le> lv"
    if "i \<in> set ys" "l = Some lv" "st = Some sv" "lv \<noteq> 0" "sv \<noteq> 0" for i lv sv
  proof -
    obtain s where "A = apply_freshness l st tp (ready_for columns tp - s)" using usable_set_Ok [OF A(1)] by blast
    then show ?thesis using fresh_in_window [of i lv sv] that A(2) by blast
  qed
  have card: "cnt = Some (int (card (set ys)))" if "smp = None"
    using t(1-4) that plain_sample_card [of rs consumer c columns st l tp ys tp']
      group_sample_card [of rs consumer c columns st l tp ys tp'] assms(4) by (cases n) auto
  have before: "consumed_of topic consumer m = dict_get_default consumer {} (tp_consumed tp)"
    using assms(2) by (simp add: consumed_of_def)
  have after: "set ys \<subseteq> consumed_of topic consumer m'" unfolding t(6) A(3) by (simp add: consume_def)
  show ?thesis unfolding set using usable_subset [OF A(1)] A(2) before after whole fresh card by blast
qed

lemma demo_take_groups: "fst (allocate_shard_and_indexes (\<lambda>_. 0) ''experience'' ''actor'' [''prompt''] (Some 2) True (Some 1) (Some 5) None demo_manager) =
    Ok (Some [(''tcp://b'', [2, 3])])"
  by code_simp

theorem delivered_as_requested_witness:
  "{2, 3} \<subseteq> ready_for [''prompt''] demo_topic \<and> card {2, 3 :: int} = 2"
proof -
  obtain m' where r: "allocate_shard_and_indexes (\<lambda>_. 0) ''experience'' ''actor'' [''prompt''] (Some 2) True (Some 1) (Some 5) None
      demo_manager = (Ok (Some [(''tcp://b'', [2, 3])]), m')"
    using demo_take_groups by (metis prod.collapse)
  have t: "dict_get (tq_topics demo_manager) ''experience'' = Some demo_topic" by (simp add: demo_manager_def)
  have n: "0 < tp_n_samples demo_topic" by (simp add: demo_topic_def)
  from delivered_as_requested [OF r t _ n] show ?thesis by auto
qed

end
