(* ===== verification/TQAllocate.thy ===== *)
theory TQAllocate
  imports TQDelivery
begin

text \<open>
  The allocation of sample indexes (\<open>allocate_indexes\<close>, \<open>_allocate_sequential\<close>, \<open>_allocate_by_uuid\<close> and
  \<open>get_allocation_for_new_groups\<close> of \<open>transfer_queue/tq_mgr.py\<close>). While nothing is deleted, the prompt
  groups are numbered without gaps and spread evenly over the shards, the allocated indexes of each
  group are a prefix of its range, and no index is handed out twice.
\<close>

section \<open>Even shares\<close>

text \<open>The share of shard \<open>i\<close> of \<open>k\<close> in \<open>x\<close> groups.\<close>

definition share :: "int \<Rightarrow> int \<Rightarrow> int \<Rightarrow> int" where
  "share k x i = x div k + (if i < x mod k then 1 else 0)"

lemma share_div:
  assumes "0 \<le> i" "i < k" shows "share k x i = (x + (k - 1 - i)) div k"
proof -
  have k: "0 < k" using assms by simp
  have x: "x + (k - 1 - i) = (x mod k + (k - 1 - i)) + x div k * k" by simp
  have r: "0 \<le> x mod k" "x mod k < k" using k by simp_all
  have "(x mod k + (k - 1 - i)) div k = (if i < x mod k then 1 else 0)"
  proof (cases "i < x mod k")
    case True
    have e: "x mod k + (k - 1 - i) = (x mod k - 1 - i) + 1 * k" by simp
    have "(x mod k - 1 - i) div k = 0" using True r assms by (intro div_pos_pos_trivial) linarith+
    then show ?thesis unfolding e using k True by (simp del: mult_1)
  next
    case False
    then show ?thesis using r assms by (simp add: div_pos_pos_trivial)
  qed
  moreover have "(x + (k - 1 - i)) div k = (x mod k + (k - 1 - i)) div k + x div k"
  proof -
    have "k \<noteq> 0" using k by simp
    then have "(x mod k + (k - 1 - i) + x div k * k) div k = x div k + (x mod k + (k - 1 - i)) div k"
      by (rule div_mult_self1)
    then show ?thesis unfolding x [symmetric] by linarith
  qed
  ultimately show ?thesis by (simp add: share_def)
qed

lemma share_mono: "0 \<le> i \<Longrightarrow> i < k \<Longrightarrow> x \<le> y \<Longrightarrow> share k x i \<le> share k y i"
  by (simp add: share_div zdiv_mono1)

lemma share_near: "0 < k \<Longrightarrow> \<bar>share k x i - share k x j\<bar> \<le> 1"
  by (simp add: share_def)

lemma count_below: "0 \<le> r \<Longrightarrow> r \<le> int k \<Longrightarrow> (\<Sum>i\<leftarrow>[0..<k]. if int i < r then 1 else 0) = r"
proof (induction k arbitrary: r)
  case (Suc k)
  show ?case
  proof (cases "r \<le> int k")
    case False
    then have r: "r = int (Suc k)" using Suc.prems by simp
    have "(\<Sum>i\<leftarrow>[0..<k]. if int i < r then 1 else 0) = (\<Sum>i\<leftarrow>[0..<k]. if int i < int k then 1 else (0::int))"
      by (rule arg_cong [where f = sum_list], rule map_cong) (auto simp: r)
    then show ?thesis using Suc.IH [of "int k"] r by simp
  qed (use Suc in simp)
qed simp

lemma share_sum: "0 < k \<Longrightarrow> (\<Sum>i\<leftarrow>[0..<nat k]. share k x (int i)) = x"
proof -
  assume k: "0 < k"
  have "(\<Sum>i\<leftarrow>[0..<nat k]. share k x (int i)) =
      (\<Sum>i\<leftarrow>[0..<nat k]. x div k) + (\<Sum>i\<leftarrow>[0..<nat k]. if int i < x mod k then 1 else 0)"
    unfolding share_def by (rule sum_list_addf)
  also have "\<dots> = k * (x div k) + x mod k"
  proof -
    have "0 \<le> x mod k" "x mod k \<le> int (nat k)" using pos_mod_bound [OF k, of x] pos_mod_sign [OF k, of x] k by linarith+
    note count_below [OF this]
    then show ?thesis using k by (simp add: sum_list_triv)
  qed
  finally show ?thesis by simp
qed

section \<open>Groups on shards\<close>

text \<open>Groups \<open>0..<G\<close>, each on one shard, in even shares; an index is mapped where its group is.\<close>

definition groups_ok :: "int \<Rightarrow> int \<Rightarrow> int \<Rightarrow> int set list \<Rightarrow> (int, nat) dict \<Rightarrow> bool" where
  "groups_ok k n G gs d \<longleftrightarrow> length gs = nat k \<and> (\<forall>s \<in> set gs. finite s) \<and> \<Union> (set gs) = {0..<G} \<and>
     (\<forall>i j. i < j \<and> j < length gs \<longrightarrow> gs ! i \<inter> gs ! j = {}) \<and>
     (\<forall>i < length gs. int (card (gs ! i)) = share k G (int i)) \<and>
     (\<forall>idx sh. dict_get d idx = Some sh \<longleftrightarrow> sh < length gs \<and> idx div n \<in> gs ! sh)"

lemma set_shard_get: "dict_get (set_shard sh ids d) i = (if i \<in> set ids then Some sh else dict_get d i)"
  unfolding set_shard_def by (induction ids rule: rev_induct) auto

lemma assign_groups_spec:
  assumes "assign_groups n sh needs cur d = (idss, d')" "0 < n" "\<forall>x \<in> set needs. 0 \<le> x"
  shows "length idss = length needs \<and> \<Union> (set (List.map set idss)) = {cur..<cur + sum_list needs} \<and>
    (\<forall>j < length needs. int (card (set (idss ! j))) = needs ! j) \<and>
    (\<forall>i j. i < j \<and> j < length needs \<longrightarrow> set (idss ! i) \<inter> set (idss ! j) = {}) \<and>
    (\<forall>idx j. j < length needs \<and> idx div n \<in> set (idss ! j) \<longrightarrow> dict_get d' idx = Some (sh + j)) \<and>
    (\<forall>idx. idx div n \<notin> {cur..<cur + sum_list needs} \<longrightarrow> dict_get d' idx = dict_get d idx)"
  using assms
proof (induction n sh needs cur d arbitrary: idss d' rule: assign_groups.induct)
  case (2 n sh need needs cur d)
  define ids where "ids = (if 0 < need then List.map (\<lambda>j. cur + int j) [0..<nat need] else [])"
  define d1 where "d1 = (if 0 < need then set_shard sh (concat (List.map (group_range n) ids)) d else d)"
  obtain rest where r: "assign_groups n (Suc sh) needs (cur + need) d1 = (rest, d')" "idss = ids # rest"
    using "2.prems"(1,3) unfolding ids_def d1_def by (auto simp: Let_def split: if_splits prod.splits)
  have nn: "0 \<le> need" "\<forall>x \<in> set needs. 0 \<le> x" using "2.prems"(3) by simp_all
  have s0: "0 \<le> sum_list needs" using nn(2) by (simp add: sum_list_nonneg)
  have IH: "length rest = length needs \<and> \<Union> (set (List.map set rest)) = {cur + need..<cur + need + sum_list needs} \<and>
    (\<forall>j < length needs. int (card (set (rest ! j))) = needs ! j) \<and>
    (\<forall>i j. i < j \<and> j < length needs \<longrightarrow> set (rest ! i) \<inter> set (rest ! j) = {}) \<and>
    (\<forall>idx j. j < length needs \<and> idx div n \<in> set (rest ! j) \<longrightarrow> dict_get d' idx = Some (Suc sh + j)) \<and>
    (\<forall>idx. idx div n \<notin> {cur + need..<cur + need + sum_list needs} \<longrightarrow> dict_get d' idx = dict_get d1 idx)"
  proof (cases "0 < need")
    case True
    then show ?thesis using "2.IH"(1) [OF True ids_def [unfolded if_P [OF True]], of rest d'] r(1) "2.prems"(2) nn(2)
      by (simp add: d1_def if_P [OF True])
  next
    case False
    then have "need = 0" using nn(1) by simp
    then show ?thesis using "2.IH"(2) [OF False, of rest d'] r(1) "2.prems"(2) nn(2) by (simp add: d1_def)
  qed
  have si: "set ids = {cur..<cur + need}"
  proof -
    have "x \<in> (\<lambda>j. cur + int j) ` {0..<nat need}" if "cur \<le> x" "x < cur + need" for x
      by (rule image_eqI [of _ _ "nat (x - cur)"]) (use that in auto)
    then show ?thesis unfolding ids_def by auto
  qed
  have d1: "dict_get d1 idx = (if idx div n \<in> set ids then Some sh else dict_get d idx)" for idx
    using range_is_group [OF "2.prems"(2), of idx] by (auto simp: d1_def set_shard_get ids_def)
  have disj: "set ids \<inter> set (rest ! j) = {}" if "j < length needs" for j
  proof -
    have "set (rest ! j) \<subseteq> {cur + need..<cur + need + sum_list needs}" using IH that by (metis UN_upper list.set_map nth_mem Sup_upper image_eqI)
    then show ?thesis using si by auto
  qed
  show ?case
  proof (intro conjI)
    show "length idss = length (need # needs)" using IH r(2) by simp
    show "\<Union> (set (List.map set idss)) = {cur..<cur + sum_list (need # needs)}"
      using IH r(2) si s0 nn(1) by auto
    show "\<forall>j < length (need # needs). int (card (set (idss ! j))) = (need # needs) ! j"
      using IH r(2) si nn(1) by (auto simp: nth_Cons split: nat.splits)
    show "\<forall>i j. i < j \<and> j < length (need # needs) \<longrightarrow> set (idss ! i) \<inter> set (idss ! j) = {}"
      using IH r(2) disj by (auto simp: nth_Cons split: nat.splits)
    show "\<forall>idx j. j < length (need # needs) \<and> idx div n \<in> set (idss ! j) \<longrightarrow> dict_get d' idx = Some (sh + j)"
      using IH r(2) si d1 by (auto simp: nth_Cons split: nat.splits)
    show "\<forall>idx. idx div n \<notin> {cur..<cur + sum_list (need # needs)} \<longrightarrow> dict_get d' idx = dict_get d idx"
      using IH d1 si s0 nn(1) by auto
  qed
qed simp

lemma needed_shares:
  assumes "groups_ok (tp_nums_tq_data tp) n G (tp_group_ids_per_shard tp) d" "0 < tp_nums_tq_data tp"
  shows "needed_counts tp num = List.map (\<lambda>i. share (tp_nums_tq_data tp) (G + num) (int i) - share (tp_nums_tq_data tp) G (int i))
      [0..<nat (tp_nums_tq_data tp)]"
    and "sum_list (List.map (\<lambda>g. int (card g)) (tp_group_ids_per_shard tp)) = G"
proof -
  let ?k = "tp_nums_tq_data tp"
  have cur: "List.map (\<lambda>g. int (card g)) (tp_group_ids_per_shard tp) = List.map (\<lambda>i. share ?k G (int i)) [0..<nat ?k]"
    using assms by (intro nth_equalityI) (auto simp: groups_ok_def)
  show s: "sum_list (List.map (\<lambda>g. int (card g)) (tp_group_ids_per_shard tp)) = G"
    unfolding cur by (rule share_sum [OF assms(2)])
  show "needed_counts tp num = List.map (\<lambda>i. share ?k (G + num) (int i) - share ?k G (int i)) [0..<nat ?k]"
    unfolding needed_counts_def Let_def s unfolding cur by (rule map_cong) (auto simp: share_def)
qed

lemma Union_nth: "\<Union> (set xs) = (\<Union>i<length xs. xs ! i)"
  by (auto simp: set_conv_nth)

text \<open>New groups keep the shards even and the numbering without gaps.\<close>

lemma topic_new_groups_ok:
  assumes g: "groups_ok (tp_nums_tq_data tp) (tp_n_samples tp) G (tp_group_ids_per_shard tp) (tp_idx_to_shard tp)"
    and k: "0 < tp_nums_tq_data tp" and n: "0 < tp_n_samples tp" and c: "cur_max_group tp + 1 = G" "0 \<le> G" and num: "0 \<le> num"
  obtains idss gs d where "topic_new_groups num tp = (Ok idss, tp\<lparr>tp_idx_to_shard := d, tp_group_ids_per_shard := gs\<rparr>)"
    "groups_ok (tp_nums_tq_data tp) (tp_n_samples tp) (G + num) gs d" "length idss = nat (tp_nums_tq_data tp)"
proof -
  let ?k = "tp_nums_tq_data tp" and ?n = "tp_n_samples tp" and ?gs = "tp_group_ids_per_shard tp"
  let ?needs = "needed_counts tp num"
  obtain idss d where a: "assign_groups ?n 0 ?needs G (tp_idx_to_shard tp) = (idss, d)" by fastforce
  note needs = needed_shares(1) [OF g k, of num]
  have ln: "length ?needs = nat ?k" "length ?gs = nat ?k" using needs g by (simp_all add: groups_ok_def)
  have pos: "\<forall>x \<in> set ?needs. 0 \<le> x" unfolding needs using num by (auto intro!: share_mono)
  have sum: "sum_list ?needs = num"
    unfolding needs sum_list_subtractf share_sum [OF k] by simp
  note A = assign_groups_spec [OF a n pos, unfolded sum]
  define gs where "gs = List.map (\<lambda>(g, new). g \<union> set new) (zip ?gs idss)"
  have gi: "length gs = nat ?k" "\<And>i. i < nat ?k \<Longrightarrow> gs ! i = ?gs ! i \<union> set (idss ! i)"
    using A ln by (auto simp: gs_def)
  have old: "\<Union> (set ?gs) = {0..<G}" and new: "\<Union> (set (List.map set idss)) = {G..<G + num}"
    using g A by (auto simp: groups_ok_def)
  have old_i: "?gs ! i \<subseteq> {0..<G}" if "i < nat ?k" for i using old that ln by (metis Sup_upper nth_mem)
  have new_i: "set (idss ! i) \<subseteq> {G..<G + num}" if "i < nat ?k" for i
    using new that A ln by (metis Sup_upper length_map nth_map nth_mem)
  have sets: "\<Union> (set gs) = {0..<G + num}"
  proof -
    have "\<Union> (set gs) = (\<Union>i<nat ?k. gs ! i)" by (simp add: Union_nth gi(1))
    also have "\<dots> = (\<Union>i<nat ?k. ?gs ! i \<union> set (idss ! i))" by (intro SUP_cong refl) (simp add: gi(2))
    also have "\<dots> = \<Union> (set ?gs) \<union> \<Union> (set (List.map set idss))"
      using ln A by (simp only: Union_nth UN_Un_distrib length_map) simp
    finally show ?thesis using old new c num by auto
  qed
  have "groups_ok ?k ?n (G + num) gs d"
    unfolding groups_ok_def
  proof (intro conjI)
    show "length gs = nat ?k" by (rule gi)
    show "\<forall>s \<in> set gs. finite s" using g gi(1) by (auto simp: gs_def groups_ok_def dest!: set_zip_leftD)
    show "\<Union> (set gs) = {0..<G + num}" by (rule sets)
    show "\<forall>i j. i < j \<and> j < length gs \<longrightarrow> gs ! i \<inter> gs ! j = {}"
    proof (intro allI impI)
      fix i j assume ij: "i < j \<and> j < length gs"
      then have b: "i < nat ?k" "j < nat ?k" using gi(1) by auto
      have "?gs ! i \<inter> ?gs ! j = {}" "set (idss ! i) \<inter> set (idss ! j) = {}"
        using ij b g A ln by (auto simp: groups_ok_def)
      moreover have "?gs ! i \<inter> set (idss ! j) = {}" "set (idss ! i) \<inter> ?gs ! j = {}"
        using old_i [OF b(1)] old_i [OF b(2)] new_i [OF b(1)] new_i [OF b(2)] by fastforce+
      ultimately show "gs ! i \<inter> gs ! j = {}" using gi(2) b by auto
    qed
    show "\<forall>i < length gs. int (card (gs ! i)) = share ?k (G + num) (int i)"
    proof (intro allI impI)
      fix i assume "i < length gs"
      then have i: "i < nat ?k" using gi(1) by simp
      have "?gs ! i \<inter> set (idss ! i) = {}" using old_i [OF i] new_i [OF i] by fastforce
      then have "int (card (gs ! i)) = int (card (?gs ! i)) + int (card (set (idss ! i)))"
        using g i ln gi(2) [OF i] by (simp add: groups_ok_def card_Un_disjoint)
      also have "\<dots> = share ?k G (int i) + ?needs ! i" using g A i ln by (simp add: groups_ok_def)
      finally show "int (card (gs ! i)) = share ?k (G + num) (int i)" using i unfolding needs by simp
    qed
    show "\<forall>idx sh. dict_get d idx = Some sh \<longleftrightarrow> sh < length gs \<and> idx div ?n \<in> gs ! sh"
    proof (intro allI)
      fix idx sh
      show "dict_get d idx = Some sh \<longleftrightarrow> sh < length gs \<and> idx div ?n \<in> gs ! sh"
      proof (cases "idx div ?n \<in> {G..<G + num}")
        case True
        then have "idx div ?n \<in> \<Union> (set (List.map set idss))" using new by simp
        then obtain j where j: "j < nat ?k" "idx div ?n \<in> set (idss ! j)"
          using conjunct1 [OF A] ln by (auto simp only: Union_nth length_map nth_map UN_iff lessThan_iff)
        then have d: "dict_get d idx = Some j" using A ln by auto
        have "sh = j" if "sh < nat ?k" "idx div ?n \<in> set (idss ! sh)"
          using that j A ln by (metis (no_types, lifting) IntI empty_iff linorder_neqE_nat)
        then show ?thesis using d j gi old_i True by fastforce
      next
        case False
        then have "dict_get d idx = dict_get (tp_idx_to_shard tp) idx" using A by blast
        moreover have "dict_get (tp_idx_to_shard tp) idx = Some sh \<longleftrightarrow> sh < nat ?k \<and> idx div ?n \<in> ?gs ! sh"
          using g ln by (simp add: groups_ok_def)
        moreover have "idx div ?n \<notin> set (idss ! sh)" if "sh < nat ?k" using new_i [OF that] False by blast
        ultimately show ?thesis using gi by auto
      qed
    qed
  qed
  moreover have "topic_new_groups num tp = (Ok idss, tp\<lparr>tp_idx_to_shard := d, tp_group_ids_per_shard := gs\<rparr>)"
    using num a c by (simp add: topic_new_groups_def gs_def)
  moreover have "length idss = nat ?k" using A ln by simp
  ultimately show thesis using that by blast
qed

section \<open>Allocated indexes\<close>

definition allocated :: "(int, int set) dict \<Rightarrow> int set" where
  "allocated d = {i. \<exists>g s. dict_get d g = Some s \<and> i \<in> s}"

text \<open>The allocated indexes of a group are the first of its range; \<open>least\<close> says how many at least.\<close>

definition prefixes :: "int \<Rightarrow> int \<Rightarrow> int \<Rightarrow> (int, int set) dict \<Rightarrow> bool" where
  "prefixes least n G d \<longleftrightarrow> (\<forall>g. dict_has g d \<longleftrightarrow> 0 \<le> g \<and> g < G) \<and>
     (\<forall>g s. dict_get d g = Some s \<longrightarrow> (\<exists>c. least \<le> c \<and> c \<le> n \<and> s = {g * n..<g * n + c}))"

definition greatest :: "(int, int set) dict \<Rightarrow> int \<Rightarrow> bool" where
  "greatest d m \<longleftrightarrow> (allocated d = {} \<and> m = -1) \<or> (m \<in> allocated d \<and> (\<forall>i \<in> allocated d. i \<le> m))"

lemma allocated_set: "allocated (dict_set g s d) = {i. i \<in> s \<or> (\<exists>h t. h \<noteq> g \<and> dict_get d h = Some t \<and> i \<in> t)}"
  by (auto simp: allocated_def split: if_splits)

lemma allocated_add: "dict_get_default g {} d \<subseteq> s \<Longrightarrow> allocated (dict_set g s d) = allocated d \<union> s"
proof (intro equalityI subsetI)
  fix i assume sub: "dict_get_default g {} d \<subseteq> s" and "i \<in> allocated d \<union> s"
  then consider "i \<in> s" | h t where "dict_get d h = Some t" "i \<in> t" by (auto simp: allocated_def)
  then show "i \<in> allocated (dict_set g s d)"
  proof cases
    case (2 h t)
    then show ?thesis using sub by (cases "h = g") (auto simp: allocated_set dict_get_default_def)
  qed (simp add: allocated_set)
qed (auto simp: allocated_set allocated_def split: if_splits)

lemma prefixes_set:
  assumes "prefixes l n G d" "0 \<le> g" "g \<le> G" "l \<le> c" "c \<le> n"
  shows "prefixes l n (max G (g + 1)) (dict_set g {g * n..<g * n + c} d)"
  unfolding prefixes_def
proof (intro conjI allI impI)
  show "dict_has h (dict_set g {g * n..<g * n + c} d) \<longleftrightarrow> 0 \<le> h \<and> h < max G (g + 1)" for h
    using assms(1-3) by (auto simp: prefixes_def)
  fix h s assume "dict_get (dict_set g {g * n..<g * n + c} d) h = Some s"
  then have "h = g \<and> s = {g * n..<g * n + c} \<or> dict_get d h = Some s" by (auto split: if_splits)
  then show "\<exists>c. l \<le> c \<and> c \<le> n \<and> s = {h * n..<h * n + c}"
    using assms(1,4,5) unfolding prefixes_def by blast
qed

lemma div_range: "g * n \<le> i \<Longrightarrow> i < g * n + n \<Longrightarrow> i div n = (g :: int)"
  by (rule int_div_pos_eq [where r = "i - g * n"]) (simp_all add: algebra_simps)

lemma prefix_member:
  assumes "prefixes l n G d" "i \<in> allocated d" "0 \<le> l"
  shows "0 < n" "0 \<le> i div n" "i div n < G" "dict_get d (i div n) \<noteq> None" "i \<in> the (dict_get d (i div n))"
proof -
  obtain g s where gs: "dict_get d g = Some s" "i \<in> s" using assms(2) by (auto simp: allocated_def)
  then obtain c where c: "l \<le> c" "c \<le> n" "s = {g * n..<g * n + c}" using assms(1) unfolding prefixes_def by blast
  then have i: "g * n \<le> i" "i < g * n + n" using gs(2) by auto
  then show n: "0 < n" by linarith
  have g: "i div n = g" using i by (rule div_range)
  have "dict_has g d" using gs(1) by (simp add: dict_has_def)
  then show "0 \<le> i div n" "i div n < G" using assms(1) g by (auto simp: prefixes_def)
  show "dict_get d (i div n) \<noteq> None" "i \<in> the (dict_get d (i div n))" using gs g by auto
qed

lemma greatest_last:
  assumes p: "prefixes 1 n G d" and m: "greatest d m" and n: "0 < n" and G: "0 \<le> G"
  shows "G = m div n + 1" and "-1 \<le> m" and "0 < G \<Longrightarrow> dict_get d (G - 1) = Some {(G - 1) * n..<m + 1}"
proof -
  have last: "dict_get d (G - 1) = Some {(G - 1) * n..<m + 1} \<and> m div n = G - 1 \<and> 0 \<le> m" if "0 < G"
  proof -
    have "dict_has (G - 1) d" using p that by (simp add: prefixes_def)
    then obtain s where s: "dict_get d (G - 1) = Some s" by (auto simp: dict_has_def)
    then obtain c where c: "1 \<le> c" "c \<le> n" "s = {(G - 1) * n..<(G - 1) * n + c}" using p unfolding prefixes_def by blast
    let ?x = "(G - 1) * n + c - 1"
    have "?x \<in> {(G - 1) * n..<(G - 1) * n + c}" using c by simp
    then have x: "?x \<in> allocated d" using s c(3) unfolding allocated_def by blast
    then have mm: "m \<in> allocated d" "?x \<le> m" using m by (auto simp: greatest_def)
    have "m div n < G" "0 \<le> m div n" using prefix_member [OF p mm(1)] by simp_all
    moreover have "(G - 1) * n \<le> m" using c mm(2) by linarith
    then have "G - 1 \<le> m div n" using n by (metis less_imp_neq nonzero_mult_div_cancel_right zdiv_mono1)
    ultimately have d: "m div n = G - 1" by linarith
    have "m \<in> s" using prefix_member(5) [OF p mm(1)] s d by simp
    then have "m = ?x" using mm(2) c by simp
    moreover have "0 \<le> (G - 1) * n" using that n by simp
    ultimately show ?thesis using s c d by auto
  qed
  have zero: "m = -1" if "\<not> 0 < G"
    using m prefix_member(2,3) [OF p, of m] that by (fastforce simp: greatest_def)
  show "G = m div n + 1" using last zero G n by (cases "0 < G") (auto simp: div_eq_minus1)
  show "-1 \<le> m" using last zero by fastforce
  show "0 < G \<Longrightarrow> dict_get d (G - 1) = Some {(G - 1) * n..<m + 1}" using last by blast
qed

text \<open>One more index at the end.\<close>

lemma add_next:
  assumes p: "prefixes 1 n G d" and m: "greatest d m" and n: "0 < n" and G: "0 \<le> G"
  shows "\<exists>G'. prefixes 1 n G' (add_to_group n (m + 1) d) \<and> G \<le> G'" "greatest (add_to_group n (m + 1) d) (m + 1)"
    "allocated (add_to_group n (m + 1) d) = insert (m + 1) (allocated d)" "m + 1 \<notin> allocated d"
proof -
  note last = greatest_last [OF p m n G]
  let ?g = "(m + 1) div n" and ?d = "add_to_group n (m + 1) d"
  show new: "m + 1 \<notin> allocated d" using m by (auto simp: greatest_def)
  show all: "allocated ?d = insert (m + 1) (allocated d)"
    unfolding add_to_group_def by (subst allocated_add) (auto simp: allocated_def dict_get_default_def split: option.splits)
  show "greatest ?d (m + 1)" using m unfolding greatest_def all by fastforce
  show "\<exists>G'. prefixes 1 n G' ?d \<and> G \<le> G'"
  proof (cases "?g < G")
    case True
    have "G - 1 \<le> ?g" using last(1) zdiv_mono1 [of m "m + 1" n] n by simp
    moreover have "0 \<le> ?g" using last(2) n by (simp add: pos_imp_zdiv_nonneg_iff)
    ultimately have g: "?g = G - 1" "0 < G" using True by linarith+
    have b: "(G - 1) * n \<le> m + 1" "m + 1 < (G - 1) * n + n"
      using div_mult_mod_eq [of "m + 1" n] pos_mod_sign [OF n, of "m + 1"] pos_mod_bound [OF n, of "m + 1"]
      unfolding g(1) by linarith+
    then have "insert (m + 1) {(G - 1) * n..<m + 1} = {(G - 1) * n..<(G - 1) * n + (m + 2 - (G - 1) * n)}" by auto
    moreover have "1 \<le> m + 2 - (G - 1) * n" "m + 2 - (G - 1) * n \<le> n" using b by linarith+
    moreover have "?d = dict_set (G - 1) (insert (m + 1) {(G - 1) * n..<m + 1}) d"
      using last(3) [OF g(2)] g by (simp add: add_to_group_def dict_get_default_def)
    ultimately show ?thesis using prefixes_set [OF p, of "G - 1" "m + 2 - (G - 1) * n"] g by (intro exI [of _ G]) simp
  next
    case False
    have le: "G * n \<le> ?g * n" using False n by (simp add: mult_right_mono)
    have "?g * n \<le> m + 1" using pos_mod_sign [OF n, of "m + 1"] div_mult_mod_eq [of "m + 1" n] by linarith
    moreover have "m < m div n * n + n" using pos_mod_bound [OF n, of m] div_mult_mod_eq [of m n] by linarith
    then have "m < G * n" using last(1) by (simp add: distrib_right)
    ultimately have eq: "m + 1 = G * n" using le by linarith
    then have g: "?g = G" using n by simp
    have "\<not> dict_has G d" using p by (simp add: prefixes_def)
    then have "?d = dict_set G {m + 1} d" by (simp add: add_to_group_def g dict_get_default_def dict_has_def)
    moreover have "{m + 1} = {G * n..<G * n + 1}" using eq by auto
    ultimately show ?thesis using prefixes_set [OF p, of G 1] n G by (intro exI [of _ "G + 1"]) simp
  qed
qed

text \<open>The indexes \<open>m + 1, \<dots>\<close> in turn.\<close>

lemma add_all_next:
  assumes "prefixes 1 n G d" "greatest d m" "0 < n" "0 \<le> G"
  shows "\<exists>G'. G \<le> G' \<and> prefixes 1 n G' (foldl (\<lambda>d i. add_to_group n i d) d (List.map (\<lambda>j. m + 1 + int j) [0..<k])) \<and>
    greatest (foldl (\<lambda>d i. add_to_group n i d) d (List.map (\<lambda>j. m + 1 + int j) [0..<k])) (m + int k) \<and>
    allocated (foldl (\<lambda>d i. add_to_group n i d) d (List.map (\<lambda>j. m + 1 + int j) [0..<k])) =
      allocated d \<union> set (List.map (\<lambda>j. m + 1 + int j) [0..<k])"
proof (induction k)
  case (Suc k)
  let ?d = "foldl (\<lambda>d i. add_to_group n i d) d (List.map (\<lambda>j. m + 1 + int j) [0..<k])"
  obtain G' where G': "G \<le> G'" "prefixes 1 n G' ?d" "greatest ?d (m + int k)"
      "allocated ?d = allocated d \<union> set (List.map (\<lambda>j. m + 1 + int j) [0..<k])"
    using Suc.IH by blast
  have p: "0 \<le> G'" using G'(1) assms(4) by linarith
  note a = add_next [OF G'(2,3) assms(3) p]
  have eq: "m + int k + 1 = m + 1 + int k" by simp
  have f: "foldl (\<lambda>d i. add_to_group n i d) d (List.map (\<lambda>j. m + 1 + int j) [0..<Suc k]) = add_to_group n (m + 1 + int k) ?d"
    by simp
  obtain G'' where "prefixes 1 n G'' (add_to_group n (m + 1 + int k) ?d)" "G' \<le> G''" using a(1) [unfolded eq] by blast
  then show ?case unfolding f using a(2,3) [unfolded eq] G'(1,4) by (intro exI [of _ G'']) (simp add: add_ac)
qed (use assms in auto)

text \<open>The bookkeeping of a topic: its groups, its allocated indexes and the groups of its uuids.\<close>

definition topic_ok :: "topic_meta \<Rightarrow> bool" where
  "topic_ok tp \<longleftrightarrow> 0 < tp_nums_tq_data tp \<and> 0 < tp_n_samples tp \<and> (\<exists>G. 0 \<le> G \<and>
     groups_ok (tp_nums_tq_data tp) (tp_n_samples tp) G (tp_group_ids_per_shard tp) (tp_idx_to_shard tp) \<and>
     prefixes 1 (tp_n_samples tp) G (tp_group_index_sets tp) \<and> greatest (tp_group_index_sets tp) (tp_max_cur_index tp) \<and>
     (\<forall>u g. dict_get (tp_uuid_to_group tp) u = Some g \<longrightarrow> 0 \<le> g \<and> g < G))"

lemma topic_group_number:
  assumes "prefixes 1 (tp_n_samples tp) G (tp_group_index_sets tp)" "greatest (tp_group_index_sets tp) (tp_max_cur_index tp)"
    "0 < tp_n_samples tp" "0 \<le> G"
  shows "cur_max_group tp + 1 = G"
  using greatest_last [OF assms] by (auto simp: cur_max_group_def div_eq_minus1 split: if_splits)
    (smt (verit, best) assms(3) div_eq_minus1)

text \<open>The largest of the new indexes, and how many groups they need.\<close>

lemma sequential_max: "0 < k \<Longrightarrow> Max (set (List.map (\<lambda>j. m + 1 + int j) [0..<k])) = m + int k"
proof (rule Max_eqI)
  assume "0 < k"
  then show "m + int k \<in> set (List.map (\<lambda>j. m + 1 + int j) [0..<k])"
    unfolding set_map by (intro image_eqI [where x = "k - 1"]) auto
qed auto

lemma sequential_missing:
  assumes g: "groups_ok (tp_nums_tq_data tp) (tp_n_samples tp) G (tp_group_ids_per_shard tp) d"
    and k: "0 < tp_nums_tq_data tp" and ids: "ids = sequential_ids batch e tp"
  shows "missing_groups ids tp = (tp_max_cur_index tp + int (length ids)) div tp_n_samples tp + 1 - G"
  using sequential_max [of "length ids" "tp_max_cur_index tp"]
  unfolding missing_groups_def Let_def needed_shares(2) [OF g k] ids by (auto simp: sequential_ids_def Let_def)

lemma commit_sequential_ok:
  assumes "0 < tp_nums_tq_data tp" "0 < tp_n_samples tp"
    and g: "groups_ok (tp_nums_tq_data tp) (tp_n_samples tp) G' (tp_group_ids_per_shard tp) (tp_idx_to_shard tp)"
    and p: "prefixes 1 (tp_n_samples tp) G (tp_group_index_sets tp)" "greatest (tp_group_index_sets tp) (tp_max_cur_index tp)"
    and u: "\<forall>u g. dict_get (tp_uuid_to_group tp) u = Some g \<longrightarrow> 0 \<le> g \<and> g < G"
    and ids: "ids = List.map (\<lambda>j. tp_max_cur_index tp + 1 + int j) [0..<k]"
    and G: "0 \<le> G" "G' = (tp_max_cur_index tp + int k) div tp_n_samples tp + 1" "G \<le> G'"
  shows "topic_ok (commit_sequential ids tp) \<and>
    allocated (tp_group_index_sets (commit_sequential ids tp)) = allocated (tp_group_index_sets tp) \<union> set ids"
proof -
  let ?n = "tp_n_samples tp" and ?m = "tp_max_cur_index tp"
  let ?d = "foldl (\<lambda>d i. add_to_group ?n i d) (tp_group_index_sets tp) ids"
  obtain G2 where G2: "G \<le> G2" "prefixes 1 ?n G2 ?d" "greatest ?d (?m + int k)"
      "allocated ?d = allocated (tp_group_index_sets tp) \<union> set ids"
    using add_all_next [OF p assms(2) G(1), of k] unfolding ids by blast
  have "G2 = G'" using greatest_last(1) [OF G2(2,3) assms(2)] G2(1) G(1,2) by simp
  moreover have "tp_max_cur_index (commit_sequential ids tp) = ?m + int k"
    using sequential_max [of k ?m] by (cases "k = 0") (auto simp: commit_sequential_def ids)
  moreover have "\<forall>u g. dict_get (tp_uuid_to_group tp) u = Some g \<longrightarrow> 0 \<le> g \<and> g < G'" using u G(3) by fastforce
  ultimately show ?thesis
    using assms(1,2) g G2(2-4) G(1,3) by (auto simp: topic_ok_def commit_sequential_def intro!: exI [of _ G'])
qed

section \<open>Places for uuids\<close>

lemma place_uuids_ok:
  assumes "prefixes 0 n G d" "0 < n" "\<forall>u \<in> set us. \<exists>g. dict_get groups u = Some g \<and> 0 \<le> g \<and> g < G"
  obtains ids d' where "place_uuids n us groups d = (Ok ids, d')" "prefixes 0 n G d'" "distinct ids"
    "set ids \<inter> allocated d = {}" "allocated d' = allocated d \<union> set ids"
    "\<forall>u \<in> set us. \<exists>s. dict_get d' (the (dict_get groups u)) = Some s \<and> s \<noteq> {}"
    "\<forall>g s. dict_get d g = Some s \<longrightarrow> (\<exists>s'. dict_get d' g = Some s' \<and> s \<subseteq> s')"
  using assms
proof (induction us arbitrary: d thesis)
  case Nil
  then show ?case by (auto simp: allocated_def)
next
  case (Cons u us)
  obtain g where g: "dict_get groups u = Some g" "0 \<le> g" "g < G" using Cons.prems(4) by auto
  have us: "\<forall>u \<in> set us. \<exists>g. dict_get groups u = Some g \<and> 0 \<le> g \<and> g < G" using Cons.prems(4) by simp
  have "dict_has g d" using Cons.prems(2) g by (simp add: prefixes_def)
  then obtain s where s: "dict_get d g = Some s" unfolding dict_has_def by blast
  then obtain c where c: "0 \<le> c" "c \<le> n" "s = {g * n..<g * n + c}" using Cons.prems(2) unfolding prefixes_def by blast
  have card: "int (card s) = c" using c by simp
  show ?case
  proof (cases "n \<le> c")
    case True
    obtain ids d' where r: "place_uuids n us groups d = (Ok ids, d')" "prefixes 0 n G d'" "distinct ids"
        "set ids \<inter> allocated d = {}" "allocated d' = allocated d \<union> set ids"
        "\<forall>u \<in> set us. \<exists>s. dict_get d' (the (dict_get groups u)) = Some s \<and> s \<noteq> {}"
        "\<forall>g s. dict_get d g = Some s \<longrightarrow> (\<exists>s'. dict_get d' g = Some s' \<and> s \<subseteq> s')"
      using Cons.IH [OF _ Cons.prems(2,3) us] by blast
    have "place_uuids n (u # us) groups d = (Ok ids, d')" using g s card True r(1) by (simp add: dict_get_default_def)
    moreover have "s \<noteq> {}" using True Cons.prems(3) c by simp
    then have "\<exists>s'. dict_get d' g = Some s' \<and> s' \<noteq> {}" using r(7) s by blast
    ultimately show thesis using Cons.prems(1) r g by simp
  next
    case False
    let ?i = "g * n + c" and ?d = "dict_set g (insert (g * n + c) s) d"
    have ins: "insert ?i s = {g * n..<g * n + (c + 1)}" using c by auto
    have "prefixes 0 n (max G (g + 1)) ?d" unfolding ins using prefixes_set [OF Cons.prems(2) g(2)] g(3) c False by simp
    moreover have "max G (g + 1) = G" using g(3) by simp
    ultimately have p: "prefixes 0 n G ?d" by simp
    obtain ids d' where r: "place_uuids n us groups ?d = (Ok ids, d')" "prefixes 0 n G d'" "distinct ids"
        "set ids \<inter> allocated ?d = {}" "allocated d' = allocated ?d \<union> set ids"
        "\<forall>u \<in> set us. \<exists>s. dict_get d' (the (dict_get groups u)) = Some s \<and> s \<noteq> {}"
        "\<forall>g s. dict_get ?d g = Some s \<longrightarrow> (\<exists>s'. dict_get d' g = Some s' \<and> s \<subseteq> s')"
      using Cons.IH [OF _ p Cons.prems(3) us] by blast
    have all: "allocated ?d = insert ?i (allocated d)"
    proof -
      have "allocated ?d = allocated d \<union> insert ?i s" using s by (intro allocated_add) (simp add: dict_get_default_def subset_insertI)
      moreover have "s \<subseteq> allocated d" using s unfolding allocated_def by blast
      ultimately show ?thesis by blast
    qed
    have "?i div n = g" using c False by (intro div_range) auto
    then have new: "?i \<notin> allocated d" using prefix_member(5) [OF Cons.prems(2), of ?i] s c by auto
    have "place_uuids n (u # us) groups d = (Ok (?i # ids), d')"
      using g s card False r(1) by (simp add: dict_get_default_def)
    moreover have "distinct (?i # ids)" "set (?i # ids) \<inter> allocated d = {}" "allocated d' = allocated d \<union> set (?i # ids)"
      using r(3-5) new by (auto simp: all)
    moreover have "\<forall>h t. dict_get d h = Some t \<longrightarrow> (\<exists>s'. dict_get d' h = Some s' \<and> t \<subseteq> s')"
    proof (intro allI impI)
      fix h t assume h: "dict_get d h = Some t"
      then obtain t' where "dict_get ?d h = Some t'" "t \<subseteq> t'" using s by (cases "h = g") auto
      then show "\<exists>s'. dict_get d' h = Some s' \<and> t \<subseteq> s'" using r(7) by blast
    qed
    moreover have "dict_get ?d g = Some (insert ?i s)" by simp
    then obtain s' where "dict_get d' g = Some s'" "insert ?i s \<subseteq> s'" using r(7) by blast
    ultimately show thesis using Cons.prems(1) [of "?i # ids" d'] r(2,6) g by auto
  qed
qed

text \<open>New uuids get the next groups, empty at first.\<close>

lemma first_occurrences_set: "set (first_occurrences xs) = set xs \<and> distinct (first_occurrences xs)"
  by (induction xs) auto

lemma name_uuids_get:
  assumes "distinct us"
  shows "(\<forall>u. u \<notin> set us \<longrightarrow> dict_get (tp_uuid_to_group (name_uuids us g tp)) u = dict_get (tp_uuid_to_group tp) u) \<and>
    (\<forall>u \<in> set us. \<exists>h. dict_get (tp_uuid_to_group (name_uuids us g tp)) u = Some h \<and> g \<le> h \<and> h < g + int (length us)) \<and>
    (\<forall>h. g \<le> h \<and> h < g + int (length us) \<longrightarrow> (\<exists>u \<in> set us. dict_get (tp_uuid_to_group (name_uuids us g tp)) u = Some h)) \<and>
    (\<forall>h. dict_get (tp_group_index_sets (name_uuids us g tp)) h =
      (if g \<le> h \<and> h < g + int (length us) then Some {} else dict_get (tp_group_index_sets tp) h))"
  using assms
proof (induction us g tp rule: name_uuids.induct)
  case (2 u us g tp)
  define t where "t = tp\<lparr>tp_uuid_to_group := dict_set u g (tp_uuid_to_group tp), tp_group_index_sets := dict_set g {} (tp_group_index_sets tp)\<rparr>"
  have n: "name_uuids (u # us) g tp = name_uuids us (g + 1) t" by (simp add: t_def)
  have d: "distinct us" "u \<notin> set us" using "2.prems" by simp_all
  note IH = "2.IH" [OF d(1), folded t_def]
  have u: "dict_get (tp_uuid_to_group (name_uuids us (g + 1) t)) u = Some g"
    using conjunct1 [OF IH] d(2) by (simp add: t_def)
  show ?case unfolding n
  proof (intro conjI allI impI ballI)
    fix v assume "v \<notin> set (u # us)"
    then show "dict_get (tp_uuid_to_group (name_uuids us (g + 1) t)) v = dict_get (tp_uuid_to_group tp) v"
      using conjunct1 [OF IH] by (auto simp: t_def)
  next
    fix v assume v: "v \<in> set (u # us)"
    show "\<exists>h. dict_get (tp_uuid_to_group (name_uuids us (g + 1) t)) v = Some h \<and> g \<le> h \<and> h < g + int (length (u # us))"
    proof (cases "v = u")
      case False
      then obtain h where "dict_get (tp_uuid_to_group (name_uuids us (g + 1) t)) v = Some h" "g + 1 \<le> h" "h < g + 1 + int (length us)"
        using IH v by auto
      then show ?thesis by auto
    qed (use u in simp)
  next
    fix h assume h: "g \<le> h \<and> h < g + int (length (u # us))"
    show "\<exists>v \<in> set (u # us). dict_get (tp_uuid_to_group (name_uuids us (g + 1) t)) v = Some h"
    proof (cases "h = g")
      case False
      then have "g + 1 \<le> h \<and> h < g + 1 + int (length us)" using h by auto
      then show ?thesis using IH by (meson list.set_intros(2))
    qed (use u in simp)
  next
    fix h
    show "dict_get (tp_group_index_sets (name_uuids us (g + 1) t)) h =
      (if g \<le> h \<and> h < g + int (length (u # us)) then Some {} else dict_get (tp_group_index_sets tp) h)"
      using conjunct2 [OF conjunct2 [OF conjunct2 [OF IH]]] by (auto simp: t_def)
  qed
qed auto

lemma prefixes_weaken: "prefixes 1 n G d \<Longrightarrow> prefixes 0 n G d"
  unfolding prefixes_def by (meson order_trans zero_le_one)

text \<open>Placing uuids, from a topic whose new groups are there but have no uuid yet.\<close>

lemma commit_uuids_ok:
  fixes uuids tp tp0
  defines "new \<equiv> new_uuids uuids tp"
  assumes p: "prefixes 1 (tp_n_samples tp) G (tp_group_index_sets tp)" "greatest (tp_group_index_sets tp) (tp_max_cur_index tp)"
    and n: "0 < tp_nums_tq_data tp" "0 < tp_n_samples tp" and G: "0 \<le> G"
    and g: "groups_ok (tp_nums_tq_data tp) (tp_n_samples tp) (G + int (length new)) (tp_group_ids_per_shard tp) (tp_idx_to_shard tp)"
    and u: "\<forall>u g. dict_get (tp_uuid_to_group tp) u = Some g \<longrightarrow> 0 \<le> g \<and> g < G"
  obtains ids tp' where "commit_uuids uuids (name_uuids new G tp) = (Ok ids, tp')" "topic_ok tp'" "distinct ids"
    "set ids \<inter> allocated (tp_group_index_sets tp) = {}"
    "allocated (tp_group_index_sets tp') = allocated (tp_group_index_sets tp) \<union> set ids"
    "tp_idx_to_shard tp' = tp_idx_to_shard tp" "tp_nums_tq_data tp' = tp_nums_tq_data tp"
proof -
  let ?n = "tp_n_samples tp" and ?t = "name_uuids new G tp" and ?G = "G + int (length new)"
  let ?sets = "tp_group_index_sets ?t" and ?groups = "tp_uuid_to_group ?t"
  have new: "distinct new" "\<forall>u. u \<in> set new \<longleftrightarrow> u \<in> set uuids \<and> \<not> dict_has u (tp_uuid_to_group tp)"
    using first_occurrences_set [of "filter (\<lambda>u. \<not> dict_has u (tp_uuid_to_group tp)) uuids"] by (auto simp: new_def new_uuids_def)
  note N = name_uuids_get [OF new(1), of G tp]
  have sets: "dict_get ?sets h = (if G \<le> h \<and> h < ?G then Some {} else dict_get (tp_group_index_sets tp) h)" for h
    using N by blast
  have p0: "prefixes 0 ?n ?G ?sets"
    unfolding prefixes_def
  proof (intro conjI allI impI)
    show "dict_has h ?sets \<longleftrightarrow> 0 \<le> h \<and> h < ?G" for h
      using p(1) G by (auto simp: prefixes_def dict_has_def sets)
    show "\<exists>c. 0 \<le> c \<and> c \<le> ?n \<and> s = {h * ?n..<h * ?n + c}" if "dict_get ?sets h = Some s" for h s
      using that prefixes_weaken [OF p(1)] n(2) unfolding sets prefixes_def
      by (cases "G \<le> h \<and> h < ?G") (auto intro!: exI [of _ 0])
  qed
  have groups: "0 \<le> h \<and> h < ?G" if "dict_get ?groups v = Some h" for v h
  proof (cases "v \<in> set new")
    case True then show ?thesis using N that G by force
  next
    case False
    then have "dict_get (tp_uuid_to_group tp) v = Some h" using N that by simp
    then show ?thesis using u by fastforce
  qed
  have us: "\<forall>v \<in> set uuids. \<exists>h. dict_get ?groups v = Some h \<and> 0 \<le> h \<and> h < ?G"
  proof
    fix v assume "v \<in> set uuids"
    then have "dict_get ?groups v \<noteq> None" using N new(2) by (cases "v \<in> set new") (auto simp: dict_has_def)
    then show "\<exists>h. dict_get ?groups v = Some h \<and> 0 \<le> h \<and> h < ?G" using groups by blast
  qed
  obtain ids d' where r: "place_uuids ?n uuids ?groups ?sets = (Ok ids, d')" "prefixes 0 ?n ?G d'" "distinct ids"
      "set ids \<inter> allocated ?sets = {}" "allocated d' = allocated ?sets \<union> set ids"
      "\<forall>u \<in> set uuids. \<exists>s. dict_get d' (the (dict_get ?groups u)) = Some s \<and> s \<noteq> {}"
      "\<forall>g s. dict_get ?sets g = Some s \<longrightarrow> (\<exists>s'. dict_get d' g = Some s' \<and> s \<subseteq> s')"
    using place_uuids_ok [OF p0 n(2) us] by blast
  have all: "allocated ?sets = allocated (tp_group_index_sets tp)"
  proof -
    have "\<not> dict_has h (tp_group_index_sets tp)" if "G \<le> h" for h using p(1) that by (simp add: prefixes_def)
    then show ?thesis by (auto simp: allocated_def sets dict_has_def split: if_splits) (metis option.distinct(1))+
  qed
  have full: "prefixes 1 ?n ?G d'"
    unfolding prefixes_def
  proof (intro conjI allI impI)
    show "dict_has h d' \<longleftrightarrow> 0 \<le> h \<and> h < ?G" for h using r(2) by (simp add: prefixes_def)
    fix h s assume s: "dict_get d' h = Some s"
    then obtain c where c: "0 \<le> c" "c \<le> ?n" "s = {h * ?n..<h * ?n + c}" using r(2) unfolding prefixes_def by blast
    have h: "0 \<le> h" "h < ?G" using s r(2) by (auto simp: prefixes_def dict_has_def)
    have "s \<noteq> {}"
    proof (cases "G \<le> h")
      case True
      then obtain v where "v \<in> set new" "dict_get ?groups v = Some h" using N h by blast
      then show ?thesis using r(6) new(2) s by fastforce
    next
      case False
      then have "dict_has h (tp_group_index_sets tp)" using p(1) h by (simp add: prefixes_def)
      then obtain s0 where s0: "dict_get (tp_group_index_sets tp) h = Some s0" by (auto simp: dict_has_def)
      then obtain c0 where "1 \<le> c0" "s0 = {h * ?n..<h * ?n + c0}" using p(1) unfolding prefixes_def by blast
      then have "s0 \<noteq> {}" by simp
      moreover have "dict_get ?sets h = Some s0" using s0 False by (simp add: sets)
      then have "s0 \<subseteq> s" using r(7) s by fastforce
      ultimately show ?thesis by blast
    qed
    then show "\<exists>c. 1 \<le> c \<and> c \<le> ?n \<and> s = {h * ?n..<h * ?n + c}" using c by (intro exI [of _ c]) auto
  qed
  let ?m = "if ids = [] then tp_max_cur_index tp else max (tp_max_cur_index tp) (Max (set ids))"
  have nonneg: "0 \<le> i" if "i \<in> set ids" for i
  proof -
    have "i \<in> allocated d'" using that r(5) by simp
    then have "0 \<le> i div ?n" by (rule prefix_member(2) [OF r(2)]) simp
    then show ?thesis using n(2) by (simp add: pos_imp_zdiv_nonneg_iff)
  qed
  have m: "greatest d' ?m"
  proof (cases "ids = []")
    case True then show ?thesis using p(2) r(5) all by (simp add: greatest_def)
  next
    case False
    define M where "M = Max (set ids)"
    have M: "M \<in> set ids" "\<forall>i \<in> set ids. i \<le> M" using False by (simp_all add: M_def)
    have d': "allocated d' = allocated (tp_group_index_sets tp) \<union> set ids" using r(5) all by simp
    have "greatest d' (max (tp_max_cur_index tp) M)"
    proof (cases "tp_max_cur_index tp \<le> M")
      case True
      then have "\<forall>i \<in> allocated d'. i \<le> M" using p(2) M(2) unfolding greatest_def d' by fastforce
      then show ?thesis using True M(1) by (simp add: greatest_def d' max_def)
    next
      case le: False
      then have "tp_max_cur_index tp \<noteq> -1" using nonneg [OF M(1)] by linarith
      then have t: "tp_max_cur_index tp \<in> allocated (tp_group_index_sets tp)"
          "\<forall>i \<in> allocated (tp_group_index_sets tp). i \<le> tp_max_cur_index tp"
        using p(2) by (auto simp: greatest_def)
      have "\<forall>i \<in> set ids. i \<le> tp_max_cur_index tp" using M(2) le by fastforce
      then show ?thesis using t le by (auto simp: greatest_def d' max_def)
    qed
    then show ?thesis using False by (simp add: M_def)
  qed
  let ?tp = "?t\<lparr>tp_group_index_sets := d', tp_max_cur_index := ?m\<rparr>"
  have nm: "tp_nums_tq_data ?t = tp_nums_tq_data tp" for us g by (induction new G tp rule: name_uuids.induct) auto
  have "commit_uuids uuids ?t = (Ok ids, ?tp)" using r(1) by (simp add: commit_uuids_def)
  moreover have "topic_ok ?tp"
    using n G g full m groups nm by (auto simp: topic_ok_def intro!: exI [of _ ?G])
  ultimately show thesis using that [of ids ?tp] r(3-5) all nm by simp
qed

section \<open>The manager's states\<close>

text \<open>Every shard has a table for every topic, and every topic's bookkeeping is in order.\<close>

definition has_tables :: "(string, 'a) dict \<Rightarrow> shard list \<Rightarrow> bool" where
  "has_tables d ss \<longleftrightarrow> (\<forall>s \<in> set ss. \<forall>t. dict_has t (sh_tables s) \<longleftrightarrow> dict_has t d)"

definition mgr_ok :: "manager \<Rightarrow> bool" where
  "mgr_ok m \<longleftrightarrow> has_tables (tq_topics m) (tq_shards m) \<and> length (tq_endpoints m) = length (tq_shards m) \<and>
     (\<forall>topic tp. dict_get (tq_topics m) topic = Some tp \<longrightarrow> topic_ok tp \<and> tp_nums_tq_data tp = int (length (tq_shards m)))"

lemma announce_ok:
  assumes "\<forall>s \<in> set ss. dict_has topic (sh_tables s)" "length told = length ss"
  shows "fst (announce_groups topic told ss) = Ok () \<and> length (snd (announce_groups topic told ss)) = length ss \<and>
    (has_tables d ss \<longrightarrow> has_tables d (snd (announce_groups topic told ss)))"
  using assms
proof (induction ss arbitrary: told)
  case (Cons s ss)
  obtain gs told' where t: "told = gs # told'" "length told' = length ss" using Cons.prems(2) by (cases told) auto
  obtain tb where tb: "dict_get (sh_tables s) topic = Some tb" using Cons.prems(1) by (auto simp: dict_has_def)
  have IH: "fst (announce_groups topic told' ss) = Ok () \<and> length (snd (announce_groups topic told' ss)) = length ss \<and>
      (has_tables d ss \<longrightarrow> has_tables d (snd (announce_groups topic told' ss)))"
    using Cons.IH [OF _ t(2)] Cons.prems(1) by simp
  have one: "update_owned_groups topic gs s = (Ok (), s\<lparr>sh_tables := dict_set topic (tb\<lparr>et_owned_groups := et_owned_groups tb \<union> set gs\<rparr>) (sh_tables s)\<rparr>)"
    using tb by (simp add: update_owned_groups_def)
  have split: "announce_groups topic told (s # ss) = (fst (announce_groups topic told' ss),
      snd (update_owned_groups topic gs s) # snd (announce_groups topic told' ss))"
    using t(2) one by (cases "map_res fst (map2 (\<lambda>s gs. update_owned_groups topic gs s) ss told')")
      (simp_all add: announce_groups_def Let_def t(1))
  have "dict_has t (sh_tables s) \<longleftrightarrow> t = topic \<or> dict_has t (sh_tables s)" for t using tb by (auto simp: dict_has_def)
  then show ?case using IH unfolding split one by (auto simp: has_tables_def)
qed (simp add: announce_groups_def)

lemma has_tables_put: "dict_has topic d \<Longrightarrow> has_tables (dict_set topic x d) ss \<longleftrightarrow> has_tables d ss"
  by (auto simp: has_tables_def)

lemma mgr_ok_put:
  assumes "mgr_ok m" "dict_get (tq_topics m) topic = Some tp" "topic_ok tp'" "tp_nums_tq_data tp' = tp_nums_tq_data tp"
    and "has_tables (tq_topics m) ss" "length ss = length (tq_shards m)"
  shows "mgr_ok ((put_topic topic tp' m)\<lparr>tq_shards := ss\<rparr>)"
proof -
  have "dict_has topic (tq_topics m)" using assms(2) by (simp add: dict_has_def)
  then show ?thesis using assms by (auto simp: mgr_ok_def put_topic_def has_tables_put)
qed

lemma mgr_ok_put': "mgr_ok m \<Longrightarrow> dict_get (tq_topics m) topic = Some tp \<Longrightarrow> topic_ok tp' \<Longrightarrow>
    tp_nums_tq_data tp' = tp_nums_tq_data tp \<Longrightarrow> mgr_ok (put_topic topic tp' m)"
  using mgr_ok_put [of m topic tp tp' "tq_shards m"] by (simp add: mgr_ok_def put_topic_def)

text \<open>New groups on a manager in order: no error, the groups are on the shards.\<close>

lemma new_groups_manager:
  assumes m: "mgr_ok m" "dict_get (tq_topics m) topic = Some tp" and k: "0 \<le> k"
    and g: "groups_ok (tp_nums_tq_data tp) (tp_n_samples tp) G (tp_group_ids_per_shard tp) (tp_idx_to_shard tp)"
    and c: "cur_max_group tp + 1 = G" "0 \<le> G"
  obtains gs told d ss where
    "get_allocation_for_new_groups topic k m = (Ok told,
       (put_topic topic (tp\<lparr>tp_idx_to_shard := d, tp_group_ids_per_shard := gs\<rparr>) m)\<lparr>tq_shards := ss\<rparr>)"
    "groups_ok (tp_nums_tq_data tp) (tp_n_samples tp) (G + k) gs d"
    "has_tables (tq_topics m) ss" "length ss = length (tq_shards m)"
proof -
  have t: "topic_ok tp" "tp_nums_tq_data tp = int (length (tq_shards m))" using m by (auto simp: mgr_ok_def)
  obtain told gs d where r: "topic_new_groups k tp = (Ok told, tp\<lparr>tp_idx_to_shard := d, tp_group_ids_per_shard := gs\<rparr>)"
      "groups_ok (tp_nums_tq_data tp) (tp_n_samples tp) (G + k) gs d" "length told = nat (tp_nums_tq_data tp)"
    using topic_new_groups_ok [OF g _ _ c k] t(1) unfolding topic_ok_def by blast
  have tab: "has_tables (tq_topics m) (tq_shards m)" using m(1) by (simp add: mgr_ok_def)
  have has: "dict_has topic (tq_topics m)" using m(2) by (simp add: dict_has_def)
  then have all: "\<forall>s \<in> set (tq_shards m). dict_has topic (sh_tables s)" using tab by (simp add: has_tables_def)
  obtain q ss where ann: "announce_groups topic told (tq_shards m) = (q, ss)" by fastforce
  have "q = Ok ()" "has_tables (tq_topics m) ss" "length ss = length (tq_shards m)"
    using announce_ok [OF all, of told "tq_topics m"] r(3) t(2) tab ann by simp_all
  then show thesis using that r(1,2) ann m(2) by (simp add: get_allocation_for_new_groups_def find_topic_def)
qed

lemma put_topic_same: "dict_get (tq_topics m) topic = Some tp \<Longrightarrow> (put_topic topic tp m)\<lparr>tq_shards := tq_shards m\<rparr> = m"
  by (simp add: put_topic_def update_triv)

lemma maybe_new_groups:
  assumes m: "mgr_ok m" "dict_get (tq_topics m) topic = Some tp" and k: "b \<Longrightarrow> 0 \<le> k"
    and g: "groups_ok (tp_nums_tq_data tp) (tp_n_samples tp) G (tp_group_ids_per_shard tp) (tp_idx_to_shard tp)"
    and c: "cur_max_group tp + 1 = G" "0 \<le> G"
  obtains gs told d ss where
    "(if b then get_allocation_for_new_groups topic k m else (Ok [], m)) = (Ok told,
       (put_topic topic (tp\<lparr>tp_idx_to_shard := d, tp_group_ids_per_shard := gs\<rparr>) m)\<lparr>tq_shards := ss\<rparr>)"
    "groups_ok (tp_nums_tq_data tp) (tp_n_samples tp) (G + (if b then k else 0)) gs d"
    "has_tables (tq_topics m) ss" "length ss = length (tq_shards m)"
proof (cases b)
  case True
  obtain gs told d ss where "get_allocation_for_new_groups topic k m = (Ok told,
       (put_topic topic (tp\<lparr>tp_idx_to_shard := d, tp_group_ids_per_shard := gs\<rparr>) m)\<lparr>tq_shards := ss\<rparr>)"
      "groups_ok (tp_nums_tq_data tp) (tp_n_samples tp) (G + k) gs d"
      "has_tables (tq_topics m) ss" "length ss = length (tq_shards m)"
    by (rule new_groups_manager [OF m k [OF True] g c])
  then show thesis using that True by simp
next
  case False
  have "has_tables (tq_topics m) (tq_shards m)" using m(1) by (simp add: mgr_ok_def)
  then show thesis
    using that [of "[]" "tq_shards m" "tp_group_ids_per_shard tp" "tp_idx_to_shard tp"] False g put_topic_same [OF m(2)] by simp
qed

text \<open>What an allocation does to a manager in order.\<close>

definition allocates :: "string \<Rightarrow> manager \<Rightarrow> int list \<Rightarrow> manager \<Rightarrow> bool" where
  "allocates topic m ids m' \<longleftrightarrow> mgr_ok m' \<and>
     (\<forall>t. t \<noteq> topic \<longrightarrow> dict_get (tq_topics m') t = dict_get (tq_topics m) t) \<and>
     (\<exists>tp tp'. dict_get (tq_topics m) topic = Some tp \<and> dict_get (tq_topics m') topic = Some tp' \<and> distinct ids \<and>
        set ids \<inter> allocated (tp_group_index_sets tp) = {} \<and>
        allocated (tp_group_index_sets tp') = allocated (tp_group_index_sets tp) \<union> set ids)"

lemma allocates_put:
  assumes "mgr_ok m" "dict_get (tq_topics m) topic = Some tp" "topic_ok tp'" "tp_nums_tq_data tp' = tp_nums_tq_data tp"
    "has_tables (tq_topics m) ss" "length ss = length (tq_shards m)" "distinct ids"
    "set ids \<inter> allocated (tp_group_index_sets tp) = {}"
    "allocated (tp_group_index_sets tp') = allocated (tp_group_index_sets tp) \<union> set ids"
  shows "allocates topic m ids ((put_topic topic tp' m)\<lparr>tq_shards := ss\<rparr>)"
  using mgr_ok_put [OF assms(1-6)] assms by (simp add: allocates_def put_topic_def)

lemma sequential_step:
  assumes m: "mgr_ok m" "dict_get (tq_topics m) topic = Some tp"
  obtains m' where "allocate_sequential topic batch e m = (Ok (sequential_ids batch e tp), m')"
    "allocates topic m (sequential_ids batch e tp) m'"
proof -
  let ?ids = "sequential_ids batch e tp" and ?n = "tp_n_samples tp" and ?k = "tp_nums_tq_data tp"
  have t: "topic_ok tp" using m by (auto simp: mgr_ok_def)
  then obtain G where G: "0 \<le> G" "groups_ok ?k ?n G (tp_group_ids_per_shard tp) (tp_idx_to_shard tp)"
      "prefixes 1 ?n G (tp_group_index_sets tp)" "greatest (tp_group_index_sets tp) (tp_max_cur_index tp)"
      "\<forall>u g. dict_get (tp_uuid_to_group tp) u = Some g \<longrightarrow> 0 \<le> g \<and> g < G"
    unfolding topic_ok_def by blast
  have n: "0 < ?k" "0 < ?n" using t by (simp_all add: topic_ok_def)
  note last = greatest_last [OF G(3,4) n(2) G(1)]
  let ?miss = "missing_groups ?ids tp" and ?G' = "(tp_max_cur_index tp + int (length ?ids)) div ?n + 1"
  have miss: "?miss = ?G' - G" by (rule sequential_missing [OF G(2) n(1) refl])
  have le: "G \<le> ?G'" unfolding last(1) using n(2) by (simp add: zdiv_mono1)
  have ids: "?ids = List.map (\<lambda>j. tp_max_cur_index tp + 1 + int j) [0..<length ?ids]" by (simp add: sequential_ids_def Let_def)
  obtain gs told d ss where a:
      "(if 0 < ?miss then get_allocation_for_new_groups topic ?miss m else (Ok [], m)) = (Ok told,
         (put_topic topic (tp\<lparr>tp_idx_to_shard := d, tp_group_ids_per_shard := gs\<rparr>) m)\<lparr>tq_shards := ss\<rparr>)"
      "groups_ok ?k ?n (G + (if 0 < ?miss then ?miss else 0)) gs d" "has_tables (tq_topics m) ss" "length ss = length (tq_shards m)"
    by (rule maybe_new_groups [where b = "0 < ?miss" and k = ?miss, OF m less_imp_le G(2) topic_group_number [OF G(3,4) n(2) G(1)] G(1)])
  have "G + (if 0 < ?miss then ?miss else 0) = ?G'" using miss le by simp
  note g = a(2) [unfolded this]
  let ?tp1 = "tp\<lparr>tp_idx_to_shard := d, tp_group_ids_per_shard := gs\<rparr>" and ?c = "commit_sequential ?ids"
  have C: "topic_ok (?c ?tp1) \<and> allocated (tp_group_index_sets (?c ?tp1)) = allocated (tp_group_index_sets tp) \<union> set ?ids"
  proof -
    have f: "tp_n_samples ?tp1 = ?n" "tp_nums_tq_data ?tp1 = ?k" "tp_group_index_sets ?tp1 = tp_group_index_sets tp"
        "tp_max_cur_index ?tp1 = tp_max_cur_index tp" "tp_uuid_to_group ?tp1 = tp_uuid_to_group tp"
        "tp_group_ids_per_shard ?tp1 = gs" "tp_idx_to_shard ?tp1 = d" by simp_all
    show ?thesis
      by (rule commit_sequential_ok [of ?tp1 ?G' G ?ids "length ?ids", unfolded f, OF n g G(3-5) ids G(1) refl le])
  qed
  have d: "distinct ?ids" "set ?ids \<inter> allocated (tp_group_index_sets tp) = {}"
    using G(4) by (auto simp: sequential_ids_def Let_def distinct_map inj_on_def greatest_def)
  have "tp_nums_tq_data (?c ?tp1) = ?k" by (simp add: commit_sequential_def)
  then have "allocates topic m ?ids ((put_topic topic (?c ?tp1) m)\<lparr>tq_shards := ss\<rparr>)"
    using allocates_put [OF m _ _ a(3,4)] C d by simp
  moreover have "allocate_sequential topic batch e m = (Ok ?ids, (put_topic topic (?c ?tp1) m)\<lparr>tq_shards := ss\<rparr>)"
    using m(2) by (simp add: allocate_sequential_def find_topic_def Let_def a(1) put_topic_def)
  ultimately show thesis using that by blast
qed

lemma uuid_step:
  assumes m: "mgr_ok m" "dict_get (tq_topics m) topic = Some tp"
  obtains ids m' where "allocate_by_uuid topic uuids m = (Ok ids, m')" "allocates topic m ids m'"
proof -
  let ?n = "tp_n_samples tp" and ?k = "tp_nums_tq_data tp" and ?new = "new_uuids uuids tp"
  have t: "topic_ok tp" using m by (auto simp: mgr_ok_def)
  then obtain G where G: "0 \<le> G" "groups_ok ?k ?n G (tp_group_ids_per_shard tp) (tp_idx_to_shard tp)"
      "prefixes 1 ?n G (tp_group_index_sets tp)" "greatest (tp_group_index_sets tp) (tp_max_cur_index tp)"
      "\<forall>u g. dict_get (tp_uuid_to_group tp) u = Some g \<longrightarrow> 0 \<le> g \<and> g < G"
    unfolding topic_ok_def by blast
  have n: "0 < ?k" "0 < ?n" using t by (simp_all add: topic_ok_def)
  have cur: "cur_max_group tp + 1 = G" by (rule topic_group_number [OF G(3,4) n(2) G(1)])
  obtain gs told d ss where a:
      "(if ?new \<noteq> [] then get_allocation_for_new_groups topic (int (length ?new)) m else (Ok [], m)) = (Ok told,
         (put_topic topic (tp\<lparr>tp_idx_to_shard := d, tp_group_ids_per_shard := gs\<rparr>) m)\<lparr>tq_shards := ss\<rparr>)"
      "groups_ok ?k ?n (G + (if ?new \<noteq> [] then int (length ?new) else 0)) gs d" "has_tables (tq_topics m) ss"
      "length ss = length (tq_shards m)"
    by (rule maybe_new_groups [OF m of_nat_0_le_iff G(2) cur G(1)])
  have "G + (if ?new \<noteq> [] then int (length ?new) else 0) = G + int (length ?new)" by simp
  note g = a(2) [unfolded this]
  let ?tp1 = "tp\<lparr>tp_idx_to_shard := d, tp_group_ids_per_shard := gs\<rparr>"
  have same: "new_uuids uuids ?tp1 = ?new" by (simp add: new_uuids_def)
  obtain ids tp' where c: "commit_uuids uuids (name_uuids ?new G ?tp1) = (Ok ids, tp')" "topic_ok tp'" "distinct ids"
      "set ids \<inter> allocated (tp_group_index_sets tp) = {}"
      "allocated (tp_group_index_sets tp') = allocated (tp_group_index_sets tp) \<union> set ids" "tp_nums_tq_data tp' = ?k"
  proof -
    have f: "tp_n_samples ?tp1 = ?n" "tp_nums_tq_data ?tp1 = ?k" "tp_group_index_sets ?tp1 = tp_group_index_sets tp"
        "tp_max_cur_index ?tp1 = tp_max_cur_index tp" "tp_uuid_to_group ?tp1 = tp_uuid_to_group tp"
        "tp_group_ids_per_shard ?tp1 = gs" "tp_idx_to_shard ?tp1 = d" by simp_all
    show thesis
      by (rule commit_uuids_ok [of ?tp1 G uuids, unfolded f same, OF G(3,4) n G(1) g G(5)]) (rule that)
  qed
  have "allocates topic m ids ((put_topic topic tp' m)\<lparr>tq_shards := ss\<rparr>)"
    by (rule allocates_put [OF m c(2,6) a(3,4) c(3-5)])
  moreover have "cur_max_group ?tp1 = cur_max_group tp" by (simp add: cur_max_group_def)
  then have "allocate_by_uuid topic uuids m = (Ok ids, (put_topic topic tp' m)\<lparr>tq_shards := ss\<rparr>)"
    using m(2) c(1) cur by (simp add: allocate_by_uuid_def find_topic_def Let_def a(1) put_topic_def)
  ultimately show thesis using that by blast
qed

lemma allocate_step:
  assumes "mgr_ok m" "dict_has topic (tq_topics m)"
  obtains ids m' where "allocate_indexes topic batch e uuids m = (Ok ids, m')" "allocates topic m ids m'"
proof -
  obtain tp where "dict_get (tq_topics m) topic = Some tp" using assms(2) by (auto simp: dict_has_def)
  from sequential_step [OF assms(1) this] uuid_step [OF assms(1) this] show thesis
    using that by (metis (no_types, lifting) allocate_indexes_def)
qed

section \<open>Reachable managers\<close>

text \<open>Without deletions, without groups asked for from outside, and with topics that have columns and
  whose prompts have samples.\<close>

fun growth_op :: "queue_op \<Rightarrow> bool" where
  "growth_op (Add_topic topic p n columns consumers) \<longleftrightarrow> 0 < n \<and> columns \<noteq> []"
| "growth_op (New_groups topic k) \<longleftrightarrow> False"
| "growth_op _ \<longleftrightarrow> True"

inductive mgr_reach :: "manager \<Rightarrow> bool" where
  init: "manager_init node_ips endpoints = Ok m \<Longrightarrow> mgr_reach m"
| step: "mgr_reach m \<Longrightarrow> growth_op a \<Longrightarrow> queue_step a m = (ds, m') \<Longrightarrow> mgr_reach m'"

definition same_structure :: "topic_meta \<Rightarrow> topic_meta \<Rightarrow> bool" where
  "same_structure tp tp' \<longleftrightarrow> tp_nums_tq_data tp' = tp_nums_tq_data tp \<and> tp_n_samples tp' = tp_n_samples tp \<and>
     tp_group_ids_per_shard tp' = tp_group_ids_per_shard tp \<and> tp_idx_to_shard tp' = tp_idx_to_shard tp \<and>
     tp_group_index_sets tp' = tp_group_index_sets tp \<and> tp_max_cur_index tp' = tp_max_cur_index tp \<and>
     tp_uuid_to_group tp' = tp_uuid_to_group tp"

lemma same_structure_put: "mgr_ok m \<Longrightarrow> dict_get (tq_topics m) topic = Some tp \<Longrightarrow> same_structure tp tp' \<Longrightarrow>
    mgr_ok (put_topic topic tp' m)"
proof (rule mgr_ok_put', assumption+)
  assume "mgr_ok m" "dict_get (tq_topics m) topic = Some tp" "same_structure tp tp'"
  moreover from this have "topic_ok tp" unfolding mgr_ok_def by blast
  ultimately show "topic_ok tp'" "tp_nums_tq_data tp' = tp_nums_tq_data tp"
    by (simp_all add: same_structure_def topic_ok_def)
qed

lemma same_structure_ops [simp]:
  "same_structure tp tp" "same_structure tp (consume consumer ids tp)"
  "same_structure tp (topic_update_data_status ids columns tp)" "same_structure tp (topic_mark_written g column tp)"
  "topic_record_versions v ids tp = Ok tp' \<Longrightarrow> same_structure tp tp'"
  by (auto simp: same_structure_def consume_def topic_update_data_status_def topic_mark_written_def
      topic_record_versions_def Let_def split: if_splits)

lemma sample_structure:
  "sample_ready_index rs consumer cnt columns st l smp tp = (r, tp') \<Longrightarrow> same_structure tp tp'"
  "sample_ready_index_n_samples rs consumer cnt columns st l smp tp = (r, tp') \<Longrightarrow> same_structure tp tp'"
  by (auto simp: sample_ready_index_def sample_ready_index_n_samples_def Let_def split: sum.splits if_splits)

lemma take_ok: "mgr_ok m \<Longrightarrow> allocate_shard_and_indexes rs topic consumer columns cnt n st l smp m = (r, m') \<Longrightarrow> mgr_ok m'"
  by (auto simp: allocate_shard_and_indexes_def Let_def split: sum.splits if_splits option.splits prod.splits
      intro: same_structure_put dest: sample_structure)

lemma take_indexes_ok: "mgr_ok m \<Longrightarrow> allocate_shard_for_indexes topic consumer columns ids st l m = (r, m') \<Longrightarrow> mgr_ok m'"
  by (auto simp: allocate_shard_for_indexes_def Let_def split: sum.splits if_splits intro: same_structure_put)

text \<open>A new topic: no groups, no indexes, a table on every shard.\<close>

lemma empty_groups_ok: "0 < k \<Longrightarrow> groups_ok k n 0 (replicate (nat k) {}) []"
  by (auto simp: groups_ok_def share_def)

lemma topic_init_ok: "topic_init k p n columns consumers = Ok tp \<Longrightarrow> 0 < n \<Longrightarrow> topic_ok tp \<and> tp_nums_tq_data tp = k"
  using empty_groups_ok [of k n]
  by (auto simp: topic_init_def topic_ok_def prefixes_def greatest_def allocated_def split: if_splits intro!: exI [of _ 0])

lemma add_tables:
  assumes "\<forall>s \<in> set ss. \<not> dict_has topic (sh_tables s)" "0 < n" "columns \<noteq> []"
  shows "fst (on_shards (add_experience_table topic n columns) ss) = Ok () \<and>
    length (snd (on_shards (add_experience_table topic n columns) ss)) = length ss \<and>
    (has_tables d ss \<longrightarrow> has_tables (dict_set topic x d) (snd (on_shards (add_experience_table topic n columns) ss)))"
  using assms(1)
proof (induction ss)
  case (Cons s ss)
  obtain t where t: "table_init n columns = Ok t" using assms(2,3) by (auto simp: table_init_def)
  then have "add_experience_table topic n columns s = (Ok (), s\<lparr>sh_tables := dict_set topic t (sh_tables s)\<rparr>)"
    using Cons.prems by (simp add: add_experience_table_def)
  then show ?case using Cons by (cases "on_shards (add_experience_table topic n columns) ss") (auto simp: has_tables_def)
qed (simp add: has_tables_def)

lemma add_topic_ok:
  assumes "mgr_ok m" "0 < n" "columns \<noteq> []" shows "mgr_ok (snd (add_topic topic p n columns consumers m))"
proof (cases "dict_has topic (tq_topics m)")
  case False
  have tab: "has_tables (tq_topics m) (tq_shards m)" using assms(1) by (simp add: mgr_ok_def)
  then have none: "\<forall>s \<in> set (tq_shards m). \<not> dict_has topic (sh_tables s)" using False by (simp add: has_tables_def)
  obtain r ss where on: "on_shards (add_experience_table topic n columns) (tq_shards m) = (r, ss)" by fastforce
  note a = add_tables [OF none assms(2,3), of "tq_topics m"]
  show ?thesis
  proof (cases "topic_init (int (length (tq_shards m))) p n columns consumers")
    case (Inr tp)
    have "has_tables (dict_set topic tp (tq_topics m)) ss" "length ss = length (tq_shards m)" using a [of tp] on tab by simp_all
    then show ?thesis
      using False Inr on topic_init_ok [OF Inr assms(2)] assms(1) by (auto simp: add_topic_def mgr_ok_def put_topic_def)
  qed (use False assms(1) in \<open>simp add: add_topic_def\<close>)
qed (use assms(1) in \<open>simp add: add_topic_def\<close>)

lemma mgr_reach_ok: "mgr_reach m \<Longrightarrow> mgr_ok m"
proof (induction rule: mgr_reach.induct)
  case (init node_ips endpoints m)
  then show ?case by (auto simp: manager_init_def mgr_ok_def has_tables_def shard_init_def split: if_splits)
next
  case (step m a ds m')
  show ?case
  proof (cases a)
    case (Allocate topic batch e uuids)
    show ?thesis
    proof (cases "dict_has topic (tq_topics m)")
      case True
      show ?thesis
        by (rule allocate_step [OF step.IH True, of batch e uuids]) (use step.hyps(3) Allocate in \<open>auto simp: allocates_def\<close>)
    next
      case False
      then show ?thesis using step.hyps(3) Allocate step.IH
        by (auto simp: allocate_indexes_def allocate_sequential_def allocate_by_uuid_def find_topic_def dict_has_def split: if_splits)
    qed
  next
    case (Take rs topic consumer columns cnt n st l smp)
    then show ?thesis using step.hyps(3) take_ok [OF step.IH] by (auto split: prod.splits)
  next
    case (Take_indexes topic consumer columns ids st l)
    then show ?thesis using step.hyps(3) take_indexes_ok [OF step.IH] by (auto split: prod.splits)
  next
    case (Add_topic topic p n columns consumers)
    then show ?thesis using step.hyps(2,3) add_topic_ok [OF step.IH] by auto
  qed (use step in \<open>auto simp: update_data_status_def update_consumer_status_def record_versions_def
      mark_column_written_in_group_def split: sum.splits if_splits intro: same_structure_put\<close>)
qed

definition issued :: "string \<Rightarrow> manager \<Rightarrow> int set" where
  "issued topic m = (case dict_get (tq_topics m) topic of None \<Rightarrow> {} | Some tp \<Rightarrow> allocated (tp_group_index_sets tp))"

text \<open>
  Allocation is fresh and total: in every manager that is reached without deletions, for any
  sequence of sequential and uuid allocations, a request for indexes of a known topic succeeds; its
  indexes are distinct, were not issued before, are issued afterwards, and a put of them is routed.
\<close>

theorem allocation_fresh:
  assumes "mgr_reach m" "dict_has topic (tq_topics m)"
  shows "\<exists>ids m'. allocate_indexes topic batch e uuids m = (Ok ids, m') \<and> distinct ids \<and>
    set ids \<inter> issued topic m = {} \<and> issued topic m' = issued topic m \<union> set ids \<and>
    (ids \<noteq> [] \<longrightarrow> (\<exists>r. get_targets_for_put topic ids m' = Ok r))"
proof -
  obtain ids m' where a: "allocate_indexes topic batch e uuids m = (Ok ids, m')" "allocates topic m ids m'"
    by (rule allocate_step [OF mgr_reach_ok [OF assms(1)] assms(2)])
  then obtain tp tp' where t: "dict_get (tq_topics m) topic = Some tp" "dict_get (tq_topics m') topic = Some tp'" "distinct ids"
      "set ids \<inter> allocated (tp_group_index_sets tp) = {}"
      "allocated (tp_group_index_sets tp') = allocated (tp_group_index_sets tp) \<union> set ids" "mgr_ok m'"
    unfolding allocates_def by blast
  have ok: "topic_ok tp'" "tp_nums_tq_data tp' = int (length (tq_shards m'))" "length (tq_endpoints m') = length (tq_shards m')"
    using t(2,6) by (auto simp: mgr_ok_def)
  have put: "\<exists>r. get_targets_for_put topic ids m' = Ok r" if "ids \<noteq> []"
  proof -
    have found: "\<exists>sh. dict_get (tp_idx_to_shard tp') i = Some sh \<and> sh < length (tq_endpoints m')" if "i \<in> set ids" for i
    proof -
      have "i \<in> allocated (tp_group_index_sets tp')" using that t(5) by simp
      moreover obtain G where G: "groups_ok (tp_nums_tq_data tp') (tp_n_samples tp') G (tp_group_ids_per_shard tp') (tp_idx_to_shard tp')"
          "prefixes 1 (tp_n_samples tp') G (tp_group_index_sets tp')" using ok(1) by (auto simp: topic_ok_def)
      ultimately have "i div tp_n_samples tp' \<in> {0..<G}" using prefix_member(2,3) [OF G(2)] by simp
      then have "i div tp_n_samples tp' \<in> \<Union> (set (tp_group_ids_per_shard tp'))" using G(1) by (simp add: groups_ok_def)
      then obtain sh where "sh < length (tp_group_ids_per_shard tp')" "i div tp_n_samples tp' \<in> tp_group_ids_per_shard tp' ! sh"
        by (auto simp: in_set_conv_nth)
      moreover have "length (tp_group_ids_per_shard tp') = length (tq_endpoints m')" using G(1) ok by (simp add: groups_ok_def)
      ultimately show ?thesis using G(1) by (auto simp: groups_ok_def)
    qed
    then have "map_res (endpoint_of (tq_endpoints m') (tp_idx_to_shard tp')) ids =
        Ok (List.map (\<lambda>i. (tq_endpoints m' ! the (dict_get (tp_idx_to_shard tp') i), i)) ids)"
      by (intro map_res_all_Ok) (fastforce simp: endpoint_of_def dict_index_def py_nth_def)
    then have "\<exists>r. route (tq_endpoints m') (tp_idx_to_shard tp') ids = Ok r" by (simp add: route_def)
    moreover have "\<not> list_ex (\<lambda>i. \<not> dict_has i (tp_idx_to_shard tp')) ids" using found by (auto simp: list_ex_iff dict_has_def)
    ultimately show ?thesis using that t(2) by (simp add: get_targets_for_put_def routed_def find_topic_def)
  qed
  then show ?thesis using a(1) t(1-5) by (simp add: issued_def)
qed

definition fresh_manager :: manager where
  "fresh_manager = \<lparr>tq_topics = [], tq_shards = [shard_init 0, shard_init 1],
     tq_endpoints = [''tcp://a'', ''tcp://b''], tq_timings = initial_timings\<rparr>"

definition started_manager :: manager where
  "started_manager = snd (add_topic ''experience'' 4 2 [''prompt''] [''actor''] fresh_manager)"

lemma started_reach: "mgr_reach started_manager"
proof (rule mgr_reach.step)
  have "manager_init [''node''] [''tcp://a'', ''tcp://b''] = Ok fresh_manager"
    by (simp add: manager_init_def fresh_manager_def upt_rec)
  then show "mgr_reach fresh_manager" by (rule mgr_reach.init)
  show "growth_op (Add_topic ''experience'' 4 2 [''prompt''] [''actor''])" by simp
  show "queue_step (Add_topic ''experience'' 4 2 [''prompt''] [''actor'']) fresh_manager = ([], started_manager)"
    by (simp add: started_manager_def)
qed

lemma started_topic: "dict_has ''experience'' (tq_topics started_manager)"
  by code_simp

theorem allocation_fresh_witness:
  "fst (allocate_indexes ''experience'' 0 False [''a'', ''b'', ''a''] started_manager) = Ok [0, 2, 1] \<and>
   (\<exists>r. get_targets_for_put ''experience'' [0, 2, 1]
      (snd (allocate_indexes ''experience'' 0 False [''a'', ''b'', ''a''] started_manager)) = Ok r)"
proof -
  have run: "fst (allocate_indexes ''experience'' 0 False [''a'', ''b'', ''a''] started_manager) = Ok [0, 2, 1]" by code_simp
  show ?thesis
    using allocation_fresh [OF started_reach started_topic, of 0 False "[''a'', ''b'', ''a'']"] run by auto
qed

text \<open>
  The load is even: in every manager that is reached without deletions the shards of a topic
  own numbers of prompt groups that differ by at most one, no group is on two shards, the groups are
  numbered from 0 without gaps, and an index is mapped to the shard that owns its group.
\<close>

theorem shards_even:
  assumes "mgr_reach m" "dict_get (tq_topics m) topic = Some tp"
  shows "(\<forall>i j. i < length (tp_group_ids_per_shard tp) \<and> j < length (tp_group_ids_per_shard tp) \<longrightarrow>
      \<bar>int (card (tp_group_ids_per_shard tp ! i)) - int (card (tp_group_ids_per_shard tp ! j))\<bar> \<le> 1 \<and>
      (i \<noteq> j \<longrightarrow> tp_group_ids_per_shard tp ! i \<inter> tp_group_ids_per_shard tp ! j = {})) \<and>
    (\<exists>G. \<Union> (set (tp_group_ids_per_shard tp)) = {0..<G} \<and> cur_max_group tp = G - 1) \<and>
    (\<forall>i sh. dict_get (tp_idx_to_shard tp) i = Some sh \<longleftrightarrow>
       sh < length (tp_group_ids_per_shard tp) \<and> i div tp_n_samples tp \<in> tp_group_ids_per_shard tp ! sh)"
proof -
  let ?gs = "tp_group_ids_per_shard tp" and ?k = "tp_nums_tq_data tp" and ?n = "tp_n_samples tp"
  have "topic_ok tp" using mgr_reach_ok [OF assms(1)] assms(2) by (simp add: mgr_ok_def)
  then obtain G where k: "0 < ?k" "0 < ?n" "0 \<le> G" and G: "groups_ok ?k ?n G ?gs (tp_idx_to_shard tp)"
      and p: "prefixes 1 ?n G (tp_group_index_sets tp)" "greatest (tp_group_index_sets tp) (tp_max_cur_index tp)"
    unfolding topic_ok_def by blast
  have near: "\<bar>int (card (?gs ! i)) - int (card (?gs ! j))\<bar> \<le> 1" if "i < length ?gs" "j < length ?gs" for i j
    using G that share_near [OF k(1), of G "int i" "int j"] by (simp add: groups_ok_def)
  have disj: "?gs ! i \<inter> ?gs ! j = {}" if "i < length ?gs" "j < length ?gs" "i \<noteq> j" for i j
  proof -
    have d: "\<forall>i j. i < j \<and> j < length ?gs \<longrightarrow> ?gs ! i \<inter> ?gs ! j = {}" using G by (simp add: groups_ok_def)
    show ?thesis using d that by (metis Int_commute linorder_neqE_nat)
  qed
  have "cur_max_group tp = G - 1" using topic_group_number [OF p k(2,3)] by simp
  moreover have "\<Union> (set ?gs) = {0..<G}" using G by (simp add: groups_ok_def)
  moreover have "\<forall>i sh. dict_get (tp_idx_to_shard tp) i = Some sh \<longleftrightarrow> sh < length ?gs \<and> i div ?n \<in> ?gs ! sh"
    using G by (simp add: groups_ok_def)
  ultimately show ?thesis using near disj by blast
qed

definition grown_manager :: manager where
  "grown_manager = snd (allocate_indexes ''experience'' 3 True [] started_manager)"

lemma grown_reach: "mgr_reach grown_manager"
  by (rule mgr_reach.step [OF started_reach, of "Allocate ''experience'' 3 True []"]) (simp_all add: grown_manager_def)

theorem shards_even_witness:
  "\<exists>tp. dict_get (tq_topics grown_manager) ''experience'' = Some tp \<and> tp_max_cur_index tp = 5 \<and>
     dict_get (tp_idx_to_shard tp) 5 = Some 1 \<and> 2 \<in> tp_group_ids_per_shard tp ! 1"
proof -
  have "map_option (\<lambda>tp. (tp_max_cur_index tp, dict_get (tp_idx_to_shard tp) 5, tp_n_samples tp))
      (dict_get (tq_topics grown_manager) ''experience'') = Some (5, Some 1, 2)" by code_simp
  then obtain tp where tp: "dict_get (tq_topics grown_manager) ''experience'' = Some tp" "tp_max_cur_index tp = 5"
      "dict_get (tp_idx_to_shard tp) 5 = Some 1" "tp_n_samples tp = 2" by auto
  have "5 div tp_n_samples tp \<in> tp_group_ids_per_shard tp ! 1"
    using shards_even [OF grown_reach tp(1)] tp(3) by blast
  then show ?thesis using tp by auto
qed

end
