(* ===== verification/TQLifecycle.thy ===== *)
theory TQLifecycle
  imports TQAllocate
begin

text \<open>
  Versions, consumption queries and deletion (\<open>record_versions\<close>, \<open>get_data_consumed_set\<close> and
  \<open>delete_experience\<close> with \<open>_prune_topic_by_indexes\<close> of \<open>transfer_queue/tq_mgr.py\<close>). A sample has one
  version; a deletion leaves no trace of its samples on the manager or on the shards, and nothing
  else changes, except that emptying one prompt group forgets every uuid.
\<close>

section \<open>Versions\<close>

definition versions_ok :: "(int, int set) dict \<Rightarrow> bool" where
  "versions_ok vs \<longleftrightarrow> dict_ok vs \<and> (\<forall>v s. dict_get vs v = Some s \<longrightarrow> s \<noteq> {}) \<and>
     (\<forall>v w s t. dict_get vs v = Some s \<and> dict_get vs w = Some t \<and> v \<noteq> w \<longrightarrow> s \<inter> t = {})"

lemma idx_to_version_iff:
  assumes "versions_ok vs"
  shows "idx_to_version vs i = Some v \<longleftrightarrow> (\<exists>s. dict_get vs v = Some s \<and> i \<in> s)"
proof -
  have d: "distinct (dict_keys vs)" using assms by (simp add: versions_ok_def dict_ok_def)
  then have mem: "(w, s) \<in> set vs \<longleftrightarrow> dict_get vs w = Some s" for w s by simp
  have one: "w = v" if "dict_get vs w = Some s" "i \<in> s" "dict_get vs v = Some t" "i \<in> t" for v w s t
    using assms that unfolding versions_ok_def by blast
  show ?thesis
  proof (cases "filter (\<lambda>(v, s). i \<in> s) (List.rev vs)")
    case Nil
    then have "\<forall>(w, s) \<in> set vs. i \<notin> s" by (auto simp: filter_empty_conv)
    then show ?thesis using Nil mem by (auto simp: idx_to_version_def)
  next
    case (Cons p ps)
    obtain w s where p: "p = (w, s)" by (cases p)
    have "p \<in> set (filter (\<lambda>(v, s). i \<in> s) (List.rev vs))" unfolding Cons by simp
    then have p: "p = (w, s)" "dict_get vs w = Some s" "i \<in> s" using mem p by simp_all
    then show ?thesis using Cons one by (auto simp: idx_to_version_def)
  qed
qed

definition without_ids :: "int set \<Rightarrow> (int, int set) dict \<Rightarrow> (int, int set) dict" where
  "without_ids ids vs = List.map (\<lambda>(v, s). (v, s - ids)) (filter (\<lambda>(v, s). s \<inter> ids = {} \<or> s - ids \<noteq> {}) vs)"

lemma without_ids_get:
  assumes "versions_ok vs"
  shows "dict_get (without_ids ids vs) v = (case dict_get vs v of None \<Rightarrow> None
    | Some s \<Rightarrow> if s - ids = {} then None else Some (s - ids))" "dict_ok (without_ids ids vs)"
proof -
  have d: "distinct (dict_keys vs)" using assms by (simp add: versions_ok_def dict_ok_def)
  have k: "dict_keys (without_ids ids vs) = dict_keys (filter (\<lambda>(v, s). s \<inter> ids = {} \<or> s - ids \<noteq> {}) vs)"
    by (simp add: without_ids_def comp_def case_prod_unfold)
  then show ok: "dict_ok (without_ids ids vs)" using d by (simp add: dict_ok_def distinct_map_filter)
  have ne: "s \<noteq> {}" if "(v, s) \<in> set vs" for s using that d assms by (auto simp: versions_ok_def)
  have key: "(s \<inter> ids = {} \<or> s - ids \<noteq> {}) = (s - ids \<noteq> {})" if "(v, s) \<in> set vs" for s using ne [OF that] by auto
  have iff: "dict_get (without_ids ids vs) v = Some t \<longleftrightarrow> (\<exists>s. dict_get vs v = Some s \<and> s - ids \<noteq> {} \<and> t = s - ids)" for t
  proof -
    have "dict_get (without_ids ids vs) v = Some t \<longleftrightarrow> (v, t) \<in> set (without_ids ids vs)"
      using ok by (simp add: dict_ok_def)
    also have "\<dots> \<longleftrightarrow> (\<exists>s. (v, s) \<in> set vs \<and> (s \<inter> ids = {} \<or> s - ids \<noteq> {}) \<and> t = s - ids)"
      unfolding without_ids_def set_map set_filter image_iff Bex_def by (simp add: split_paired_Ex)
    also have "\<dots> \<longleftrightarrow> (\<exists>s. (v, s) \<in> set vs \<and> s - ids \<noteq> {} \<and> t = s - ids)" by (rule ex_cong1) (metis key)
    finally show ?thesis using d by simp
  qed
  show "dict_get (without_ids ids vs) v = (case dict_get vs v of None \<Rightarrow> None
      | Some s \<Rightarrow> if s - ids = {} then None else Some (s - ids))"
  proof -
    have n: "dict_get (without_ids ids vs) v = None" if "\<And>t. \<not> (\<exists>s. dict_get vs v = Some s \<and> s - ids \<noteq> {} \<and> t = s - ids)"
      using that iff by (metis not_Some_eq)
    show ?thesis
    proof (cases "dict_get vs v")
      case (Some s)
      then show ?thesis using n iff [of "s - ids"] by (cases "s - ids = {}") auto
    qed (simp add: n)
  qed
qed

text \<open>
  A sample has one version: recording a version moves exactly the given samples to it; all
  others keep theirs, no sample is in two versions and no version is empty.
\<close>

theorem record_versions_moves:
  assumes "versions_ok (tp_versions tp)" "topic_record_versions version ids tp = Ok tp'"
  shows "versions_ok (tp_versions tp') \<and>
    (\<forall>i. idx_to_version (tp_versions tp') i = (if i \<in> set ids then Some version else idx_to_version (tp_versions tp) i))"
proof -
  let ?vs = "tp_versions tp" and ?c = "without_ids (set ids) (tp_versions tp)"
  have ids: "set ids \<noteq> {}" using assms(2) by (auto simp: topic_record_versions_def split: if_splits)
  have vs': "tp_versions tp' = dict_set version (dict_get_default version {} ?c \<union> set ids) ?c"
    using assms(2) by (auto simp: topic_record_versions_def Let_def without_ids_def split: if_splits)
  note c = without_ids_get [OF assms(1), of "set ids"]
  have get: "dict_get (tp_versions tp') v = (if v = version
      then Some ((case dict_get ?vs v of None \<Rightarrow> {} | Some s \<Rightarrow> s - set ids) \<union> set ids)
      else case dict_get ?vs v of None \<Rightarrow> None | Some s \<Rightarrow> if s - set ids = {} then None else Some (s - set ids))" for v
    unfolding vs' by (auto simp: dict_get_default_def c(1) split: option.splits)
  have disj: "s \<inter> t = {}" if "dict_get ?vs v = Some s" "dict_get ?vs w = Some t" "v \<noteq> w" for v w s t
    using that assms(1) unfolding versions_ok_def by blast
  have ok: "versions_ok (tp_versions tp')"
    unfolding versions_ok_def
  proof (intro conjI allI impI)
    show "dict_ok (tp_versions tp')" using c(2) by (simp add: vs')
    show "s \<noteq> {}" if "dict_get (tp_versions tp') v = Some s" for v s
      using that ids by (auto simp: get split: if_splits option.splits)
    fix v w s t assume "dict_get (tp_versions tp') v = Some s \<and> dict_get (tp_versions tp') w = Some t \<and> v \<noteq> w"
    then show "s \<inter> t = {}"
      using disj by (fastforce simp: get split: if_splits option.splits)
  qed
  have "idx_to_version (tp_versions tp') i = Some v \<longleftrightarrow>
      (if i \<in> set ids then v = version else idx_to_version ?vs i = Some v)" for i v
    unfolding idx_to_version_iff [OF ok] idx_to_version_iff [OF assms(1)]
    by (auto simp: get split: option.splits if_splits)
  then show ?thesis using ok by (metis (full_types) not_Some_eq)
qed

theorem record_versions_moves_witness:
  "\<exists>tp'. topic_record_versions 7 [1, 2] demo_topic = Ok tp' \<and> idx_to_version (tp_versions tp') 2 = Some 7 \<and>
     idx_to_version (tp_versions tp') 3 = Some 5"
proof -
  have ok: "versions_ok (tp_versions demo_topic)" by (auto simp: versions_ok_def dict_ok_def demo_topic_def split: if_splits)
  obtain tp' where r: "topic_record_versions 7 [1, 2] demo_topic = Ok tp'" by (simp add: topic_record_versions_def Let_def)
  have "idx_to_version (tp_versions demo_topic) 3 = Some 5" by (simp add: idx_to_version_def demo_topic_def)
  then show ?thesis using record_versions_moves [OF ok r] r by simp
qed

section \<open>Consumption queries\<close>

text \<open>
  Asking is not free of effects: a query for the consumed samples among some indexes makes the
  consumer forget every other sample it has consumed, so what was delivered before can be sampled
  again.
\<close>

theorem consumed_query_forgets:
  assumes "topic_consumed_set consumer ids get_n tp = (Ok r, tp')" "ids \<noteq> []"
    and "i \<in> dict_get_default consumer {} (tp_consumed tp)" "i \<notin> set ids" "i \<in> ready_for columns tp" "columns \<noteq> []"
  shows "i \<notin> dict_get_default consumer {} (tp_consumed tp') \<and>
    (\<exists>U U'. usable_set consumer columns None None tp = Ok U \<and> i \<notin> U \<and>
       usable_set consumer columns None None tp' = Ok U' \<and> i \<in> U')"
proof -
  obtain s where s: "dict_get (tp_consumed tp) consumer = Some s"
      "tp' = tp\<lparr>tp_consumed := dict_set consumer (s \<inter> set ids) (tp_consumed tp)\<rparr>"
    using assms(1,2) by (auto simp: topic_consumed_set_def Let_def restrict_to_def dict_index_def split: if_splits option.splits)
  have r: "\<exists>R. ready_in_all columns t = Ok R \<and> i \<in> R" if "tp_ready t = tp_ready tp" for t
  proof -
    have "\<exists>ss. ready_sets cs t = Ok ss \<and> (\<forall>R \<in> set ss. i \<in> R) \<and> length ss = length cs" if "set cs \<subseteq> set columns" for cs
      using that
    proof (induction cs)
      case (Cons c cs)
      then obtain R ss where "dict_get (tp_ready tp) c = Some R" "i \<in> R" "ready_sets cs t = Ok ss"
          "\<forall>R \<in> set ss. i \<in> R" "length ss = length cs"
        using assms(5) by (auto simp: ready_for_def)
      then show ?case using \<open>tp_ready t = tp_ready tp\<close> by (simp add: ready_sets_def dict_index_def)
    qed (simp add: ready_sets_def)
    then obtain ss where "ready_sets columns t = Ok ss" "\<forall>R \<in> set ss. i \<in> R" "length ss = length columns" by blast
    then show ?thesis using assms(6) by (cases ss) (auto simp: ready_in_all_def foldl_Int)
  qed
  obtain R where R: "ready_in_all columns tp = Ok R" "i \<in> R" using r [OF refl] by blast
  obtain R' where R': "ready_in_all columns tp' = Ok R'" "i \<in> R'" using r [of tp'] s(2) by auto
  show ?thesis using s R R' assms(3,4)
    by (auto simp: usable_set_def dict_index_def apply_freshness_def dict_get_default_def)
qed

theorem consumed_query_forgets_witness:
  "\<exists>U'. usable_set ''actor'' [''prompt''] None None (snd (topic_consumed_set ''actor'' [3] False demo_topic)) = Ok U' \<and> 0 \<in> U'"
proof -
  have q: "topic_consumed_set ''actor'' [3] False demo_topic =
      (Ok (0, []), demo_topic\<lparr>tp_consumed := [(''actor'', {})]\<rparr>)"
    by (simp add: topic_consumed_set_def demo_topic_def dict_index_def restrict_to_def keep_whole_groups_def Let_def)
  have "0 \<in> dict_get_default ''actor'' {} (tp_consumed demo_topic)" "0 \<in> ready_for [''prompt''] demo_topic"
    by (simp_all add: demo_topic_def ready_for_def dict_get_default_def)
  from consumed_query_forgets [OF q _ this(1) _ this(2)] show ?thesis by (auto simp: q)
qed

section \<open>Deletion\<close>

lemma pop_indexes_Ok:
  assumes "pop_indexes ids d = (Ok ps, d')"
  shows "List.map fst ps = ids \<and> distinct ids \<and> (\<forall>(i, sh) \<in> set ps. dict_get d i = Some sh) \<and>
    (\<forall>i. dict_get d' i = (if i \<in> set ids then None else dict_get d i))"
  using assms
proof (induction ids arbitrary: d ps)
  case (Cons i ids)
  then obtain sh qs where q: "dict_get d i = Some sh" "pop_indexes ids (dict_del i d) = (Ok qs, d')" "ps = (i, sh) # qs"
    by (auto split: option.splits prod.splits sum.splits)
  note IH = Cons.IH [OF q(2)]
  have "i \<notin> set ids"
  proof
    assume "i \<in> set ids"
    then have "i \<in> fst ` set qs" using IH by (metis list.set_map)
    then obtain x where "(i, x) \<in> set qs" by auto
    then show False using IH by auto
  qed
  moreover have "dict_get d j = Some x" if "(j, x) \<in> set qs" for j x
    using IH that by (fastforce split: if_splits)
  ultimately show ?case using IH q by auto
qed simp

lemma drop_group_fields [simp]:
  "tp_ready (drop_group g sh tp) = tp_ready tp" "tp_consumed (drop_group g sh tp) = tp_consumed tp"
  "tp_idx_to_shard (drop_group g sh tp) = tp_idx_to_shard tp" "tp_versions (drop_group g sh tp) = tp_versions tp"
  "tp_n_samples (drop_group g sh tp) = tp_n_samples tp"
  by (simp_all add: drop_group_def)

lemma drop_groups_fields [simp]:
  "tp_ready (foldl (\<lambda>tp (g, sh). drop_group g sh tp) tp gs) = tp_ready tp"
  "tp_consumed (foldl (\<lambda>tp (g, sh). drop_group g sh tp) tp gs) = tp_consumed tp"
  "tp_idx_to_shard (foldl (\<lambda>tp (g, sh). drop_group g sh tp) tp gs) = tp_idx_to_shard tp"
  "tp_versions (foldl (\<lambda>tp (g, sh). drop_group g sh tp) tp gs) = tp_versions tp"
  "tp_n_samples (foldl (\<lambda>tp (g, sh). drop_group g sh tp) tp gs) = tp_n_samples tp"
  by (induction gs arbitrary: tp) auto

lemma finish_prune_fields:
  "tp_ready (finish_prune ps tp) = tp_ready tp" "tp_consumed (finish_prune ps tp) = tp_consumed tp"
  "tp_idx_to_shard (finish_prune ps tp) = tp_idx_to_shard tp"
  "tp_versions (finish_prune ps tp) = filter (\<lambda>(v, s). s \<noteq> {}) (dict_sets (\<lambda>s. s - fst ` set ps) (tp_versions tp))"
  by (simp_all add: finish_prune_def forget_versions_def shrink_groups_def)

text \<open>The shards: each prunes its own indexes.\<close>

lemma prune_shards_Ok:
  assumes "prune_shards topic grp ss = (Ok u, ss')" "distinct (List.map fst grp)"
  shows "length ss' = length ss \<and> (\<forall>j. j \<notin> fst ` set grp \<longrightarrow> ss' ! j = ss ! j) \<and>
    (\<forall>(sh, ps) \<in> set grp. \<exists>t. dict_get (sh_tables (ss ! sh)) topic = Some t \<and>
       dict_get (sh_tables (ss' ! sh)) topic = Some (prune (List.map fst ps) t))"
  using assms
proof (induction topic grp ss rule: prune_shards.induct)
  case (2 topic sh ps rest ss)
  obtain t where t: "dict_get (sh_tables (ss ! sh)) topic = Some t" "sh < length ss"
      "prune_shards topic rest (ss[sh := (ss ! sh)\<lparr>sh_tables := dict_set topic (prune (List.map fst ps) t) (sh_tables (ss ! sh))\<rparr>]) = (Ok u, ss')"
      "prune_experience_table topic (List.map fst ps) False (ss ! sh) =
         (Ok (), (ss ! sh)\<lparr>sh_tables := dict_set topic (prune (List.map fst ps) t) (sh_tables (ss ! sh))\<rparr>)"
    using "2.prems"(1) by (auto simp: prune_experience_table_def Let_def split: if_splits option.splits)
  let ?ss = "ss[sh := (ss ! sh)\<lparr>sh_tables := dict_set topic (prune (List.map fst ps) t) (sh_tables (ss ! sh))\<rparr>]"
  have new: "sh \<notin> fst ` set rest" using "2.prems"(2) by simp
  have IH: "length ss' = length ?ss \<and> (\<forall>j. j \<notin> fst ` set rest \<longrightarrow> ss' ! j = ?ss ! j) \<and>
    (\<forall>(sh, ps) \<in> set rest. \<exists>t. dict_get (sh_tables (?ss ! sh)) topic = Some t \<and>
       dict_get (sh_tables (ss' ! sh)) topic = Some (prune (List.map fst ps) t))"
    using "2.IH" [OF _ t(4) [symmetric] refl t(3)] t(2) "2.prems"(2) by simp
  have other: "?ss ! j = ss ! j" if "j \<noteq> sh" for j using that by simp
  have "\<exists>t. dict_get (sh_tables (ss ! j)) topic = Some t \<and> dict_get (sh_tables (ss' ! j)) topic = Some (prune (List.map fst qs) t)"
    if j: "(j, qs) \<in> set rest" for j qs
  proof -
    have "j \<noteq> sh" using new j by force
    then show ?thesis using IH j other [of j] by fastforce
  qed
  moreover have "\<exists>t. dict_get (sh_tables (ss ! sh)) topic = Some t \<and> dict_get (sh_tables (ss' ! sh)) topic = Some (prune (List.map fst ps) t)"
    using IH new t(1,2) by simp
  ultimately show ?case using IH by auto
qed simp

text \<open>A successful deletion, taken apart.\<close>

lemma prune_Ok:
  assumes "prune_topic_by_indexes topic ids m = (Ok u, m')" "dict_get (tq_topics m) topic = Some tp"
  obtains ps d where "pop_indexes ids (tp_idx_to_shard tp) = (Ok ps, d)"
    "prune_shards topic (group_by snd ps) (tq_shards m) = (Ok (), tq_shards m')"
    "dict_get (tq_topics m') topic = Some (finish_prune ps ((forget_status (set ids) tp)\<lparr>tp_idx_to_shard := d\<rparr>))"
proof -
  have f: "find_topic topic m = Ok tp" using assms(2) by simp
  have i: "tp_idx_to_shard (forget_status (set ids) tp) = tp_idx_to_shard tp" by (simp add: forget_status_def)
  show thesis using assms(1) that
    by (auto simp: prune_topic_by_indexes_def f i Let_def put_topic_def split: if_splits prod.splits sum.splits)
qed

lemma stored_shards:
  assumes pop: "pop_indexes ids d0 = (Ok ps, d)" and sh: "prune_shards topic (group_by snd ps) ss = (Ok u, ss')"
    and wf: "\<forall>s \<in> set ss. shard_ok itemsize s" and j: "j < length ss" "dict_get (sh_tables (ss ! j)) topic = Some t"
  shows "\<exists>t'. dict_get (sh_tables (ss' ! j)) topic = Some t' \<and>
    (\<forall>c i. stored t' c i = (if i \<in> set ids \<and> dict_get d0 i = Some j then None else stored t c i))"
proof -
  note P = pop_indexes_Ok [OF pop]
  have "distinct (List.map fst (group_by snd ps))" using group_by_ok [of snd ps] by (simp add: dict_ok_def)
  note S = prune_shards_Ok [OF sh this]
  have fs: "fst ` set ps = set ids" using P by (metis list.set_map)
  have gets: "dict_get d0 i = Some sh" if "(i, sh) \<in> set ps" for i sh
    using bspec [OF conjunct1 [OF conjunct2 [OF conjunct2 [OF P]]] that] by simp
  have owner: "(i, j) \<in> set ps \<longleftrightarrow> i \<in> set ids \<and> dict_get d0 i = Some j" for i
  proof
    assume a: "i \<in> set ids \<and> dict_get d0 i = Some j"
    then obtain x where x: "(i, x) \<in> set ps" using fs by force
    then show "(i, j) \<in> set ps" using gets [OF x] a by simp
  next
    assume "(i, j) \<in> set ps"
    then show "i \<in> set ids \<and> dict_get d0 i = Some j" using gets fs by force
  qed
  show ?thesis
  proof (cases "j \<in> snd ` set ps")
    case False
    then have "j \<notin> fst ` set (group_by snd ps)" by (auto simp: group_by_member)
    then have "ss' ! j = ss ! j" using S by blast
    moreover have "\<not> (i \<in> set ids \<and> dict_get d0 i = Some j)" for i using False owner [of i] by force
    ultimately show ?thesis using j(2) by (intro exI [of _ t]) auto
  next
    case True
    let ?qs = "filter (\<lambda>p. snd p = j) ps"
    have "(j, ?qs) \<in> set (group_by snd ps)" using True by (simp add: group_by_member)
    then have t': "dict_get (sh_tables (ss' ! j)) topic = Some (prune (List.map fst ?qs) t)" using S j(2) by fastforce
    have "i \<in> set (List.map fst ?qs) \<longleftrightarrow> (i, j) \<in> set ps" for i by force
    moreover obtain F where "table_wf F t" using shard_table [of itemsize "ss ! j" topic t] wf j by auto
    ultimately show ?thesis using t' prune_spec [of F t "List.map fst ?qs"] owner by auto
  qed
qed

text \<open>
  A deletion leaves no trace and harms nothing else: after it, no deleted sample is ready,
  consumed, mapped to a shard, in a version or stored in any column of the shard that held it, and
  for every other sample readiness, consumption, shard, versions and stored values are as before.
\<close>

theorem deletion_is_exact:
  assumes "prune_topic_by_indexes topic ids m = (Ok u, m')" "dict_get (tq_topics m) topic = Some tp"
    and "\<forall>s \<in> set (tq_shards m). shard_ok itemsize s"
  shows "\<exists>tp'. dict_get (tq_topics m') topic = Some tp' \<and>
    (\<forall>c. dict_get (tp_ready tp') c = map_option (\<lambda>s. s - set ids) (dict_get (tp_ready tp) c)) \<and>
    (\<forall>c. dict_get (tp_consumed tp') c = map_option (\<lambda>s. s - set ids) (dict_get (tp_consumed tp) c)) \<and>
    (\<forall>i. dict_get (tp_idx_to_shard tp') i = (if i \<in> set ids then None else dict_get (tp_idx_to_shard tp) i)) \<and>
    (\<forall>v s. (v, s) \<in> set (tp_versions tp') \<longleftrightarrow> s \<noteq> {} \<and> (\<exists>s0. (v, s0) \<in> set (tp_versions tp) \<and> s = s0 - set ids)) \<and>
    (\<forall>j t. j < length (tq_shards m) \<and> dict_get (sh_tables (tq_shards m ! j)) topic = Some t \<longrightarrow>
       (\<exists>t'. dict_get (sh_tables (tq_shards m' ! j)) topic = Some t' \<and>
          (\<forall>c i. stored t' c i = (if i \<in> set ids \<and> dict_get (tp_idx_to_shard tp) i = Some j then None else stored t c i))))"
proof -
  obtain ps d where p: "pop_indexes ids (tp_idx_to_shard tp) = (Ok ps, d)"
      "prune_shards topic (group_by snd ps) (tq_shards m) = (Ok (), tq_shards m')"
      "dict_get (tq_topics m') topic = Some (finish_prune ps ((forget_status (set ids) tp)\<lparr>tp_idx_to_shard := d\<rparr>))"
    by (rule prune_Ok [OF assms(1,2)])
  note P = pop_indexes_Ok [OF p(1)]
  let ?tp = "finish_prune ps ((forget_status (set ids) tp)\<lparr>tp_idx_to_shard := d\<rparr>)"
  have fs: "fst ` set ps = set ids" using P by (metis list.set_map)
  have v: "(v, s) \<in> set (tp_versions ?tp) \<longleftrightarrow> s \<noteq> {} \<and> (\<exists>s0. (v, s0) \<in> set (tp_versions tp) \<and> s = s0 - set ids)" for v s
    by (auto simp: finish_prune_fields fs dict_sets_def forget_status_def)
  show ?thesis
  proof (intro exI [of _ ?tp] conjI allI impI)
    show "dict_get (tq_topics m') topic = Some ?tp" by (rule p(3))
    show "dict_get (tp_ready ?tp) c = map_option (\<lambda>s. s - set ids) (dict_get (tp_ready tp) c)" for c
      by (simp add: finish_prune_fields forget_status_def)
    show "dict_get (tp_consumed ?tp) c = map_option (\<lambda>s. s - set ids) (dict_get (tp_consumed tp) c)" for c
      by (simp add: finish_prune_fields forget_status_def)
    show "dict_get (tp_idx_to_shard ?tp) i = (if i \<in> set ids then None else dict_get (tp_idx_to_shard tp) i)" for i
      using P by (simp add: finish_prune_fields)
    show "((v, s) \<in> set (tp_versions ?tp)) = (s \<noteq> {} \<and> (\<exists>s0. (v, s0) \<in> set (tp_versions tp) \<and> s = s0 - set ids))" for v s
      by (rule v)
    fix j t assume "j < length (tq_shards m) \<and> dict_get (sh_tables (tq_shards m ! j)) topic = Some t"
    then show "\<exists>t'. dict_get (sh_tables (tq_shards m' ! j)) topic = Some t' \<and>
        (\<forall>c i. stored t' c i = (if i \<in> set ids \<and> dict_get (tp_idx_to_shard tp) i = Some j then None else stored t c i))"
      using stored_shards [OF p(1,2) assms(3)] by blast
  qed
qed

text \<open>Deletion on the grown manager: samples 0 to 5 in three prompt groups, two samples removed.\<close>

lemma grown_shards: "tq_shards grown_manager =
   [\<lparr>sh_id = 0, sh_tables = [(''experience'', \<lparr>et_n_samples = 2, et_columns = [''prompt''], et_indices = [], et_col_metas = [],
       et_col_shapes = [], et_owned_groups = {0, 1}, et_heap = []\<rparr>)], sh_running = True\<rparr>,
    \<lparr>sh_id = 1, sh_tables = [(''experience'', \<lparr>et_n_samples = 2, et_columns = [''prompt''], et_indices = [], et_col_metas = [],
       et_col_shapes = [], et_owned_groups = {2}, et_heap = []\<rparr>)], sh_running = True\<rparr>]"
  by code_simp

lemma grown_shards_ok: "\<forall>s \<in> set (tq_shards grown_manager). shard_ok demo_itemsize s"
proof -
  have t: "table_init 2 [''prompt''] = Ok \<lparr>et_n_samples = 2, et_columns = [''prompt''], et_indices = [], et_col_metas = [],
       et_col_shapes = [], et_owned_groups = {}, et_heap = []\<rparr>" by (simp add: table_init_def)
  have "table_reach demo_itemsize \<lparr>et_n_samples = 2, et_columns = [''prompt''], et_indices = [], et_col_metas = [],
       et_col_shapes = [], et_owned_groups = gs, et_heap = []\<rparr>" for gs
    using table_reach.own [OF table_reach.init [OF t], of _ gs] by simp
  then show ?thesis by (auto simp: grown_shards shard_ok_def split: if_splits)
qed

theorem deletion_is_exact_witness:
  "\<exists>tp'. dict_get (tq_topics (snd (prune_topic_by_indexes ''experience'' [5, 0] grown_manager))) ''experience'' = Some tp' \<and>
     dict_get (tp_idx_to_shard tp') 5 = None \<and> dict_get (tp_idx_to_shard tp') 4 = Some 1"
proof -
  have "fst (prune_topic_by_indexes ''experience'' [5, 0] grown_manager) = Ok ()" by code_simp
  then obtain m' where r: "prune_topic_by_indexes ''experience'' [5, 0] grown_manager = (Ok (), m')" by (metis prod.collapse)
  have "map_option (\<lambda>tp. dict_get (tp_idx_to_shard tp) 4) (dict_get (tq_topics grown_manager) ''experience'') = Some (Some 1)"
    by code_simp
  then obtain tp where t: "dict_get (tq_topics grown_manager) ''experience'' = Some tp" "dict_get (tp_idx_to_shard tp) 4 = Some 1"
    by auto
  from deletion_is_exact [OF r t(1) grown_shards_ok] obtain tp' where
    "dict_get (tq_topics m') ''experience'' = Some tp'"
    "\<forall>i. dict_get (tp_idx_to_shard tp') i = (if i \<in> set [5, 0] then None else dict_get (tp_idx_to_shard tp) i)"
    by (elim exE conjE) (rule that)
  then show ?thesis using r t(2) by simp
qed

text \<open>
  Emptying one prompt group forgets every uuid: when a deletion removes the last mapped sample
  of some group, the map from uuids to groups is empty afterwards, whatever other groups are
  still alive; their uuids are then given new groups.
\<close>

theorem empty_group_forgets_uuids:
  assumes "prune_topic_by_indexes topic ids m = (Ok u, m')" "dict_get (tq_topics m) topic = Some tp"
    and "i \<in> set ids" "\<forall>j \<in> set (group_range (tp_n_samples tp) (i div tp_n_samples tp)). j \<notin> set ids \<longrightarrow> \<not> dict_has j (tp_idx_to_shard tp)"
  shows "\<exists>tp'. dict_get (tq_topics m') topic = Some tp' \<and> tp_uuid_to_group tp' = [] \<and>
    (\<forall>uuid. \<exists>g. new_uuids [uuid] tp' = [uuid] \<and>
       tp_uuid_to_group (name_uuids [uuid] g tp') = [(uuid, g)])"
proof -
  obtain ps d where p: "pop_indexes ids (tp_idx_to_shard tp) = (Ok ps, d)"
      "dict_get (tq_topics m') topic = Some (finish_prune ps ((forget_status (set ids) tp)\<lparr>tp_idx_to_shard := d\<rparr>))"
    by (rule prune_Ok [OF assms(1,2)])
  note P = pop_indexes_Ok [OF p(1)]
  let ?n = "tp_n_samples tp" and ?t = "(forget_status (set ids) tp)\<lparr>tp_idx_to_shard := d\<rparr>"
  let ?drop = "foldl (\<lambda>tp (g, sh). drop_group g sh tp)"
  have "fst ` set ps = set ids" using P by (metis list.set_map)
  then obtain sh where sh: "(i, sh) \<in> set ps" using assms(3) by force
  then have touched: "(i div ?n, sh) \<in> set (touched_groups ?n ps)"
    using first_occurrences_set [of "List.map (\<lambda>(i, sh). (i div ?n, sh)) ps"] by (force simp: touched_groups_def)
  have keep: "tp_uuid_to_group (?drop t gs) = []" if "tp_uuid_to_group t = []" for t gs
    using that by (induction gs arbitrary: t) (auto simp: drop_group_def)
  have empty: "\<not> list_ex (\<lambda>j. dict_has j d) (group_range ?n (i div ?n))"
    using assms(4) P by (auto simp: list_ex_iff dict_has_def split: if_splits)
  have drop: "tp_uuid_to_group (?drop t gs) = []"
    if "(i div ?n, sh) \<in> set gs" "tp_idx_to_shard t = d" "tp_n_samples t = ?n" for t gs
    using that
  proof (induction gs arbitrary: t)
    case (Cons a gs)
    show ?case
    proof (cases "a = (i div ?n, sh)")
      case True
      then have "tp_uuid_to_group (drop_group (i div ?n) sh t) = []" using empty Cons.prems by (simp add: drop_group_def)
      then show ?thesis using True keep by simp
    next
      case False
      obtain g s where a: "a = (g, s)" by (cases a)
      have "(i div ?n, sh) \<in> set gs" using Cons.prems(1) False by auto
      then show ?thesis using Cons.IH [of "drop_group g s t"] Cons.prems(2,3) by (simp add: a)
    qed
  qed simp
  have "tp_uuid_to_group (?drop ?t (touched_groups ?n ps)) = []" by (rule drop [OF touched]) (simp_all add: forget_status_def)
  then have u: "tp_uuid_to_group (finish_prune ps ?t) = []"
    by (simp add: finish_prune_def forget_versions_def shrink_groups_def forget_status_def)
  then show ?thesis using p(2) by (auto simp: new_uuids_def)
qed

definition two_uuids :: manager where
  "two_uuids = snd (allocate_indexes ''experience'' 0 False [''a'', ''b''] started_manager)"

theorem empty_group_forgets_uuids_witness:
  "map_option tp_uuid_to_group (dict_get (tq_topics two_uuids) ''experience'') = Some [(''a'', 0), (''b'', 1)] \<and>
   map_option tp_uuid_to_group (dict_get (tq_topics (snd (prune_topic_by_indexes ''experience'' [0, 1] two_uuids))) ''experience'') = Some []"
proof -
  have before: "map_option (\<lambda>tp. (tp_uuid_to_group tp, tp_n_samples tp)) (dict_get (tq_topics two_uuids) ''experience'') =
      Some ([(''a'', 0), (''b'', 1)], 2)" by code_simp
  then obtain tp where t: "dict_get (tq_topics two_uuids) ''experience'' = Some tp" "tp_uuid_to_group tp = [(''a'', 0), (''b'', 1)]"
      "tp_n_samples tp = 2" by auto
  have "fst (prune_topic_by_indexes ''experience'' [0, 1] two_uuids) = Ok ()" by code_simp
  then obtain m' where r: "prune_topic_by_indexes ''experience'' [0, 1] two_uuids = (Ok (), m')" by (metis prod.collapse)
  have "set (group_range 2 (0 div 2)) = {0, 1}" by (simp add: group_range_def upt_rec)
  then have "\<exists>tp'. dict_get (tq_topics m') ''experience'' = Some tp' \<and> tp_uuid_to_group tp' = []"
    using empty_group_forgets_uuids [OF r t(1), of 0] t(3) by auto
  then show ?thesis using t r by auto
qed

end
