(* ===== verification/TQSerial.thy ===== *)
theory TQSerial
  imports Prelude
begin

text \<open>
  Columns on the wire (\<open>transfer_queue/tq_utils.py\<close>): element types, numpy and torch arrays as their
  shape and the bytes of their elements in row-major order, raw serialisation with removal of padding,
  and pickled columns. What numpy and torch compute on single elements, \<open>astype\<close> and \<open>Tensor.to\<close>, the
  names numpy knows beyond the table, the content of a fresh buffer and the pickle codec are arguments.
  Strides, device placement and read-only flags are not modelled, nor is \<open>complex32\<close>; torch is taken
  to have the \<open>float8\<close> types.
\<close>

section \<open>Element types\<close>

type_synonym elt = "byte list"

datatype np_dtype = Float32 | Float64 | Float16 | Int64 | Int32 | Int16 | Int8 | UInt8 | Bool8
  | BFloat16 | Float8_e4m3fn | Float8_e5m2 | Other_dtype string nat

fun dtype_name :: "np_dtype \<Rightarrow> string" where
  "dtype_name Float32 = ''float32''"
| "dtype_name Float64 = ''float64''"
| "dtype_name Float16 = ''float16''"
| "dtype_name Int64 = ''int64''"
| "dtype_name Int32 = ''int32''"
| "dtype_name Int16 = ''int16''"
| "dtype_name Int8 = ''int8''"
| "dtype_name UInt8 = ''uint8''"
| "dtype_name Bool8 = ''bool''"
| "dtype_name BFloat16 = ''bfloat16''"
| "dtype_name Float8_e4m3fn = ''float8_e4m3fn''"
| "dtype_name Float8_e5m2 = ''float8_e5m2''"
| "dtype_name (Other_dtype name k) = name"

fun item_size :: "np_dtype \<Rightarrow> nat" where
  "item_size Float32 = 4"
| "item_size Float64 = 8"
| "item_size Float16 = 2"
| "item_size Int64 = 8"
| "item_size Int32 = 4"
| "item_size Int16 = 2"
| "item_size Int8 = 1"
| "item_size UInt8 = 1"
| "item_size Bool8 = 1"
| "item_size BFloat16 = 2"
| "item_size Float8_e4m3fn = 1"
| "item_size Float8_e5m2 = 1"
| "item_size (Other_dtype name k) = k"

definition np_dtype_map :: "(string, np_dtype) dict" where
  "np_dtype_map =
    [(''float32'', Float32), (''float64'', Float64), (''float16'', Float16), (''int32'', Int32), (''int64'', Int64),
     (''int16'', Int16), (''int8'', Int8), (''uint8'', UInt8), (''bool'', Bool8),
     (''single'', Float32), (''double'', Float64), (''long'', Int64), (''int'', Int32), (''half'', Float16),
     (''bfloat16'', BFloat16), (''bf16'', BFloat16),
     (''float8'', Float8_e4m3fn), (''fp8'', Float8_e4m3fn), (''float8_e4m3fn'', Float8_e4m3fn),
     (''fp8_e4m3'', Float8_e4m3fn), (''float8_e5m2'', Float8_e5m2), (''fp8_e5m2'', Float8_e5m2)]"

datatype dtype_arg = Dtype np_dtype | Dtype_name string

text \<open>\<open>np\<close> is \<open>np.dtype\<close> on a name, \<open>None\<close> where it raises.\<close>

fun get_numpy_dtype :: "(string \<Rightarrow> np_dtype option) \<Rightarrow> dtype_arg \<Rightarrow> np_dtype result" where
  "get_numpy_dtype np (Dtype d) = Ok d"
| "get_numpy_dtype np (Dtype_name s) = (case dict_get np_dtype_map s of
      Some d \<Rightarrow> Ok d
    | None \<Rightarrow> (case np s of Some d \<Rightarrow> Ok d | None \<Rightarrow> Err (ValueError ''Unsupported dtype'')))"

section \<open>Arrays and tensors\<close>

record narray =
  na_dtype :: np_dtype
  na_shape :: "nat list"
  na_flat :: "elt list"

datatype torch_dtype = Plain np_dtype | Quantized np_dtype

record tensor =
  tn_dtype :: torch_dtype
  tn_shape :: "nat list"
  tn_flat :: "elt list"

definition array_ok :: "narray \<Rightarrow> bool" where
  "array_ok a \<longleftrightarrow> length (na_flat a) = prod_list (na_shape a) \<and> (\<forall>e \<in> set (na_flat a). length e = item_size (na_dtype a))"

text \<open>A view under another type of the same size keeps the bytes.\<close>

definition int_repr :: "tensor \<Rightarrow> tensor" where
  "int_repr t = (case tn_dtype t of Quantized d \<Rightarrow> t\<lparr>tn_dtype := Plain d\<rparr> | Plain d \<Rightarrow> t)"

definition view_as :: "np_dtype \<Rightarrow> tensor \<Rightarrow> tensor" where
  "view_as d t = t\<lparr>tn_dtype := Plain d\<rparr>"

definition as_numpy :: "tensor \<Rightarrow> narray" where
  "as_numpy t = \<lparr>na_dtype = (case tn_dtype t of Plain d \<Rightarrow> d | Quantized d \<Rightarrow> d), na_shape = tn_shape t, na_flat = tn_flat t\<rparr>"

definition torch_to_numpy :: "tensor \<Rightarrow> narray" where
  "torch_to_numpy t0 = (let t = int_repr t0 in
     if tn_dtype t = Plain BFloat16 then (as_numpy (view_as Int16 t))\<lparr>na_dtype := BFloat16\<rparr>
     else if tn_dtype t = Plain Float8_e4m3fn then (as_numpy (view_as Int8 t))\<lparr>na_dtype := Float8_e4m3fn\<rparr>
     else if tn_dtype t = Plain Float8_e5m2 then (as_numpy (view_as Int8 t))\<lparr>na_dtype := Float8_e5m2\<rparr>
     else as_numpy t)"

text \<open>Iterating over an array gives its sub-arrays; one without dimensions cannot be indexed.\<close>

definition array_rows :: "narray \<Rightarrow> narray list" where
  "array_rows a = (case na_shape a of [] \<Rightarrow> []
     | n # shape \<Rightarrow> map (\<lambda>i. \<lparr>na_dtype = na_dtype a, na_shape = shape,
          na_flat = take (prod_list shape) (drop (i * prod_list shape) (na_flat a))\<rparr>) [0..<n])"

datatype batch_data = Whole narray | Arrays "narray list"

fun batch_arrays :: "batch_data \<Rightarrow> narray list" where
  "batch_arrays (Whole a) = array_rows a"
| "batch_arrays (Arrays as) = as"

section \<open>Serialising\<close>

definition astype :: "(np_dtype \<Rightarrow> np_dtype \<Rightarrow> elt \<Rightarrow> elt) \<Rightarrow> np_dtype \<Rightarrow> np_dtype \<Rightarrow> elt list \<Rightarrow> elt list" where
  "astype cast src tgt xs = (if src = tgt then xs else map (cast src tgt) xs)"

text \<open>The mask of a row: the first, or the last, \<open>ln\<close> of its columns.\<close>

definition in_mask :: "string option \<Rightarrow> nat \<Rightarrow> nat \<Rightarrow> nat \<Rightarrow> bool result" where
  "in_mask mode cols ln j =
     (if mode = Some ''right_pad'' then Ok (j < ln)
      else if mode = Some ''left_pad'' then Ok (int cols - int ln \<le> int j)
      else Err (ValueError ''pad_mode must be right_pad or left_pad''))"

definition masked_row :: "string option \<Rightarrow> nat \<Rightarrow> nat \<Rightarrow> elt list \<Rightarrow> elt list" where
  "masked_row mode cols ln row = map snd (filter (\<lambda>(j, e). in_mask mode cols ln j = Ok True) (zip [0..<cols] row))"

definition serialize_matrix ::
  "(np_dtype \<Rightarrow> np_dtype \<Rightarrow> elt \<Rightarrow> elt) \<Rightarrow> narray \<Rightarrow> nat list option \<Rightarrow> string option \<Rightarrow> np_dtype \<Rightarrow>
   (elt list \<times> nat list \<times> nat list list) result" where
  "serialize_matrix cast a lens mode target =
     (let rows = na_shape a ! 0; cols = na_shape a ! 1 in
      case lens of
        None \<Rightarrow> Ok (astype cast (na_dtype a) target (na_flat a), replicate rows cols, replicate rows [cols])
      | Some ls \<Rightarrow>
         (if length ls \<noteq> rows then Err (ValueError ''Batch lens length must match number of rows'')
          else bind_res (in_mask mode cols 0 0) (\<lambda>_.
            Ok (astype cast (na_dtype a) target
                  (concat (map (\<lambda>(r, l). masked_row mode cols l (na_flat r)) (zip (array_rows a) ls))),
                ls, map (\<lambda>l. [l]) ls))))"

text \<open>A list of arrays. \<open>flat[-0:]\<close> is all of \<open>flat\<close>; an array of one element broadcasts.\<close>

definition cut_source :: "bool \<Rightarrow> string option \<Rightarrow> nat \<Rightarrow> elt list \<Rightarrow> elt list result" where
  "cut_source unpad mode l src =
     (if unpad \<and> length src \<noteq> l then
        (if mode = Some ''right_pad'' then Ok (take l src)
         else if mode = Some ''left_pad'' then Ok (if l = 0 then src else drop (length src - l) src)
         else Err (ValueError ''Length mismatch but valid pad_mode not provided''))
      else Ok src)"

definition fit :: "nat \<Rightarrow> elt list \<Rightarrow> elt list result" where
  "fit l src = (if length src = l then Ok src else if length src = 1 then Ok (replicate l (hd src))
     else Err (ValueError ''could not broadcast input array''))"

fun fill_buffer ::
  "(np_dtype \<Rightarrow> np_dtype \<Rightarrow> elt \<Rightarrow> elt) \<Rightarrow> bool \<Rightarrow> string option \<Rightarrow> np_dtype \<Rightarrow> narray list \<Rightarrow> nat list \<Rightarrow> nat \<Rightarrow>
   elt list \<Rightarrow> (elt list \<times> nat list) result" where
  "fill_buffer cast unpad mode target [] ls off buf = Ok (buf, [])"
| "fill_buffer cast unpad mode target (a # as) [] off buf = Err (IndexError ''index out of bounds'')"
| "fill_buffer cast unpad mode target (a # as) (l # ls) off buf =
     bind_res (cut_source unpad mode l (na_flat a)) (\<lambda>src.
     bind_res (fit l src) (\<lambda>part.
     bind_res (fill_buffer cast unpad mode target as ls (off + l)
                 (take off buf @ astype cast (na_dtype a) target part @ drop (off + l) buf)) (\<lambda>(buf', ls').
       Ok (buf', l # ls'))))"

definition serialize_list ::
  "(np_dtype \<Rightarrow> np_dtype \<Rightarrow> elt \<Rightarrow> elt) \<Rightarrow> (nat \<Rightarrow> elt list) \<Rightarrow> narray list \<Rightarrow> nat list option \<Rightarrow> string option \<Rightarrow> np_dtype \<Rightarrow>
   (elt list \<times> nat list \<times> nat list list) result" where
  "serialize_list cast uninit as lens mode target =
     (let effective = (case lens of None \<Rightarrow> map (\<lambda>a. length (na_flat a)) as | Some ls \<Rightarrow> ls) in
      bind_res (fill_buffer cast (lens \<noteq> None) mode target as effective 0 (uninit (sum_list effective))) (\<lambda>(buf, ls).
        Ok (buf, ls, map na_shape as)))"

text \<open>Types the buffer protocol does not know are sent as integers of their size.\<close>

fun wire_dtype :: "np_dtype \<Rightarrow> np_dtype" where
  "wire_dtype BFloat16 = Int16"
| "wire_dtype Float8_e4m3fn = Int8"
| "wire_dtype Float8_e5m2 = Int8"
| "wire_dtype d = d"

definition serialize_batch ::
  "(string \<Rightarrow> np_dtype option) \<Rightarrow> (np_dtype \<Rightarrow> np_dtype \<Rightarrow> elt \<Rightarrow> elt) \<Rightarrow> (nat \<Rightarrow> elt list) \<Rightarrow> batch_data \<Rightarrow> nat list option \<Rightarrow>
   string option \<Rightarrow> dtype_arg option \<Rightarrow> (narray \<times> nat list \<times> string \<times> nat list list) result" where
  "serialize_batch np cast uninit batch lens mode save = (case batch_arrays batch of
      [] \<Rightarrow> Err (IndexError ''index 0 is out of bounds'')
    | sample # _ \<Rightarrow>
       bind_res (case save of Some s \<Rightarrow> get_numpy_dtype np s | None \<Rightarrow> Ok (na_dtype sample)) (\<lambda>target.
       bind_res (case batch of
           Whole a \<Rightarrow> (if length (na_shape a) = 2 then serialize_matrix cast a lens mode target
             else serialize_list cast uninit (array_rows a) lens mode target)
         | Arrays as \<Rightarrow> serialize_list cast uninit as lens mode target) (\<lambda>(buf, ls, shapes).
         Ok (\<lparr>na_dtype = wire_dtype target, na_shape = [length buf], na_flat = buf\<rparr>, ls, dtype_name target, shapes))))"

definition array_bytes :: "narray \<Rightarrow> byte list" where
  "array_bytes a = concat (na_flat a)"

section \<open>Deserialising\<close>

function elements :: "nat \<Rightarrow> byte list \<Rightarrow> elt list" where
  "elements k bs = (if bs = [] \<or> k = 0 then [] else take k bs # elements k (drop k bs))"
  by pat_completeness auto
termination by (relation "measure (\<lambda>(k, bs). length bs)") auto

declare elements.simps [simp del]

definition from_buffer :: "np_dtype \<Rightarrow> byte list \<Rightarrow> elt list result" where
  "from_buffer d frame =
     (if item_size d = 0 then Err (ValueError ''itemsize cannot be zero in type'')
      else if length frame mod item_size d \<noteq> 0 then Err (ValueError ''buffer size must be a multiple of element size'')
      else Ok (elements (item_size d) frame))"

definition bf16_names :: "string list" where "bf16_names = [''bfloat16'', ''bf16'']"

definition e4m3_names :: "string list" where "e4m3_names = [''float8'', ''fp8'', ''float8_e4m3fn'', ''fp8_e4m3'']"

definition e5m2_names :: "string list" where "e5m2_names = [''float8_e5m2'', ''fp8_e5m2'']"

definition read_dtype :: "(string \<Rightarrow> np_dtype option) \<Rightarrow> string \<Rightarrow> np_dtype result" where
  "read_dtype np name =
     (if name \<in> set bf16_names then Ok Int16
      else if name \<in> set (e4m3_names @ e5m2_names) then Ok Int8
      else case np name of Some d \<Rightarrow> Ok d | None \<Rightarrow> Err (TypeError ''data type not understood''))"

text \<open>\<open>slab.to(\<dots>)\<close> converts values: \<open>conv\<close> is \<open>Tensor.to\<close> on one element.\<close>

definition restore_dtype :: "(np_dtype \<Rightarrow> np_dtype \<Rightarrow> elt \<Rightarrow> elt) \<Rightarrow> string \<Rightarrow> np_dtype \<Rightarrow> elt list \<Rightarrow> np_dtype \<times> elt list" where
  "restore_dtype conv name d xs =
     (if name \<in> set bf16_names then (BFloat16, map (conv d BFloat16) xs)
      else if name \<in> set e4m3_names then (Float8_e4m3fn, map (conv d Float8_e4m3fn) xs)
      else if name \<in> set e5m2_names then (Float8_e5m2, map (conv d Float8_e5m2) xs)
      else (d, xs))"

fun split_flat :: "nat list \<Rightarrow> 'a list \<Rightarrow> 'a list list" where
  "split_flat [] xs = []"
| "split_flat (l # ls) xs = take l xs # split_flat ls (drop l xs)"

definition view_shape :: "nat list option \<Rightarrow> tensor \<Rightarrow> tensor result" where
  "view_shape s t = (case s of None \<Rightarrow> Err (TypeError ''view(): argument size must be tuple of ints'')
     | Some shape \<Rightarrow> if prod_list shape = length (tn_flat t) then Ok (t\<lparr>tn_shape := shape\<rparr>)
         else Err (RuntimeError ''shape is invalid for input of size''))"

definition deserialize_column_from_frame ::
  "(string \<Rightarrow> np_dtype option) \<Rightarrow> (np_dtype \<Rightarrow> np_dtype \<Rightarrow> elt \<Rightarrow> elt) \<Rightarrow> byte list \<Rightarrow> string \<Rightarrow> nat list \<Rightarrow>
   nat list option list option \<Rightarrow> tensor list result" where
  "deserialize_column_from_frame np conv frame name lengths shapes =
     (if lengths = [] then Ok []
      else bind_res (read_dtype np name) (\<lambda>d.
           bind_res (from_buffer d frame) (\<lambda>src.
             if length src \<noteq> sum_list lengths then Err (ValueError ''Data size mismatch'')
             else (case restore_dtype conv name d src of (d', slab) \<Rightarrow>
               let flats = map (\<lambda>xs. \<lparr>tn_dtype = Plain d', tn_shape = [length xs], tn_flat = xs\<rparr>) (split_flat lengths slab)
               in case shapes of None \<Rightarrow> Ok flats
                 | Some ss \<Rightarrow> map_res (\<lambda>(t, s). view_shape s t) (zip flats ss)))))"

section \<open>Pickled columns\<close>

definition serialize_batch_pickle :: "('o \<Rightarrow> byte list) \<Rightarrow> 'o list \<Rightarrow> byte list \<times> nat list \<times> string" where
  "serialize_batch_pickle dumps xs =
     (if xs = [] then ([], [], ''pickle'')
      else (concat (map dumps xs), map (\<lambda>x. length (dumps x)) xs, ''pickle''))"

fun load_blobs :: "(byte list \<Rightarrow> 'o result) \<Rightarrow> byte list \<Rightarrow> nat list \<Rightarrow> nat \<Rightarrow> 'o list result" where
  "load_blobs loads frame [] cursor = Ok []"
| "load_blobs loads frame (l # ls) cursor =
     bind_res (loads (take l (drop cursor frame))) (\<lambda>x.
     bind_res (load_blobs loads frame ls (cursor + l)) (\<lambda>xs. Ok (x # xs)))"

definition deserialize_column_pickle_from_frame :: "(byte list \<Rightarrow> 'o result) \<Rightarrow> byte list \<Rightarrow> nat list \<Rightarrow> 'o list result" where
  "deserialize_column_pickle_from_frame loads frame lengths =
     (if lengths = [] then Ok []
      else if sum_list lengths \<noteq> length frame then Err (ValueError ''Pickle data size mismatch'')
      else load_blobs loads frame lengths 0)"

section \<open>Lengths without padding\<close>

fun first_position :: "(int \<Rightarrow> bool) \<Rightarrow> int list \<Rightarrow> nat option" where
  "first_position P [] = None"
| "first_position P (x # xs) = (if P x then Some 0 else map_option Suc (first_position P xs))"

definition get_no_pad_length :: "int list list \<Rightarrow> int option \<Rightarrow> nat list" where
  "get_no_pad_length prompts pad = map (\<lambda>row. case pad of
      None \<Rightarrow> length row
    | Some p \<Rightarrow> (case first_position (\<lambda>t. t = p) row of Some i \<Rightarrow> i | None \<Rightarrow> length row)) prompts"

section \<open>Reading back\<close>

definition plain_dtypes :: "np_dtype list" where
  "plain_dtypes = [Float32, Float64, Float16, Int64, Int32, Int16, Int8, UInt8, Bool8]"

definition wire_dtypes :: "np_dtype list" where
  "wire_dtypes = plain_dtypes @ [BFloat16, Float8_e4m3fn, Float8_e5m2]"

text \<open>What the code relies on of numpy: its standard types have their names, and a cast of an element gives
  one of the target's size.\<close>

definition numpy_names :: "(string \<Rightarrow> np_dtype option) \<Rightarrow> bool" where
  "numpy_names np \<longleftrightarrow> (\<forall>d \<in> set plain_dtypes. np (dtype_name d) = Some d)"

definition cast_sizes :: "(np_dtype \<Rightarrow> np_dtype \<Rightarrow> elt \<Rightarrow> elt) \<Rightarrow> bool" where
  "cast_sizes cast \<longleftrightarrow> (\<forall>s t e. length e = item_size s \<longrightarrow> length (cast s t e) = item_size t)"

definition received_elt :: "(np_dtype \<Rightarrow> np_dtype \<Rightarrow> elt \<Rightarrow> elt) \<Rightarrow> np_dtype \<Rightarrow> elt \<Rightarrow> elt" where
  "received_elt conv d = (if d \<in> set plain_dtypes then id else conv (wire_dtype d) d)"

definition received :: "(np_dtype \<Rightarrow> np_dtype \<Rightarrow> elt \<Rightarrow> elt) \<Rightarrow> np_dtype \<Rightarrow> nat list \<Rightarrow> elt list \<Rightarrow> tensor" where
  "received conv d shape xs = \<lparr>tn_dtype = Plain d, tn_shape = shape, tn_flat = map (received_elt conv d) xs\<rparr>"

lemma elements_concat: "\<forall>e \<in> set xs. length e = k \<Longrightarrow> 0 < k \<Longrightarrow> elements k (concat xs) = xs"
proof (induction xs)
  case (Cons x xs)
  then have "x \<noteq> []" by auto
  then show ?case using Cons by (subst elements.simps) simp
qed (simp add: elements.simps)

lemma map_res_map: "map_res f (map g xs) = map_res (\<lambda>x. f (g x)) xs"
  by (induction xs) simp_all

lemma split_concat: "split_flat (map length xss) (concat xss) = xss"
  by (induction xss) simp_all

lemma split_map: "split_flat ls (map f xs) = map (map f) (split_flat ls xs)"
  by (induction ls arbitrary: xs) (simp_all add: take_map drop_map)

lemma astype_map: "astype cast s t (map f xs) = map (if s = t then f else cast s t \<circ> f) xs"
  by (simp add: astype_def)

lemma length_astype [simp]: "length (astype cast s t xs) = length xs"
  by (simp add: astype_def)

lemma astype_concat: "astype cast s t (concat xss) = concat (map (astype cast s t) xss)"
  by (cases "s = t") (simp_all add: astype_def [abs_def] map_concat)

lemma length_concat_const: "\<forall>e \<in> set xs. length e = k \<Longrightarrow> length (concat xs) = length xs * k"
  by (induction xs) simp_all

lemma astype_sizes: "cast_sizes cast \<Longrightarrow> \<forall>e \<in> set xs. length e = item_size s \<Longrightarrow>
    \<forall>e \<in> set (astype cast s t xs). length e = item_size t"
  by (auto simp: astype_def cast_sizes_def)

lemma item_size_wire [simp]: "item_size (wire_dtype d) = item_size d"
  by (cases d) simp_all

lemma wire_dtypes_size: "d \<in> set wire_dtypes \<Longrightarrow> 0 < item_size d"
  by (auto simp: wire_dtypes_def plain_dtypes_def)

lemma read_wire: "numpy_names np \<Longrightarrow> d \<in> set wire_dtypes \<Longrightarrow> read_dtype np (dtype_name d) = Ok (wire_dtype d)"
  by (auto simp: numpy_names_def wire_dtypes_def plain_dtypes_def read_dtype_def bf16_names_def e4m3_names_def e5m2_names_def)

lemma restore_wire: "d \<in> set wire_dtypes \<Longrightarrow>
    restore_dtype conv (dtype_name d) (wire_dtype d) xs = (d, map (received_elt conv d) xs)"
  by (auto simp: wire_dtypes_def plain_dtypes_def restore_dtype_def received_elt_def bf16_names_def e4m3_names_def
      e5m2_names_def)

text \<open>A frame that holds the parts one after the other is read back as the parts.\<close>

lemma deserialize_parts:
  assumes "numpy_names np" "d \<in> set wire_dtypes" "parts \<noteq> []"
    and "\<forall>p \<in> set parts. \<forall>e \<in> set p. length e = item_size d"
  shows "deserialize_column_from_frame np conv (concat (concat parts)) (dtype_name d) (map length parts) shapes =
    (case shapes of None \<Rightarrow> Ok (map (\<lambda>p. received conv d [length p] p) parts)
     | Some ss \<Rightarrow> map_res (\<lambda>(p, s). view_shape s (received conv d [length p] p)) (zip parts ss))"
proof -
  have sz: "0 < item_size d" using wire_dtypes_size [OF assms(2)] .
  have el: "\<forall>e \<in> set (concat parts). length e = item_size d" using assms(4) by auto
  have "length (concat (concat parts)) = length (concat parts) * item_size d"
    by (rule length_concat_const [OF el])
  then have fb: "from_buffer (wire_dtype d) (concat (concat parts)) = Ok (concat parts)"
    using sz elements_concat [OF el sz] by (simp add: from_buffer_def)
  have fl: "map (\<lambda>xs. \<lparr>tn_dtype = Plain d, tn_shape = [length xs], tn_flat = xs\<rparr>)
      (split_flat (map length parts) (map (received_elt conv d) (concat parts))) = map (\<lambda>p. received conv d [length p] p) parts"
    by (simp add: split_map split_concat received_def)
  have "length (concat parts) = sum_list (map length parts)" by (simp add: length_concat)
  then show ?thesis
    using assms(3) fb read_wire [OF assms(1,2)] restore_wire [OF assms(2)]
    by (auto simp: deserialize_column_from_frame_def fl Let_def zip_map1 map_res_map split_def split: option.splits)
qed

lemma view_received: "prod_list shape = length p \<Longrightarrow>
    view_shape (Some shape) (received conv d s p) = Ok (received conv d shape p)"
  by (simp add: view_shape_def received_def)

lemma view_parts:
  "list_all2 (\<lambda>p s. prod_list s = length p) parts shapes \<Longrightarrow>
   map_res (\<lambda>(p, s). view_shape s (received conv d [length p] p)) (zip parts (map Some shapes)) =
   Ok (map (\<lambda>(p, s). received conv d s p) (zip parts shapes))"
  by (induction parts shapes rule: list_all2_induct) (simp_all add: view_received)

lemma flat_shapes: "map length ps = ls \<Longrightarrow> list_all2 (\<lambda>p s. prod_list s = length p) ps (map (\<lambda>l. [l]) ls)"
  by (auto simp: list.rel_map intro: list.rel_refl)

text \<open>Masks.\<close>

lemma mask_take: "map snd (filter (\<lambda>(j, e). j < l) (zip [k..<k + length row] row)) = take (l - k) row"
proof (induction row arbitrary: k)
  case (Cons x row)
  have "[k..<k + length (x # row)] = k # [Suc k..<Suc k + length row]" by (simp add: upt_conv_Cons del: upt_Suc)
  then show ?case using Cons.IH [of "Suc k"] by (cases "k < l") (auto simp: Suc_diff_Suc take_Cons' simp del: upt_Suc)
qed simp

lemma mask_drop: "map snd (filter (\<lambda>(j, e). m \<le> j) (zip [k..<k + length row] row)) = drop (m - k) row"
proof (induction row arbitrary: k)
  case (Cons x row)
  have "[k..<k + length (x # row)] = k # [Suc k..<Suc k + length row]" by (simp add: upt_conv_Cons del: upt_Suc)
  then show ?case using Cons.IH [of "Suc k"] by (cases "m \<le> k") (auto simp: Suc_diff_Suc drop_Cons' simp del: upt_Suc)
qed simp

text \<open>The part of a row that is kept.\<close>

definition kept :: "string option \<Rightarrow> nat \<Rightarrow> elt list \<Rightarrow> elt list" where
  "kept mode l row = (if mode = Some ''right_pad'' then take l row else drop (length row - l) row)"

lemma masked_row_kept:
  assumes "mode = Some ''right_pad'' \<or> mode = Some ''left_pad''"
  shows "masked_row mode (length row) l row = kept mode l row"
proof (cases "mode = Some ''right_pad''")
  case True
  then show ?thesis using mask_take [of l 0 row] by (simp add: masked_row_def in_mask_def kept_def)
next
  case False
  have "(int (length row) - int l \<le> int j) = (length row - l \<le> j)" for j by linarith
  then show ?thesis using mask_drop [of "length row - l" 0 row] False assms
    by (simp add: masked_row_def in_mask_def kept_def)
qed

section \<open>Matrices\<close>

lemma row_length: "array_ok a \<Longrightarrow> na_shape a = [n, cols] \<Longrightarrow> r \<in> set (array_rows a) \<Longrightarrow> length (na_flat r) = cols"
proof -
  assume a: "array_ok a" "na_shape a = [n, cols]" and r: "r \<in> set (array_rows a)"
  then obtain i where i: "i < n" "na_flat r = take cols (drop (i * cols) (na_flat a))"
    by (auto simp: array_rows_def)
  have "(Suc i) * cols \<le> n * cols" using i(1) by (intro mult_le_mono1) simp
  then show ?thesis using a i by (simp add: array_ok_def)
qed

lemma array_rows_length: "na_shape a = n # s \<Longrightarrow> length (array_rows a) = n"
  by (simp add: array_rows_def)

lemma rows_concat_take: "(n :: nat) * k \<le> length xs \<Longrightarrow>
    concat (map (\<lambda>i. take k (drop (i * k) xs)) [0..<n]) = take (n * k) xs"
proof (induction n)
  case (Suc n)
  then show ?case by (simp add: take_add add.commute [of k])
qed simp

lemma rows_concat: "array_ok a \<Longrightarrow> na_shape a = [n, cols] \<Longrightarrow> concat (map na_flat (array_rows a)) = na_flat a"
  using rows_concat_take [of n cols "na_flat a"] by (simp add: array_rows_def array_ok_def comp_def)

lemma row_elements: "array_ok a \<Longrightarrow> na_shape a = [n, cols] \<Longrightarrow> r \<in> set (array_rows a) \<Longrightarrow>
    \<forall>e \<in> set (na_flat r). length e = item_size (na_dtype a)"
  by (auto simp: array_rows_def array_ok_def dest!: in_set_takeD in_set_dropD)

lemma kept_elements: "e \<in> set (kept mode l row) \<Longrightarrow> e \<in> set row"
  by (auto simp: kept_def dest: in_set_takeD in_set_dropD split: if_splits)

lemma length_kept: "l \<le> length row \<Longrightarrow> length (kept mode l row) = l"
  by (simp add: kept_def)

lemma kept_all [simp]: "kept mode (length row) row = row"
  by (simp add: kept_def)

definition matrix_lens :: "nat list option \<Rightarrow> nat \<Rightarrow> nat \<Rightarrow> nat list" where
  "matrix_lens lens n cols = (case lens of None \<Rightarrow> replicate n cols | Some ls \<Rightarrow> ls)"

definition pad_ok :: "string option \<Rightarrow> nat list option \<Rightarrow> nat \<Rightarrow> nat \<Rightarrow> bool" where
  "pad_ok mode lens n cols \<longleftrightarrow> (case lens of None \<Rightarrow> True
     | Some ls \<Rightarrow> length ls = n \<and> (\<forall>l \<in> set ls. l \<le> cols) \<and> (mode = Some ''right_pad'' \<or> mode = Some ''left_pad''))"

text \<open>Whatever the branch, the buffer is the kept parts of the rows, one after the other.\<close>

lemma serialize_matrix_kept:
  assumes "array_ok a" "na_shape a = [n, cols]" "pad_ok mode lens n cols"
  shows "serialize_matrix cast a lens mode target = Ok (
      concat (map (\<lambda>(r, l). astype cast (na_dtype a) target (kept mode l (na_flat r))) (zip (array_rows a) (matrix_lens lens n cols))),
      matrix_lens lens n cols, map (\<lambda>l. [l]) (matrix_lens lens n cols))"
proof (cases lens)
  case None
  have k: "map (\<lambda>(r, l). astype cast (na_dtype a) target (kept mode l (na_flat r))) (zip (array_rows a) (replicate n cols)) =
      map (astype cast (na_dtype a) target) (map na_flat (array_rows a))"
    using row_length [OF assms(1,2)] array_rows_length [OF assms(2)] kept_all
    by (simp add: zip_replicate2) (metis kept_all)
  have "astype cast (na_dtype a) target (na_flat a) =
      concat (map (astype cast (na_dtype a) target) (map na_flat (array_rows a)))"
    by (metis astype_concat rows_concat [OF assms(1,2)])
  then show ?thesis unfolding None matrix_lens_def option.case k
    using assms(2) by (simp add: serialize_matrix_def del: map_map)
next
  case (Some ls)
  have m: "map (\<lambda>(r, l). masked_row mode cols l (na_flat r)) (zip (array_rows a) ls) =
      map (\<lambda>(r, l). kept mode l (na_flat r)) (zip (array_rows a) ls)"
  proof (rule map_cong [OF refl], clarify)
    fix r l assume "(r, l) \<in> set (zip (array_rows a) ls)"
    then have "length (na_flat r) = cols" by (rule row_length [OF assms(1,2) set_zip_leftD])
    moreover have "mode = Some ''right_pad'' \<or> mode = Some ''left_pad''" using assms(3) Some by (simp add: pad_ok_def)
    ultimately show "masked_row mode cols l (na_flat r) = kept mode l (na_flat r)" using masked_row_kept by blast
  qed
  have s: "serialize_matrix cast a lens mode target = Ok (astype cast (na_dtype a) target
      (concat (map (\<lambda>(r, l). masked_row mode cols l (na_flat r)) (zip (array_rows a) ls))), ls, map (\<lambda>l. [l]) ls)"
    using assms Some by (auto simp: serialize_matrix_def pad_ok_def in_mask_def)
  show ?thesis unfolding s m by (simp add: Some matrix_lens_def astype_concat comp_def split_def)
qed

lemma matrix_read_back:
  assumes "numpy_names np" "cast_sizes cast" "array_ok a" "na_shape a = [n, cols]" "0 < n" "pad_ok mode lens n cols"
    and "target \<in> set wire_dtypes" "case save of None \<Rightarrow> target = na_dtype a | Some s \<Rightarrow> get_numpy_dtype np s = Ok target"
  shows "\<exists>buf name ls shapes. serialize_batch np cast uninit (Whole a) lens mode save = Ok (buf, ls, name, shapes) \<and>
    ls = matrix_lens lens n cols \<and>
    deserialize_column_from_frame np conv (array_bytes buf) name ls (Some (map Some shapes)) =
      Ok (map (\<lambda>(r, l). received conv target [l] (astype cast (na_dtype a) target (kept mode l (na_flat r))))
            (zip (array_rows a) ls))"
proof -
  let ?ls = "matrix_lens lens n cols"
  let ?parts = "map (\<lambda>(r, l). astype cast (na_dtype a) target (kept mode l (na_flat r))) (zip (array_rows a) ?ls)"
  have ll: "length ?ls = n" "\<forall>l \<in> set ?ls. l \<le> cols"
    using assms(6) by (auto simp: matrix_lens_def pad_ok_def split: option.splits)
  have rl: "length (array_rows a) = n" by (rule array_rows_length [OF assms(4)])
  have len: "map length ?parts = ?ls"
    using ll rl row_length [OF assms(3,4)] by (intro nth_equalityI) (simp_all add: length_kept)
  obtain r rs where rows: "array_rows a = r # rs" using rl assms(5) by (cases "array_rows a") auto
  have "na_dtype r = na_dtype a" using rows assms(4) by (auto simp: array_rows_def)
  then have t: "(case save of Some s \<Rightarrow> get_numpy_dtype np s | None \<Rightarrow> Ok (na_dtype r)) = Ok target"
    using assms(8) by (auto split: option.splits)
  have s: "serialize_batch np cast uninit (Whole a) lens mode save =
      Ok (\<lparr>na_dtype = wire_dtype target, na_shape = [length (concat ?parts)], na_flat = concat ?parts\<rparr>, ?ls,
          dtype_name target, map (\<lambda>l. [l]) ?ls)"
    using serialize_matrix_kept [OF assms(3,4,6), of cast target] assms(4) rows t
    by (simp add: serialize_batch_def)
  have el: "\<forall>p \<in> set ?parts. \<forall>e \<in> set p. length e = item_size target"
  proof
    fix p assume "p \<in> set ?parts"
    then obtain r l where p: "r \<in> set (array_rows a)" "p = astype cast (na_dtype a) target (kept mode l (na_flat r))"
      by (auto dest: set_zip_leftD)
    have "\<forall>e \<in> set (kept mode l (na_flat r)). length e = item_size (na_dtype a)"
      using row_elements [OF assms(3,4) p(1)] kept_elements by blast
    from astype_sizes [OF assms(2) this] show "\<forall>e \<in> set p. length e = item_size target" unfolding p(2) .
  qed
  have ne: "?parts \<noteq> []" using rows ll assms(5) by (cases ?ls) auto
  note sh = flat_shapes [OF len]
  have "deserialize_column_from_frame np conv (concat (concat ?parts)) (dtype_name target) ?ls (Some (map Some (map (\<lambda>l. [l]) ?ls)))
      = Ok (map (\<lambda>(p, s). received conv target s p) (zip ?parts (map (\<lambda>l. [l]) ?ls)))"
    using deserialize_parts [OF assms(1,7) ne el, of conv "Some (map Some (map (\<lambda>l. [l]) ?ls))"] view_parts [OF sh]
    unfolding len by simp
  moreover have "zip ?parts (map (\<lambda>l. [l]) ?ls) =
      map (\<lambda>(r, l). (astype cast (na_dtype a) target (kept mode l (na_flat r)), [l])) (zip (array_rows a) ?ls)"
    using ll rl by (intro nth_equalityI) simp_all
  ultimately show ?thesis using s by (simp add: array_bytes_def split_def comp_def)
qed


definition demo_names :: "string \<Rightarrow> np_dtype option" where
  "demo_names s = dict_get (map (\<lambda>d. (dtype_name d, d)) plain_dtypes) s"

definition demo_cast :: "np_dtype \<Rightarrow> np_dtype \<Rightarrow> elt \<Rightarrow> elt" where
  "demo_cast s t e = take (item_size t) (e @ replicate (item_size t) 0)"

lemma demo_numpy: "numpy_names demo_names" "cast_sizes demo_cast"
  by (auto simp: numpy_names_def plain_dtypes_def demo_names_def cast_sizes_def demo_cast_def)

definition demo_matrix :: narray where
  "demo_matrix = \<lparr>na_dtype = Int16, na_shape = [2, 3], na_flat = [[1, 0], [2, 0], [0, 0], [3, 0], [0, 0], [0, 0]]\<rparr>"


section \<open>Lists of arrays\<close>

lemma array_shapes: "\<forall>a \<in> set as. array_ok a \<Longrightarrow> (\<And>a. length (f a) = length (na_flat a)) \<Longrightarrow>
    list_all2 (\<lambda>p s. prod_list s = length p) (map f as) (map na_shape as)"
  by (induction as) (simp_all add: array_ok_def)

lemma fill_buffer_exact:
  "length pre = off \<Longrightarrow> sum_list (map (\<lambda>a. length (na_flat a)) as) = length rest \<Longrightarrow>
   fill_buffer cast False mode target as (map (\<lambda>a. length (na_flat a)) as) off (pre @ rest) =
   Ok (pre @ concat (map (\<lambda>a. astype cast (na_dtype a) target (na_flat a)) as), map (\<lambda>a. length (na_flat a)) as)"
proof (induction as arbitrary: off pre rest)
  case (Cons a as)
  let ?x = "astype cast (na_dtype a) target (na_flat a)"
  have "fill_buffer cast False mode target as (map (\<lambda>a. length (na_flat a)) as) (off + length (na_flat a))
      ((pre @ ?x) @ drop (length (na_flat a)) rest) =
      Ok ((pre @ ?x) @ concat (map (\<lambda>a. astype cast (na_dtype a) target (na_flat a)) as), map (\<lambda>a. length (na_flat a)) as)"
    by (rule Cons.IH) (use Cons.prems in auto)
  then show ?case using Cons.prems by (simp add: cut_source_def fit_def)
qed simp

text \<open>A list column survives the wire: every array comes back with its shape, its elements cast to the
  type of the first one or to the requested type.\<close>

theorem list_roundtrip:
  assumes "numpy_names np" "cast_sizes cast" "\<forall>a \<in> set as. array_ok a" "as \<noteq> []" "\<forall>n. length (uninit n) = n"
    and "target \<in> set wire_dtypes" "case save of None \<Rightarrow> target = na_dtype (hd as) | Some s \<Rightarrow> get_numpy_dtype np s = Ok target"
  shows "\<exists>buf name ls shapes. serialize_batch np cast uninit (Arrays as) None mode save = Ok (buf, ls, name, shapes) \<and>
    deserialize_column_from_frame np conv (array_bytes buf) name ls (Some (map Some shapes)) =
      Ok (map (\<lambda>a. received conv target (na_shape a) (astype cast (na_dtype a) target (na_flat a))) as)"
proof -
  let ?parts = "map (\<lambda>a. astype cast (na_dtype a) target (na_flat a)) as"
  let ?ls = "map (\<lambda>a. length (na_flat a)) as"
  obtain a0 as' where as: "as = a0 # as'" using assms(4) by (cases as) auto
  then have t: "(case save of Some s \<Rightarrow> get_numpy_dtype np s | None \<Rightarrow> Ok (na_dtype a0)) = Ok target"
    using assms(7) by (auto split: option.splits)
  have "fill_buffer cast False mode target as ?ls 0 ([] @ uninit (sum_list ?ls)) = Ok ([] @ concat ?parts, ?ls)"
    by (rule fill_buffer_exact) (simp_all add: assms(5))
  then have "serialize_list cast uninit as None mode target = Ok (concat ?parts, ?ls, map na_shape as)"
    by (simp add: serialize_list_def)
  then have s: "serialize_batch np cast uninit (Arrays as) None mode save =
      Ok (\<lparr>na_dtype = wire_dtype target, na_shape = [length (concat ?parts)], na_flat = concat ?parts\<rparr>, ?ls,
          dtype_name target, map na_shape as)"
    using t as by (simp add: serialize_batch_def)
  have el: "\<forall>p \<in> set ?parts. \<forall>e \<in> set p. length e = item_size target"
  proof
    fix p assume "p \<in> set ?parts"
    then obtain a where a: "a \<in> set as" "p = astype cast (na_dtype a) target (na_flat a)" by auto
    then have "\<forall>e \<in> set (na_flat a). length e = item_size (na_dtype a)" using assms(3) by (simp add: array_ok_def)
    from astype_sizes [OF assms(2) this] show "\<forall>e \<in> set p. length e = item_size target" unfolding a(2) .
  qed
  have sh: "list_all2 (\<lambda>p s. prod_list s = length p) ?parts (map na_shape as)"
    by (rule array_shapes [OF assms(3)]) simp
  have len: "map length ?parts = ?ls" by simp
  have "deserialize_column_from_frame np conv (concat (concat ?parts)) (dtype_name target) ?ls (Some (map Some (map na_shape as)))
      = Ok (map (\<lambda>(p, s). received conv target s p) (zip ?parts (map na_shape as)))"
    using deserialize_parts [OF assms(1,6) _ el, of conv "Some (map Some (map na_shape as))"] view_parts [OF sh] as
    unfolding len by simp
  moreover have "zip ?parts (map na_shape as) = map (\<lambda>a. (astype cast (na_dtype a) target (na_flat a), na_shape a)) as"
    by (simp add: zip_map_map zip_same_conv_map)
  ultimately show ?thesis using s by (simp add: array_bytes_def comp_def)
qed


definition demo_arrays :: "narray list" where
  "demo_arrays = [\<lparr>na_dtype = UInt8, na_shape = [1, 2], na_flat = [[7], [8]]\<rparr>,
                  \<lparr>na_dtype = UInt8, na_shape = [3], na_flat = [[1], [2], [3]]\<rparr>]"

lemma demo_arrays_ok: "\<forall>a \<in> set demo_arrays. array_ok a" "demo_arrays \<noteq> []"
  by (auto simp: demo_arrays_def array_ok_def)

theorem list_roundtrip_witness:
  "\<exists>buf name ls shapes. serialize_batch demo_names demo_cast (\<lambda>n. replicate n []) (Arrays demo_arrays) None None None
      = Ok (buf, ls, name, shapes) \<and>
    deserialize_column_from_frame demo_names demo_cast (array_bytes buf) name ls (Some (map Some shapes)) =
      Ok [received demo_cast UInt8 [1, 2] [[7], [8]], received demo_cast UInt8 [3] [[1], [2], [3]]]"
proof -
  have d: "UInt8 \<in> set wire_dtypes" "case None of None \<Rightarrow> UInt8 = na_dtype (hd demo_arrays)
      | Some s \<Rightarrow> get_numpy_dtype demo_names s = Ok UInt8"
    by (auto simp: wire_dtypes_def plain_dtypes_def demo_arrays_def)
  have u: "\<forall>n. length (replicate n ([] :: elt)) = n" by simp
  have r: "map (\<lambda>a. received demo_cast UInt8 (na_shape a) (astype demo_cast (na_dtype a) UInt8 (na_flat a))) demo_arrays =
      [received demo_cast UInt8 [1, 2] [[7], [8]], received demo_cast UInt8 [3] [[1], [2], [3]]]"
    by (simp add: demo_arrays_def astype_def)
  show ?thesis using list_roundtrip [OF demo_numpy demo_arrays_ok u d, of None demo_cast] unfolding r .
qed

text \<open>Removing padding from a list keeps the shapes of the padded arrays: the sizes no longer agree.\<close>

lemma fill_buffer_right:
  "length pre = off \<Longrightarrow> list_all2 (\<lambda>a l. l \<le> length (na_flat a)) as ls \<Longrightarrow> sum_list ls = length rest \<Longrightarrow>
   fill_buffer cast True (Some ''right_pad'') target as ls off (pre @ rest) =
   Ok (pre @ concat (map (\<lambda>(a, l). astype cast (na_dtype a) target (take l (na_flat a))) (zip as ls)), ls)"
proof (induction as arbitrary: ls off pre rest)
  case (Cons a as)
  obtain l ls' where ls: "ls = l # ls'" "l \<le> length (na_flat a)" "list_all2 (\<lambda>a l. l \<le> length (na_flat a)) as ls'"
    using Cons.prems(2) by (cases ls) auto
  let ?x = "astype cast (na_dtype a) target (take l (na_flat a))"
  have "fill_buffer cast True (Some ''right_pad'') target as ls' (off + l) ((pre @ ?x) @ drop l rest) =
      Ok ((pre @ ?x) @ concat (map (\<lambda>(a, l). astype cast (na_dtype a) target (take l (na_flat a))) (zip as ls')), ls')"
    by (rule Cons.IH) (use Cons.prems ls in auto)
  moreover have "bind_res (cut_source True (Some ''right_pad'') l (na_flat a)) (fit l) = Ok (take l (na_flat a))"
    using ls(2) by (auto simp: cut_source_def fit_def)
  ultimately show ?case using Cons.prems ls
    by (auto simp: cut_source_def fit_def)
qed simp

lemma view_received_fail: "length p \<noteq> prod_list shape \<Longrightarrow>
    view_shape (Some shape) (received conv d s p) = Err (RuntimeError ''shape is invalid for input of size'')"
  by (simp add: view_shape_def received_def)

lemma view_parts_fail:
  "list_all2 (\<lambda>p s. length p \<le> prod_list s) parts shapes \<Longrightarrow> \<exists>(p, s) \<in> set (zip parts shapes). length p \<noteq> prod_list s \<Longrightarrow>
   map_res (\<lambda>(p, s). view_shape s (received conv d [length p] p)) (zip parts (map Some shapes)) =
   Err (RuntimeError ''shape is invalid for input of size'')"
proof (induction parts shapes rule: list_all2_induct)
  case (Cons p parts s shapes)
  show ?case
  proof (cases "length p = prod_list s")
    case True
    then have "\<exists>(p, s) \<in> set (zip parts shapes). length p \<noteq> prod_list s" using Cons.prems by auto
    then show ?thesis using Cons.IH True by (simp add: view_received)
  qed (simp add: view_received_fail)
qed simp

text \<open>A list column whose padding was removed cannot be read: the lengths it is sent with are the
  cut ones, the shapes are those of the padded arrays, and restoring the shape fails as soon as one
  array was really cut.\<close>

theorem list_unpad_unreadable:
  assumes "numpy_names np" "cast_sizes cast" "\<forall>a \<in> set as. array_ok a" "as \<noteq> []" "\<forall>n. length (uninit n) = n"
    and "na_dtype (hd as) \<in> set wire_dtypes" "list_all2 (\<lambda>a l. l \<le> length (na_flat a)) as ls"
    and "\<exists>(a, l) \<in> set (zip as ls). l \<noteq> length (na_flat a)"
  shows "\<exists>buf name shapes. serialize_batch np cast uninit (Arrays as) (Some ls) (Some ''right_pad'') None =
      Ok (buf, ls, name, shapes) \<and> shapes = map na_shape as \<and>
    deserialize_column_from_frame np conv (array_bytes buf) name ls (Some (map Some shapes)) =
      Err (RuntimeError ''shape is invalid for input of size'')"
proof -
  let ?d = "na_dtype (hd as)"
  let ?parts = "map (\<lambda>(a, l). astype cast (na_dtype a) ?d (take l (na_flat a))) (zip as ls)"
  have ll: "length ls = length as" using assms(7) by (simp add: list_all2_lengthD)
  have le: "i < length as \<Longrightarrow> ls ! i \<le> length (na_flat (as ! i))" for i using assms(7) by (simp add: list_all2_conv_all_nth)
  obtain a0 as' where as: "as = a0 # as'" using assms(4) by (cases as) auto
  have "fill_buffer cast True (Some ''right_pad'') ?d as ls 0 ([] @ uninit (sum_list ls)) = Ok ([] @ concat ?parts, ls)"
    by (rule fill_buffer_right) (simp_all add: assms(5,7))
  then have s: "serialize_batch np cast uninit (Arrays as) (Some ls) (Some ''right_pad'') None =
      Ok (\<lparr>na_dtype = wire_dtype ?d, na_shape = [length (concat ?parts)], na_flat = concat ?parts\<rparr>, ls,
          dtype_name ?d, map na_shape as)"
    using as by (simp add: serialize_batch_def serialize_list_def)
  have el: "\<forall>p \<in> set ?parts. \<forall>e \<in> set p. length e = item_size ?d"
  proof
    fix p assume "p \<in> set ?parts"
    then obtain a l where a: "a \<in> set as" "p = astype cast (na_dtype a) ?d (take l (na_flat a))" by (auto dest: set_zip_leftD)
    then have "\<forall>e \<in> set (take l (na_flat a)). length e = item_size (na_dtype a)"
      using assms(3) by (auto simp: array_ok_def dest: in_set_takeD)
    from astype_sizes [OF assms(2) this] show "\<forall>e \<in> set p. length e = item_size ?d" unfolding a(2) .
  qed
  have len: "map length ?parts = ls" using ll le by (intro nth_equalityI) simp_all
  have ok: "prod_list (na_shape (as ! i)) = length (na_flat (as ! i))" if "i < length as" for i
    using assms(3) that by (simp add: array_ok_def)
  have le2: "list_all2 (\<lambda>p s. length p \<le> prod_list s) ?parts (map na_shape as)"
    using ll le ok by (simp add: list_all2_conv_all_nth)
  obtain i where i: "i < length as" "ls ! i \<noteq> length (na_flat (as ! i))" using assms(8) ll by (auto simp: in_set_zip)
  have ne: "\<exists>(p, s) \<in> set (zip ?parts (map na_shape as)). length p \<noteq> prod_list s"
    by (rule bexI [of _ "(?parts ! i, map na_shape as ! i)"]) (use i ll le [OF i(1)] ok [OF i(1)] in \<open>auto simp: in_set_zip intro!: exI [of _ i]\<close>)
  have "?parts \<noteq> []" using as ll by (cases ls) auto
  from deserialize_parts [OF assms(1,6) this el, of conv "Some (map Some (map na_shape as))"] view_parts_fail [OF le2 ne]
  show ?thesis using s unfolding len by (simp add: array_bytes_def)
qed

theorem list_unpad_unreadable_witness:
  "\<exists>buf name shapes. serialize_batch demo_names demo_cast (\<lambda>n. replicate n []) (Arrays demo_arrays) (Some [2, 1])
      (Some ''right_pad'') None = Ok (buf, [2, 1], name, shapes) \<and>
    deserialize_column_from_frame demo_names demo_cast (array_bytes buf) name [2, 1] (Some (map Some shapes)) =
      Err (RuntimeError ''shape is invalid for input of size'')"
proof -
  have u: "\<forall>n. length (replicate n ([] :: elt)) = n" by simp
  have d: "na_dtype (hd demo_arrays) \<in> set wire_dtypes" by (simp add: wire_dtypes_def plain_dtypes_def demo_arrays_def)
  have l: "list_all2 (\<lambda>a l. l \<le> length (na_flat a)) demo_arrays [2, 1]"
    "\<exists>(a, l) \<in> set (zip demo_arrays [2, 1]). l \<noteq> length (na_flat a)" by (auto simp: demo_arrays_def)
  from list_unpad_unreadable [OF demo_numpy demo_arrays_ok u d l, of demo_cast] show ?thesis by blast
qed

section \<open>Pickles and padding\<close>

lemma load_blobs_all:
  "\<forall>x \<in> set xs. loads (dumps x) = Ok x \<Longrightarrow> length pre = cursor \<Longrightarrow>
   load_blobs loads (pre @ concat (map dumps xs) @ post) (map (\<lambda>x. length (dumps x)) xs) cursor = Ok xs"
proof (induction xs arbitrary: pre cursor)
  case (Cons x xs)
  have "load_blobs loads ((pre @ dumps x) @ concat (map dumps xs) @ post) (map (\<lambda>x. length (dumps x)) xs)
      (cursor + length (dumps x)) = Ok xs" by (rule Cons.IH) (use Cons.prems in auto)
  then show ?case using Cons.prems by simp
qed simp

text \<open>A pickled column is read back as its objects, and a frame of any other size is refused.\<close>

theorem pickle_roundtrip:
  assumes "\<forall>x \<in> set xs. loads (dumps x) = Ok x" "serialize_batch_pickle dumps xs = (frame, ls, enc)"
  shows "deserialize_column_pickle_from_frame loads frame ls = Ok xs \<and>
    (xs \<noteq> [] \<longrightarrow> length frame' \<noteq> length frame \<longrightarrow>
      deserialize_column_pickle_from_frame loads frame' ls = Err (ValueError ''Pickle data size mismatch''))"
proof (cases "xs = []")
  case True
  then show ?thesis using assms(2) by (simp add: serialize_batch_pickle_def deserialize_column_pickle_from_frame_def)
next
  case False
  then have f: "frame = concat (map dumps xs)" "ls = map (\<lambda>x. length (dumps x)) xs"
    using assms(2) by (simp_all add: serialize_batch_pickle_def)
  have "sum_list ls = length frame" by (simp add: f length_concat comp_def)
  then show ?thesis using False f load_blobs_all [OF assms(1), of "[]" 0 "[]"]
    by (simp add: deserialize_column_pickle_from_frame_def)
qed

theorem pickle_roundtrip_witness:
  "deserialize_column_pickle_from_frame (\<lambda>b. Ok (drop 1 b)) [9, 1, 2, 9, 3] [3, 2] = Ok [[1, 2], [3 :: byte]]"
  using pickle_roundtrip [of "[[1, 2], [3]]" "\<lambda>b. Ok (drop 1 b)" "\<lambda>b. 9 # b" "[9, 1, 2, 9, 3]" "[3, 2]" "''pickle''"]
  by (simp add: serialize_batch_pickle_def)

lemma first_position_takeWhile:
  "take (case first_position P xs of Some i \<Rightarrow> i | None \<Rightarrow> length xs) xs = takeWhile (\<lambda>x. \<not> P x) xs \<and>
   (case first_position P xs of Some i \<Rightarrow> i | None \<Rightarrow> length xs) \<le> length xs"
  by (induction xs) (auto split: option.splits)

lemma concat_row: "\<forall>row \<in> set rows. length row = cols \<Longrightarrow> i < length rows \<Longrightarrow>
    take cols (drop (i * cols) (concat rows)) = rows ! i"
proof (induction rows arbitrary: i)
  case (Cons row rows)
  then show ?case by (cases i) (auto simp: add.commute)
qed simp

lemma array_rows_concat: "\<forall>row \<in> set rows. length row = cols \<Longrightarrow>
    array_rows \<lparr>na_dtype = d, na_shape = [length rows, cols], na_flat = map f (concat rows)\<rparr> =
    map (\<lambda>row. \<lparr>na_dtype = d, na_shape = [cols], na_flat = map f row\<rparr>) rows"
  by (rule nth_equalityI) (simp_all add: array_rows_def take_map drop_map concat_row)

text \<open>Right padding is stripped on the way: prompts that are sent with their lengths up to the first
  pad token arrive as exactly the tokens before it.\<close>

theorem padding_stripped:
  assumes "numpy_names np" "cast_sizes cast" "prompts \<noteq> []" "\<forall>row \<in> set prompts. length row = cols"
    and "\<forall>t. length (enc t) = 8"
  shows "\<exists>buf name ls shapes. serialize_batch np cast uninit
      (Whole \<lparr>na_dtype = Int64, na_shape = [length prompts, cols], na_flat = map enc (concat prompts)\<rparr>)
      (Some (get_no_pad_length prompts (Some pad))) (Some ''right_pad'') None = Ok (buf, ls, name, shapes) \<and>
    deserialize_column_from_frame np conv (array_bytes buf) name ls (Some (map Some shapes)) =
      Ok (map (\<lambda>row. let tokens = takeWhile (\<lambda>t. t \<noteq> pad) row in
            \<lparr>tn_dtype = Plain Int64, tn_shape = [length tokens], tn_flat = map enc tokens\<rparr>) prompts)"
proof -
  let ?a = "\<lparr>na_dtype = Int64, na_shape = [length prompts, cols], na_flat = map enc (concat prompts)\<rparr>"
  let ?ls = "get_no_pad_length prompts (Some pad)"
  let ?len = "\<lambda>row. case first_position (\<lambda>t. t = pad) row of Some i \<Rightarrow> i | None \<Rightarrow> length row"
  have ls: "?ls = map ?len prompts" by (simp add: get_no_pad_length_def)
  have "length (concat prompts) = length prompts * cols" using assms(4) by (rule length_concat_const)
  then have ok: "array_ok ?a" using assms(5) by (simp add: array_ok_def)
  have p: "pad_ok (Some ''right_pad'') (Some ?ls) (length prompts) cols"
    using first_position_takeWhile [where P = "\<lambda>t. t = pad"] assms(4) by (auto simp: pad_ok_def ls)
  have w: "Int64 \<in> set wire_dtypes" by (simp add: wire_dtypes_def plain_dtypes_def)
  have r: "received conv Int64 [?len row] (astype cast Int64 Int64 (kept (Some ''right_pad'') (?len row) (map enc row))) =
      (let tokens = takeWhile (\<lambda>t. t \<noteq> pad) row in
        \<lparr>tn_dtype = Plain Int64, tn_shape = [length tokens], tn_flat = map enc tokens\<rparr>)" for row
    using first_position_takeWhile [where P = "\<lambda>t. t = pad" and xs = row] length_take [of "?len row" row]
    by (simp add: received_def received_elt_def plain_dtypes_def astype_def kept_def Let_def take_map min_def)
  have z: "map (\<lambda>(r, l). received conv Int64 [l] (astype cast (na_dtype ?a) Int64 (kept (Some ''right_pad'') l (na_flat r))))
      (zip (array_rows ?a) ?ls) = map (\<lambda>row. received conv Int64 [?len row]
        (astype cast Int64 Int64 (kept (Some ''right_pad'') (?len row) (map enc row)))) prompts"
    unfolding array_rows_concat [OF assms(4)] ls by (simp add: zip_map_map zip_same_conv_map comp_def)
  have m: "matrix_lens (Some ?ls) (length prompts) cols = ?ls" by (simp add: matrix_lens_def)
  have sh: "na_shape ?a = [length prompts, cols]" "0 < length prompts" using assms(3) by simp_all
  have sv: "case None of None \<Rightarrow> Int64 = na_dtype ?a | Some s \<Rightarrow> get_numpy_dtype np s = Ok Int64" by simp
  from matrix_read_back [OF assms(1,2) ok sh p w sv, of uninit conv]
  show ?thesis unfolding m by (elim exE conjE) (intro exI conjI, assumption, simp only: z r)
qed

theorem padding_stripped_witness:
  "\<exists>buf name ls shapes. serialize_batch demo_names demo_cast (\<lambda>n. replicate n [])
      (Whole \<lparr>na_dtype = Int64, na_shape = [1, 3], na_flat = map (\<lambda>t. [word_of_int t, 0, 0, 0, 0, 0, 0, 0]) [5, 6, 0]\<rparr>)
      (Some (get_no_pad_length [[5, 6, 0]] (Some 0))) (Some ''right_pad'') None = Ok (buf, ls, name, shapes) \<and>
    deserialize_column_from_frame demo_names demo_cast (array_bytes buf) name ls (Some (map Some shapes)) =
      Ok [\<lparr>tn_dtype = Plain Int64, tn_shape = [2], tn_flat = [[5, 0, 0, 0, 0, 0, 0, 0], [6, 0, 0, 0, 0, 0, 0, 0]]\<rparr>]"
  using padding_stripped [OF demo_numpy, of "[[5, 6, 0]]" 3 "\<lambda>t. [word_of_int t, 0, 0, 0, 0, 0, 0, 0]"
      "\<lambda>n. replicate n []" 0 demo_cast] by (simp add: Let_def numeral_2_eq_2)

end
