(* ===== verification/TQClient.thy ===== *)
theory TQClient
  imports TQManager TQSerial
begin

text \<open>
  The client of the transfer queue (\<open>transfer_queue/tq_client.py\<close>): what \<open>put_experience\<close> makes of a
  dictionary of columns, the messages to the shards, and how \<open>get_experience\<close> puts the answers together.
  Calls of the manager and requests to the shards act on the manager's state, which holds the shards;
  the tasks of one call, which run concurrently on different sockets, are taken in their order. A
  notice a shard sends to the manager is returned, and delivered by a step of its own. Both callers of
  \<open>_process_node_data\<close> pass an empty \<open>unpad_map\<close>, so its branch that removes padding is not modelled.
  Logging and byte counts are left out.
\<close>

section \<open>Data\<close>

text \<open>A column is a tensor, a list, or one other object; \<open>'o\<close> are the objects that are not arrays.\<close>

datatype 'o item = Tn tensor | Nd narray | Ob 'o

datatype 'o column = Tensor_col tensor | List_col "'o item list" | Other_col 'o

type_synonym 'o data = "(string, 'o column) dict"

text \<open>What the client uses of numpy, pickle and \<open>str\<close>; \<open>rt_uuids\<close> iterates over an object that is not a list.\<close>

record 'o runtime =
  rt_np :: "string \<Rightarrow> np_dtype option"
  rt_cast :: "np_dtype \<Rightarrow> np_dtype \<Rightarrow> elt \<Rightarrow> elt"
  rt_conv :: "np_dtype \<Rightarrow> np_dtype \<Rightarrow> elt \<Rightarrow> elt"
  rt_uninit :: "nat \<Rightarrow> elt list"
  rt_dumps :: "'o item \<Rightarrow> byte list"
  rt_loads :: "byte list \<Rightarrow> 'o item result"
  rt_str :: "'o item \<Rightarrow> string"
  rt_uuids :: "'o \<Rightarrow> string list result"
  rt_itemsize :: "string \<Rightarrow> int result"

definition DEFAULT_TOPIC :: string where "DEFAULT_TOPIC = ''experience''"

definition topic_or_default :: "string option \<Rightarrow> string" where
  "topic_or_default t = (case t of None \<Rightarrow> DEFAULT_TOPIC | Some t \<Rightarrow> t)"

definition PADDED_COLUMNS :: "string list" where "PADDED_COLUMNS = [''prompt'', ''response'']"

definition tensor_slice :: "nat \<Rightarrow> nat \<Rightarrow> tensor \<Rightarrow> tensor result" where
  "tensor_slice lo hi t = (case tn_shape t of
      [] \<Rightarrow> Err (IndexError ''slice() cannot be applied to a 0-dim tensor'')
    | n # shape \<Rightarrow> (let l = min lo n; h = max l (min hi n); k = prod_list shape in
        Ok (t\<lparr>tn_shape := (h - l) # shape, tn_flat := take ((h - l) * k) (drop (l * k) (tn_flat t))\<rparr>)))"

definition tensor_row :: "nat \<Rightarrow> tensor \<Rightarrow> tensor result" where
  "tensor_row i t = (case tn_shape t of
      [] \<Rightarrow> Err (IndexError ''invalid index of a 0-dim tensor'')
    | n # shape \<Rightarrow> (if i < n then Ok (t\<lparr>tn_shape := shape, tn_flat := take (prod_list shape) (drop (i * prod_list shape) (tn_flat t))\<rparr>)
        else Err (IndexError ''index out of range'')))"

definition list_item :: "nat \<Rightarrow> 'a list \<Rightarrow> 'a result" where
  "list_item i xs = py_nth xs (int i)"

text \<open>\<open>len(col)\<close> and \<open>col[i]\<close>.\<close>

fun column_len :: "'o column \<Rightarrow> nat result" where
  "column_len (Tensor_col t) = (case tn_shape t of [] \<Rightarrow> Err (TypeError ''len() of a 0-d tensor'') | n # _ \<Rightarrow> Ok n)"
| "column_len (List_col xs) = Ok (length xs)"
| "column_len (Other_col x) = Err (TypeError ''object has no len()'')"

fun column_item :: "nat \<Rightarrow> 'o column \<Rightarrow> 'o item result" where
  "column_item i (Tensor_col t) = bind_res (tensor_row i t) (\<lambda>r. Ok (Tn r))"
| "column_item i (List_col xs) = list_item i xs"
| "column_item i (Other_col x) = Err (TypeError ''object is not subscriptable'')"

section \<open>Preparing a put\<close>

definition uuid_columns :: "'o data \<Rightarrow> string list" where
  "uuid_columns data = filter (\<lambda>k. drop (length k - 5) k = ''_uuid'' \<or> drop (length k - 4) k = ''_uid'') (dict_keys data)"

definition extract_uuids :: "'o runtime \<Rightarrow> 'o data \<Rightarrow> string list result" where
  "extract_uuids rt data = (case uuid_columns data of
      [] \<Rightarrow> Ok []
    | [c] \<Rightarrow> (case the (dict_get data c) of
         List_col xs \<Rightarrow> Ok (map (rt_str rt) xs)
       | Tensor_col t \<Rightarrow>
           (if length (tn_flat t) \<noteq> 1 then Err (RuntimeError ''Boolean value of Tensor is ambiguous'')
            else if \<forall>b \<in> set (concat (tn_flat t)). b = 0 then Ok []
            else bind_res (column_len (Tensor_col t :: 'o column)) (\<lambda>n.
              bind_res (map_res (\<lambda>i. column_item i (Tensor_col t)) [0..<n]) (\<lambda>rows. Ok (map (rt_str rt) rows))))
       | Other_col x \<Rightarrow> rt_uuids rt x)
    | _ # _ # _ \<Rightarrow> Err (ValueError ''Expected at most 1 UUID column''))"

fun first_list_len :: "'o data \<Rightarrow> nat option" where
  "first_list_len [] = None"
| "first_list_len ((c, List_col (x # xs)) # rest) = Some (Suc (length xs))"
| "first_list_len (_ # rest) = first_list_len rest"

fun first_padded_len :: "string list \<Rightarrow> 'o data \<Rightarrow> nat option" where
  "first_padded_len padded [] = None"
| "first_padded_len padded ((c, Tensor_col t) # rest) =
     (if c \<in> set padded \<and> 2 \<le> length (tn_shape t) then Some (hd (tn_shape t)) else first_padded_len padded rest)"
| "first_padded_len padded (_ # rest) = first_padded_len padded rest"

definition infer_batch_size :: "'o data \<Rightarrow> (string \<times> string \<times> string) list option \<Rightarrow> nat" where
  "infer_batch_size data unpad_pairs = (case first_list_len data of
      Some n \<Rightarrow> n
    | None \<Rightarrow> (let padded = PADDED_COLUMNS @ (case unpad_pairs of None \<Rightarrow> [] | Some ps \<Rightarrow> map fst ps) in
        case first_padded_len padded data of Some n \<Rightarrow> n | None \<Rightarrow> 1))"

fun normalize_column :: "'o column \<Rightarrow> 'o column" where
  "normalize_column (List_col xs) = List_col xs"
| "normalize_column (Tensor_col t) =
     List_col [Tn (if tn_shape t = [] then t\<lparr>tn_shape := [1]\<rparr> else t)]"
| "normalize_column (Other_col x) = List_col [Ob x]"

definition normalize_single_item_data :: "'o data \<Rightarrow> 'o data" where
  "normalize_single_item_data data = map (\<lambda>(k, v). (k, normalize_column v)) data"

section \<open>Shared and other columns\<close>

text \<open>The groups of the put, and for each shared column those that are not written yet.\<close>

definition unique_groups :: "'o data \<Rightarrow> int list \<Rightarrow> int \<Rightarrow> bool \<Rightarrow> int list result" where
  "unique_groups data indexes n needs_expansion =
     (if needs_expansion then (case data of [] \<Rightarrow> Err (RuntimeError ''StopIteration'')
        | (_, v) # _ \<Rightarrow> bind_res (column_len v) (\<lambda>k. Ok (map int [0..<k])))
      else if n = 0 \<and> indexes \<noteq> [] then Err ZeroDivisionError
      else Ok (sorted_list_of_set (set (map (\<lambda>i. i div n) indexes))))"

definition unwritten_groups :: "string \<Rightarrow> manager \<Rightarrow> string \<Rightarrow> int list \<Rightarrow> int list result" where
  "unwritten_groups topic m col groups =
     bind_res (map_res (\<lambda>g. bind_res (is_column_written_in_group topic g col m) (\<lambda>w. Ok (g, w))) groups) (\<lambda>gws.
       Ok (map fst (filter (\<lambda>gw. \<not> snd gw) gws)))"

definition groups_by_col :: "string \<Rightarrow> manager \<Rightarrow> 'o data \<Rightarrow> int list \<Rightarrow> (string, int list) dict result" where
  "groups_by_col topic m data groups =
     bind_res (map_res (\<lambda>c. bind_res (unwritten_groups topic m c groups) (\<lambda>gs. Ok (c, gs)))
                 (filter (\<lambda>c. c \<in> set GROUP_SHARED_COLUMNS) (dict_keys data))) (\<lambda>cgs.
       Ok (filter (\<lambda>cg. snd cg \<noteq> []) cgs))"

definition first_row_of_group :: "int list \<Rightarrow> int \<Rightarrow> int \<Rightarrow> nat option" where
  "first_row_of_group indexes n g =
     (case filter (\<lambda>(row, i). i div n = g) (zip [0..<length indexes] indexes) of [] \<Rightarrow> None | (row, _) # _ \<Rightarrow> Some row)"

definition shared_rows :: "int list \<Rightarrow> int \<Rightarrow> bool \<Rightarrow> int list \<Rightarrow> 'o column \<Rightarrow> 'o item list result" where
  "shared_rows indexes n needs_expansion groups col =
     (if needs_expansion
      then bind_res (if groups = [] then Ok 0 else column_len col) (\<lambda>k.
        map_res (\<lambda>g. column_item (nat g) col) (filter (\<lambda>g. g < int k) groups))
      else map_res (\<lambda>row. column_item row col)
             (concat (map (\<lambda>g. case first_row_of_group indexes n g of None \<Rightarrow> [] | Some row \<Rightarrow> [row]) groups)))"

definition filter_and_split_data ::
  "'o data \<Rightarrow> int list \<Rightarrow> string \<Rightarrow> bool \<Rightarrow> manager \<Rightarrow> ('o data \<times> 'o data \<times> int list) result" where
  "filter_and_split_data data indexes topic needs_expansion m =
     (if \<not> list_ex (\<lambda>c. c \<in> set GROUP_SHARED_COLUMNS) (dict_keys data) then Ok ([], data, [])
      else bind_res (get_n_samples_per_prompt topic m) (\<lambda>n.
           bind_res (unique_groups data indexes n needs_expansion) (\<lambda>groups.
           bind_res (groups_by_col topic m data groups) (\<lambda>by_col.
             let others = filter (\<lambda>cv. fst cv \<notin> set GROUP_SHARED_COLUMNS) data in
             if by_col = [] then Ok ([], others, [])
             else bind_res (map_res (\<lambda>(c, v). bind_res (shared_rows indexes n needs_expansion (the (dict_get by_col c)) v) (\<lambda>rows.
                          Ok (c, List_col rows))) (filter (\<lambda>cv. dict_has (fst cv) by_col) data)) (\<lambda>shared.
                    Ok (shared, others, sorted_list_of_set (set (concat (dict_values by_col)))))))))"

section \<open>Messages\<close>

text \<open>One column of a segment: rows \<open>lo\<close> to \<open>hi - 1\<close>, whichever indexes the segment has.\<close>

fun item_array :: "'o item \<Rightarrow> narray result" where
  "item_array (Tn t) = Ok (torch_to_numpy t)"
| "item_array (Nd a) = Err (AttributeError ''numpy.ndarray object has no attribute is_quantized'')"
| "item_array (Ob x) = Err (AttributeError ''object has no attribute is_quantized'')"

definition raw_message :: "'o runtime \<Rightarrow> dtype_arg option \<Rightarrow> int \<Rightarrow> batch_data \<Rightarrow> (col_info \<times> byte list) result" where
  "raw_message rt save times_n batch =
     bind_res (serialize_batch (rt_np rt) (rt_cast rt) (rt_uninit rt) batch None None save) (\<lambda>(buf, ls, name, shapes).
       Ok (\<lparr>ci_ref_multiplier = times_n, ci_lengths = map int ls, ci_dtype = name, ci_encoding = ''raw'',
            ci_shapes = Some (map (\<lambda>s. Some (map int s)) shapes)\<rparr>, array_bytes buf))"

definition pickle_message :: "'o runtime \<Rightarrow> int \<Rightarrow> 'o item list \<Rightarrow> col_info \<times> byte list" where
  "pickle_message rt times_n objects = (case serialize_batch_pickle (rt_dumps rt) objects of (buf, ls, name) \<Rightarrow>
     (\<lparr>ci_ref_multiplier = times_n, ci_lengths = map int ls, ci_dtype = name, ci_encoding = ''pickle'', ci_shapes = None\<rparr>, buf))"

fun column_message :: "'o runtime \<Rightarrow> dtype_arg option \<Rightarrow> int \<Rightarrow> nat \<Rightarrow> nat \<Rightarrow> 'o column \<Rightarrow> (col_info \<times> byte list) result" where
  "column_message rt save times_n lo hi (Tensor_col t) =
     bind_res (tensor_slice lo hi t) (\<lambda>s. raw_message rt save times_n (Whole (torch_to_numpy s)))"
| "column_message rt save times_n lo hi (List_col xs) =
     (case (if lo < length xs then Some (xs ! lo) else if xs \<noteq> [] then Some (xs ! 0) else None) of
        Some (Tn t) \<Rightarrow> bind_res (map_res (\<lambda>i. bind_res (list_item i xs) item_array) [lo..<hi]) (\<lambda>as. raw_message rt save times_n (Arrays as))
      | Some (Nd a) \<Rightarrow> bind_res (map_res (\<lambda>i. bind_res (list_item i xs) item_array) [lo..<hi]) (\<lambda>as. raw_message rt save times_n (Arrays as))
      | _ \<Rightarrow> bind_res (map_res (\<lambda>i. list_item i xs) [lo..<hi]) (\<lambda>objects. Ok (pickle_message rt times_n objects)))"
| "column_message rt save times_n lo hi (Other_col x) = Ok (pickle_message rt times_n (replicate (hi - lo) (Ob x)))"

definition segment_message ::
  "'o runtime \<Rightarrow> dtype_arg option \<Rightarrow> int \<Rightarrow> string \<Rightarrow> 'o data \<Rightarrow> (nat \<times> int) list \<Rightarrow> (put_header \<times> byte list list) result" where
  "segment_message rt save times_n topic data items =
     (let lo = fst (hd items) in
      bind_res (map_res (\<lambda>(c, v). bind_res (column_message rt save times_n lo (lo + length items) v) (\<lambda>(ci, f). Ok (c, ci, f))) data) (\<lambda>cs.
        Ok (\<lparr>ph_topic = Some topic, ph_indexes = map snd items, ph_order = map fst cs, ph_columns = map (\<lambda>(c, ci, f). (c, ci)) cs\<rparr>,
            map (\<lambda>(c, ci, f). f) cs)))"

function segments :: "nat \<Rightarrow> 'a list \<Rightarrow> 'a list list" where
  "segments k xs = (if xs = [] \<or> k = 0 then [] else take k xs # segments k (drop k xs))"
  by pat_completeness auto
termination by (relation "measure (\<lambda>(k, xs). length xs)") auto

declare segments.simps [simp del]

text \<open>Messages go out one by one; the first that cannot be built ends the sending.\<close>

fun sent_messages :: "('s \<Rightarrow> 'm result) \<Rightarrow> 's list \<Rightarrow> 'm list \<times> py_error option" where
  "sent_messages f [] = ([], None)"
| "sent_messages f (s # ss) = (case f s of
      Inl e \<Rightarrow> ([], Some e)
    | Inr m \<Rightarrow> (case sent_messages f ss of (ms, e) \<Rightarrow> (m # ms, e)))"

fun shard_answers :: "(string \<Rightarrow> int result) \<Rightarrow> tq_request list \<Rightarrow> shard \<Rightarrow> tq_reply option list \<times> notice list \<times> shard" where
  "shard_answers itemsize [] s = ([], [], s)"
| "shard_answers itemsize (r # rs) s = (case process_message itemsize r s of
      (a, ns, s') \<Rightarrow> (case shard_answers itemsize rs s' of (as, ns', s'') \<Rightarrow> (a # as, ns @ ns', s'')))"

fun position :: "'a \<Rightarrow> 'a list \<Rightarrow> nat option" where
  "position x [] = None"
| "position x (y # ys) = (if x = y then Some 0 else map_option Suc (position x ys))"

record 'o put_task =
  pt_endpoint :: string
  pt_items :: "(nat \<times> int) list"
  pt_data :: "'o data"
  pt_shared :: bool

definition process_node_data ::
  "'o runtime \<Rightarrow> nat \<Rightarrow> string \<Rightarrow> dtype_arg option \<Rightarrow> 'o put_task \<Rightarrow> manager \<Rightarrow> unit result \<times> notice list \<times> manager" where
  "process_node_data rt segment_size topic save task m =
     (if segment_size = 0 then (Err (ValueError ''range() arg 3 must not be zero''), [], m)
      else case position (pt_endpoint task) (tq_endpoints m) of
        None \<Rightarrow> (Err (RuntimeError ''no shard answers at the endpoint''), [], m)
      | Some sh \<Rightarrow>
         (let build = (\<lambda>items. bind_res (get_n_samples_per_prompt topic m) (\<lambda>n.
                segment_message rt save (if pt_shared task then n else 1) topic (pt_data task) items));
              (msgs, failed) = sent_messages build (segments segment_size (pt_items task));
              (answers, notices, s) = shard_answers (rt_itemsize rt) (map (\<lambda>(h, fs). Put h fs) msgs) (tq_shards m ! sh);
              m' = m\<lparr>tq_shards := (tq_shards m)[sh := s]\<rparr>
          in case failed of
               Some e \<Rightarrow> (Err e, notices, m')
             | None \<Rightarrow> ((if \<forall>a \<in> set answers. a = Some Ack then Ok () else Err (RuntimeError ''Batch failed. Expected ACK'')), notices, m')))"

section \<open>Putting\<close>

definition shared_tasks :: "string \<Rightarrow> 'o data \<Rightarrow> int list \<Rightarrow> manager \<Rightarrow> 'o put_task list result" where
  "shared_tasks topic shared shared_indexes m =
     (if shared = [] then Ok []
      else bind_res (get_targets_for_put topic shared_indexes m) (\<lambda>routes.
        Ok (map (\<lambda>(ep, ids). \<lparr>pt_endpoint = ep,
              pt_items = filter (\<lambda>(i, g). g \<in> set ids) (zip [0..<length shared_indexes] shared_indexes),
              pt_data = shared, pt_shared = True\<rparr>) routes)))"

text \<open>The last position of an index wins, as in the dictionary the code builds.\<close>

definition local_index :: "int list \<Rightarrow> int \<Rightarrow> nat" where
  "local_index indexes g = length indexes - 1 - the (position g (rev indexes))"

definition other_tasks :: "string \<Rightarrow> 'o data \<Rightarrow> int list \<Rightarrow> manager \<Rightarrow> 'o put_task list result" where
  "other_tasks topic others indexes m =
     (if others = [] then Ok []
      else bind_res (get_targets_for_put topic indexes m) (\<lambda>routes.
        Ok (map (\<lambda>(ep, ids). \<lparr>pt_endpoint = ep, pt_items = map (\<lambda>g. (local_index indexes g, g)) ids,
              pt_data = others, pt_shared = False\<rparr>) routes)))"

text \<open>\<open>gather\<close> lets every task finish; the first error is raised.\<close>

fun run_tasks ::
  "('t \<Rightarrow> manager \<Rightarrow> unit result \<times> notice list \<times> manager) \<Rightarrow> 't list \<Rightarrow> manager \<Rightarrow> unit result \<times> notice list \<times> manager" where
  "run_tasks f [] m = (Ok (), [], m)"
| "run_tasks f (t # ts) m = (case f t m of (r, ns, m') \<Rightarrow> (case run_tasks f ts m' of
     (r', ns', m'') \<Rightarrow> ((case r of Inl e \<Rightarrow> Err e | Inr _ \<Rightarrow> r'), ns @ ns', m'')))"

definition mark_written :: "string \<Rightarrow> string list \<Rightarrow> int list \<Rightarrow> manager \<Rightarrow> unit result \<times> manager" where
  "mark_written topic cols groups m =
     foldl (\<lambda>(r, m) (g, c). case r of Inl e \<Rightarrow> (Err e, m) | Inr _ \<Rightarrow> mark_column_written_in_group topic g c m) (Ok (), m)
       (List.product groups cols)"

definition finish_put ::
  "string \<Rightarrow> int option \<Rightarrow> int list \<Rightarrow> 'o data \<Rightarrow> int list \<Rightarrow> manager \<Rightarrow> int list result \<times> manager" where
  "finish_put topic version indexes shared groups m =
     (case mark_written topic (filter (\<lambda>c. dict_has c shared) GROUP_SHARED_COLUMNS) groups m of
        (Inl e, m') \<Rightarrow> (Err e, m')
      | (Inr _, m') \<Rightarrow> (case version of
          None \<Rightarrow> (Ok indexes, m')
        | Some v \<Rightarrow> (case record_versions topic v indexes m' of (r, m'') \<Rightarrow> (bind_res r (\<lambda>_. Ok indexes), m''))))"

definition store_experience ::
  "'o runtime \<Rightarrow> nat \<Rightarrow> string \<Rightarrow> int option \<Rightarrow> dtype_arg option \<Rightarrow> bool \<Rightarrow> 'o data \<Rightarrow> int list \<Rightarrow> int \<Rightarrow> manager \<Rightarrow>
   int list result \<times> notice list \<times> manager" where
  "store_experience rt segment_size topic version save needs_expansion data indexes n m =
     (case filter_and_split_data data indexes topic needs_expansion m of
        Inl e \<Rightarrow> (Err e, [], m)
      | Inr (shared, others, groups) \<Rightarrow>
         (case (shared_tasks topic shared (map (\<lambda>g. g * n) groups) m, other_tasks topic others indexes m) of
            (Inr ts, Inr us) \<Rightarrow>
              (if ts @ us = [] then (Ok [], [], m)
               else case run_tasks (process_node_data rt segment_size topic save) (ts @ us) m of
                 (Inl e, ns, m') \<Rightarrow> (Err e, ns, m')
               | (Inr _, ns, m') \<Rightarrow> (case finish_put topic version indexes shared groups m' of (r, m'') \<Rightarrow> (r, ns, m'')))
          | _ \<Rightarrow> (Ok [], [], m)))"

definition put_experience ::
  "'o runtime \<Rightarrow> nat \<Rightarrow> 'o data \<Rightarrow> int list option \<Rightarrow> int option \<Rightarrow> (string \<times> string \<times> string) list option \<Rightarrow> string option \<Rightarrow>
   dtype_arg option \<Rightarrow> bool \<Rightarrow> manager \<Rightarrow> int list result \<times> notice list \<times> manager" where
  "put_experience rt segment_size data0 indexes0 version unpad_pairs topic0 save needs_expansion m =
     (let topic = topic_or_default topic0 in
      case get_n_samples_per_prompt topic m of
        Inl e \<Rightarrow> (Err e, [], m)
      | Inr n \<Rightarrow>
         (let batch = infer_batch_size data0 unpad_pairs;
              data = (if batch = 1 then normalize_single_item_data data0 else data0)
          in case (case indexes0 of Some is \<Rightarrow> (Ok is, m)
                   | None \<Rightarrow> (case extract_uuids rt data of Inl e \<Rightarrow> (Err e, m)
                       | Inr uuids \<Rightarrow> allocate_indexes topic (int batch) needs_expansion uuids m)) of
               (Inl e, m') \<Rightarrow> (Err e, [], m')
             | (Inr indexes, m') \<Rightarrow>
                (if (if needs_expansion then int batch * n else int batch) \<noteq> int (length indexes)
                 then (Err (ValueError ''batch_size_to_put does not match with length of indexes''), [], m')
                 else store_experience rt segment_size topic version save needs_expansion data indexes n m')))"

text \<open>A notice of a shard reaches the manager; an error there is only logged.\<close>

definition deliver_notice :: "string \<Rightarrow> notice \<Rightarrow> manager \<Rightarrow> manager" where
  "deliver_notice topic note m = (case note of (ids, cols) \<Rightarrow> snd (update_data_status topic ids cols m))"

section \<open>Fetching from one shard\<close>

definition decode_column :: "'o runtime \<Rightarrow> col_result \<Rightarrow> byte list \<Rightarrow> 'o item list result" where
  "decode_column rt cr frame =
     (if cr_encoding cr = ''pickle''
      then deserialize_column_pickle_from_frame (rt_loads rt) frame (map nat (cr_lengths cr))
      else bind_res (deserialize_column_from_frame (rt_np rt) (rt_conv rt) frame (cr_dtype cr) (map nat (cr_lengths cr))
                       (Some (map (map_option (map nat)) (cr_shapes cr)))) (\<lambda>ts. Ok (map Tn ts)))"

type_synonym 'o fetched = "int list \<times> (string, 'o item list) dict"

text \<open>Every exception is logged and gives \<open>None\<close>. Each column of the reply is stored under its name, so
  the last wins.\<close>

definition decode_reply :: "'o runtime \<Rightarrow> string list \<Rightarrow> int list \<Rightarrow> tq_reply option \<Rightarrow> 'o fetched option" where
  "decode_reply rt columns indexes reply = (case reply of
      Some (Values metas frames) \<Rightarrow>
        (if length frames \<noteq> length columns then None
         else case map_res (\<lambda>((c, cr), f). bind_res (decode_column rt cr f) (\<lambda>xs. Ok (c, xs))) (zip metas frames) of
           Inl e \<Rightarrow> None
         | Inr cxs \<Rightarrow> Some (indexes, foldl (\<lambda>d (c, xs). dict_set c xs d) [] cxs))
    | _ \<Rightarrow> None)"

definition fetch_one_shard :: "'o runtime \<Rightarrow> string \<Rightarrow> string list \<Rightarrow> manager \<Rightarrow> string \<times> int list \<Rightarrow> 'o fetched option" where
  "fetch_one_shard rt topic columns m target = (case target of (ep, indexes) \<Rightarrow> (case position ep (tq_endpoints m) of
      None \<Rightarrow> None
    | Some sh \<Rightarrow> (case process_message (rt_itemsize rt)
          (Get \<lparr>gh_topic = Some topic, gh_indexes = indexes, gh_columns = columns\<rparr>) (tq_shards m ! sh) of
        (reply, _, _) \<Rightarrow> decode_reply rt columns indexes reply)))"

section \<open>Getting\<close>

type_synonym 'o pack = "(string, 'o item) dict"

definition sample_pack :: "string list \<Rightarrow> (string, 'o item list) dict \<Rightarrow> nat \<Rightarrow> 'o pack result" where
  "sample_pack columns data i =
     bind_res (map_res (\<lambda>c. bind_res (list_item i (the (dict_get data c))) (\<lambda>x. Ok (c, x)))
                 (filter (\<lambda>c. dict_has c data) columns)) (\<lambda>cxs. Ok (foldl (\<lambda>d (c, x). dict_set c x d) [] cxs))"

definition add_shard_result :: "string list \<Rightarrow> 'o fetched \<Rightarrow> (int, 'o pack) dict \<Rightarrow> (int, 'o pack) dict result" where
  "add_shard_result columns res acc = (case res of (ids, data) \<Rightarrow>
     bind_res (map_res (\<lambda>(i, g). bind_res (sample_pack columns data i) (\<lambda>p. Ok (g, p))) (zip [0..<length ids] ids)) (\<lambda>gps.
       Ok (foldl (\<lambda>d (g, p). dict_set g p d) acc gps)))"

fun collect_results :: "string list \<Rightarrow> 'o fetched list \<Rightarrow> (int, 'o pack) dict \<Rightarrow> (int, 'o pack) dict result" where
  "collect_results columns [] acc = Ok acc"
| "collect_results columns (r # rs) acc = bind_res (add_shard_result columns r acc) (collect_results columns rs)"

text \<open>The columns of the samples that came back, in the order asked for, or by index.\<close>

definition final_order :: "int list option \<Rightarrow> (int, 'p) dict \<Rightarrow> int list" where
  "final_order indexes packs = (case indexes of
      None \<Rightarrow> sorted_list_of_set (set (dict_keys packs))
    | Some is \<Rightarrow> filter (\<lambda>i. dict_has i packs) is)"

text \<open>A column that is asked for \<open>k\<close> times is one key, with every value \<open>k\<close> times.\<close>

definition assemble :: "string list \<Rightarrow> int list \<Rightarrow> (int, 'o pack) dict \<Rightarrow> (string, 'o item list) dict result" where
  "assemble columns order packs = map_res (\<lambda>c.
     bind_res (map_res (\<lambda>g. dict_index c (the (dict_get packs g))) order) (\<lambda>xs.
       Ok (c, concat (map (replicate (length (filter (\<lambda>d. d = c) columns))) xs)))) (rev (remdups (rev columns)))"

definition some_results :: "'a option list \<Rightarrow> 'a list" where
  "some_results rs = map the (filter (\<lambda>r. r \<noteq> None) rs)"

text \<open>The manager's part: given indexes, or a number of samples.\<close>

definition allocate_shards ::
  "(nat \<Rightarrow> nat) \<Rightarrow> string \<Rightarrow> string \<Rightarrow> string list \<Rightarrow> int option \<Rightarrow> int list option \<Rightarrow> bool \<Rightarrow> int option \<Rightarrow> int option \<Rightarrow>
   any_sampler option \<Rightarrow> manager \<Rightarrow> (string, int list) dict option result \<times> manager" where
  "allocate_shards rs topic consumer columns exp_count indexes get_n_samples staleness latest smp m = (case indexes of
      Some is \<Rightarrow> allocate_shard_for_indexes topic consumer columns is staleness latest m
    | None \<Rightarrow> allocate_shard_and_indexes rs topic consumer columns exp_count get_n_samples staleness latest smp m)"

text \<open>\<open>micros\<close> is the measured time; an error of the manager is swallowed.\<close>

definition get_experience ::
  "'o runtime \<Rightarrow> (nat \<Rightarrow> nat) \<Rightarrow> int \<Rightarrow> string \<Rightarrow> string list \<Rightarrow> int option \<Rightarrow> int list option \<Rightarrow> bool \<Rightarrow> int option \<Rightarrow> int option \<Rightarrow>
   string option \<Rightarrow> any_sampler option \<Rightarrow> manager \<Rightarrow> ((string, 'o item list) dict \<times> int list) option result \<times> manager" where
  "get_experience rt rs micros consumer columns exp_count indexes get_n_samples staleness latest topic0 smp m =
     (let topic = topic_or_default topic0 in
      if exp_count = None \<and> indexes = None then (Err (ValueError ''Either experience_count or indexes must be provided''), m)
      else case allocate_shards rs topic consumer columns exp_count indexes get_n_samples staleness latest smp m of
        (Inl e, m') \<Rightarrow> (Ok None, m')
      | (Inr None, m') \<Rightarrow> (Ok None, m')
      | (Inr (Some shard_map), m') \<Rightarrow>
          (if shard_map = [] then (Ok None, m')
           else let results = some_results (map (fetch_one_shard rt topic columns m') shard_map) in
             case collect_results columns results [] of
               Inl e \<Rightarrow> (Err e, m')
             | Inr packs \<Rightarrow>
                (if sum_list (map (\<lambda>r. length (fst r)) results) = 0 then (Ok None, m')
                 else let order = final_order indexes packs in
                   case assemble columns order packs of
                     Inl e \<Rightarrow> (Err e, m')
                   | Inr cols \<Rightarrow> (Ok (Some (cols, order)), accumulate_timing ''get'' micros m'))))"

section \<open>Calls of the manager\<close>

definition client_add_topic :: "string \<Rightarrow> int \<Rightarrow> int \<Rightarrow> string list \<Rightarrow> string list \<Rightarrow> manager \<Rightarrow> unit result \<times> manager" where
  "client_add_topic topic prompts n columns consumers m =
     (if topic = [] then (Err (ValueError ''Topic must be non-empty''), m)
      else add_topic topic prompts n columns consumers m)"

definition client_delete_topic :: "string option \<Rightarrow> manager \<Rightarrow> manager" where
  "client_delete_topic t m = delete_topic (topic_or_default t) m"

definition client_get_data_ready_set :: "string option \<Rightarrow> string list \<Rightarrow> int list \<Rightarrow> bool \<Rightarrow> manager \<Rightarrow> (int \<times> int list) result" where
  "client_get_data_ready_set t columns indexes gn m = get_data_ready_set (topic_or_default t) columns indexes gn m"

definition client_get_data_consumed_set ::
  "string option \<Rightarrow> string \<Rightarrow> int list \<Rightarrow> bool \<Rightarrow> manager \<Rightarrow> (int \<times> int list) result \<times> manager" where
  "client_get_data_consumed_set t consumer indexes gn m = get_data_consumed_set (topic_or_default t) consumer indexes gn m"

definition client_get_data_usable_set ::
  "string option \<Rightarrow> string \<Rightarrow> string list \<Rightarrow> int option \<Rightarrow> int option \<Rightarrow> int list \<Rightarrow> bool \<Rightarrow> manager \<Rightarrow> (int \<times> int list) result" where
  "client_get_data_usable_set t consumer columns staleness latest indexes gn m =
     get_data_usable_set (topic_or_default t) consumer columns staleness latest indexes gn m"

definition client_get_allocation_for_new_groups :: "string option \<Rightarrow> int \<Rightarrow> manager \<Rightarrow> int list list result \<times> manager" where
  "client_get_allocation_for_new_groups t k m = get_allocation_for_new_groups (topic_or_default t) k m"

section \<open>Sockets and locks\<close>

text \<open>
  Objects are numbers. The sockets of a thread are cached by endpoint. An \<open>asyncio.Lock\<close> is bound to an
  event loop only when an \<open>acquire\<close> has to wait (Python 3.10 and later): an \<open>acquire\<close> of a free lock
  takes it at once.
\<close>

record socket_cache =
  sk_open :: "(string, nat) dict"
  sk_closed :: "nat list"
  sk_next :: nat

definition get_async_socket :: "string \<Rightarrow> socket_cache \<Rightarrow> nat \<times> socket_cache" where
  "get_async_socket ep c = (case dict_get (sk_open c) ep of
      Some s \<Rightarrow> (s, c)
    | None \<Rightarrow> (sk_next c, c\<lparr>sk_open := dict_set ep (sk_next c) (sk_open c), sk_next := Suc (sk_next c)\<rparr>))"

definition invalidate_socket :: "string \<Rightarrow> socket_cache \<Rightarrow> socket_cache" where
  "invalidate_socket ep c = (case dict_get (sk_open c) ep of
      None \<Rightarrow> c
    | Some s \<Rightarrow> c\<lparr>sk_closed := s # sk_closed c, sk_open := dict_del ep (sk_open c)\<rparr>)"

record lock =
  lk_loop :: "nat option"
  lk_locked :: bool

record lock_table =
  lt_by_endpoint :: "(string, nat) dict"
  lt_locks :: "lock list"

definition get_endpoint_lock :: "nat \<Rightarrow> string \<Rightarrow> lock_table \<Rightarrow> nat \<times> lock_table" where
  "get_endpoint_lock current_loop ep t =
     (let fresh = (length (lt_locks t), t\<lparr>lt_by_endpoint := dict_set ep (length (lt_locks t)) (lt_by_endpoint t),
                      lt_locks := lt_locks t @ [\<lparr>lk_loop = None, lk_locked = False\<rparr>]\<rparr>)
      in case dict_get (lt_by_endpoint t) ep of
           None \<Rightarrow> fresh
         | Some k \<Rightarrow> (if lk_loop (lt_locks t ! k) = Some current_loop then (k, t) else fresh))"

text \<open>Whether the caller goes on at once.\<close>

definition acquire :: "nat \<Rightarrow> nat \<Rightarrow> lock_table \<Rightarrow> bool \<times> lock_table" where
  "acquire current_loop k t =
     (let l = lt_locks t ! k in
      if \<not> lk_locked l then (True, t\<lparr>lt_locks := (lt_locks t)[k := l\<lparr>lk_locked := True\<rparr>]\<rparr>)
      else (False, t\<lparr>lt_locks := (lt_locks t)[k := l\<lparr>lk_loop := Some current_loop\<rparr>]\<rparr>))"

definition enter_endpoint :: "nat \<Rightarrow> string \<Rightarrow> lock_table \<Rightarrow> bool \<times> lock_table" where
  "enter_endpoint current_loop ep t = (case get_endpoint_lock current_loop ep t of (k, t') \<Rightarrow> acquire current_loop k t')"

section \<open>The endpoint lock\<close>

text \<open>What coroutines do with the locks: enter an endpoint, or release a lock they hold.\<close>

datatype lock_op = Enter nat string | Leave nat

fun lock_step :: "lock_op \<Rightarrow> lock_table \<Rightarrow> bool \<times> lock_table" where
  "lock_step (Enter current_loop ep) t = enter_endpoint current_loop ep t"
| "lock_step (Leave k) t = (True, t\<lparr>lt_locks := (lt_locks t)[k := (lt_locks t ! k)\<lparr>lk_locked := False\<rparr>]\<rparr>)"

fun lock_run :: "lock_op list \<Rightarrow> lock_table \<Rightarrow> bool list" where
  "lock_run [] t = []"
| "lock_run (op # ops) t = (case lock_step op t of (b, t') \<Rightarrow> b # lock_run ops t')"

definition no_locks :: lock_table where
  "no_locks = \<lparr>lt_by_endpoint = [], lt_locks = []\<rparr>"

definition unbound :: "lock_table \<Rightarrow> bool" where
  "unbound t \<longleftrightarrow> (\<forall>l \<in> set (lt_locks t). lk_loop l = None) \<and> (\<forall>k \<in> set (dict_values (lt_by_endpoint t)). k < length (lt_locks t))"

lemma unbound_enter: "unbound t \<Longrightarrow> enter_endpoint current_loop ep t = (b, t') \<Longrightarrow> b \<and> unbound t'"
proof -
  assume u: "unbound t" and e: "enter_endpoint current_loop ep t = (b, t')"
  let ?t = "t\<lparr>lt_by_endpoint := dict_set ep (length (lt_locks t)) (lt_by_endpoint t),
      lt_locks := lt_locks t @ [\<lparr>lk_loop = None, lk_locked = False\<rparr>]\<rparr>"
  have "get_endpoint_lock current_loop ep t = (length (lt_locks t), ?t)"
  proof (cases "dict_get (lt_by_endpoint t) ep")
    case (Some k)
    then have "k < length (lt_locks t)" using u by (force simp: unbound_def dest!: map_of_SomeD)
    then have "lk_loop (lt_locks t ! k) = None" using u by (simp add: unbound_def)
    then show ?thesis using Some by (simp add: get_endpoint_lock_def)
  qed (simp add: get_endpoint_lock_def)
  then have "b" "t' = ?t\<lparr>lt_locks := lt_locks t @ [\<lparr>lk_loop = None, lk_locked = True\<rparr>]\<rparr>"
    using e by (auto simp: enter_endpoint_def acquire_def Let_def)
  moreover have "\<forall>k \<in> set (dict_values (dict_set ep (length (lt_locks t)) (lt_by_endpoint t))). k < Suc (length (lt_locks t))"
    using u by (metis dict_set_values less_Suc_eq unbound_def)
  ultimately have "b" "unbound t'" using u by (auto simp: unbound_def)
  then show ?thesis by simp
qed

lemma unbound_step: "unbound t \<Longrightarrow> lock_step op t = (b, t') \<Longrightarrow> b \<and> unbound t'"
proof (cases op)
  case (Leave k)
  assume u: "unbound t" and s: "lock_step op t = (b, t')"
  have "lk_loop l = None" if "l \<in> set ((lt_locks t)[k := (lt_locks t ! k)\<lparr>lk_locked := False\<rparr>])" for l
    using u that set_update_subset_insert [of "lt_locks t" k "(lt_locks t ! k)\<lparr>lk_locked := False\<rparr>"]
    by (cases "k < length (lt_locks t)") (auto simp: unbound_def not_less list_update_beyond)
  moreover have "b" "t' = t\<lparr>lt_locks := (lt_locks t)[k := (lt_locks t ! k)\<lparr>lk_locked := False\<rparr>]\<rparr>" using s Leave by auto
  ultimately show ?thesis using u by (simp add: unbound_def)
next
  case (Enter current_loop ep)
  assume u: "unbound t" and s: "lock_step op t = (b, t')"
  have "enter_endpoint current_loop ep t = (b, t')" using s Enter by simp
  from unbound_enter [OF u this] show ?thesis .
qed

lemma unbound_run: "unbound t \<Longrightarrow> False \<notin> set (lock_run ops t)"
proof (induction ops arbitrary: t)
  case (Cons op ops)
  obtain b t' where s: "lock_step op t = (b, t')" by fastforce
  then show ?case using Cons unbound_step [OF Cons.prems s] by simp
qed simp

text \<open>The endpoint lock never excludes anyone: a lock learns its event loop only when a coroutine waits
  for it, and until then it is taken for a lock of another loop and replaced. Whatever the order of
  coroutines that enter and leave endpoints, each of them enters at once, also while another is inside.\<close>

theorem lock_never_excludes:
  "False \<notin> set (lock_run ops no_locks)"
  by (rule unbound_run) (simp add: unbound_def no_locks_def)

section \<open>Where rows are stored\<close>

lemma map_res_nth: "map_res f xs = Ok ys \<Longrightarrow> i < length xs \<Longrightarrow> f (xs ! i) = Ok (ys ! i)"
proof (induction xs arbitrary: ys i)
  case (Cons x xs)
  then show ?case by (cases i) auto
qed simp

lemma list_items: "hi \<le> length xs \<Longrightarrow> map_res (\<lambda>i. list_item i xs) [lo..<hi] = Ok (map (\<lambda>i. xs ! i) [lo..<hi])"
  by (rule map_res_all_Ok) (simp add: list_item_def py_nth_in)

text \<open>A list of plain objects is pickled, one blob for each row.\<close>

lemma column_message_objects:
  assumes "lo < hi" "hi \<le> length xs" "xs ! lo = Ob x"
  shows "column_message rt save k lo hi (List_col xs) = Ok (pickle_message rt k (map (\<lambda>i. xs ! i) [lo..<hi]))"
  using assms by (simp add: list_items)

lemma pickle_message_eq: "objects \<noteq> [] \<Longrightarrow> pickle_message rt k objects =
    (\<lparr>ci_ref_multiplier = k, ci_lengths = map (\<lambda>x. int (length (rt_dumps rt x))) objects, ci_dtype = ''pickle'',
      ci_encoding = ''pickle'', ci_shapes = None\<rparr>, concat (map (rt_dumps rt) objects))"
  by (simp add: pickle_message_def serialize_batch_pickle_def comp_def)

lemma cut_concat: "cut (map (\<lambda>b. int (length b)) bs) (concat bs) = bs"
  by (induction bs) simp_all

lemma pickle_chunks: "objects \<noteq> [] \<Longrightarrow> length objects = length ids \<Longrightarrow> pickle_message rt 1 objects = (ci, f) \<Longrightarrow>
    col_chunks ids n ci item f = zip ids (map (rt_dumps rt) objects)"
  using cut_concat [of "map (rt_dumps rt) objects"]
  by (auto simp: pickle_message_eq col_chunks_def chunks_def expand_def comp_def)

lemma pickle_message_facts: "pickle_message rt k xs = (ci, f) \<Longrightarrow>
    ci_ref_multiplier ci = k \<and> (\<forall>l \<in> set (ci_lengths ci). 0 \<le> l)"
  by (cases "serialize_batch_pickle (rt_dumps rt) xs") (auto simp: pickle_message_def)

lemma raw_message_facts: "raw_message rt save k b = Ok (ci, f) \<Longrightarrow>
    ci_ref_multiplier ci = k \<and> (\<forall>l \<in> set (ci_lengths ci). 0 \<le> l)"
  by (auto simp: raw_message_def split: prod.splits)

lemma message_lengths: "column_message rt save k lo hi v = Ok (ci, f) \<Longrightarrow>
    ci_ref_multiplier ci = k \<and> (\<forall>l \<in> set (ci_lengths ci). 0 \<le> l)"
  by (cases v) (auto dest: raw_message_facts pickle_message_facts split: option.splits item.splits if_splits)

lemma segment_message_Ok:
  assumes "segment_message rt save k topic data items = Ok (h, fs)"
  obtains cs where "map_res (\<lambda>(c, v). bind_res (column_message rt save k (fst (hd items)) (fst (hd items) + length items) v)
      (\<lambda>(ci, f). Ok (c, ci, f))) data = Ok cs" "h = \<lparr>ph_topic = Some topic, ph_indexes = map snd items,
      ph_order = map fst cs, ph_columns = map (\<lambda>(c, ci, f). (c, ci)) cs\<rparr>" "fs = map (\<lambda>(c, ci, f). f) cs"
  using assms by (auto simp: segment_message_def Let_def)

lemma keys_map_res: "map_res (\<lambda>(c, v). bind_res (g v) (\<lambda>(ci, f). Ok (c, ci, f))) data = Ok cs \<Longrightarrow>
    map fst cs = dict_keys data"
  by (induction data arbitrary: cs) auto


section \<open>Reading back through a shard\<close>

lemma map_res_all: "map_res f xs = Ok ys \<Longrightarrow> \<forall>y \<in> set ys. \<exists>x \<in> set xs. f x = Ok y"
proof (induction xs arbitrary: ys)
  case (Cons x xs)
  then obtain y ys' where "f x = Ok y" "map_res f xs = Ok ys'" "ys = y # ys'" by auto
  then show ?case using Cons.IH [of ys'] by auto
qed simp

lemma get_batch_pickled:
  assumes "table_reach itemsize t" "\<forall>c \<in> set columns. \<exists>item dt. dict_get (et_col_metas t) c = Some (item, dt, ''pickle'')"
    and "\<forall>c \<in> set columns. dict_get (et_indices t) c \<noteq> None"
    and "\<forall>c \<in> set columns. \<forall>g \<in> set ids. stored t c g = Some (b c g)"
  shows "\<exists>crs. get_batch ids columns t = Ok (zip columns crs, map (\<lambda>c. concat (map (b c) ids)) columns) \<and>
    length crs = length columns \<and>
    (\<forall>cr \<in> set crs. cr_encoding cr = ''pickle'') \<and> map cr_lengths crs = map (\<lambda>c. map (\<lambda>g. int (length (b c g))) ids) columns"
proof -
  obtain F where wf: "table_wf F t" using table_reach_wf [OF assms(1)] by blast
  define cr where "cr c = fst (case get_col ids c t of Inr r \<Rightarrow> r)" for c
  have one: "get_col ids c t = Ok (cr c, concat (map (b c) ids)) \<and> cr_encoding (cr c) = ''pickle'' \<and>
      cr_lengths (cr c) = map (\<lambda>g. int (length (b c g))) ids" if c: "c \<in> set columns" for c
  proof -
    have m: "map (\<lambda>g. the (stored t c g)) ids = map (b c) ids" using assms(4) c by simp
    have nn: "\<not> (\<exists>g \<in> set ids. stored t c g = None)" using assms(4) c by simp
    obtain item dt where "dict_get (et_col_metas t) c = Some (item, dt, ''pickle'')" using assms(2) c by blast
    moreover have "dict_get (et_indices t) c \<noteq> None" using assms(3) c by blast
    ultimately show ?thesis using nn assms(4) c unfolding cr_def get_col_spec [OF wf] m by (simp add: Let_def)
  qed
  have "map_res (\<lambda>c. get_col ids c t) columns = Ok (map (\<lambda>c. (cr c, concat (map (b c) ids))) columns)"
    by (rule map_res_all_Ok) (use one in blast)
  then show ?thesis using one
    by (intro exI [of _ "map cr columns"]) (simp add: get_batch_def comp_def)
qed

lemma set_new_keys: "distinct (dict_keys d @ map fst cxs) \<Longrightarrow> foldl (\<lambda>d (c, x). dict_set c x d) d cxs = d @ cxs"
proof (induction cxs arbitrary: d)
  case (Cons cx cxs)
  obtain c x where cx: "cx = (c, x)" by fastforce
  have "\<not> dict_has c d" using Cons.prems cx by (auto simp: dict_has_iff)
  then have "dict_set c x d = d @ [(c, x)]" by (rule dict_set_new)
  then show ?case using Cons cx by simp
qed simp

text \<open>Pickled columns come back whole: when a shard holds the pickles of some objects under the indexes
  asked for, fetching them gives exactly those objects, column by column, in the order asked.\<close>

theorem fetch_returns_objects:
  assumes "position ep (tq_endpoints m) = Some sh" "dict_get (sh_tables (tq_shards m ! sh)) topic = Some t"
    and "table_reach itemsize t" "distinct columns"
    and "\<forall>c \<in> set columns. \<exists>item dt. dict_get (et_col_metas t) c = Some (item, dt, ''pickle'')"
    and "\<forall>c \<in> set columns. dict_get (et_indices t) c \<noteq> None"
    and "\<forall>c \<in> set columns. \<forall>g \<in> set ids. stored t c g = Some (rt_dumps rt (v c g)) \<and> rt_loads rt (rt_dumps rt (v c g)) = Ok (v c g)"
  shows "fetch_one_shard rt topic columns m (ep, ids) = Some (ids, map (\<lambda>c. (c, map (v c) ids)) columns)"
proof -
  let ?b = "\<lambda>c g. rt_dumps rt (v c g)"
  have st: "\<forall>c \<in> set columns. \<forall>g \<in> set ids. stored t c g = Some (?b c g)" using assms(7) by blast
  obtain crs where g: "get_batch ids columns t = Ok (zip columns crs, map (\<lambda>c. concat (map (?b c) ids)) columns)"
    "length crs = length columns" "\<forall>cr \<in> set crs. cr_encoding cr = ''pickle''"
    "map cr_lengths crs = map (\<lambda>c. map (\<lambda>g. int (length (?b c g))) ids) columns"
    using get_batch_pickled [OF assms(3,5,6) st] by blast
  have dec: "decode_column rt (crs ! i) (concat (map (?b (columns ! i)) ids)) = Ok (map (v (columns ! i)) ids)"
    if i: "i < length columns" for i
  proof -
    let ?c = "columns ! i"
    have l: "cr_lengths (crs ! i) = map (\<lambda>g. int (length (?b ?c g))) ids" using g(2,4) i by (metis nth_map)
    have "\<forall>x \<in> set (map (v ?c) ids). rt_loads rt (rt_dumps rt x) = Ok x" using assms(7) i by auto
    from load_blobs_all [OF this, of "[]" 0 "[]"] have lb: "load_blobs (rt_loads rt) (concat (map (?b ?c) ids))
        (map (\<lambda>g. length (?b ?c g)) ids) 0 = Ok (map (v ?c) ids)" by (simp add: comp_def)
    have s: "sum_list (map (\<lambda>g. length (?b ?c g)) ids) = length (concat (map (?b ?c) ids))" by (simp add: length_concat comp_def)
    have e: "cr_encoding (crs ! i) = ''pickle''" using g(2,3) i by simp
    have n: "map nat (cr_lengths (crs ! i)) = map (\<lambda>g. length (?b ?c g)) ids" by (simp add: l comp_def)
    show ?thesis unfolding decode_column_def n using lb s e by (simp add: deserialize_column_pickle_from_frame_def)
  qed
  let ?z = "zip (zip columns crs) (map (\<lambda>c. concat (map (?b c) ids)) columns)"
  have "map_res (\<lambda>((c, cr), f). bind_res (decode_column rt cr f) (\<lambda>xs. Ok (c, xs))) ?z =
      Ok (map (\<lambda>((c, cr), f). (c, map (v c) ids)) ?z)"
    by (rule map_res_all_Ok) (use dec g(2) in \<open>auto simp: in_set_zip\<close>)
  moreover have "map (\<lambda>((c, cr), f). (c, map (v c) ids)) ?z = map (\<lambda>c. (c, map (v c) ids)) columns"
    using g(2) by (intro nth_equalityI) simp_all
  ultimately have "decode_reply rt columns ids (Some (Values (zip columns crs) (map (\<lambda>c. concat (map (?b c) ids)) columns))) =
      Some (ids, map (\<lambda>c. (c, map (v c) ids)) columns)"
    using set_new_keys [of "[]" "map (\<lambda>c. (c, map (v c) ids)) columns"] assms(4)
    by (simp add: decode_reply_def comp_def)
  then show ?thesis using assms(1,2) g(1) by (simp add: fetch_one_shard_def handle_get_def)
qed

section \<open>Putting the answers together\<close>

definition fetched_value :: "'o fetched list \<Rightarrow> string \<Rightarrow> int \<Rightarrow> 'o item \<Rightarrow> bool" where
  "fetched_value results c g x \<longleftrightarrow> (\<exists>(ids, data) \<in> set results. \<exists>j xs. j < length ids \<and> ids ! j = g \<and>
     dict_get data c = Some xs \<and> j < length xs \<and> xs ! j = x)"

definition packs_from :: "'o fetched list \<Rightarrow> (int, 'o pack) dict \<Rightarrow> bool" where
  "packs_from results packs \<longleftrightarrow> (\<forall>g p c x. dict_get packs g = Some p \<longrightarrow> dict_get p c = Some x \<longrightarrow> fetched_value results c g x)"

lemma concat_replicate_1: "concat (map (replicate (Suc 0)) xs) = xs"
  by (induction xs) simp_all

lemma count_distinct: "distinct columns \<Longrightarrow> c \<in> set columns \<Longrightarrow> length (filter (\<lambda>d. d = c) columns) = Suc 0"
  by (induction columns) (auto simp: filter_empty_conv)

lemma assemble_distinct: "distinct columns \<Longrightarrow> assemble columns order packs = map_res (\<lambda>c.
     bind_res (map_res (\<lambda>g. dict_index c (the (dict_get packs g))) order) (\<lambda>xs. Ok (c, xs))) columns"
proof -
  assume d: "distinct columns"
  have "map_res (\<lambda>c. bind_res (map_res (\<lambda>g. dict_index c (the (dict_get packs g))) order) (\<lambda>xs.
          Ok (c, concat (map (replicate (length (filter (\<lambda>d. d = c) columns))) xs)))) cs =
      map_res (\<lambda>c. bind_res (map_res (\<lambda>g. dict_index c (the (dict_get packs g))) order) (\<lambda>xs. Ok (c, xs))) cs"
    if "set cs \<subseteq> set columns" for cs
    using that by (induction cs) (simp_all add: count_distinct [OF d] concat_replicate_1)
  then show ?thesis using d by (simp add: assemble_def distinct_remdups_id)
qed

lemma list_item_Ok: "list_item i xs = Ok x \<Longrightarrow> i < length xs \<and> xs ! i = x"
  by (auto simp: list_item_def py_nth_def split: if_splits)

lemma foldl_dict_get: "dict_get (foldl (\<lambda>d (k, v). dict_set k v d) d kvs) k = Some v \<Longrightarrow>
    (k, v) \<in> set kvs \<or> dict_get d k = Some v"
proof (induction kvs arbitrary: d)
  case (Cons kv kvs)
  obtain a b where kv: "kv = (a, b)" by fastforce
  then have "dict_get (foldl (\<lambda>d (k, v). dict_set k v d) (dict_set a b d) kvs) k = Some v" using Cons.prems by simp
  from Cons.IH [OF this] show ?case using kv by (auto split: if_splits)
qed simp

lemma foldl_dict_has: "dict_has k (foldl (\<lambda>d (k, v). dict_set k v d) d kvs) \<longleftrightarrow> k \<in> fst ` set kvs \<or> dict_has k d"
  by (induction kvs arbitrary: d) auto

lemma sample_pack_Ok: "sample_pack columns data i = Ok p \<Longrightarrow> dict_get p c = Some x \<Longrightarrow>
    \<exists>xs. dict_get data c = Some xs \<and> i < length xs \<and> xs ! i = x"
proof -
  assume s: "sample_pack columns data i = Ok p" and g: "dict_get p c = Some x"
  obtain cxs where m: "map_res (\<lambda>c. bind_res (list_item i (the (dict_get data c))) (\<lambda>x. Ok (c, x)))
      (filter (\<lambda>c. dict_has c data) columns) = Ok cxs" and p: "p = foldl (\<lambda>d (c, x). dict_set c x d) [] cxs"
    using s by (auto simp: sample_pack_def)
  have "(c, x) \<in> set cxs" using foldl_dict_get [OF g [unfolded p]] by simp
  with map_res_all [OF m] have "dict_has c data \<and> list_item i (the (dict_get data c)) = Ok x" by fastforce
  then show ?thesis using list_item_Ok [of i _ x] by (cases "dict_get data c") (auto simp: dict_has_def)
qed

lemma collect_from:
  "collect_results columns rs acc = Ok packs \<Longrightarrow> packs_from results acc \<Longrightarrow> set rs \<subseteq> set results \<Longrightarrow>
   packs_from results packs \<and> (\<forall>g. dict_has g packs \<longleftrightarrow> dict_has g acc \<or> (\<exists>r \<in> set rs. g \<in> set (fst r)))"
proof (induction columns rs acc rule: collect_results.induct)
  case (2 columns r rs acc)
  obtain ids data where r: "r = (ids, data)" by fastforce
  obtain gps where gps: "map_res (\<lambda>(i, g). bind_res (sample_pack columns data i) (\<lambda>p. Ok (g, p))) (zip [0..<length ids] ids) = Ok gps"
    and rest: "collect_results columns rs (foldl (\<lambda>d (g, p). dict_set g p d) acc gps) = Ok packs"
    using "2.prems"(1) by (auto simp: r add_shard_result_def)
  have new: "fetched_value results c g x" if gp: "(g, p) \<in> set gps" and px: "dict_get p c = Some x" for g p c x
  proof -
    obtain i where i: "i < length ids" "ids ! i = g" "sample_pack columns data i = Ok p"
    proof -
      obtain ig where ig: "ig \<in> set (zip [0..<length ids] ids)"
          "(case ig of (i, g) \<Rightarrow> bind_res (sample_pack columns data i) (\<lambda>p. Ok (g, p))) = Ok (g, p)"
        using map_res_all [OF gps] gp by blast
      obtain i g' where c: "ig = (i, g')" by fastforce
      then have "i < length ids" "ids ! i = g'" using ig(1) by (auto simp: in_set_zip)
      moreover have "sample_pack columns data i = Ok p" "g' = g" using ig(2) c by auto
      ultimately show thesis using that by blast
    qed
    then show ?thesis using sample_pack_Ok [OF i(3) px] "2.prems"(3) r
      unfolding fetched_value_def by fastforce
  qed
  have "packs_from results (foldl (\<lambda>d (g, p). dict_set g p d) acc gps)"
    unfolding packs_from_def
  proof (intro allI impI)
    fix g p c x assume g: "dict_get (foldl (\<lambda>d (g, p). dict_set g p d) acc gps) g = Some p" and c: "dict_get p c = Some x"
    from foldl_dict_get [OF g] show "fetched_value results c g x"
    proof
      assume "(g, p) \<in> set gps" then show ?thesis using c by (rule new)
    next
      assume "dict_get acc g = Some p" then show ?thesis using c "2.prems"(2) unfolding packs_from_def by blast
    qed
  qed
  moreover have "map fst gps = ids"
  proof (rule nth_equalityI)
    show "length (map fst gps) = length ids" using map_res_length [OF gps] by simp
    fix i assume "i < length (map fst gps)"
    then show "map fst gps ! i = ids ! i" using map_res_nth [OF gps, of i] map_res_length [OF gps] by auto (metis fst_conv)
  qed
  then have "fst ` set gps = set ids" by (metis set_map)
  ultimately show ?case using "2.IH" [OF rest] "2.prems"(3) by (auto simp: foldl_dict_has r)
qed simp

text \<open>C10. Rows stay together: in what \<open>get_experience\<close> returns every column has one value for each returned
  index, and that value is what a shard answered for this index and this column. Without requested
  indexes the returned ones are sorted, otherwise they are the requested ones that a shard answered.\<close>

theorem get_experience_aligned:
  assumes "get_experience rt rs micros consumer columns exp_count indexes gn staleness latest topic smp m = (Ok (Some (cols, order)), m')"
    and "distinct columns"
  shows "\<exists>targets m1. allocate_shards rs (topic_or_default topic) consumer columns exp_count indexes gn staleness latest smp m
      = (Ok (Some targets), m1) \<and>
    (let results = some_results (map (fetch_one_shard rt (topic_or_default topic) columns m1) targets);
         answered = \<Union> (set ` set (map fst results)) in
      dict_keys cols = columns \<and>
      (\<forall>(c, xs) \<in> set cols. length xs = length order \<and> (\<forall>k < length order. fetched_value results c (order ! k) (xs ! k))) \<and>
      order = (case indexes of None \<Rightarrow> sorted_list_of_set answered | Some is \<Rightarrow> filter (\<lambda>i. i \<in> answered) is))"
proof -
  obtain targets m1 where al: "allocate_shards rs (topic_or_default topic) consumer columns exp_count indexes gn staleness latest smp m
      = (Ok (Some targets), m1)"
    using assms(1) by (auto simp: get_experience_def Let_def split: if_splits prod.splits sum.splits option.splits)
  let ?rs = "some_results (map (fetch_one_shard rt (topic_or_default topic) columns m1) targets)"
  obtain packs where pk: "collect_results columns ?rs [] = Ok packs" "order = final_order indexes packs"
      "assemble columns (final_order indexes packs) packs = Ok cols"
    using assms(1) unfolding get_experience_def Let_def al by (auto split: if_splits sum.splits)
  have frm: "packs_from ?rs packs" and has: "\<And>g. dict_has g packs \<longleftrightarrow> (\<exists>r \<in> set ?rs. g \<in> set (fst r))"
    using collect_from [OF pk(1), of ?rs] by (simp_all add: packs_from_def)
  have keys: "set (dict_keys packs) = \<Union> (set ` set (map fst ?rs))"
    using has by (auto simp: dict_has_iff)
  have order: "order = (case indexes of None \<Rightarrow> sorted_list_of_set (\<Union> (set ` set (map fst ?rs)))
      | Some is \<Rightarrow> filter (\<lambda>i. i \<in> \<Union> (set ` set (map fst ?rs))) is)"
  proof -
    have "dict_has i packs \<longleftrightarrow> i \<in> \<Union> (set ` set (map fst ?rs))" for i unfolding dict_has_iff keys ..
    then show ?thesis unfolding pk(2) final_order_def keys by presburger
  qed
  have col: "length xs = length order \<and> (\<forall>k < length order. fetched_value ?rs c (order ! k) (xs ! k))" if cx: "(c, xs) \<in> set cols" for c xs
  proof -
    have "map_res (\<lambda>g. dict_index c (the (dict_get packs g))) order = Ok xs"
      using map_res_all [OF pk(3) [unfolded assemble_distinct [OF assms(2)]]] cx pk(2) by auto
    moreover from this have l: "length xs = length order" by (rule map_res_length)
    moreover have "fetched_value ?rs c (order ! k) (xs ! k)" if k: "k < length order" for k
    proof -
      have "dict_index c (the (dict_get packs (order ! k))) = Ok (xs ! k)" by (rule map_res_nth [OF calculation(1) k])
      then have "dict_get (the (dict_get packs (order ! k))) c = Some (xs ! k)" by (simp add: dict_index_Ok)
      moreover have "order ! k \<in> set (dict_keys packs)"
        using nth_mem [OF k] order keys by (auto split: option.splits)
      then obtain p where "dict_get packs (order ! k) = Some p" by (metis dict_has_def dict_has_iff option.exhaust)
      ultimately show ?thesis using frm by (simp add: packs_from_def)
    qed
    ultimately show ?thesis by blast
  qed
  have kc: "dict_keys cols = columns"
  proof (rule nth_equalityI)
    show "length (dict_keys cols) = length columns" using map_res_length [OF pk(3) [unfolded assemble_distinct [OF assms(2)]]] by simp
    fix i assume "i < length (dict_keys cols)"
    then show "dict_keys cols ! i = columns ! i"
      using map_res_nth [OF pk(3) [unfolded assemble_distinct [OF assms(2)]], of i] map_res_length [OF pk(3) [unfolded assemble_distinct [OF assms(2)]]]
      by auto (metis fst_conv)
  qed
  have colb: "\<forall>(c, xs) \<in> set cols. length xs = length order \<and> (\<forall>k < length order. fetched_value ?rs c (order ! k) (xs ! k))"
    using col by blast
  show ?thesis unfolding Let_def by (intro exI conjI, rule al, rule kc, rule colb, rule order)
qed

section \<open>One put, end to end\<close>

text \<open>A runtime whose pickles are a mark and a byte, and a queue of two shards with two prompts of two samples.\<close>

definition demo_rt :: "nat runtime" where
  "demo_rt = \<lparr>rt_np = demo_names, rt_cast = demo_cast, rt_conv = demo_cast, rt_uninit = (\<lambda>n. replicate n []),
     rt_dumps = (\<lambda>x. case x of Ob n \<Rightarrow> [128, word_of_nat n] | _ \<Rightarrow> [0]),
     rt_loads = (\<lambda>b. if length b = 2 then Ok (Ob (unat (b ! 1))) else Err (RuntimeError ''unpickling'')),
     rt_str = (\<lambda>x. case x of Ob n \<Rightarrow> dec_string n | _ \<Rightarrow> []), rt_uuids = (\<lambda>x. Err (TypeError ''not iterable'')),
     rt_itemsize = (\<lambda>d. Ok 1)\<rparr>"

definition demo_queue :: manager where
  "demo_queue = snd (client_add_topic ''experience'' 2 2 [''prompt_uuid'', ''response''] [''actor'']
     \<lparr>tq_topics = [], tq_shards = [shard_init 0, shard_init 1], tq_endpoints = [''tcp://a'', ''tcp://b''],
      tq_timings = initial_timings\<rparr>)"

definition demo_rows :: "nat data" where
  "demo_rows = [(''prompt_uuid'', List_col [Ob 7, Ob 8, Ob 7, Ob 8]), (''response'', List_col [Ob 10, Ob 20, Ob 11, Ob 21])]"

definition put_and_notify ::
  "'o runtime \<Rightarrow> 'o data \<Rightarrow> int list option \<Rightarrow> manager \<Rightarrow> int list result \<times> manager" where
  "put_and_notify rt data indexes m = (case put_experience rt 1024 data indexes None None None None False m of
     (r, notes, m') \<Rightarrow> (r, foldl (\<lambda>m n. deliver_notice DEFAULT_TOPIC n m) m' notes))"

definition demo_columns :: "string list" where "demo_columns = [''prompt_uuid'', ''response'']"

definition read_all :: "manager \<Rightarrow> ((string, nat item list) dict \<times> int list) option result \<times> manager" where
  "read_all m = get_experience demo_rt id 5 ''actor'' demo_columns None (Some [0, 1, 2, 3]) False None None None None m"

text \<open>Rows of interleaved prompts are stored under the wrong indexes: two prompts whose samples alternate,
  put by uuid on two shards, are accepted, but what is read back is the third row (\<open>11\<close>, of prompt \<open>7\<close>) as a
  sample of prompt \<open>8\<close>, the second row (\<open>20\<close>, of prompt \<open>8\<close>) under both prompts, and the last row nowhere.\<close>

theorem put_misplaces_rows:
  "fst (put_and_notify demo_rt demo_rows None demo_queue) = Ok [0, 2, 1, 3] \<and>
   fst (read_all (snd (put_and_notify demo_rt demo_rows None demo_queue))) =
     Ok (Some ([(''prompt_uuid'', [Ob 7, Ob 7, Ob 8, Ob 8]), (''response'', [Ob 10, Ob 20, Ob 20, Ob 11])], [0, 1, 2, 3]))"
  by (rule conjI) code_simp+

section \<open>Witnesses\<close>

theorem get_experience_aligned_witness:
  "\<exists>cols order m'. read_all (snd (put_and_notify demo_rt demo_rows None demo_queue)) = (Ok (Some (cols, order)), m') \<and>
    dict_keys cols = demo_columns \<and> (\<forall>(c, xs) \<in> set cols. length xs = length order)"
proof -
  let ?m = "snd (put_and_notify demo_rt demo_rows None demo_queue)"
  have "\<exists>cols order. fst (read_all ?m) = Ok (Some (cols, order))"
    by (intro exI [of _ "[(''prompt_uuid'', [Ob 7, Ob 7, Ob 8, Ob 8]), (''response'', [Ob 10, Ob 20, Ob 20, Ob 11])]"]
        exI [of _ "[0, 1, 2, 3]"]) code_simp
  then obtain cols order where "fst (read_all ?m) = Ok (Some (cols, order))" by blast
  then have g: "read_all ?m = (Ok (Some (cols, order)), snd (read_all ?m))" by (simp add: prod_eq_iff)
  have "distinct demo_columns" by (simp add: demo_columns_def)
  note al = get_experience_aligned [OF g [unfolded read_all_def] this, unfolded Let_def]
  have "dict_keys cols = demo_columns" using al by blast
  moreover have "\<forall>(c, xs) \<in> set cols. length xs = length order" using al by (elim exE conjE) fast
  ultimately show ?thesis using g by blast
qed

definition demo_items :: "(nat \<times> int) list" where "demo_items = [(0, 0), (2, 1)]"

definition demo_response :: "nat data" where "demo_response = [(''response'', List_col [Ob 10, Ob 20, Ob 11, Ob 21])]"

definition demo_message :: "put_header \<times> byte list list" where
  "demo_message = (\<lparr>ph_topic = Some ''experience'', ph_indexes = [0, 1], ph_order = [''response''],
     ph_columns = [(''response'', \<lparr>ci_ref_multiplier = 1, ci_lengths = [2, 2], ci_dtype = ''pickle'', ci_encoding = ''pickle'',
       ci_shapes = None\<rparr>)]\<rparr>, [[128, 10, 128, 20]])"

definition empty_shard :: shard where
  "empty_shard = \<lparr>sh_id = 0, sh_tables = [(''experience'', \<lparr>et_n_samples = 2, et_columns = demo_columns, et_indices = [],
     et_col_metas = [], et_col_shapes = [], et_owned_groups = {}, et_heap = []\<rparr>)], sh_running = True\<rparr>"

definition filled_shard :: shard where
  "filled_shard = snd (snd (handle_put (rt_itemsize demo_rt) (fst demo_message) (snd demo_message) empty_shard))"

lemma demo_segment: "segment_message demo_rt None 1 ''experience'' demo_response demo_items = Ok (fst demo_message, snd demo_message)"
  by code_simp

lemma demo_accepted: "handle_put (rt_itemsize demo_rt) (fst demo_message) (snd demo_message) empty_shard =
    (Ok (), [([0, 1], [''response''])], filled_shard)"
proof -
  have "fst (handle_put (rt_itemsize demo_rt) (fst demo_message) (snd demo_message) empty_shard) = Ok ()" by code_simp
  moreover have "fst (snd (handle_put (rt_itemsize demo_rt) (fst demo_message) (snd demo_message) empty_shard)) = [([0, 1], [''response''])]"
    by code_simp
  ultimately show ?thesis by (simp add: filled_shard_def prod_eq_iff)
qed

lemma empty_shard_ok: "shard_ok (rt_itemsize demo_rt) empty_shard"
  by (auto simp: shard_ok_def empty_shard_def demo_columns_def table_init_def intro!: table_reach.init [of 2 demo_columns] split: if_splits)

lemma demo_sizes: "\<forall>d k. rt_itemsize demo_rt d = Ok k \<longrightarrow> 0 < k"
  by (simp add: demo_rt_def)


lemma filled_shard_ok: "shard_ok (rt_itemsize demo_rt) filled_shard"
proof (rule shard_ok_put [OF empty_shard_ok _ demo_accepted])
  show "put_ok (rt_itemsize demo_rt) empty_shard (fst demo_message)"
    by (auto simp: put_ok_def demo_message_def header_ok_def demo_rt_def)
qed

theorem fetch_returns_objects_witness:
  "fetch_one_shard demo_rt ''experience'' [''response''] (demo_queue\<lparr>tq_shards := [filled_shard]\<rparr>) (''tcp://a'', [1, 0]) =
     Some ([1, 0], [(''response'', [Ob 20, Ob 10])])"
proof -
  have p: "position ''tcp://a'' (tq_endpoints (demo_queue\<lparr>tq_shards := [filled_shard]\<rparr>)) = Some 0" by code_simp
  have f: "map_option (\<lambda>t. (dict_get (et_col_metas t) ''response'', dict_get (et_indices t) ''response'' \<noteq> None,
      stored t ''response'' 0, stored t ''response'' 1)) (dict_get (sh_tables filled_shard) ''experience'') =
      Some (Some (1, ''pickle'', ''pickle''), True, Some [128, 10], Some [128, 20])" by code_simp
  then obtain t where t: "dict_get (sh_tables filled_shard) ''experience'' = Some t" by auto
  have s: "dict_get (sh_tables (tq_shards (demo_queue\<lparr>tq_shards := [filled_shard]\<rparr>) ! 0)) ''experience'' = Some t"
    using t by simp
  have r: "table_reach (rt_itemsize demo_rt) t" using filled_shard_ok t by (simp add: shard_ok_def)
  from fetch_returns_objects [OF p s r, of "[''response'']" "[1, 0]" demo_rt "\<lambda>c g. if g = 0 then Ob 10 else Ob 20"]
  show ?thesis using f t by (simp add: demo_rt_def)
qed

end
