(* ===== verification/HeapQ.thy ===== *)
theory HeapQ
  imports Prelude "HOL-Library.Multiset"
begin

text \<open>
  Python's \<open>heapq\<close> on lists, as the balancing code uses it: \<open>heappush\<close>, \<open>heappop\<close> and \<open>heapify\<close> with
  the sift loops of the standard library, so that also the order of the array is the real one. What
  a client relies on is the locale \<open>min_queue\<close>.
\<close>

section \<open>The interface\<close>

locale min_queue =
  fixes valid :: "'a::linorder list \<Rightarrow> bool"
    and push :: "'a \<Rightarrow> 'a list \<Rightarrow> 'a list"
    and pop :: "'a list \<Rightarrow> ('a \<times> 'a list) option"
  assumes push_valid: "valid h \<Longrightarrow> valid (push x h)"
    and push_mset: "mset (push x h) = add_mset x (mset h)"
    and pop_None: "pop h = None \<longleftrightarrow> h = []"
    and pop_valid: "valid h \<Longrightarrow> pop h = Some (x, h') \<Longrightarrow> valid h'"
    and pop_mset: "pop h = Some (x, h') \<Longrightarrow> mset h = add_mset x (mset h')"
    and pop_least: "valid h \<Longrightarrow> pop h = Some (x, h') \<Longrightarrow> y \<in> set h \<Longrightarrow> x \<le> y"
begin

lemma push_set: "set (push x h) = insert x (set h)"
  by (metis push_mset set_mset_add_mset_insert set_mset_mset)

lemma pop_set: "pop h = Some (x, h') \<Longrightarrow> set h = insert x (set h')"
  by (metis pop_mset set_mset_add_mset_insert set_mset_mset)

text \<open>Greedy balancing: putting weight on the least element keeps the weights within \<open>w\<close> of each other.\<close>

lemma greedy_spread:
  assumes mono: "\<And>x y. x \<le> y \<Longrightarrow> weight x \<le> (weight y :: int)"
    and h: "valid h" "\<forall>x \<in> set h. \<forall>y \<in> set h. weight x \<le> weight y + w"
    and p: "pop h = Some (x, h')" and n: "weight x' = weight x + d" "0 \<le> d" "d \<le> w"
  shows "\<forall>y \<in> set (push x' h'). \<forall>z \<in> set (push x' h'). weight y \<le> weight z + w"
proof -
  have s: "set h = insert x (set h')" by (rule pop_set [OF p])
  have least: "weight x \<le> weight y" if "y \<in> set h'" for y using mono [OF pop_least [OF h(1) p]] that s by simp
  have "weight y \<le> weight x + w" if "y \<in> set h'" for y using h(2) that s by simp
  then show ?thesis using least h(2) s n unfolding push_set by fastforce
qed

end

section \<open>Sift loops\<close>

definition swap_at :: "nat \<Rightarrow> nat \<Rightarrow> 'a list \<Rightarrow> 'a list" where
  "swap_at i j h = h[i := h ! j, j := h ! i]"

definition par :: "nat \<Rightarrow> nat" where
  "par i = (i - 1) div 2"

lemma par_less: "0 < i \<Longrightarrow> par i < i"
  by (simp add: par_def)

lemma par_child: "0 < i \<Longrightarrow> par i = p \<longleftrightarrow> i = 2 * p + 1 \<or> i = 2 * p + 2"
  by (auto simp: par_def)

lemma par_0 [simp]: "par 0 = 0"
  by (simp add: par_def)

lemma par_bound: "i < n \<Longrightarrow> par i < n"
  by (simp add: par_def)

lemma par_not: "0 < i \<Longrightarrow> par i \<noteq> i"
  using par_less [of i] by simp

text \<open>\<open>_siftdown\<close>: the item at \<open>pos\<close> moves towards the root \<open>start\<close> while it is less than its parent.\<close>

function sift_down :: "nat \<Rightarrow> nat \<Rightarrow> 'a::linorder list \<Rightarrow> 'a list" where
  "sift_down start pos h =
     (if start < pos \<and> h ! pos < h ! (par pos)
      then sift_down start (par pos) (swap_at pos (par pos) h) else h)"
  by pat_completeness auto
termination
  by (relation "measure (\<lambda>(start, pos, h). pos)") (auto simp: par_less)

declare sift_down.simps [simp del]

text \<open>The first loop of \<open>_siftup\<close>: the smaller child moves up until the item is at a leaf.\<close>

definition smaller_child :: "nat \<Rightarrow> 'a::linorder list \<Rightarrow> nat" where
  "smaller_child pos h =
     (if 2 * pos + 2 < length h \<and> \<not> h ! (2 * pos + 1) < h ! (2 * pos + 2) then 2 * pos + 2 else 2 * pos + 1)"

function to_leaf :: "nat \<Rightarrow> 'a::linorder list \<Rightarrow> nat \<times> 'a list" where
  "to_leaf pos h =
     (if 2 * pos + 1 < length h
      then to_leaf (smaller_child pos h) (swap_at pos (smaller_child pos h) h) else (pos, h))"
  by pat_completeness auto
termination
  by (relation "measure (\<lambda>(pos, h). length h - pos)") (auto simp: smaller_child_def swap_at_def)

declare to_leaf.simps [simp del]

definition sift_up :: "nat \<Rightarrow> 'a::linorder list \<Rightarrow> 'a list" where
  "sift_up pos h = (case to_leaf pos h of (leaf, h') \<Rightarrow> sift_down pos leaf h')"

definition heappush :: "'a::linorder \<Rightarrow> 'a list \<Rightarrow> 'a list" where
  "heappush x h = sift_down 0 (length h) (h @ [x])"

definition heappop :: "'a::linorder list \<Rightarrow> ('a \<times> 'a list) option" where
  "heappop h = (if h = [] then None
     else if length h = 1 then Some (last h, [])
     else Some (h ! 0, sift_up 0 ((butlast h)[0 := last h])))"

definition heapify :: "'a::linorder list \<Rightarrow> 'a list" where
  "heapify h = foldl (\<lambda>h i. sift_up i h) h (List.rev [0..<length h div 2])"

section \<open>Contents\<close>

lemma swap_mset: "i < length h \<Longrightarrow> j < length h \<Longrightarrow> mset (swap_at i j h) = mset h"
  by (simp add: swap_at_def mset_swap)

lemma swap_length [simp]: "length (swap_at i j h) = length h"
  by (simp add: swap_at_def)

lemma swap_nth: "i < length h \<Longrightarrow> j < length h \<Longrightarrow>
    swap_at i j h ! k = (if k = i then h ! j else if k = j then h ! i else h ! k)"
  by (cases "i = j") (auto simp: swap_at_def nth_list_update)

lemma smaller_child_less: "2 * pos + 1 < length h \<Longrightarrow> pos < smaller_child pos h \<and> smaller_child pos h < length h"
  by (auto simp: smaller_child_def)

lemma sift_down_mset: "pos < length h \<Longrightarrow> mset (sift_down start pos h) = mset h"
proof (induction start pos h rule: sift_down.induct)
  case (1 start pos h)
  have "par pos < length h" using "1.prems" par_less [of pos] by (cases "pos = 0") auto
  then show ?case using 1 by (subst sift_down.simps) (simp add: swap_mset)
qed

lemma to_leaf_mset: "pos < length h \<Longrightarrow> mset (snd (to_leaf pos h)) = mset h \<and> fst (to_leaf pos h) < length h"
proof (induction pos h rule: to_leaf.induct)
  case (1 pos h)
  show ?case
  proof (cases "2 * pos + 1 < length h")
    case True
    then show ?thesis using "1.IH" [OF True] smaller_child_less [OF True] "1.prems"
      by (subst (1 2) to_leaf.simps) (simp add: swap_mset)
  qed (use "1.prems" in \<open>subst (1 2) to_leaf.simps, simp\<close>)
qed

lemma sift_up_mset: "pos < length h \<Longrightarrow> mset (sift_up pos h) = mset h"
proof -
  assume "pos < length h"
  obtain l h' where t: "to_leaf pos h = (l, h')" by fastforce
  then have "mset h' = mset h" "l < length h" using to_leaf_mset [OF \<open>pos < length h\<close>] by simp_all
  moreover from this have "length h' = length h" by (metis mset_eq_length)
  ultimately show ?thesis using sift_down_mset [of l h' pos] by (simp add: sift_up_def t)
qed

section \<open>Order\<close>

text \<open>The heap order below \<open>s\<close>; the order except at one place; and being in the subtree of \<open>s\<close>.\<close>

definition heap_from :: "nat \<Rightarrow> 'a::linorder list \<Rightarrow> bool" where
  "heap_from s h \<longleftrightarrow> (\<forall>i. 0 < i \<and> i < length h \<and> s \<le> par i \<longrightarrow> h ! (par i) \<le> h ! i)"

definition heap_but :: "nat \<Rightarrow> nat \<Rightarrow> 'a::linorder list \<Rightarrow> bool" where
  "heap_but s p h \<longleftrightarrow>
     (\<forall>i. 0 < i \<and> i < length h \<and> s \<le> par i \<and> i \<noteq> p \<and> par i \<noteq> p \<longrightarrow> h ! (par i) \<le> h ! i) \<and>
     (\<forall>i. 0 < i \<and> i < length h \<and> par i = p \<and> s < p \<longrightarrow> h ! (par p) \<le> h ! i)"

function below :: "nat \<Rightarrow> nat \<Rightarrow> bool" where
  "below s p = (if p \<le> s then p = s else below s (par p))"
  by pat_completeness auto
termination
  by (relation "measure snd") (auto simp: par_less)

declare below.simps [simp del]

lemma below_ge: "below s p \<Longrightarrow> s \<le> p"
  by (subst (asm) below.simps) (simp split: if_splits)

lemma below_up: "below s p \<Longrightarrow> s < p \<Longrightarrow> below s (par p)"
  by (subst (asm) below.simps) simp

lemma below_child: "below s p \<Longrightarrow> p < i \<Longrightarrow> par i = p \<Longrightarrow> below s i"
  using below_ge [of s p] by (subst below.simps) simp

text \<open>Moving up repairs a heap whose only fault is between one place and its parent.\<close>

lemma sift_down_heap:
  assumes "heap_but s p h" "below s p" "p < length h"
    and "\<forall>i. 0 < i \<and> i < length h \<and> par i = p \<longrightarrow> h ! p \<le> h ! i"
  shows "heap_from s (sift_down s p h)"
  using assms
proof (induction s p h rule: sift_down.induct)
  case (1 s p h)
  let ?q = "par p"
  show ?case
  proof (cases "s < p \<and> h ! p < h ! ?q")
    case True
    let ?h = "swap_at p ?q h"
    have q: "?q < p" "?q < length h" using True "1.prems"(3) par_less [of p] by (simp, linarith)
    have n: "?h ! k = (if k = p then h ! ?q else if k = ?q then h ! p else h ! k)" for k
      using swap_nth [OF "1.prems"(3) q(2)] .
    have sq: "s \<le> ?q" using below_ge [OF below_up [OF "1.prems"(2)]] True by simp
    have edge: "h ! (par i) \<le> h ! i"
      if "0 < i" "i < length h" "s \<le> par i" "i \<noteq> p" "par i \<noteq> p" for i
      using "1.prems"(1) that unfolding heap_but_def by blast
    have grand: "h ! ?q \<le> h ! i" if "0 < i" "i < length h" "par i = p" for i
      using "1.prems"(1) that True unfolding heap_but_def by blast
    have "heap_but s ?q ?h"
      unfolding heap_but_def
    proof (intro conjI allI impI)
      fix i assume i: "0 < i \<and> i < length ?h \<and> s \<le> par i \<and> i \<noteq> ?q \<and> par i \<noteq> ?q"
      then have "i \<noteq> p" by auto
      then show "?h ! (par i) \<le> ?h ! i" using i edge [of i] grand [of i] by (auto simp: n)
    next
      fix i assume i: "0 < i \<and> i < length ?h \<and> par i = ?q \<and> s < ?q"
      have "s \<le> par ?q" using below_ge [OF below_up [OF below_up [OF "1.prems"(2)]]] True i by simp
      have q2: "par ?q < ?q" using par_less [of ?q] i by linarith
      then have up: "h ! (par ?q) \<le> h ! ?q" using edge [of ?q] q i \<open>s \<le> par ?q\<close> by simp
      have "par ?q \<noteq> ?q" "par ?q \<noteq> p" using q q2 by linarith+
      moreover have "h ! ?q \<le> h ! i" if "i \<noteq> p" using edge [of i] i sq that q by simp
      moreover have "i \<noteq> ?q" using i par_not [of i] by metis
      ultimately show "?h ! (par ?q) \<le> ?h ! i" using up by (auto simp: n)
    qed
    moreover have "\<forall>i. 0 < i \<and> i < length ?h \<and> par i = ?q \<longrightarrow> ?h ! ?q \<le> ?h ! i"
    proof (intro allI impI)
      fix i assume i: "0 < i \<and> i < length ?h \<and> par i = ?q"
      then have "i \<noteq> ?q" using par_not [of i] by metis
      moreover have "h ! ?q \<le> h ! i" if "i \<noteq> p" using edge [of i] i sq that q by simp
      ultimately show "?h ! ?q \<le> ?h ! i" using True q by (auto simp: n)
    qed
    ultimately have "heap_from s (sift_down s ?q ?h)"
      using "1.IH" [OF True] below_up [OF "1.prems"(2)] True q by simp
    then show ?thesis using True by (subst sift_down.simps) simp
  next
    case False
    have "heap_from s h"
      unfolding heap_from_def
    proof (intro allI impI)
      fix i assume i: "0 < i \<and> i < length h \<and> s \<le> par i"
      consider "i = p" | "par i = p" | "i \<noteq> p" "par i \<noteq> p" by blast
      then show "h ! (par i) \<le> h ! i"
      proof cases
        case 1
        then have "s < p" using i par_less [of i] by linarith
        then show ?thesis using False 1 by simp
      next
        case 2 then show ?thesis using "1.prems"(4) i by blast
      next
        case 3 then show ?thesis using "1.prems"(1) i unfolding heap_but_def by blast
      qed
    qed
    then show ?thesis using False by (simp only: sift_down.simps [of s p h] if_False)
  qed
qed

text \<open>Moving down to a leaf keeps the order except at the item.\<close>

lemma to_leaf_heap:
  assumes "heap_but s p h" "below s p" "p < length h" "to_leaf p h = (l, h')"
  shows "heap_but s l h' \<and> below s l \<and> l < length h' \<and> \<not> 2 * l + 1 < length h'"
  using assms
proof (induction p h rule: to_leaf.induct)
  case (1 p h)
  show ?case
  proof (cases "2 * p + 1 < length h")
    case True
    let ?c = "smaller_child p h" let ?h = "swap_at p ?c h"
    have c: "p < ?c" "?c < length h" using smaller_child_less [OF True] by simp_all
    have par: "par ?c = p" using c by (subst par_child) (auto simp: smaller_child_def)
    have n: "?h ! k = (if k = p then h ! ?c else if k = ?c then h ! p else h ! k)" for k
      using swap_nth [OF "1.prems"(3) c(2)] .
    have edge: "h ! (par i) \<le> h ! i"
      if "0 < i" "i < length h" "s \<le> par i" "i \<noteq> p" "par i \<noteq> p" for i
      using "1.prems"(1) that unfolding heap_but_def by blast
    have least: "h ! ?c \<le> h ! i" if "0 < i" "i < length h" "par i = p" for i
      using that unfolding par_child [OF that(1)] by (auto simp: smaller_child_def)
    have "heap_but s ?c ?h"
      unfolding heap_but_def
    proof (intro conjI allI impI)
      fix i assume i: "0 < i \<and> i < length ?h \<and> s \<le> par i \<and> i \<noteq> ?c \<and> par i \<noteq> ?c"
      show "?h ! (par i) \<le> ?h ! i"
      proof (cases "i = p")
        case True
        then have "s < p" using i par_less [of i] by linarith
        then have "h ! (par p) \<le> h ! ?c" using "1.prems"(1) c par unfolding heap_but_def by auto
        moreover have "par p \<noteq> p" using i True par_not by metis
        ultimately show ?thesis using True i by (auto simp: n)
      next
        case False
        then show ?thesis using i edge [of i] least [of i] by (auto simp: n)
      qed
    next
      fix i assume i: "0 < i \<and> i < length ?h \<and> par i = ?c \<and> s < ?c"
      have "?c < i" using par_less [of i] i by linarith
      then have "i \<noteq> p" "i \<noteq> ?c" using c by linarith+
      moreover have "h ! ?c \<le> h ! i" using edge [of i] i c \<open>i \<noteq> p\<close> by simp
      ultimately show "?h ! (par ?c) \<le> ?h ! i" unfolding par by (simp add: n)
    qed
    moreover have "to_leaf ?c ?h = (l, h')" using "1.prems"(4) True by (subst (asm) to_leaf.simps) simp
    ultimately show ?thesis using "1.IH" [OF True] below_child [OF "1.prems"(2) c(1) par] c(2) by simp
  next
    case False
    then have "l = p" "h' = h" using "1.prems"(4) by (subst (asm) to_leaf.simps, simp)+
    then show ?thesis using "1.prems" False by simp
  qed
qed

lemma sift_up_heap:
  assumes "heap_from (Suc s) h" "s < length h"
  shows "heap_from s (sift_up s h)"
proof -
  obtain l h' where t: "to_leaf s h = (l, h')" by fastforce
  have "below s s" by (subst below.simps) simp
  moreover have "heap_but s s h" using assms(1) unfolding heap_but_def heap_from_def by (metis le_antisym nat_less_le not_less_eq_eq)
  ultimately have l: "heap_but s l h' \<and> below s l \<and> l < length h' \<and> \<not> 2 * l + 1 < length h'"
    using to_leaf_heap [OF _ _ assms(2) t] by blast
  have "\<forall>i. 0 < i \<and> i < length h' \<and> par i = l \<longrightarrow> h' ! l \<le> h' ! i"
    using l par_child by (metis add_lessD1 add_2_eq_Suc' Suc_eq_plus1 Suc_lessD)
  from sift_down_heap [OF _ _ _ this] l show ?thesis by (simp add: sift_up_def t)
qed

lemma heapify_heap: "heap_from 0 (heapify h) \<and> mset (heapify h) = mset h"
proof -
  have "heap_from (length h div 2 - k) (foldl (\<lambda>h i. sift_up i h) h (take k (List.rev [0..<length h div 2]))) \<and>
      mset (foldl (\<lambda>h i. sift_up i h) h (take k (List.rev [0..<length h div 2]))) = mset h" if "k \<le> length h div 2" for k
    using that
  proof (induction k)
    case 0
    have "False" if "0 < i" "i < length h" "length h div 2 \<le> par i" for i using that by (auto simp: par_def)
    then show ?case by (auto simp: heap_from_def)
  next
    case (Suc k)
    let ?r = "List.rev [0..<length h div 2]" let ?h = "foldl (\<lambda>h i. sift_up i h) h (take k ?r)"
    have k: "k < length ?r" using Suc.prems by simp
    have e: "?r ! k = length h div 2 - Suc k" using k by (simp add: rev_nth)
    have IH: "heap_from (length h div 2 - k) ?h" "mset ?h = mset h" using Suc by simp_all
    have len: "length ?h = length h" using IH(2) by (metis mset_eq_length)
    have s: "Suc (length h div 2 - Suc k) = length h div 2 - k" using Suc.prems by simp
    have b: "length h div 2 - Suc k < length ?h" using len Suc.prems by simp
    have "foldl (\<lambda>h i. sift_up i h) h (take (Suc k) ?r) = sift_up (length h div 2 - Suc k) ?h"
      using e by (simp add: take_Suc_conv_app_nth [OF k])
    then show ?case using sift_up_heap [of "length h div 2 - Suc k" ?h] sift_up_mset [OF b] IH b s by simp
  qed
  from this [of "length h div 2"] show ?thesis by (simp add: heapify_def)
qed

section \<open>The queue\<close>

lemma heap_root: "heap_from 0 h \<Longrightarrow> i < length h \<Longrightarrow> h ! 0 \<le> h ! i"
proof (induction i rule: less_induct)
  case (less i)
  show ?case
  proof (cases "i = 0")
    case False
    then have "par i < i" by (simp add: par_less)
    then have "h ! 0 \<le> h ! (par i)" using less by simp
    also have "\<dots> \<le> h ! i" using less.prems False by (simp add: heap_from_def)
    finally show ?thesis .
  qed simp
qed

lemma heappush_heap: "heap_from 0 h \<Longrightarrow> heap_from 0 (heappush x h)"
proof -
  assume h: "heap_from 0 h"
  have "below 0 p" for p by (induction "0 :: nat" p rule: below.induct) (subst below.simps, simp)
  moreover have "heap_but 0 (length h) (h @ [x])"
    unfolding heap_but_def
  proof (intro conjI allI impI)
    fix i assume i: "0 < i \<and> i < length (h @ [x]) \<and> 0 \<le> par i \<and> i \<noteq> length h \<and> par i \<noteq> length h"
    then have "i < length h" by simp
    then show "(h @ [x]) ! (par i) \<le> (h @ [x]) ! i"
      using h i par_bound [of i "length h"] by (simp add: nth_append heap_from_def)
  next
    fix i assume "0 < i \<and> i < length (h @ [x]) \<and> par i = length h \<and> 0 < length h"
    then show "(h @ [x]) ! (par (length h)) \<le> (h @ [x]) ! i" using par_less [of i] by simp
  qed
  moreover have "\<forall>i. 0 < i \<and> i < length (h @ [x]) \<and> par i = length h \<longrightarrow> (h @ [x]) ! length h \<le> (h @ [x]) ! i"
    using par_less by (metis length_append_singleton less_antisym order_less_asym)
  ultimately show ?thesis unfolding heappush_def by (intro sift_down_heap) simp_all
qed

lemma heappop_Some: "heappop h = Some (x, h') \<Longrightarrow> heap_from 0 h \<Longrightarrow> heap_from 0 h'"
proof -
  assume p: "heappop h = Some (x, h')" and h: "heap_from 0 h"
  show ?thesis
  proof (cases "length h = 1")
    case False
    let ?t = "(butlast h)[0 := last h]"
    have "2 \<le> length h" using p False by (cases h) (auto simp: heappop_def Suc_le_eq split: if_splits)
    then have "0 < length ?t" "heap_from (Suc 0) ?t"
      using h by (auto simp: heap_from_def nth_butlast nth_list_update par_bound)
    then show ?thesis using sift_up_heap [of 0 ?t] p False by (auto simp: heappop_def split: if_splits)
  qed (use p in \<open>auto simp: heappop_def heap_from_def split: if_splits\<close>)
qed

lemma heappop_mset: "heappop h = Some (x, h') \<Longrightarrow> mset h = add_mset x (mset h')"
proof -
  assume p: "heappop h = Some (x, h')"
  show ?thesis
  proof (cases "length h = 1")
    case True
    then obtain y where "h = [y]" by (cases h) auto
    then show ?thesis using p by (simp add: heappop_def)
  next
    case False
    then obtain y z zs where h: "h = y # zs @ [z]" using p
      by (cases h; cases "tl h" rule: rev_cases) (auto simp: heappop_def split: if_splits)
    then have "h' = sift_up 0 (z # zs)" "x = y" using p by (auto simp: heappop_def split: if_splits)
    then show ?thesis using h sift_up_mset [of 0 "z # zs"] by simp
  qed
qed

interpretation heapq: min_queue "heap_from 0" heappush heappop
proof
  show "heap_from 0 h \<Longrightarrow> heap_from 0 (heappush x h)" for h :: "'a::linorder list" and x by (rule heappush_heap)
  show "mset (heappush x h) = add_mset x (mset h)" for h :: "'a::linorder list" and x
    unfolding heappush_def by (simp add: sift_down_mset)
  show "(heappop h = None) = (h = [])" for h :: "'a::linorder list" by (simp add: heappop_def)
  show "heap_from 0 h \<Longrightarrow> heappop h = Some (x, h') \<Longrightarrow> heap_from 0 h'" for h h' :: "'a::linorder list" and x
    by (rule heappop_Some)
  show "heappop h = Some (x, h') \<Longrightarrow> mset h = add_mset x (mset h')" for h h' :: "'a::linorder list" and x by (rule heappop_mset)
  show "heap_from 0 h \<Longrightarrow> heappop h = Some (x, h') \<Longrightarrow> y \<in> set h \<Longrightarrow> x \<le> y" for h h' :: "'a::linorder list" and x y
    using heap_root [of h] by (cases "length h = 1") (auto simp: heappop_def in_set_conv_nth last_conv_nth split: if_splits)
qed

end
