(* ===== verification/SeqBalance.thy ===== *)
theory SeqBalance
  imports HeapQ "HOL-Library.Product_Lexorder"
begin

text \<open>
  Balancing sequences over ranks and micro batches (\<open>seqlen_balancing.py\<close>): greedy partitioning with a
  heap of groups, with groups of equal size or of bounded weight, and the split of a batch into micro
  batches. A group \<open>[sum, count, number, items]\<close> is a tuple, compared lexicographically like the Python list.
\<close>

section \<open>Partitioning\<close>

type_synonym group = "int \<times> nat \<times> nat \<times> nat list"
type_synonym item = "int \<times> nat"

abbreviation items_of :: "group \<Rightarrow> nat list" where "items_of g \<equiv> snd (snd (snd g))"

definition sorted_seqlen :: "int list \<Rightarrow> item list" where
  "sorted_seqlen xs = rev (sort (zip xs [0..<length xs]))"

definition initial_groups :: "int \<Rightarrow> group list" where
  "initial_groups k = heapify (map (\<lambda>i. (0, 0, i, [])) [0..<nat k])"

definition pop_error :: py_error where
  "pop_error = IndexError ''index out of range''"

fun fill_groups :: "bool \<Rightarrow> int \<Rightarrow> item list \<Rightarrow> group list \<Rightarrow> nat list list \<Rightarrow> nat list list result" where
  "fill_groups eq part [] groups parts = Ok (parts @ map items_of groups)"
| "fill_groups eq part ((s, i) # items) groups parts =
     (case heappop groups of None \<Rightarrow> Err pop_error
      | Some ((w, n, g, xs), rest) \<Rightarrow>
          (let group = (w + s, n + 1, g, xs @ [i]) in
           if eq \<and> \<not> int (n + 1) < part then fill_groups eq part items rest (parts @ [xs @ [i]])
           else fill_groups eq part items (heappush group rest) parts))"

definition heapq_partition :: "int list \<Rightarrow> int \<Rightarrow> bool \<Rightarrow> nat list list result" where
  "heapq_partition xs k eq =
     (if k = 0 then Err ZeroDivisionError
      else bind_res (fill_groups eq (int (length xs) div k) (sorted_seqlen xs) (initial_groups k) []) (\<lambda>ps.
        if eq \<and> (\<exists>p \<in> set ps. int (length p) * k \<noteq> int (length xs))
        then Err (ValueError ''Partition has the wrong number of items'') else Ok ps))"

text \<open>\<open>sorted_partitions[i] = sorted(partition)\<close> over the partitions, from a list of \<open>None\<close>.\<close>

fun place_sorted :: "nat \<Rightarrow> nat list list \<Rightarrow> nat list option list \<Rightarrow> nat list option list result" where
  "place_sorted i [] acc = Ok acc"
| "place_sorted i (p # ps) acc =
     (if i < length acc then place_sorted (Suc i) ps (acc[i := Some (sort p)])
      else Err (IndexError ''list assignment index out of range''))"

definition get_seqlen_balanced_partitions :: "int list \<Rightarrow> int \<Rightarrow> bool \<Rightarrow> nat list option list result" where
  "get_seqlen_balanced_partitions xs k eq =
     (if int (length xs) < k then Err (ValueError ''number of items < k_partitions'')
      else bind_res (heapq_partition xs k eq) (\<lambda>ps. place_sorted 0 ps (replicate (nat k) None)))"

fun fill_max :: "int \<Rightarrow> item list \<Rightarrow> group list \<Rightarrow> nat \<Rightarrow> nat list list \<Rightarrow> nat list list result" where
  "fill_max limit [] groups nxt parts = Ok (parts @ map items_of groups)"
| "fill_max limit ((s, i) # items) groups nxt parts =
     (case heappop groups of None \<Rightarrow> Err pop_error
      | Some ((w, n, g, xs), rest) \<Rightarrow>
          if limit < w + s
          then fill_max limit items (heappush (s, 1, nxt, [i]) rest) (nxt + 1) (parts @ [xs])
          else fill_max limit items (heappush (w + s, n + 1, g, xs @ [i]) rest) nxt parts)"

definition heapq_partition_with_max :: "int list \<Rightarrow> int \<Rightarrow> int \<Rightarrow> nat list list result" where
  "heapq_partition_with_max xs k limit =
     fill_max limit (sorted_seqlen xs) (initial_groups k) (length (initial_groups k)) []"

section \<open>Micro batches\<close>

text \<open>
  The batch is the list of its rows, \<open>ids\<close> the row's \<open>input_ids\<close>; \<open>reduce\<close> is the maximum over the ranks of
  the group, the identity when \<open>torch.distributed\<close> is not initialised. \<open>torch.cat\<close> refuses an empty list.
\<close>

definition effective_len :: "int \<Rightarrow> int list \<Rightarrow> int" where
  "effective_len pad row = int (length (filter (\<lambda>t. t \<noteq> pad) row))"

definition ceil_div :: "int \<Rightarrow> int \<Rightarrow> int result" where
  "ceil_div a b = (if b = 0 then Err ZeroDivisionError else Ok ((a + b - 1) div b))"

definition num_micro_batches :: "int list \<Rightarrow> int \<Rightarrow> int option \<Rightarrow> int result" where
  "num_micro_batches lens limit dyn =
     bind_res (ceil_div (sum_list lens) limit) (\<lambda>n.
       case dyn of None \<Rightarrow> Ok n
       | Some d \<Rightarrow> bind_res (ceil_div (int (length lens)) d) (\<lambda>m. Ok (max n m)))"

definition cat_rows :: "'r list \<Rightarrow> 'r list result" where
  "cat_rows rs = (if rs = [] then Err (RuntimeError ''torch.cat(): expected a non-empty list of Tensors'') else Ok rs)"

definition weight_of :: "int list \<Rightarrow> nat list \<Rightarrow> int" where
  "weight_of lens p = sum_list (map (\<lambda>i. lens ! i) p)"

definition check_partitions :: "int list \<Rightarrow> int \<Rightarrow> nat list list \<Rightarrow> bool" where
  "check_partitions lens limit ps \<longleftrightarrow> (\<forall>p \<in> set ps. weight_of lens p \<le> limit)"

definition rearrange_micro_batches ::
  "('r \<Rightarrow> int list) \<Rightarrow> (int \<Rightarrow> int) \<Rightarrow> 'r list \<Rightarrow> int \<Rightarrow> int \<Rightarrow> int option \<Rightarrow>
   ('r list list \<times> nat list list \<times> bool) result" where
  "rearrange_micro_batches ids reduce batch pad limit dyn =
     (let lens = map (\<lambda>r. effective_len pad (ids r)) batch in
      if lens = [] then Err (ValueError ''max() arg is an empty sequence'')
      else if limit < Max (set lens) then Err (AssertionError ''max_token_len must be greater than the sequence length'')
      else bind_res (num_micro_batches lens limit dyn) (\<lambda>n0.
        let n = reduce n0 in
        if int (length lens) < n then Err (AssertionError ''number of partitioning exceeding the len(seqlen_list)'')
        else bind_res (heapq_partition_with_max lens n limit) (\<lambda>ps.
          let warned = \<not> check_partitions lens limit ps in
          bind_res (map_res (\<lambda>p. cat_rows (map (\<lambda>i. batch ! i) p)) ps) (\<lambda>mbs.
            Ok (mbs, ps, warned)))))"

definition py_set :: "'a list \<Rightarrow> int \<Rightarrow> 'a \<Rightarrow> 'a list result" where
  "py_set xs i v =
     (let n = int (length xs); j = (if i < 0 then i + n else i)
      in if 0 \<le> j \<and> j < n then Ok (xs[nat j := v]) else Err (IndexError ''list assignment index out of range''))"

fun reverse_from :: "nat \<Rightarrow> int list \<Rightarrow> int list \<Rightarrow> int list result" where
  "reverse_from i [] acc = Ok acc"
| "reverse_from i (idx # rest) acc = bind_res (py_set acc idx (int i)) (reverse_from (Suc i) rest)"

definition get_reverse_idx :: "int list \<Rightarrow> int list result" where
  "get_reverse_idx m = reverse_from 0 m m"

section \<open>The heap of groups\<close>

lemma initial_mset: "mset (initial_groups k) = mset (map (\<lambda>i. (0, 0, i, [])) [0..<nat k])"
  unfolding initial_groups_def using heapify_heap by blast

lemma initial_heap: "heap_from 0 (initial_groups k)"
  unfolding initial_groups_def using heapify_heap by blast

lemma initial_set: "g \<in> set (initial_groups k) \<Longrightarrow> fst g = 0 \<and> fst (snd g) = 0 \<and> items_of g = []"
  using mset_eq_setD [OF initial_mset] by fastforce

lemma initial_length: "length (initial_groups k) = nat k"
  using mset_eq_length [OF initial_mset] by simp

lemma push_length: "length (heappush x h) = Suc (length h)"
  by (metis heapq.push_mset size_add_mset size_mset)

lemma pop_length: "heappop h = Some (x, h') \<Longrightarrow> length h = Suc (length h')"
  by (metis heapq.pop_mset size_add_mset size_mset)

text \<open>The items in a heap of groups, and the items of the partitions already finished.\<close>

definition held :: "group list \<Rightarrow> nat multiset" where
  "held gs = (\<Sum>g \<in># mset gs. mset (items_of g))"

lemma held_push: "held (heappush g h) = held h + mset (items_of g)"
  by (simp add: held_def heapq.push_mset)

lemma held_pop: "heappop h = Some (g, h') \<Longrightarrow> held h = held h' + mset (items_of g)"
  by (simp add: held_def heapq.pop_mset [of h g h'])

lemma held_concat: "held gs = mset (concat (map items_of gs))"
  by (induction gs) (simp_all add: held_def)

lemma initial_held: "held (initial_groups k) = {#}"
  unfolding held_def initial_mset by (simp add: image_mset.compositionality comp_def)

lemma sorted_indexes: "image_mset snd (mset (sorted_seqlen xs)) = mset_set {0..<length xs}"
proof -
  have "image_mset snd (mset (zip xs [0..<length xs])) = mset [0..<length xs]" by (metis map_snd_zip length_upt diff_zero mset_map)
  then show ?thesis unfolding sorted_seqlen_def mset_rev mset_sort by simp
qed

section \<open>The loops\<close>

text \<open>Every item lands in exactly one partition, whatever the branch.\<close>

lemma fill_groups_content:
  "fill_groups eq part items groups parts = Ok ps \<Longrightarrow>
   mset (concat ps) = mset (concat parts) + held groups + mset (map snd items) \<and>
   length ps = length parts + length groups"
proof (induction eq part items groups parts rule: fill_groups.induct)
  case (2 eq part s i items groups parts)
  obtain w n g xs rest where pop: "heappop groups = Some ((w, n, g, xs), rest)"
    using "2.prems" by (cases "heappop groups") auto
  have c: "held groups = held rest + mset xs" "length groups = Suc (length rest)"
    using held_pop [OF pop] pop_length [OF pop] by simp_all
  show ?case
  proof (cases "eq \<and> \<not> int (n + 1) < part")
    case True
    with "2.prems" pop have f: "fill_groups eq part items rest (parts @ [xs @ [i]]) = Ok ps" by simp
    show ?thesis using "2.IH"(1) [OF pop refl refl refl refl refl True] f c by simp
  next
    case False
    with "2.prems" pop have f: "fill_groups eq part items (heappush (w + s, n + 1, g, xs @ [i]) rest) parts = Ok ps"
      by auto
    show ?thesis using "2.IH"(2) [OF pop refl refl refl refl refl False] f c
      by (simp add: held_push push_length)
  qed
qed (auto simp: held_concat)

lemma fill_max_content:
  "fill_max limit items groups nxt parts = Ok ps \<Longrightarrow>
   mset (concat ps) = mset (concat parts) + held groups + mset (map snd items) \<and>
   length parts + length groups \<le> length ps"
proof (induction limit items groups nxt parts rule: fill_max.induct)
  case (2 limit s i items groups nxt parts)
  obtain w n g xs rest where pop: "heappop groups = Some ((w, n, g, xs), rest)"
    using "2.prems" by (cases "heappop groups") auto
  have c: "held groups = held rest + mset xs" "length groups = Suc (length rest)"
    using held_pop [OF pop] pop_length [OF pop] by simp_all
  show ?case
  proof (cases "limit < w + s")
    case True
    with "2.prems" pop show ?thesis using "2.IH"(1) [OF pop refl refl refl refl True] c
      by (simp add: held_push push_length)
  next
    case False
    with "2.prems" pop show ?thesis using "2.IH"(2) [OF pop refl refl refl refl False] c
      by (simp add: held_push push_length)
  qed
qed (auto simp: held_concat)

text \<open>Groups of equal size: as many places are free in the heap as the groups still lack.\<close>

definition room :: "nat \<Rightarrow> group list \<Rightarrow> nat" where
  "room q gs = (\<Sum>g \<in># mset gs. q - length (items_of g))"

lemma room_push: "room q (heappush g h) = room q h + (q - length (items_of g))"
  by (simp add: room_def heapq.push_mset)

lemma room_pop: "heappop h = Some (g, h') \<Longrightarrow> room q h = room q h' + (q - length (items_of g))"
  by (simp add: room_def heapq.pop_mset [of h g h'])

definition open_groups :: "nat \<Rightarrow> group list \<Rightarrow> bool" where
  "open_groups q gs \<longleftrightarrow> (\<forall>g \<in> set gs. fst (snd g) = length (items_of g) \<and> length (items_of g) < q)"

lemma room_0: "open_groups q gs \<Longrightarrow> room q gs = 0 \<longleftrightarrow> gs = []"
  by (cases gs) (auto simp: room_def open_groups_def)

lemma fill_equal_run:
  assumes "open_groups q groups" "\<forall>p \<in> set parts. length p = q" "room q groups \<le> length items"
  shows "if room q groups = length items
         then \<exists>ps. fill_groups True (int q) items groups parts = Ok ps \<and> (\<forall>p \<in> set ps. length p = q)
         else fill_groups True (int q) items groups parts = Err pop_error"
  using assms
proof (induction items arbitrary: groups parts)
  case Nil
  then show ?case by (simp add: room_0)
next
  case (Cons item items)
  obtain s i where item: "item = (s, i)" by fastforce
  show ?case
  proof (cases "heappop groups")
    case None
    then have "groups = []" by (simp add: heapq.pop_None)
    then show ?thesis using None item by (simp add: room_def)
  next
    case (Some a)
    obtain w n g xs rest where a: "a = ((w, n, g, xs), rest)" by (metis prod.exhaust)
    note pop = Some [unfolded a]
    have s: "set groups = insert (w, n, g, xs) (set rest)" by (rule heapq.pop_set [OF pop])
    then have n: "n = length xs" "length xs < q" and rest: "open_groups q rest"
      using Cons.prems(1) by (auto simp: open_groups_def)
    have r: "room q groups = room q rest + (q - length xs)" using room_pop [OF pop] by simp
    show ?thesis
    proof (cases "n + 1 < q")
      case True
      let ?h = "heappush (w + s, n + 1, g, xs @ [i]) rest"
      have "open_groups q ?h" using rest True n by (auto simp: open_groups_def heapq.push_set)
      moreover have "Suc (room q ?h) = room q groups" using r True n by (simp add: room_push)
      ultimately show ?thesis using Cons.IH [of ?h parts] Cons.prems pop True item by (auto split: if_splits)
    next
      case False
      then have "Suc (room q rest) = room q groups" using r n by simp
      moreover have "\<forall>p \<in> set (parts @ [xs @ [i]]). length p = q" using Cons.prems(2) False n by auto
      ultimately show ?thesis using Cons.IH [OF rest, of "parts @ [xs @ [i]]"] Cons.prems pop False item by (auto split: if_splits)
    qed
  qed
qed

text \<open>Weights: the first component of a group is the sum of its items' lengths.\<close>

definition weighted :: "int list \<Rightarrow> group list \<Rightarrow> bool" where
  "weighted lens gs \<longleftrightarrow> (\<forall>g \<in> set gs. fst g = weight_of lens (items_of g))"

definition item_ok :: "int list \<Rightarrow> int \<Rightarrow> item list \<Rightarrow> bool" where
  "item_ok lens w items \<longleftrightarrow> (\<forall>(s, i) \<in> set items. 0 \<le> s \<and> s \<le> w \<and> s = lens ! i)"

lemma weight_snoc [simp]: "weight_of lens (xs @ [i]) = weight_of lens xs + lens ! i"
  by (simp add: weight_of_def)

lemma fill_spread:
  assumes "heap_from 0 groups" "groups \<noteq> []" "weighted lens groups" "item_ok lens w items"
    and "\<forall>x \<in> set groups. \<forall>y \<in> set groups. fst x \<le> fst y + w"
  shows "\<exists>ps. fill_groups False part items groups [] = Ok ps \<and>
    (\<forall>p \<in> set ps. \<forall>p' \<in> set ps. weight_of lens p \<le> weight_of lens p' + w)"
  using assms
proof (induction items arbitrary: groups)
  case Nil
  then show ?case by (auto simp: weighted_def)
next
  case (Cons item items)
  obtain s i where item: "item = (s, i)" by fastforce
  obtain w' n g xs rest where pop: "heappop groups = Some ((w', n, g, xs), rest)"
    using Cons.prems(2) by (metis heapq.pop_None not_None_eq prod.exhaust)
  let ?g = "(w' + s, n + 1, g, xs @ [i])"
  have s: "0 \<le> s" "s \<le> w" "s = lens ! i" and rest: "item_ok lens w items"
    using Cons.prems(4) item by (auto simp: item_ok_def)
  have "set groups = insert (w', n, g, xs) (set rest)" by (rule heapq.pop_set [OF pop])
  then have "weighted lens (heappush ?g rest)"
    using Cons.prems(3) s by (auto simp: weighted_def heapq.push_set)
  moreover have "heap_from 0 (heappush ?g rest)"
    by (rule heapq.push_valid [OF heapq.pop_valid [OF Cons.prems(1) pop]])
  moreover have "\<forall>x \<in> set (heappush ?g rest). \<forall>y \<in> set (heappush ?g rest). fst x \<le> fst y + w"
    by (rule heapq.greedy_spread [OF _ Cons.prems(1,5) pop, where d = s]) (use s in auto)
  moreover have "heappush ?g rest \<noteq> []" using push_length [of ?g rest] by auto
  ultimately show ?case using Cons.IH [of "heappush ?g rest"] rest pop item by simp
qed

text \<open>Bounded weight, and no empty partition: an empty group is less than every other one.\<close>

definition empty_groups :: "group list \<Rightarrow> nat" where
  "empty_groups gs = size (filter_mset (\<lambda>g. items_of g = []) (mset gs))"

definition counted :: "group list \<Rightarrow> bool" where
  "counted gs \<longleftrightarrow> (\<forall>g \<in> set gs. fst (snd g) = length (items_of g) \<and> 0 \<le> fst g)"

lemma empty_groups_0: "empty_groups gs = 0 \<longleftrightarrow> (\<forall>g \<in> set gs. items_of g \<noteq> [])"
  by (simp add: empty_groups_def mset_filter [symmetric] filter_empty_conv del: mset_filter)

lemma fill_max_run:
  assumes "heap_from 0 groups" "groups \<noteq> []" "weighted lens groups" "counted groups" "item_ok lens limit items"
    and "\<forall>g \<in> set groups. fst g \<le> limit" "empty_groups groups \<le> length items"
    and "\<forall>p \<in> set parts. p \<noteq> [] \<and> weight_of lens p \<le> limit"
  shows "\<exists>ps. fill_max limit items groups nxt parts = Ok ps \<and> (\<forall>p \<in> set ps. p \<noteq> [] \<and> weight_of lens p \<le> limit)"
  using assms
proof (induction items arbitrary: groups nxt parts)
  case Nil
  then have "\<forall>g \<in> set groups. items_of g \<noteq> []" using empty_groups_0 [of groups] by simp
  with Nil show ?case by (auto simp: weighted_def)
next
  case (Cons item items)
  obtain s i where item: "item = (s, i)" by fastforce
  obtain w n g xs rest where pop: "heappop groups = Some ((w, n, g, xs), rest)"
    using Cons.prems(2) by (metis heapq.pop_None not_None_eq prod.exhaust)
  have s: "0 \<le> s" "s \<le> limit" "s = lens ! i" and ok: "item_ok lens limit items"
    using Cons.prems(5) item by (auto simp: item_ok_def)
  have set: "set groups = insert (w, n, g, xs) (set rest)" by (rule heapq.pop_set [OF pop])
  have g: "w = weight_of lens xs" "n = length xs" "0 \<le> w" "w \<le> limit"
    using Cons.prems(3,4,6) set by (auto simp: weighted_def counted_def)
  have rest: "weighted lens rest" "counted rest" "\<forall>g \<in> set rest. fst g \<le> limit"
    using Cons.prems(3,4,6) set by (auto simp: weighted_def counted_def)
  have mrest: "empty_groups groups = empty_groups rest + (if xs = [] then 1 else 0)"
    by (simp add: empty_groups_def heapq.pop_mset [OF pop])
  have first: "empty_groups rest = 0" if "xs \<noteq> []"
  proof -
    have "items_of y \<noteq> []" if y: "y \<in> set rest" for y
    proof
      assume "items_of y = []"
      then have "fst y = 0" "fst (snd y) = 0"
        using y rest by (auto simp: weighted_def counted_def weight_of_def)
      moreover have "(w, n, g, xs) \<le> y" using heapq.pop_least [OF Cons.prems(1) pop] y set by simp
      ultimately show False using g \<open>xs \<noteq> []\<close> by (cases y) (auto simp: less_eq_prod_def less_prod_def)
    qed
    then show ?thesis by (simp add: empty_groups_0)
  qed
  have h: "heap_from 0 (heappush y rest)" "heappush y rest \<noteq> []" for y
    using heapq.push_valid [OF heapq.pop_valid [OF Cons.prems(1) pop]] push_length [of y rest] by auto
  have e: "empty_groups (heappush y rest) \<le> length items" if "items_of y \<noteq> []" for y
  proof -
    have "empty_groups (heappush y rest) = empty_groups rest"
      using that by (simp add: empty_groups_def heapq.push_mset)
    then show ?thesis using mrest first Cons.prems(7) by (cases "xs = []") simp_all
  qed
  show ?case
  proof (cases "limit < w + s")
    case True
    let ?y = "(s, 1, nxt, [i])"
    have xs: "xs \<noteq> []" using True s g by (auto simp: weight_of_def)
    have "weighted lens (heappush ?y rest)" "counted (heappush ?y rest)" "\<forall>g \<in> set (heappush ?y rest). fst g \<le> limit"
      using rest s by (auto simp: weighted_def counted_def heapq.push_set weight_of_def)
    moreover have "\<forall>p \<in> set (parts @ [xs]). p \<noteq> [] \<and> weight_of lens p \<le> limit"
      using Cons.prems(8) xs g by auto
    ultimately have "\<exists>ps. fill_max limit items (heappush ?y rest) (nxt + 1) (parts @ [xs]) = Ok ps \<and>
        (\<forall>p \<in> set ps. p \<noteq> [] \<and> weight_of lens p \<le> limit)"
      by (intro Cons.IH h ok e) auto
    then show ?thesis using pop True item by simp
  next
    case False
    let ?y = "(w + s, n + 1, g, xs @ [i])"
    have "weighted lens (heappush ?y rest)" "counted (heappush ?y rest)" "\<forall>g \<in> set (heappush ?y rest). fst g \<le> limit"
      using rest s g False by (auto simp: weighted_def counted_def heapq.push_set)
    then have "\<exists>ps. fill_max limit items (heappush ?y rest) nxt parts = Ok ps \<and>
        (\<forall>p \<in> set ps. p \<noteq> [] \<and> weight_of lens p \<le> limit)"
      by (intro Cons.IH h ok e Cons.prems(8)) auto
    then show ?thesis using pop False item by simp
  qed
qed

lemma place_sorted_Ok:
  "i + length ps \<le> length acc \<Longrightarrow>
   place_sorted i ps acc = Ok (take i acc @ map (\<lambda>p. Some (sort p)) ps @ drop (i + length ps) acc)"
proof (induction i ps acc rule: place_sorted.induct)
  case (2 i p ps acc)
  have "take (Suc i) (acc[i := Some (sort p)]) = take i acc @ [Some (sort p)]"
    using 2 by (simp add: take_Suc_conv_app_nth)
  then show ?case using 2 by simp
qed simp

lemma weight_sort [simp]: "weight_of lens (sort p) = weight_of lens p"
  unfolding weight_of_def by (metis mset_map mset_sort sum_mset_sum_list)

lemma initial_weighted: "weighted lens (initial_groups k)"
  using initial_set by (auto simp: weighted_def weight_of_def)

lemma initial_items: "g \<in> set (initial_groups k) \<Longrightarrow> items_of g = []"
  using initial_set by blast

lemma initial_room: "room q (initial_groups k) = q * nat k"
proof -
  have "room q (initial_groups k) = (\<Sum>g \<in># mset (initial_groups k). q)"
    unfolding room_def by (rule arg_cong [where f = sum_mset], rule image_mset_cong) (simp add: initial_items)
  then show ?thesis by (simp add: sum_mset_constant initial_length mult.commute)
qed

lemma sorted_item_ok: "\<forall>s \<in> set lens. 0 \<le> s \<and> s \<le> w \<Longrightarrow> item_ok lens w (sorted_seqlen lens)"
  by (auto simp: item_ok_def sorted_seqlen_def in_set_zip)

lemma sorted_length: "length (sorted_seqlen xs) = length xs"
  by (simp add: sorted_seqlen_def)

lemma partition_covers: "heapq_partition xs k eq = Ok ps \<Longrightarrow>
    mset (concat ps) = mset [0..<length xs] \<and> length ps = nat k"
  using fill_groups_content [of eq _ "sorted_seqlen xs" "initial_groups k" "[]" ps]
  by (auto simp: heapq_partition_def initial_held sorted_indexes initial_length split: if_splits)

lemma balanced_Ok: "0 < k \<Longrightarrow> k \<le> int (length xs) \<Longrightarrow> heapq_partition xs k eq = Ok ps \<Longrightarrow>
    get_seqlen_balanced_partitions xs k eq = Ok (map (\<lambda>p. Some (sort p)) ps)"
  using partition_covers [of xs k eq ps]
  by (simp add: get_seqlen_balanced_partitions_def place_sorted_Ok)

lemma concat_sort: "mset (concat (map sort ps)) = mset (concat ps)"
  by (induction ps) simp_all

lemma partition_equal:
  assumes "0 < k" "k \<le> int (length xs)"
  shows "if k dvd int (length xs)
         then \<exists>ps. heapq_partition xs k True = Ok ps \<and> (\<forall>p \<in> set ps. int (length p) * k = int (length xs))
         else heapq_partition xs k True = Err pop_error"
proof -
  let ?q = "nat (int (length xs) div k)"
  have q: "int ?q = int (length xs) div k" using assms by (simp add: pos_imp_zdiv_nonneg_iff)
  have q1: "0 < ?q" using assms by (simp add: pos_imp_zdiv_pos_iff)
  have m: "int (?q * nat k) = int (length xs) div k * k" using assms q by simp
  have le: "int (length xs) div k * k \<le> int (length xs)" using assms by (metis minus_mod_eq_div_mult pos_mod_sign diff_le_eq le_add_same_cancel1)
  have eq: "?q * nat k = length xs \<longleftrightarrow> k dvd int (length xs)"
    using m by (metis dvd_div_mult_self dvd_triv_right of_nat_eq_iff)
  have og: "open_groups ?q (initial_groups k)"
    using initial_set q1 by (auto simp: open_groups_def)
  have "?q * nat k \<le> length xs" using le m by linarith
  then have run: "if k dvd int (length xs)
      then \<exists>ps. fill_groups True (int ?q) (sorted_seqlen xs) (initial_groups k) [] = Ok ps \<and> (\<forall>p \<in> set ps. length p = ?q)
      else fill_groups True (int ?q) (sorted_seqlen xs) (initial_groups k) [] = Err pop_error"
    using fill_equal_run [OF og, of "[]" "sorted_seqlen xs"] eq by (simp add: initial_room sorted_length)
  show ?thesis
  proof (cases "k dvd int (length xs)")
    case True
    then obtain ps where ps: "fill_groups True (int ?q) (sorted_seqlen xs) (initial_groups k) [] = Ok ps"
      "\<forall>p \<in> set ps. length p = ?q" using run by auto
    have "int ?q * k = int (length xs)" using True q by simp
    then have l: "\<forall>p \<in> set ps. int (length p) * k = int (length xs)" using ps(2) by simp
    then have "heapq_partition xs k True = Ok ps" using assms(1) ps(1) [unfolded q] by (simp add: heapq_partition_def)
    with l True show ?thesis by auto
  next
    case False
    then show ?thesis using run [unfolded q] assms by (simp add: heapq_partition_def)
  qed
qed

section \<open>Properties\<close>

definition demo_lens :: "int list" where "demo_lens = [3, 1, 2, 5]"

text \<open>Groups of equal size: for at most as many groups as items, the partitioning succeeds exactly
  when the number of groups divides the number of items. It then returns that many sorted partitions of
  equal size, and every item index is in exactly one of them. Otherwise the heap runs empty and the
  caller sees the \<open>IndexError\<close> of \<open>heappop\<close>, not the \<open>ValueError\<close> with the partition's size.\<close>

theorem equal_size_partitions:
  assumes "0 < k" "k \<le> int (length lens)"
  shows "case get_seqlen_balanced_partitions lens k True of
      Inl e \<Rightarrow> \<not> k dvd int (length lens) \<and> e = pop_error
    | Inr rs \<Rightarrow> k dvd int (length lens) \<and> int (length rs) = k \<and>
        (\<exists>ps. rs = map Some ps \<and> mset (concat ps) = mset [0..<length lens] \<and>
          (\<forall>p \<in> set ps. sorted p \<and> int (length p) * k = int (length lens)))"
proof (cases "k dvd int (length lens)")
  case True
  with partition_equal [OF assms] obtain ps where ps: "heapq_partition lens k True = Ok ps"
      "\<forall>p \<in> set ps. int (length p) * k = int (length lens)" by auto
  have "map (\<lambda>p. Some (sort p)) ps = map Some (map sort ps)" by simp
  with ps show ?thesis using balanced_Ok [OF assms ps(1)] partition_covers [OF ps(1)] assms True concat_sort [of ps]
    by (auto intro!: exI [of _ "map sort ps"])
next
  case False
  then show ?thesis using partition_equal [OF assms] assms by (simp add: get_seqlen_balanced_partitions_def)
qed

theorem equal_size_partitions_witness:
  "get_seqlen_balanced_partitions demo_lens 2 True = Ok [Some [0, 2], Some [1, 3]] \<and>
   get_seqlen_balanced_partitions demo_lens 3 True = Err pop_error"
proof -
  have "length demo_lens = 4" by (simp add: demo_lens_def)
  then have "get_seqlen_balanced_partitions demo_lens 3 True = Err pop_error"
    using equal_size_partitions [of 3 demo_lens] by (simp split: sum.splits)
  moreover have "get_seqlen_balanced_partitions demo_lens 2 True = Ok [Some [0, 2], Some [1, 3]]" by code_simp
  ultimately show ?thesis by simp
qed

text \<open>Balanced sums: without equal sizes the \<open>k\<close> partitions hold every item index once, and the sums
  of the sequence lengths of any two of them differ by at most the largest length.\<close>

theorem balanced_spread:
  assumes "0 < k" "k \<le> int (length lens)" "\<forall>s \<in> set lens. 0 \<le> s \<and> s \<le> w"
  shows "\<exists>ps. get_seqlen_balanced_partitions lens k False = Ok (map Some ps) \<and> int (length ps) = k \<and>
    mset (concat ps) = mset [0..<length lens] \<and>
    (\<forall>p \<in> set ps. \<forall>p' \<in> set ps. weight_of lens p \<le> weight_of lens p' + w)"
proof -
  have w: "0 \<le> w" using assms by (cases lens) auto
  have ne: "initial_groups k \<noteq> []" using initial_length [of k] assms(1) by auto
  have "\<forall>x \<in> set (initial_groups k). \<forall>y \<in> set (initial_groups k). fst x \<le> fst y + w"
    using initial_set w by auto
  from fill_spread [OF initial_heap ne initial_weighted sorted_item_ok [OF assms(3)] this]
  obtain ps where f: "fill_groups False (int (length lens) div k) (sorted_seqlen lens) (initial_groups k) [] = Ok ps"
    "\<forall>p \<in> set ps. \<forall>p' \<in> set ps. weight_of lens p \<le> weight_of lens p' + w" by blast
  then have ps: "heapq_partition lens k False = Ok ps" using assms(1) by (simp add: heapq_partition_def)
  show ?thesis
    using balanced_Ok [OF assms(1,2) ps] partition_covers [OF ps] f(2) assms(1) concat_sort [of ps]
    by (intro exI [of _ "map sort ps"]) simp
qed

theorem balanced_spread_witness:
  "\<exists>ps. get_seqlen_balanced_partitions demo_lens 3 False = Ok (map Some ps) \<and> length ps = 3 \<and>
    (\<forall>p \<in> set ps. \<forall>p' \<in> set ps. weight_of demo_lens p \<le> weight_of demo_lens p' + 5)"
  using balanced_spread [of 3 demo_lens 5] by (auto simp: demo_lens_def)

section \<open>Micro batches and the reverse index\<close>

lemma ceil_bounds:
  assumes "0 < b" "0 \<le> a" "a \<le> m * b"
  shows "\<exists>n. ceil_div a b = Ok n \<and> n \<le> m \<and> (0 < a \<longrightarrow> 1 \<le> n)"
proof -
  have "a + b - 1 < (m + 1) * b" using assms by (simp add: algebra_simps)
  moreover have "(a + b - 1) div b * b \<le> a + b - 1"
    using assms(1) by (metis minus_mod_eq_div_mult pos_mod_sign diff_le_eq le_add_same_cancel1)
  ultimately have "(a + b - 1) div b * b < (m + 1) * b" by linarith
  then have "(a + b - 1) div b < m + 1" using assms(1) by (simp add: mult_less_cancel_right)
  moreover have "1 \<le> (a + b - 1) div b" if "0 < a" using that assms pos_imp_zdiv_pos_iff [of b "a + b - 1"] by linarith
  ultimately show ?thesis using assms by (auto simp: ceil_div_def)
qed

lemma sum_le: "\<forall>s \<in> set xs. s \<le> (w :: int) \<Longrightarrow> sum_list xs \<le> int (length xs) * w"
  by (induction xs) (auto simp: algebra_simps)

lemma num_micro_batches_bounds:
  assumes "\<forall>s \<in> set lens. 0 \<le> s \<and> s \<le> limit" "0 < sum_list lens" "case dyn of None \<Rightarrow> True | Some d \<Rightarrow> 0 < d"
  shows "\<exists>n. num_micro_batches lens limit dyn = Ok n \<and> 1 \<le> n \<and> n \<le> int (length lens)"
proof -
  have "0 < limit"
  proof (rule ccontr)
    assume "\<not> 0 < limit"
    then have "\<forall>s \<in> set lens. s \<le> 0" using assms(1) by auto
    then show False using sum_le [of lens 0] assms(2) by simp
  qed
  moreover have "sum_list lens \<le> int (length lens) * limit" using assms(1) by (simp add: sum_le)
  ultimately obtain n where n: "ceil_div (sum_list lens) limit = Ok n" "n \<le> int (length lens)" "1 \<le> n"
    using ceil_bounds [of limit "sum_list lens" "int (length lens)"] assms(2) by auto
  show ?thesis
  proof (cases dyn)
    case None
    then show ?thesis using n by (simp add: num_micro_batches_def)
  next
    case (Some d)
    then have "0 < d" using assms(3) by simp
    then have "int (length lens) \<le> int (length lens) * d" by (simp add: mult_le_cancel_left1)
    then obtain m where "ceil_div (int (length lens)) d = Ok m" "m \<le> int (length lens)"
      using ceil_bounds [of d "int (length lens)" "int (length lens)"] \<open>0 < d\<close> by auto
    then show ?thesis using n Some by (auto simp: num_micro_batches_def)
  qed
qed

lemma with_max_run:
  assumes "1 \<le> k" "k \<le> int (length lens)" "\<forall>s \<in> set lens. 0 \<le> s \<and> s \<le> limit"
  shows "\<exists>ps. heapq_partition_with_max lens k limit = Ok ps \<and> mset (concat ps) = mset [0..<length lens] \<and>
    k \<le> int (length ps) \<and> (\<forall>p \<in> set ps. p \<noteq> [] \<and> weight_of lens p \<le> limit)"
proof -
  have ne: "initial_groups k \<noteq> []" "0 \<le> limit" using initial_length [of k] assms by (auto, cases lens, auto)
  have e: "empty_groups (initial_groups k) \<le> length (sorted_seqlen lens)"
    using size_mset_mono [of "filter_mset (\<lambda>g. items_of g = []) (mset (initial_groups k))" "mset (initial_groups k)"] assms
    by (simp add: empty_groups_def sorted_length initial_length)
  have c: "counted (initial_groups k)" "\<forall>g \<in> set (initial_groups k). fst g \<le> limit"
    using initial_set ne(2) by (auto simp: counted_def)
  obtain ps where "heapq_partition_with_max lens k limit = Ok ps" "\<forall>p \<in> set ps. p \<noteq> [] \<and> weight_of lens p \<le> limit"
    using fill_max_run [OF initial_heap ne(1) initial_weighted c(1) sorted_item_ok [OF assms(3)] c(2) e, of "[]"]
    unfolding heapq_partition_with_max_def by auto
  then show ?thesis
    using fill_max_content [of limit "sorted_seqlen lens" "initial_groups k" _ "[]" ps]
      \<open>1 \<le> k\<close> by (auto simp: heapq_partition_with_max_def initial_held initial_length sorted_indexes nat_le_iff)
qed

lemma concat_image: "mset (concat (map (map f) ps)) = image_mset f (mset (concat ps))"
  by (induction ps) simp_all

lemma mset_nth: "image_mset (\<lambda>i. xs ! i) (mset [0..<length xs]) = mset xs"
  by (metis map_nth mset_map)

text \<open>Setting distinct positions one after the other.\<close>

lemma reverse_from_Ok:
  assumes "distinct rest" "\<forall>j \<in> set rest. 0 \<le> j \<and> j < int (length acc)"
  shows "\<exists>r. reverse_from i rest acc = Ok r \<and> length r = length acc \<and>
    (\<forall>t < length rest. r ! nat (rest ! t) = int (i + t)) \<and>
    (\<forall>j < length acc. int j \<notin> set rest \<longrightarrow> r ! j = acc ! j)"
  using assms
proof (induction i rest acc rule: reverse_from.induct)
  case (2 i idx rest acc)
  let ?acc = "acc[nat idx := int i]"
  have s: "py_set acc idx (int i) = Ok ?acc" using 2(3) by (simp add: py_set_def)
  obtain r where r: "reverse_from (Suc i) rest ?acc = Ok r" "length r = length acc"
    "\<forall>t < length rest. r ! nat (rest ! t) = int (Suc i + t)"
    "\<forall>j < length acc. int j \<notin> set rest \<longrightarrow> r ! j = ?acc ! j"
    using 2(1) [of ?acc] 2(2,3) by auto
  have "r ! nat idx = int i" using r(4) 2(2,3) by (auto simp: nat_less_iff)
  then have "\<forall>t < length (idx # rest). r ! nat ((idx # rest) ! t) = int (i + t)"
    using r(3) by (auto simp: nth_Cons split: nat.splits)
  moreover have "\<forall>j < length acc. int j \<notin> set (idx # rest) \<longrightarrow> r ! j = acc ! j"
    using r(4) 2(3) by (auto simp: nth_list_update)
  ultimately show ?case using s r by auto
qed simp

text \<open>C35. Micro batches: when no row is longer than \<open>max_token_len\<close>, some row has tokens, and the number
  of batches agreed among the ranks is at least this rank's and at most the number of rows, the rows are
  split into nonempty micro batches: every row is in exactly one, none holds more than \<open>max_token_len\<close>
  tokens, the warning never fires, and there are at least as many as agreed.\<close>

theorem micro_batches_bounded:
  assumes "\<forall>r \<in> set batch. effective_len pad (ids r) \<le> limit" "\<exists>r \<in> set batch. effective_len pad (ids r) \<noteq> 0"
    and "case dyn of None \<Rightarrow> True | Some d \<Rightarrow> 0 < d"
    and "\<forall>m. 1 \<le> m \<and> m \<le> int (length batch) \<longrightarrow> m \<le> reduce m \<and> reduce m \<le> int (length batch)"
  shows "\<exists>mbs ps n. rearrange_micro_batches ids reduce batch pad limit dyn = Ok (mbs, ps, False) \<and>
    mbs = map (map (\<lambda>i. batch ! i)) ps \<and> mset (concat mbs) = mset batch \<and>
    num_micro_batches (map (\<lambda>r. effective_len pad (ids r)) batch) limit dyn = Ok n \<and>
    reduce n \<le> int (length mbs) \<and>
    (\<forall>mb \<in> set mbs. mb \<noteq> [] \<and> sum_list (map (\<lambda>r. effective_len pad (ids r)) mb) \<le> limit)"
proof -
  let ?lens = "map (\<lambda>r. effective_len pad (ids r)) batch"
  have l: "\<forall>s \<in> set ?lens. 0 \<le> s \<and> s \<le> limit" using assms(1) by (auto simp: effective_len_def)
  have ne: "batch \<noteq> []" using assms(2) by auto
  obtain r0 where "r0 \<in> set batch" "0 < effective_len pad (ids r0)"
    using assms(2) l by fastforce
  moreover have "\<forall>s \<in> set ?lens. 0 \<le> s" using l by blast
  ultimately have "0 < sum_list ?lens"
    using sum_list_nonneg_eq_0_iff [of ?lens] sum_list_nonneg [of ?lens]
    by (metis (no_types, lifting) imageI list.set_map order_less_irrefl order_le_less)
  then obtain n where n: "num_micro_batches ?lens limit dyn = Ok n" "1 \<le> n" "n \<le> int (length batch)"
    using num_micro_batches_bounds [OF l _ assms(3)] by auto
  then have k: "1 \<le> reduce n" "reduce n \<le> int (length ?lens)" using assms(4) by (auto intro: order_trans)
  obtain ps where ps: "heapq_partition_with_max ?lens (reduce n) limit = Ok ps"
    "mset (concat ps) = mset [0..<length batch]" "reduce n \<le> int (length ps)"
    "\<forall>p \<in> set ps. p \<noteq> [] \<and> weight_of ?lens p \<le> limit"
    using with_max_run [OF k l] by auto
  have "set (concat ps) = {0..<length batch}" using ps(2) by (metis mset_eq_setD set_upt)
  then have inb: "\<forall>p \<in> set ps. \<forall>i \<in> set p. i < length batch" by force
  have cat: "map_res (\<lambda>p. cat_rows (map (\<lambda>i. batch ! i) p)) ps = Ok (map (map (\<lambda>i. batch ! i)) ps)"
    by (rule map_res_all_Ok) (use ps(4) in \<open>simp add: cat_rows_def\<close>)
  have w: "weight_of ?lens p = sum_list (map (\<lambda>r. effective_len pad (ids r)) (map (\<lambda>i. batch ! i) p))" if "p \<in> set ps" for p
    unfolding weight_of_def map_map by (rule arg_cong [where f = sum_list], rule map_cong) (use inb that in auto)
  have m: "\<not> limit < Max (set ?lens)" using l ne by (subst not_less, subst Max_le_iff) auto
  have "rearrange_micro_batches ids reduce batch pad limit dyn = Ok (map (map (\<lambda>i. batch ! i)) ps, ps, False)"
    using n(1) k(2) ps cat m ne by (simp add: rearrange_micro_batches_def Let_def check_partitions_def)
  then show ?thesis using n ps w
    by (intro exI [of _ "map (map (\<lambda>i. batch ! i)) ps"] exI [of _ ps] exI [of _ n])
      (auto simp: concat_image mset_nth simp del: mset_upt)
qed

theorem micro_batches_bounded_witness:
  "\<exists>mbs ps. rearrange_micro_batches id id [[1, 1, 0], [1, 0, 0], [1, 1, 1]] 0 4 None = Ok (mbs, ps, False) \<and>
    mset (concat mbs) = mset [[1, 1, 0], [1, 0, 0], [1, 1, 1]]"
  using micro_batches_bounded [of "[[1, 1, 0], [1, 0, 0], [1, 1, 1]]" 0 id 4 None id]
  by (auto simp: effective_len_def)

text \<open>The reverse index of a permutation of \<open>0..<n\<close> is its inverse.\<close>

theorem reverse_idx_inverse:
  assumes "mset m = mset (map int [0..<n])"
  shows "\<exists>r. get_reverse_idx m = Ok r \<and> length r = n \<and>
    (\<forall>i < n. r ! nat (m ! i) = int i \<and> m ! nat (r ! i) = int i)"
proof -
  have len: "length m = n" using mset_eq_length [OF assms] by simp
  have d: "distinct m" using mset_eq_imp_distinct_iff [OF assms] by (simp add: distinct_map)
  have s: "set m = {0..<int n}" using mset_eq_setD [OF assms] by (simp add: image_int_atLeastLessThan)
  have "\<forall>j \<in> set m. 0 \<le> j \<and> j < int (length m)" using s len by simp
  from reverse_from_Ok [OF d this, of 0] obtain r where r: "get_reverse_idx m = Ok r" "length r = n"
    "\<forall>t < n. r ! nat (m ! t) = int t" unfolding get_reverse_idx_def len by auto
  have "m ! nat (r ! i) = int i" if "i < n" for i
  proof -
    have "int i \<in> set m" using s that by simp
    then obtain t where "t < n" "m ! t = int i" using len by (metis in_set_conv_nth)
    then show ?thesis using r(3) by (metis nat_int)
  qed
  then show ?thesis using r by blast
qed

theorem reverse_idx_inverse_witness:
  "\<exists>r. get_reverse_idx [2, 0, 1] = Ok r \<and> (\<forall>i < 3. r ! nat ([2, 0, 1] ! i) = int i)"
  using reverse_idx_inverse [of "[2, 0, 1]" 3] by (auto simp: upt_rec)

end
