(* ===== verification/AsyncEvent.thy ===== *)
theory AsyncEvent
  imports Prelude
begin

text \<open>
  \<open>asyncio.Event\<close> as the coroutines of a single-threaded actor use it: a flag, the callers blocked in
  \<open>wait()\<close>, and the callers whose wait has been resolved and who have not run again yet. A resolved
  wait returns even when the flag has been cleared in between. What a component relies on is the
  locale \<open>guarded_event\<close>: the flag mirrors a condition of the state, so no caller blocks while the
  condition holds.
\<close>

record 'c aevent =
  ev_flag :: bool
  ev_blocked :: "'c list"
  ev_woken :: "'c list"

definition ev_init :: "'c aevent" where
  "ev_init = \<lparr>ev_flag = False, ev_blocked = [], ev_woken = []\<rparr>"

text \<open>\<open>set()\<close> resolves every blocked wait; it does nothing when the flag is set already.\<close>

definition ev_signal :: "'c aevent \<Rightarrow> 'c aevent" where
  "ev_signal e = (if ev_flag e then e
     else \<lparr>ev_flag = True, ev_blocked = [], ev_woken = ev_woken e @ ev_blocked e\<rparr>)"

definition ev_clear :: "'c aevent \<Rightarrow> 'c aevent" where
  "ev_clear e = e\<lparr>ev_flag := False\<rparr>"

text \<open>A \<open>wait()\<close> on a clear flag blocks the caller.\<close>

definition ev_enter :: "'c \<Rightarrow> 'c aevent \<Rightarrow> 'c aevent" where
  "ev_enter c e = e\<lparr>ev_blocked := ev_blocked e @ [c]\<rparr>"

definition ev_leave :: "'c \<Rightarrow> 'c aevent \<Rightarrow> 'c aevent" where
  "ev_leave c e = e\<lparr>ev_woken := remove1 c (ev_woken e)\<rparr>"

definition ev_ok :: "'c aevent \<Rightarrow> bool" where
  "ev_ok e \<longleftrightarrow> (ev_flag e \<longrightarrow> ev_blocked e = [])"

named_theorems ev_simps

lemma ev_flag_simps [simp, ev_simps]:
  "ev_flag ev_init = False"
  "ev_flag (ev_signal e) = True"
  "ev_flag (ev_clear e) = False"
  "ev_flag (ev_enter c e) = ev_flag e"
  "ev_flag (ev_leave c e) = ev_flag e"
  by (simp_all add: ev_init_def ev_signal_def ev_clear_def ev_enter_def ev_leave_def)

lemma ev_blocked_simps [simp, ev_simps]:
  "ev_blocked ev_init = []"
  "ev_ok e \<Longrightarrow> ev_blocked (ev_signal e) = []"
  "ev_blocked (ev_clear e) = ev_blocked e"
  "ev_blocked (ev_enter c e) = ev_blocked e @ [c]"
  "ev_blocked (ev_leave c e) = ev_blocked e"
  by (simp_all add: ev_init_def ev_signal_def ev_clear_def ev_enter_def ev_leave_def ev_ok_def)

lemma ev_woken_simps [simp, ev_simps]:
  "ev_woken ev_init = []"
  "ev_ok e \<Longrightarrow> ev_woken (ev_signal e) = ev_woken e @ ev_blocked e"
  "ev_woken (ev_clear e) = ev_woken e"
  "ev_woken (ev_enter c e) = ev_woken e"
  "ev_woken (ev_leave c e) = remove1 c (ev_woken e)"
  by (simp_all add: ev_init_def ev_signal_def ev_clear_def ev_enter_def ev_leave_def ev_ok_def)

lemma ev_ok_simps [simp, ev_simps]:
  "ev_ok ev_init"
  "ev_ok e \<Longrightarrow> ev_ok (ev_signal e)"
  "ev_ok (ev_clear e)"
  "\<not> ev_flag e \<Longrightarrow> ev_ok (ev_enter c e)"
  "ev_ok e \<Longrightarrow> ev_ok (ev_leave c e)"
  by (simp_all add: ev_ok_def)

section \<open>An event that mirrors a condition\<close>

locale guarded_event =
  fixes inv :: "'s \<Rightarrow> bool"
    and ready :: "'s \<Rightarrow> bool"
    and ev :: "'s \<Rightarrow> 'c aevent"
  assumes mirrors: "inv s \<Longrightarrow> ev_flag (ev s) \<longleftrightarrow> ready s"
    and wakes: "inv s \<Longrightarrow> ev_ok (ev s)"
begin

text \<open>No lost wake-up: whoever is still blocked has nothing to wait for yet.\<close>

lemma blocked_not_ready: "inv s \<Longrightarrow> c \<in> set (ev_blocked (ev s)) \<Longrightarrow> \<not> ready s"
  using mirrors [of s] wakes [of s] by (auto simp: ev_ok_def)

lemma ready_none_blocked: "inv s \<Longrightarrow> ready s \<Longrightarrow> ev_blocked (ev s) = []"
  using mirrors [of s] wakes [of s] by (simp add: ev_ok_def)

end

end
