(* ===== verification/PromptManager.thy ===== *)
theory PromptManager
  imports AsyncEvent "HOL-Library.Multiset"
begin

text \<open>
  \<open>partial_rollout/prompt_manager.py\<close>: the actor that hands prompts of the trainer to rollout workers
  and assembles finished prompts into training batches. The batches themselves (verl's \<open>DataProto\<close>)
  and their assembly are outside the repository; they are the parameter record \<open>data_proto\<close>. The
  methods of the actor run one at a time; a method that awaits an event is split into the call and
  the resumption.
\<close>

section \<open>State\<close>

record ('d, 'u) data_proto =
  dp_rows :: "'d \<Rightarrow> nat"
  dp_uids :: "'d \<Rightarrow> 'u list"
  dp_chunk :: "'d \<Rightarrow> nat \<Rightarrow> 'd list result"
  dp_repeat :: "'d \<Rightarrow> int \<Rightarrow> 'd result"
  dp_union :: "'d \<Rightarrow> 'd \<Rightarrow> 'd result"
  dp_assemble :: "('d \<times> 'u) list \<Rightarrow> 'd result"

record ('d, 'u) rollout_prompt =
  rp_batch :: 'd
  rp_gen :: 'd
  rp_id :: 'u

text \<open>A caller of \<open>pull_batch\<close> is a number; one of \<open>pull_prompts\<close> carries its \<open>prompt_count\<close>.\<close>

record ('d, 'u) prompt_mgr =
  pm_batch_size :: int
  pm_n :: int
  ongoing_set :: "'u set"
  pending_queue :: "('d, 'u) rollout_prompt list"
  done_queue :: "('d, 'u) rollout_prompt list"
  batch_ready :: "nat aevent"
  prompts_pending :: "(nat \<times> int) aevent"

abbreviation ids :: "('d, 'u) rollout_prompt list \<Rightarrow> 'u list" where
  "ids \<equiv> map rp_id"

definition pm_init :: "int option \<Rightarrow> int \<Rightarrow> int \<Rightarrow> ('d, 'u) prompt_mgr result" where
  "pm_init gen_batch_size train_batch_size n =
     (let b = (case gen_batch_size of None \<Rightarrow> train_batch_size | Some g \<Rightarrow> g) in
      if \<not> b > 0 then Err (AssertionError ''batch_size must be > 0'')
      else if \<not> n \<ge> 1 then Err (AssertionError ''rollout.n must be >= 1'')
      else Ok \<lparr>pm_batch_size = b, pm_n = n, ongoing_set = {}, pending_queue = [], done_queue = [],
               batch_ready = ev_init, prompts_pending = ev_init\<rparr>)"

definition prefetch_factor :: int where
  "prefetch_factor = 2"

definition maybe_signal_batch_ready :: "('d, 'u) prompt_mgr \<Rightarrow> ('d, 'u) prompt_mgr" where
  "maybe_signal_batch_ready s =
     (if int (length (done_queue s)) \<ge> pm_batch_size s
      then s\<lparr>batch_ready := ev_signal (batch_ready s)\<rparr> else s)"

section \<open>The trainer's side\<close>

definition in_flight_ids :: "('d, 'u) prompt_mgr \<Rightarrow> 'u set" where
  "in_flight_ids s = ongoing_set s \<union> set (ids (pending_queue s)) \<union> set (ids (done_queue s))"

definition in_flight :: "('d, 'u) prompt_mgr \<Rightarrow> int" where
  "in_flight s = int (length (pending_queue s)) + int (card (ongoing_set s)) + int (length (done_queue s))"

text \<open>The validation loop of \<open>push_batch\<close>: the ids of the rows, all fresh and different.\<close>

fun check_uids :: "('d, 'u) data_proto \<Rightarrow> 'u set \<Rightarrow> 'd list \<Rightarrow> 'u list result" where
  "check_uids dp seen [] = Ok []"
| "check_uids dp seen (b # bs) =
     (case dp_uids dp b of
        [] \<Rightarrow> Err (IndexError ''index 0 is out of bounds'')
      | u # _ \<Rightarrow>
          if u \<in> seen then Err (AssertionError ''prompt_id already in flight'')
          else bind_res (check_uids dp (insert u seen) bs) (\<lambda>us. Ok (u # us)))"

text \<open>The loop \<open>for i in range(num_prompts)\<close>; an exception leaves the prompts appended so far.\<close>

fun enqueue_rows :: "('d, 'u) data_proto \<Rightarrow> int \<Rightarrow> nat \<Rightarrow> 'd list \<Rightarrow> 'd list \<Rightarrow> 'u list
    \<Rightarrow> ('d, 'u) rollout_prompt list \<Rightarrow> ('d, 'u) rollout_prompt list \<times> py_error option" where
  "enqueue_rows dp n 0 bs gs us q = (q, None)"
| "enqueue_rows dp n (Suc k) (b # bs) (g # gs) (u # us) q =
     (case dp_repeat dp g n of
        Inl e \<Rightarrow> (q, Some e)
      | Inr g' \<Rightarrow> enqueue_rows dp n k bs gs us (q @ [\<lparr>rp_batch = b, rp_gen = g', rp_id = u\<rparr>]))"
| "enqueue_rows dp n (Suc k) bs gs us q = (q, Some (IndexError ''list index out of range''))"

definition push_batch :: "('d, 'u) data_proto \<Rightarrow> 'd \<Rightarrow> 'd \<Rightarrow> ('d, 'u) prompt_mgr
    \<Rightarrow> ('d, 'u) prompt_mgr \<times> bool result" where
  "push_batch dp batch gen_batch s =
     (let num = dp_rows dp batch in
      if length (dp_uids dp gen_batch) \<noteq> num
      then (s, Err (AssertionError ''gen_batch row count != batch row count''))
      else case bind_res (dp_chunk dp batch num) (\<lambda>bl. bind_res (dp_chunk dp gen_batch num) (\<lambda>gl.
                bind_res (check_uids dp (in_flight_ids s) bl) (\<lambda>us. Ok (bl, gl, us)))) of
        Inl e \<Rightarrow> (s, Err e)
      | Inr (bl, gl, us) \<Rightarrow>
          (case enqueue_rows dp (pm_n s) num bl gl us (pending_queue s) of
             (q, Some e) \<Rightarrow> (s\<lparr>pending_queue := q\<rparr>, Err e)
           | (q, None) \<Rightarrow>
               (let s' = s\<lparr>pending_queue := q, prompts_pending := ev_signal (prompts_pending s)\<rparr>
                in (s', Ok (in_flight s' < prefetch_factor * pm_batch_size s')))))"

text \<open>One row of the training batch, and the assembly of all of them.\<close>

definition rollout_sample :: "('d, 'u) data_proto \<Rightarrow> int \<Rightarrow> ('d, 'u) rollout_prompt \<Rightarrow> ('d \<times> 'u) result" where
  "rollout_sample dp n rp =
     bind_res (dp_repeat dp (rp_batch rp) n) (\<lambda>r. bind_res (dp_union dp r (rp_gen rp)) (\<lambda>f. Ok (f, rp_id rp)))"

definition assemble_batch :: "('d, 'u) data_proto \<Rightarrow> int \<Rightarrow> ('d, 'u) rollout_prompt list \<Rightarrow> 'd result" where
  "assemble_batch dp n rps = bind_res (map_res (rollout_sample dp n) rps) (dp_assemble dp)"

text \<open>\<open>popleft\<close> repeated; on an empty deque it raises, and what was popped is gone.\<close>

fun pop_left :: "nat \<Rightarrow> 'a list \<Rightarrow> 'a list \<times> bool" where
  "pop_left 0 q = (q, True)"
| "pop_left (Suc k) [] = ([], False)"
| "pop_left (Suc k) (x # q) = pop_left k q"

text \<open>\<open>pull_batch\<close> after its wait.\<close>

definition pull_batch_body :: "('d, 'u) data_proto \<Rightarrow> ('d, 'u) prompt_mgr \<Rightarrow> ('d, 'u) prompt_mgr \<times> 'd result" where
  "pull_batch_body dp s =
     (let b = nat (pm_batch_size s) in
      case assemble_batch dp (pm_n s) (take b (done_queue s)) of
        Inl e \<Rightarrow> (s, Err e)
      | Inr r \<Rightarrow>
          (case pop_left b (done_queue s) of
             (q, False) \<Rightarrow> (s\<lparr>done_queue := q\<rparr>, Err (IndexError ''pop from an empty deque''))
           | (q, True) \<Rightarrow>
               (let s' = s\<lparr>done_queue := q\<rparr>
                in (if int (length q) < pm_batch_size s' then s'\<lparr>batch_ready := ev_clear (batch_ready s')\<rparr> else s',
                    Ok r))))"

section \<open>The workers' side\<close>

text \<open>The loop \<open>while prompt_count > 0 and self.pending_queue\<close>: what is taken and what stays.\<close>

fun take_prompts :: "int \<Rightarrow> 'a list \<Rightarrow> 'a list \<times> 'a list" where
  "take_prompts c [] = ([], [])"
| "take_prompts c (x # q) =
     (if c > 0 then (let (taken, left) = take_prompts (c - 1) q in (x # taken, left)) else ([], x # q))"

definition pull_prompts_body :: "int \<Rightarrow> ('d, 'u) prompt_mgr
    \<Rightarrow> ('d, 'u) prompt_mgr \<times> ('d, 'u) rollout_prompt list result" where
  "pull_prompts_body c s =
     (if \<exists>p \<in> set (pending_queue s). rp_id p \<in> ongoing_set s
      then (s, Err (AssertionError ''prompt already in ongoing_set''))
      else
        (let (taken, left) = take_prompts c (pending_queue s);
             s' = s\<lparr>pending_queue := left, ongoing_set := ongoing_set s \<union> set (ids taken)\<rparr>
         in (if left = [] then s'\<lparr>prompts_pending := ev_clear (prompts_pending s')\<rparr> else s', Ok taken)))"

fun check_returned :: "'u set \<Rightarrow> 'u set \<Rightarrow> ('d, 'u) rollout_prompt list \<Rightarrow> unit result" where
  "check_returned ongoing seen [] = Ok ()"
| "check_returned ongoing seen (p # ps) =
     (if rp_id p \<notin> ongoing then Err (AssertionError ''push_prompts: was never pulled (not in ongoing_set)'')
      else if rp_id p \<in> seen then Err (AssertionError ''push_prompts: appears twice in the same call'')
      else check_returned ongoing (insert (rp_id p) seen) ps)"

fun move_to_done :: "('d, 'u) rollout_prompt list \<Rightarrow> ('d, 'u) prompt_mgr \<Rightarrow> ('d, 'u) prompt_mgr \<times> py_error option" where
  "move_to_done [] s = (s, None)"
| "move_to_done (p # ps) s =
     (if rp_id p \<notin> ongoing_set s then (s, Some (KeyError ''prompt_id''))
      else move_to_done ps (s\<lparr>ongoing_set := ongoing_set s - {rp_id p}, done_queue := done_queue s @ [p]\<rparr>))"

definition push_prompts :: "('d, 'u) rollout_prompt list \<Rightarrow> ('d, 'u) prompt_mgr \<Rightarrow> ('d, 'u) prompt_mgr \<times> unit result" where
  "push_prompts ps s =
     (case check_returned (ongoing_set s) {} ps of
        Inl e \<Rightarrow> (s, Err e)
      | Inr _ \<Rightarrow>
          (case move_to_done ps s of
             (s', Some e) \<Rightarrow> (s', Err e)
           | (s', None) \<Rightarrow> (maybe_signal_batch_ready s', Ok ())))"

section \<open>The actor\<close>

datatype ('d, 'u) pm_call =
    PushBatch 'd 'd
  | PullBatch nat
  | ResumePullBatch nat
  | PullPrompts nat int
  | ResumePullPrompts nat int
  | PushPrompts "('d, 'u) rollout_prompt list"

datatype ('d, 'u) pm_out =
    WantsMore bool
  | Batch 'd
  | Prompts "('d, 'u) rollout_prompt list"
  | Stored
  | Blocks
  | Spins
  | Fails py_error

definition out_of :: "('a \<Rightarrow> ('d, 'u) pm_out) \<Rightarrow> ('d, 'u) prompt_mgr \<times> 'a result \<Rightarrow> ('d, 'u) prompt_mgr \<times> ('d, 'u) pm_out" where
  "out_of f r = (fst r, case snd r of Inl e \<Rightarrow> Fails e | Inr x \<Rightarrow> f x)"

text \<open>
  The loop \<open>while not self.pending_queue: await self._prompts_pending.wait()\<close>. With an empty queue
  and a set flag the wait returns without suspending, so the loop keeps the actor's thread
  for ever: \<open>Spins\<close>.
\<close>

definition await_prompts :: "nat \<Rightarrow> int \<Rightarrow> ('d, 'u) prompt_mgr \<Rightarrow> ('d, 'u) prompt_mgr \<times> ('d, 'u) pm_out" where
  "await_prompts w c s =
     (if pending_queue s \<noteq> [] then out_of Prompts (pull_prompts_body c s)
      else if ev_flag (prompts_pending s) then (s, Spins)
      else (s\<lparr>prompts_pending := ev_enter (w, c) (prompts_pending s)\<rparr>, Blocks))"

fun pm_exec :: "('d, 'u) data_proto \<Rightarrow> ('d, 'u) pm_call \<Rightarrow> ('d, 'u) prompt_mgr \<Rightarrow> ('d, 'u) prompt_mgr \<times> ('d, 'u) pm_out" where
  "pm_exec dp (PushBatch b g) s = out_of WantsMore (push_batch dp b g s)"
| "pm_exec dp (PullBatch t) s =
     (if ev_flag (batch_ready s) then out_of Batch (pull_batch_body dp s)
      else (s\<lparr>batch_ready := ev_enter t (batch_ready s)\<rparr>, Blocks))"
| "pm_exec dp (ResumePullBatch t) s =
     out_of Batch (pull_batch_body dp (s\<lparr>batch_ready := ev_leave t (batch_ready s)\<rparr>))"
| "pm_exec dp (PullPrompts w c) s = await_prompts w c s"
| "pm_exec dp (ResumePullPrompts w c) s =
     await_prompts w c (s\<lparr>prompts_pending := ev_leave (w, c) (prompts_pending s)\<rparr>)"
| "pm_exec dp (PushPrompts ps) s = out_of (\<lambda>_. Stored) (push_prompts ps s)"

text \<open>Only a caller whose wait has been resolved resumes.\<close>

fun pm_enabled :: "('d, 'u) pm_call \<Rightarrow> ('d, 'u) prompt_mgr \<Rightarrow> bool" where
  "pm_enabled (ResumePullBatch t) s \<longleftrightarrow> t \<in> set (ev_woken (batch_ready s))"
| "pm_enabled (ResumePullPrompts w c) s \<longleftrightarrow> (w, c) \<in> set (ev_woken (prompts_pending s))"
| "pm_enabled _ s \<longleftrightarrow> True"

inductive pm_step :: "('d, 'u) data_proto \<Rightarrow> ('d, 'u) prompt_mgr \<Rightarrow> ('d, 'u) pm_call \<Rightarrow> ('d, 'u) pm_out
    \<Rightarrow> ('d, 'u) prompt_mgr \<Rightarrow> bool" for dp where
  pm_step: "pm_enabled call s \<Longrightarrow> pm_exec dp call s = (s', out) \<Longrightarrow> pm_step dp s call out s'"

inductive_simps pm_step_simps: "pm_step dp s call out s'"

section \<open>Invariant\<close>

text \<open>Each prompt is in one place, and each event mirrors its queue.\<close>

definition pm_places :: "('d, 'u) prompt_mgr \<Rightarrow> bool" where
  "pm_places s \<longleftrightarrow> finite (ongoing_set s) \<and> distinct (ids (pending_queue s) @ ids (done_queue s)) \<and>
     ongoing_set s \<inter> set (ids (pending_queue s) @ ids (done_queue s)) = {}"

definition pm_events :: "('d, 'u) prompt_mgr \<Rightarrow> bool" where
  "pm_events s \<longleftrightarrow> ev_ok (batch_ready s) \<and> ev_ok (prompts_pending s) \<and>
     (ev_flag (prompts_pending s) \<longleftrightarrow> pending_queue s \<noteq> []) \<and>
     (ev_flag (batch_ready s) \<longleftrightarrow> int (length (done_queue s)) \<ge> pm_batch_size s)"

definition pm_inv :: "('d, 'u) prompt_mgr \<Rightarrow> bool" where
  "pm_inv s \<longleftrightarrow> 0 < pm_batch_size s \<and> 1 \<le> pm_n s \<and> pm_places s \<and> pm_events s"

text \<open>
  What the code relies on of a \<open>DataProto\<close>: \<open>chunk(k)\<close> needs a positive \<open>k\<close> (it computes
  \<open>len(self) % k\<close>) and returns \<open>k\<close> pieces, and \<open>repeat\<close> of a batch succeeds.
\<close>

definition dp_regular :: "('d, 'u) data_proto \<Rightarrow> bool" where
  "dp_regular dp \<longleftrightarrow>
     (\<forall>d k ds. dp_chunk dp d k = Ok ds \<longrightarrow> 0 < k \<and> length ds = k) \<and>
     (\<forall>d n. 1 \<le> n \<longrightarrow> (\<exists>d'. dp_repeat dp d n = Ok d'))"

lemmas pm_inv_defs = pm_inv_def pm_places_def pm_events_def

subsection \<open>Loops\<close>

lemma take_prompts_eq: "take_prompts c q = (take (nat c) q, drop (nat c) q)"
proof (induction c q rule: take_prompts.induct)
  case (2 c x q)
  have "nat c = Suc (nat (c - 1))" if "c > 0" using that by simp
  with 2 show ?case by auto
qed simp

lemma pop_left_eq: "pop_left k q = (drop k q, k \<le> length q)"
  by (induction k q rule: pop_left.induct) auto

lemma check_uids_fresh:
  "check_uids dp seen bs = Ok us \<Longrightarrow> length us = length bs \<and> distinct us \<and> set us \<inter> seen = {}"
proof (induction dp seen bs arbitrary: us rule: check_uids.induct)
  case (2 dp seen b bs)
  then obtain u r where u: "dp_uids dp b = u # r" "u \<notin> seen" by (auto split: list.splits if_splits)
  then obtain us' where "check_uids dp (insert u seen) bs = Ok us'" "us = u # us'" using 2(2) by auto
  with 2(1) [OF u] show ?case using u by auto
qed simp

lemma enqueue_rows_appends:
  "enqueue_rows dp n k bs gs us q = (q', e) \<Longrightarrow> \<exists>new. q' = q @ new \<and> (\<exists>j. ids new = take j us)"
proof (induction dp n k bs gs us q rule: enqueue_rows.induct)
  case (2 dp n k b bs g gs u us q)
  show ?case
  proof (cases "dp_repeat dp g n")
    case (Inl e')
    with 2(2) show ?thesis by (auto intro: exI [of _ 0])
  next
    case (Inr g')
    let ?p = "\<lparr>rp_batch = b, rp_gen = g', rp_id = u\<rparr>"
    from 2(2) Inr have "enqueue_rows dp n k bs gs us (q @ [?p]) = (q', e)" by simp
    from 2(1) [OF Inr this] obtain new j where "q' = q @ ?p # new" "ids new = take j us" by auto
    then have "q' = q @ (?p # new) \<and> ids (?p # new) = take (Suc j) (u # us)" by simp
    then show ?thesis by blast
  qed
qed (auto intro: exI [of _ 0])

lemma enqueue_rows_total:
  "(\<And>g. \<exists>g'. dp_repeat dp g n = Ok g') \<Longrightarrow> k \<le> length bs \<Longrightarrow> k \<le> length gs \<Longrightarrow> k \<le> length us \<Longrightarrow>
     \<exists>new. enqueue_rows dp n k bs gs us q = (q @ new, None) \<and> ids new = take k us"
proof (induction dp n k bs gs us q rule: enqueue_rows.induct)
  case (2 dp n k b bs g gs u us q)
  obtain g' where g: "dp_repeat dp g n = Ok g'" using 2(2) by blast
  have "\<exists>new. enqueue_rows dp n k bs gs us (q @ [\<lparr>rp_batch = b, rp_gen = g', rp_id = u\<rparr>]) =
      ((q @ [\<lparr>rp_batch = b, rp_gen = g', rp_id = u\<rparr>]) @ new, None) \<and> ids new = take k us"
    using 2 g by simp
  then show ?case using g by auto
qed auto

lemma check_returned_Ok:
  "check_returned ongoing seen ps = Ok () \<longleftrightarrow> distinct (ids ps) \<and> set (ids ps) \<subseteq> ongoing \<and> set (ids ps) \<inter> seen = {}"
  by (induction ongoing seen ps rule: check_returned.induct) auto

lemma move_to_done_eq:
  "distinct (ids ps) \<Longrightarrow> set (ids ps) \<subseteq> ongoing_set s \<Longrightarrow>
     move_to_done ps s = (s\<lparr>ongoing_set := ongoing_set s - set (ids ps), done_queue := done_queue s @ ps\<rparr>, None)"
proof (induction ps s rule: move_to_done.induct)
  case (2 p ps s)
  let ?s = "s\<lparr>ongoing_set := ongoing_set s - {rp_id p}, done_queue := done_queue s @ [p]\<rparr>"
  have "move_to_done ps ?s = (?s\<lparr>ongoing_set := ongoing_set ?s - set (ids ps), done_queue := done_queue ?s @ ps\<rparr>, None)"
    by (rule 2) (use 2 in \<open>auto simp: image_iff\<close>)
  moreover have "rp_id p \<in> ongoing_set s" using 2 by simp
  moreover have "ongoing_set s - {rp_id p} - set (ids ps) = ongoing_set s - set (ids (p # ps))" by auto
  ultimately show ?case by simp
qed simp

subsection \<open>Every operation\<close>

lemma push_batch_shape:
  assumes "push_batch dp b g s = (s', r)"
  shows "\<exists>new. s' = s\<lparr>pending_queue := pending_queue s @ new,
            prompts_pending := if isl r then prompts_pending s else ev_signal (prompts_pending s)\<rparr> \<and>
          distinct (ids new) \<and> set (ids new) \<inter> in_flight_ids s = {} \<and>
          (dp_regular dp \<and> 1 \<le> pm_n s \<longrightarrow> (if isl r then new = [] else length new = dp_rows dp b \<and> new \<noteq> []))"
proof -
  define num where "num = dp_rows dp b"
  define pre where "pre = bind_res (dp_chunk dp b num) (\<lambda>bl. bind_res (dp_chunk dp g num) (\<lambda>gl.
                bind_res (check_uids dp (in_flight_ids s) bl) (\<lambda>us. Ok (bl, gl, us))))"
  note pb = assms [unfolded push_batch_def Let_def, folded num_def, folded pre_def]
  consider "s' = s" "isl r" | bl gl us where "pre = Ok (bl, gl, us)" "length (dp_uids dp g) = num"
    using pb by (cases "length (dp_uids dp g) \<noteq> num"; cases pre) auto
  then show ?thesis
  proof cases
    case 1 then show ?thesis by (intro exI [of _ "[]"]) simp
  next
    case 2
    note eq = this
    then have ch: "dp_chunk dp b num = Ok bl" "dp_chunk dp g num = Ok gl"
      and us: "check_uids dp (in_flight_ids s) bl = Ok us" by (auto simp: pre_def)
    obtain q e where q: "enqueue_rows dp (pm_n s) num bl gl us (pending_queue s) = (q, e)"
      by (cases "enqueue_rows dp (pm_n s) num bl gl us (pending_queue s)")
    from enqueue_rows_appends [OF q] obtain new j where new: "q = pending_queue s @ new" "ids new = take j us" by blast
    have fresh: "distinct (ids new)" "set (ids new) \<inter> in_flight_ids s = {}"
      using check_uids_fresh [OF us] new(2) set_take_subset [of j us] by auto
    have reg: "e = None \<and> length new = num \<and> 0 < num" if "dp_regular dp" "1 \<le> pm_n s"
    proof -
      have l: "0 < num" "length bl = num" "length gl = num" using ch that by (auto simp: dp_regular_def)
      have "\<exists>new. enqueue_rows dp (pm_n s) num bl gl us (pending_queue s) = (pending_queue s @ new, None) \<and>
          ids new = take num us"
        by (rule enqueue_rows_total) (use that l check_uids_fresh [OF us] in \<open>auto simp: dp_regular_def\<close>)
      then obtain new' where n': "enqueue_rows dp (pm_n s) num bl gl us (pending_queue s) = (pending_queue s @ new', None)"
        "ids new' = take num us" by blast
      have "new' = new" "e = None" using n'(1) q new(1) by auto
      moreover have "length new' = num" using arg_cong [OF n'(2), of length] check_uids_fresh [OF us] l by simp
      ultimately show ?thesis using l by simp
    qed
    have "(s', r) = (case e of Some e' \<Rightarrow> (s\<lparr>pending_queue := q\<rparr>, Err e')
       | None \<Rightarrow> let t = s\<lparr>pending_queue := q, prompts_pending := ev_signal (prompts_pending s)\<rparr>
                  in (t, Ok (in_flight t < prefetch_factor * pm_batch_size t)))"
      using pb eq q by (cases e) (auto simp: Let_def)
    then have "s' = s\<lparr>pending_queue := pending_queue s @ new,
            prompts_pending := if isl r then prompts_pending s else ev_signal (prompts_pending s)\<rparr> \<and> (isl r \<longleftrightarrow> e \<noteq> None)"
      using new(1) by (cases e) (auto simp: Let_def)
    then show ?thesis using fresh reg by (intro exI [of _ new]) (auto simp: num_def)
  qed
qed

lemma push_batch_inv:
  assumes "pm_inv s" "dp_regular dp" "push_batch dp b g s = (s', r)"
  shows "pm_inv s'"
proof -
  from push_batch_shape [OF assms(3)] assms(1,2) obtain new where
    n: "s' = s\<lparr>pending_queue := pending_queue s @ new,
            prompts_pending := if isl r then prompts_pending s else ev_signal (prompts_pending s)\<rparr>"
    "distinct (ids new)" "set (ids new) \<inter> in_flight_ids s = {}" "isl r \<longleftrightarrow> new = []"
    by (auto simp: pm_inv_def split: if_splits)
  then show ?thesis using assms(1) by (auto simp: pm_inv_defs in_flight_ids_def)
qed

lemma pull_batch_body_cases:
  assumes "pull_batch_body dp s = (s', r)" "0 < pm_batch_size s"
  obtains (failed) e where "s' = s" "r = Err e"
    | (short) e where "s' = s\<lparr>done_queue := []\<rparr>" "r = Err e" "int (length (done_queue s)) < pm_batch_size s"
    | (taken) d where "r = Ok d" "pm_batch_size s \<le> int (length (done_queue s))"
        "assemble_batch dp (pm_n s) (take (nat (pm_batch_size s)) (done_queue s)) = Ok d"
        "s' = s\<lparr>done_queue := drop (nat (pm_batch_size s)) (done_queue s),
           batch_ready := if int (length (done_queue s)) < 2 * pm_batch_size s
             then ev_clear (batch_ready s) else batch_ready s\<rparr>"
proof (cases "assemble_batch dp (pm_n s) (take (nat (pm_batch_size s)) (done_queue s))")
  case (Inl e)
  then show ?thesis using assms failed [of e] by (simp add: pull_batch_body_def)
next
  case (Inr d)
  show ?thesis
  proof (cases "nat (pm_batch_size s) \<le> length (done_queue s)")
    case True
    let ?q = "drop (nat (pm_batch_size s)) (done_queue s)"
    have "int (length ?q) < pm_batch_size s \<longleftrightarrow> int (length (done_queue s)) < 2 * pm_batch_size s"
      using True assms(2) by (simp add: of_nat_diff)
    then show ?thesis using assms Inr True taken [of d]
      by (cases s) (auto simp add: pull_batch_body_def Let_def pop_left_eq split: if_splits)
  next
    case False
    then show ?thesis using assms Inr short [of "IndexError ''pop from an empty deque''"]
      by (simp add: pull_batch_body_def Let_def pop_left_eq)
  qed
qed

lemma distinct_drop_append: "distinct (xs @ ys) \<Longrightarrow> distinct (xs @ drop k ys)"
  by (auto dest: in_set_dropD)

lemma pull_batch_inv:
  assumes "pm_inv s" "pull_batch_body dp s = (s', r)"
  shows "pm_inv s'"
proof -
  have b: "0 < pm_batch_size s" using assms(1) by (simp add: pm_inv_def)
  show ?thesis
    using assms(2) b
  proof (cases rule: pull_batch_body_cases)
    case (taken d)
    have "distinct (ids (drop k (done_queue s)))" "set (ids (drop k (done_queue s))) \<subseteq> set (ids (done_queue s))" for k
      using assms(1) by (auto simp: pm_inv_defs drop_map [symmetric] dest: in_set_dropD)
    then show ?thesis using taken assms(1) b by (auto simp: pm_inv_defs dest!: in_set_dropD)
  qed (use assms(1) in \<open>auto simp: pm_inv_defs\<close>)
qed

lemma pull_prompts_inv:
  assumes "pm_inv s" "pull_prompts_body c s = (s', r)"
  shows "pm_inv s' \<and> r = Ok (take (nat c) (pending_queue s)) \<and>
    pending_queue s' = drop (nat c) (pending_queue s) \<and> done_queue s' = done_queue s \<and>
    ongoing_set s' = ongoing_set s \<union> set (ids (take (nat c) (pending_queue s))) \<and>
    batch_ready s' = batch_ready s \<and> pm_batch_size s' = pm_batch_size s"
proof -
  let ?t = "take (nat c) (pending_queue s)" and ?l = "drop (nat c) (pending_queue s)"
  have no: "\<not> (\<exists>p \<in> set (pending_queue s). rp_id p \<in> ongoing_set s)"
    using assms(1) by (auto simp: pm_inv_defs)
  have s': "s' = s\<lparr>pending_queue := ?l, ongoing_set := ongoing_set s \<union> set (ids ?t),
      prompts_pending := if ?l = [] then ev_clear (prompts_pending s) else prompts_pending s\<rparr>" and r: "r = Ok ?t"
    using assms(2) no by (auto simp: pull_prompts_body_def take_prompts_eq Let_def split: if_splits)
  have split: "ids (pending_queue s) = ids ?t @ ids ?l" by (simp flip: map_append)
  have d: "distinct (ids ?t @ ids ?l @ ids (done_queue s))"
    using assms(1) unfolding pm_inv_defs split by simp
  have o: "ongoing_set s \<inter> set (ids ?t @ ids ?l @ ids (done_queue s)) = {}"
    using assms(1) unfolding pm_inv_defs split by simp
  have "pm_places s'" using d o assms(1) unfolding s' pm_inv_defs by auto
  moreover have "pm_events s'"
    using assms(1) unfolding s' pm_inv_defs by auto
  ultimately show ?thesis using assms(1) r unfolding s' by (simp add: pm_inv_def)
qed

lemma push_prompts_cases:
  assumes "push_prompts ps s = (s', r)"
  shows "(s' = s \<and> isl r) \<or>
    (r = Ok () \<and> distinct (ids ps) \<and> set (ids ps) \<subseteq> ongoing_set s \<and>
     s' = maybe_signal_batch_ready (s\<lparr>ongoing_set := ongoing_set s - set (ids ps), done_queue := done_queue s @ ps\<rparr>))"
proof (cases "check_returned (ongoing_set s) {} ps")
  case (Inl e)
  then have "push_prompts ps s = (s, Err e)" by (simp add: push_prompts_def)
  with assms show ?thesis by auto
next
  case (Inr u)
  then have c: "check_returned (ongoing_set s) {} ps = Ok ()" by simp
  then have "distinct (ids ps)" "set (ids ps) \<subseteq> ongoing_set s" by (auto simp: check_returned_Ok)
  then show ?thesis using assms c by (simp add: push_prompts_def move_to_done_eq)
qed

lemma maybe_signal_simps [simp]:
  "pm_batch_size (maybe_signal_batch_ready s) = pm_batch_size s"
  "pm_n (maybe_signal_batch_ready s) = pm_n s"
  "ongoing_set (maybe_signal_batch_ready s) = ongoing_set s"
  "pending_queue (maybe_signal_batch_ready s) = pending_queue s"
  "done_queue (maybe_signal_batch_ready s) = done_queue s"
  "prompts_pending (maybe_signal_batch_ready s) = prompts_pending s"
  "batch_ready (maybe_signal_batch_ready s) =
     (if int (length (done_queue s)) \<ge> pm_batch_size s then ev_signal (batch_ready s) else batch_ready s)"
  by (simp_all add: maybe_signal_batch_ready_def)

lemma push_prompts_inv:
  assumes "pm_inv s" "push_prompts ps s = (s', r)"
  shows "pm_inv s'"
  using push_prompts_cases [OF assms(2)]
proof
  assume "r = Ok () \<and> distinct (ids ps) \<and> set (ids ps) \<subseteq> ongoing_set s \<and>
     s' = maybe_signal_batch_ready (s\<lparr>ongoing_set := ongoing_set s - set (ids ps), done_queue := done_queue s @ ps\<rparr>)"
  then have d: "distinct (ids ps)" "set (ids ps) \<subseteq> ongoing_set s"
    and s': "s' = maybe_signal_batch_ready (s\<lparr>ongoing_set := ongoing_set s - set (ids ps), done_queue := done_queue s @ ps\<rparr>)"
    by simp_all
  have p: "finite (ongoing_set s)" "distinct (ids (pending_queue s) @ ids (done_queue s))"
    "ongoing_set s \<inter> set (ids (pending_queue s) @ ids (done_queue s)) = {}"
    using assms(1) by (simp_all add: pm_inv_defs)
  have "set (ids ps) \<inter> set (ids (pending_queue s) @ ids (done_queue s)) = {}" using d(2) p(3) by blast
  then have "pm_places s'" using p d(1) unfolding s' pm_places_def by auto
  moreover have "pm_events s'" using assms(1) unfolding s' pm_inv_def pm_events_def by auto
  ultimately show ?thesis using assms(1) unfolding s' by (simp add: pm_inv_def)
qed (use assms(1) in simp)

lemma pm_inv_event_simps [simp]:
  "pm_inv s \<Longrightarrow> pm_inv (s\<lparr>batch_ready := ev_leave t (batch_ready s)\<rparr>)"
  "pm_inv s \<Longrightarrow> pm_inv (s\<lparr>prompts_pending := ev_leave p (prompts_pending s)\<rparr>)"
  "pm_inv s \<Longrightarrow> \<not> ev_flag (batch_ready s) \<Longrightarrow> pm_inv (s\<lparr>batch_ready := ev_enter t (batch_ready s)\<rparr>)"
  "pm_inv s \<Longrightarrow> \<not> ev_flag (prompts_pending s) \<Longrightarrow> pm_inv (s\<lparr>prompts_pending := ev_enter p (prompts_pending s)\<rparr>)"
  by (auto simp add: pm_inv_defs)

lemma await_prompts_inv:
  assumes "pm_inv s" "await_prompts w c s = (s', out)"
  shows "pm_inv s' \<and> out \<noteq> Spins"
proof (cases "pending_queue s = []")
  case True
  then have "\<not> ev_flag (prompts_pending s)" using assms(1) by (simp add: pm_inv_defs)
  then show ?thesis using True assms by (auto simp: await_prompts_def)
next
  case False
  obtain t r where b: "pull_prompts_body c s = (t, r)" by (cases "pull_prompts_body c s")
  then show ?thesis using False assms pull_prompts_inv [OF assms(1) b] by (auto simp: await_prompts_def out_of_def)
qed

lemma pm_exec_inv:
  assumes "pm_inv s" "dp_regular dp" "pm_exec dp call s = (s', out)"
  shows "pm_inv s' \<and> out \<noteq> Spins"
proof (cases call)
  case (PushBatch b g)
  then show ?thesis using assms push_batch_inv [OF assms(1,2)]
    by (cases "push_batch dp b g s") (auto simp: out_of_def split: sum.splits)
next
  case (PullBatch t)
  then show ?thesis using assms pull_batch_inv [OF assms(1)]
    by (cases "pull_batch_body dp s") (auto simp: out_of_def split: sum.splits if_splits)
next
  case (ResumePullBatch t)
  have i: "pm_inv (s\<lparr>batch_ready := ev_leave t (batch_ready s)\<rparr>)" using assms(1) by simp
  show ?thesis using assms ResumePullBatch pull_batch_inv [OF i]
    by (cases "pull_batch_body dp (s\<lparr>batch_ready := ev_leave t (batch_ready s)\<rparr>)") (auto simp: out_of_def split: sum.splits)
next
  case (PullPrompts w c)
  then show ?thesis using assms await_prompts_inv [OF assms(1)] by simp
next
  case (ResumePullPrompts w c)
  have i: "pm_inv (s\<lparr>prompts_pending := ev_leave (w, c) (prompts_pending s)\<rparr>)" using assms(1) by simp
  show ?thesis using assms ResumePullPrompts await_prompts_inv [OF i] by simp
next
  case (PushPrompts ps)
  then show ?thesis using assms push_prompts_inv [OF assms(1)]
    by (cases "push_prompts ps s") (auto simp: out_of_def split: sum.splits)
qed

lemma pm_init_inv: "pm_init gb tb n = Ok s \<Longrightarrow> pm_inv s"
  by (auto simp: pm_init_def Let_def pm_inv_defs split: if_splits)

section \<open>Runs\<close>

text \<open>The two events of the actor are instances of the event contract.\<close>

interpretation prompts_event: guarded_event pm_inv "\<lambda>s. pending_queue s \<noteq> []" prompts_pending
  by unfold_locales (simp_all add: pm_inv_def pm_events_def)

interpretation batch_event: guarded_event pm_inv "\<lambda>s. int (length (done_queue s)) \<ge> pm_batch_size s" batch_ready
  by unfold_locales (simp_all add: pm_inv_def pm_events_def)

text \<open>
  A run with the order of the prompts through it: pushed by the trainer, pulled by workers, finished,
  delivered in batches. The guard restricts the calls that are considered.
\<close>

record 'u pm_log =
  lg_pushed :: "'u list"
  lg_pulled :: "'u list"
  lg_finished :: "'u list"
  lg_delivered :: "'u list list"

definition no_log :: "'u pm_log" where
  "no_log = \<lparr>lg_pushed = [], lg_pulled = [], lg_finished = [], lg_delivered = []\<rparr>"

definition log_step :: "('d, 'u) prompt_mgr \<Rightarrow> ('d, 'u) pm_call \<Rightarrow> ('d, 'u) pm_out \<Rightarrow> ('d, 'u) prompt_mgr
    \<Rightarrow> 'u pm_log \<Rightarrow> 'u pm_log" where
  "log_step s call out s' l = l
     \<lparr>lg_pushed := lg_pushed l @ (case call of PushBatch _ _ \<Rightarrow> ids (drop (length (pending_queue s)) (pending_queue s')) | _ \<Rightarrow> []),
      lg_pulled := lg_pulled l @ (case out of Prompts ps \<Rightarrow> ids ps | _ \<Rightarrow> []),
      lg_finished := lg_finished l @ (case (call, out) of (PushPrompts ps, Stored) \<Rightarrow> ids ps | _ \<Rightarrow> []),
      lg_delivered := lg_delivered l @ (case out of Batch _ \<Rightarrow> [ids (take (nat (pm_batch_size s)) (done_queue s))] | _ \<Rightarrow> [])\<rparr>"

inductive pm_run :: "('d, 'u) data_proto \<Rightarrow> (('d, 'u) pm_call \<Rightarrow> ('d, 'u) prompt_mgr \<Rightarrow> bool) \<Rightarrow> ('d, 'u) prompt_mgr
    \<Rightarrow> 'u pm_log \<Rightarrow> ('d, 'u) prompt_mgr \<Rightarrow> bool" for dp P s0 where
  run_start: "pm_run dp P s0 no_log s0"
| run_step: "pm_run dp P s0 l s \<Longrightarrow> P call s \<Longrightarrow> pm_step dp s call out s' \<Longrightarrow>
     pm_run dp P s0 (log_step s call out s' l) s'"

text \<open>One trainer: it calls \<open>pull_batch\<close> only when its previous call has returned.\<close>

fun one_trainer :: "('d, 'u) pm_call \<Rightarrow> ('d, 'u) prompt_mgr \<Rightarrow> bool" where
  "one_trainer (PullBatch t) s \<longleftrightarrow> ev_blocked (batch_ready s) = [] \<and> ev_woken (batch_ready s) = []"
| "one_trainer _ s \<longleftrightarrow> True"

lemma pm_run_inv: "pm_run dp P s0 l s \<Longrightarrow> pm_inv s0 \<Longrightarrow> dp_regular dp \<Longrightarrow> pm_inv s"
proof (induction rule: pm_run.induct)
  case (run_step l s call out s')
  then have "pm_inv s" "pm_exec dp call s = (s', out)" by (auto simp: pm_step_simps)
  with run_step.prems show ?case using pm_exec_inv by blast
qed

text \<open>With one trainer, a resolved wait for a batch finds one.\<close>

definition solo :: "('d, 'u) prompt_mgr \<Rightarrow> bool" where
  "solo s \<longleftrightarrow> length (ev_blocked (batch_ready s)) + length (ev_woken (batch_ready s)) \<le> 1 \<and>
     (ev_woken (batch_ready s) \<noteq> [] \<longrightarrow> ev_flag (batch_ready s))"

lemma solo_leave: "solo s \<Longrightarrow> t \<in> set (ev_woken (batch_ready s)) \<Longrightarrow>
    ev_woken (ev_leave t (batch_ready s)) = [] \<and> ev_blocked (batch_ready s) = [] \<and> ev_flag (batch_ready s)"
  by (cases "ev_woken (batch_ready s)") (auto simp: solo_def)

lemma solo_signal: "solo s \<Longrightarrow> ev_ok (batch_ready s) \<Longrightarrow>
    solo (s\<lparr>batch_ready := ev_signal (batch_ready s)\<rparr>)"
  by (auto simp: solo_def)

text \<open>How each kind of call changes the queues when it is the only trainer's.\<close>

definition queues_step :: "('d, 'u) prompt_mgr \<Rightarrow> ('d, 'u) pm_call \<Rightarrow> ('d, 'u) pm_out \<Rightarrow> ('d, 'u) prompt_mgr \<Rightarrow> bool" where
  "queues_step s call out s' \<longleftrightarrow> pm_batch_size s' = pm_batch_size s \<and>
     (let pulled = (case out of Prompts ps \<Rightarrow> ps | _ \<Rightarrow> []);
          finished = (case (call, out) of (PushPrompts ps, Stored) \<Rightarrow> ps | _ \<Rightarrow> []);
          delivered = (case out of Batch _ \<Rightarrow> take (nat (pm_batch_size s)) (done_queue s) | _ \<Rightarrow> []);
          pushed = (case call of PushBatch _ _ \<Rightarrow> drop (length (pending_queue s)) (pending_queue s') | _ \<Rightarrow> [])
      in pending_queue s @ pushed = pulled @ pending_queue s' \<and>
         done_queue s @ finished = delivered @ done_queue s' \<and>
         mset_set (ongoing_set s) + mset (ids pulled) = mset (ids finished) + mset_set (ongoing_set s') \<and>
         (\<forall>r. out = Batch r \<longrightarrow> pm_batch_size s \<le> int (length (done_queue s))))"

lemma mset_set_union_disjoint: "finite A \<Longrightarrow> distinct xs \<Longrightarrow> A \<inter> set xs = {} \<Longrightarrow>
    mset_set (A \<union> set xs) = mset_set A + mset xs"
  by (simp add: mset_set_Union mset_set_set)

lemma mset_set_minus: "finite A \<Longrightarrow> distinct xs \<Longrightarrow> set xs \<subseteq> A \<Longrightarrow> mset_set A = mset xs + mset_set (A - set xs)"
proof -
  assume a: "finite A" "distinct xs" "set xs \<subseteq> A"
  have "mset_set A = mset_set ((A - set xs) \<union> set xs)" using a(3) by (simp add: Un_absorb2)
  also have "\<dots> = mset_set (A - set xs) + mset xs" by (rule mset_set_union_disjoint) (use a in auto)
  finally show ?thesis by (simp add: add.commute)
qed

lemma push_batch_queues:
  assumes "push_batch dp b g s = (s', r)"
  shows "queues_step s (PushBatch b g) (case r of Inl e \<Rightarrow> Fails e | Inr x \<Rightarrow> WantsMore x) s' \<and> batch_ready s' = batch_ready s"
proof -
  from push_batch_shape [OF assms] obtain new where
    "s' = s\<lparr>pending_queue := pending_queue s @ new, prompts_pending := if isl r then prompts_pending s else ev_signal (prompts_pending s)\<rparr>"
    by blast
  then show ?thesis by (cases r) (simp_all add: queues_step_def)
qed

lemma pull_prompts_queues:
  assumes "pm_inv s" "pull_prompts_body c s = (s', r)"
  shows "queues_step s call (case r of Inl e \<Rightarrow> Fails e | Inr ps \<Rightarrow> Prompts ps) s' \<or> (\<exists>b g. call = PushBatch b g)"
proof -
  let ?t = "take (nat c) (pending_queue s)"
  have p: "finite (ongoing_set s)" "distinct (ids ?t)" "ongoing_set s \<inter> set (ids ?t) = {}"
  proof -
    have q: "finite (ongoing_set s)" "distinct (ids (pending_queue s))" "ongoing_set s \<inter> set (ids (pending_queue s)) = {}"
      using assms(1) by (auto simp: pm_inv_defs)
    show "finite (ongoing_set s)" by (rule q)
    show "distinct (ids ?t)" using q(2) by (simp flip: take_map)
    have "set (ids ?t) \<subseteq> set (ids (pending_queue s))" by (auto dest: in_set_takeD)
    then show "ongoing_set s \<inter> set (ids ?t) = {}" using q(3) by blast
  qed
  show ?thesis using pull_prompts_inv [OF assms] mset_set_union_disjoint [OF p]
    by (cases call) (simp_all add: queues_step_def Let_def)
qed

lemma queues_step_idle:
  assumes "pending_queue s' = pending_queue s" "done_queue s' = done_queue s" "ongoing_set s' = ongoing_set s"
    "pm_batch_size s' = pm_batch_size s" "out = Blocks \<or> out = Spins \<or> (\<exists>e. out = Fails e)"
  shows "queues_step s call out s'"
  using assms by (cases call) (auto simp: queues_step_def)

lemma pull_batch_queues:
  assumes "pm_inv s" "ev_flag (batch_ready s)" "pull_batch_body dp s = (s', r)" "\<nexists>b g. call = PushBatch b g"
  shows "queues_step s call (case r of Inl e \<Rightarrow> Fails e | Inr d \<Rightarrow> Batch d) s' \<and>
    ev_woken (batch_ready s') = ev_woken (batch_ready s) \<and> ev_blocked (batch_ready s') = ev_blocked (batch_ready s)"
proof -
  have b: "0 < pm_batch_size s" and f: "int (length (done_queue s)) \<ge> pm_batch_size s"
    using assms(1,2) by (simp_all add: pm_inv_defs)
  show ?thesis
    using assms(3) b
  proof (cases rule: pull_batch_body_cases)
    case (taken d)
    then show ?thesis using assms(4) by (cases call) (simp_all add: queues_step_def)
  qed (use f in \<open>simp_all add: queues_step_idle\<close>)
qed

lemma queues_step_cong:
  assumes "queues_step t call out s'" "pending_queue t = pending_queue s" "done_queue t = done_queue s"
    "ongoing_set t = ongoing_set s" "pm_batch_size t = pm_batch_size s"
  shows "queues_step s call out s'"
  using assms by (simp add: queues_step_def cong: pm_call.case_cong pm_out.case_cong)

lemma await_prompts_queues:
  assumes "pm_inv s" "await_prompts w c s = (s', out)" "\<nexists>b g. call = PushBatch b g"
  shows "queues_step s call out s' \<and> batch_ready s' = batch_ready s"
proof (cases "pending_queue s = []")
  case True
  then show ?thesis using assms(2) by (auto simp: await_prompts_def intro: queues_step_idle split: if_splits)
next
  case False
  obtain t r where b: "pull_prompts_body c s = (t, r)" by (cases "pull_prompts_body c s")
  have q: "queues_step s call (case r of Inl e \<Rightarrow> Fails e | Inr ps \<Rightarrow> Prompts ps) t"
    using pull_prompts_queues [OF assms(1) b, of call] assms(3) by blast
  have "s' = t" "out = (case r of Inl e \<Rightarrow> Fails e | Inr ps \<Rightarrow> Prompts ps)"
    using False assms(2) b by (auto simp: await_prompts_def out_of_def)
  then show ?thesis using q pull_prompts_inv [OF assms(1) b] by simp
qed

lemma push_prompts_queues:
  assumes "pm_inv s" "push_prompts ps s = (s', r)"
  shows "queues_step s (PushPrompts ps) (case r of Inl e \<Rightarrow> Fails e | Inr _ \<Rightarrow> Stored) s'"
  using push_prompts_cases [OF assms(2)]
proof
  assume "s' = s \<and> isl r"
  then show ?thesis by (cases r) (auto intro: queues_step_idle)
next
  assume a: "r = Ok () \<and> distinct (ids ps) \<and> set (ids ps) \<subseteq> ongoing_set s \<and>
     s' = maybe_signal_batch_ready (s\<lparr>ongoing_set := ongoing_set s - set (ids ps), done_queue := done_queue s @ ps\<rparr>)"
  have "mset_set (ongoing_set s) = mset (ids ps) + mset_set (ongoing_set s - set (ids ps))"
    by (rule mset_set_minus) (use a assms(1) in \<open>auto simp: pm_inv_defs\<close>)
  then show ?thesis using a by (simp add: queues_step_def)
qed

lemma pm_exec_queues:
  assumes inv: "pm_inv s" and so: "solo s" "one_trainer call s" and en: "pm_enabled call s"
    and ex: "pm_exec dp call s = (s', out)"
  shows "queues_step s call out s' \<and> solo s'"
proof (cases call)
  case (PushBatch b g)
  obtain t r where p: "push_batch dp b g s = (t, r)" by (cases "push_batch dp b g s")
  have "s' = t" "out = (case r of Inl e \<Rightarrow> Fails e | Inr x \<Rightarrow> WantsMore x)" using ex p PushBatch by (simp_all add: out_of_def)
  then show ?thesis using push_batch_queues [OF p] so PushBatch by (simp add: solo_def)
next
  case (PullBatch t)
  then have no: "ev_blocked (batch_ready s) = []" "ev_woken (batch_ready s) = []" using so(2) by simp_all
  show ?thesis
  proof (cases "ev_flag (batch_ready s)")
    case True
    obtain u r where p: "pull_batch_body dp s = (u, r)" by (cases "pull_batch_body dp s")
    have "s' = u" "out = (case r of Inl e \<Rightarrow> Fails e | Inr x \<Rightarrow> Batch x)" using ex p PullBatch True by (simp_all add: out_of_def)
    then show ?thesis using pull_batch_queues [OF inv True p, of call] PullBatch no by (simp add: solo_def)
  next
    case False
    then show ?thesis using ex PullBatch no by (auto simp: solo_def intro: queues_step_idle)
  qed
next
  case (ResumePullBatch t)
  let ?s = "s\<lparr>batch_ready := ev_leave t (batch_ready s)\<rparr>"
  have w: "ev_woken (ev_leave t (batch_ready s)) = []" "ev_blocked (batch_ready s) = []" "ev_flag (batch_ready s)"
    using solo_leave [OF so(1)] en ResumePullBatch by auto
  have i: "pm_inv ?s" using inv by simp
  obtain u r where p: "pull_batch_body dp ?s = (u, r)" by (cases "pull_batch_body dp ?s")
  have o: "s' = u" "out = (case r of Inl e \<Rightarrow> Fails e | Inr x \<Rightarrow> Batch x)" using ex p ResumePullBatch by (simp_all add: out_of_def)
  have q: "queues_step ?s call out s' \<and> ev_woken (batch_ready s') = [] \<and> ev_blocked (batch_ready s') = []"
    using pull_batch_queues [OF i _ p, of call] w o ResumePullBatch by simp
  have "queues_step s call out s'" by (rule queues_step_cong [of ?s]) (use q in simp_all)
  then show ?thesis using q by (simp add: solo_def)
next
  case (PullPrompts w c)
  then show ?thesis using await_prompts_queues [OF inv, of w c s' out call] ex so by (simp add: solo_def)
next
  case (ResumePullPrompts w c)
  let ?s = "s\<lparr>prompts_pending := ev_leave (w, c) (prompts_pending s)\<rparr>"
  have i: "pm_inv ?s" using inv by simp
  have q: "queues_step ?s call out s' \<and> batch_ready s' = batch_ready s"
    using await_prompts_queues [OF i, of w c s' out call] ex ResumePullPrompts by simp
  have "queues_step s call out s'" by (rule queues_step_cong [of ?s]) (use q in simp_all)
  then show ?thesis using q so by (simp add: solo_def)
next
  case (PushPrompts ps)
  obtain t r where p: "push_prompts ps s = (t, r)" by (cases "push_prompts ps s")
  have o: "s' = t" "out = (case r of Inl e \<Rightarrow> Fails e | Inr x \<Rightarrow> Stored)" using ex p PushPrompts by (simp_all add: out_of_def)
  have "batch_ready t = batch_ready s \<or> batch_ready t = ev_signal (batch_ready s)"
    using push_prompts_cases [OF p] by auto
  moreover have "ev_ok (batch_ready s)" using inv by (simp add: pm_inv_defs)
  ultimately have "solo t" using so(1) by (auto simp: solo_def)
  then show ?thesis using push_prompts_queues [OF inv p] o PushPrompts by simp
qed

text \<open>The order of the prompts, over whole runs.\<close>

definition log_ok :: "('d, 'u) prompt_mgr \<Rightarrow> 'u pm_log \<Rightarrow> bool" where
  "log_ok s l \<longleftrightarrow> lg_pushed l = lg_pulled l @ ids (pending_queue s) \<and>
     lg_finished l = concat (lg_delivered l) @ ids (done_queue s) \<and>
     mset (lg_pulled l) = mset (lg_finished l) + mset_set (ongoing_set s) \<and>
     (\<forall>b \<in> set (lg_delivered l). int (length b) = pm_batch_size s)"

lemma log_ok_step:
  assumes "log_ok s l" "queues_step s call out s'" "0 < pm_batch_size s"
  shows "log_ok s' (log_step s call out s' l)"
proof -
  let ?pulled = "case out of Prompts ps \<Rightarrow> ps | _ \<Rightarrow> []"
  let ?finished = "case (call, out) of (PushPrompts ps, Stored) \<Rightarrow> ps | _ \<Rightarrow> []"
  let ?delivered = "case out of Batch _ \<Rightarrow> take (nat (pm_batch_size s)) (done_queue s) | _ \<Rightarrow> []"
  let ?pushed = "case call of PushBatch _ _ \<Rightarrow> drop (length (pending_queue s)) (pending_queue s') | _ \<Rightarrow> []"
  have q: "pm_batch_size s' = pm_batch_size s" "ids (pending_queue s @ ?pushed) = ids (?pulled @ pending_queue s')"
    "ids (done_queue s @ ?finished) = ids (?delivered @ done_queue s')"
    "mset_set (ongoing_set s) + mset (ids ?pulled) = mset (ids ?finished) + mset_set (ongoing_set s')"
    "\<forall>r. out = Batch r \<longrightarrow> pm_batch_size s \<le> int (length (done_queue s))"
    using assms(2) unfolding queues_step_def Let_def by simp_all
  have l: "lg_pushed (log_step s call out s' l) = lg_pushed l @ ids ?pushed"
    "lg_pulled (log_step s call out s' l) = lg_pulled l @ ids ?pulled"
    "lg_finished (log_step s call out s' l) = lg_finished l @ ids ?finished"
    "concat (lg_delivered (log_step s call out s' l)) = concat (lg_delivered l) @ ids ?delivered"
    by (simp_all add: log_step_def split: pm_call.splits pm_out.splits)
  have "\<forall>b \<in> set (lg_delivered (log_step s call out s' l)). int (length b) = pm_batch_size s"
    using assms(1,3) q(5) by (cases out) (auto simp: log_step_def log_ok_def)
  moreover have "lg_pushed (log_step s call out s' l) = lg_pulled (log_step s call out s' l) @ ids (pending_queue s')"
    using assms(1) q(2) unfolding l by (simp add: log_ok_def)
  moreover have "lg_finished (log_step s call out s' l) = concat (lg_delivered (log_step s call out s' l)) @ ids (done_queue s')"
    using assms(1) q(3) unfolding l by (simp add: log_ok_def)
  moreover have "mset (lg_pulled (log_step s call out s' l)) = mset (lg_finished (log_step s call out s' l)) + mset_set (ongoing_set s')"
    using assms(1) q(4) unfolding l by (simp add: log_ok_def ac_simps)
  ultimately show ?thesis using q(1) by (simp add: log_ok_def)
qed

lemma pm_run_log:
  assumes "pm_run dp one_trainer s0 l s" "pm_init gb tb n = Ok s0" "dp_regular dp"
  shows "pm_inv s \<and> solo s \<and> log_ok s l"
  using assms
proof (induction rule: pm_run.induct)
  case run_start
  then have "pending_queue s0 = []" "done_queue s0 = []" "ongoing_set s0 = {}" "batch_ready s0 = ev_init"
    by (auto simp: pm_init_def Let_def split: if_splits)
  then show ?case using pm_init_inv [OF run_start(1)] by (simp add: solo_def log_ok_def no_log_def)
next
  case (run_step l s call out s')
  then have s: "pm_inv s" "solo s" "log_ok s l" by simp_all
  have e: "pm_enabled call s" "pm_exec dp call s = (s', out)" using run_step(3) by (auto simp: pm_step_simps)
  have q: "queues_step s call out s' \<and> solo s'" by (rule pm_exec_queues [OF s(1,2) run_step(2) e])
  have "0 < pm_batch_size s" using s(1) by (simp add: pm_inv_def)
  then show ?case using pm_exec_inv [OF s(1) run_step.prems(2) e(2)] q log_ok_step [OF s(3)] by blast
qed

end
