(* ===== verification/RolloutFeed.thy ===== *)
theory RolloutFeed
  imports PromptManager
begin

text \<open>
  The clients of the prompt manager: the workers' moves, and the trainer's loop of
  \<open>partial_rollout/ray_trainer.py\<close> that feeds prompts until the manager wants no more and then pulls a
  batch. The data loader is the list of the (batch, generation batch) pairs it yields.
\<close>

section \<open>Worker moves\<close>

text \<open>A worker takes at least one prompt, or returns at least one of the prompts that are out.\<close>

inductive worker_step :: "('d, 'u) data_proto \<Rightarrow> ('d, 'u) prompt_mgr \<Rightarrow> ('d, 'u) prompt_mgr \<Rightarrow> bool" for dp where
  worker_pulls: "pm_exec dp (PullPrompts w c) s = (s', Prompts ps) \<Longrightarrow> ps \<noteq> [] \<Longrightarrow> worker_step dp s s'"
| worker_pushes: "pm_exec dp (PushPrompts ps) s = (s', Stored) \<Longrightarrow> ps \<noteq> [] \<Longrightarrow> worker_step dp s s'"

definition work_left :: "('d, 'u) prompt_mgr \<Rightarrow> nat" where
  "work_left s = 2 * length (pending_queue s) + card (ongoing_set s)"

lemma worker_step_queues:
  assumes "pm_inv s" "worker_step dp s s'"
  obtains (pulls) c where "0 < nat c" "pending_queue s \<noteq> []" "pending_queue s' = drop (nat c) (pending_queue s)"
      "done_queue s' = done_queue s" "ongoing_set s' = ongoing_set s \<union> set (ids (take (nat c) (pending_queue s)))"
      "pm_batch_size s' = pm_batch_size s" "pm_inv s'"
    | (pushes) ps where "ps \<noteq> []" "distinct (ids ps)" "set (ids ps) \<subseteq> ongoing_set s" "pending_queue s' = pending_queue s"
      "done_queue s' = done_queue s @ ps" "ongoing_set s' = ongoing_set s - set (ids ps)"
      "pm_batch_size s' = pm_batch_size s" "pm_inv s'"
  using assms(2)
proof cases
  case (worker_pulls w c ps)
  then have ne: "pending_queue s \<noteq> []" by (auto simp: await_prompts_def split: if_splits)
  obtain t r where b: "pull_prompts_body c s = (t, r)" by (cases "pull_prompts_body c s")
  from pull_prompts_inv [OF assms(1) b] ne worker_pulls b
  have "t = s'" "ps = take (nat c) (pending_queue s)" by (auto simp: await_prompts_def out_of_def)
  then show ?thesis using pull_prompts_inv [OF assms(1) b] ne worker_pulls(2) pulls [of c] by auto
next
  case (worker_pushes ps)
  obtain t r where p: "push_prompts ps s = (t, r)" by (cases "push_prompts ps s")
  with worker_pushes have t: "t = s'" "\<not> isl r" by (auto simp: out_of_def split: sum.splits)
  then show ?thesis
    using push_prompts_cases [OF p] push_prompts_inv [OF assms(1) p] worker_pushes(2) pushes [of ps] by auto
qed

lemma worker_step_progress:
  assumes "pm_inv s" "worker_step dp s s'"
  shows "pm_inv s' \<and> in_flight s' = in_flight s \<and> work_left s' < work_left s \<and> pm_batch_size s' = pm_batch_size s"
  using assms
proof (cases rule: worker_step_queues)
  case (pulls c)
  let ?t = "take (nat c) (pending_queue s)"
  have p: "finite (ongoing_set s)" "distinct (ids (pending_queue s))" "ongoing_set s \<inter> set (ids (pending_queue s)) = {}"
    using assms(1) by (auto simp: pm_inv_defs)
  have "distinct (ids ?t)" using p(2) by (simp flip: take_map)
  then have "card (set (ids ?t)) = length ?t" by (metis distinct_card length_map)
  moreover have "set (ids ?t) \<subseteq> set (ids (pending_queue s))" by (auto dest: in_set_takeD)
  then have "ongoing_set s \<inter> set (ids ?t) = {}" using p(3) by blast
  ultimately have c: "card (ongoing_set s') = card (ongoing_set s) + length ?t"
    unfolding pulls using p(1) by (subst card_Un_disjoint) simp_all
  have "length ?t + length (drop (nat c) (pending_queue s)) = length (pending_queue s)" "0 < length ?t"
    using pulls(1,2) by simp_all
  then have "work_left s' < work_left s \<and> length (pending_queue s') + card (ongoing_set s') = length (pending_queue s) + card (ongoing_set s)"
    unfolding work_left_def c pulls(3) by linarith
  then show ?thesis using pulls(4,6,7) by (simp add: in_flight_def)
next
  case (pushes ps)
  have f: "finite (ongoing_set s)" using assms(1) by (simp add: pm_inv_defs)
  have "card (set (ids ps)) = length ps" using pushes(2) by (metis distinct_card length_map)
  moreover have "card (ongoing_set s - set (ids ps)) = card (ongoing_set s) - card (set (ids ps))"
    by (rule card_Diff_subset) (use pushes(3) in simp_all)
  moreover have "card (set (ids ps)) \<le> card (ongoing_set s)" by (rule card_mono) (use f pushes(3) in simp_all)
  ultimately have "card (ongoing_set s') + length ps = card (ongoing_set s)" unfolding pushes by simp
  moreover have "0 < length ps" using pushes(1) by simp
  ultimately have "work_left s' < work_left s \<and> length (done_queue s') + card (ongoing_set s') = length (done_queue s) + card (ongoing_set s)"
    unfolding work_left_def pushes(4,5) length_append by linarith
  then show ?thesis using pushes(4,7,8) by (simp add: in_flight_def)
qed

lemma worker_steps_progress:
  "(worker_step dp ^^ k) s s' \<Longrightarrow> pm_inv s \<Longrightarrow>
     pm_inv s' \<and> in_flight s' = in_flight s \<and> k + work_left s' \<le> work_left s \<and> pm_batch_size s' = pm_batch_size s"
proof (induction k arbitrary: s')
  case (Suc k)
  then obtain t where "(worker_step dp ^^ k) s t" "worker_step dp t s'" by auto
  with Suc worker_step_progress [of t dp s'] show ?case by fastforce
qed simp

lemma worker_enabled:
  assumes "pm_inv s" "pending_queue s \<noteq> [] \<or> ongoing_set s \<noteq> {}"
  shows "\<exists>s'. worker_step dp s s'"
proof (cases "pending_queue s = []")
  case False
  obtain t r where b: "pull_prompts_body 1 s = (t, r)" by (cases "pull_prompts_body 1 s")
  have "pm_exec dp (PullPrompts 0 1) s = (t, Prompts (take 1 (pending_queue s)))"
    using pull_prompts_inv [OF assms(1) b] b False by (simp add: await_prompts_def out_of_def)
  moreover have "take 1 (pending_queue s) \<noteq> []" using False by simp
  ultimately show ?thesis by (blast intro: worker_step.worker_pulls)
next
  case True
  with assms(2) obtain u where u: "u \<in> ongoing_set s" by auto
  let ?p = "\<lparr>rp_batch = undefined, rp_gen = undefined, rp_id = u\<rparr>"
  have "pm_exec dp (PushPrompts [?p]) s = (fst (pm_exec dp (PushPrompts [?p]) s), Stored)"
    using u by (simp add: out_of_def push_prompts_def)
  then show ?thesis by (blast intro: worker_step.worker_pushes)
qed

section \<open>The trainer's loop\<close>

datatype fit_phase = Feeding | Pulling

record ('d, 'u) fit_state =
  fs_loader :: "('d \<times> 'd) list"
  fs_phase :: fit_phase
  fs_mgr :: "('d, 'u) prompt_mgr"
  fs_steps :: nat

text \<open>
  \<open>_fit_generate\<close>: at least one \<open>push_batch\<close> while the loader yields, until the manager wants no more;
  then \<open>generate_sequences\<close> pulls a batch. Worker moves interleave freely.
\<close>

inductive fit_step :: "('d, 'u) data_proto \<Rightarrow> ('d, 'u) fit_state \<Rightarrow> ('d, 'u) fit_state \<Rightarrow> bool" for dp where
  fit_push: "fs_phase f = Feeding \<Longrightarrow> fs_loader f = (b, g) # rest \<Longrightarrow>
     pm_exec dp (PushBatch b g) (fs_mgr f) = (s', WantsMore wants) \<Longrightarrow>
     fit_step dp f (f\<lparr>fs_loader := rest, fs_phase := if wants then Feeding else Pulling, fs_mgr := s'\<rparr>)"
| fit_exhausted: "fs_phase f = Feeding \<Longrightarrow> fs_loader f = [] \<Longrightarrow> fit_step dp f (f\<lparr>fs_phase := Pulling\<rparr>)"
| fit_pull: "fs_phase f = Pulling \<Longrightarrow> pm_exec dp (PullBatch t) (fs_mgr f) = (s', Batch r) \<Longrightarrow>
     fit_step dp f (f\<lparr>fs_phase := Feeding, fs_mgr := s', fs_steps := Suc (fs_steps f)\<rparr>)"
| fit_worker: "worker_step dp (fs_mgr f) s' \<Longrightarrow> fit_step dp f (f\<lparr>fs_mgr := s'\<rparr>)"

inductive fit_run :: "('d, 'u) data_proto \<Rightarrow> ('d, 'u) fit_state \<Rightarrow> ('d, 'u) fit_state \<Rightarrow> bool" for dp f0 where
  fit_start: "fit_run dp f0 f0"
| fit_more: "fit_run dp f0 f \<Longrightarrow> fit_step dp f f' \<Longrightarrow> fit_run dp f0 f'"

definition fit_begin :: "('d \<times> 'd) list \<Rightarrow> ('d, 'u) prompt_mgr \<Rightarrow> ('d, 'u) fit_state" where
  "fit_begin ld s = \<lparr>fs_loader = ld, fs_phase = Feeding, fs_mgr = s, fs_steps = 0\<rparr>"

text \<open>What an epoch of \<open>L\<close> batches of \<open>batch_size\<close> rows keeps.\<close>

definition epoch_inv :: "('d, 'u) data_proto \<Rightarrow> int \<Rightarrow> nat \<Rightarrow> ('d, 'u) fit_state \<Rightarrow> bool" where
  "epoch_inv dp b L f \<longleftrightarrow> pm_inv (fs_mgr f) \<and> pm_batch_size (fs_mgr f) = b \<and>
     (\<forall>(x, g) \<in> set (fs_loader f). int (dp_rows dp x) = b) \<and>
     length (fs_loader f) + fs_steps f \<le> L \<and>
     in_flight (fs_mgr f) = b * int (L - length (fs_loader f) - fs_steps f) \<and>
     (case fs_phase f of
        Feeding \<Rightarrow> L - length (fs_loader f) - fs_steps f \<le> 1
      | Pulling \<Rightarrow> L - length (fs_loader f) - fs_steps f \<le> 2 \<and>
          (fs_loader f \<noteq> [] \<longrightarrow> L - length (fs_loader f) - fs_steps f = 2))"

lemma push_batch_in_flight:
  assumes "pm_inv s" "dp_regular dp" "push_batch dp b g s = (s', Ok wants)"
  shows "in_flight s' = in_flight s + int (dp_rows dp b) \<and> pm_batch_size s' = pm_batch_size s \<and> pm_inv s' \<and>
    wants = (in_flight s' < 2 * pm_batch_size s)"
proof -
  have n: "1 \<le> pm_n s" using assms(1) by (simp add: pm_inv_def)
  from push_batch_shape [OF assms(3)] n assms(2) obtain new where
    s': "s' = s\<lparr>pending_queue := pending_queue s @ new, prompts_pending := ev_signal (prompts_pending s)\<rparr>"
    and l: "length new = dp_rows dp b" by auto
  have "wants = (in_flight s' < 2 * pm_batch_size s')"
    using assms(3) by (auto simp: push_batch_def Let_def prefetch_factor_def split: if_splits sum.splits prod.splits option.splits)
  then show ?thesis using push_batch_inv [OF assms] l unfolding s' by (simp add: in_flight_def)
qed

lemma pull_batch_in_flight:
  assumes "pm_inv s" "pm_exec dp (PullBatch t) s = (s', Batch r)"
  shows "in_flight s' = in_flight s - pm_batch_size s \<and> pm_batch_size s' = pm_batch_size s \<and> pm_inv s'"
proof -
  have b: "0 < pm_batch_size s" using assms(1) by (simp add: pm_inv_def)
  obtain u q where p: "pull_batch_body dp s = (u, q)" by (cases "pull_batch_body dp s")
  with assms(2) have u: "s' = u" "q = Ok r" by (auto simp: out_of_def split: if_splits sum.splits)
  from p b show ?thesis
  proof (cases rule: pull_batch_body_cases)
    case (taken d)
    have "int (length (drop (nat (pm_batch_size s)) (done_queue s))) = int (length (done_queue s)) - pm_batch_size s"
      using taken(2) b by (simp add: of_nat_diff)
    then show ?thesis using taken u pull_batch_inv [OF assms(1) p] by (simp add: in_flight_def)
  qed (use u in simp_all)
qed

lemma epoch_step:
  assumes "epoch_inv dp b L f" "dp_regular dp" "fit_step dp f f'"
  shows "epoch_inv dp b L f'"
  using assms(3)
proof cases
  case (fit_push x g rest s' wants)
  let ?m = "L - length (fs_loader f) - fs_steps f"
  have i: "pm_inv (fs_mgr f)" "0 < b" using assms(1) by (auto simp: epoch_inv_def pm_inv_def)
  have p: "push_batch dp x g (fs_mgr f) = (s', Ok wants)"
    using fit_push(4) by (cases "push_batch dp x g (fs_mgr f)") (auto simp: out_of_def split: sum.splits)
  have q: "in_flight s' = b * int (Suc ?m)" "pm_inv s'" "pm_batch_size s' = b" "wants = (b * int (Suc ?m) < 2 * b)" "?m \<le> 1"
    using push_batch_in_flight [OF i(1) assms(2) p] assms(1) fit_push by (auto simp: epoch_inv_def algebra_simps)
  have m: "L - length rest - fs_steps f = Suc ?m" "length rest + fs_steps f \<le> L"
    using assms(1) fit_push by (auto simp: epoch_inv_def)
  have "wants \<longleftrightarrow> Suc ?m < 2"
  proof -
    have "b * int (Suc ?m) < 2 * b \<longleftrightarrow> int (Suc ?m) < 2" using i(2) by (simp add: mult.commute)
    then show ?thesis using q(4) by simp
  qed
  then show ?thesis using fit_push assms(1) q m by (auto simp: epoch_inv_def)
next
  case fit_exhausted
  then show ?thesis using assms(1) by (auto simp: epoch_inv_def)
next
  case (fit_pull t s' r)
  have i: "pm_inv (fs_mgr f)" "0 < b" using assms(1) by (auto simp: epoch_inv_def pm_inv_def)
  note q = pull_batch_in_flight [OF i(1) fit_pull(3)]
  let ?m = "L - length (fs_loader f) - fs_steps f"
  have "0 \<le> in_flight s'" by (simp add: in_flight_def)
  then have "b * 1 \<le> b * int ?m" using q assms(1) by (simp add: epoch_inv_def)
  then have m: "1 \<le> ?m" using i(2) by (simp only: mult_le_cancel_left_pos)
  then have "in_flight s' = b * int (?m - 1)" using q assms(1) by (simp add: epoch_inv_def of_nat_diff algebra_simps)
  then show ?thesis using fit_pull assms(1) q m by (auto simp: epoch_inv_def)
next
  case (fit_worker s')
  then show ?thesis using assms(1) worker_step_progress [OF _ fit_worker(2)]
    by (cases "fs_phase f") (simp_all add: epoch_inv_def)
qed

lemma epoch_run:
  "fit_run dp f0 f \<Longrightarrow> epoch_inv dp b L f0 \<Longrightarrow> dp_regular dp \<Longrightarrow> epoch_inv dp b L f"
  by (induction rule: fit_run.induct) (simp_all add: epoch_step)

section \<open>Properties\<close>


text \<open>
  No wake-up is lost and the actor never spins: in every run, whatever the callers do, a caller that is
  still blocked in \<open>pull_prompts\<close> faces an empty queue, one blocked in \<open>pull_batch\<close> fewer finished
  prompts than a batch, and no call keeps the actor's thread.
\<close>

theorem blocked_callers_have_nothing:
  assumes "pm_init gb tb n = Ok s0" "dp_regular dp" "pm_run dp (\<lambda>_ _. True) s0 l s"
  shows "(\<forall>w. w \<in> set (ev_blocked (prompts_pending s)) \<longrightarrow> pending_queue s = []) \<and>
    (\<forall>t. t \<in> set (ev_blocked (batch_ready s)) \<longrightarrow> int (length (done_queue s)) < pm_batch_size s) \<and>
    (\<forall>call. snd (pm_exec dp call s) \<noteq> Spins)"
proof -
  have i: "pm_inv s" by (rule pm_run_inv [OF assms(3) pm_init_inv [OF assms(1)] assms(2)])
  have "snd (pm_exec dp call s) \<noteq> Spins" for call
    using pm_exec_inv [OF i assms(2), of call] by (cases "pm_exec dp call s") simp
  then show ?thesis
    using prompts_event.blocked_not_ready [OF i] batch_event.blocked_not_ready [OF i] by fastforce
qed

text \<open>
  C24. A batch becomes available: from any state the workers can make only finitely many moves, they keep
  the number of prompts in flight, they can always move while a prompt is pending or out, and once
  they have no move left and a batch worth of prompts was in flight, no \<open>pull_batch\<close> blocks.
\<close>

theorem workers_fill_the_batch:
  assumes "pm_inv s" "(worker_step dp ^^ k) s s'"
  shows "k \<le> 2 * length (pending_queue s) + card (ongoing_set s) \<and> in_flight s' = in_flight s \<and>
    ((\<exists>s''. worker_step dp s' s'') \<or>
     (pm_batch_size s \<le> in_flight s \<longrightarrow> ev_flag (batch_ready s') \<and> ev_blocked (batch_ready s') = []))"
proof -
  note p = worker_steps_progress [OF assms(2,1)]
  have "ev_flag (batch_ready s') \<and> ev_blocked (batch_ready s') = []"
    if "\<nexists>s''. worker_step dp s' s''" "pm_batch_size s \<le> in_flight s"
  proof -
    have "pending_queue s' = []" "ongoing_set s' = {}" using worker_enabled [of s' dp] that(1) p by auto
    then have "int (length (done_queue s')) \<ge> pm_batch_size s'" using p that(2) by (simp add: in_flight_def)
    then show ?thesis using batch_event.ready_none_blocked [of s'] batch_event.mirrors [of s'] p by simp
  qed
  then show ?thesis using p by (auto simp: work_left_def)
qed

text \<open>
  C34. Feeding by backpressure neither starves nor overfills: over an epoch of \<open>L\<close> loader batches of
  \<open>batch_size\<close> rows, with worker moves anywhere in between, the number of prompts in flight never
  exceeds two batches, and whenever the trainer turns to pull one of the \<open>L\<close> batches, at
  least a batch worth of prompts is in flight.
\<close>

theorem epoch_never_starves:
  assumes "pm_init gb tb n = Ok s0" "dp_regular dp"
    and "\<forall>(x, g) \<in> set ld. int (dp_rows dp x) = pm_batch_size s0"
    and "fit_run dp (fit_begin ld s0) f"
  shows "in_flight (fs_mgr f) \<le> 2 * pm_batch_size s0 \<and>
    (fs_phase f = Pulling \<and> fs_steps f < length ld \<longrightarrow> pm_batch_size s0 \<le> in_flight (fs_mgr f))"
proof -
  let ?b = "pm_batch_size s0" and ?m = "length ld - length (fs_loader f) - fs_steps f"
  have "pending_queue s0 = []" "done_queue s0 = []" "ongoing_set s0 = {}"
    using assms(1) by (auto simp: pm_init_def Let_def split: if_splits)
  then have "epoch_inv dp ?b (length ld) (fit_begin ld s0)"
    using pm_init_inv [OF assms(1)] assms(3) by (simp add: epoch_inv_def fit_begin_def in_flight_def)
  from epoch_run [OF assms(4) this assms(2)] have e: "epoch_inv dp ?b (length ld) f" .
  then have b: "0 < ?b" and m: "?m \<le> 2" and i: "in_flight (fs_mgr f) = ?b * int ?m"
    by (auto simp: epoch_inv_def pm_inv_def split: fit_phase.splits)
  have "?b * int ?m \<le> ?b * 2" by (rule mult_left_mono) (use b m in linarith)+
  moreover have "?b * 1 \<le> ?b * int ?m" if "fs_phase f = Pulling" "fs_steps f < length ld"
  proof (rule mult_left_mono)
    show "(1::int) \<le> int ?m" using e that by (cases "fs_loader f = []") (simp_all add: epoch_inv_def)
  qed (use b in simp)
  ultimately show ?thesis using i by simp
qed

text \<open>
  \<open>pull_batch\<close> serves one waiting trainer: when a second one was woken by the same event, it finds
  fewer finished prompts than a batch, assembles those, fails in \<open>popleft\<close>, and the prompts it had
  popped are in no queue any more.
\<close>

theorem second_trainer_loses_prompts:
  assumes "t \<in> set (ev_woken (batch_ready s))" "int (length (done_queue s)) < pm_batch_size s"
    and "assemble_batch dp (pm_n s) (done_queue s) = Ok d"
  shows "\<exists>s'. pm_step dp s (ResumePullBatch t) (Fails (IndexError ''pop from an empty deque'')) s' \<and>
    done_queue s' = [] \<and> ongoing_set s' = ongoing_set s \<and> pending_queue s' = pending_queue s"
proof -
  have "take (nat (pm_batch_size s)) (done_queue s) = done_queue s" using assms(2) by simp
  then have "pm_exec dp (ResumePullBatch t) s =
      (s\<lparr>batch_ready := ev_leave t (batch_ready s), done_queue := []\<rparr>, Fails (IndexError ''pop from an empty deque''))"
    using assms(2,3) by (simp add: out_of_def pull_batch_body_def pop_left_eq split: bool.split)
  then show ?thesis using assms(1) by (auto simp: pm_step_simps)
qed

text \<open>
  Errors are atomic: with one trainer, a call of any method that fails, the assembly of a batch
  included, leaves pending, running and finished prompts as they were.
\<close>

theorem failed_calls_change_nothing:
  assumes "pm_inv s" "dp_regular dp" "solo s" "one_trainer call s" "pm_step dp s call (Fails e) s'"
  shows "pending_queue s' = pending_queue s \<and> ongoing_set s' = ongoing_set s \<and> done_queue s' = done_queue s"
proof -
  have st: "pm_enabled call s" "pm_exec dp call s = (s', Fails e)" using assms(5) by (auto simp: pm_step_simps)
  have q: "queues_step s call (Fails e) s'" using pm_exec_queues [OF assms(1,3,4) st] by simp
  have "finite (ongoing_set s)" "finite (ongoing_set s')"
    using assms(1) pm_exec_inv [OF assms(1,2) st(2)] by (simp_all add: pm_inv_defs)
  then have o: "ongoing_set s' = ongoing_set s" if "mset_set (ongoing_set s) = mset_set (ongoing_set s')"
    using that by (metis finite_set_mset_mset_set)
  show ?thesis
  proof (cases "\<exists>b g. call = PushBatch b g")
    case False
    then show ?thesis using q o by (cases call) (auto simp: queues_step_def)
  next
    case True
    then obtain b g where c: "call = PushBatch b g" by blast
    obtain t r where p: "push_batch dp b g s = (t, r)" by (cases "push_batch dp b g s")
    have "isl r" "t = s'" using st(2) c p by (auto simp: out_of_def split: sum.splits)
    moreover have "1 \<le> pm_n s" using assms(1) by (simp add: pm_inv_def)
    ultimately show ?thesis using push_batch_shape [OF p] assms(2) by auto
  qed
qed

section \<open>Concrete runs\<close>

text \<open>Replaying a list of calls, as long as each is enabled and allowed.\<close>

fun pm_replay :: "('d, 'u) data_proto \<Rightarrow> (('d, 'u) pm_call \<Rightarrow> ('d, 'u) prompt_mgr \<Rightarrow> bool) \<Rightarrow> ('d, 'u) pm_call list
    \<Rightarrow> 'u pm_log \<times> ('d, 'u) prompt_mgr \<Rightarrow> ('u pm_log \<times> ('d, 'u) prompt_mgr) option" where
  "pm_replay dp P [] ls = Some ls"
| "pm_replay dp P (call # calls) (l, s) =
     (if P call s \<and> pm_enabled call s
      then (case pm_exec dp call s of (s', out) \<Rightarrow> pm_replay dp P calls (log_step s call out s' l, s'))
      else None)"

lemma pm_replay_run:
  "pm_replay dp P calls (l, s) = Some (l', s') \<Longrightarrow> pm_run dp P s0 l s \<Longrightarrow> pm_run dp P s0 l' s'"
proof (induction calls arbitrary: l s)
  case (Cons call calls)
  obtain t out where e: "pm_exec dp call s = (t, out)" by (cases "pm_exec dp call s")
  with Cons(2) have g: "P call s" "pm_enabled call s" "pm_replay dp P calls (log_step s call out t l, t) = Some (l', s')"
    by (auto split: if_splits)
  have "pm_run dp P s0 (log_step s call out t l) t"
    by (rule run_step [OF Cons(3) g(1)]) (simp add: pm_step_simps g(2) e)
  then show ?case by (rule Cons.IH [OF g(3)])
qed simp

text \<open>Batches of numbers that are their own ids.\<close>

definition demo_dp :: "(nat list, nat) data_proto" where
  "demo_dp = \<lparr>dp_rows = length, dp_uids = (\<lambda>d. d),
     dp_chunk = (\<lambda>d k. if k = 0 then Err ZeroDivisionError
       else if length d = k then Ok (map (\<lambda>x. [x]) d) else Err (AssertionError ''chunk'')),
     dp_repeat = (\<lambda>d n. Ok (concat (map (replicate (nat n)) d))),
     dp_union = (\<lambda>a b. Ok a), dp_assemble = (\<lambda>xs. Ok (concat (map fst xs)))\<rparr>"

lemma demo_dp_regular: "dp_regular demo_dp"
  by (auto simp: dp_regular_def demo_dp_def split: if_splits)

definition demo_mgr :: "(nat list, nat) prompt_mgr" where
  "demo_mgr = \<lparr>pm_batch_size = 1, pm_n = 2, ongoing_set = {}, pending_queue = [], done_queue = [],
     batch_ready = ev_init, prompts_pending = ev_init\<rparr>"

lemma demo_mgr_init: "pm_init None 1 2 = Ok demo_mgr"
  by (simp add: pm_init_def demo_mgr_def)

definition demo_prompt :: "nat \<Rightarrow> (nat list, nat) rollout_prompt" where
  "demo_prompt u = \<lparr>rp_batch = [u], rp_gen = [u, u], rp_id = u\<rparr>"

definition demo_calls :: "(nat list, nat) pm_call list" where
  "demo_calls = [PullPrompts 0 1, PullBatch 0, PushBatch [7, 8] [7, 8], ResumePullPrompts 0 1, PullPrompts 1 5,
     PushPrompts [demo_prompt 8], ResumePullBatch 0]"

definition demo_end :: "(nat list, nat) pm_call list \<Rightarrow> nat pm_log \<times> (nat list, nat) prompt_mgr" where
  "demo_end calls = the (pm_replay demo_dp one_trainer calls (no_log, demo_mgr))"

definition demo_some :: "(nat list, nat) pm_call list \<Rightarrow> bool" where
  "demo_some calls \<longleftrightarrow> (case pm_replay demo_dp one_trainer calls (no_log, demo_mgr) of None \<Rightarrow> False | Some _ \<Rightarrow> True)"

lemma demo_run: "demo_some calls \<Longrightarrow> pm_run demo_dp one_trainer demo_mgr (fst (demo_end calls)) (snd (demo_end calls))"
  using pm_replay_run [OF _ run_start] by (auto simp: demo_some_def demo_end_def split: option.splits)

lemma demo_calls_some: "demo_some demo_calls"
  by code_simp


lemma demo_run_any: "demo_some calls \<Longrightarrow> pm_run demo_dp (\<lambda>_ _. True) demo_mgr (fst (demo_end calls)) (snd (demo_end calls))"
proof -
  have "pm_run dp one_trainer s0 l s \<Longrightarrow> pm_run dp (\<lambda>_ _. True) s0 l s" for dp :: "('d, 'u) data_proto" and s0 l s
    by (induction rule: pm_run.induct) (auto intro: pm_run.intros)
  then show "demo_some calls \<Longrightarrow> ?thesis" using demo_run by blast
qed

theorem blocked_callers_have_nothing_witness:
  "let s = snd (demo_end (take 2 demo_calls)) in ev_blocked (prompts_pending s) = [(0, 1)] \<and>
    (\<forall>w. w \<in> set (ev_blocked (prompts_pending s)) \<longrightarrow> pending_queue s = []) \<and>
    (\<forall>t. t \<in> set (ev_blocked (batch_ready s)) \<longrightarrow> int (length (done_queue s)) < pm_batch_size s) \<and>
    (\<forall>call. snd (pm_exec demo_dp call s) \<noteq> Spins)"
proof -
  have "demo_some (take 2 demo_calls)" by code_simp
  moreover have "ev_blocked (prompts_pending (snd (demo_end (take 2 demo_calls)))) = [(0, 1)]" by code_simp
  ultimately show ?thesis
    using blocked_callers_have_nothing [OF demo_mgr_init demo_dp_regular demo_run_any [of "take 2 demo_calls"]]
    by (simp add: Let_def)
qed

text \<open>A state with one prompt out, and the worker's return of it.\<close>

definition demo_out :: "(nat list, nat) prompt_mgr" where
  "demo_out = demo_mgr\<lparr>ongoing_set := {7}\<rparr>"

definition demo_back :: "(nat list, nat) prompt_mgr" where
  "demo_back = demo_mgr\<lparr>done_queue := [demo_prompt 7], batch_ready := ev_signal ev_init\<rparr>"

lemma demo_out_inv: "pm_inv demo_out"
  by (simp add: pm_inv_defs demo_out_def demo_mgr_def)

lemma demo_return: "worker_step demo_dp demo_out demo_back"
  by (rule worker_pushes [of _ "[demo_prompt 7]"])
    (simp_all add: out_of_def push_prompts_def demo_out_def demo_back_def demo_mgr_def demo_prompt_def maybe_signal_batch_ready_def)

theorem workers_fill_the_batch_witness:
  "(1::nat) \<le> 2 * length (pending_queue demo_out) + card (ongoing_set demo_out) \<and> in_flight demo_back = in_flight demo_out \<and>
    ((\<exists>s''. worker_step demo_dp demo_back s'') \<or>
     (pm_batch_size demo_out \<le> in_flight demo_out \<longrightarrow> ev_flag (batch_ready demo_back) \<and> ev_blocked (batch_ready demo_back) = []))"
  by (rule workers_fill_the_batch [OF demo_out_inv]) (simp add: demo_return eq_OO)

theorem epoch_never_starves_witness:
  "\<exists>f :: (nat list, nat) fit_state. fs_phase f = Pulling \<and> fs_steps f = 0 \<and>
    in_flight (fs_mgr f) \<le> 2 * pm_batch_size demo_mgr \<and> pm_batch_size demo_mgr \<le> in_flight (fs_mgr f)"
proof -
  let ?ld = "[([7], [7])] :: (nat list \<times> nat list) list"
  let ?s = "fst (pm_exec demo_dp (PushBatch [7] [7]) demo_mgr)"
  let ?f = "(fit_begin ?ld demo_mgr)\<lparr>fs_loader := [], fs_phase := Feeding, fs_mgr := ?s\<rparr>"
  have "snd (pm_exec demo_dp (PushBatch [7] [7]) demo_mgr) = WantsMore True" by code_simp
  then have "pm_exec demo_dp (PushBatch [7] [7]) (fs_mgr (fit_begin ?ld demo_mgr)) = (?s, WantsMore True)"
    by (metis (no_types, lifting) fit_begin_def fit_state.select_convs(3) prod.collapse)
  then have "fit_step demo_dp (fit_begin ?ld demo_mgr)
      ((fit_begin ?ld demo_mgr)\<lparr>fs_loader := [], fs_phase := if True then Feeding else Pulling, fs_mgr := ?s\<rparr>)"
    by (rule fit_push [rotated 2]) (simp_all add: fit_begin_def)
  then have "fit_run demo_dp (fit_begin ?ld demo_mgr) ?f"
    using fit_more [OF fit_start] by simp
  then have r: "fit_run demo_dp (fit_begin ?ld demo_mgr) (?f\<lparr>fs_phase := Pulling\<rparr>)"
    by (rule fit_more) (rule fit_exhausted, simp_all)
  have "in_flight (fs_mgr (?f\<lparr>fs_phase := Pulling\<rparr>)) \<le> 2 * pm_batch_size demo_mgr \<and>
    (fs_phase (?f\<lparr>fs_phase := Pulling\<rparr>) = Pulling \<and> fs_steps (?f\<lparr>fs_phase := Pulling\<rparr>) < length ?ld \<longrightarrow>
      pm_batch_size demo_mgr \<le> in_flight (fs_mgr (?f\<lparr>fs_phase := Pulling\<rparr>)))"
    by (rule epoch_never_starves [OF demo_mgr_init demo_dp_regular _ r]) (simp add: demo_dp_def demo_mgr_def)
  then show ?thesis by (intro exI [of _ "?f\<lparr>fs_phase := Pulling\<rparr>"]) (simp add: fit_begin_def)
qed

text \<open>Two trainers wait; the push of one finished prompt wakes both, and the first takes the batch.\<close>

definition demo_two :: "(nat list, nat) prompt_mgr" where
  "demo_two = demo_mgr\<lparr>batch_ready := \<lparr>ev_flag = False, ev_blocked = [], ev_woken = [1]\<rparr>\<rparr>"

theorem second_trainer_loses_prompts_witness:
  "\<exists>s'. pm_step demo_dp (demo_two\<lparr>pm_batch_size := 2, done_queue := [demo_prompt 7]\<rparr>) (ResumePullBatch 1)
      (Fails (IndexError ''pop from an empty deque'')) s' \<and> done_queue s' = [] \<and> ongoing_set s' = {} \<and> pending_queue s' = []"
  using second_trainer_loses_prompts [of 1 "demo_two\<lparr>pm_batch_size := 2, done_queue := [demo_prompt 7]\<rparr>" demo_dp "[7, 7]"]
  by (simp add: demo_two_def demo_mgr_def demo_prompt_def assemble_batch_def rollout_sample_def demo_dp_def numeral_2_eq_2)

end
