(* ===== verification/RolloutWorker.thy ===== *)
theory RolloutWorker
  imports RolloutFeed
begin

text \<open>
  The continuous loop of a rollout worker (\<open>partial_rollout/agent_loop/agent_loop.py\<close>): it keeps a
  budget of trajectories, pulls prompts while the budget has room for another prompt, and returns
  finished prompts. A prompt runs as \<open>n\<close> trajectories; generation itself is outside the repository.
\<close>

record 'p rollout_worker =
  rw_n :: int
  rw_max :: int
  rw_inflight :: int
  rw_pull :: "int option"
  rw_running :: "('p \<times> nat) list"
  rw_finished :: "'p list"
  rw_slot_event :: bool

text \<open>The budget that \<open>init_agent_loop_workers\<close> gives each worker.\<close>

definition max_inflight_prompts :: "int \<Rightarrow> int \<Rightarrow> int" where
  "max_inflight_prompts batch_size num_workers = (batch_size + num_workers - 1) div num_workers"

text \<open>The head of the loop: one pull at a time, for as many prompts as fit.\<close>

definition start_pull :: "'p rollout_worker \<Rightarrow> 'p rollout_worker" where
  "start_pull w =
     (if rw_pull w = None \<and> rw_inflight w + rw_n w \<le> rw_max w
      then w\<lparr>rw_pull := Some ((rw_max w - rw_inflight w) div rw_n w)\<rparr> else w)"

definition rw_start :: "int \<Rightarrow> int \<Rightarrow> 'p rollout_worker" where
  "rw_start n max_prompts =
     start_pull \<lparr>rw_n = n, rw_max = max_prompts * n, rw_inflight = 0, rw_pull = None, rw_running = [],
       rw_finished = [], rw_slot_event = False\<rparr>"

text \<open>\<open>k\<close> trajectories of a running prompt end; the last ones end its task.\<close>

definition traj_done :: "nat \<Rightarrow> nat \<Rightarrow> 'p rollout_worker \<Rightarrow> 'p rollout_worker" where
  "traj_done i k w =
     (let (p, r) = rw_running w ! i;
          w' = w\<lparr>rw_inflight := rw_inflight w - int k, rw_slot_event := True\<rparr>
      in if r - k = 0
         then w'\<lparr>rw_running := take i (rw_running w) @ drop (Suc i) (rw_running w), rw_finished := rw_finished w @ [p]\<rparr>
         else w'\<lparr>rw_running := (rw_running w)[i := (p, r - k)]\<rparr>)"

text \<open>
  The rest of one turn: the tasks that \<open>asyncio.wait\<close> returned (the slot event, the pull with its
  prompts, finished prompts), the list to push, and the head of the next turn.
\<close>

definition worker_turn :: "bool \<Rightarrow> 'p list option \<Rightarrow> nat \<Rightarrow> 'p rollout_worker \<Rightarrow> 'p rollout_worker \<times> 'p list" where
  "worker_turn slot pulled k w =
     (let w1 = (if slot then w\<lparr>rw_slot_event := False\<rparr> else w);
          w2 = (case pulled of None \<Rightarrow> w1
                | Some ps \<Rightarrow> w1\<lparr>rw_pull := None, rw_inflight := rw_inflight w1 + int (length ps) * rw_n w1,
                    rw_running := rw_running w1 @ map (\<lambda>p. (p, nat (rw_n w1))) ps\<rparr>);
          push_list = take k (rw_finished w2)
      in (start_pull (w2\<lparr>rw_finished := drop k (rw_finished w2)\<rparr>), push_list))"

text \<open>A pull returns at most as many prompts as it asked for.\<close>

inductive rw_step :: "'p rollout_worker \<Rightarrow> 'p rollout_worker \<Rightarrow> bool" where
  rw_traj: "i < length (rw_running w) \<Longrightarrow> 0 < k \<Longrightarrow> k \<le> snd (rw_running w ! i) \<Longrightarrow> rw_step w (traj_done i k w)"
| rw_turn: "(slot \<longrightarrow> rw_slot_event w) \<Longrightarrow>
     (\<forall>ps. pulled = Some ps \<longrightarrow> (\<exists>c. rw_pull w = Some c \<and> int (length ps) \<le> c)) \<Longrightarrow>
     slot \<or> pulled \<noteq> None \<or> 0 < k \<Longrightarrow> k \<le> length (rw_finished w) \<Longrightarrow>
     rw_step w (fst (worker_turn slot pulled k w))"

definition rw_inv :: "'p rollout_worker \<Rightarrow> bool" where
  "rw_inv w \<longleftrightarrow> 1 \<le> rw_n w \<and> rw_inflight w \<le> rw_max w \<and>
     rw_inflight w = (\<Sum>(p, r) \<leftarrow> rw_running w. int r) \<and>
     (\<forall>c. rw_pull w = Some c \<longrightarrow> 1 \<le> c \<and> rw_inflight w + c * rw_n w \<le> rw_max w) \<and>
     (rw_pull w = None \<and> rw_inflight w + rw_n w \<le> rw_max w \<longrightarrow> rw_slot_event w)"

lemma start_pull_inv:
  assumes "1 \<le> rw_n w" "rw_inflight w \<le> rw_max w" "rw_inflight w = (\<Sum>(p, r) \<leftarrow> rw_running w. int r)"
    and "\<forall>c. rw_pull w = Some c \<longrightarrow> 1 \<le> c \<and> rw_inflight w + c * rw_n w \<le> rw_max w"
  shows "rw_inv (start_pull w)"
proof (cases "rw_pull w = None \<and> rw_inflight w + rw_n w \<le> rw_max w")
  case True
  let ?c = "(rw_max w - rw_inflight w) div rw_n w"
  have "1 \<le> ?c" using True assms(1) by (simp add: pos_imp_zdiv_pos_iff int_one_le_iff_zero_less)
  moreover have "?c * rw_n w \<le> rw_max w - rw_inflight w"
  proof -
    have "0 \<le> (rw_max w - rw_inflight w) mod rw_n w" using assms(1) by simp
    then show ?thesis using div_mult_mod_eq [of "rw_max w - rw_inflight w" "rw_n w"] by linarith
  qed
  ultimately show ?thesis using True assms by (simp add: start_pull_def rw_inv_def)
next
  case False
  then show ?thesis using assms by (auto simp: start_pull_def rw_inv_def)
qed

lemma rw_start_inv: "1 \<le> n \<Longrightarrow> 0 \<le> m \<Longrightarrow> rw_inv (rw_start n m)"
  unfolding rw_start_def by (rule start_pull_inv) simp_all

lemma sum_list_remove_nth:
  "i < length xs \<Longrightarrow> sum_list (map f (take i xs @ drop (Suc i) xs)) = sum_list (map f xs) - (f (xs ! i) :: int)"
proof -
  assume i: "i < length xs"
  have "sum_list (map f xs) = sum_list (map f (take i xs @ xs ! i # drop (Suc i) xs))"
    using id_take_nth_drop [OF i] by simp
  then show ?thesis by simp
qed

lemma sum_list_set_nth:
  "i < length xs \<Longrightarrow> sum_list (map f (xs[i := y])) = sum_list (map f xs) - f (xs ! i) + (f y :: int)"
proof -
  assume i: "i < length xs"
  have "sum_list (map f xs) = sum_list (map f (take i xs @ xs ! i # drop (Suc i) xs))"
    using id_take_nth_drop [OF i] by simp
  then show ?thesis using i by (simp add: upd_conv_take_nth_drop)
qed

lemma rw_step_inv:
  assumes "rw_inv w" "rw_step w w'"
  shows "rw_inv w'"
  using assms(2)
proof cases
  case (rw_traj i k)
  obtain p r where pr: "rw_running w ! i = (p, r)" by (cases "rw_running w ! i")
  let ?f = "\<lambda>(p, r). int r"
  have "sum_list (map ?f (rw_running (traj_done i k w))) = sum_list (map ?f (rw_running w)) - int k"
    using rw_traj pr sum_list_remove_nth [OF rw_traj(2), of ?f] sum_list_set_nth [OF rw_traj(2), of ?f]
    by (auto simp: traj_done_def Let_def of_nat_diff simp del: map_append)
  moreover have "rw_inflight (traj_done i k w) = rw_inflight w - int k" "rw_slot_event (traj_done i k w)"
    "rw_pull (traj_done i k w) = rw_pull w" "rw_n (traj_done i k w) = rw_n w" "rw_max (traj_done i k w) = rw_max w"
    by (simp_all add: traj_done_def pr Let_def)
  ultimately show ?thesis using assms(1) rw_traj(1) unfolding rw_inv_def by auto
next
  case (rw_turn slot pulled k)
  show ?thesis
  proof (cases pulled)
    case None
    show ?thesis unfolding rw_turn(1) worker_turn_def None Let_def fst_conv
      by (rule start_pull_inv) (use assms(1) in \<open>auto simp: rw_inv_def\<close>)
  next
    case (Some ps)
    then obtain c where c: "rw_pull w = Some c" "int (length ps) \<le> c" using rw_turn(3) by auto
    have "int (length ps) * rw_n w \<le> c * rw_n w" using c(2) assms(1) by (intro mult_right_mono) (simp_all add: rw_inv_def)
    moreover have "rw_inflight w + c * rw_n w \<le> rw_max w" using assms(1) c(1) unfolding rw_inv_def by blast
    ultimately have b: "rw_inflight w + int (length ps) * rw_n w \<le> rw_max w" by linarith
    have s: "(\<Sum>(p, r) \<leftarrow> map (\<lambda>p. (p, nat (rw_n w))) ps. int r) = int (length ps) * rw_n w"
    proof -
      have "int (nat (rw_n w)) = rw_n w" using assms(1) by (simp add: rw_inv_def)
      then show ?thesis by (induction ps) (simp_all add: algebra_simps)
    qed
    show ?thesis unfolding rw_turn(1) worker_turn_def Some Let_def fst_conv
      by (rule start_pull_inv) (use b s assms(1) in \<open>simp_all add: rw_inv_def\<close>)
  qed
qed

section \<open>Properties\<close>

text \<open>
  Every run of a worker stays within its budget and is work conserving: the trajectories in
  flight are those of its running prompts and never exceed the budget, also counting what an outstanding
  pull may bring; and whenever the budget has room for another prompt, a pull is outstanding
  or the slot event has been set, so the loop will turn.
\<close>

theorem worker_within_budget:
  assumes "1 \<le> n" "0 \<le> m" "rtranclp rw_step (rw_start n m) w"
  shows "rw_inflight w = (\<Sum>(p, r) \<leftarrow> rw_running w. int r) \<and> rw_inflight w \<le> rw_max w \<and>
    (\<forall>c. rw_pull w = Some c \<longrightarrow> 1 \<le> c \<and> rw_inflight w + c * rw_n w \<le> rw_max w) \<and>
    (rw_inflight w + rw_n w \<le> rw_max w \<longrightarrow> rw_pull w \<noteq> None \<or> rw_slot_event w)"
proof -
  have "rw_inv w" using assms(3) by (induction rule: rtranclp_induct) (simp_all add: rw_start_inv assms(1,2) rw_step_inv)
  then show ?thesis by (auto simp: rw_inv_def)
qed

lemma demo_worker_step:
  "rw_step (rw_start 2 3) (fst (worker_turn False (Some [5 :: nat]) 0 (rw_start 2 3)))"
  by (rule rw_turn) (simp_all add: rw_start_def start_pull_def)

theorem worker_within_budget_witness:
  "let w = fst (worker_turn False (Some [5 :: nat]) 0 (rw_start 2 3)) in rw_running w = [(5, 2)] \<and>
    rw_inflight w = (\<Sum>(p, r) \<leftarrow> rw_running w. int r) \<and> rw_inflight w \<le> rw_max w \<and>
    (\<forall>c. rw_pull w = Some c \<longrightarrow> 1 \<le> c \<and> rw_inflight w + c * rw_n w \<le> rw_max w) \<and>
    (rw_inflight w + rw_n w \<le> rw_max w \<longrightarrow> rw_pull w \<noteq> None \<or> rw_slot_event w)"
proof -
  have "rw_running (fst (worker_turn False (Some [5 :: nat]) 0 (rw_start 2 3))) = [(5, 2)]"
    by (simp add: worker_turn_def rw_start_def start_pull_def)
  then show ?thesis
    using worker_within_budget [of 2 3 "fst (worker_turn False (Some [5 :: nat]) 0 (rw_start 2 3))"]
      r_into_rtranclp [of rw_step, OF demo_worker_step] by (auto simp add: Let_def)
qed

text \<open>
  The workers together have room for a whole batch, and each for at least one prompt, with less
  than one prompt per worker to spare.
\<close>

theorem workers_hold_a_batch:
  assumes "0 < batch_size" "0 < num_workers"
  shows "batch_size \<le> num_workers * max_inflight_prompts batch_size num_workers \<and>
    num_workers * max_inflight_prompts batch_size num_workers < batch_size + num_workers \<and>
    1 \<le> max_inflight_prompts batch_size num_workers"
proof -
  let ?q = "max_inflight_prompts batch_size num_workers" and ?r = "(batch_size + num_workers - 1) mod num_workers"
  have "num_workers * ?q + ?r = batch_size + num_workers - 1" by (simp add: max_inflight_prompts_def)
  moreover have "0 \<le> ?r" "?r < num_workers" using assms(2) by simp_all
  moreover have "1 \<le> ?q" using assms by (simp add: max_inflight_prompts_def pos_imp_zdiv_pos_iff int_one_le_iff_zero_less)
  ultimately show ?thesis by linarith
qed

theorem workers_hold_a_batch_witness:
  "(7::int) \<le> 3 * max_inflight_prompts 7 3 \<and> 3 * max_inflight_prompts 7 3 < 7 + (3::int) \<and> 1 \<le> max_inflight_prompts 7 3"
  using workers_hold_a_batch [of 7 3] by simp

end
