(* ===== verification/FifoGate.thy ===== *)
theory FifoGate
  imports Prelude
begin

text \<open>
  \<open>FifoReadWriteGate\<close> of \<open>verl_tinker/tinker_router.py\<close>: operations enter in FIFO order, consecutive
  samples run together up to \<open>max_readers\<close>, every other operation runs alone. A waiter is identified
  with its \<open>asyncio.Event\<close>; \<open>granted\<close> are the waiters whose event is set and that have not left
  \<open>hold\<close> yet. The critical sections under the lock contain no await, so each is one step. The contract
  that a client relies on is the locale \<open>rw_gate\<close>.
\<close>

datatype op_kind = Sample | Exclusive

section \<open>The contract\<close>

locale rw_gate =
  fixes ok :: "'g \<Rightarrow> bool"
    and holders :: "'g \<Rightarrow> (op_kind \<times> 'w) list"
    and waiting :: "'g \<Rightarrow> (op_kind \<times> 'w) list"
    and enter :: "op_kind \<Rightarrow> 'w \<Rightarrow> 'g \<Rightarrow> 'g"
    and leave :: "op_kind \<Rightarrow> 'w \<Rightarrow> 'g \<Rightarrow> 'g"
  assumes enter_ok: "ok g \<Longrightarrow> w \<notin> snd ` (set (holders g) \<union> set (waiting g)) \<Longrightarrow> ok (enter k w g)"
    and leave_ok: "ok g \<Longrightarrow> (k, w) \<in> set (holders g) \<union> set (waiting g) \<Longrightarrow> ok (leave k w g)"
    and alone: "ok g \<Longrightarrow> (Exclusive, w) \<in> set (holders g) \<Longrightarrow> holders g = [(Exclusive, w)]"
    and busy: "ok g \<Longrightarrow> waiting g \<noteq> [] \<Longrightarrow> holders g \<noteq> []"
begin

text \<open>Two holders at the same time are samples.\<close>

lemma concurrent_are_samples:
  "ok g \<Longrightarrow> p \<in> set (holders g) \<Longrightarrow> q \<in> set (holders g) \<Longrightarrow> p \<noteq> q \<Longrightarrow> fst p = Sample \<and> fst q = Sample"
proof -
  assume a: "ok g" "p \<in> set (holders g)" "q \<in> set (holders g)" "p \<noteq> q"
  have "fst x = Sample" if "x \<in> set (holders g)" "y \<in> set (holders g)" "x \<noteq> y" for x y
  proof (cases x)
    case (Pair k w)
    show ?thesis
    proof (cases k)
      case Exclusive
      then have "holders g = [x]" using alone [OF a(1), of w] that(1) Pair by simp
      then show ?thesis using that by simp
    qed (simp add: Pair)
  qed
  then show ?thesis using a(2-4) by metis
qed

text \<open>An idle gate has nobody waiting.\<close>

lemma idle_empty: "ok g \<Longrightarrow> holders g = [] \<Longrightarrow> waiting g = []"
  using busy by blast

end

section \<open>The gate\<close>

record 'w gate =
  max_readers :: int
  gate_queue :: "(op_kind \<times> 'w) list"
  active_samples :: int
  exclusive_active :: bool
  granted :: "(op_kind \<times> 'w) list"

definition gate_init :: "int \<Rightarrow> 'w gate result" where
  "gate_init n = (if n \<le> 0 then Err (ValueError ''max_readers must be positive'')
     else Ok \<lparr>max_readers = n, gate_queue = [], active_samples = 0, exclusive_active = False, granted = []\<rparr>)"

text \<open>The loop of \<open>_grant_ready_locked\<close>, on the queue, the counter, the flag and the events set so far.\<close>

fun grant_loop :: "int \<Rightarrow> (op_kind \<times> 'w) list \<Rightarrow> int \<Rightarrow> (op_kind \<times> 'w) list
    \<Rightarrow> (op_kind \<times> 'w) list \<times> int \<times> bool \<times> (op_kind \<times> 'w) list" where
  "grant_loop n [] active gs = ([], active, False, gs)"
| "grant_loop n ((Exclusive, w) # q) active gs =
     (if active > 0 then ((Exclusive, w) # q, active, False, gs)
      else (q, active, True, gs @ [(Exclusive, w)]))"
| "grant_loop n ((Sample, w) # q) active gs =
     (if active \<ge> n then ((Sample, w) # q, active, False, gs)
      else grant_loop n q (active + 1) (gs @ [(Sample, w)]))"

definition grant_ready :: "'w gate \<Rightarrow> 'w gate" where
  "grant_ready g =
     (if exclusive_active g then g
      else case grant_loop (max_readers g) (gate_queue g) (active_samples g) (granted g) of
        (q, a, x, gs) \<Rightarrow> g\<lparr>gate_queue := q, active_samples := a, exclusive_active := x, granted := gs\<rparr>)"

text \<open>The first critical section of \<open>hold\<close>, and the one of its \<open>finally\<close>.\<close>

definition gate_enter :: "op_kind \<Rightarrow> 'w \<Rightarrow> 'w gate \<Rightarrow> 'w gate" where
  "gate_enter k w g = grant_ready (g\<lparr>gate_queue := gate_queue g @ [(k, w)]\<rparr>)"

definition gate_leave :: "op_kind \<Rightarrow> 'w \<Rightarrow> 'w gate \<Rightarrow> 'w gate" where
  "gate_leave k w g = grant_ready
     (if (k, w) \<in> set (granted g)
      then (case k of Sample \<Rightarrow> g\<lparr>active_samples := active_samples g - 1\<rparr> | Exclusive \<Rightarrow> g\<lparr>exclusive_active := False\<rparr>)
             \<lparr>granted := remove1 (k, w) (granted g)\<rparr>
      else g\<lparr>gate_queue := remove1 (k, w) (gate_queue g)\<rparr>)"

section \<open>Invariant\<close>

definition samples :: "(op_kind \<times> 'w) list \<Rightarrow> int" where
  "samples xs = int (length (filter (\<lambda>p. fst p = Sample) xs))"

lemma samples_simps [simp]:
  "samples [] = 0" "samples (xs @ ys) = samples xs + samples ys"
  "samples ((Sample, w) # xs) = 1 + samples xs" "samples ((Exclusive, w) # xs) = samples xs"
  by (simp_all add: samples_def)

lemma samples_nonneg [simp]: "0 \<le> samples xs"
  by (simp add: samples_def)

lemma samples_remove1: "(Sample, w) \<in> set xs \<Longrightarrow> samples (remove1 (Sample, w) xs) = samples xs - 1"
proof (induction xs)
  case (Cons p xs)
  then show ?case by (cases p; cases "fst p") auto
qed simp

text \<open>Waiters are distinct; kept folded, and used by these rules.\<close>

definition distinct_ids :: "(op_kind \<times> 'w) list \<Rightarrow> bool" where
  "distinct_ids xs \<longleftrightarrow> distinct (map snd xs)"

lemma distinct_ids_Nil [simp]: "distinct_ids []"
  by (simp add: distinct_ids_def)

lemma distinct_ids_snoc: "distinct_ids xs \<Longrightarrow> w \<notin> snd ` set xs \<Longrightarrow> distinct_ids (xs @ [(k, w)])"
  by (simp add: distinct_ids_def)

lemma distinct_ids_remove1:
  "distinct_ids (xs @ ys) \<Longrightarrow> distinct_ids (remove1 x xs @ ys)"
  "distinct_ids (xs @ ys) \<Longrightarrow> distinct_ids (xs @ remove1 x ys)"
proof -
  have r: "distinct (map snd (remove1 x zs)) \<and> snd ` set (remove1 x zs) \<subseteq> snd ` set zs" if "distinct (map snd zs)" for zs
    using that set_remove1_subset [of x zs] by (auto simp: distinct_map intro: inj_on_subset)
  show "distinct_ids (remove1 x xs @ ys)" if "distinct_ids (xs @ ys)"
    using that r [of xs] unfolding distinct_ids_def by (simp only: map_append distinct_append set_map) blast
  show "distinct_ids (xs @ remove1 x ys)" if "distinct_ids (xs @ ys)"
    using that r [of ys] unfolding distinct_ids_def by (simp only: map_append distinct_append set_map) blast
qed

lemma distinct_ids_unique: "distinct_ids xs \<Longrightarrow> (k, w) \<in> set xs \<Longrightarrow> (k', w) \<in> set xs \<Longrightarrow> k = k'"
  unfolding distinct_ids_def distinct_map inj_on_def by (metis fst_conv snd_conv)

text \<open>Who holds the gate, as the counters say.\<close>

definition gate_counts :: "'w gate \<Rightarrow> bool" where
  "gate_counts g \<longleftrightarrow> 0 < max_readers g \<and> active_samples g = samples (granted g) \<and> active_samples g \<le> max_readers g \<and>
     (if exclusive_active g then (\<exists>w. granted g = [(Exclusive, w)]) else (\<forall>p \<in> set (granted g). fst p = Sample)) \<and>
     distinct_ids (granted g @ gate_queue g)"

text \<open>Nobody waits who could run.\<close>

fun head_blocked :: "int \<Rightarrow> int \<Rightarrow> (op_kind \<times> 'w) list \<Rightarrow> bool" where
  "head_blocked n a [] \<longleftrightarrow> True"
| "head_blocked n a ((Exclusive, _) # _) \<longleftrightarrow> a > 0"
| "head_blocked n a ((Sample, _) # _) \<longleftrightarrow> a \<ge> n"

definition gate_stable :: "'w gate \<Rightarrow> bool" where
  "gate_stable g \<longleftrightarrow> exclusive_active g \<or> head_blocked (max_readers g) (active_samples g) (gate_queue g)"

definition gate_inv :: "'w gate \<Rightarrow> bool" where
  "gate_inv g \<longleftrightarrow> gate_counts g \<and> gate_stable g"

lemma grant_loop_spec:
  assumes "grant_loop n q a gs = (q', a', x, gs')" "\<forall>p \<in> set gs. fst p = Sample" "a = samples gs" "a \<le> n"
  shows "\<exists>new. gs' = gs @ new \<and> q = new @ q' \<and> a' = samples gs' \<and> a' \<le> n \<and>
    (if x then (\<exists>w. gs' = [(Exclusive, w)]) else \<forall>p \<in> set gs'. fst p = Sample) \<and>
    (x \<or> head_blocked n a' q')"
  using assms
proof (induction n q a gs rule: grant_loop.induct)
  case (2 n w q a gs)
  have "gs = []" if "\<not> a > 0"
  proof -
    have "length (filter (\<lambda>p. fst p = Sample) gs) = 0" using that 2(3) by (simp add: samples_def)
    then show ?thesis using 2(2) by (cases gs) auto
  qed
  with 2 show ?case by (auto split: if_splits)
next
  case (3 n w q a gs)
  show ?case
  proof (cases "a \<ge> n")
    case True
    with 3 show ?thesis by auto
  next
    case False
    have l: "grant_loop n q (a + 1) (gs @ [(Sample, w)]) = (q', a', x, gs')" using 3(2) False by simp
    have "\<exists>new. gs' = (gs @ [(Sample, w)]) @ new \<and> q = new @ q' \<and> a' = samples gs' \<and> a' \<le> n \<and>
      (if x then (\<exists>w. gs' = [(Exclusive, w)]) else \<forall>p \<in> set gs'. fst p = Sample) \<and>
      (x \<or> head_blocked n a' q')"
      by (rule 3(1) [OF False l]) (use 3(3-5) False in auto)
    then show ?thesis by auto
  qed
qed auto

text \<open>What a grant does: a prefix of the queue moves to the holders, and the gate is stable.\<close>

lemma grant_ready_spec:
  assumes "gate_counts g"
  shows "gate_inv (grant_ready g) \<and> max_readers (grant_ready g) = max_readers g \<and>
    (\<exists>new. granted (grant_ready g) = granted g @ new \<and> gate_queue g = new @ gate_queue (grant_ready g))"
proof (cases "exclusive_active g")
  case True
  then show ?thesis using assms by (simp add: grant_ready_def gate_inv_def gate_stable_def)
next
  case False
  obtain q a x gs where l: "grant_loop (max_readers g) (gate_queue g) (active_samples g) (granted g) = (q, a, x, gs)"
    by (metis prod_cases4)
  from l have "\<exists>new. gs = granted g @ new \<and> gate_queue g = new @ q \<and> a = samples gs \<and> a \<le> max_readers g \<and>
    (if x then (\<exists>w. gs = [(Exclusive, w)]) else \<forall>p \<in> set gs. fst p = Sample) \<and>
    (x \<or> head_blocked (max_readers g) a q)"
    by (rule grant_loop_spec) (use assms False in \<open>auto simp: gate_counts_def\<close>)
  then obtain new where n: "gs = granted g @ new" "gate_queue g = new @ q" "a = samples gs" "a \<le> max_readers g"
    "if x then (\<exists>w. gs = [(Exclusive, w)]) else \<forall>p \<in> set gs. fst p = Sample"
    "x \<or> head_blocked (max_readers g) a q" by blast
  have r: "grant_ready g = g\<lparr>gate_queue := q, active_samples := a, exclusive_active := x, granted := gs\<rparr>"
    using False l by (simp add: grant_ready_def)
  have "distinct_ids (gs @ q)" using assms n(1,2) by (simp add: gate_counts_def)
  then have "gate_inv (grant_ready g)"
    using assms n(3-6) unfolding r gate_inv_def gate_counts_def gate_stable_def by simp
  then show ?thesis using n(1,2) unfolding r by simp
qed

lemma gate_init_inv: "gate_init n = Ok g \<Longrightarrow> gate_inv g"
  by (auto simp: gate_init_def gate_inv_def gate_counts_def gate_stable_def split: if_splits)

lemma gate_enter_spec:
  assumes "gate_inv g" "w \<notin> snd ` (set (granted g) \<union> set (gate_queue g))"
  shows "gate_inv (gate_enter k w g) \<and> max_readers (gate_enter k w g) = max_readers g \<and>
    (\<exists>new. granted (gate_enter k w g) = granted g @ new \<and> gate_queue g @ [(k, w)] = new @ gate_queue (gate_enter k w g))"
proof -
  have "gate_counts (g\<lparr>gate_queue := gate_queue g @ [(k, w)]\<rparr>)"
    using assms distinct_ids_snoc [of "granted g @ gate_queue g" w k] by (auto simp: gate_inv_def gate_counts_def)
  from grant_ready_spec [OF this] show ?thesis by (simp add: gate_enter_def)
qed

lemma gate_leave_spec:
  assumes "gate_inv g" "(k, w) \<in> set (granted g) \<union> set (gate_queue g)"
  shows "gate_inv (gate_leave k w g) \<and> max_readers (gate_leave k w g) = max_readers g \<and>
    (\<exists>new. granted (gate_leave k w g) = remove1 (k, w) (granted g) @ new \<and>
       (if (k, w) \<in> set (granted g) then gate_queue g else remove1 (k, w) (gate_queue g)) = new @ gate_queue (gate_leave k w g))"
proof -
  have c: "gate_counts g" using assms(1) by (simp add: gate_inv_def)
  let ?g = "if (k, w) \<in> set (granted g)
      then (case k of Sample \<Rightarrow> g\<lparr>active_samples := active_samples g - 1\<rparr> | Exclusive \<Rightarrow> g\<lparr>exclusive_active := False\<rparr>)
             \<lparr>granted := remove1 (k, w) (granted g)\<rparr>
      else g\<lparr>gate_queue := remove1 (k, w) (gate_queue g)\<rparr>"
  have "gate_counts ?g"
  proof (cases "(k, w) \<in> set (granted g)")
    case True
    have gs: "distinct_ids (remove1 (k, w) (granted g) @ gate_queue g)"
      using c distinct_ids_remove1(1) by (auto simp: gate_counts_def)
    show ?thesis
    proof (cases k)
      case Sample
      have "\<not> exclusive_active g" using c True Sample by (auto simp: gate_counts_def split: if_splits)
      then show ?thesis using c True Sample gs samples_remove1 [of w "granted g"] set_remove1_subset [of "(k, w)" "granted g"]
        by (auto simp: gate_counts_def)
    next
      case Exclusive
      have "exclusive_active g" using c True Exclusive by (auto simp: gate_counts_def split: if_splits)
      then have "granted g = [(k, w)]" using c True by (auto simp: gate_counts_def)
      then show ?thesis using c Exclusive gs by (auto simp: gate_counts_def)
    qed
  next
    case False
    then show ?thesis using c distinct_ids_remove1(2) [of "granted g" "gate_queue g" "(k, w)"]
      by (simp add: gate_counts_def)
  qed
  from grant_ready_spec [OF this] show ?thesis
    by (cases "(k, w) \<in> set (granted g)"; cases k) (simp_all add: gate_leave_def remove1_idem)
qed

lemma gate_alone: "gate_inv g \<Longrightarrow> (Exclusive, w) \<in> set (granted g) \<Longrightarrow> granted g = [(Exclusive, w)]"
  by (auto simp: gate_inv_def gate_counts_def split: if_splits)

lemma gate_busy: "gate_inv g \<Longrightarrow> gate_queue g \<noteq> [] \<Longrightarrow> granted g \<noteq> []"
  by (cases "(max_readers g, active_samples g, gate_queue g)" rule: head_blocked.cases)
    (auto simp: gate_inv_def gate_counts_def gate_stable_def split: if_splits)

interpretation fifo_gate: rw_gate gate_inv granted gate_queue gate_enter gate_leave
proof unfold_locales
  show "gate_inv (gate_enter k w g)" if "gate_inv g" "w \<notin> snd ` (set (granted g) \<union> set (gate_queue g))" for g k and w :: 'a
    using gate_enter_spec [OF that] by simp
  show "gate_inv (gate_leave k w g)" if "gate_inv g" "(k, w) \<in> set (granted g) \<union> set (gate_queue g)" for g k and w :: 'a
    using gate_leave_spec [OF that] by simp
qed (simp_all add: gate_alone gate_busy)

section \<open>Runs\<close>

text \<open>
  A run from a fresh gate, with what entered, what was cancelled while waiting, and the order of the
  grants. An event is created for each \<open>hold\<close>, so waiters are never reused.
\<close>

inductive gate_run :: "int \<Rightarrow> (op_kind \<times> 'w) list \<Rightarrow> (op_kind \<times> 'w) set \<Rightarrow> (op_kind \<times> 'w) list \<Rightarrow> 'w gate \<Rightarrow> bool" for n where
  run_init: "gate_init n = Ok g \<Longrightarrow> gate_run n [] {} [] g"
| run_enter: "gate_run n es cs os g \<Longrightarrow> w \<notin> snd ` set es \<Longrightarrow> g' = gate_enter k w g \<Longrightarrow>
     gate_run n (es @ [(k, w)]) cs (os @ drop (length (granted g)) (granted g')) g'"
| run_release: "gate_run n es cs os g \<Longrightarrow> (k, w) \<in> set (granted g) \<Longrightarrow> g' = gate_leave k w g \<Longrightarrow>
     gate_run n es cs (os @ drop (length (granted g) - 1) (granted g')) g'"
| run_cancel: "gate_run n es cs os g \<Longrightarrow> (k, w) \<in> set (gate_queue g) \<Longrightarrow> g' = gate_leave k w g \<Longrightarrow>
     gate_run n es (insert (k, w) cs) (os @ drop (length (granted g)) (granted g')) g'"

lemma filter_remove1_distinct:
  "distinct (xs @ ys) \<Longrightarrow> p \<in> set ys \<Longrightarrow> filter (\<lambda>q. q \<noteq> p) (xs @ ys) = xs @ remove1 p ys"
proof -
  assume a: "distinct (xs @ ys)" "p \<in> set ys"
  have "distinct zs \<Longrightarrow> filter (\<lambda>q. q \<noteq> p) zs = remove1 p zs" for zs
    by (induction zs) (auto simp: filter_id_conv)
  moreover have "filter (\<lambda>q. q \<noteq> p) xs = xs" using a by (auto simp: filter_id_conv)
  ultimately show ?thesis using a(1) by simp
qed

lemma filter_parts: "xs @ ys = filter P zs \<Longrightarrow> set xs \<subseteq> set zs \<and> set ys \<subseteq> set zs"
  by (metis filter_is_subset le_sup_iff set_append)

lemma distinct_ids_distinct: "distinct_ids xs \<Longrightarrow> distinct xs"
  by (simp add: distinct_ids_def distinct_map)

lemma gate_distinct: "gate_inv g \<Longrightarrow> distinct (gate_queue g) \<and> set (granted g) \<inter> set (gate_queue g) = {}"
  using distinct_ids_distinct [of "granted g @ gate_queue g"] by (simp add: gate_inv_def gate_counts_def)

lemma gate_run_order:
  "gate_run n es cs os g \<Longrightarrow> gate_inv g \<and> max_readers g = n \<and> distinct_ids es \<and> cs \<subseteq> set es \<and>
     os @ gate_queue g = filter (\<lambda>p. p \<notin> cs) es \<and> set (granted g) \<subseteq> set os"
proof (induction rule: gate_run.induct)
  case (run_init g)
  then show ?case using gate_init_inv [OF run_init] by (auto simp: gate_init_def split: if_splits)
next
  case (run_enter es cs os g w g' k)
  have sub: "set (granted g) \<union> set (gate_queue g) \<subseteq> set es"
    using run_enter.IH filter_parts [of os "gate_queue g" "\<lambda>p. p \<notin> cs" es] by auto
  then have "w \<notin> snd ` (set (granted g) \<union> set (gate_queue g))" using run_enter.hyps(2) by auto
  with run_enter.IH gate_enter_spec [of g w k] run_enter.hyps(3) obtain new where
    g': "gate_inv g'" "max_readers g' = max_readers g" "granted g' = granted g @ new" "gate_queue g @ [(k, w)] = new @ gate_queue g'"
    by auto
  have "(k, w) \<notin> cs" using run_enter.IH run_enter.hyps(2) by force
  moreover have "os @ new @ gate_queue g' = (os @ gate_queue g) @ [(k, w)]" using g'(4) by simp
  ultimately show ?case using run_enter.IH run_enter.hyps(2) g' distinct_ids_snoc [of es w k] by auto
next
  case (run_release es cs os g k w g')
  with gate_leave_spec [of g k w] obtain new where
    g': "gate_inv g'" "max_readers g' = max_readers g" "granted g' = remove1 (k, w) (granted g) @ new" "gate_queue g = new @ gate_queue g'"
    by auto
  have "length (remove1 (k, w) (granted g)) = length (granted g) - 1"
    using run_release.hyps(2) by (simp add: length_remove1)
  then have "drop (length (granted g) - 1) (granted g') = new" using g'(3) by simp
  then show ?case using run_release.IH g' set_remove1_subset [of "(k, w)" "granted g"] by auto
next
  case (run_cancel es cs os g k w g')
  have d: "distinct (os @ gate_queue g)"
    using run_cancel.IH distinct_ids_distinct [of es] by (metis distinct_filter)
  have ng: "(k, w) \<notin> set (granted g)" using gate_distinct [of g] run_cancel.IH run_cancel.hyps(2) by auto
  with run_cancel gate_leave_spec [of g k w] obtain new where
    g': "gate_inv g'" "max_readers g' = max_readers g" "granted g' = granted g @ new" "remove1 (k, w) (gate_queue g) = new @ gate_queue g'"
    by (auto simp: remove1_idem)
  have "filter (\<lambda>p. p \<notin> insert (k, w) cs) es = filter (\<lambda>q. q \<noteq> (k, w)) (os @ gate_queue g)"
    using run_cancel.IH by (auto intro!: filter_cong)
  then have "filter (\<lambda>p. p \<notin> insert (k, w) cs) es = os @ new @ gate_queue g'"
    using filter_remove1_distinct [OF d run_cancel.hyps(2)] g'(4) by simp
  moreover have "(k, w) \<in> set es"
    using run_cancel.IH run_cancel.hyps(2) filter_parts [of os "gate_queue g" "\<lambda>p. p \<notin> cs" es] by auto
  ultimately show ?case using run_cancel.IH g' by auto
qed

text \<open>The operations that a waiter has to see leave, and the time it waits, counted in leaves.\<close>

definition ahead :: "op_kind \<times> 'w \<Rightarrow> 'w gate \<Rightarrow> (op_kind \<times> 'w) list" where
  "ahead p g = granted g @ takeWhile (\<lambda>q. q \<noteq> p) (gate_queue g)"

inductive gate_waits :: "op_kind \<times> 'w \<Rightarrow> 'w gate \<Rightarrow> nat \<Rightarrow> 'w gate \<Rightarrow> bool" for p g0 where
  wait_start: "p \<in> set (gate_queue g0) \<Longrightarrow> gate_waits p g0 0 g0"
| wait_enter: "gate_waits p g0 k g \<Longrightarrow> w \<notin> snd ` (set (granted g) \<union> set (gate_queue g)) \<Longrightarrow>
     p \<in> set (gate_queue (gate_enter kd w g)) \<Longrightarrow> gate_waits p g0 k (gate_enter kd w g)"
| wait_release: "gate_waits p g0 k g \<Longrightarrow> (kd, w) \<in> set (granted g) \<Longrightarrow>
     p \<in> set (gate_queue (gate_leave kd w g)) \<Longrightarrow> gate_waits p g0 (Suc k) (gate_leave kd w g)"
| wait_cancel: "gate_waits p g0 k g \<Longrightarrow> (kd, w) \<in> set (gate_queue g) \<Longrightarrow>
     p \<in> set (gate_queue (gate_leave kd w g)) \<Longrightarrow> gate_waits p g0 k (gate_leave kd w g)"

lemma takeWhile_prefix: "xs = new @ ys \<Longrightarrow> p \<notin> set new \<Longrightarrow> takeWhile (\<lambda>q. q \<noteq> p) xs = new @ takeWhile (\<lambda>q. q \<noteq> p) ys"
  by (induction new arbitrary: xs) auto

lemma takeWhile_snoc: "p \<in> set xs \<Longrightarrow> takeWhile (\<lambda>q. q \<noteq> p) (xs @ ys) = takeWhile (\<lambda>q. q \<noteq> p) xs"
  by (induction xs) auto

lemma takeWhile_remove1: "distinct xs \<Longrightarrow> p \<in> set (remove1 r xs) \<Longrightarrow>
    length (takeWhile (\<lambda>q. q \<noteq> p) (remove1 r xs)) \<le> length (takeWhile (\<lambda>q. q \<noteq> p) xs)"
  by (induction xs) auto

lemma gate_waits_inv:
  assumes "gate_waits p g0 k g" "gate_inv g0"
  shows "gate_inv g \<and> p \<in> set (gate_queue g) \<and> k + length (ahead p g) \<le> length (ahead p g0)"
  using assms
proof (induction rule: gate_waits.induct)
  case (wait_enter k g w kd)
  let ?g = "gate_enter kd w g"
  from wait_enter gate_enter_spec [of g w kd] obtain new where
    n: "gate_inv ?g" "granted ?g = granted g @ new" "gate_queue g @ [(kd, w)] = new @ gate_queue ?g" by auto
  have "distinct_ids (granted ?g @ gate_queue ?g)" using n(1) by (simp add: gate_inv_def gate_counts_def)
  then have "p \<notin> set new" using wait_enter.hyps(3) n(2) distinct_ids_distinct by fastforce
  then have "takeWhile (\<lambda>q. q \<noteq> p) (gate_queue g) = new @ takeWhile (\<lambda>q. q \<noteq> p) (gate_queue ?g)"
    using takeWhile_prefix [OF n(3), of p] wait_enter by (simp add: takeWhile_snoc)
  then show ?case using wait_enter n by (simp add: ahead_def)
next
  case (wait_release k g kd w)
  let ?g = "gate_leave kd w g"
  from wait_release gate_leave_spec [of g kd w] obtain new where
    n: "gate_inv ?g" "granted ?g = remove1 (kd, w) (granted g) @ new" "gate_queue g = new @ gate_queue ?g" by auto
  have "distinct_ids (granted ?g @ gate_queue ?g)" using n(1) by (simp add: gate_inv_def gate_counts_def)
  then have "p \<notin> set new" using wait_release.hyps(3) n(2) distinct_ids_distinct by fastforce
  then have "takeWhile (\<lambda>q. q \<noteq> p) (gate_queue g) = new @ takeWhile (\<lambda>q. q \<noteq> p) (gate_queue ?g)"
    using takeWhile_prefix [OF n(3)] by simp
  moreover have "Suc (length (remove1 (kd, w) (granted g))) = length (granted g)"
    using wait_release.hyps(2) length_pos_if_in_set [OF wait_release.hyps(2)] by (simp add: length_remove1)
  ultimately show ?case using wait_release n by (simp add: ahead_def)
next
  case (wait_cancel k g kd w)
  let ?g = "gate_leave kd w g"
  have dg: "distinct (gate_queue g) \<and> set (granted g) \<inter> set (gate_queue g) = {}" using gate_distinct wait_cancel by blast
  then have ng: "(kd, w) \<notin> set (granted g)" using wait_cancel.hyps(2) by auto
  with wait_cancel gate_leave_spec [of g kd w] obtain new where
    n: "gate_inv ?g" "granted ?g = granted g @ new" "remove1 (kd, w) (gate_queue g) = new @ gate_queue ?g"
    by (auto simp: remove1_idem)
  have "distinct_ids (granted ?g @ gate_queue ?g)" using n(1) by (simp add: gate_inv_def gate_counts_def)
  then have "p \<notin> set new" using wait_cancel.hyps(3) n(2) distinct_ids_distinct by fastforce
  then have "takeWhile (\<lambda>q. q \<noteq> p) (remove1 (kd, w) (gate_queue g)) = new @ takeWhile (\<lambda>q. q \<noteq> p) (gate_queue ?g)"
    using takeWhile_prefix [OF n(3)] by simp
  moreover have "length (takeWhile (\<lambda>q. q \<noteq> p) (remove1 (kd, w) (gate_queue g))) \<le> length (takeWhile (\<lambda>q. q \<noteq> p) (gate_queue g))"
    by (rule takeWhile_remove1) (use dg n(3) wait_cancel.hyps(3) in simp_all)
  ultimately have "length (ahead p ?g) \<le> length (ahead p g)" using n(2) by (simp add: ahead_def)
  then show ?case using wait_cancel n by simp
qed simp

section \<open>Properties\<close>

text \<open>
  C6. Mutual exclusion and order, over every run of the gate with cancellations: an exclusive operation
  holds the gate alone, at most \<open>max_readers\<close> samples hold it together, and grants happen in the
  order of entering, skipping only what was cancelled while it waited.
\<close>

theorem gate_fifo_exclusion:
  assumes "gate_run n es cs os g"
  shows "os @ gate_queue g = filter (\<lambda>p. p \<notin> cs) es \<and> set (granted g) \<subseteq> set os \<and>
    (if exclusive_active g then \<exists>w. granted g = [(Exclusive, w)]
     else (\<forall>p \<in> set (granted g). fst p = Sample) \<and> int (length (granted g)) \<le> n)"
proof -
  note i = gate_run_order [OF assms]
  have "samples (granted g) = int (length (granted g))" if "\<forall>p \<in> set (granted g). fst p = Sample"
    using that by (simp add: samples_def)
  then show ?thesis using i by (auto simp: gate_inv_def gate_counts_def)
qed

text \<open>
  C28. No operation starves: while an operation waits, the gate is held, and every holder that leaves
  brings it closer, however many others enter behind it. After as many leaves as there were
  operations ahead of it, it no longer waits.
\<close>

theorem gate_no_starvation:
  assumes "gate_inv g0" "gate_waits p g0 k g"
  shows "granted g \<noteq> [] \<and> k < length (ahead p g0)"
proof -
  have w: "gate_inv g" "p \<in> set (gate_queue g)" "k + length (ahead p g) \<le> length (ahead p g0)"
    using gate_waits_inv [OF assms(2,1)] by simp_all
  then have "granted g \<noteq> []" using fifo_gate.busy [of g] by fastforce
  then show ?thesis using w(3) by (simp add: ahead_def) (metis add_gr_0 length_greater_0_conv less_add_same_cancel1 less_le_trans add.commute)
qed

text \<open>The queue's prefix that may run, said directly.\<close>

definition runnable_prefix :: "int \<Rightarrow> int \<Rightarrow> (op_kind \<times> 'w) list \<Rightarrow> (op_kind \<times> 'w) list" where
  "runnable_prefix n a q =
     (case q of (Exclusive, w) # _ \<Rightarrow> if a = 0 then [(Exclusive, w)] else []
      | _ \<Rightarrow> take (nat (n - a)) (takeWhile (\<lambda>p. fst p = Sample) q))"

lemma grant_loop_samples:
  assumes "0 \<le> a" "a \<le> n" "0 < a \<or> (case q of (Exclusive, _) # _ \<Rightarrow> False | _ \<Rightarrow> True)"
  shows "grant_loop n q a gs =
    (let new = take (nat (n - a)) (takeWhile (\<lambda>p. fst p = Sample) q)
     in (drop (length new) q, a + int (length new), False, gs @ new))"
  using assms
proof (induction n q a gs rule: grant_loop.induct)
  case (3 n w q a gs)
  show ?case
  proof (cases "a \<ge> n")
    case True
    then show ?thesis by simp
  next
    case False
    then have k: "nat (n - a) = Suc (nat (n - (a + 1)))" by simp
    have "grant_loop n q (a + 1) (gs @ [(Sample, w)]) =
      (let new = take (nat (n - (a + 1))) (takeWhile (\<lambda>p. fst p = Sample) q)
       in (drop (length new) q, a + 1 + int (length new), False, (gs @ [(Sample, w)]) @ new))"
      by (rule 3(1)) (use False 3(2) in simp_all)
    then show ?thesis using False by (simp add: k Let_def)
  qed
qed auto

text \<open>
  The granting loop equals its specification: what it grants is the longest prefix of the queue that may
  run next to the holders, an exclusive operation only at the head and on an idle gate.
\<close>

theorem grant_is_longest_prefix:
  assumes "gate_counts g" "\<not> exclusive_active g"
  shows "let new = runnable_prefix (max_readers g) (active_samples g) (gate_queue g) in
    grant_ready g = g\<lparr>gate_queue := drop (length new) (gate_queue g), active_samples := active_samples g + samples new,
      exclusive_active := (\<exists>w. new = [(Exclusive, w)]), granted := granted g @ new\<rparr>"
proof -
  have a: "0 \<le> active_samples g" "active_samples g \<le> max_readers g" using assms(1) by (auto simp: gate_counts_def)
  show ?thesis
  proof (cases "\<exists>w q. gate_queue g = (Exclusive, w) # q")
    case True
    then show ?thesis using assms(2) a by (auto simp: grant_ready_def runnable_prefix_def Let_def)
  next
    case False
    define new where "new = take (nat (max_readers g - active_samples g)) (takeWhile (\<lambda>p. fst p = Sample) (gate_queue g))"
    have r: "runnable_prefix (max_readers g) (active_samples g) (gate_queue g) = new"
      using False by (auto simp: runnable_prefix_def new_def split: list.split op_kind.split)
    have s: "\<forall>p \<in> set new. fst p = Sample" unfolding new_def by (auto dest!: in_set_takeD set_takeWhileD)
    then have c: "samples new = int (length new)" "\<nexists>w. new = [(Exclusive, w)]" by (auto simp: samples_def)
    have "case gate_queue g of (Exclusive, _) # _ \<Rightarrow> False | _ \<Rightarrow> True"
      using False by (auto split: list.split op_kind.split)
    then have "grant_loop (max_readers g) (gate_queue g) (active_samples g) (granted g) =
      (drop (length new) (gate_queue g), active_samples g + int (length new), False, granted g @ new)"
      using grant_loop_samples [OF a, of "gate_queue g" "granted g"] by (simp add: new_def Let_def)
    then show ?thesis using assms(2) c unfolding r Let_def by (simp add: grant_ready_def)
  qed
qed

section \<open>Concrete gates\<close>

definition demo_gate :: "nat gate" where
  "demo_gate = \<lparr>max_readers = 2, gate_queue = [], active_samples = 0, exclusive_active = False, granted = []\<rparr>"

lemma demo_gate_run: "gate_run 2 [] {} [] demo_gate"
  by (rule run_init) (simp add: gate_init_def demo_gate_def)

theorem gate_fifo_exclusion_witness:
  "let g = gate_enter Exclusive 1 (gate_enter Sample 0 demo_gate) in
    [(Sample, 0)] @ gate_queue g = [(Sample, 0), (Exclusive, 1)] \<and> granted g = [(Sample, 0)] \<and> \<not> exclusive_active g"
proof -
  have "gate_run 2 ([] @ [(Sample, 0)]) {} ([] @ drop (length (granted demo_gate)) (granted (gate_enter Sample 0 demo_gate)))
      (gate_enter Sample 0 demo_gate)" by (rule run_enter [OF demo_gate_run]) simp_all
  from run_enter [OF this, of 1 _ Exclusive]
  have r: "gate_run 2 [(Sample, 0), (Exclusive, 1)] {} [(Sample, 0)] (gate_enter Exclusive 1 (gate_enter Sample 0 demo_gate))"
    by (simp add: gate_enter_def grant_ready_def demo_gate_def)
  show ?thesis using gate_fifo_exclusion [OF r] by (simp add: gate_enter_def grant_ready_def demo_gate_def)
qed

theorem gate_no_starvation_witness:
  "let g = gate_enter Exclusive 1 (gate_enter Sample 0 demo_gate) in granted g \<noteq> [] \<and> 0 < length (ahead (Exclusive, 1) g)"
proof -
  let ?g = "gate_enter Exclusive 1 (gate_enter Sample 0 demo_gate)"
  have i: "gate_inv ?g"
    by (simp add: gate_enter_def grant_ready_def demo_gate_def gate_inv_def gate_counts_def gate_stable_def distinct_ids_def)
  have "gate_waits (Exclusive, 1) ?g 0 ?g"
    by (rule wait_start) (simp add: gate_enter_def grant_ready_def demo_gate_def)
  from gate_no_starvation [OF i this] show ?thesis by (simp add: Let_def)
qed

theorem grant_is_longest_prefix_witness:
  "grant_ready (demo_gate\<lparr>gate_queue := [(Sample, 0), (Sample, 1), (Sample, 2)]\<rparr>) =
    demo_gate\<lparr>gate_queue := [(Sample, 2)], active_samples := 2, granted := [(Sample, 0), (Sample, 1)]\<rparr>"
proof -
  have "gate_counts (demo_gate\<lparr>gate_queue := [(Sample, 0), (Sample, 1), (Sample, 2)]\<rparr>)"
    by (simp add: gate_counts_def demo_gate_def distinct_ids_def)
  from grant_is_longest_prefix [OF this] show ?thesis
    by (simp add: demo_gate_def runnable_prefix_def numeral_2_eq_2)
qed

end
