(* ===== verification/ModelResources.thy ===== *)
theory ModelResources
  imports Prelude
begin

text \<open>
  \<open>verl_tinker/model_resource_manager.py\<close>: the identities of sessions, logical models, samplers and
  weight versions of the Tinker server, and the late binding of a sampler to a resource that holds its
  weights. The manager keeps no weights; what its numbers mean is the subject of the theory
  \<open>LateBinding\<close>.
\<close>

section \<open>Errors, bindings, state\<close>

text \<open>All four are subclasses of \<open>ModelResourceManagerError\<close>.\<close>

datatype mr_error =
    ManagerError string
  | UnknownSamplerError string
  | UnknownSamplerPathError string
  | StaleSamplerError string

type_synonym 'a mr_result = "mr_error + 'a"

datatype sampling_resource = Teacher | Rollout | Actor | Reference

record sampler_binding =
  sb_sampler_id :: "string option"
  sb_base_model :: string
  sb_model_path :: "string option"
  sb_teacher_model_path :: "string option"
  sb_actor_id :: "int option"

definition is_teacher :: "sampler_binding \<Rightarrow> bool" where
  "is_teacher b \<longleftrightarrow> sb_teacher_model_path b \<noteq> None"

record manager =
  actor_base_model :: string
  actor_model_identifiers :: "string list"
  teacher_model_paths :: "(string, string) dict"
  actor_id :: int
  rollout_id :: "int option"
  next_actor_id :: int
  rollout_enabled :: bool
  reference_enabled :: bool
  state_path_to_actor_id :: "(string, int) dict"
  sampler_path_to_actor_id :: "(string, int) dict"
  samplers :: "(string, sampler_binding) dict"
  next_session_id :: nat
  session_model_ids :: "(string, (string, unit) dict) dict"
  session_sampler_ids :: "(string, (string, unit) dict) dict"
  model_to_session_id :: "(string, string) dict"

text \<open>\<open>dict.fromkeys\<close>: first occurrences, in order.\<close>

definition fromkeys :: "'a list \<Rightarrow> 'a list" where
  "fromkeys xs = foldl (\<lambda>acc x. if x \<in> set acc then acc else acc @ [x]) [] xs"

text \<open>The teachers that precede an ambiguous one stay registered.\<close>

fun configure_teacher_models :: "(string \<times> string) list \<Rightarrow> manager \<Rightarrow> manager \<times> unit mr_result" where
  "configure_teacher_models [] m = (m, Inr ())"
| "configure_teacher_models ((i, p) # ts) m =
     (case dict_get (teacher_model_paths m) i of
        Some q \<Rightarrow> if q \<noteq> p then (m, Inl (ManagerError ''Teacher identifier is ambiguous''))
                  else configure_teacher_models ts (m\<lparr>teacher_model_paths := dict_set i p (teacher_model_paths m)\<rparr>)
      | None \<Rightarrow> configure_teacher_models ts (m\<lparr>teacher_model_paths := dict_set i p (teacher_model_paths m)\<rparr>))"

definition manager_init :: "string list \<Rightarrow> (string \<times> string) list \<Rightarrow> manager mr_result" where
  "manager_init identifiers teachers =
     (case fromkeys (filter (\<lambda>v. v \<noteq> []) identifiers) of
        [] \<Rightarrow> Inl (ManagerError ''At least one actor model identifier is required'')
      | b # bs \<Rightarrow>
          (case configure_teacher_models teachers
             \<lparr>actor_base_model = b, actor_model_identifiers = b # bs, teacher_model_paths = [],
              actor_id = 0, rollout_id = Some 0, next_actor_id = 1, rollout_enabled = True, reference_enabled = False,
              state_path_to_actor_id = [], sampler_path_to_actor_id = [], samplers = [], next_session_id = 0,
              session_model_ids = [], session_sampler_ids = [], model_to_session_id = []\<rparr> of
             (m, Inl e) \<Rightarrow> Inl e
           | (m, Inr _) \<Rightarrow> Inr m))"

section \<open>Sessions and models\<close>

definition int_string :: "int \<Rightarrow> string" where
  "int_string i = (if i < 0 then CHR ''-'' # dec_string (nat (- i)) else dec_string (nat i))"

definition session_name :: "nat \<Rightarrow> string" where
  "session_name n = ''verl-tinker-session:'' @ dec_string n"

definition create_session :: "manager \<Rightarrow> manager \<times> string" where
  "create_session m =
     (let s = session_name (next_session_id m)
      in (m\<lparr>next_session_id := next_session_id m + 1,
            session_model_ids := dict_set s [] (session_model_ids m),
            session_sampler_ids := dict_set s [] (session_sampler_ids m)\<rparr>, s))"

definition session_ids :: "manager \<Rightarrow> string list" where
  "session_ids m = dict_keys (session_model_ids m)"

definition require_session :: "string \<Rightarrow> manager \<Rightarrow> unit mr_result" where
  "require_session s m =
     (if dict_has s (session_model_ids m) then Inr () else Inl (ManagerError ''Unknown Tinker session''))"

text \<open>\<open>d[outer][inner] = None\<close>, for an outer key that is there.\<close>

definition add_inner :: "string \<Rightarrow> string \<Rightarrow> (string, (string, unit) dict) dict \<Rightarrow> (string, (string, unit) dict) dict" where
  "add_inner s i d = dict_set s (dict_set i () (dict_get_default s [] d)) d"

definition model_name :: "string \<Rightarrow> int \<Rightarrow> string" where
  "model_name s k = s @ '':train:'' @ int_string k"

definition register_model :: "string \<Rightarrow> int \<Rightarrow> manager \<Rightarrow> manager \<times> string mr_result" where
  "register_model s k m =
     (case require_session s m of
        Inl e \<Rightarrow> (m, Inl e)
      | Inr _ \<Rightarrow>
          (let i = model_name s k in
           if (case dict_get (model_to_session_id m) i of None \<Rightarrow> False | Some p \<Rightarrow> p \<noteq> s)
           then (m, Inl (ManagerError ''Model ID was reused by a different session''))
           else (m\<lparr>model_to_session_id := dict_set i s (model_to_session_id m),
                   session_model_ids := add_inner s i (session_model_ids m)\<rparr>, Inr i)))"

definition session_id_for_model :: "string \<Rightarrow> manager \<Rightarrow> string mr_result" where
  "session_id_for_model i m =
     (case dict_get (model_to_session_id m) i of
        None \<Rightarrow> Inl (ManagerError ''Unknown training model'') | Some s \<Rightarrow> Inr s)"

definition model_ids_for_session :: "string \<Rightarrow> manager \<Rightarrow> string list mr_result" where
  "model_ids_for_session s m =
     (case require_session s m of Inl e \<Rightarrow> Inl e
      | Inr _ \<Rightarrow> Inr (dict_keys (dict_get_default s [] (session_model_ids m))))"

definition sampler_name :: "string \<Rightarrow> int \<Rightarrow> string" where
  "sampler_name s k = s @ '':sample:'' @ int_string k"

definition sampler_id :: "string \<Rightarrow> int \<Rightarrow> manager \<Rightarrow> manager \<times> string mr_result" where
  "sampler_id s k m =
     (case require_session s m of
        Inl e \<Rightarrow> (m, Inl e)
      | Inr _ \<Rightarrow> (m\<lparr>session_sampler_ids := add_inner s (sampler_name s k) (session_sampler_ids m)\<rparr>, Inr (sampler_name s k)))"

section \<open>Weight versions\<close>

definition configure_resources :: "bool \<Rightarrow> bool \<Rightarrow> manager \<Rightarrow> manager" where
  "configure_resources rollout reference m =
     m\<lparr>rollout_enabled := rollout, reference_enabled := reference,
       rollout_id := if rollout then rollout_id m else None\<rparr>"

definition allocate_actor_id :: "manager \<Rightarrow> manager \<times> int" where
  "allocate_actor_id m = (m\<lparr>next_actor_id := next_actor_id m + 1\<rparr>, next_actor_id m)"

definition actor_updated :: "manager \<Rightarrow> manager" where
  "actor_updated m = (let (m', i) = allocate_actor_id m in m'\<lparr>actor_id := i\<rparr>)"

definition rollout_synchronized :: "manager \<Rightarrow> manager \<times> int mr_result" where
  "rollout_synchronized m =
     (if \<not> rollout_enabled m then (m, Inl (ManagerError ''Cannot synchronize rollout weights when rollout is disabled''))
      else (m\<lparr>rollout_id := Some (actor_id m)\<rparr>, Inr (actor_id m)))"

definition rollout_synchronization_failed :: "manager \<Rightarrow> manager" where
  "rollout_synchronization_failed m = m\<lparr>rollout_id := None\<rparr>"

definition state_saved :: "string \<Rightarrow> manager \<Rightarrow> manager" where
  "state_saved p m = m\<lparr>state_path_to_actor_id := dict_set p (actor_id m) (state_path_to_actor_id m)\<rparr>"

definition is_state_path :: "string \<Rightarrow> manager \<Rightarrow> bool" where
  "is_state_path p m \<longleftrightarrow> dict_has p (state_path_to_actor_id m)"

definition should_skip_state_load :: "string \<Rightarrow> manager \<Rightarrow> bool" where
  "should_skip_state_load p m \<longleftrightarrow> dict_get (state_path_to_actor_id m) p = Some (actor_id m)"

definition state_loaded :: "string \<Rightarrow> manager \<Rightarrow> manager" where
  "state_loaded p m =
     (case dict_get (state_path_to_actor_id m) p of
        Some i \<Rightarrow> m\<lparr>actor_id := i\<rparr>
      | None \<Rightarrow> (let (m', i) = allocate_actor_id m
                 in m'\<lparr>state_path_to_actor_id := dict_set p i (state_path_to_actor_id m'), actor_id := i\<rparr>))"

definition state_load_failed :: "manager \<Rightarrow> manager" where
  "state_load_failed m = actor_updated m"

definition sampler_path_saved :: "string \<Rightarrow> manager \<Rightarrow> manager \<times> int mr_result" where
  "sampler_path_saved p m =
     (case rollout_id m of
        None \<Rightarrow> (m, Inl (ManagerError ''Cannot register sampler path while rollout state is unknown''))
      | Some i \<Rightarrow> (m\<lparr>sampler_path_to_actor_id := dict_set p i (sampler_path_to_actor_id m)\<rparr>, Inr i))"

definition actor_id_for_sampler_path :: "string \<Rightarrow> manager \<Rightarrow> int mr_result" where
  "actor_id_for_sampler_path p m =
     (case dict_get (sampler_path_to_actor_id m) p of
        None \<Rightarrow> Inl (UnknownSamplerPathError ''Unknown sampler checkpoint path'') | Some i \<Rightarrow> Inr i)"

section \<open>Samplers\<close>

definition register_sampler :: "sampler_binding \<Rightarrow> manager \<Rightarrow> manager \<times> sampler_binding mr_result" where
  "register_sampler b m =
     (case sb_sampler_id b of
        None \<Rightarrow> (m, Inl (ManagerError ''Cannot register a sampler without a sampler ID''))
      | Some i \<Rightarrow>
          if (case dict_get (samplers m) i of None \<Rightarrow> False | Some p \<Rightarrow> p \<noteq> b)
          then (m, Inl (ManagerError ''Sampler ID was reused for a different target''))
          else (m\<lparr>samplers := dict_set i b (samplers m)\<rparr>, Inr b))"

definition register_actor_sampler :: "string \<Rightarrow> string \<Rightarrow> int \<Rightarrow> string option \<Rightarrow> manager
    \<Rightarrow> manager \<times> sampler_binding mr_result" where
  "register_actor_sampler i base a path m =
     register_sampler \<lparr>sb_sampler_id = Some i, sb_base_model = base, sb_model_path = path,
       sb_teacher_model_path = None, sb_actor_id = Some a\<rparr> m"

definition register_teacher_sampler :: "string \<Rightarrow> string \<Rightarrow> string \<Rightarrow> manager
    \<Rightarrow> manager \<times> sampler_binding mr_result" where
  "register_teacher_sampler i teacher base m =
     register_sampler \<lparr>sb_sampler_id = Some i, sb_base_model = base, sb_model_path = Some teacher,
       sb_teacher_model_path = Some teacher, sb_actor_id = None\<rparr> m"

text \<open>Python's \<open>x or y\<close> for an optional string.\<close>

definition or_str :: "string option \<Rightarrow> string \<Rightarrow> string" where
  "or_str x y = (case x of None \<Rightarrow> y | Some s \<Rightarrow> if s = [] then y else s)"

text \<open>The binding that \<open>resolve_sampler_target\<close> builds, before it is registered.\<close>

definition target_binding :: "string option \<Rightarrow> string option \<Rightarrow> string option \<Rightarrow> manager \<Rightarrow> sampler_binding mr_result" where
  "target_binding base path sid m =
     (let target = (case path of None \<Rightarrow> base | Some p \<Rightarrow> Some p);
          teacher = (case target of None \<Rightarrow> None | Some t \<Rightarrow> dict_get (teacher_model_paths m) t)
      in case (teacher, target) of
        (Some q, Some t) \<Rightarrow> Inr \<lparr>sb_sampler_id = sid, sb_base_model = or_str base t, sb_model_path = Some q,
          sb_teacher_model_path = Some q, sb_actor_id = None\<rparr>
      | _ \<Rightarrow>
        (case path of
           Some p \<Rightarrow>
             if is_state_path p m then Inl (ManagerError ''Training-state checkpoint cannot be sampled'')
             else if (case base of None \<Rightarrow> False | Some b \<Rightarrow> b \<notin> set (actor_model_identifiers m))
             then Inl (ManagerError ''Sampler checkpoint base_model must be one of the actor identifiers'')
             else (case (if p \<in> set (actor_model_identifiers m) then Inr 0 else actor_id_for_sampler_path p m) of
                 Inl e \<Rightarrow> Inl e
               | Inr a \<Rightarrow> Inr \<lparr>sb_sampler_id = sid, sb_base_model = or_str base (actor_base_model m),
                   sb_model_path = Some p, sb_teacher_model_path = None, sb_actor_id = Some a\<rparr>)
         | None \<Rightarrow>
             if (case base of None \<Rightarrow> False | Some b \<Rightarrow> b \<in> set (actor_model_identifiers m))
             then Inr \<lparr>sb_sampler_id = sid, sb_base_model = actor_base_model m, sb_model_path = None,
               sb_teacher_model_path = None, sb_actor_id = Some 0\<rparr>
             else Inl (ManagerError ''Unknown sampling model'')))"

definition resolve_sampler_target :: "string option \<Rightarrow> string option \<Rightarrow> string option \<Rightarrow> manager
    \<Rightarrow> manager \<times> sampler_binding mr_result" where
  "resolve_sampler_target base path sid m =
     (case target_binding base path sid m of
        Inl e \<Rightarrow> (m, Inl e)
      | Inr b \<Rightarrow> if sid \<noteq> None then register_sampler b m else (m, Inr b))"

definition get_sampler :: "string \<Rightarrow> manager \<Rightarrow> sampler_binding mr_result" where
  "get_sampler i m =
     (case dict_get (samplers m) i of
        None \<Rightarrow> Inl (UnknownSamplerError ''Unknown sampling session'') | Some b \<Rightarrow> Inr b)"

definition resolve_sampling_request :: "string option \<Rightarrow> string option \<Rightarrow> string option \<Rightarrow> manager
    \<Rightarrow> manager \<times> sampler_binding mr_result" where
  "resolve_sampling_request session base path m =
     (case session of
        Some i \<Rightarrow> (m, get_sampler i m)
      | None \<Rightarrow> resolve_sampler_target base path None m)"

definition resolve_resource :: "sampler_binding \<Rightarrow> bool \<Rightarrow> manager \<Rightarrow> sampling_resource mr_result" where
  "resolve_resource b scalar m =
     (if is_teacher b then Inr Teacher
      else case sb_actor_id b of
        None \<Rightarrow> Inl (ManagerError ''Training sampling session has no actor ID'')
      | Some a \<Rightarrow>
          if rollout_enabled m \<and> rollout_id m = Some a then Inr Rollout
          else if scalar \<and> actor_id m = a then Inr Actor
          else if scalar \<and> a = 0 \<and> reference_enabled m then Inr Reference
          else Inl (StaleSamplerError ''cannot be served by the configured resources''))"

definition sampler_ids :: "manager \<Rightarrow> string list" where
  "sampler_ids m = dict_keys (samplers m)"

definition binding_valid :: "manager \<Rightarrow> sampler_binding \<Rightarrow> bool" where
  "binding_valid m b \<longleftrightarrow> is_teacher b \<or>
     (case sb_actor_id b of None \<Rightarrow> False
      | Some a \<Rightarrow> (rollout_enabled m \<and> rollout_id m = Some a) \<or> actor_id m = a \<or> (a = 0 \<and> reference_enabled m))"

definition valid_sampler_ids :: "manager \<Rightarrow> string list" where
  "valid_sampler_ids m = map fst (filter (\<lambda>(i, b). binding_valid m b) (samplers m))"

definition valid_sampler_ids_for_session :: "string \<Rightarrow> manager \<Rightarrow> string list mr_result" where
  "valid_sampler_ids_for_session s m =
     (case require_session s m of Inl e \<Rightarrow> Inl e
      | Inr _ \<Rightarrow> Inr (filter (\<lambda>i. i \<in> set (valid_sampler_ids m)) (dict_keys (dict_get_default s [] (session_sampler_ids m)))))"

section \<open>Operations as steps\<close>

text \<open>
  Every operation that changes the manager, for statements about whole histories. An actor sampler is
  registered for the rollout's version, as the router does.
\<close>

datatype mr_op =
    CreateSession
  | RegisterModel string int
  | SamplerId string int
  | ConfigureResources bool bool
  | ConfigureTeachers "(string \<times> string) list"
  | ActorUpdated
  | RolloutSynchronized
  | RolloutFailed
  | StateSaved string
  | StateLoaded string
  | SamplerPathSaved string
  | RegisterRolloutSampler string string "string option"
  | RegisterTeacherSampler string string string
  | ResolveTarget "string option" "string option" "string option"

fun mr_apply :: "mr_op \<Rightarrow> manager \<Rightarrow> manager" where
  "mr_apply CreateSession m = fst (create_session m)"
| "mr_apply (RegisterModel s k) m = fst (register_model s k m)"
| "mr_apply (SamplerId s k) m = fst (sampler_id s k m)"
| "mr_apply (ConfigureResources r f) m = configure_resources r f m"
| "mr_apply (ConfigureTeachers ts) m = fst (configure_teacher_models ts m)"
| "mr_apply ActorUpdated m = actor_updated m"
| "mr_apply RolloutSynchronized m = fst (rollout_synchronized m)"
| "mr_apply RolloutFailed m = rollout_synchronization_failed m"
| "mr_apply (StateSaved p) m = state_saved p m"
| "mr_apply (StateLoaded p) m = state_loaded p m"
| "mr_apply (SamplerPathSaved p) m = fst (sampler_path_saved p m)"
| "mr_apply (RegisterRolloutSampler i base path) m =
     (case rollout_id m of None \<Rightarrow> m | Some a \<Rightarrow> fst (register_actor_sampler i base a path m))"
| "mr_apply (RegisterTeacherSampler i teacher base) m = fst (register_teacher_sampler i teacher base m)"
| "mr_apply (ResolveTarget base path sid) m = fst (resolve_sampler_target base path sid m)"

definition mr_run :: "mr_op list \<Rightarrow> manager \<Rightarrow> manager" where
  "mr_run ops m = foldl (\<lambda>s x. mr_apply x s) m ops"

section \<open>Names\<close>

lemma dec_string_inj: "dec_string a = dec_string b \<Longrightarrow> a = b"
proof -
  assume "dec_string a = dec_string b"
  then have "py_int (dec_string a) = py_int (dec_string b)" by (rule arg_cong)
  then show ?thesis by simp
qed

lemma dec_string_no_minus: "dec_string a \<noteq> CHR ''-'' # xs"
proof
  assume "dec_string a = CHR ''-'' # xs"
  then have "is_digit (CHR ''-'')" using dec_string_digits [of a] by simp
  then show False using digit_not_special by blast
qed

lemma int_string_inj: "int_string i = int_string j \<Longrightarrow> i = j"
  using dec_string_inj [of "nat i" "nat j"] dec_string_inj [of "nat (- i)" "nat (- j)"]
    dec_string_no_minus [of "nat i"] dec_string_no_minus [of "nat j"]
  by (auto simp: int_string_def split: if_splits) metis

lemma digits_colon_split:
  "list_all is_digit xs \<Longrightarrow> list_all is_digit ys \<Longrightarrow> xs @ CHR '':'' # us = ys @ CHR '':'' # vs \<Longrightarrow> xs = ys \<and> us = vs"
proof (induction xs arbitrary: ys)
  case Nil
  then show ?case by (cases ys) (auto dest: digit_not_special)
next
  case (Cons x xs)
  then show ?case by (cases ys) (auto dest: digit_not_special)
qed

lemma session_name_inj [simp]: "session_name a = session_name b \<longleftrightarrow> a = b"
  using dec_string_inj by (auto simp: session_name_def)

lemma session_suffix_inj:
  "session_name a @ CHR '':'' # us = session_name b @ CHR '':'' # vs \<longleftrightarrow> a = b \<and> us = vs"
  using digits_colon_split [of "dec_string a" "dec_string b" us vs] dec_string_digits [of a] dec_string_digits [of b] dec_string_inj [of a b]
  by (auto simp: session_name_def)

lemma model_name_inj [simp]: "model_name (session_name a) i = model_name (session_name b) j \<longleftrightarrow> a = b \<and> i = j"
  using session_suffix_inj [of a "''train:'' @ int_string i" b "''train:'' @ int_string j"] int_string_inj
  by (auto simp: model_name_def)

lemma sampler_name_inj [simp]: "sampler_name (session_name a) i = sampler_name (session_name b) j \<longleftrightarrow> a = b \<and> i = j"
  using session_suffix_inj [of a "''sample:'' @ int_string i" b "''sample:'' @ int_string j"] int_string_inj
  by (auto simp: sampler_name_def)

lemma model_not_sampler: "model_name (session_name a) i \<noteq> sampler_name (session_name b) j"
  using session_suffix_inj [of a "''train:'' @ int_string i" b "''sample:'' @ int_string j"]
  by (auto simp: sampler_name_def model_name_def)

section \<open>Invariant\<close>

definition used_ids :: "manager \<Rightarrow> int set" where
  "used_ids m = {actor_id m} \<union> set_option (rollout_id m) \<union> ran (dict_get (state_path_to_actor_id m)) \<union>
     ran (dict_get (sampler_path_to_actor_id m)) \<union> {a. \<exists>i b. dict_get (samplers m) i = Some b \<and> sb_actor_id b = Some a}"

definition ids_inv :: "manager \<Rightarrow> bool" where
  "ids_inv m \<longleftrightarrow> 0 < next_actor_id m \<and> (\<forall>a \<in> used_ids m. 0 \<le> a \<and> a < next_actor_id m) \<and>
     (rollout_id m \<noteq> None \<longrightarrow> rollout_enabled m) \<and>
     (\<forall>i b. dict_get (samplers m) i = Some b \<longrightarrow> sb_sampler_id b = Some i) \<and> dict_ok (samplers m)"

definition sessions_inv :: "manager \<Rightarrow> bool" where
  "sessions_inv m \<longleftrightarrow>
     (\<forall>s. dict_has s (session_model_ids m) \<longleftrightarrow> (\<exists>n < next_session_id m. s = session_name n)) \<and>
     (\<forall>s. dict_has s (session_sampler_ids m) \<longleftrightarrow> dict_has s (session_model_ids m)) \<and>
     (\<forall>i s. dict_get (model_to_session_id m) i = Some s \<longleftrightarrow>
        dict_has s (session_model_ids m) \<and> dict_has i (dict_get_default s [] (session_model_ids m))) \<and>
     (\<forall>s i. dict_has i (dict_get_default s [] (session_model_ids m)) \<longrightarrow> (\<exists>k. i = model_name s k))"

text \<open>Parts of the manager that an operation leaves alone.\<close>

lemma configure_teacher_frame:
  "configure_teacher_models ts m = (m', r) \<Longrightarrow> \<exists>t. m' = m\<lparr>teacher_model_paths := t\<rparr>"
proof (induction ts m arbitrary: m' r rule: configure_teacher_models.induct)
  case (1 m)
  then show ?case by (intro exI [of _ "teacher_model_paths m"]) simp
next
  case (2 i p ts m)
  have "\<exists>t. m = m\<lparr>teacher_model_paths := t\<rparr>" by (intro exI [of _ "teacher_model_paths m"]) simp
  then show ?case using 2 by (fastforce split: option.splits if_splits)
qed

lemma target_binding_id: "target_binding base path sid m = Inr b \<Longrightarrow> sb_sampler_id b = sid"
  by (auto simp: target_binding_def Let_def split: option.splits if_splits sum.splits)

lemma target_binding_actor:
  "target_binding base path sid m = Inr b \<Longrightarrow> sb_actor_id b = Some a \<Longrightarrow>
     a = 0 \<or> (\<exists>p. dict_get (sampler_path_to_actor_id m) p = Some a)"
  by (auto simp: target_binding_def Let_def actor_id_for_sampler_path_def split: option.splits if_splits sum.splits)

lemma register_sampler_cases:
  assumes "register_sampler b m = (m', r)"
  shows "m' = m \<or> (\<exists>i. sb_sampler_id b = Some i \<and> r = Inr b \<and> m' = m\<lparr>samplers := dict_set i b (samplers m)\<rparr> \<and>
    (dict_get (samplers m) i = None \<or> dict_get (samplers m) i = Some b))"
  using assms by (auto simp: register_sampler_def split: option.splits if_splits)

lemma resolve_target_cases:
  assumes "resolve_sampler_target base path sid m = (m', r)"
  shows "m' = m \<or> (\<exists>b. target_binding base path sid m = Inr b \<and> register_sampler b m = (m', r))"
  using assms by (auto simp: resolve_sampler_target_def split: sum.splits if_splits)

lemma ran_set: "x \<in> ran ((dict_get d)(k \<mapsto> v)) \<Longrightarrow> x = v \<or> x \<in> ran (dict_get d)"
  by (auto simp: ran_def split: if_splits)

lemma register_ids_inv:
  assumes "ids_inv m" "register_sampler b m = (m', r)" "\<And>a. sb_actor_id b = Some a \<Longrightarrow> 0 \<le> a \<and> a < next_actor_id m"
  shows "ids_inv m'"
  using register_sampler_cases [OF assms(2)]
proof
  assume "\<exists>i. sb_sampler_id b = Some i \<and> r = Inr b \<and> m' = m\<lparr>samplers := dict_set i b (samplers m)\<rparr> \<and>
    (dict_get (samplers m) i = None \<or> dict_get (samplers m) i = Some b)"
  then obtain i where i: "sb_sampler_id b = Some i" "m' = m\<lparr>samplers := dict_set i b (samplers m)\<rparr>" by blast
  then have "a \<in> used_ids m \<or> sb_actor_id b = Some a" if "a \<in> used_ids m'" for a
    using that by (auto simp: used_ids_def split: if_splits)
  then show ?thesis using assms i by (auto simp: ids_inv_def)
qed (use assms(1) in simp)

lemma ids_inv_next:
  assumes "ids_inv m"
  shows "ids_inv (actor_updated m)" "\<And>p. ids_inv (state_loaded p m)" "\<And>p. ids_inv (state_saved p m)"
proof -
  have u: "0 \<le> a \<and> a < next_actor_id m" if "a \<in> used_ids m" for a using assms that by (simp add: ids_inv_def)
  have n: "0 < next_actor_id m" using assms by (simp add: ids_inv_def)
  have "a \<in> used_ids m \<or> a = next_actor_id m" if "a \<in> used_ids (actor_updated m)" for a
    using that by (auto simp: used_ids_def actor_updated_def allocate_actor_id_def)
  then show "ids_inv (actor_updated m)" using assms u n
    unfolding ids_inv_def by (fastforce simp: actor_updated_def allocate_actor_id_def)
  fix p
  have "a \<in> used_ids m" if "a \<in> used_ids (state_saved p m)" for a
    using that by (auto simp: used_ids_def state_saved_def dest: ran_set)
  then show "ids_inv (state_saved p m)" using assms unfolding ids_inv_def by (fastforce simp: state_saved_def)
  show "ids_inv (state_loaded p m)"
  proof (cases "dict_get (state_path_to_actor_id m) p")
    case None
    then have "a \<in> used_ids m \<or> a = next_actor_id m" if "a \<in> used_ids (state_loaded p m)" for a
      using that by (auto simp: used_ids_def state_loaded_def allocate_actor_id_def dest: ran_set)
    then show ?thesis using assms u n None unfolding ids_inv_def by (fastforce simp: state_loaded_def allocate_actor_id_def)
  next
    case (Some i)
    then have "a \<in> used_ids m" if "a \<in> used_ids (state_loaded p m)" for a
      using that by (auto simp: used_ids_def state_loaded_def ran_def)
    then show ?thesis using assms Some unfolding ids_inv_def by (fastforce simp: state_loaded_def)
  qed
qed

lemma ids_inv_cong:
  assumes "ids_inv m" "actor_id m' = actor_id m" "rollout_id m' = rollout_id m" "next_actor_id m' = next_actor_id m"
    "rollout_enabled m' = rollout_enabled m" "state_path_to_actor_id m' = state_path_to_actor_id m"
    "sampler_path_to_actor_id m' = sampler_path_to_actor_id m" "samplers m' = samplers m"
  shows "ids_inv m'"
  using assms by (simp add: ids_inv_def used_ids_def)

lemma ids_inv_apply:
  assumes "ids_inv m"
  shows "ids_inv (mr_apply x m)"
proof (cases x)
  case CreateSession
  then show ?thesis using assms by (simp add: create_session_def Let_def ids_inv_cong [OF assms])
next
  case (RegisterModel s k)
  have "ids_inv (fst (register_model s k m))"
    by (rule ids_inv_cong [OF assms]) (auto simp: register_model_def Let_def split: sum.splits if_splits)
  then show ?thesis using RegisterModel by simp
next
  case (SamplerId s k)
  have "ids_inv (fst (sampler_id s k m))"
    by (rule ids_inv_cong [OF assms]) (auto simp: sampler_id_def split: sum.splits)
  then show ?thesis using SamplerId by simp
next
  case (ConfigureResources r f)
  have "used_ids (configure_resources r f m) \<subseteq> used_ids m" by (auto simp: used_ids_def configure_resources_def split: if_splits)
  then have "\<forall>a \<in> used_ids (configure_resources r f m). 0 \<le> a \<and> a < next_actor_id m"
    using assms unfolding ids_inv_def by blast
  then have "ids_inv (configure_resources r f m)" using assms by (simp add: ids_inv_def) (simp add: configure_resources_def)
  then show ?thesis using ConfigureResources by simp
next
  case (ConfigureTeachers ts)
  obtain m' r where c: "configure_teacher_models ts m = (m', r)" by (cases "configure_teacher_models ts m")
  from configure_teacher_frame [OF c] obtain t where "m' = m\<lparr>teacher_model_paths := t\<rparr>" by blast
  then show ?thesis using ConfigureTeachers c ids_inv_cong [OF assms] by simp
next
  case RolloutSynchronized
  then show ?thesis using assms by (auto simp: rollout_synchronized_def ids_inv_def used_ids_def)
next
  case RolloutFailed
  then show ?thesis using assms by (auto simp: rollout_synchronization_failed_def ids_inv_def used_ids_def)
next
  case (SamplerPathSaved p)
  show ?thesis
  proof (cases "rollout_id m")
    case (Some i)
    let ?m = "m\<lparr>sampler_path_to_actor_id := dict_set p i (sampler_path_to_actor_id m)\<rparr>"
    have "used_ids ?m \<subseteq> used_ids m" using Some by (auto simp: used_ids_def dest: ran_set)
    then have "ids_inv ?m" using assms unfolding ids_inv_def by auto
    then show ?thesis using SamplerPathSaved Some by (simp add: sampler_path_saved_def)
  qed (use SamplerPathSaved assms in \<open>simp add: sampler_path_saved_def\<close>)
next
  case (RegisterRolloutSampler i base path)
  show ?thesis
  proof (cases "rollout_id m")
    case (Some a)
    have "0 \<le> a \<and> a < next_actor_id m" using assms Some by (auto simp: ids_inv_def used_ids_def)
    moreover obtain m' r where r: "register_actor_sampler i base a path m = (m', r)" by (cases "register_actor_sampler i base a path m")
    ultimately show ?thesis using RegisterRolloutSampler Some
        register_ids_inv [OF assms r [unfolded register_actor_sampler_def]] by simp
  qed (use RegisterRolloutSampler assms in simp)
next
  case (RegisterTeacherSampler i t base)
  obtain m' r where r: "register_teacher_sampler i t base m = (m', r)" by (cases "register_teacher_sampler i t base m")
  then show ?thesis using RegisterTeacherSampler register_ids_inv [OF assms r [unfolded register_teacher_sampler_def]] by simp
next
  case (ResolveTarget base path sid)
  obtain m' r where r: "resolve_sampler_target base path sid m = (m', r)" by (cases "resolve_sampler_target base path sid m")
  from resolve_target_cases [OF r] have "ids_inv m'"
  proof
    assume "\<exists>b. target_binding base path sid m = Inr b \<and> register_sampler b m = (m', r)"
    then obtain b where b: "target_binding base path sid m = Inr b" "register_sampler b m = (m', r)" by blast
    have "0 \<le> a \<and> a < next_actor_id m" if "sb_actor_id b = Some a" for a
      using target_binding_actor [OF b(1) that] assms by (auto simp: ids_inv_def used_ids_def ran_def)
    then show ?thesis by (rule register_ids_inv [OF assms b(2)])
  qed (use assms in simp)
  then show ?thesis using ResolveTarget r by simp
qed (simp_all add: ids_inv_next assms)

text \<open>Sessions, models and samplers of a session change together.\<close>

lemma dict_get_add_inner: "dict_get_default t [] (add_inner s i d) =
    (if t = s then dict_set i () (dict_get_default s [] d) else dict_get_default t [] d)"
  by (simp add: add_inner_def)

lemma dict_has_add_inner: "dict_has t (add_inner s i d) \<longleftrightarrow> t = s \<or> dict_has t d"
  by (simp add: add_inner_def)

lemma sessions_inv_cong:
  assumes "sessions_inv m" "next_session_id m' = next_session_id m" "session_model_ids m' = session_model_ids m"
    "session_sampler_ids m' = session_sampler_ids m" "model_to_session_id m' = model_to_session_id m"
  shows "sessions_inv m'"
  using assms by (simp add: sessions_inv_def)

lemma default_not_has: "\<not> dict_has s d \<Longrightarrow> dict_get_default s [] d = []"
  by (simp add: dict_get_default_def dict_has_def)

lemma sessions_inv_create:
  assumes "sessions_inv m"
  shows "sessions_inv (fst (create_session m))"
proof -
  let ?s = "session_name (next_session_id m)"
  have n: "\<not> dict_has ?s (session_model_ids m)" using assms by (auto simp: sessions_inv_def)
  have "dict_get (model_to_session_id m) i \<noteq> Some ?s" for i using n assms unfolding sessions_inv_def by metis
  then show ?thesis using assms default_not_has [OF n] unfolding sessions_inv_def
    by (auto simp: create_session_def Let_def less_Suc_eq)
qed

text \<open>A model id names its session, so it is never taken by another one.\<close>

lemma register_model_eq:
  assumes "sessions_inv m" "dict_has s (session_model_ids m)"
  shows "register_model s k m =
    (m\<lparr>model_to_session_id := dict_set (model_name s k) s (model_to_session_id m),
       session_model_ids := add_inner s (model_name s k) (session_model_ids m)\<rparr>, Inr (model_name s k))"
proof -
  obtain n where n: "s = session_name n" using assms unfolding sessions_inv_def by blast
  have "t = s" if t: "dict_get (model_to_session_id m) (model_name s k) = Some t" for t
  proof -
    have "dict_has t (session_model_ids m)" "dict_has (model_name s k) (dict_get_default t [] (session_model_ids m))"
      using assms(1) t unfolding sessions_inv_def by blast+
    moreover from this obtain n' j where "t = session_name n'" "model_name s k = model_name t j"
      using assms(1) unfolding sessions_inv_def by blast
    ultimately show ?thesis using n by simp
  qed
  then show ?thesis using assms(2) by (auto simp: register_model_def require_session_def Let_def split: option.splits)
qed

lemma sessions_inv_register:
  assumes "sessions_inv m"
  shows "sessions_inv (fst (register_model s k m))"
proof (cases "dict_has s (session_model_ids m)")
  case False
  then show ?thesis using assms by (simp add: register_model_def require_session_def)
next
  case True
  let ?i = "model_name s k"
  obtain n where n: "s = session_name n" using assms True unfolding sessions_inv_def by blast
  have other: "\<not> dict_has ?i (dict_get_default t [] (session_model_ids m))" if "t \<noteq> s" for t
  proof
    assume h: "dict_has ?i (dict_get_default t [] (session_model_ids m))"
    then have "dict_has t (session_model_ids m)" by (metis default_not_has dict_has_Nil)
    then obtain n' j where "t = session_name n'" "?i = model_name t j" using assms h unfolding sessions_inv_def by blast
    then show False using n that by simp
  qed
  show ?thesis
    using assms True other unfolding register_model_eq [OF assms True] sessions_inv_def
    by (auto simp: dict_get_add_inner dict_has_add_inner split: if_splits)
qed

lemma sessions_inv_apply:
  assumes "sessions_inv m"
  shows "sessions_inv (mr_apply x m)"
proof (cases x)
  case CreateSession
  then show ?thesis using sessions_inv_create [OF assms] by simp
next
  case (RegisterModel s k)
  then show ?thesis using sessions_inv_register [OF assms] by simp
next
  case (SamplerId s k)
  then show ?thesis using assms
    by (auto simp: sampler_id_def require_session_def sessions_inv_def dict_has_add_inner)
next
  case (ConfigureTeachers ts)
  obtain m' r where c: "configure_teacher_models ts m = (m', r)" by (cases "configure_teacher_models ts m")
  from configure_teacher_frame [OF c] obtain t where "m' = m\<lparr>teacher_model_paths := t\<rparr>" by blast
  then show ?thesis using ConfigureTeachers c sessions_inv_cong [OF assms] by simp
next
  case (RegisterRolloutSampler i base path)
  show ?thesis
    by (rule sessions_inv_cong [OF assms])
      (simp_all add: RegisterRolloutSampler register_actor_sampler_def register_sampler_def split: option.split)
next
  case (RegisterTeacherSampler i t base)
  show ?thesis
    by (rule sessions_inv_cong [OF assms])
      (simp_all add: RegisterTeacherSampler register_teacher_sampler_def register_sampler_def split: option.split)
next
  case (ResolveTarget base path sid)
  obtain m' r where r: "resolve_sampler_target base path sid m = (m', r)" by (cases "resolve_sampler_target base path sid m")
  from resolve_target_cases [OF r] have "sessions_inv m'"
    by (auto dest!: register_sampler_cases intro: sessions_inv_cong [OF assms] simp: assms)
  then show ?thesis using ResolveTarget r by simp
qed (rule sessions_inv_cong [OF assms];
     simp add: configure_resources_def actor_updated_def allocate_actor_id_def rollout_synchronized_def
       rollout_synchronization_failed_def state_saved_def state_loaded_def sampler_path_saved_def split: option.split)+

lemma manager_init_inv:
  assumes "manager_init ids teachers = Inr m"
  shows "ids_inv m \<and> sessions_inv m \<and> actor_id m = 0 \<and> rollout_id m = Some 0"
proof -
  obtain b bs r where c: "fromkeys (filter (\<lambda>v. v \<noteq> []) ids) = b # bs" "configure_teacher_models teachers
             \<lparr>actor_base_model = b, actor_model_identifiers = b # bs, teacher_model_paths = [],
              actor_id = 0, rollout_id = Some 0, next_actor_id = 1, rollout_enabled = True, reference_enabled = False,
              state_path_to_actor_id = [], sampler_path_to_actor_id = [], samplers = [], next_session_id = 0,
              session_model_ids = [], session_sampler_ids = [], model_to_session_id = []\<rparr> = (m, r)"
    using assms by (auto simp: manager_init_def split: list.splits prod.splits sum.splits)
  from configure_teacher_frame [OF c(2)] show ?thesis
    by (auto simp: ids_inv_def used_ids_def sessions_inv_def dict_get_default_def)
qed

lemma mr_run_snoc [simp]: "mr_run (xs @ [x]) m = mr_apply x (mr_run xs m)"
  by (simp add: mr_run_def)

lemma mr_run_inv: "ids_inv m \<Longrightarrow> sessions_inv m \<Longrightarrow> ids_inv (mr_run xs m) \<and> sessions_inv (mr_run xs m)"
  by (induction xs rule: rev_induct) (simp_all add: ids_inv_apply sessions_inv_apply, simp_all add: mr_run_def)

section \<open>Properties\<close>

text \<open>
  Weight identities are never reused: after any history of operations, every version number that the
  manager has recorded anywhere (actor, rollout, checkpoint paths, samplers) is below the
  counter, so the number given after the next update is none of them; and the rollout has a version
  only while it is enabled.
\<close>

theorem weight_ids_fresh:
  assumes "manager_init names teachers = Inr m0"
  shows "actor_id (actor_updated (mr_run xs m0)) \<notin> used_ids (mr_run xs m0) \<and>
    (\<forall>a \<in> used_ids (mr_run xs m0). 0 \<le> a) \<and>
    (rollout_id (mr_run xs m0) \<noteq> None \<longrightarrow> rollout_enabled (mr_run xs m0))"
proof -
  have "ids_inv (mr_run xs m0)" using manager_init_inv [OF assms] mr_run_inv by simp
  then show ?thesis by (auto simp: ids_inv_def actor_updated_def allocate_actor_id_def)
qed

text \<open>
  Ids are retry stable and unambiguous: after any history, registering a model of a known session succeeds
  (the reuse error cannot occur), gives the same id on every retry, and the id leads back to
  its session; ids of different sessions or sequence numbers differ, and no model id is a sampler id.
\<close>

theorem model_ids_roundtrip:
  assumes "manager_init names teachers = Inr m0" "s \<in> set (session_ids (mr_run xs m0))"
  shows "(let (m, r) = register_model s k (mr_run xs m0) in
      r = Inr (model_name s k) \<and> session_id_for_model (model_name s k) m = Inr s \<and>
      snd (register_model s k m) = r) \<and>
    (\<forall>t \<in> set (session_ids (mr_run xs m0)). \<forall>j.
      (model_name s k = model_name t j \<longleftrightarrow> s = t \<and> k = j) \<and> model_name s k \<noteq> sampler_name t j)"
proof -
  have i: "sessions_inv (mr_run xs m0)" using manager_init_inv [OF assms(1)] mr_run_inv by simp
  have h: "dict_has s (session_model_ids (mr_run xs m0))" using assms(2) by (simp add: session_ids_def dict_has_iff)
  note r = register_model_eq [OF i h, of k]
  have i': "sessions_inv (fst (register_model s k (mr_run xs m0)))" by (rule sessions_inv_register [OF i])
  have h': "dict_has s (session_model_ids (fst (register_model s k (mr_run xs m0))))"
    using h by (simp add: r dict_has_add_inner)
  have n: "\<exists>n. t = session_name n" if "t \<in> set (session_ids (mr_run xs m0))" for t
    using i that unfolding sessions_inv_def session_ids_def by (metis dict_has_iff)
  have "(model_name s k = model_name t j \<longleftrightarrow> s = t \<and> k = j) \<and> model_name s k \<noteq> sampler_name t j"
    if known: "t \<in> set (session_ids (mr_run xs m0))" for t j
  proof -
    obtain a b where "s = session_name a" "t = session_name b" using n [OF assms(2)] n [OF known] by blast
    then show ?thesis using model_not_sampler by simp
  qed
  then show ?thesis
    using register_model_eq [OF i' h', of k] by (simp add: r session_id_for_model_def)
qed

text \<open>
  A sampler is bound once and for all: whatever operations follow, a registered sampler keeps its
  binding; registering the same binding again succeeds, and any other target for its id is refused.
\<close>

lemma register_keeps:
  assumes "dict_get (samplers m) i = Some b"
  shows "dict_get (samplers (fst (register_sampler c m))) i = Some b"
  using assms by (auto simp: register_sampler_def split: option.splits)

lemma mr_apply_keeps:
  assumes "dict_get (samplers m) i = Some b"
  shows "dict_get (samplers (mr_apply x m)) i = Some b"
proof (cases x)
  case (ConfigureTeachers ts)
  obtain m' r where c: "configure_teacher_models ts m = (m', r)" by (cases "configure_teacher_models ts m")
  from configure_teacher_frame [OF c] obtain t where "m' = m\<lparr>teacher_model_paths := t\<rparr>" by blast
  then show ?thesis using ConfigureTeachers c assms by simp
next
  case (RegisterModel s k)
  have "samplers (fst (register_model s k m)) = samplers m"
    by (auto simp: register_model_def Let_def split: sum.split)
  then show ?thesis using RegisterModel assms by simp
next
  case (SamplerId s k)
  have "samplers (fst (sampler_id s k m)) = samplers m" by (simp add: sampler_id_def split: sum.split)
  then show ?thesis using SamplerId assms by simp
next
  case (RegisterRolloutSampler j base path)
  then show ?thesis using assms register_keeps [OF assms] by (auto simp: register_actor_sampler_def split: option.split)
next
  case (RegisterTeacherSampler j t base)
  then show ?thesis using register_keeps [OF assms] by (simp add: register_teacher_sampler_def)
next
  case (ResolveTarget base path sid)
  then show ?thesis using assms register_keeps [OF assms] by (simp add: resolve_sampler_target_def split: sum.split)
qed (use assms in \<open>simp_all add: create_session_def configure_resources_def actor_updated_def allocate_actor_id_def
  rollout_synchronized_def rollout_synchronization_failed_def state_saved_def state_loaded_def sampler_path_saved_def
  Let_def split: option.split\<close>)

lemma mr_run_keeps:
  "dict_get (samplers m) i = Some b \<Longrightarrow> dict_get (samplers (mr_run xs m)) i = Some b"
  by (induction xs rule: rev_induct) (simp_all add: mr_apply_keeps, simp add: mr_run_def)

theorem sampler_bound_once:
  assumes "snd (register_sampler b m) = Inr b'" "sb_sampler_id b = Some i"
  shows "(let n = mr_run xs (fst (register_sampler b m)) in
    get_sampler i n = Inr b \<and> snd (register_sampler b n) = Inr b \<and>
    (\<forall>c. sb_sampler_id c = Some i \<and> c \<noteq> b \<longrightarrow> (\<exists>e. register_sampler c n = (n, Inl e))))"
proof -
  have "dict_get (samplers (fst (register_sampler b m))) i = Some b"
    using assms by (auto simp: register_sampler_def split: option.splits if_splits)
  from mr_run_keeps [OF this] show ?thesis using assms(2) by (auto simp: get_sampler_def register_sampler_def)
qed

text \<open>
  The samplers listed as valid are exactly those that some kind of request can still be served for: the
  condition of \<open>valid_sampler_ids\<close>, a separate copy of the late-binding rules, agrees with
  \<open>resolve_resource\<close>, for every session's list as well.
\<close>

theorem valid_samplers_resolvable:
  assumes "manager_init names teachers = Inr m0"
  shows "i \<in> set (valid_sampler_ids (mr_run xs m0)) \<longleftrightarrow>
    (\<exists>b scalar res. get_sampler i (mr_run xs m0) = Inr b \<and> resolve_resource b scalar (mr_run xs m0) = Inr res)"
proof -
  let ?m = "mr_run xs m0"
  have "ids_inv ?m" using manager_init_inv [OF assms] mr_run_inv by simp
  then have d: "distinct (map fst (samplers ?m))" by (simp add: ids_inv_def dict_ok_def)
  have "binding_valid ?m b" if "resolve_resource b scalar ?m = Inr res" for b scalar res
    using that by (auto simp: binding_valid_def resolve_resource_def split: option.splits if_splits)
  moreover have "\<exists>res. resolve_resource b True ?m = Inr res" if "binding_valid ?m b" for b
    using that by (cases "sb_actor_id b") (auto simp add: binding_valid_def resolve_resource_def)
  ultimately have "binding_valid ?m b \<longleftrightarrow> (\<exists>scalar res. resolve_resource b scalar ?m = Inr res)" for b by metis
  moreover have "i \<in> set (valid_sampler_ids ?m) \<longleftrightarrow> (\<exists>b. dict_get (samplers ?m) i = Some b \<and> binding_valid ?m b)"
    using d by (auto simp: valid_sampler_ids_def image_iff)
  ultimately show ?thesis by (auto simp: get_sampler_def split: option.splits)
qed

section \<open>A concrete manager\<close>

definition demo_manager :: manager where
  "demo_manager = (case manager_init [''qwen'', ''/models/qwen''] [(''big'', ''/models/big'')] of Inr m \<Rightarrow> m | Inl _ \<Rightarrow> undefined)"

lemma demo_manager_init: "manager_init [''qwen'', ''/models/qwen''] [(''big'', ''/models/big'')] = Inr demo_manager"
  by (simp add: demo_manager_def manager_init_def fromkeys_def)

theorem weight_ids_fresh_witness:
  "actor_id (actor_updated (mr_run [ActorUpdated, StateSaved ''p'', ActorUpdated, StateLoaded ''p''] demo_manager)) \<notin>
     used_ids (mr_run [ActorUpdated, StateSaved ''p'', ActorUpdated, StateLoaded ''p''] demo_manager)"
  using weight_ids_fresh [OF demo_manager_init] by blast

theorem model_ids_roundtrip_witness:
  "snd (register_model (session_name 0) 3 (mr_run [CreateSession] demo_manager)) = Inr (model_name (session_name 0) 3)"
proof -
  have "session_name 0 \<in> set (session_ids (mr_run [CreateSession] demo_manager))"
    by (simp add: demo_manager_def manager_init_def fromkeys_def mr_run_def create_session_def session_ids_def Let_def)
  from model_ids_roundtrip [OF demo_manager_init this, of 3, unfolded Let_def case_prod_beta]
  show ?thesis by (rule conjunct1 [OF conjunct1])
qed

theorem sampler_bound_once_witness:
  "get_sampler ''s'' (mr_run [ActorUpdated, RolloutFailed] (fst (register_sampler \<lparr>sb_sampler_id = Some ''s'', sb_base_model = ''qwen'',
     sb_model_path = None, sb_teacher_model_path = None, sb_actor_id = Some 0\<rparr> demo_manager))) =
   Inr \<lparr>sb_sampler_id = Some ''s'', sb_base_model = ''qwen'', sb_model_path = None, sb_teacher_model_path = None, sb_actor_id = Some 0\<rparr>"
proof -
  let ?b = "\<lparr>sb_sampler_id = Some ''s'', sb_base_model = ''qwen'', sb_model_path = None, sb_teacher_model_path = None, sb_actor_id = Some (0::int)\<rparr>"
  have "snd (register_sampler ?b demo_manager) = Inr ?b"
    by (simp add: register_sampler_def demo_manager_def manager_init_def fromkeys_def)
  from sampler_bound_once [OF this, of "''s''" "[ActorUpdated, RolloutFailed]"] show ?thesis by (simp add: Let_def)
qed

theorem valid_samplers_resolvable_witness:
  "''s'' \<in> set (valid_sampler_ids (mr_run [RegisterRolloutSampler ''s'' ''qwen'' None] demo_manager)) \<longleftrightarrow>
    (\<exists>b scalar res. get_sampler ''s'' (mr_run [RegisterRolloutSampler ''s'' ''qwen'' None] demo_manager) = Inr b \<and>
      resolve_resource b scalar (mr_run [RegisterRolloutSampler ''s'' ''qwen'' None] demo_manager) = Inr res)"
  by (rule valid_samplers_resolvable [OF demo_manager_init])

end
