(* ===== verification/TinkerServer.thy ===== *)
theory TinkerServer
  imports ModelResources
begin

text \<open>
  The operations of \<open>verl_tinker/tinker_router.py\<close> and \<open>tinker_ops.py\<close> that move weights between the
  actor, the rollout and the checkpoints, with the resource manager's bookkeeping, and the meaning of
  the version numbers. The engine is outside the model: each operation on it is given with its outcome,
  success or failure, and the weights it leaves.
\<close>

section \<open>Checkpoint paths\<close>

text \<open>Python's \<open>str.isalnum\<close> for a character of one byte (Latin-1).\<close>

definition is_alnum :: "char \<Rightarrow> bool" where
  "is_alnum c \<longleftrightarrow> (let n = of_char c :: nat in
     (48 \<le> n \<and> n \<le> 57) \<or> (65 \<le> n \<and> n \<le> 90) \<or> (97 \<le> n \<and> n \<le> 122) \<or>
     n \<in> {170, 178, 179, 181, 185, 186, 188, 189, 190} \<or> (192 \<le> n \<and> n \<noteq> 215 \<and> n \<noteq> 247))"

definition safe_char :: "char \<Rightarrow> char" where
  "safe_char c = (if is_alnum c \<or> c \<in> {CHR ''-'', CHR ''_'', CHR ''.''} then c else CHR ''_'')"

text \<open>\<open>uri.rsplit('/', 1)[-1]\<close>\<close>

definition last_segment :: "string \<Rightarrow> string" where
  "last_segment u = rev (takeWhile (\<lambda>c. c \<noteq> CHR ''/'') (rev u))"

definition rstrip_slash :: "string \<Rightarrow> string" where
  "rstrip_slash r = rev (dropWhile (\<lambda>c. c = CHR ''/'') (rev r))"

definition state_path_to_local :: "string \<Rightarrow> string \<Rightarrow> string \<Rightarrow> string" where
  "state_path_to_local fresh root uri =
     rstrip_slash root @ ''/'' @ map safe_char (if uri \<noteq> [] then last_segment uri else fresh)"

definition state_uri :: "string \<Rightarrow> string" where
  "state_uri tag = ''tinker://verl-tinker/state/'' @ tag"

lemma takeWhile_append_stop: "\<not> P x \<Longrightarrow> takeWhile P (xs @ x # ys) = takeWhile P xs"
  by (induction xs) auto

lemma last_segment_append: "last_segment (xs @ CHR ''/'' # ys) = last_segment ys"
  by (simp add: last_segment_def takeWhile_append_stop)

section \<open>Server and engine\<close>

datatype md_file = Metadata "string option" | NotAnObject

record 'w server =
  ts_mgr :: manager
  ts_root :: string
  ts_saved_paths :: "(string, string) dict"
  ts_saved_meta :: "(string, string option) dict"
  ts_model_meta :: "(string, string option) dict"
  ts_model_base :: "(string, string) dict"
  ts_step :: int
  en_actor :: 'w
  en_rollout :: 'w
  en_reference :: 'w
  en_disk :: "string \<Rightarrow> 'w option"
  en_meta_file :: "string \<Rightarrow> md_file option"

datatype srv_error = HTTP nat string | Engine | Manager mr_error | Invalid string

type_synonym 'a srv_result = "srv_error + 'a"

text \<open>An engine call either completes or fails, leaving the given weights.\<close>

datatype 'x outcome = Done 'x | Failed 'x

fun leaves :: "'x outcome \<Rightarrow> 'x" where
  "leaves (Done x) = x"
| "leaves (Failed x) = x"

definition local_dir :: "'w server \<Rightarrow> string \<Rightarrow> string" where
  "local_dir s uri = (case dict_get (ts_saved_paths s) uri of
     Some (c # d) \<Rightarrow> c # d | _ \<Rightarrow> state_path_to_local [] (ts_root s) uri)"

subsection \<open>Operations under the gate\<close>

text \<open>Whether the step completes or fails, the actor's weights get a fresh version.\<close>

definition run_optim_step :: "'w outcome \<Rightarrow> 'w server \<Rightarrow> 'w server \<times> unit srv_result" where
  "run_optim_step o' s =
     (s\<lparr>en_actor := leaves o', ts_mgr := actor_updated (ts_mgr s)\<rparr>,
      case o' of Done _ \<Rightarrow> Inr () | Failed _ \<Rightarrow> Inl Engine)"

text \<open>A save that completes leaves the actor's weights in the directory; one that fails, anything.\<close>

definition run_save_state :: "string \<Rightarrow> string option \<Rightarrow> string \<Rightarrow> 'w option outcome \<Rightarrow> 'w server
    \<Rightarrow> 'w server \<times> string srv_result" where
  "run_save_state model_id name uuid o' s =
     (case dict_get (ts_model_meta s) model_id of
        None \<Rightarrow> (s, Inl (HTTP 409 ''No metadata for model; create_model must run first''))
      | Some meta \<Rightarrow>
          (let uri = state_uri (or_str name uuid); d = state_path_to_local [] (ts_root s) uri
           in case o' of
             Failed w \<Rightarrow> (s\<lparr>en_disk := (en_disk s)(d := w)\<rparr>, Inl Engine)
           | Done _ \<Rightarrow>
               (s\<lparr>en_disk := (en_disk s)(d := Some (en_actor s)), ts_saved_paths := dict_set uri d (ts_saved_paths s),
                  ts_saved_meta := dict_set uri meta (ts_saved_meta s),
                  en_meta_file := (en_meta_file s)(d := Some (Metadata meta)),
                  ts_mgr := state_saved uri (ts_mgr s)\<rparr>, Inr uri)))"

definition resolve_load_path :: "string \<Rightarrow> 'w server \<Rightarrow> 'w srv_result" where
  "resolve_load_path uri s =
     (if take 9 uri \<noteq> ''tinker://'' then Inl (HTTP 400 ''Invalid checkpoint path'')
      else case en_disk s (local_dir s uri) of
        None \<Rightarrow> Inl (HTTP 404 ''Unknown checkpoint path'') | Some w \<Rightarrow> Inr w)"

definition run_load_state :: "string \<Rightarrow> 'w option \<Rightarrow> 'w server \<Rightarrow> 'w server \<times> unit srv_result" where
  "run_load_state uri failed s =
     (case resolve_load_path uri s of
        Inl e \<Rightarrow> (s, Inl e)
      | Inr w \<Rightarrow>
          if should_skip_state_load uri (ts_mgr s) then (s, Inr ())
          else case failed of
            Some w' \<Rightarrow> (s\<lparr>en_actor := w', ts_mgr := state_load_failed (ts_mgr s)\<rparr>, Inl Engine)
          | None \<Rightarrow> (s\<lparr>en_actor := w, ts_mgr := state_loaded uri (ts_mgr s)\<rparr>, Inr ()))"

text \<open>
  \<open>save_weights_for_sampler\<close>: the weights go to the rollout; a named request records a sampler path, an
  unnamed one registers a sampler of the model's session.
\<close>

definition sampler_uri :: "string \<Rightarrow> string" where
  "sampler_uri hex = ''tinker://verl-tinker/weights/step-'' @ take 8 hex"

definition sync_rollout :: "'w outcome \<Rightarrow> 'w server \<Rightarrow> 'w server \<times> int srv_result" where
  "sync_rollout o' s =
     (case o' of
        Failed w \<Rightarrow> (s\<lparr>en_rollout := w, ts_mgr := rollout_synchronization_failed (ts_mgr s)\<rparr>, Inl Engine)
      | Done _ \<Rightarrow>
          (case rollout_synchronized (ts_mgr s) of
             (m, Inl e) \<Rightarrow> (s\<lparr>en_rollout := en_actor s, ts_mgr := m\<rparr>, Inl (Manager e))
           | (m, Inr i) \<Rightarrow> (s\<lparr>en_rollout := en_actor s, ts_mgr := m\<rparr>, Inr i)))"

definition run_save_weights_for_sampler :: "bool \<Rightarrow> string \<Rightarrow> int option \<Rightarrow> string \<Rightarrow> 'w outcome \<Rightarrow> 'w server
    \<Rightarrow> 'w server \<times> string srv_result" where
  "run_save_weights_for_sampler named model_id seq hex o' s =
     (if named then
        (case sync_rollout o' s of
           (s', Inl e) \<Rightarrow> (s', Inl e)
         | (s', Inr _) \<Rightarrow>
             (case sampler_path_saved (sampler_uri hex) (ts_mgr s') of
                (m, Inl e) \<Rightarrow> (s'\<lparr>ts_mgr := m\<rparr>, Inl (Manager e))
              | (m, Inr _) \<Rightarrow> (s'\<lparr>ts_mgr := m\<rparr>, Inr (sampler_uri hex))))
      else case seq of
        None \<Rightarrow> (s, Inl (HTTP 400 ''Unnamed save_weights_for_sampler requires sampling_session_seq_id''))
      | Some k \<Rightarrow>
          (case session_id_for_model model_id (ts_mgr s) of
             Inl e \<Rightarrow> (s, Inl (Manager e))
           | Inr session \<Rightarrow>
               (case sync_rollout o' s of
                  (s', Inl e) \<Rightarrow> (s', Inl e)
                | (s', Inr i) \<Rightarrow>
                    (case sampler_id session k (ts_mgr s') of
                       (m, Inl e) \<Rightarrow> (s'\<lparr>ts_mgr := m\<rparr>, Inl (Manager e))
                     | (m, Inr sid) \<Rightarrow>
                         (case register_actor_sampler sid (actor_base_model m) i None m of
                            (m', Inl e) \<Rightarrow> (s'\<lparr>ts_mgr := m'\<rparr>, Inl (Manager e))
                          | (m', Inr _) \<Rightarrow> (s'\<lparr>ts_mgr := m'\<rparr>, Inr sid))))))"

subsection \<open>Endpoints that only touch identities\<close>

definition ep_create_session :: "'w server \<Rightarrow> 'w server \<times> string srv_result" where
  "ep_create_session s = (case create_session (ts_mgr s) of (m, i) \<Rightarrow> (s\<lparr>ts_mgr := m\<rparr>, Inr i))"

definition ep_create_model :: "string \<Rightarrow> int \<Rightarrow> string option \<Rightarrow> 'w server \<Rightarrow> 'w server \<times> string srv_result" where
  "ep_create_model session k base s =
     (case register_model session k (ts_mgr s) of
        (m, Inl e) \<Rightarrow> (s\<lparr>ts_mgr := m\<rparr>, Inl (HTTP 400 ''ModelResourceManagerError''))
      | (m, Inr i) \<Rightarrow>
          (s\<lparr>ts_mgr := m,
             ts_model_base := (case base of Some (c # b) \<Rightarrow> dict_set i (c # b) (ts_model_base s) | _ \<Rightarrow> ts_model_base s),
             ts_model_meta := dict_set i base (ts_model_meta s)\<rparr>, Inr i))"

definition ep_create_sampling_session :: "string \<Rightarrow> int \<Rightarrow> string option \<Rightarrow> string option \<Rightarrow> 'w server
    \<Rightarrow> 'w server \<times> string srv_result" where
  "ep_create_sampling_session session k base path s =
     (case sampler_id session k (ts_mgr s) of
        (m, Inl e) \<Rightarrow> (s\<lparr>ts_mgr := m\<rparr>, Inl (HTTP 400 ''ModelResourceManagerError''))
      | (m, Inr sid) \<Rightarrow>
          (case resolve_sampler_target base path (Some sid) m of
             (m', Inl e) \<Rightarrow> (s\<lparr>ts_mgr := m'\<rparr>, Inl (HTTP 400 ''ModelResourceManagerError''))
           | (m', Inr _) \<Rightarrow> (s\<lparr>ts_mgr := m'\<rparr>, Inr sid)))"

definition ep_get_session :: "string \<Rightarrow> 'w server \<Rightarrow> (string list \<times> string list) srv_result" where
  "ep_get_session session s =
     (case model_ids_for_session session (ts_mgr s) of
        Inl _ \<Rightarrow> Inl (HTTP 404 ''ModelResourceManagerError'')
      | Inr ms \<Rightarrow>
          (case valid_sampler_ids_for_session session (ts_mgr s) of
             Inl _ \<Rightarrow> Inl (HTTP 404 ''ModelResourceManagerError'') | Inr vs \<Rightarrow> Inr (ms, vs)))"

text \<open>\<open>weights_info\<close> looks in memory first, then at the metadata file; the base model, or nothing.\<close>

definition ep_weights_info :: "string option \<Rightarrow> 'w server \<Rightarrow> 'w server \<times> string option srv_result" where
  "ep_weights_info path s =
     (case path of
        None \<Rightarrow> (s, Inl (HTTP 400 ''weights_info requires tinker_path''))
      | Some [] \<Rightarrow> (s, Inl (HTTP 400 ''weights_info requires tinker_path''))
      | Some uri \<Rightarrow>
          (case dict_get (ts_saved_meta s) uri of
             Some m \<Rightarrow> (s, Inr m)
           | None \<Rightarrow>
               (case en_meta_file s (state_path_to_local [] (ts_root s) uri) of
                  None \<Rightarrow> (s, Inl (HTTP 404 ''Unknown checkpoint path''))
                | Some NotAnObject \<Rightarrow> (s, Inl (Invalid ''Invalid checkpoint metadata: expected object''))
                | Some (Metadata m) \<Rightarrow> (s\<lparr>ts_saved_meta := dict_set uri m (ts_saved_meta s)\<rparr>, Inr m))))"

text \<open>The class of sampling requests that actor and reference can serve too.\<close>

definition scalar_prompt_logprobs :: "int \<Rightarrow> int option \<Rightarrow> bool option \<Rightarrow> int \<Rightarrow> bool" where
  "scalar_prompt_logprobs num_samples max_tokens prompt_logprobs topk \<longleftrightarrow>
     num_samples = 1 \<and> max_tokens = Some 1 \<and> prompt_logprobs = Some True \<and> topk = 0"

text \<open>\<open>asample\<close> binds when the request arrives, and picks the resource when its turn has come.\<close>

definition ep_asample_bind :: "string option \<Rightarrow> string option \<Rightarrow> string option \<Rightarrow> 'w server \<Rightarrow> 'w server \<times> sampler_binding srv_result" where
  "ep_asample_bind session base path s =
     (case resolve_sampling_request session base path (ts_mgr s) of
        (m, Inl (UnknownSamplerError e)) \<Rightarrow> (s\<lparr>ts_mgr := m\<rparr>, Inl (HTTP 404 e))
      | (m, Inl _) \<Rightarrow> (s\<lparr>ts_mgr := m\<rparr>, Inl (HTTP 400 ''ModelResourceManagerError''))
      | (m, Inr b) \<Rightarrow> (s\<lparr>ts_mgr := m\<rparr>, Inr b))"

definition late_bind :: "sampler_binding \<Rightarrow> bool \<Rightarrow> 'w server \<Rightarrow> sampling_resource srv_result" where
  "late_bind b scalar s =
     (case resolve_resource b scalar (ts_mgr s) of
        Inl (StaleSamplerError e) \<Rightarrow> Inl (HTTP 409 e) | Inl e \<Rightarrow> Inl (Manager e) | Inr r \<Rightarrow> Inr r)"

text \<open>The weights that a resource computes with; a teacher has its own, which never change.\<close>

fun resource_weights :: "sampling_resource \<Rightarrow> 'w server \<Rightarrow> 'w option" where
  "resource_weights Teacher s = None"
| "resource_weights Rollout s = Some (en_rollout s)"
| "resource_weights Actor s = Some (en_actor s)"
| "resource_weights Reference s = Some (en_reference s)"

end
