(* ===== verification/LateBinding.thy ===== *)
theory LateBinding
  imports TinkerServer
begin

text \<open>
  What the version numbers of the Tinker server mean: histories of server operations with the weights
  that each version number stands for, and the soundness of late binding over them.
\<close>

section \<open>Histories\<close>

datatype 'w ts_op =
    OptimStep "'w outcome"
  | SaveState string "string option" string "'w option outcome"
  | LoadState string "'w option"
  | SaveWeights bool string "int option" string "'w outcome"
  | CreateSessionOp
  | CreateModel string int "string option"
  | CreateSampling string int "string option" "string option"
  | WeightsInfo "string option"
  | Asample "string option" "string option" "string option"

fun ts_apply :: "'w ts_op \<Rightarrow> 'w server \<Rightarrow> 'w server" where
  "ts_apply (OptimStep o') s = fst (run_optim_step o' s)"
| "ts_apply (SaveState i n u o') s = fst (run_save_state i n u o' s)"
| "ts_apply (LoadState u f) s = fst (run_load_state u f s)"
| "ts_apply (SaveWeights n i k h o') s = fst (run_save_weights_for_sampler n i k h o' s)"
| "ts_apply CreateSessionOp s = fst (ep_create_session s)"
| "ts_apply (CreateModel t k b) s = fst (ep_create_model t k b s)"
| "ts_apply (CreateSampling t k b p) s = fst (ep_create_sampling_session t k b p s)"
| "ts_apply (WeightsInfo p) s = fst (ep_weights_info p s)"
| "ts_apply (Asample t b p) s = fst (ep_asample_bind t b p s)"

text \<open>
  A fresh version number means the weights that the operation left in the actor. The meaning of a number
  is given once, when it is allocated.
\<close>

definition mean_step :: "'w server \<Rightarrow> 'w server \<Rightarrow> (int \<Rightarrow> 'w option) \<Rightarrow> int \<Rightarrow> 'w option" where
  "mean_step s s' \<mu> =
     (if next_actor_id (ts_mgr s') = next_actor_id (ts_mgr s) then \<mu>
      else \<mu>(actor_id (ts_mgr s') \<mapsto> en_actor s'))"

definition dir_of :: "'w server \<Rightarrow> string \<Rightarrow> string" where
  "dir_of s uri = state_path_to_local [] (ts_root s) uri"

text \<open>
  A save is clean when its directory belongs to no other recorded checkpoint path, and, should it fail,
  to none at all. Other operations are always clean.
\<close>

fun clean_op :: "'w ts_op \<Rightarrow> 'w server \<Rightarrow> bool" where
  "clean_op (SaveState i n u o') s \<longleftrightarrow>
     (\<forall>v. is_state_path v (ts_mgr s) \<longrightarrow>
        (v \<noteq> state_uri (or_str n u) \<or> (\<exists>w. o' = Failed w)) \<longrightarrow> dir_of s v \<noteq> dir_of s (state_uri (or_str n u)))"
| "clean_op _ s \<longleftrightarrow> True"

inductive ts_run :: "('w ts_op \<Rightarrow> 'w server \<Rightarrow> bool) \<Rightarrow> 'w server \<Rightarrow> (int \<Rightarrow> 'w option) \<Rightarrow> 'w server \<Rightarrow> (int \<Rightarrow> 'w option) \<Rightarrow> bool"
  for P s0 m0 where
  ts_start: "ts_run P s0 m0 s0 m0"
| ts_step: "ts_run P s0 m0 s \<mu> \<Longrightarrow> P x s \<Longrightarrow> s' = ts_apply x s \<Longrightarrow> ts_run P s0 m0 s' (mean_step s s' \<mu>)"

section \<open>Invariant\<close>

definition lb_inv :: "'w server \<Rightarrow> (int \<Rightarrow> 'w option) \<Rightarrow> bool" where
  "lb_inv s \<mu> \<longleftrightarrow> ids_inv (ts_mgr s) \<and>
     \<mu> (actor_id (ts_mgr s)) = Some (en_actor s) \<and>
     (\<forall>r. rollout_id (ts_mgr s) = Some r \<longrightarrow> \<mu> r = Some (en_rollout s)) \<and>
     \<mu> 0 = Some (en_reference s) \<and>
     (\<forall>u a. dict_get (state_path_to_actor_id (ts_mgr s)) u = Some a \<longrightarrow> en_disk s (dir_of s u) = \<mu> a \<and> \<mu> a \<noteq> None) \<and>
     (\<forall>u d. dict_get (ts_saved_paths s) u = Some d \<longrightarrow> d = dir_of s u) \<and>
     (\<forall>a \<ge> next_actor_id (ts_mgr s). \<mu> a = None)"

text \<open>The server as \<open>_init_engine\<close> leaves it: one set of weights everywhere, no records.\<close>

definition ts_fresh :: "manager \<Rightarrow> bool \<Rightarrow> bool \<Rightarrow> string \<Rightarrow> 'w \<Rightarrow> (string \<Rightarrow> 'w option) \<Rightarrow> (string \<Rightarrow> md_file option) \<Rightarrow> 'w server" where
  "ts_fresh m rollout reference root w disk files =
     \<lparr>ts_mgr = configure_resources rollout reference m, ts_root = root, ts_saved_paths = [], ts_saved_meta = [],
      ts_model_meta = [], ts_model_base = [], ts_step = 0, en_actor = w, en_rollout = w, en_reference = w,
      en_disk = disk, en_meta_file = files\<rparr>"

definition first_meaning :: "'w \<Rightarrow> int \<Rightarrow> 'w option" where
  "first_meaning w = [0 \<mapsto> w]"

text \<open>The parts of the manager that weights are about.\<close>

definition same_weights :: "manager \<Rightarrow> manager \<Rightarrow> bool" where
  "same_weights m m' \<longleftrightarrow> actor_id m' = actor_id m \<and> rollout_id m' = rollout_id m \<and> next_actor_id m' = next_actor_id m \<and>
     state_path_to_actor_id m' = state_path_to_actor_id m"

lemma same_weights_refl [simp]: "same_weights m m"
  by (simp add: same_weights_def)

lemma same_weights_trans: "same_weights a b \<Longrightarrow> same_weights b c \<Longrightarrow> same_weights a c"
  by (simp add: same_weights_def)

lemma same_weights_ops:
  "same_weights m (fst (create_session m))"
  "same_weights m (fst (register_model t k m))"
  "same_weights m (fst (sampler_id t k m))"
  "same_weights m (fst (sampler_path_saved p m))"
  "same_weights m (fst (register_sampler b m))"
  "same_weights m (fst (resolve_sampler_target x q i m))"
  by (auto simp: same_weights_def create_session_def register_model_def sampler_id_def sampler_path_saved_def
      register_sampler_def resolve_sampler_target_def Let_def split: sum.splits option.splits)

lemma lb_inv_same:
  assumes "lb_inv s \<mu>" "same_weights (ts_mgr s) (ts_mgr s')" "ids_inv (ts_mgr s')"
    "en_actor s' = en_actor s" "en_rollout s' = en_rollout s" "en_reference s' = en_reference s"
    "en_disk s' = en_disk s" "ts_root s' = ts_root s" "ts_saved_paths s' = ts_saved_paths s"
  shows "lb_inv s' (mean_step s s' \<mu>)"
  using assms by (simp add: lb_inv_def same_weights_def mean_step_def dir_of_def)

text \<open>Managers reached by one operation of the manager keep its identity invariant.\<close>

lemma ids_inv_steps:
  assumes "ids_inv m"
  shows "ids_inv (fst (create_session m))" "ids_inv (fst (register_model t k m))" "ids_inv (fst (sampler_id t k m))"
    "ids_inv (fst (sampler_path_saved p m))" "ids_inv (fst (resolve_sampler_target x q i m))"
    "ids_inv (fst (rollout_synchronized m))" "ids_inv (rollout_synchronization_failed m)"
  using ids_inv_apply [OF assms, of CreateSession] ids_inv_apply [OF assms, of "RegisterModel t k"]
    ids_inv_apply [OF assms, of "SamplerId t k"] ids_inv_apply [OF assms, of "SamplerPathSaved p"]
    ids_inv_apply [OF assms, of "ResolveTarget x q i"] ids_inv_apply [OF assms, of RolloutSynchronized]
    ids_inv_apply [OF assms, of RolloutFailed] by simp_all

lemma lb_inv_optim:
  assumes "lb_inv s \<mu>"
  shows "lb_inv (fst (run_optim_step o' s)) (mean_step s (fst (run_optim_step o' s)) \<mu>)"
proof -
  let ?m = "ts_mgr s"
  have i: "ids_inv ?m" and n: "\<forall>a \<ge> next_actor_id ?m. \<mu> a = None" using assms by (simp_all add: lb_inv_def)
  have z: "0 < next_actor_id ?m" using i by (simp add: ids_inv_def)
  have old: "a \<noteq> next_actor_id ?m" if "\<mu> a \<noteq> None" for a using n that by auto
  have up: "actor_updated ?m = ?m\<lparr>next_actor_id := next_actor_id ?m + 1, actor_id := next_actor_id ?m\<rparr>"
    by (simp add: actor_updated_def allocate_actor_id_def)
  have i': "ids_inv (actor_updated ?m)" by (rule ids_inv_next [OF i])
  show ?thesis
    using assms i' old z unfolding lb_inv_def run_optim_step_def mean_step_def dir_of_def
    by (simp add: up)
qed

lemma lb_inv_save:
  assumes "lb_inv s \<mu>" "clean_op (SaveState i n u o') s"
  shows "lb_inv (fst (run_save_state i n u o' s)) (mean_step s (fst (run_save_state i n u o' s)) \<mu>)"
proof (cases "dict_get (ts_model_meta s) i")
  case None
  then show ?thesis using assms(1) by (simp add: run_save_state_def mean_step_def)
next
  case (Some meta)
  let ?u = "state_uri (or_str n u)" and ?d = "dir_of s (state_uri (or_str n u))"
  have inv: "ids_inv (ts_mgr s)" using assms(1) by (simp add: lb_inv_def)
  show ?thesis
  proof (cases o')
    case (Failed w)
    have "dir_of s v \<noteq> ?d" if "dict_get (state_path_to_actor_id (ts_mgr s)) v \<noteq> None" for v
      using assms(2) that Failed by (auto simp: is_state_path_def dict_has_def)
    then show ?thesis using assms(1) Some Failed
      by (auto simp: run_save_state_def lb_inv_def mean_step_def dir_of_def Let_def)
  next
    case (Done w)
    have other: "dir_of s v \<noteq> ?d" if "dict_get (state_path_to_actor_id (ts_mgr s)) v \<noteq> None" "v \<noteq> ?u" for v
      using assms(2) that Done by (auto simp: is_state_path_def dict_has_def)
    have "ids_inv (state_saved ?u (ts_mgr s))" by (rule ids_inv_next [OF inv])
    then show ?thesis using assms(1) Some Done other
      by (auto simp: run_save_state_def lb_inv_def mean_step_def dir_of_def Let_def state_saved_def)
  qed
qed

lemma local_dir_eq: "lb_inv s \<mu> \<Longrightarrow> local_dir s u = dir_of s u"
  by (auto simp: local_dir_def dir_of_def lb_inv_def split: option.split list.split)

lemma lb_inv_load:
  assumes "lb_inv s \<mu>"
  shows "lb_inv (fst (run_load_state u f s)) (mean_step s (fst (run_load_state u f s)) \<mu>)"
proof (cases "resolve_load_path u s")
  case (Inl e)
  then show ?thesis using assms by (simp add: run_load_state_def mean_step_def)
next
  case (Inr w)
  then have w: "en_disk s (dir_of s u) = Some w"
    by (auto simp: resolve_load_path_def local_dir_eq [OF assms] split: if_splits option.splits)
  let ?m = "ts_mgr s"
  have i: "ids_inv ?m" and n: "\<forall>a \<ge> next_actor_id ?m. \<mu> a = None" using assms by (simp_all add: lb_inv_def)
  have z: "0 < next_actor_id ?m" using i by (simp add: ids_inv_def)
  have old: "a \<noteq> next_actor_id ?m" if "\<mu> a \<noteq> None" for a using n that by auto
  show ?thesis
  proof (cases "should_skip_state_load u ?m")
    case True
    then show ?thesis using assms Inr by (simp add: run_load_state_def mean_step_def)
  next
    case False
    show ?thesis
    proof (cases f)
      case (Some w')
      have "fst (run_load_state u f s) = fst (run_optim_step (Failed w') s)"
        using Inr False Some by (simp add: run_load_state_def run_optim_step_def state_load_failed_def)
      then show ?thesis using lb_inv_optim [OF assms] by simp
    next
      case None
      then have s': "fst (run_load_state u f s) = s\<lparr>en_actor := w, ts_mgr := state_loaded u ?m\<rparr>"
        using Inr False by (simp add: run_load_state_def)
      have i': "ids_inv (state_loaded u ?m)" by (rule ids_inv_next [OF i])
      show ?thesis
      proof (cases "dict_get (state_path_to_actor_id ?m) u")
        case (Some a)
        then have "\<mu> a = Some w" using assms w by (auto simp: lb_inv_def)
        then show ?thesis using assms i' Some unfolding s'
          by (simp add: lb_inv_def mean_step_def dir_of_def state_loaded_def)
      next
        case fresh: None
        have l: "state_loaded u ?m = ?m\<lparr>next_actor_id := next_actor_id ?m + 1,
            state_path_to_actor_id := dict_set u (next_actor_id ?m) (state_path_to_actor_id ?m), actor_id := next_actor_id ?m\<rparr>"
          using fresh by (simp add: state_loaded_def allocate_actor_id_def)
        show ?thesis
          using assms i' old z w unfolding s' lb_inv_def mean_step_def dir_of_def
          by (simp add: l)
      qed
    qed
  qed
qed

lemma lb_inv_sync:
  assumes "lb_inv s \<mu>"
  shows "lb_inv (fst (sync_rollout o' s)) \<mu> \<and> next_actor_id (ts_mgr (fst (sync_rollout o' s))) = next_actor_id (ts_mgr s)"
proof -
  have i: "ids_inv (ts_mgr s)" using assms by (simp add: lb_inv_def)
  note i2 = ids_inv_steps(6,7) [OF i]
  show ?thesis
  proof (cases o')
    case (Failed w)
    then show ?thesis using assms i2 by (simp add: sync_rollout_def lb_inv_def rollout_synchronization_failed_def dir_of_def)
  next
    case (Done w)
    have "ids_inv (ts_mgr s\<lparr>rollout_id := Some (actor_id (ts_mgr s))\<rparr>)" if "rollout_enabled (ts_mgr s)"
      using i2(1) that by (simp add: rollout_synchronized_def)
    moreover have "rollout_id (ts_mgr s) = None" if "\<not> rollout_enabled (ts_mgr s)"
      using i that by (auto simp: ids_inv_def)
    ultimately show ?thesis using assms Done
      by (auto simp: sync_rollout_def lb_inv_def rollout_synchronized_def dir_of_def)
  qed
qed

text \<open>Operations of the manager that keep the weights' versions.\<close>

lemma lb_inv_mgr:
  assumes "lb_inv s \<mu>" "same_weights (ts_mgr s) m" "ids_inv m"
  shows "lb_inv (s\<lparr>ts_mgr := m\<rparr>) \<mu>"
  using assms by (simp add: lb_inv_def same_weights_def dir_of_def)

lemma register_actor_ids_inv:
  assumes "ids_inv m" "rollout_id m = Some a"
  shows "ids_inv (fst (register_actor_sampler i b a p m))"
  using ids_inv_apply [OF assms(1), of "RegisterRolloutSampler i b p"] assms(2) by simp

lemma lb_inv_save_weights:
  assumes "lb_inv s \<mu>"
  shows "lb_inv (fst (run_save_weights_for_sampler n i k h o' s)) (mean_step s (fst (run_save_weights_for_sampler n i k h o' s)) \<mu>)"
proof -
  let ?r = "run_save_weights_for_sampler n i k h o' s"
  obtain s1 r1 where s1: "sync_rollout o' s = (s1, r1)" by (cases "sync_rollout o' s")
  have l1: "lb_inv s1 \<mu>" "next_actor_id (ts_mgr s1) = next_actor_id (ts_mgr s)" using lb_inv_sync [OF assms, of o'] s1 by simp_all
  have i1: "ids_inv (ts_mgr s1)" using l1 by (simp add: lb_inv_def)
  have "lb_inv (fst ?r) \<mu> \<and> next_actor_id (ts_mgr (fst ?r)) = next_actor_id (ts_mgr s)"
  proof (cases n)
    case True
    obtain m r where m: "sampler_path_saved (sampler_uri h) (ts_mgr s1) = (m, r)" by (cases "sampler_path_saved (sampler_uri h) (ts_mgr s1)")
    have "same_weights (ts_mgr s1) m" "ids_inv m"
      using same_weights_ops(4) [of "ts_mgr s1" "sampler_uri h"] ids_inv_steps(4) [OF i1, of "sampler_uri h"] m by simp_all
    then have "lb_inv (s1\<lparr>ts_mgr := m\<rparr>) \<mu>" "next_actor_id m = next_actor_id (ts_mgr s)"
      using lb_inv_mgr [OF l1(1)] l1(2) by (simp_all add: same_weights_def)
    then show ?thesis using True s1 m l1
      by (cases r1; cases r) (simp_all add: run_save_weights_for_sampler_def)
  next
    case unnamed: False
    show ?thesis
    proof (cases k)
      case None
      then show ?thesis using assms unnamed by (simp add: run_save_weights_for_sampler_def)
    next
      case (Some q)
      show ?thesis
      proof (cases "session_id_for_model i (ts_mgr s)")
        case (Inl e)
        then show ?thesis using assms unnamed Some by (simp add: run_save_weights_for_sampler_def)
      next
        case (Inr t)
        show ?thesis
        proof (cases r1)
          case (Inl e)
          then show ?thesis using \<open>session_id_for_model i (ts_mgr s) = Inr t\<close> s1 l1 unnamed Some
            by (simp add: run_save_weights_for_sampler_def)
        next
          case a: (Inr a)
          have ro: "rollout_id (ts_mgr s1) = Some a"
            using s1 a by (auto simp: sync_rollout_def rollout_synchronized_def split: outcome.splits if_splits)
          obtain m r where m: "sampler_id t q (ts_mgr s1) = (m, r)" by (cases "sampler_id t q (ts_mgr s1)")
          have sm: "same_weights (ts_mgr s1) m" "ids_inv m"
            using same_weights_ops(3) [of "ts_mgr s1" t q] ids_inv_steps(3) [OF i1, of t q] m by simp_all
          have lm: "lb_inv (s1\<lparr>ts_mgr := m\<rparr>) \<mu>" "next_actor_id m = next_actor_id (ts_mgr s)"
            using lb_inv_mgr [OF l1(1) sm] sm l1(2) by (simp_all add: same_weights_def)
          have rm: "rollout_id m = Some a" using sm ro by (simp add: same_weights_def)
          show ?thesis
          proof (cases r)
            case (Inl e)
            then show ?thesis using \<open>session_id_for_model i (ts_mgr s) = Inr t\<close> s1 a m lm unnamed Some
              by (simp add: run_save_weights_for_sampler_def)
          next
            case sid: (Inr sid)
            let ?R = "register_actor_sampler sid (actor_base_model m) a None m"
            obtain m' r' where m': "?R = (m', r')" by (cases ?R)
            have "same_weights m m'" using same_weights_ops(5) m' by (metis fst_conv register_actor_sampler_def)
            then have "same_weights (ts_mgr s1) m'" using sm(1) same_weights_trans by blast
            moreover have "ids_inv m'" using register_actor_ids_inv [OF sm(2) rm] m' by (metis fst_conv)
            ultimately have "lb_inv (s1\<lparr>ts_mgr := m'\<rparr>) \<mu>" "next_actor_id m' = next_actor_id (ts_mgr s)"
              using lb_inv_mgr [OF l1(1)] l1(2) by (simp_all add: same_weights_def)
            then show ?thesis using \<open>session_id_for_model i (ts_mgr s) = Inr t\<close> s1 a m sid m' unnamed Some
              by (cases r') (simp_all add: run_save_weights_for_sampler_def)
          qed
        qed
      qed
    qed
  qed
  then show ?thesis by (simp add: mean_step_def)
qed

lemma lb_inv_apply:
  assumes "lb_inv s \<mu>" "clean_op x s"
  shows "lb_inv (ts_apply x s) (mean_step s (ts_apply x s) \<mu>)"
proof -
  have i: "ids_inv (ts_mgr s)" using assms(1) by (simp add: lb_inv_def)
  have same: "lb_inv s' (mean_step s s' \<mu>)"
    if "same_weights (ts_mgr s) (ts_mgr s')" "ids_inv (ts_mgr s')" "en_actor s' = en_actor s" "en_rollout s' = en_rollout s"
      "en_reference s' = en_reference s" "en_disk s' = en_disk s" "ts_root s' = ts_root s" "ts_saved_paths s' = ts_saved_paths s" for s'
    using lb_inv_same [OF assms(1)] that by blast
  show ?thesis
  proof (cases x)
    case (OptimStep o')
    then show ?thesis using lb_inv_optim [OF assms(1)] by simp
  next
    case (SaveState j n u o')
    then show ?thesis using lb_inv_save [OF assms(1)] assms(2) by simp
  next
    case (LoadState u f)
    then show ?thesis using lb_inv_load [OF assms(1)] by simp
  next
    case (SaveWeights n j k h o')
    then show ?thesis using lb_inv_save_weights [OF assms(1)] by simp
  next
    case CreateSessionOp
    then show ?thesis using same_weights_ops(1) [of "ts_mgr s"] ids_inv_steps(1) [OF i]
      by (cases "create_session (ts_mgr s)") (auto simp: ep_create_session_def intro!: same)
  next
    case (CreateModel t k b)
    then show ?thesis using same_weights_ops(2) [of "ts_mgr s" t k] ids_inv_steps(2) [OF i, of t k]
      by (cases "register_model t k (ts_mgr s)") (auto simp: ep_create_model_def intro!: same split: sum.split)
  next
    case (CreateSampling t k b p)
    obtain m r where m: "sampler_id t k (ts_mgr s) = (m, r)" by (cases "sampler_id t k (ts_mgr s)")
    have sm: "same_weights (ts_mgr s) m" "ids_inv m"
      using same_weights_ops(3) [of "ts_mgr s" t k] ids_inv_steps(3) [OF i, of t k] m by simp_all
    show ?thesis
    proof (cases r)
      case (Inl e)
      then show ?thesis using CreateSampling m sm by (auto simp: ep_create_sampling_session_def intro!: same)
    next
      case (Inr sid)
      obtain m' r' where m': "resolve_sampler_target b p (Some sid) m = (m', r')" by (cases "resolve_sampler_target b p (Some sid) m")
      have "same_weights m m'" "ids_inv m'"
        using same_weights_ops(6) [of m b p "Some sid"] ids_inv_steps(5) [OF sm(2), of b p "Some sid"] m' by simp_all
      then have "same_weights (ts_mgr s) m'" "ids_inv m'" using sm(1) same_weights_trans by blast+
      then show ?thesis using CreateSampling m Inr m'
        by (auto simp: ep_create_sampling_session_def intro!: same split: sum.split)
    qed
  next
    case (WeightsInfo p)
    have "\<exists>t. fst (ep_weights_info p s) = s\<lparr>ts_saved_meta := t\<rparr>"
    proof -
      have "\<exists>t. s = s\<lparr>ts_saved_meta := t\<rparr>" by (intro exI [of _ "ts_saved_meta s"]) simp
      then show ?thesis by (auto simp: ep_weights_info_def split: option.split list.split md_file.split)
    qed
    then obtain t where "ts_apply x s = s\<lparr>ts_saved_meta := t\<rparr>" using WeightsInfo by auto
    then show ?thesis using i by (intro same) simp_all
  next
    case (Asample t b p)
    obtain m r where m: "resolve_sampling_request t b p (ts_mgr s) = (m, r)" by (cases "resolve_sampling_request t b p (ts_mgr s)")
    have "same_weights (ts_mgr s) m" "ids_inv m"
      using m same_weights_ops(6) [of "ts_mgr s" b p None] ids_inv_steps(5) [OF i, of b p None] i
      by (auto simp: resolve_sampling_request_def split: option.splits)
    moreover have "ts_apply x s = s\<lparr>ts_mgr := m\<rparr>"
      using Asample m by (auto simp: ep_asample_bind_def split: sum.split mr_error.split)
    ultimately show ?thesis by (intro same) simp_all
  qed
qed

text \<open>Meanings are only added.\<close>

lemma next_actor_id_grows:
  "next_actor_id (ts_mgr (ts_apply x s)) = next_actor_id (ts_mgr s) \<or>
   actor_id (ts_mgr (ts_apply x s)) = next_actor_id (ts_mgr s)"
proof (cases x)
  case (OptimStep o')
  then show ?thesis by (simp add: run_optim_step_def actor_updated_def allocate_actor_id_def)
next
  case (LoadState u f)
  then show ?thesis
    by (auto simp: run_load_state_def state_loaded_def state_load_failed_def actor_updated_def allocate_actor_id_def
        split: sum.split option.split)
next
  case (SaveState j n u o')
  then show ?thesis by (simp add: run_save_state_def state_saved_def Let_def split: option.split outcome.split)
next
  case (SaveWeights n j k h o')
  have "next_actor_id (ts_mgr (fst (sync_rollout q s))) = next_actor_id (ts_mgr s)" for q
    by (auto simp: sync_rollout_def rollout_synchronized_def rollout_synchronization_failed_def split: outcome.split)
  then have sy: "next_actor_id (ts_mgr t) = next_actor_id (ts_mgr s)" if "sync_rollout q s = (t, r)" for q t r
    using that by (metis fst_conv)
  have sp: "next_actor_id m' = next_actor_id m" if "sampler_path_saved p m = (m', r)" for p m m' r
    using that same_weights_ops(4) [of m p] by (simp add: same_weights_def)
  have si: "next_actor_id m' = next_actor_id m" if "sampler_id t q m = (m', r)" for t q m m' r
    using that same_weights_ops(3) [of m t q] by (simp add: same_weights_def)
  have rs: "next_actor_id m' = next_actor_id m" if "register_actor_sampler t b a p m = (m', r)" for t b a p m m' r
    using that same_weights_ops(5) [of m] by (metis fst_conv register_actor_sampler_def same_weights_def)
  show ?thesis using SaveWeights
    by (auto simp: run_save_weights_for_sampler_def sy sp si rs split: option.split sum.split prod.split dest!: sy sp si rs)
next
  case CreateSessionOp
  then show ?thesis by (simp add: ep_create_session_def create_session_def Let_def)
next
  case (CreateModel t k b)
  then show ?thesis using same_weights_ops(2) [of "ts_mgr s" t k]
    by (cases "register_model t k (ts_mgr s)") (auto simp: ep_create_model_def same_weights_def split: sum.split)
next
  case (CreateSampling t k b p)
  have si: "next_actor_id m' = next_actor_id m" if "sampler_id t q m = (m', r)" for t q m m' r
    using that same_weights_ops(3) [of m t q] by (simp add: same_weights_def)
  have rt: "next_actor_id m' = next_actor_id m" if "resolve_sampler_target x p q m = (m', r)" for x p q m m' r
    using that same_weights_ops(6) [of m x p q] by (simp add: same_weights_def)
  show ?thesis using CreateSampling
    by (auto simp: ep_create_sampling_session_def split: sum.split prod.split dest!: si rt)
next
  case (WeightsInfo p)
  then show ?thesis by (auto simp: ep_weights_info_def split: option.split list.split md_file.split)
next
  case (Asample t b p)
  have rt: "next_actor_id m' = next_actor_id m" if "resolve_sampling_request t b p m = (m', r)" for m m' r
    using that same_weights_ops(6) [of m b p None] by (auto simp: same_weights_def resolve_sampling_request_def split: option.splits)
  show ?thesis using Asample
    by (auto simp: ep_asample_bind_def split: sum.split prod.split mr_error.split dest!: rt)
qed

lemma lb_run:
  "ts_run P s0 m0 s \<mu> \<Longrightarrow> (\<And>x t. P x t \<Longrightarrow> clean_op x t) \<Longrightarrow> lb_inv s0 m0 \<Longrightarrow> lb_inv s \<mu> \<and> m0 \<subseteq>\<^sub>m \<mu>"
proof (induction rule: ts_run.induct)
  case (ts_step s \<mu> x s')
  then have l: "lb_inv s \<mu>" "m0 \<subseteq>\<^sub>m \<mu>" by simp_all
  have "lb_inv s' (mean_step s s' \<mu>)" using lb_inv_apply [OF l(1)] ts_step by simp
  moreover have "\<mu> \<subseteq>\<^sub>m mean_step s s' \<mu>"
    using l(1) next_actor_id_grows [of x s] ts_step(3) by (auto simp: mean_step_def map_le_def lb_inv_def)
  ultimately show ?case using l(2) map_le_trans by blast
qed simp

lemma ts_fresh_inv:
  assumes "manager_init names teachers = Inr m"
  shows "lb_inv (ts_fresh m rollout reference root w disk files) (first_meaning w)"
proof -
  have i: "ids_inv m" "actor_id m = 0" "rollout_id m = Some 0" using manager_init_inv [OF assms] by simp_all
  have c: "ids_inv (configure_resources rollout reference m)"
    using ids_inv_apply [OF i(1), of "ConfigureResources rollout reference"] by simp
  obtain b bs r where "configure_teacher_models teachers
             \<lparr>actor_base_model = b, actor_model_identifiers = b # bs, teacher_model_paths = [],
              actor_id = 0, rollout_id = Some 0, next_actor_id = 1, rollout_enabled = True, reference_enabled = False,
              state_path_to_actor_id = [], sampler_path_to_actor_id = [], samplers = [], next_session_id = 0,
              session_model_ids = [], session_sampler_ids = [], model_to_session_id = []\<rparr> = (m, r)"
    using assms by (auto simp: manager_init_def split: list.splits prod.splits sum.splits)
  from configure_teacher_frame [OF this] have "next_actor_id m = 1" "state_path_to_actor_id m = []" by auto
  then show ?thesis using c i
    by (auto simp: lb_inv_def ts_fresh_def first_meaning_def configure_resources_def)
qed

section \<open>Properties\<close>

text \<open>
  C1. Late binding is sound: take a history of server operations, and a moment at which the rollout held
  the weights of version \<open>a\<close>. At any later moment, after further optimizer steps, failed or not, loads,
  saves and synchronisations, a sampler bound to \<open>a\<close> is either refused or served by a resource
  (rollout, actor or reference) that computes with exactly those weights. The saves of the history
  must be clean: no two checkpoint paths in one directory, and no failed save over a recorded one.
\<close>

theorem late_binding_sound:
  assumes "manager_init names teachers = Inr m"
    and "ts_run clean_op (ts_fresh m rollout reference root w disk files) (first_meaning w) s1 \<mu>1"
    and "ts_run clean_op s1 \<mu>1 s2 \<mu>2"
    and "rollout_id (ts_mgr s1) = Some a" "sb_actor_id b = Some a" "late_bind b scalar s2 = Inr res" "res \<noteq> Teacher"
  shows "resource_weights res s2 = Some (en_rollout s1)"
proof -
  have l1: "lb_inv s1 \<mu>1" using lb_run [OF assms(2) _ ts_fresh_inv [OF assms(1)]] by blast
  have l2: "lb_inv s2 \<mu>2" "\<mu>1 \<subseteq>\<^sub>m \<mu>2" using lb_run [OF assms(3) _ l1] by blast+
  have "\<mu>1 a = Some (en_rollout s1)" using l1 assms(4) by (simp add: lb_inv_def)
  then have m: "\<mu>2 a = Some (en_rollout s1)" using l2(2) by (metis domI map_le_def)
  have "resolve_resource b scalar (ts_mgr s2) = Inr res"
    using assms(6) by (auto simp: late_bind_def split: sum.splits mr_error.splits)
  then show ?thesis using assms(5,7) m l2(1)
    by (auto simp: resolve_resource_def lb_inv_def split: if_splits)
qed

text \<open>
  Two checkpoint names with the same last segment share a directory, and the bookkeeping does not know: a
  save under the second name overwrites the first checkpoint, loading the first path then reports the
  version of the first save, while the actor holds the weights of the second.
\<close>

theorem colliding_checkpoints_confuse_weights:
  assumes "lb_inv s \<mu>" "dict_get (ts_model_meta s) i \<noteq> None" "n1 \<noteq> []" "n2 \<noteq> []" "n1 \<noteq> n2"
    and "dir_of s (state_uri n1) = dir_of s (state_uri n2)"
  shows "let s' = ts_apply (LoadState (state_uri n1) None) (ts_apply (SaveState i (Some n2) u (Done d))
      (ts_apply (OptimStep (Done w)) (ts_apply (SaveState i (Some n1) u (Done d)) s))) in
    actor_id (ts_mgr s') = actor_id (ts_mgr s) \<and> en_actor s' = w"
proof -
  obtain meta where meta: "dict_get (ts_model_meta s) i = Some meta" using assms(2) by blast
  have ids: "actor_id (ts_mgr s) \<noteq> next_actor_id (ts_mgr s)" using assms(1) by (auto simp: lb_inv_def ids_inv_def used_ids_def)
  have n: "or_str (Some n1) u = n1" "or_str (Some n2) u = n2" using assms(3,4) by (simp_all add: or_str_def)
  have ne: "state_uri n1 \<noteq> state_uri n2" using assms(5) by (simp add: state_uri_def)
  have cons: "\<exists>c r. dir_of s v = c # r" for v
    by (cases "rstrip_slash (ts_root s)") (simp_all add: dir_of_def state_path_to_local_def)
  let ?d = "dir_of s (state_uri n1)"
  define s1 where "s1 = ts_apply (SaveState i (Some n1) u (Done d)) s"
  define s2 where "s2 = ts_apply (OptimStep (Done w)) s1"
  define s3 where "s3 = ts_apply (SaveState i (Some n2) u (Done d)) s2"
  have s1: "ts_mgr s1 = state_saved (state_uri n1) (ts_mgr s)" "ts_root s1 = ts_root s" "ts_model_meta s1 = ts_model_meta s"
    "dict_get (ts_saved_paths s1) (state_uri n1) = Some ?d"
    by (simp_all add: s1_def run_save_state_def meta n Let_def dir_of_def)
  have s2: "ts_mgr s2 = actor_updated (ts_mgr s1)" "en_actor s2 = w" "ts_root s2 = ts_root s" "ts_model_meta s2 = ts_model_meta s"
    "ts_saved_paths s2 = ts_saved_paths s1"
    by (simp_all add: s2_def run_optim_step_def s1)
  have s3: "ts_mgr s3 = state_saved (state_uri n2) (ts_mgr s2)" "en_actor s3 = w" "ts_root s3 = ts_root s"
    "en_disk s3 ?d = Some w" "dict_get (ts_saved_paths s3) (state_uri n1) = Some ?d"
    using s2 s1 meta n ne assms(6) by (simp_all add: s3_def run_save_state_def Let_def dir_of_def)
  have m3: "dict_get (state_path_to_actor_id (ts_mgr s3)) (state_uri n1) = Some (actor_id (ts_mgr s))"
    "actor_id (ts_mgr s3) = next_actor_id (ts_mgr s)"
    using ne by (simp_all add: s3 s2 s1 state_saved_def actor_updated_def allocate_actor_id_def)
  have "local_dir s3 (state_uri n1) = ?d" using s3(5) cons [of "state_uri n1"] by (auto simp: local_dir_def)
  then have "resolve_load_path (state_uri n1) s3 = Inr w"
    using s3(4) by (simp add: resolve_load_path_def) (simp add: state_uri_def)
  moreover have "\<not> should_skip_state_load (state_uri n1) (ts_mgr s3)" using m3 ids by (simp add: should_skip_state_load_def)
  ultimately have "actor_id (ts_mgr (ts_apply (LoadState (state_uri n1) None) s3)) = actor_id (ts_mgr s) \<and>
      en_actor (ts_apply (LoadState (state_uri n1) None) s3) = w"
    using m3 by (simp add: run_load_state_def state_loaded_def)
  then show ?thesis by (simp add: s3_def s2_def s1_def Let_def)
qed

text \<open>
  The directory of a checkpoint is one path component below the root, made of letters, digits, \<open>-\<close>, \<open>_\<close> and
  \<open>.\<close>; and names made of such characters get different directories, so histories of saves under
  such names have no collisions.
\<close>

lemma last_segment_flat: "CHR ''/'' \<notin> set (last_segment u)"
  by (auto simp: last_segment_def dest: set_takeWhileD)

lemma last_segment_plain: "CHR ''/'' \<notin> set n \<Longrightarrow> last_segment n = n"
proof -
  assume "CHR ''/'' \<notin> set n"
  then have "takeWhile (\<lambda>c. c \<noteq> CHR ''/'') (rev n) = rev n" by (auto simp: takeWhile_eq_all_conv)
  then show ?thesis unfolding last_segment_def by (simp only: rev_rev_ident)
qed

lemma last_segment_state_uri: "last_segment (state_uri n) = last_segment n"
  using last_segment_append [of "''tinker://verl-tinker/state''" n] by (simp add: state_uri_def)

lemma safe_char_ok: "is_alnum (safe_char c) \<or> safe_char c \<in> {CHR ''-'', CHR ''_'', CHR ''.''}"
  by (simp add: safe_char_def)

lemma slash_unsafe: "\<not> is_alnum (CHR ''/'')"
  by (simp add: is_alnum_def)

theorem checkpoint_dirs_flat:
  "(\<exists>tag. state_path_to_local fresh root uri = rstrip_slash root @ CHR ''/'' # tag \<and>
      (\<forall>c \<in> set tag. is_alnum c \<or> c \<in> {CHR ''-'', CHR ''_'', CHR ''.''}) \<and> CHR ''/'' \<notin> set tag) \<and>
   (n1 \<noteq> [] \<and> n2 \<noteq> [] \<and> (\<forall>c \<in> set n1 \<union> set n2. safe_char c = c) \<longrightarrow>
      (state_path_to_local fresh root (state_uri n1) = state_path_to_local fresh root (state_uri n2) \<longleftrightarrow> n1 = n2))"
proof -
  have safe: "is_alnum c \<or> c \<in> {CHR ''-'', CHR ''_'', CHR ''.''}" if "c \<in> set (map safe_char xs)" for c xs
    using that safe_char_ok by auto
  then have "CHR ''/'' \<notin> set (map safe_char xs)" for xs using slash_unsafe by fastforce
  then have "\<exists>tag. state_path_to_local fresh root uri = rstrip_slash root @ CHR ''/'' # tag \<and>
      (\<forall>c \<in> set tag. is_alnum c \<or> c \<in> {CHR ''-'', CHR ''_'', CHR ''.''}) \<and> CHR ''/'' \<notin> set tag"
    using safe by (simp add: state_path_to_local_def)
  moreover have "state_path_to_local fresh root (state_uri n) = rstrip_slash root @ CHR ''/'' # n"
    if "\<forall>c \<in> set n. safe_char c = c" for n
  proof -
    have "safe_char (CHR ''/'') \<noteq> CHR ''/''" using slash_unsafe by (simp add: safe_char_def)
    then have "CHR ''/'' \<notin> set n" using that by auto
    moreover have "map safe_char n = n" using that by (simp add: map_idI)
    ultimately show ?thesis
      by (simp add: state_path_to_local_def last_segment_state_uri last_segment_plain) (simp add: state_uri_def)
  qed
  ultimately show ?thesis by simp
qed

section \<open>Concrete histories\<close>

definition demo_fresh :: "nat server" where
  "demo_fresh = ts_fresh demo_manager True True ''/ckpt'' 100 (\<lambda>_. None) (\<lambda>_. None)"

definition demo_ops :: "nat ts_op list" where
  "demo_ops = [OptimStep (Done 101), CreateSessionOp, CreateModel (session_name 0) 0 None,
     SaveWeights False (model_name (session_name 0) 0) (Some 0) [] (Done 0),
     SaveState (model_name (session_name 0) 0) (Some ''a'') [] (Done None), OptimStep (Failed 102)]"

definition demo_more :: "nat ts_op list" where
  "demo_more = [LoadState (state_uri ''a'') None]"

fun ts_replay :: "'w ts_op list \<Rightarrow> 'w server \<times> (int \<Rightarrow> 'w option) \<Rightarrow> 'w server \<times> (int \<Rightarrow> 'w option)" where
  "ts_replay [] sm = sm"
| "ts_replay (x # xs) (s, \<mu>) = ts_replay xs (ts_apply x s, mean_step s (ts_apply x s) \<mu>)"

fun no_clash :: "'w ts_op list \<Rightarrow> 'w server \<Rightarrow> bool" where
  "no_clash [] s \<longleftrightarrow> True"
| "no_clash (x # xs) s \<longleftrightarrow>
     (case x of SaveState i n u o' \<Rightarrow> state_path_to_actor_id (ts_mgr s) = [] | _ \<Rightarrow> True) \<and> no_clash xs (ts_apply x s)"

lemma ts_replay_run:
  "no_clash xs s \<Longrightarrow> ts_run clean_op s0 m0 s \<mu> \<Longrightarrow> ts_run clean_op s0 m0 (fst (ts_replay xs (s, \<mu>))) (snd (ts_replay xs (s, \<mu>)))"
proof (induction xs arbitrary: s \<mu>)
  case (Cons x xs)
  have "clean_op x s" using Cons(2) by (cases x) (auto simp: is_state_path_def)
  then have "ts_run clean_op s0 m0 (ts_apply x s) (mean_step s (ts_apply x s) \<mu>)" using Cons(3) by (auto intro: ts_step)
  then show ?case using Cons by simp
qed simp

text \<open>
  The rollout gets version 1 (weights 101); the optimizer then fails (weights 102, version 2), the checkpoint of
  version 1 is loaded back, and the sampler of version 1 is still served by the rollout.
\<close>

theorem late_binding_sound_witness:
  "let s1 = fst (ts_replay (take 4 demo_ops) (demo_fresh, first_meaning 100));
       s2 = fst (ts_replay (drop 4 demo_ops @ demo_more) (ts_replay (take 4 demo_ops) (demo_fresh, first_meaning 100)));
       b = \<lparr>sb_sampler_id = None, sb_base_model = ''qwen'', sb_model_path = None, sb_teacher_model_path = None, sb_actor_id = Some 1\<rparr>
   in late_bind b False s2 = Inr Rollout \<and> en_rollout s1 = 101 \<and> resource_weights Rollout s2 = Some (en_rollout s1)"
proof -
  let ?sm1 = "ts_replay (take 4 demo_ops) (demo_fresh, first_meaning 100)"
  let ?s1 = "fst ?sm1" and ?s2 = "fst (ts_replay (drop 4 demo_ops @ demo_more) ?sm1)"
  let ?b = "\<lparr>sb_sampler_id = None, sb_base_model = ''qwen'', sb_model_path = None, sb_teacher_model_path = None, sb_actor_id = Some (1::int)\<rparr>"
  have n1: "no_clash (take 4 demo_ops) demo_fresh" by code_simp
  have n2: "no_clash (drop 4 demo_ops @ demo_more) ?s1" by code_simp
  have ro: "rollout_id (ts_mgr ?s1) = Some 1" by code_simp
  have w: "en_rollout ?s1 = 101" by code_simp
  have lb: "late_bind ?b False ?s2 = Inr Rollout" by code_simp
  have r1: "ts_run clean_op demo_fresh (first_meaning 100) ?s1 (snd ?sm1)"
    by (rule ts_replay_run [OF n1 ts_start])
  have r2: "ts_run clean_op ?s1 (snd ?sm1) ?s2 (snd (ts_replay (drop 4 demo_ops @ demo_more) ?sm1))"
  proof -
    have "ts_run clean_op ?s1 (snd ?sm1) ?s1 (snd ?sm1)" by (rule ts_start)
    from ts_replay_run [OF n2 this] show ?thesis by (simp only: prod.collapse)
  qed
  have "resource_weights Rollout ?s2 = Some (en_rollout ?s1)"
    using late_binding_sound [OF demo_manager_init r1 [unfolded demo_fresh_def], folded demo_fresh_def,
        OF r2 ro _ lb] by simp
  then show ?thesis using lb w by (simp add: Let_def)
qed

theorem colliding_checkpoints_confuse_weights_witness:
  "let s = demo_fresh\<lparr>ts_model_meta := [(''m'', None)]\<rparr>;
       s' = ts_apply (LoadState (state_uri ''a/x'') None) (ts_apply (SaveState ''m'' (Some ''b/x'') [] (Done None))
         (ts_apply (OptimStep (Done 101)) (ts_apply (SaveState ''m'' (Some ''a/x'') [] (Done None)) s))) in
    en_actor s = 100 \<and> actor_id (ts_mgr s') = actor_id (ts_mgr s) \<and> en_actor s' = 101"
proof -
  let ?s = "demo_fresh\<lparr>ts_model_meta := [(''m'', None)]\<rparr>"
  have l: "lb_inv ?s (first_meaning 100)"
    using ts_fresh_inv [OF demo_manager_init, of True True "''/ckpt''" 100 "\<lambda>_. None" "\<lambda>_. None"]
    by (simp add: demo_fresh_def lb_inv_def dir_of_def)
  have d: "dir_of ?s (state_uri ''a/x'') = dir_of ?s (state_uri ''b/x'')" by code_simp
  have e: "en_actor ?s = 100" by code_simp
  show ?thesis
    using colliding_checkpoints_confuse_weights [OF l _ _ _ _ d, of "''m''" "[]" None 101] e by (simp add: Let_def)
qed

theorem checkpoint_dirs_flat_witness:
  "state_path_to_local [] ''/ckpt'' (state_uri ''a'') = state_path_to_local [] ''/ckpt'' (state_uri ''b'') \<longleftrightarrow> ''a'' = (''b'' :: string)"
  using checkpoint_dirs_flat [of "[]" "''/ckpt''" "[]" "''a''" "''b''"] by (simp add: safe_char_def is_alnum_def)

end
