(* ===== verification/TinkerRequests.thy ===== *)
theory TinkerRequests
  imports FifoGate LateBinding
begin

text \<open>
  The request bookkeeping of \<open>verl_tinker/tinker_router.py\<close>: a request is scheduled as a task that runs
  under the gate, its result or error is kept until \<open>retrieve_future\<close> hands it out, and old statuses are
  compacted into an archive. Request ids are fresh (\<open>uuid4\<close>). A task's identity in the gate
  is its request id: each task holds the gate once.
\<close>

section \<open>State\<close>

datatype request_status = PENDING | COMPLETED | RETRIEVED | ERROR

record 'p requests =
  rq_ready :: bool
  rq_max :: nat
  rq_status :: "(string, request_status) dict"
  rq_archive :: "(string, request_status) dict"
  rq_futures :: "(string, 'p) dict"
  rq_errors :: "(string, string) dict"
  rq_pending :: "(string, unit) dict"
  rq_gate :: "string gate"

definition max_request_status_entries :: nat where
  "max_request_status_entries = 100000"

datatype 'p reply =
    Payload 'p
  | AppError string
  | TryAgain
  | SeenBefore
  | NeverSeen
  | Unavailable

section \<open>Operations\<close>

definition stash :: "string \<Rightarrow> 'p \<Rightarrow> 'p requests \<Rightarrow> 'p requests" where
  "stash rid p r = r\<lparr>rq_status := dict_set rid COMPLETED (rq_status r), rq_futures := dict_set rid p (rq_futures r)\<rparr>"

text \<open>\<open>_compact_request_status_if_needed\<close>: the retrieved entries replace the archive.\<close>

definition compact :: "'p requests \<Rightarrow> 'p requests" where
  "compact r =
     (if length (rq_status r) < rq_max r then r
      else let done' = filter (\<lambda>(i, st). st = RETRIEVED) (rq_status r) in
        if done' = [] then r
        else r\<lparr>rq_archive := done', rq_status := filter (\<lambda>(i, st). st \<noteq> RETRIEVED) (rq_status r)\<rparr>)"

text \<open>\<open>_schedule\<close>: the task's first step enters the gate.\<close>

definition schedule :: "string \<Rightarrow> op_kind \<Rightarrow> 'p requests \<Rightarrow> 'p requests \<times> bool" where
  "schedule rid k r =
     (if \<not> rq_ready r then (r, False)
      else (let r1 = compact (r\<lparr>rq_status := dict_set rid PENDING (rq_status r)\<rparr>)
            in r1\<lparr>rq_pending := dict_set rid () (rq_pending r1), rq_gate := gate_enter k rid (rq_gate r1)\<rparr>, True))"

text \<open>
  The end of \<open>_run\<close>: the operation has returned or raised, the gate is left, the outcome is recorded. A task
  that gets its turn on a server that is not ready fails without running its operation.
\<close>

definition finish :: "string \<Rightarrow> op_kind \<Rightarrow> string + 'p \<Rightarrow> 'p requests \<Rightarrow> 'p requests" where
  "finish rid k res r =
     (let r1 = r\<lparr>rq_gate := gate_leave k rid (rq_gate r)\<rparr>;
          r2 = (case (if rq_ready r then res else Inl ''Server not ready'') of
                  Inr p \<Rightarrow> r1\<lparr>rq_futures := dict_set rid p (rq_futures r1), rq_status := dict_set rid COMPLETED (rq_status r1)\<rparr>
                | Inl e \<Rightarrow> r1\<lparr>rq_errors := dict_set rid e (rq_errors r1), rq_status := dict_set rid ERROR (rq_status r1)\<rparr>)
      in r2\<lparr>rq_pending := dict_del rid (rq_pending r2)\<rparr>)"

text \<open>\<open>retrieve_future\<close>; a request that is still pending is answered after a wait, and only told to retry.\<close>

definition retrieve_future :: "string \<Rightarrow> 'p requests \<Rightarrow> 'p requests \<times> 'p reply" where
  "retrieve_future rid r =
     (if \<not> rq_ready r then (r, Unavailable)
      else if dict_has rid (rq_pending r) then (r, TryAgain)
      else case dict_get (rq_futures r) rid of
        Some p \<Rightarrow> (r\<lparr>rq_futures := dict_del rid (rq_futures r), rq_status := dict_set rid RETRIEVED (rq_status r)\<rparr>, Payload p)
      | None \<Rightarrow>
          (case dict_get (rq_errors r) rid of
             Some e \<Rightarrow> (r\<lparr>rq_errors := dict_del rid (rq_errors r), rq_status := dict_set rid RETRIEVED (rq_status r)\<rparr>, AppError e)
           | None \<Rightarrow> (r, if dict_has rid (rq_status r) \<or> dict_has rid (rq_archive r) then SeenBefore else NeverSeen)))"

definition shutdown :: "'p requests \<Rightarrow> 'p requests" where
  "shutdown r = r\<lparr>rq_ready := False\<rparr>"

section \<open>Runs\<close>

datatype 'p rq_event =
    Stash string 'p
  | Schedule string op_kind
  | Finish string op_kind "string + 'p"
  | Retrieve string
  | Shutdown

fun rq_apply :: "'p rq_event \<Rightarrow> 'p requests \<Rightarrow> 'p requests" where
  "rq_apply (Stash i p) r = stash i p r"
| "rq_apply (Schedule i k) r = fst (schedule i k r)"
| "rq_apply (Finish i k res) r = finish i k res r"
| "rq_apply (Retrieve i) r = fst (retrieve_future i r)"
| "rq_apply Shutdown r = shutdown r"

text \<open>New requests get ids that were never used; only a task that holds the gate finishes.\<close>

fun rq_enabled :: "string set \<Rightarrow> 'p rq_event \<Rightarrow> 'p requests \<Rightarrow> bool" where
  "rq_enabled used (Stash i p) r \<longleftrightarrow> i \<notin> used"
| "rq_enabled used (Schedule i k) r \<longleftrightarrow> i \<notin> used"
| "rq_enabled used (Finish i k res) r \<longleftrightarrow> (k, i) \<in> set (granted (rq_gate r))"
| "rq_enabled used _ r \<longleftrightarrow> True"

fun rq_names :: "'p rq_event \<Rightarrow> string set" where
  "rq_names (Stash i p) = {i}"
| "rq_names (Schedule i k) = {i}"
| "rq_names _ = {}"

text \<open>
  A run with the ids used so far, the outcomes that operations produced, and the replies that handed out
  an outcome, with their request ids.
\<close>

definition produced :: "'p rq_event \<Rightarrow> 'p requests \<Rightarrow> (string \<times> (string + 'p)) list" where
  "produced x r =
     (case x of Stash i p \<Rightarrow> [(i, Inr p)]
      | Finish i k res \<Rightarrow> [(i, if rq_ready r then res else Inl ''Server not ready'')]
      | _ \<Rightarrow> [])"

definition handed_out :: "'p rq_event \<Rightarrow> 'p requests \<Rightarrow> (string \<times> (string + 'p)) list" where
  "handed_out x r =
     (case x of
        Retrieve i \<Rightarrow> (case snd (retrieve_future i r) of Payload p \<Rightarrow> [(i, Inr p)] | AppError e \<Rightarrow> [(i, Inl e)] | _ \<Rightarrow> [])
      | _ \<Rightarrow> [])"

inductive rq_run :: "'p requests \<Rightarrow> string set \<Rightarrow> (string \<times> (string + 'p)) list \<Rightarrow> (string \<times> (string + 'p)) list \<Rightarrow> 'p requests \<Rightarrow> bool"
  for r0 where
  rq_start: "rq_run r0 {} [] [] r0"
| rq_step: "rq_run r0 used made out r \<Longrightarrow> rq_enabled used x r \<Longrightarrow>
     rq_run r0 (used \<union> rq_names x) (made @ produced x r) (out @ handed_out x r) (rq_apply x r)"

definition rq_init :: "nat \<Rightarrow> string gate \<Rightarrow> 'p requests" where
  "rq_init n g = \<lparr>rq_ready = True, rq_max = n, rq_status = [], rq_archive = [], rq_futures = [], rq_errors = [],
     rq_pending = [], rq_gate = g\<rparr>"

section \<open>Invariant\<close>

text \<open>The status of a request says which table it is in.\<close>

definition rq_tables :: "'p requests \<Rightarrow> bool" where
  "rq_tables r \<longleftrightarrow> dict_ok (rq_status r) \<and>
     (\<forall>i. dict_has i (rq_pending r) \<longleftrightarrow> dict_get (rq_status r) i = Some PENDING) \<and>
     (\<forall>i. dict_has i (rq_futures r) \<longleftrightarrow> dict_get (rq_status r) i = Some COMPLETED) \<and>
     (\<forall>i. dict_has i (rq_errors r) \<longleftrightarrow> dict_get (rq_status r) i = Some ERROR) \<and>
     (\<forall>i. dict_has i (rq_archive r) \<longrightarrow> dict_get (rq_status r) i = None)"

text \<open>The outcome that waits for its client.\<close>

definition ready_outcome :: "'p requests \<Rightarrow> string \<Rightarrow> (string + 'p) option" where
  "ready_outcome r i =
     (case dict_get (rq_futures r) i of Some p \<Rightarrow> Some (Inr p) | None \<Rightarrow> map_option Inl (dict_get (rq_errors r) i))"

text \<open>What was produced and not handed out is what waits.\<close>

definition rq_log :: "'p requests \<Rightarrow> string set \<Rightarrow> (string \<times> (string + 'p)) list \<Rightarrow> (string \<times> (string + 'p)) list \<Rightarrow> bool" where
  "rq_log r used made out \<longleftrightarrow>
     distinct (map fst made) \<and> fst ` set made \<subseteq> used \<and> distinct (map fst out) \<and> set out \<subseteq> set made \<and>
     (\<forall>i. ready_outcome r i = (if i \<in> fst ` set out then None else map_of made i))"

definition rq_inv :: "'p requests \<Rightarrow> string set \<Rightarrow> (string \<times> (string + 'p)) list \<Rightarrow> (string \<times> (string + 'p)) list \<Rightarrow> bool" where
  "rq_inv r used made out \<longleftrightarrow> rq_tables r \<and> gate_inv (rq_gate r) \<and>
     (\<forall>i. dict_has i (rq_status r) \<or> dict_has i (rq_archive r) \<longrightarrow> i \<in> used) \<and>
     snd ` (set (granted (rq_gate r)) \<union> set (gate_queue (rq_gate r))) = {i. dict_has i (rq_pending r)} \<and>
     (\<forall>i \<in> fst ` set made. \<not> dict_has i (rq_pending r)) \<and>
     rq_log r used made out"

lemma dict_get_filter:
  "dict_ok d \<Longrightarrow> dict_get (filter (\<lambda>(i, st). P st) d) k = (case dict_get d k of Some v \<Rightarrow> if P v then Some v else None | None \<Rightarrow> None)"
proof (induction d)
  case (Cons x d)
  obtain a v where x: "x = (a, v)" by (cases x)
  have "dict_get d a = None" using Cons(2) by (simp add: x dict_ok_def map_of_eq_None_iff)
  moreover have "dict_ok d" using Cons(2) by (simp add: dict_ok_def)
  ultimately show ?case using Cons(1) by (auto simp: x)
qed simp

lemma dict_ok_filter: "dict_ok d \<Longrightarrow> dict_ok (filter P d)"
  by (simp add: dict_ok_def distinct_map_filter)

lemma compact_status:
  assumes "dict_ok (rq_status r)"
  shows "(\<forall>i. dict_get (rq_status (compact r)) i = dict_get (rq_status r) i \<or>
      dict_get (rq_status r) i = Some RETRIEVED \<and> dict_get (rq_status (compact r)) i = None) \<and>
    dict_ok (rq_status (compact r)) \<and>
    (\<forall>i. dict_has i (rq_archive (compact r)) \<longrightarrow>
      (dict_has i (rq_archive r) \<and> compact r = r) \<or> dict_get (rq_status r) i = Some RETRIEVED \<and> dict_get (rq_status (compact r)) i = None)"
proof (cases "compact r = r")
  case True
  then show ?thesis using assms by simp
next
  case False
  then have c: "compact r = r\<lparr>rq_archive := filter (\<lambda>(i, st). st = RETRIEVED) (rq_status r),
      rq_status := filter (\<lambda>(i, st). st \<noteq> RETRIEVED) (rq_status r)\<rparr>"
    by (simp add: compact_def Let_def split: if_splits)
  show ?thesis unfolding c
    using dict_ok_filter [OF assms] dict_get_filter [OF assms, of "\<lambda>st. st = RETRIEVED"] dict_get_filter [OF assms, of "\<lambda>st. st \<noteq> RETRIEVED"]
    by (auto simp: dict_has_def split: option.splits if_splits)
qed

lemma compact_frame [simp]:
  "rq_ready (compact r) = rq_ready r" "rq_max (compact r) = rq_max r" "rq_futures (compact r) = rq_futures r"
  "rq_errors (compact r) = rq_errors r" "rq_pending (compact r) = rq_pending r" "rq_gate (compact r) = rq_gate r"
  by (simp_all add: compact_def Let_def)


section \<open>Each event keeps the invariant\<close>

lemma rq_tables_new:
  assumes "rq_tables r" "\<not> dict_has i (rq_status r)"
  shows "\<not> dict_has i (rq_pending r)" "\<not> dict_has i (rq_futures r)" "\<not> dict_has i (rq_errors r)"
  using assms by (simp_all add: rq_tables_def dict_has_def)

lemma ready_outcome_same:
  "rq_futures r' = rq_futures r \<Longrightarrow> rq_errors r' = rq_errors r \<Longrightarrow> ready_outcome r' = ready_outcome r"
  by (simp add: ready_outcome_def fun_eq_iff split: option.splits)

lemma rq_log_made:
  "rq_log r used made out \<Longrightarrow> i \<notin> fst ` set made \<Longrightarrow> i \<in> used' \<Longrightarrow> used \<subseteq> used' \<Longrightarrow>
   ready_outcome r' = (ready_outcome r)(i \<mapsto> v) \<Longrightarrow> rq_log r' used' (made @ [(i, v)]) out"
proof -
  assume a: "rq_log r used made out" "i \<notin> fst ` set made" "i \<in> used'" "used \<subseteq> used'"
    "ready_outcome r' = (ready_outcome r)(i \<mapsto> v)"
  have no: "i \<notin> fst ` set out" using a(1,2) unfolding rq_log_def by blast
  have "map_of made i = None" using a(2) by (simp add: map_of_eq_None_iff)
  then have "ready_outcome r' j = (if j \<in> fst ` set out then None else map_of (made @ [(i, v)]) j)" for j
    using a(1) no by (auto simp: a(5) rq_log_def map_add_def split: option.splits)
  then show ?thesis using a(1-4) unfolding rq_log_def by auto
qed

lemma rq_log_out:
  assumes "rq_log r used made out" "ready_outcome r i = Some v" "ready_outcome r' = (ready_outcome r)(i := None)"
  shows "rq_log r' used made (out @ [(i, v)])"
proof -
  have "i \<notin> fst ` set out" "map_of made i = Some v"
    using assms(1,2) by (auto simp: rq_log_def split: if_splits)
  then show ?thesis using assms(1) map_of_SomeD [of made i v] by (auto simp: assms(3) rq_log_def)
qed

lemma stash_inv:
  assumes "rq_inv r used made out" "i \<notin> used"
  shows "rq_inv (stash i p r) (used \<union> {i}) (made @ [(i, Inr p)]) out"
proof -
  have t: "rq_tables r" and n: "\<not> dict_has i (rq_status r)" "\<not> dict_has i (rq_archive r)" and m: "i \<notin> fst ` set made"
    using assms by (auto simp: rq_inv_def rq_log_def)
  note nn = rq_tables_new [OF t n(1)]
  have "rq_tables (stash i p r)" using t n nn by (auto simp: rq_tables_def stash_def)
  moreover have "rq_log (stash i p r) (used \<union> {i}) (made @ [(i, Inr p)]) out"
    by (rule rq_log_made [of r used]) (use assms m in \<open>auto simp: rq_inv_def ready_outcome_def stash_def fun_eq_iff split: option.splits\<close>)
  ultimately show ?thesis using assms(1) m nn unfolding rq_inv_def by (auto simp: stash_def)
qed

lemma retrieve_cases:
  obtains (same) "fst (retrieve_future i r) = r" "handed_out (Retrieve i) r = []"
    | (fut) p where "rq_ready r" "\<not> dict_has i (rq_pending r)" "dict_get (rq_futures r) i = Some p" "retrieve_future i r =
        (r\<lparr>rq_futures := dict_del i (rq_futures r), rq_status := dict_set i RETRIEVED (rq_status r)\<rparr>, Payload p)"
    | (err) e where "rq_ready r" "\<not> dict_has i (rq_pending r)" "dict_get (rq_futures r) i = None" "dict_get (rq_errors r) i = Some e"
        "retrieve_future i r =
        (r\<lparr>rq_errors := dict_del i (rq_errors r), rq_status := dict_set i RETRIEVED (rq_status r)\<rparr>, AppError e)"
  by (cases "rq_ready r"; cases "dict_has i (rq_pending r)"; cases "dict_get (rq_futures r) i"; cases "dict_get (rq_errors r) i")
      (simp_all add: retrieve_future_def handed_out_def)

lemma retrieve_inv:
  assumes "rq_inv r used made out"
  shows "rq_inv (fst (retrieve_future i r)) used made (out @ handed_out (Retrieve i) r)"
proof (cases rule: retrieve_cases [of i r])
  case same
  then show ?thesis using assms by simp
next
  case (fut p)
  have t: "rq_tables r" using assms by (simp add: rq_inv_def)
  have st: "dict_get (rq_status r) i = Some COMPLETED" using t fut(3) by (auto simp: rq_tables_def dict_has_def)
  have "\<not> dict_has i (rq_errors r)" using t st by (simp add: rq_tables_def)
  then have e: "dict_get (rq_errors r) i = None" by (simp add: dict_has_def)
  have h: "handed_out (Retrieve i) r = [(i, Inr p)]" by (simp add: handed_out_def fut(4))
  have l: "rq_log (fst (retrieve_future i r)) used made (out @ [(i, Inr p)])"
    by (rule rq_log_out [of r]) (use assms fut(3,4) e in \<open>auto simp: rq_inv_def ready_outcome_def fun_eq_iff split: option.splits\<close>)
  have "rq_tables (fst (retrieve_future i r))" using t st unfolding fut(4) by (auto simp: rq_tables_def)
  then show ?thesis using assms l st unfolding rq_inv_def h by (auto simp: fut(4) dict_has_def)
next
  case (err e)
  have t: "rq_tables r" using assms by (simp add: rq_inv_def)
  have st: "dict_get (rq_status r) i = Some ERROR" using t err(4) by (auto simp: rq_tables_def dict_has_def)
  have h: "handed_out (Retrieve i) r = [(i, Inl e)]" by (simp add: handed_out_def err(5))
  have l: "rq_log (fst (retrieve_future i r)) used made (out @ [(i, Inl e)])"
    by (rule rq_log_out [of r]) (use assms err in \<open>auto simp: rq_inv_def ready_outcome_def fun_eq_iff split: option.splits\<close>)
  have "rq_tables (fst (retrieve_future i r))" using t st unfolding err(5) by (auto simp: rq_tables_def)
  then show ?thesis using assms l st unfolding rq_inv_def h by (auto simp: err(5) dict_has_def)
qed

lemma compact_tables: "rq_tables r \<Longrightarrow> rq_tables (compact r)"
proof -
  assume t: "rq_tables r"
  then have "dict_ok (rq_status r)" by (simp add: rq_tables_def)
  note c = compact_status [OF this]
  have s: "dict_get (rq_status (compact r)) i = Some x \<longleftrightarrow> dict_get (rq_status r) i = Some x" if "x \<noteq> RETRIEVED" for i x
    using c that by (metis option.distinct(1) option.inject)
  have "dict_has i (rq_archive (compact r)) \<Longrightarrow> dict_get (rq_status (compact r)) i = None" for i
    using c t unfolding rq_tables_def by metis
  then show ?thesis using t c s by (simp add: rq_tables_def)
qed

lemma compact_known:
  "dict_ok (rq_status r) \<Longrightarrow> dict_has i (rq_status (compact r)) \<or> dict_has i (rq_archive (compact r)) \<Longrightarrow>
   dict_has i (rq_status r) \<or> dict_has i (rq_archive r)"
  using compact_status [of r] unfolding dict_has_def by (metis option.distinct(1))

text \<open>A scheduled request is one more pending request, behind a compaction.\<close>

definition noted :: "string \<Rightarrow> 'p requests \<Rightarrow> 'p requests" where
  "noted i r = compact (r\<lparr>rq_status := dict_set i PENDING (rq_status r)\<rparr>)"

lemma noted_frame [simp]:
  "rq_ready (noted i r) = rq_ready r" "rq_futures (noted i r) = rq_futures r" "rq_errors (noted i r) = rq_errors r"
  "rq_pending (noted i r) = rq_pending r" "rq_gate (noted i r) = rq_gate r" "rq_max (noted i r) = rq_max r"
  by (simp_all add: noted_def)

lemma noted_tables:
  assumes "rq_tables r" "\<not> dict_has i (rq_status r)" "\<not> dict_has i (rq_archive r)"
  shows "rq_tables (noted i r\<lparr>rq_pending := dict_set i () (rq_pending r), rq_gate := g\<rparr>)"
proof -
  note nn = rq_tables_new [OF assms(1,2)]
  let ?r = "r\<lparr>rq_status := dict_set i PENDING (rq_status r), rq_pending := dict_set i () (rq_pending r), rq_gate := g\<rparr>"
  have "rq_tables ?r" using assms nn by (auto simp: rq_tables_def)
  then have "rq_tables (compact ?r)" by (rule compact_tables)
  moreover have "compact ?r = noted i r\<lparr>rq_pending := dict_set i () (rq_pending r), rq_gate := g\<rparr>"
    by (simp add: noted_def compact_def Let_def)
  ultimately show ?thesis by simp
qed

lemma schedule_inv:
  assumes "rq_inv r used made out" "i \<notin> used"
  shows "rq_inv (fst (schedule i k r)) (used \<union> {i}) made out"
proof (cases "rq_ready r")
  case False
  then show ?thesis using assms by (auto simp: schedule_def rq_inv_def rq_log_def)
next
  case True
  have t: "rq_tables r" and n: "\<not> dict_has i (rq_status r)" "\<not> dict_has i (rq_archive r)" and m: "i \<notin> fst ` set made"
    and g: "gate_inv (rq_gate r)"
    using assms by (auto simp: rq_inv_def rq_log_def)
  note nn = rq_tables_new [OF t n(1)]
  have new: "i \<notin> snd ` (set (granted (rq_gate r)) \<union> set (gate_queue (rq_gate r)))"
    using assms(1) nn unfolding rq_inv_def by simp
  let ?g = "gate_enter k i (rq_gate r)"
  have s: "fst (schedule i k r) = noted i r\<lparr>rq_pending := dict_set i () (rq_pending r), rq_gate := ?g\<rparr>"
    using True by (simp add: schedule_def noted_def Let_def)
  obtain gs where gs: "gate_inv ?g" "granted ?g = granted (rq_gate r) @ gs" "gate_queue (rq_gate r) @ [(k, i)] = gs @ gate_queue ?g"
    using gate_enter_spec [OF g new, of k] by blast
  have "set (granted ?g) \<union> set (gate_queue ?g) = set (granted (rq_gate r)) \<union> set (gate_queue (rq_gate r) @ [(k, i)])"
    unfolding gs(2,3) by auto
  then have w: "snd ` (set (granted ?g) \<union> set (gate_queue ?g)) = insert i {j. dict_has j (rq_pending r)}"
    using assms(1) unfolding rq_inv_def by (simp add: image_Un)
  have ok: "dict_ok (dict_set i PENDING (rq_status r))" using t by (simp add: rq_tables_def)
  have known: "dict_has j (rq_status (noted i r)) \<or> dict_has j (rq_archive (noted i r)) \<Longrightarrow> j \<in> used \<union> {i}" for j
    using compact_known [of "r\<lparr>rq_status := dict_set i PENDING (rq_status r)\<rparr>" j] ok assms(1)
    by (auto simp: noted_def rq_inv_def)
  have l: "rq_log (fst (schedule i k r)) (used \<union> {i}) made out"
    using assms(1) ready_outcome_same [of "noted i r\<lparr>rq_pending := dict_set i () (rq_pending r), rq_gate := ?g\<rparr>" r] unfolding rq_inv_def rq_log_def s by auto
  show ?thesis using noted_tables [OF t n, of ?g] gs(1) w known l m assms(1) unfolding rq_inv_def s by auto
qed

lemma finish_inv:
  assumes "rq_inv r used made out" "(k, i) \<in> set (granted (rq_gate r))"
  shows "rq_inv (finish i k res r) used (made @ produced (Finish i k res) r) out"
proof -
  have t: "rq_tables r" and g: "gate_inv (rq_gate r)" using assms by (simp_all add: rq_inv_def)
  have pend: "dict_has i (rq_pending r)" using assms unfolding rq_inv_def by force
  have st: "dict_get (rq_status r) i = Some PENDING" using t pend by (simp add: rq_tables_def)
  have nf: "\<not> dict_has i (rq_futures r)" "\<not> dict_has i (rq_errors r)" "\<not> dict_has i (rq_archive r)"
    using t st by (auto simp: rq_tables_def)
  have m: "i \<notin> fst ` set made" using assms(1) pend by (auto simp: rq_inv_def)
  have u: "i \<in> used" using assms(1) st by (simp add: rq_inv_def dict_has_def)
  let ?g = "gate_leave k i (rq_gate r)" and ?v = "if rq_ready r then res else Inl ''Server not ready''"
  obtain gs where gs: "gate_inv ?g" "granted ?g = remove1 (k, i) (granted (rq_gate r)) @ gs" "gate_queue (rq_gate r) = gs @ gate_queue ?g"
    using gate_leave_spec [OF g, of k i] assms(2) by auto
  have d: "distinct_ids (granted (rq_gate r) @ gate_queue (rq_gate r))"
    using g by (simp add: gate_inv_def gate_counts_def)
  let ?H = "set (granted (rq_gate r)) \<union> set (gate_queue (rq_gate r))"
  have "distinct (granted (rq_gate r) @ gate_queue (rq_gate r))" using distinct_ids_distinct [OF d] .
  then have "set (granted ?g) \<union> set (gate_queue ?g) = ?H - {(k, i)}"
    using assms(2) unfolding gs(2) by (auto simp: gs(3))
  moreover have "inj_on snd ?H" using d by (simp only: distinct_ids_def distinct_map set_append)
  then have "snd ` (?H - {(k, i)}) = snd ` ?H - {i}"
    using assms(2) inj_on_image_set_diff [of snd ?H ?H "{(k, i)}"] by auto
  ultimately have w: "snd ` (set (granted ?g) \<union> set (gate_queue ?g)) = {j. dict_has j (rq_pending r)} - {i}"
    using assms(1) by (simp add: rq_inv_def)
  have "dict_get (rq_futures r) i = None" "dict_get (rq_errors r) i = None" using nf by (simp_all add: dict_has_def)
  then have l: "rq_log (finish i k res r) used (made @ [(i, ?v)]) out"
    by (intro rq_log_made [of r used])
      (use assms(1) m u in \<open>auto simp: rq_inv_def ready_outcome_def finish_def Let_def fun_eq_iff split: sum.splits option.splits\<close>)
  have "rq_tables (finish i k res r)"
    using t st nf by (auto simp: rq_tables_def finish_def Let_def split: sum.splits)
  moreover have "rq_gate (finish i k res r) = ?g" "rq_pending (finish i k res r) = dict_del i (rq_pending r)"
    "dict_has j (rq_status (finish i k res r)) = (j = i \<or> dict_has j (rq_status r))" "rq_archive (finish i k res r) = rq_archive r" for j
    by (auto simp: finish_def Let_def split: sum.splits)
  ultimately show ?thesis using l w gs(1) u assms(1) by (auto simp: rq_inv_def produced_def)
qed

lemma rq_event_inv:
  assumes "rq_inv r used made out" "rq_enabled used x r"
  shows "rq_inv (rq_apply x r) (used \<union> rq_names x) (made @ produced x r) (out @ handed_out x r)"
proof (cases x)
  case Shutdown
  have "rq_tables (shutdown r) = rq_tables r" by (simp add: rq_tables_def shutdown_def)
  moreover have "rq_log (shutdown r) used made out = rq_log r used made out"
    using ready_outcome_same [of "shutdown r" r] by (simp add: rq_log_def shutdown_def)
  ultimately show ?thesis
    using assms Shutdown by (simp add: rq_inv_def produced_def handed_out_def) (simp add: shutdown_def)
next
  case (Finish i k res)
  then show ?thesis using assms finish_inv [of r used made out k i res] by (simp add: handed_out_def)
next
  case (Retrieve i)
  then show ?thesis using assms retrieve_inv [of r used made out i] by (simp add: produced_def)
qed (use assms stash_inv schedule_inv in \<open>simp_all add: produced_def handed_out_def\<close>)

lemma rq_run_inv: "rq_run (rq_init n g) used made out r \<Longrightarrow> gate_init k = Ok g \<Longrightarrow> rq_inv r used made out"
proof (induction rule: rq_run.induct)
  case rq_start
  have "granted g = []" "gate_queue g = []" using rq_start by (auto simp: gate_init_def split: if_splits)
  then show ?case using gate_init_inv [OF rq_start]
    by (simp add: rq_inv_def rq_log_def rq_tables_def rq_init_def ready_outcome_def)
next
  case (rq_step used made out r x)
  then show ?case using rq_event_inv by blast
qed

section \<open>Properties\<close>

text \<open>
  C7. Over every run of scheduling, stashing, finishing, retrieving, compacting and shutting down: each
  request produces at most one outcome, each outcome is handed out at most once, and what is handed out
  for a request is the outcome that its own operation produced.
\<close>

theorem outcome_handed_out_once:
  assumes "rq_run (rq_init n g) used made out r" "gate_init k = Ok g"
  shows "distinct (map fst made) \<and> distinct (map fst out) \<and> set out \<subseteq> set made"
  using rq_run_inv [OF assms] by (simp add: rq_inv_def rq_log_def)

text \<open>
  C25. No outcome is lost: as long as the server is up, an outcome that was produced and not yet handed out is
  the answer to the next \<open>retrieve_future\<close> of its request, whatever compaction has dropped meanwhile;
  a request whose task waits or runs is told to try again.
\<close>

theorem outcome_stays_retrievable:
  assumes "rq_run (rq_init n g) used made out r" "gate_init k = Ok g" "rq_ready r"
  shows "((i, v) \<in> set made \<and> i \<notin> fst ` set out \<longrightarrow>
      snd (retrieve_future i r) = (case v of Inr p \<Rightarrow> Payload p | Inl e \<Rightarrow> AppError e)) \<and>
    (i \<in> snd ` (set (granted (rq_gate r)) \<union> set (gate_queue (rq_gate r))) \<longrightarrow> snd (retrieve_future i r) = TryAgain)"
proof -
  note inv = rq_run_inv [OF assms(1,2)]
  have "snd (retrieve_future i r) = (case v of Inr p \<Rightarrow> Payload p | Inl e \<Rightarrow> AppError e)"
    if m: "(i, v) \<in> set made" "i \<notin> fst ` set out"
  proof -
    have "distinct (map fst made)" "ready_outcome r i = map_of made i" using inv m by (simp_all add: rq_inv_def rq_log_def)
    then have "ready_outcome r i = Some v" using m(1) by simp
    moreover have "\<not> dict_has i (rq_pending r)" using inv m(1) by (force simp: rq_inv_def)
    ultimately show ?thesis using assms(3)
      by (cases "dict_get (rq_futures r) i"; cases "dict_get (rq_errors r) i")
        (auto simp: retrieve_future_def ready_outcome_def)
  qed
  moreover have "snd (retrieve_future i r) = TryAgain" if "dict_has i (rq_pending r)"
    using assms(3) that by (simp add: retrieve_future_def)
  ultimately show ?thesis using inv by (simp add: rq_inv_def)
qed

text \<open>
  A compaction replaces the archive instead of extending it: a request that was retrieved before the previous
  compaction is reported as already retrieved before the new one and as never seen by this server after it,
  whatever the limit on the entries.
\<close>

theorem compaction_forgets_archive:
  assumes "rq_tables r" "rq_ready r" "dict_has i (rq_archive r)" "compact r \<noteq> r"
  shows "snd (retrieve_future i r) = SeenBefore \<and> snd (retrieve_future i (compact r)) = NeverSeen"
proof -
  have n: "\<not> dict_has i (rq_status r)" using assms(1,3) by (auto simp: rq_tables_def dict_has_def)
  note t = rq_tables_new [OF assms(1) n]
  have ok: "dict_ok (rq_status r)" using assms(1) by (simp add: rq_tables_def)
  have "\<not> dict_has i (rq_status (compact r))" "\<not> dict_has i (rq_archive (compact r))"
    using compact_status [OF ok] n assms(4) unfolding dict_has_def by (metis option.distinct(1))+
  then show ?thesis using assms(2,3) n t by (simp add: retrieve_future_def dict_has_def)
qed

text \<open>A server whose limit is two entries: a sample, an exclusive operation and a stashed reply.\<close>

definition rq_demo_gate :: "string gate" where
  "rq_demo_gate = \<lparr>max_readers = 2, gate_queue = [], active_samples = 0, exclusive_active = False, granted = []\<rparr>"

definition demo_events :: "nat rq_event list" where
  "demo_events = [Stash ''a'' 7, Retrieve ''a'', Schedule ''b'' Sample, Finish ''b'' Sample (Inr 8),
     Retrieve ''b'', Schedule ''c'' Exclusive, Finish ''c'' Exclusive (Inl ''boom'')]"

fun rq_replay :: "'p rq_event list \<Rightarrow> 'p requests \<times> string list \<times> (string \<times> (string + 'p)) list \<times> (string \<times> (string + 'p)) list
    \<Rightarrow> ('p requests \<times> string list \<times> (string \<times> (string + 'p)) list \<times> (string \<times> (string + 'p)) list) option" where
  "rq_replay [] s = Some s"
| "rq_replay (x # xs) (r, used, made, out) =
     (if (case x of Stash i p \<Rightarrow> i \<notin> set used | Schedule i k \<Rightarrow> i \<notin> set used
          | Finish i k res \<Rightarrow> (k, i) \<in> set (granted (rq_gate r)) | _ \<Rightarrow> True)
      then rq_replay xs (rq_apply x r, used @ (case x of Stash i p \<Rightarrow> [i] | Schedule i k \<Rightarrow> [i] | _ \<Rightarrow> []),
        made @ produced x r, out @ handed_out x r)
      else None)"

lemma rq_replay_run:
  "rq_replay xs (r, used, made, out) = Some (r', used', made', out') \<Longrightarrow> rq_run r0 (set used) made out r \<Longrightarrow>
   rq_run r0 (set used') made' out' r'"
proof (induction xs arbitrary: r used made out)
  case (Cons x xs)
  let ?new = "case x of Stash i p \<Rightarrow> [i] | Schedule i k \<Rightarrow> [i] | _ \<Rightarrow> []"
  have n: "set ?new = rq_names x" by (cases x) simp_all
  have en: "rq_enabled (set used) x r" using Cons.prems(1) by (cases x) (auto split: if_splits)
  have "rq_run r0 (set used \<union> rq_names x) (made @ produced x r) (out @ handed_out x r) (rq_apply x r)"
    by (rule rq_step [OF Cons.prems(2) en])
  then have "rq_run r0 (set (used @ ?new)) (made @ produced x r) (out @ handed_out x r) (rq_apply x r)"
    by (simp add: n)
  then show ?case using Cons.IH Cons.prems(1) by (auto split: if_splits)
qed simp

lemma rq_demo_run:
  "\<exists>r. rq_run (rq_init 2 rq_demo_gate) {''a'', ''b'', ''c''} [(''a'', Inr 7), (''b'', Inr 8), (''c'', Inl ''boom'')]
      [(''a'', Inr (7::nat)), (''b'', Inr 8)] r \<and> rq_ready r"
proof -
  define res where "res = rq_replay demo_events (rq_init 2 rq_demo_gate, [], [], [])"
  have "res = Some (\<lparr>rq_ready = True, rq_max = 2, rq_status = [(''c'', ERROR)], rq_archive = [(''b'', RETRIEVED)], rq_futures = [],
      rq_errors = [(''c'', ''boom'')], rq_pending = [], rq_gate = rq_demo_gate\<rparr>, [''a'', ''b'', ''c''],
      [(''a'', Inr 7), (''b'', Inr 8), (''c'', Inl ''boom'')], [(''a'', Inr 7), (''b'', Inr 8)])"
    unfolding res_def by code_simp
  then have "rq_run (rq_init 2 rq_demo_gate) (set [''a'', ''b'', ''c'']) [(''a'', Inr 7), (''b'', Inr 8), (''c'', Inl ''boom'')]
      [(''a'', Inr (7::nat)), (''b'', Inr 8)] \<lparr>rq_ready = True, rq_max = 2, rq_status = [(''c'', ERROR)], rq_archive = [(''b'', RETRIEVED)], rq_futures = [],
      rq_errors = [(''c'', ''boom'')], rq_pending = [], rq_gate = rq_demo_gate\<rparr>"
    using rq_replay_run [of demo_events "rq_init 2 rq_demo_gate" "[]" "[]" "[]" _ _ _ _ "rq_init 2 rq_demo_gate"]
      rq_start [of "rq_init 2 rq_demo_gate :: nat requests"]
    unfolding res_def by simp
  then show ?thesis by auto
qed

lemma rq_demo_gate_init: "gate_init 2 = Ok rq_demo_gate"
  by (simp add: gate_init_def rq_demo_gate_def)

theorem outcome_handed_out_once_witness:
  "\<exists>r. rq_run (rq_init 2 rq_demo_gate) {''a'', ''b'', ''c''} [(''a'', Inr 7), (''b'', Inr 8), (''c'', Inl ''boom'')]
      [(''a'', Inr (7::nat)), (''b'', Inr 8)] r \<and>
    set [(''a'', Inr (7::nat)), (''b'', Inr 8)] \<subseteq> set [(''a'', Inr 7), (''b'', Inr 8), (''c'', Inl ''boom'' :: string + nat)]"
  using rq_demo_run outcome_handed_out_once [OF _ rq_demo_gate_init] by blast

theorem outcome_stays_retrievable_witness:
  "\<exists>r. rq_run (rq_init 2 rq_demo_gate) {''a'', ''b'', ''c''} [(''a'', Inr 7), (''b'', Inr 8), (''c'', Inl ''boom'')]
      [(''a'', Inr (7::nat)), (''b'', Inr 8)] r \<and> snd (retrieve_future ''c'' r) = AppError ''boom''"
proof -
  obtain r where r: "rq_run (rq_init 2 rq_demo_gate) {''a'', ''b'', ''c''} [(''a'', Inr 7), (''b'', Inr 8), (''c'', Inl ''boom'')]
      [(''a'', Inr (7::nat)), (''b'', Inr 8)] r" "rq_ready r" using rq_demo_run by blast
  then show ?thesis
    using outcome_stays_retrievable [OF r(1) rq_demo_gate_init r(2), of "''c''" "Inl ''boom''"] by auto
qed

definition full_server :: "nat requests" where
  "full_server = (rq_init 2 rq_demo_gate)\<lparr>rq_status := [(''b'', RETRIEVED), (''c'', RETRIEVED)], rq_archive := [(''a'', RETRIEVED)]\<rparr>"

theorem compaction_forgets_archive_witness: "snd (retrieve_future ''a'' (compact full_server)) = NeverSeen"
proof -
  have "rq_tables full_server" by (auto simp: rq_tables_def full_server_def rq_init_def dict_ok_def)
  moreover have "compact full_server \<noteq> full_server" by (simp add: compact_def full_server_def rq_init_def)
  ultimately show ?thesis using compaction_forgets_archive [of full_server "''a''"]
    by (simp add: full_server_def rq_init_def)
qed

end
