(* ===== verification/EngineLifecycle.thy ===== *)
theory EngineLifecycle
  imports Prelude
begin

text \<open>
  \<open>verl_tinker/backends/model_lifecycle.py\<close> and the operations of \<open>ColocatedBackend\<close>
  (\<open>backends/colocated.py\<close>): actor, reference and rollout share the GPUs, and a tracker of the roles that are
  resident decides what each operation moves before it runs. The worker groups are Ray actors: a call to
  one moves parts between CPU and GPU or raises, which leaves the parts where they were; which calls raise
  is an input of the run.
\<close>

section \<open>The tracker\<close>

datatype model_role = ACTOR | REF | ROLLOUT

record lifecycle =
  enable_offload :: bool
  available_roles :: "model_role set"
  awake_roles :: "model_role set"

definition create :: "bool \<Rightarrow> bool \<Rightarrow> bool \<Rightarrow> bool \<Rightarrow> lifecycle" where
  "create offload has_rollout has_ref actor_awake =
     (let av = {ACTOR} \<union> (if has_rollout then {ROLLOUT} else {}) \<union> (if has_ref then {REF} else {})
      in if \<not> offload then \<lparr>enable_offload = False, available_roles = av, awake_roles = av\<rparr>
         else \<lparr>enable_offload = True, available_roles = av,
                awake_roles = ((if actor_awake then {ACTOR} else {}) \<union> (if actor_awake \<and> has_ref then {REF} else {})) \<inter> av\<rparr>)"

definition mark_awake :: "model_role \<Rightarrow> lifecycle \<Rightarrow> lifecycle" where
  "mark_awake r l = (if r \<in> available_roles l then l\<lparr>awake_roles := insert r (awake_roles l)\<rparr> else l)"

definition mark_asleep :: "model_role \<Rightarrow> lifecycle \<Rightarrow> lifecycle" where
  "mark_asleep r l = l\<lparr>awake_roles := awake_roles l - {r}\<rparr>"

text \<open>A loop of \<open>prepare\<close>: move a role, then mark it; an exception of the move ends the loop.\<close>

fun move_loop :: "(model_role \<Rightarrow> 'd \<Rightarrow> 'd \<times> string option) \<Rightarrow> (model_role \<Rightarrow> lifecycle \<Rightarrow> lifecycle)
    \<Rightarrow> model_role list \<Rightarrow> lifecycle \<times> 'd \<Rightarrow> (lifecycle \<times> 'd) \<times> string option" where
  "move_loop move mark [] s = (s, None)"
| "move_loop move mark (r # rs) (l, d) =
     (case move r d of
        (d', Some e) \<Rightarrow> ((l, d'), Some e)
      | (d', None) \<Rightarrow> move_loop move mark rs (mark r l, d'))"

text \<open>\<open>prepare\<close>; \<open>ord\<close> is the order in which the set of roles is iterated.\<close>

definition prepare :: "model_role list \<Rightarrow> (model_role \<Rightarrow> 'd \<Rightarrow> 'd \<times> string option) \<Rightarrow> (model_role \<Rightarrow> 'd \<Rightarrow> 'd \<times> string option)
    \<Rightarrow> model_role set \<Rightarrow> lifecycle \<times> 'd \<Rightarrow> (lifecycle \<times> 'd) \<times> string option" where
  "prepare ord sleep wake roles s =
     (if \<not> enable_offload (fst s) then (s, None)
      else let required = roles \<inter> available_roles (fst s) in
        case move_loop sleep mark_asleep (filter (\<lambda>r. r \<in> awake_roles (fst s) - required) ord) s of
          (s', Some e) \<Rightarrow> (s', Some e)
        | (s', None) \<Rightarrow> move_loop wake mark_awake (filter (\<lambda>r. r \<in> required - awake_roles (fst s')) ord) s')"

lemma create_simps [simp]:
  "enable_offload (create o' r f a) = o'"
  "available_roles (create o' r f a) = {ACTOR} \<union> (if r then {ROLLOUT} else {}) \<union> (if f then {REF} else {})"
  by (simp_all add: create_def Let_def)

lemma mark_simps [simp]:
  "enable_offload (mark_awake r l) = enable_offload l" "enable_offload (mark_asleep r l) = enable_offload l"
  "available_roles (mark_awake r l) = available_roles l" "available_roles (mark_asleep r l) = available_roles l"
  "awake_roles (mark_asleep r l) = awake_roles l - {r}"
  "awake_roles (mark_awake r l) = (if r \<in> available_roles l then insert r (awake_roles l) else awake_roles l)"
  by (simp_all add: mark_awake_def mark_asleep_def)

section \<open>What the tracker relies on\<close>

text \<open>
  A device whose roles can be moved one at a time: a move that returns has changed the residency of its
  role alone, a move that raises has changed nothing.
\<close>

locale role_mover =
  fixes av :: "model_role set"
    and resident :: "'d \<Rightarrow> model_role set"
    and sleep :: "model_role \<Rightarrow> 'd \<Rightarrow> 'd \<times> string option"
    and wake :: "model_role \<Rightarrow> 'd \<Rightarrow> 'd \<times> string option"
  assumes sleep_ok: "r \<in> av \<Longrightarrow> sleep r d = (d', None) \<Longrightarrow> resident d' = resident d - {r}"
    and wake_ok: "r \<in> av \<Longrightarrow> wake r d = (d', None) \<Longrightarrow> resident d' = insert r (resident d)"
    and sleep_raise: "sleep r d = (d', Some e) \<Longrightarrow> resident d' = resident d"
    and wake_raise: "wake r d = (d', Some e) \<Longrightarrow> resident d' = resident d"
begin

definition tracks :: "lifecycle \<times> 'd \<Rightarrow> bool" where
  "tracks s \<longleftrightarrow> available_roles (fst s) = av \<and> awake_roles (fst s) = resident (snd s) \<and> resident (snd s) \<subseteq> av"

lemma sleep_loop:
  "tracks s \<Longrightarrow> set rs \<subseteq> av \<Longrightarrow> move_loop sleep mark_asleep rs s = (s', e) \<Longrightarrow>
   tracks s' \<and> enable_offload (fst s') = enable_offload (fst s) \<and> resident (snd s') \<subseteq> resident (snd s) \<and>
   (e = None \<longrightarrow> resident (snd s') = resident (snd s) - set rs)"
proof (induction rs arbitrary: s)
  case (Cons r rs)
  obtain l d where s: "s = (l, d)" by fastforce
  note prems = Cons.prems [unfolded s]
  obtain d1 e1 where m: "sleep r d = (d1, e1)" by fastforce
  show ?case
  proof (cases e1)
    case None
    have t: "tracks (mark_asleep r l, d1)" using prems(1,2) sleep_ok [of r d d1] m None by (auto simp: tracks_def)
    have "tracks s' \<and> enable_offload (fst s') = enable_offload l \<and> resident (snd s') \<subseteq> resident d1 \<and>
        (e = None \<longrightarrow> resident (snd s') = resident d1 - set rs)"
      using Cons.IH [OF t] prems(2,3) m None by simp
    then show ?thesis using sleep_ok [of r d d1] m None prems(2) by (auto simp: s)
  next
    case (Some x)
    then show ?thesis using prems(1,3) m sleep_raise [of r d d1 x] by (auto simp: s tracks_def)
  qed
qed simp

lemma wake_loop:
  "tracks s \<Longrightarrow> set rs \<subseteq> av \<Longrightarrow> move_loop wake mark_awake rs s = (s', e) \<Longrightarrow>
   tracks s' \<and> enable_offload (fst s') = enable_offload (fst s) \<and> resident (snd s') \<subseteq> resident (snd s) \<union> set rs \<and>
   (e = None \<longrightarrow> resident (snd s') = resident (snd s) \<union> set rs)"
proof (induction rs arbitrary: s)
  case (Cons r rs)
  obtain l d where s: "s = (l, d)" by fastforce
  note prems = Cons.prems [unfolded s]
  obtain d1 e1 where m: "wake r d = (d1, e1)" by fastforce
  show ?case
  proof (cases e1)
    case None
    have t: "tracks (mark_awake r l, d1)" using prems(1,2) wake_ok [of r d d1] m None by (auto simp: tracks_def)
    have "tracks s' \<and> enable_offload (fst s') = enable_offload l \<and> resident (snd s') \<subseteq> resident d1 \<union> set rs \<and>
        (e = None \<longrightarrow> resident (snd s') = resident d1 \<union> set rs)"
      using Cons.IH [OF t] prems(2,3) m None by simp
    then show ?thesis using wake_ok [of r d d1] m None prems(2) by (auto simp: s)
  next
    case (Some x)
    then show ?thesis using prems(1,3) m wake_raise [of r d d1 x] by (auto simp: s tracks_def)
  qed
qed simp

text \<open>
  With offload on, \<open>prepare\<close> keeps the tracker right, raises or not, and when it returns the resident roles
  are the required ones; no role outside the old and the required ones is ever woken.
\<close>

lemma prepare_tracks:
  assumes "tracks s" "enable_offload (fst s)" "set ord = UNIV" "prepare ord sleep wake roles s = (s', e)"
  shows "tracks s' \<and> enable_offload (fst s') \<and> (e = None \<longrightarrow> resident (snd s') = roles \<inter> av)"
proof -
  let ?req = "roles \<inter> av" and ?away = "filter (\<lambda>r. r \<in> awake_roles (fst s) - roles \<inter> av) ord"
  obtain s1 e1 where m: "move_loop sleep mark_asleep ?away s = (s1, e1)" by fastforce
  have a: "available_roles (fst s) = av" "awake_roles (fst s) = resident (snd s)" "resident (snd s) \<subseteq> av"
    using assms(1) by (simp_all add: tracks_def)
  have "set ?away \<subseteq> av" "set ?away = resident (snd s) - ?req" using a assms(3) by auto
  with sleep_loop [OF assms(1) _ m] have s1: "tracks s1" "enable_offload (fst s1) = enable_offload (fst s)"
    "e1 = None \<longrightarrow> resident (snd s1) = resident (snd s) \<inter> ?req" by blast+
  show ?thesis
  proof (cases e1)
    case None
    let ?new = "filter (\<lambda>r. r \<in> ?req - awake_roles (fst s1)) ord"
    have p: "move_loop wake mark_awake ?new s1 = (s', e)" using assms(2,4) m None a by (simp add: prepare_def Let_def)
    have "set ?new \<subseteq> av" "set ?new = ?req - resident (snd s1)" using assms(3) s1(1) by (auto simp: tracks_def)
    with wake_loop [OF s1(1) _ p] have "tracks s'" "enable_offload (fst s') = enable_offload (fst s1)"
      "e = None \<longrightarrow> resident (snd s') = resident (snd s1) \<union> (?req - resident (snd s1))" by blast+
    then show ?thesis using s1 None assms(2) by blast
  next
    case (Some x)
    then show ?thesis using assms(2,4) m a s1 by (auto simp: prepare_def Let_def)
  qed
qed

lemma prepare_ready:
  assumes "tracks s" "resident (snd s) = roles \<inter> av" "prepare ord sleep wake roles s = (s', e)"
  shows "s' = s \<and> e = None"
  using assms by (simp add: prepare_def tracks_def Let_def split: if_splits)

end


section \<open>The backend\<close>

text \<open>Which parts are on the GPU.\<close>

record device =
  dv_model :: bool
  dv_optimizer :: bool
  dv_grad :: bool
  dv_ref :: bool
  dv_rollout :: bool

text \<open>
  What was decided at start: rollout or not, a reference policy or not (\<open>ref_policy_wg\<close>), which the
  actor itself serves when it is a LoRA model.
\<close>

record backend_config =
  bc_offload :: bool
  bc_no_rollout :: bool
  bc_ref_policy :: bool
  bc_ref_in_actor :: bool

datatype engine_call =
    ComputeLogProb
  | ComputeRefLogProb
  | ForwardBackward
  | OptimizerStep
  | PrepareSync
  | PushWeights
  | SaveCheckpoint
  | LoadCheckpoint

text \<open>
  The device, the outcomes of the coming calls to the workers (True: it raises), and the calls made so far
  with the device that they found.
\<close>

record backend =
  be_device :: device
  be_faults :: "bool list"
  be_calls :: "(engine_call \<times> device) list"

definition worker_call :: "(device \<Rightarrow> device) \<Rightarrow> backend \<Rightarrow> backend \<times> string option" where
  "worker_call f b =
     (case be_faults b of
        [] \<Rightarrow> (b\<lparr>be_device := f (be_device b)\<rparr>, None)
      | raises # fs \<Rightarrow>
          if raises then (b\<lparr>be_faults := fs\<rparr>, Some ''worker call failed'')
          else (b\<lparr>be_device := f (be_device b), be_faults := fs\<rparr>, None))"

definition move_actor :: "bool \<Rightarrow> backend \<Rightarrow> backend \<times> string option" where
  "move_actor on b = worker_call (\<lambda>d. d\<lparr>dv_model := on, dv_optimizer := on, dv_grad := on\<rparr>) b"

definition move_ref :: "backend_config \<Rightarrow> bool \<Rightarrow> backend \<Rightarrow> backend \<times> string option" where
  "move_ref c on b =
     (if \<not> bc_ref_policy c \<or> bc_ref_in_actor c then (b, None) else worker_call (\<lambda>d. d\<lparr>dv_ref := on\<rparr>) b)"

definition sleep_model_role :: "backend_config \<Rightarrow> model_role \<Rightarrow> backend \<Rightarrow> backend \<times> string option" where
  "sleep_model_role c r b =
     (case r of ACTOR \<Rightarrow> move_actor False b | REF \<Rightarrow> move_ref c False b
      | ROLLOUT \<Rightarrow> if bc_no_rollout c then (b, None) else worker_call (\<lambda>d. d\<lparr>dv_rollout := False\<rparr>) b)"

definition wake_model_role :: "backend_config \<Rightarrow> model_role \<Rightarrow> backend \<Rightarrow> backend \<times> string option" where
  "wake_model_role c r b =
     (case r of ACTOR \<Rightarrow> move_actor True b | REF \<Rightarrow> move_ref c True b
      | ROLLOUT \<Rightarrow> if bc_no_rollout c then (b, None) else worker_call (\<lambda>d. d\<lparr>dv_rollout := True\<rparr>) b)"

definition prepare_model_roles :: "backend_config \<Rightarrow> model_role list \<Rightarrow> model_role set \<Rightarrow> lifecycle \<times> backend
    \<Rightarrow> (lifecycle \<times> backend) \<times> string option" where
  "prepare_model_roles c ord roles s = prepare ord (sleep_model_role c) (wake_model_role c) roles s"

section \<open>Operations\<close>

text \<open>A call that runs on the device, after the preparation.\<close>

definition run_call :: "engine_call \<Rightarrow> lifecycle \<times> backend \<Rightarrow> (lifecycle \<times> backend) \<times> string option" where
  "run_call k s =
     (case worker_call (\<lambda>d. case k of PrepareSync \<Rightarrow> d\<lparr>dv_optimizer := False\<rparr> | PushWeights \<Rightarrow> d\<lparr>dv_rollout := True\<rparr> | _ \<Rightarrow> d) (snd s) of
        (b, e) \<Rightarrow> ((fst s, b\<lparr>be_calls := be_calls b @ [(k, be_device (snd s))]\<rparr>), e))"

text \<open>Statements one after the other, up to the first exception.\<close>

fun seq :: "('s \<Rightarrow> 's \<times> string option) list \<Rightarrow> 's \<Rightarrow> 's \<times> string option" where
  "seq [] s = (s, None)"
| "seq (f # fs) s = (case f s of (s', Some e) \<Rightarrow> (s', Some e) | (s', None) \<Rightarrow> seq fs s')"

definition compute_log_prob :: "backend_config \<Rightarrow> model_role list \<Rightarrow> lifecycle \<times> backend \<Rightarrow> (lifecycle \<times> backend) \<times> string option" where
  "compute_log_prob c ord = seq [prepare_model_roles c ord {ACTOR}, run_call ComputeLogProb]"

definition compute_ref_log_prob :: "backend_config \<Rightarrow> model_role list \<Rightarrow> lifecycle \<times> backend \<Rightarrow> (lifecycle \<times> backend) \<times> string option" where
  "compute_ref_log_prob c ord s =
     (if bc_ref_in_actor c then seq [prepare_model_roles c ord {ACTOR}, run_call ComputeLogProb] s
      else if \<not> bc_ref_policy c then (s, Some ''Reference policy not initialized'')
      else seq [prepare_model_roles c ord {REF}, run_call ComputeRefLogProb] s)"

definition forward_backward :: "backend_config \<Rightarrow> model_role list \<Rightarrow> lifecycle \<times> backend \<Rightarrow> (lifecycle \<times> backend) \<times> string option" where
  "forward_backward c ord = seq [prepare_model_roles c ord {ACTOR}, run_call ForwardBackward]"

definition optim_step :: "backend_config \<Rightarrow> model_role list \<Rightarrow> lifecycle \<times> backend \<Rightarrow> (lifecycle \<times> backend) \<times> string option" where
  "optim_step c ord = seq [prepare_model_roles c ord {ACTOR}, run_call OptimizerStep]"

definition save_checkpoint :: "backend_config \<Rightarrow> model_role list \<Rightarrow> lifecycle \<times> backend \<Rightarrow> (lifecycle \<times> backend) \<times> string option" where
  "save_checkpoint c ord = seq [prepare_model_roles c ord {ACTOR}, run_call SaveCheckpoint]"

definition load_checkpoint :: "backend_config \<Rightarrow> model_role list \<Rightarrow> lifecycle \<times> backend \<Rightarrow> (lifecycle \<times> backend) \<times> string option" where
  "load_checkpoint c ord = seq [prepare_model_roles c ord {ACTOR}, run_call LoadCheckpoint]"

definition release_actor :: "lifecycle \<times> backend \<Rightarrow> (lifecycle \<times> backend) \<times> string option" where
  "release_actor s = (case move_actor False (snd s) of (b, e) \<Rightarrow> ((fst s, b), e))"

definition mark_synced :: "lifecycle \<times> backend \<Rightarrow> (lifecycle \<times> backend) \<times> string option" where
  "mark_synced s = ((mark_awake ROLLOUT (mark_asleep ACTOR (fst s)), snd s), None)"

text \<open>\<open>update_weights\<close>: the actor without its optimizer and the rollout are resident together while the weights are pushed.\<close>

definition update_weights :: "backend_config \<Rightarrow> model_role list \<Rightarrow> lifecycle \<times> backend \<Rightarrow> (lifecycle \<times> backend) \<times> string option" where
  "update_weights c ord s =
     (if bc_no_rollout c then (s, Some ''update_weights is not available in no_rollout_deployment mode'')
      else seq ([prepare_model_roles c ord {ACTOR}]
        @ (if bc_offload c then [run_call PrepareSync] else [])
        @ [run_call PushWeights]
        @ (if bc_offload c then [release_actor, mark_synced] else [])) s)"

text \<open>\<open>_ensure_replicas_awake_for_generation\<close>, which takes only the lock of the replicas.\<close>

definition ensure_replicas_awake :: "backend_config \<Rightarrow> model_role list \<Rightarrow> lifecycle \<times> backend \<Rightarrow> (lifecycle \<times> backend) \<times> string option" where
  "ensure_replicas_awake c ord s =
     (if bc_no_rollout c then (s, None)
      else if \<not> bc_offload c then (s, None)
      else prepare_model_roles c ord {ROLLOUT} s)"

text \<open>
  The end of \<open>__init__\<close>: the workers are loaded with actor and reference on the GPU; the rollout replicas
  are created, warmed up and, with offload, put to sleep. \<open>_build_role_cls\<close> rejects a reference policy
  without a rollout.
\<close>

definition replicas_up :: "lifecycle \<times> backend \<Rightarrow> (lifecycle \<times> backend) \<times> string option" where
  "replicas_up s = (case worker_call (\<lambda>d. d\<lparr>dv_rollout := True\<rparr>) (snd s) of (b, e) \<Rightarrow> ((fst s, b), e))"

definition replicas_down :: "backend_config \<Rightarrow> lifecycle \<times> backend \<Rightarrow> (lifecycle \<times> backend) \<times> string option" where
  "replicas_down c s =
     (if \<not> bc_offload c then ((mark_awake ROLLOUT (fst s), snd s), None)
      else case worker_call (\<lambda>d. d\<lparr>dv_rollout := False\<rparr>) (snd s) of
        (b, None) \<Rightarrow> ((mark_asleep ROLLOUT (fst s), b), None)
      | (b, Some e) \<Rightarrow> ((fst s, b), Some e))"

definition backend_start :: "backend_config \<Rightarrow> model_role list \<Rightarrow> bool list \<Rightarrow> ((lifecycle \<times> backend) \<times> string option) result" where
  "backend_start c ord faults =
     (if bc_no_rollout c \<and> bc_ref_policy c then Err (ValueError ''no_rollout_deployment does not support reference policy'')
      else
        let ref = bc_ref_policy c \<and> \<not> bc_ref_in_actor c;
            l = create (bc_offload c) (\<not> bc_no_rollout c) ref True;
            b = \<lparr>be_device = \<lparr>dv_model = True, dv_optimizer = True, dv_grad = True, dv_ref = ref, dv_rollout = False\<rparr>,
                 be_faults = faults, be_calls = []\<rparr>
        in Ok (if bc_no_rollout c then ((l, b), None)
          else seq
            [prepare_model_roles c ord {}, replicas_up, replicas_down c] (l, b)))"

section \<open>The backend is a mover\<close>

definition role_set :: "backend_config \<Rightarrow> model_role set" where
  "role_set c = {ACTOR} \<union> (if \<not> bc_no_rollout c then {ROLLOUT} else {}) \<union> (if bc_ref_policy c \<and> \<not> bc_ref_in_actor c then {REF} else {})"

text \<open>The actor is resident with all its parts; a part of it left behind is neither resident nor asleep.\<close>

definition resident :: "backend \<Rightarrow> model_role set" where
  "resident b = (let d = be_device b in
     (if dv_model d \<and> dv_optimizer d \<and> dv_grad d then {ACTOR} else {}) \<union> (if dv_ref d then {REF} else {}) \<union> (if dv_rollout d then {ROLLOUT} else {}))"

lemma worker_call_cases:
  "(worker_call f b = (b', None) \<longrightarrow> be_device b' = f (be_device b) \<and> be_calls b' = be_calls b) \<and>
   (worker_call f b = (b', Some e) \<longrightarrow> be_device b' = be_device b \<and> be_calls b' = be_calls b)"
  by (auto simp: worker_call_def split: list.splits if_splits)

interpretation colocated: role_mover "role_set c" resident "sleep_model_role c" "wake_model_role c" for c
proof unfold_locales
  show "resident d' = resident d - {r}" if "r \<in> role_set c" "sleep_model_role c r d = (d', None)" for r d d'
    using that worker_call_cases [of _ d d']
    by (cases r) (auto simp: sleep_model_role_def move_actor_def move_ref_def role_set_def resident_def Let_def split: if_splits)
  show "resident d' = insert r (resident d)" if "r \<in> role_set c" "wake_model_role c r d = (d', None)" for r d d'
    using that worker_call_cases [of _ d d']
    by (cases r) (auto simp: wake_model_role_def move_actor_def move_ref_def role_set_def resident_def Let_def split: if_splits)
  show "resident d' = resident d" if "sleep_model_role c r d = (d', Some e)" for r d d' e
    using that worker_call_cases [of _ d d' e]
    by (cases r) (auto simp: sleep_model_role_def move_actor_def move_ref_def resident_def split: if_splits)
  show "resident d' = resident d" if "wake_model_role c r d = (d', Some e)" for r d d' e
    using that worker_call_cases [of _ d d' e]
    by (cases r) (auto simp: wake_model_role_def move_actor_def move_ref_def resident_def split: if_splits)
qed

section \<open>Runs of operations\<close>

datatype engine_op = OpLogProb | OpRefLogProb | OpForwardBackward | OpOptim | OpUpdate | OpSave | OpLoad | OpGenerate

fun engine_apply :: "backend_config \<Rightarrow> model_role list \<Rightarrow> engine_op \<Rightarrow> lifecycle \<times> backend \<Rightarrow> (lifecycle \<times> backend) \<times> string option" where
  "engine_apply c ord OpLogProb s = compute_log_prob c ord s"
| "engine_apply c ord OpRefLogProb s = compute_ref_log_prob c ord s"
| "engine_apply c ord OpForwardBackward s = forward_backward c ord s"
| "engine_apply c ord OpOptim s = optim_step c ord s"
| "engine_apply c ord OpUpdate s = update_weights c ord s"
| "engine_apply c ord OpSave s = save_checkpoint c ord s"
| "engine_apply c ord OpLoad s = load_checkpoint c ord s"
| "engine_apply c ord OpGenerate s = ensure_replicas_awake c ord s"

text \<open>Operations one after the other; an exception goes to the client and the next operation starts.\<close>

definition engine_run :: "backend_config \<Rightarrow> model_role list \<Rightarrow> engine_op list \<Rightarrow> lifecycle \<times> backend \<Rightarrow> lifecycle \<times> backend" where
  "engine_run c ord xs s = foldl (\<lambda>s x. fst (engine_apply c ord x s)) s xs"

text \<open>No weight synchronisation fails after it has begun to take the actor apart.\<close>

fun syncs_return :: "backend_config \<Rightarrow> model_role list \<Rightarrow> engine_op list \<Rightarrow> lifecycle \<times> backend \<Rightarrow> bool" where
  "syncs_return c ord [] s \<longleftrightarrow> True"
| "syncs_return c ord (x # xs) s \<longleftrightarrow> (x = OpUpdate \<longrightarrow> bc_no_rollout c \<or> snd (engine_apply c ord x s) = None) \<and>
     syncs_return c ord xs (fst (engine_apply c ord x s))"

text \<open>The device that a call needs: its own parts, and no other role taking its memory.\<close>

fun fits :: "engine_call \<Rightarrow> device \<Rightarrow> bool" where
  "fits ComputeRefLogProb d \<longleftrightarrow> d = \<lparr>dv_model = False, dv_optimizer = False, dv_grad = False, dv_ref = True, dv_rollout = False\<rparr>"
| "fits PushWeights d \<longleftrightarrow> d = \<lparr>dv_model = True, dv_optimizer = False, dv_grad = True, dv_ref = False, dv_rollout = False\<rparr>"
| "fits _ d \<longleftrightarrow> d = \<lparr>dv_model = True, dv_optimizer = True, dv_grad = True, dv_ref = False, dv_rollout = False\<rparr>"

definition whole :: "device \<Rightarrow> bool" where
  "whole d \<longleftrightarrow> dv_model d = dv_optimizer d \<and> dv_grad d = dv_optimizer d"

definition engine_ok :: "backend_config \<Rightarrow> lifecycle \<times> backend \<Rightarrow> bool" where
  "engine_ok c s \<longleftrightarrow> colocated.tracks c s \<and> enable_offload (fst s) \<and> whole (be_device (snd s)) \<and>
     (\<forall>(k, d) \<in> set (be_calls (snd s)). fits k d)"

lemma engine_ok_iff:
  "engine_ok c s \<longleftrightarrow> available_roles (fst s) = role_set c \<and> awake_roles (fst s) = resident (snd s) \<and> resident (snd s) \<subseteq> role_set c \<and>
     enable_offload (fst s) \<and> whole (be_device (snd s)) \<and> (\<forall>(k, d) \<in> set (be_calls (snd s)). fits k d)"
  unfolding engine_ok_def colocated.tracks_def by simp

lemma move_whole:
  "whole (be_device b) \<Longrightarrow> sleep_model_role c r b = (b', e) \<Longrightarrow> whole (be_device b') \<and> be_calls b' = be_calls b"
  "whole (be_device b) \<Longrightarrow> wake_model_role c r b = (b', e) \<Longrightarrow> whole (be_device b') \<and> be_calls b' = be_calls b"
  by (cases r; cases e; auto simp: sleep_model_role_def wake_model_role_def move_actor_def move_ref_def whole_def worker_call_def split: if_splits list.splits)+

lemma move_loop_whole:
  assumes "\<And>r b b' e. whole (be_device b) \<Longrightarrow> move r b = (b', e) \<Longrightarrow> whole (be_device b') \<and> be_calls b' = be_calls b"
  shows "whole (be_device (snd s)) \<Longrightarrow> move_loop move mark rs s = (s', e) \<Longrightarrow>
    whole (be_device (snd s')) \<and> be_calls (snd s') = be_calls (snd s)"
proof (induction rs arbitrary: s)
  case (Cons r rs)
  obtain l b where s: "s = (l, b)" by fastforce
  obtain b1 e1 where m: "move r b = (b1, e1)" by fastforce
  have w: "whole (be_device b1)" "be_calls b1 = be_calls b" using assms [OF _ m] Cons.prems(1) by (simp_all add: s)
  then show ?case using Cons.IH [of "(mark r l, b1)"] Cons.prems(2) m by (cases e1) (auto simp: s)
qed simp

lemma prepare_whole:
  assumes "whole (be_device (snd s))" "prepare_model_roles c ord roles s = (s', e)"
  shows "whole (be_device (snd s')) \<and> be_calls (snd s') = be_calls (snd s)"
proof (cases "enable_offload (fst s)")
  case False
  then show ?thesis using assms by (simp add: prepare_model_roles_def prepare_def)
next
  case True
  let ?req = "roles \<inter> available_roles (fst s)"
  obtain s1 e1 where m: "move_loop (sleep_model_role c) mark_asleep (filter (\<lambda>r. r \<in> awake_roles (fst s) - ?req) ord) s = (s1, e1)"
    by fastforce
  have s1: "whole (be_device (snd s1)) \<and> be_calls (snd s1) = be_calls (snd s)"
    by (rule move_loop_whole [OF _ assms(1) m]) (rule move_whole(1))
  show ?thesis
  proof (cases e1)
    case None
    have p: "move_loop (wake_model_role c) mark_awake (filter (\<lambda>r. r \<in> ?req - awake_roles (fst s1)) ord) s1 = (s', e)"
      using assms(2) m None True by (simp add: prepare_model_roles_def prepare_def Let_def)
    have "whole (be_device (snd s')) \<and> be_calls (snd s') = be_calls (snd s1)"
      by (rule move_loop_whole [OF _ conjunct1 [OF s1] p]) (rule move_whole(2))
    then show ?thesis using s1 by simp
  next
    case (Some x)
    then show ?thesis using assms(2) m True s1 by (simp add: prepare_model_roles_def prepare_def Let_def)
  qed
qed

text \<open>Without faults nothing raises.\<close>

lemma move_quiet:
  "be_faults b = [] \<Longrightarrow> sleep_model_role c r b = (b', e) \<Longrightarrow> e = None \<and> be_faults b' = []"
  "be_faults b = [] \<Longrightarrow> wake_model_role c r b = (b', e) \<Longrightarrow> e = None \<and> be_faults b' = []"
  by (cases r; auto simp: sleep_model_role_def wake_model_role_def move_actor_def move_ref_def worker_call_def split: if_splits)+

lemma move_loop_quiet:
  assumes "\<And>r b b' e. be_faults b = [] \<Longrightarrow> move r b = (b', e) \<Longrightarrow> e = None \<and> be_faults b' = []"
  shows "be_faults (snd s) = [] \<Longrightarrow> move_loop move mark rs s = (s', e) \<Longrightarrow> e = None \<and> be_faults (snd s') = []"
proof (induction rs arbitrary: s)
  case (Cons r rs)
  obtain l b where s: "s = (l, b)" by fastforce
  obtain b1 e1 where m: "move r b = (b1, e1)" by fastforce
  have "e1 = None" "be_faults b1 = []" using assms [OF _ m] Cons.prems(1) by (simp_all add: s)
  then show ?case using Cons.IH [of "(mark r l, b1)"] Cons.prems(2) m by (auto simp: s)
qed simp

lemma prepare_quiet:
  assumes "be_faults (snd s) = []" "prepare_model_roles c ord roles s = (s', e)"
  shows "e = None"
proof (cases "enable_offload (fst s)")
  case True
  let ?req = "roles \<inter> available_roles (fst s)"
  obtain s1 e1 where m: "move_loop (sleep_model_role c) mark_asleep (filter (\<lambda>r. r \<in> awake_roles (fst s) - ?req) ord) s = (s1, e1)"
    by fastforce
  have q: "e1 = None \<and> be_faults (snd s1) = []" by (rule move_loop_quiet [OF _ assms(1) m]) (rule move_quiet(1))
  then have p: "move_loop (wake_model_role c) mark_awake (filter (\<lambda>r. r \<in> ?req - awake_roles (fst s1)) ord) s1 = (s', e)"
    using assms(2) m True by (simp add: prepare_model_roles_def prepare_def Let_def)
  have "e = None \<and> be_faults (snd s') = []"
    by (rule move_loop_quiet [OF _ conjunct2 [OF q] p]) (rule move_quiet(2))
  then show ?thesis by simp
qed (use assms(2) in \<open>simp add: prepare_model_roles_def prepare_def\<close>)

lemma prepare_ok:
  assumes "engine_ok c s" "set ord = UNIV" "prepare_model_roles c ord roles s = (s', e)"
  shows "engine_ok c s' \<and> (e = None \<longrightarrow> resident (snd s') = roles \<inter> role_set c)"
proof -
  have "colocated.tracks c s' \<and> enable_offload (fst s') \<and> (e = None \<longrightarrow> resident (snd s') = roles \<inter> role_set c)"
    using colocated.prepare_tracks [of c s ord roles s' e] assms by (simp add: engine_ok_def prepare_model_roles_def)
  then show ?thesis using prepare_whole [OF _ assms(3)] assms(1) by (simp add: engine_ok_def)
qed

lemma resident_device:
  assumes "whole (be_device b)" "resident b = {ACTOR}"
  shows "be_device b = \<lparr>dv_model = True, dv_optimizer = True, dv_grad = True, dv_ref = False, dv_rollout = False\<rparr>"
  using assms by (cases "be_device b") (auto simp: resident_def whole_def Let_def split: if_splits)

lemma resident_device_ref:
  assumes "whole (be_device b)" "resident b = {REF}"
  shows "be_device b = \<lparr>dv_model = False, dv_optimizer = False, dv_grad = False, dv_ref = True, dv_rollout = False\<rparr>"
  using assms by (cases "be_device b") (auto simp: resident_def whole_def Let_def split: if_splits)

lemma run_call_cases:
  assumes "run_call k s = (s', e)"
  shows "fst s' = fst s \<and> be_calls (snd s') = be_calls (snd s) @ [(k, be_device (snd s))] \<and>
    be_device (snd s') = (if e = None then (case k of PrepareSync \<Rightarrow> be_device (snd s)\<lparr>dv_optimizer := False\<rparr>
        | PushWeights \<Rightarrow> be_device (snd s)\<lparr>dv_rollout := True\<rparr> | _ \<Rightarrow> be_device (snd s)) else be_device (snd s))"
  using assms by (auto simp: run_call_def worker_call_def split: list.splits if_splits)

lemma engine_ok_call:
  assumes "engine_ok c s" "fits k (be_device (snd s))" "k \<notin> {PrepareSync, PushWeights}" "run_call k s = (s', e)"
  shows "engine_ok c s'"
proof -
  have "fst s' = fst s" "be_device (snd s') = be_device (snd s)" "be_calls (snd s') = be_calls (snd s) @ [(k, be_device (snd s))]"
    using run_call_cases [OF assms(4)] assms(3) by (auto split: engine_call.splits)
  then show ?thesis using assms(1,2) by (auto simp: engine_ok_def colocated.tracks_def resident_def)
qed

text \<open>Preparation, then one call that fits what was prepared.\<close>

lemma prepared_call:
  assumes "engine_ok c s" "set ord = UNIV" "k \<notin> {PrepareSync, PushWeights}"
    and "\<And>b. whole (be_device b) \<Longrightarrow> resident b = roles \<inter> role_set c \<Longrightarrow> fits k (be_device b)"
    and "seq [prepare_model_roles c ord roles, run_call k] s = (s', e)"
  shows "engine_ok c s'"
proof -
  obtain s1 e1 where p: "prepare_model_roles c ord roles s = (s1, e1)" by fastforce
  note ok = prepare_ok [OF assms(1,2) p]
  show ?thesis
  proof (cases e1)
    case None
    then have "fits k (be_device (snd s1))" using ok assms(4) [of "snd s1"] by (simp add: engine_ok_def)
    then show ?thesis using assms(5) p None ok engine_ok_call [OF _ _ assms(3), of c s1 s'] 
      by (cases "run_call k s1") (auto split: option.splits)
  next
    case (Some x)
    then show ?thesis using assms(5) p ok by simp
  qed
qed

lemma actor_call:
  assumes "engine_ok c s" "set ord = UNIV" "k \<notin> {PrepareSync, PushWeights, ComputeRefLogProb}"
    and "seq [prepare_model_roles c ord {ACTOR}, run_call k] s = (s', e)"
  shows "engine_ok c s'"
proof (rule prepared_call [OF assms(1,2) _ _ assms(4)])
  show "k \<notin> {PrepareSync, PushWeights}" using assms(3) by simp
  show "fits k (be_device b)" if "whole (be_device b)" "resident b = {ACTOR} \<inter> role_set c" for b
    using that resident_device [of b] assms(3) by (cases k) (auto simp: role_set_def)
qed

lemma ref_call:
  assumes "engine_ok c s" "set ord = UNIV" "bc_ref_policy c" "\<not> bc_ref_in_actor c"
    and "seq [prepare_model_roles c ord {REF}, run_call ComputeRefLogProb] s = (s', e)"
  shows "engine_ok c s'"
proof (rule prepared_call [OF assms(1,2) _ _ assms(5)])
  show "fits ComputeRefLogProb (be_device b)" if "whole (be_device b)" "resident b = {REF} \<inter> role_set c" for b
    using that resident_device_ref [of b] assms(3,4) by (auto simp: role_set_def)
qed simp

lemma seq_None: "seq (f # fs) s = (s', None) \<longleftrightarrow> (\<exists>t. f s = (t, None) \<and> seq fs t = (s', None))"
  by (cases "f s"; cases "snd (f s)") auto

lemma update_weights_ok:
  assumes "engine_ok c s" "set ord = UNIV" "bc_offload c" "update_weights c ord s = (s', e)" "e = None \<or> bc_no_rollout c"
  shows "engine_ok c s'"
proof (cases "bc_no_rollout c")
  case True
  then show ?thesis using assms(1,4) by (simp add: update_weights_def)
next
  case False
  then have "seq [prepare_model_roles c ord {ACTOR}, run_call PrepareSync, run_call PushWeights, release_actor, mark_synced] s = (s', None)"
    using assms by (simp add: update_weights_def)
  then obtain s1 s2 s3 s4 where
    p: "prepare_model_roles c ord {ACTOR} s = (s1, None)" and a: "run_call PrepareSync s1 = (s2, None)" and
    b: "run_call PushWeights s2 = (s3, None)" and m: "release_actor s3 = (s4, None)" and s': "mark_synced s4 = (s', None)"
    unfolding seq_None by auto
  note ok = prepare_ok [OF assms(1,2) p]
  have d1: "be_device (snd s1) = \<lparr>dv_model = True, dv_optimizer = True, dv_grad = True, dv_ref = False, dv_rollout = False\<rparr>"
    using ok resident_device [of "snd s1"] by (simp add: engine_ok_def role_set_def)
  have d2: "fst s2 = fst s1" "be_device (snd s2) = \<lparr>dv_model = True, dv_optimizer = False, dv_grad = True, dv_ref = False, dv_rollout = False\<rparr>"
    "be_calls (snd s2) = be_calls (snd s1) @ [(PrepareSync, be_device (snd s1))]"
    using run_call_cases [OF a] d1 by simp_all
  have d3: "fst s3 = fst s1" "be_device (snd s3) = \<lparr>dv_model = True, dv_optimizer = False, dv_grad = True, dv_ref = False, dv_rollout = True\<rparr>"
    "be_calls (snd s3) = be_calls (snd s2) @ [(PushWeights, be_device (snd s2))]"
    using run_call_cases [OF b] d2 by simp_all
  obtain b4 where m4: "move_actor False (snd s3) = (b4, None)" "s4 = (fst s1, b4)"
    using m d3(1) by (auto simp: release_actor_def split: prod.splits)
  have d4: "be_device b4 = \<lparr>dv_model = False, dv_optimizer = False, dv_grad = False, dv_ref = False, dv_rollout = True\<rparr>"
    "be_calls b4 = be_calls (snd s3)"
    using worker_call_cases [of _ "snd s3" b4] m4(1) d3(2) by (auto simp: move_actor_def)
  have av: "ROLLOUT \<in> role_set c" using False by (simp add: role_set_def)
  have r4: "resident b4 = {ROLLOUT}" by (simp add: resident_def d4)
  have "resident (snd s1) = {ACTOR}" by (simp add: resident_def d1)
  then have l: "available_roles (fst s1) = role_set c" "awake_roles (mark_awake ROLLOUT (mark_asleep ACTOR (fst s1))) = {ROLLOUT}"
    using ok av by (simp_all add: engine_ok_def colocated.tracks_def)
  have "s' = (mark_awake ROLLOUT (mark_asleep ACTOR (fst s1)), b4)" using s' m4(2) by (simp add: mark_synced_def)
  moreover have "whole (be_device b4)" by (simp add: whole_def d4)
  moreover have "\<forall>(k, d) \<in> set (be_calls b4). fits k d" using ok d1 d2 d3 d4 by (auto simp: engine_ok_def)
  ultimately show ?thesis using ok l r4 av by (simp add: engine_ok_def colocated.tracks_def)
qed

lemma engine_apply_ok:
  assumes "engine_ok c s" "set ord = UNIV" "bc_offload c" "x = OpUpdate \<longrightarrow> bc_no_rollout c \<or> snd (engine_apply c ord x s) = None"
  shows "engine_ok c (fst (engine_apply c ord x s))"
proof -
  obtain s' e where a: "engine_apply c ord x s = (s', e)" by fastforce
  have "engine_ok c s'"
  proof (cases x)
    case OpRefLogProb
    then show ?thesis using a assms(1,2) ref_call [OF assms(1,2)] actor_call [OF assms(1,2), of ComputeLogProb]
      by (auto simp: compute_ref_log_prob_def split: if_splits)
  next
    case OpUpdate
    then show ?thesis using a assms update_weights_ok [OF assms(1-3)] by auto
  next
    case OpGenerate
    then show ?thesis using a assms(1,3) prepare_ok [OF assms(1,2)] by (auto simp: ensure_replicas_awake_def split: if_splits)
  qed (use a actor_call [OF assms(1,2), of ComputeLogProb s' e] actor_call [OF assms(1,2), of ForwardBackward s' e]
      actor_call [OF assms(1,2), of OptimizerStep s' e] actor_call [OF assms(1,2), of SaveCheckpoint s' e]
      actor_call [OF assms(1,2), of LoadCheckpoint s' e] in \<open>simp_all add: compute_log_prob_def forward_backward_def optim_step_def
      save_checkpoint_def load_checkpoint_def del: seq.simps\<close>)
  then show ?thesis by (simp add: a)
qed

lemma engine_run_ok:
  "engine_ok c s \<Longrightarrow> set ord = UNIV \<Longrightarrow> bc_offload c \<Longrightarrow> syncs_return c ord xs s \<Longrightarrow> engine_ok c (engine_run c ord xs s)"
  by (induction xs arbitrary: s) (simp_all add: engine_run_def engine_apply_ok)

section \<open>The start\<close>

lemma worker_call_None:
  "worker_call f b = (b', None) \<Longrightarrow> be_device b' = f (be_device b) \<and> be_calls b' = be_calls b"
  using worker_call_cases [of f b b'] by simp

lemma backend_start_ok:
  assumes "backend_start c ord fs = Ok (s, None)" "bc_offload c" "set ord = UNIV"
  shows "engine_ok c s"
proof -
  let ?ref = "bc_ref_policy c \<and> \<not> bc_ref_in_actor c"
  let ?l = "create True (\<not> bc_no_rollout c) ?ref True"
  let ?b = "\<lparr>be_device = \<lparr>dv_model = True, dv_optimizer = True, dv_grad = True, dv_ref = ?ref, dv_rollout = False\<rparr>,
    be_faults = fs, be_calls = []\<rparr>"
  have ok: "engine_ok c (?l, ?b)"
    by (auto simp: engine_ok_iff resident_def role_set_def whole_def create_def Let_def)
  show ?thesis
  proof (cases "bc_no_rollout c")
    case True
    then have "s = (?l, ?b)" using assms(1,2) by (simp add: backend_start_def Let_def split: if_splits)
    then show ?thesis using ok by simp
  next
    case False
    have "seq [prepare_model_roles c ord {}, replicas_up, replicas_down c] (?l, ?b) = (s, None)"
      using assms(1,2) False by (simp add: backend_start_def Let_def del: seq.simps)
    then obtain t1 t2 where p: "prepare_model_roles c ord {} (?l, ?b) = (t1, None)"
      and w: "replicas_up t1 = (t2, None)" and v: "replicas_down c t2 = (s, None)"
      unfolding seq_None by auto
    obtain l1 b1 where t1: "t1 = (l1, b1)" by fastforce
    obtain b2 where b2: "worker_call (\<lambda>d. d\<lparr>dv_rollout := True\<rparr>) b1 = (b2, None)" "t2 = (l1, b2)"
      using w by (auto simp: replicas_up_def t1 split: prod.splits)
    obtain b3 where b3: "worker_call (\<lambda>d. d\<lparr>dv_rollout := False\<rparr>) b2 = (b3, None)" "s = (mark_asleep ROLLOUT l1, b3)"
      using v assms(2) by (auto simp: replicas_down_def b2(2) split: prod.splits option.splits)
    note k = prepare_ok [OF ok assms(3) p]
    have r1: "\<not> dv_rollout (be_device b1)" "resident b1 = {}" using k by (auto simp: t1 resident_def Let_def)
    then have "be_device b3 = be_device b1" "be_calls b3 = be_calls b1"
      using worker_call_None [OF b2(1)] worker_call_None [OF b3(1)] by simp_all
    then show ?thesis using k r1 b3(2) by (simp add: t1 engine_ok_iff resident_def)
  qed
qed

section \<open>Properties\<close>


text \<open>
  A weight synchronisation that fails in the push leaves the optimizer on the CPU while the tracker still
  lists the actor as awake, so the next optimizer step prepares nothing and calls the workers without it.
\<close>

theorem failed_sync_strands_optimizer:
  assumes "engine_ok c s" "bc_offload c" "\<not> bc_no_rollout c" "resident (snd s) = {ACTOR}" "be_faults (snd s) = [False, True]"
  shows "let (s1, e1) = update_weights c ord s; (s2, e2) = optim_step c ord s1 in
    e1 \<noteq> None \<and> awake_roles (fst s1) = {ACTOR} \<and> e2 = None \<and>
    last (be_calls (snd s2)) = (OptimizerStep, \<lparr>dv_model = True, dv_optimizer = False, dv_grad = True, dv_ref = False, dv_rollout = False\<rparr>)"
proof -
  obtain l b where s: "s = (l, b)" by fastforce
  have t: "enable_offload l" "available_roles l = role_set c" "awake_roles l = {ACTOR}"
    using assms(1,4) by (simp_all add: s engine_ok_iff)
  have d: "be_device b = \<lparr>dv_model = True, dv_optimizer = True, dv_grad = True, dv_ref = False, dv_rollout = False\<rparr>"
    using assms(1,4) resident_device [of b] by (simp add: s engine_ok_def)
  have p: "prepare_model_roles c ord {ACTOR} (l, b') = ((l, b'), None)" for b'
    using t by (auto simp: prepare_model_roles_def prepare_def role_set_def)
  show ?thesis using assms(2,3,5) d t
    by (simp add: s update_weights_def optim_step_def p run_call_def worker_call_def)
qed

definition demo_backend :: backend_config where
  "demo_backend = \<lparr>bc_offload = True, bc_no_rollout = False, bc_ref_policy = True, bc_ref_in_actor = False\<rparr>"

definition demo_order :: "model_role list" where
  "demo_order = [REF, ACTOR, ROLLOUT]"

definition demo_engine :: "lifecycle \<times> backend" where
  "demo_engine = (\<lparr>enable_offload = True, available_roles = {ACTOR, ROLLOUT, REF}, awake_roles = {}\<rparr>,
     \<lparr>be_device = \<lparr>dv_model = False, dv_optimizer = False, dv_grad = False, dv_ref = False, dv_rollout = False\<rparr>,
       be_faults = [], be_calls = []\<rparr>)"

lemma demo_order_all: "set demo_order = UNIV"
proof -
  have "r \<in> set demo_order" for r by (cases r) (simp_all add: demo_order_def)
  then show ?thesis by blast
qed

lemma demo_start: "backend_start demo_backend demo_order [] = Ok (demo_engine, None)"
  by (auto simp: backend_start_def replicas_up_def replicas_down_def demo_backend_def demo_order_def demo_engine_def prepare_model_roles_def prepare_def create_def Let_def
      sleep_model_role_def wake_model_role_def move_actor_def move_ref_def worker_call_def mark_asleep_def insert_commute)

definition demo_ops :: "engine_op list" where
  "demo_ops = [OpForwardBackward, OpOptim, OpUpdate, OpGenerate, OpRefLogProb, OpLogProb]"

lemma demo_syncs: "syncs_return demo_backend demo_order demo_ops demo_engine"
  by code_simp


definition demo_trained :: "lifecycle \<times> backend" where
  "demo_trained = (\<lparr>enable_offload = True, available_roles = {ACTOR, ROLLOUT, REF}, awake_roles = {ACTOR}\<rparr>,
     \<lparr>be_device = \<lparr>dv_model = True, dv_optimizer = True, dv_grad = True, dv_ref = False, dv_rollout = False\<rparr>,
       be_faults = [False, True], be_calls = []\<rparr>)"

theorem failed_sync_strands_optimizer_witness:
  "snd (update_weights demo_backend demo_order demo_trained) \<noteq> None \<and>
   awake_roles (fst (fst (update_weights demo_backend demo_order demo_trained))) = {ACTOR}"
proof -
  have "engine_ok demo_backend demo_trained"
    by (auto simp: engine_ok_iff demo_trained_def demo_backend_def role_set_def resident_def whole_def)
  moreover have "resident (snd demo_trained) = {ACTOR}" by (simp add: demo_trained_def resident_def)
  ultimately show ?thesis
    using failed_sync_strands_optimizer [of demo_backend demo_trained demo_order]
    by (simp add: demo_backend_def demo_trained_def Let_def case_prod_beta)
qed

end
