(* ===== verification/SampleConcurrency.thy ===== *)
theory SampleConcurrency
  imports FifoGate ModelResources EngineLifecycle
begin

text \<open>
  Samples that run together: \<open>asample\<close> of \<open>verl_tinker/tinker_router.py\<close> holds the gate, resolves its binding
  and then generates with the rollout or scores with the actor or the reference on one \<open>ColocatedBackend\<close>.
  Generation runs outside the lock of the backend, so that many generations are in flight at once.
\<close>

section \<open>The system\<close>

record serving =
  sy_gate :: "string gate"
  sy_mgr :: manager
  sy_engine :: "lifecycle \<times> backend"
  sy_flight :: "string set"

text \<open>
  Tasks are named; \<open>bind\<close> gives the binding of a sample and whether it asks for prompt logprobs only. An
  exclusive operation runs an operation of the backend and may leave any versions in the manager. The
  outcomes of the coming worker calls may be any at each step.
\<close>

definition resource_of :: "(string \<Rightarrow> sampler_binding \<times> bool) \<Rightarrow> string \<Rightarrow> serving \<Rightarrow> sampling_resource mr_result" where
  "resource_of bind w s = resolve_resource (fst (bind w)) (snd (bind w)) (sy_mgr s)"

definition arm :: "bool list \<Rightarrow> lifecycle \<times> backend \<Rightarrow> lifecycle \<times> backend" where
  "arm fs e = (fst e, snd e\<lparr>be_faults := fs\<rparr>)"

text \<open>The engine call of a sample that holds the gate; a generation is in flight once the replicas are awake.\<close>

definition run_sample :: "backend_config \<Rightarrow> model_role list \<Rightarrow> (string \<Rightarrow> sampler_binding \<times> bool) \<Rightarrow> string \<Rightarrow> serving \<Rightarrow> serving" where
  "run_sample c ord bind w s =
     (case resource_of bind w s of
        Inr Rollout \<Rightarrow>
          (case ensure_replicas_awake c ord (sy_engine s) of
             (e, None) \<Rightarrow> s\<lparr>sy_engine := e, sy_flight := insert w (sy_flight s)\<rparr>
           | (e, Some _) \<Rightarrow> s\<lparr>sy_engine := e\<rparr>)
      | Inr Actor \<Rightarrow> s\<lparr>sy_engine := fst (compute_log_prob c ord (sy_engine s))\<rparr>
      | Inr Reference \<Rightarrow> s\<lparr>sy_engine := fst (compute_ref_log_prob c ord (sy_engine s))\<rparr>
      | _ \<Rightarrow> s)"

inductive serve_run :: "backend_config \<Rightarrow> model_role list \<Rightarrow> (string \<Rightarrow> sampler_binding \<times> bool) \<Rightarrow> serving \<Rightarrow> bool"
  for c ord bind where
  serve_start: "gate_init n = Ok g \<Longrightarrow> backend_start c ord fs = Ok (e, None) \<Longrightarrow>
     serve_run c ord bind \<lparr>sy_gate = g, sy_mgr = m, sy_engine = e, sy_flight = {}\<rparr>"
| serve_enter: "serve_run c ord bind s \<Longrightarrow> w \<notin> snd ` (set (granted (sy_gate s)) \<union> set (gate_queue (sy_gate s))) \<Longrightarrow>
     serve_run c ord bind (s\<lparr>sy_gate := gate_enter k w (sy_gate s)\<rparr>)"
| serve_sample: "serve_run c ord bind s \<Longrightarrow> (Sample, w) \<in> set (granted (sy_gate s)) \<Longrightarrow>
     serve_run c ord bind (run_sample c ord bind w (s\<lparr>sy_engine := arm fs (sy_engine s)\<rparr>))"
| serve_exclusive: "serve_run c ord bind s \<Longrightarrow> (Exclusive, w) \<in> set (granted (sy_gate s)) \<Longrightarrow>
     engine_apply c ord x (arm fs (sy_engine s)) = (e, res) \<Longrightarrow> x = OpUpdate \<longrightarrow> bc_no_rollout c \<or> res = None \<Longrightarrow>
     serve_run c ord bind (s\<lparr>sy_engine := e, sy_mgr := m\<rparr>)"
| serve_leave: "serve_run c ord bind s \<Longrightarrow> (k, w) \<in> set (granted (sy_gate s)) \<union> set (gate_queue (sy_gate s)) \<Longrightarrow>
     serve_run c ord bind (s\<lparr>sy_gate := gate_leave k w (sy_gate s), sy_flight := sy_flight s - {w}\<rparr>)"

definition serve_inv :: "backend_config \<Rightarrow> serving \<Rightarrow> bool" where
  "serve_inv c s \<longleftrightarrow> gate_inv (sy_gate s) \<and> engine_ok c (sy_engine s) \<and>
     (\<forall>w \<in> sy_flight s. (Sample, w) \<in> set (granted (sy_gate s)))"

lemma arm_ok [simp]: "engine_ok c (arm fs e) = engine_ok c e" "resident (snd (arm fs e)) = resident (snd e)"
  by (simp_all add: engine_ok_iff arm_def resident_def)

lemma run_sample_cases:
  obtains (generate) e where "ensure_replicas_awake c ord (sy_engine s) = (e, None)" "resource_of bind w s = Inr Rollout"
      "run_sample c ord bind w s = s\<lparr>sy_engine := e, sy_flight := insert w (sy_flight s)\<rparr>"
    | (refused) e x where "ensure_replicas_awake c ord (sy_engine s) = (e, Some x)" "resource_of bind w s = Inr Rollout"
      "run_sample c ord bind w s = s\<lparr>sy_engine := e\<rparr>"
    | (actor) "resource_of bind w s = Inr Actor"
      "run_sample c ord bind w s = s\<lparr>sy_engine := fst (compute_log_prob c ord (sy_engine s))\<rparr>"
    | (reference) "resource_of bind w s = Inr Reference"
      "run_sample c ord bind w s = s\<lparr>sy_engine := fst (compute_ref_log_prob c ord (sy_engine s))\<rparr>"
    | (other) "run_sample c ord bind w s = s"
proof (cases "resource_of bind w s")
  case (Inr r)
  then show ?thesis using that by (cases r; cases "ensure_replicas_awake c ord (sy_engine s)"; cases "snd (ensure_replicas_awake c ord (sy_engine s))")
    (simp_all add: run_sample_def)
qed (simp add: run_sample_def)

lemma run_sample_inv:
  assumes "serve_inv c s" "set ord = UNIV" "bc_offload c" "(Sample, w) \<in> set (granted (sy_gate s))"
  shows "serve_inv c (run_sample c ord bind w s)"
proof -
  have ok: "engine_ok c (fst (engine_apply c ord x (sy_engine s)))" if "x \<noteq> OpUpdate" for x
    using engine_apply_ok [of c "sy_engine s" ord x] assms that by (simp add: serve_inv_def)
  show ?thesis
    by (cases rule: run_sample_cases [of c ord s bind w])
      (use assms(1,4) ok [of OpGenerate] ok [of OpLogProb] ok [of OpRefLogProb] in \<open>simp_all add: serve_inv_def\<close>)
qed

lemma serve_run_inv:
  assumes "serve_run c ord bind s" "set ord = UNIV" "bc_offload c"
  shows "serve_inv c s"
  using assms
proof (induction rule: serve_run.induct)
  case (serve_start n g fs e m)
  then show ?case using gate_init_inv backend_start_ok by (simp add: serve_inv_def)
next
  case (serve_enter s w k)
  then show ?case using gate_enter_spec [of "sy_gate s" w k] by (auto simp: serve_inv_def)
next
  case (serve_sample s w fs)
  then have "serve_inv c (s\<lparr>sy_engine := arm fs (sy_engine s)\<rparr>)" by (simp add: serve_inv_def)
  then show ?case using run_sample_inv serve_sample by simp
next
  case (serve_exclusive s w x fs e res m)
  then have "snd (engine_apply c ord x (arm fs (sy_engine s))) = res" "engine_ok c (arm fs (sy_engine s))"
    by (simp_all add: serve_inv_def)
  then have "engine_ok c (fst (engine_apply c ord x (arm fs (sy_engine s))))"
    using engine_apply_ok [of c "arm fs (sy_engine s)" ord x] serve_exclusive.hyps(4) serve_exclusive.prems by blast
  then show ?case using serve_exclusive by (simp add: serve_inv_def)
next
  case (serve_leave s k w)
  then have i: "gate_inv (sy_gate s)" "engine_ok c (sy_engine s)" "\<forall>v \<in> sy_flight s. (Sample, v) \<in> set (granted (sy_gate s))"
    by (simp_all add: serve_inv_def)
  obtain new where g: "gate_inv (gate_leave k w (sy_gate s))"
    "granted (gate_leave k w (sy_gate s)) = remove1 (k, w) (granted (sy_gate s)) @ new"
    using gate_leave_spec [OF i(1) serve_leave.hyps(2)] by blast
  have "(Sample, v) \<in> set (granted (gate_leave k w (sy_gate s)))" if "v \<in> sy_flight s - {w}" for v
    using that i(3) unfolding g(2) by auto
  then show ?case using i g(1) by (simp add: serve_inv_def)
qed

section \<open>Generations in flight\<close>

lemma not_scalar_resource: "\<not> snd (bind w) \<Longrightarrow> resource_of bind w s = Inr r \<Longrightarrow> r \<in> {Rollout, Teacher}"
  by (auto simp: resource_of_def resolve_resource_def split: if_splits option.splits)

text \<open>Preparing the rollout when it is alone on the GPU moves nothing and cannot fail.\<close>

lemma ensure_again:
  assumes "engine_ok c e" "bc_offload c" "\<not> bc_no_rollout c" "resident (snd e) = {ROLLOUT}"
  shows "ensure_replicas_awake c ord e = (e, None)"
proof -
  have "resident (snd e) = {ROLLOUT} \<inter> role_set c" using assms(3,4) by (auto simp: role_set_def)
  then have "prepare_model_roles c ord {ROLLOUT} e = (e, None)"
    using colocated.prepare_ready [of c e "{ROLLOUT}" ord] assms(1)
    by (cases "prepare ord (sleep_model_role c) (wake_model_role c) {ROLLOUT} e") (auto simp: prepare_model_roles_def engine_ok_def)
  then show ?thesis using assms(2,3) by (simp add: ensure_replicas_awake_def)
qed

lemma ensure_awake:
  assumes "engine_ok c e" "set ord = UNIV" "bc_offload c" "\<not> bc_no_rollout c" "ensure_replicas_awake c ord e = (e', None)"
  shows "resident (snd e') = {ROLLOUT}"
  using prepare_ok [OF assms(1,2), of "{ROLLOUT}" e' None] assms(3-5)
  by (auto simp: ensure_replicas_awake_def role_set_def)


text \<open>
  C38. A sample that asks for prompt logprobs only may hold the gate together with generations; when it resolves
  to the actor (or to the reference), preparing its role puts the rollout to sleep under every generation
  in flight.
\<close>

theorem scoring_evicts_generations:
  assumes "serve_run c ord bind s" "set ord = UNIV" "bc_offload c" "w \<in> sy_flight s"
    and "(Sample, v) \<in> set (granted (sy_gate s))" "resource_of bind v s = Inr Actor"
  shows "\<exists>s'. serve_run c ord bind s' \<and> w \<in> sy_flight s' \<and> (Sample, w) \<in> set (granted (sy_gate s')) \<and>
    resident (snd (sy_engine s')) = {ACTOR}"
proof -
  let ?s = "s\<lparr>sy_engine := arm [] (sy_engine s)\<rparr>"
  have inv: "serve_inv c ?s" using serve_run_inv [OF assms(1-3)] by (simp add: serve_inv_def)
  have r: "run_sample c ord bind v ?s = ?s\<lparr>sy_engine := fst (compute_log_prob c ord (sy_engine ?s))\<rparr>"
    using assms(6) by (simp add: run_sample_def resource_of_def)
  obtain e1 x where p: "prepare_model_roles c ord {ACTOR} (sy_engine ?s) = (e1, x)" by fastforce
  have nf: "be_faults (snd (sy_engine ?s)) = []" by (simp add: arm_def)
  note quiet = prepare_quiet [OF nf p]
  then have "resident (snd e1) = {ACTOR}" using prepare_ok [OF _ assms(2) p] inv by (auto simp: serve_inv_def role_set_def)
  moreover have "resident (snd (fst (run_call ComputeLogProb e1))) = resident (snd e1)"
    by (auto simp: run_call_def worker_call_def resident_def split: list.splits)
  ultimately have "resident (snd (fst (compute_log_prob c ord (sy_engine ?s)))) = {ACTOR}"
    using p quiet by (cases "run_call ComputeLogProb e1") (auto simp: compute_log_prob_def split: option.splits)
  moreover have "serve_run c ord bind (run_sample c ord bind v ?s)" by (rule serve_sample [OF assms(1,5)])
  ultimately show ?thesis using assms(4) inv unfolding r
    by (intro exI [of _ "?s\<lparr>sy_engine := fst (compute_log_prob c ord (sy_engine ?s))\<rparr>"]) (auto simp: serve_inv_def)
qed

section \<open>A concrete server\<close>

text \<open>The rollout serves version 0, the actor has moved on to version 1.\<close>

definition moved_on :: manager where
  "moved_on = demo_manager\<lparr>actor_id := 1, rollout_id := Some 0, rollout_enabled := True, reference_enabled := True\<rparr>"

definition binding_of :: "int \<Rightarrow> sampler_binding" where
  "binding_of a = \<lparr>sb_sampler_id = None, sb_base_model = ''qwen'', sb_model_path = None, sb_teacher_model_path = None, sb_actor_id = Some a\<rparr>"

definition generating :: "string \<Rightarrow> sampler_binding \<times> bool" where
  "generating w = (binding_of 0, False)"

definition mixed_clients :: "string \<Rightarrow> sampler_binding \<times> bool" where
  "mixed_clients w = (if w = ''p'' then (binding_of 1, True) else (binding_of 0, False))"

definition two_samples :: "string gate" where
  "two_samples = \<lparr>max_readers = 2, gate_queue = [], active_samples = 2, exclusive_active = False,
     granted = [(Sample, ''g''), (Sample, ''p'')]\<rparr>"

definition rollout_engine :: "lifecycle \<times> backend" where
  "rollout_engine = fst (ensure_replicas_awake demo_backend demo_order demo_engine)"

lemma rollout_engine_awake: "ensure_replicas_awake demo_backend demo_order demo_engine = (rollout_engine, None)"
proof -
  have "snd (ensure_replicas_awake demo_backend demo_order demo_engine) = None"
    by (simp add: ensure_replicas_awake_def demo_backend_def demo_order_def demo_engine_def prepare_model_roles_def prepare_def
        wake_model_role_def worker_call_def)
  then show ?thesis by (simp add: rollout_engine_def prod_eq_iff)
qed

text \<open>Generations of version 0 hold the gate with any other clients.\<close>

lemma two_samples_run:
  assumes "bind ''g'' = (binding_of 0, False)"
  shows "serve_run demo_backend demo_order bind \<lparr>sy_gate = two_samples, sy_mgr = moved_on, sy_engine = rollout_engine, sy_flight = {''g''}\<rparr>"
proof -
  let ?g0 = "\<lparr>max_readers = 2, gate_queue = [], active_samples = 0, exclusive_active = False, granted = []\<rparr> :: string gate"
  let ?s0 = "\<lparr>sy_gate = ?g0, sy_mgr = moved_on, sy_engine = demo_engine, sy_flight = {}\<rparr>"
  have s0: "serve_run demo_backend demo_order bind ?s0"
    by (rule serve_start [OF _ demo_start, of 2]) (simp add: gate_init_def)
  have "serve_run demo_backend demo_order bind (?s0\<lparr>sy_gate := gate_enter Sample ''g'' (sy_gate ?s0)\<rparr>)"
    by (rule serve_enter [OF s0]) simp
  from serve_enter [OF this, of "''p''" Sample]
  have "serve_run demo_backend demo_order bind (?s0\<lparr>sy_gate := gate_enter Sample ''p'' (gate_enter Sample ''g'' ?g0)\<rparr>)"
    by (simp add: gate_enter_def grant_ready_def)
  moreover have "gate_enter Sample ''p'' (gate_enter Sample ''g'' ?g0) = two_samples"
    by (simp add: gate_enter_def grant_ready_def two_samples_def)
  ultimately have "serve_run demo_backend demo_order bind (?s0\<lparr>sy_gate := two_samples\<rparr>)" by simp
  from serve_sample [OF this, of "''g''" "[]"]
  have "serve_run demo_backend demo_order bind (run_sample demo_backend demo_order bind ''g'' (?s0\<lparr>sy_gate := two_samples, sy_engine := arm [] demo_engine\<rparr>))"
    by (simp add: two_samples_def)
  moreover have "arm [] demo_engine = demo_engine" by (simp add: arm_def demo_engine_def)
  ultimately show ?thesis using rollout_engine_awake assms
    by (simp add: run_sample_def resource_of_def resolve_resource_def binding_of_def is_teacher_def moved_on_def)
qed


theorem scoring_evicts_generations_witness:
  "\<exists>s'. serve_run demo_backend demo_order mixed_clients s' \<and> ''g'' \<in> sy_flight s' \<and> (Sample, ''g'') \<in> set (granted (sy_gate s')) \<and>
     resident (snd (sy_engine s')) = {ACTOR}"
proof (rule scoring_evicts_generations [OF two_samples_run [of mixed_clients] demo_order_all, of "''g''" "''p''"])
qed (simp_all add: mixed_clients_def demo_backend_def two_samples_def resource_of_def resolve_resource_def binding_of_def is_teacher_def moved_on_def)

end
