(* ===== verification/DatumPacking.thy ===== *)
theory DatumPacking
  imports Prelude Complex_Main
begin

text \<open>
  \<open>verl_tinker/data/datum_processing.py\<close>: a client's training data becomes the rectangular and ragged
  tensors that the trainer consumes. A tensor is its shape and its values in row-major order; float
  values are reals, without rounding, so what is proved of sums is about exact arithmetic. A ragged
  (nested) tensor is a list of rows.
\<close>

section \<open>Wire data\<close>

text \<open>\<open>TensorData\<close> and \<open>Datum\<close> of the Tinker SDK; \<open>dm_prefix\<close> is \<open>model_input.to_ints()\<close>.\<close>

record tensor_data =
  td_data :: "real list"
  td_shape :: "nat list"
  td_float :: bool

record datum =
  dm_prefix :: "int list"
  dm_inputs :: "(string, tensor_data) dict"

record tensor =
  tn_shape :: "nat list"
  tn_data :: "real list"

definition toward_zero :: "real \<Rightarrow> int" where
  "toward_zero x = (if x \<ge> 0 then \<lfloor>x\<rfloor> else \<lceil>x\<rceil>)"

definition tensor_data_to_torch :: "tensor_data \<Rightarrow> tensor result" where
  "tensor_data_to_torch td =
     (let xs = (if td_float td then td_data td else map (\<lambda>x. of_int (toward_zero x)) (td_data td))
      in if length (td_shape td) > 1
         then if prod_list (td_shape td) = length xs then Ok \<lparr>tn_shape = td_shape td, tn_data = xs\<rparr>
              else Err (RuntimeError ''shape is invalid for input'')
         else Ok \<lparr>tn_shape = [length xs], tn_data = xs\<rparr>)"

definition tensor_input :: "string \<Rightarrow> datum \<Rightarrow> tensor result" where
  "tensor_input k d = bind_res (dict_index k (dm_inputs d)) tensor_data_to_torch"

definition numel :: "tensor \<Rightarrow> nat" where
  "numel t = length (tn_data t)"

text \<open>\<open>int(target[-1].item())\<close> of a vector.\<close>

definition last_token :: "tensor \<Rightarrow> int result" where
  "last_token t = (if tn_data t = [] then Err (IndexError ''index -1 is out of bounds'') else Ok (toward_zero (last (tn_data t))))"

definition http_422 :: "string \<Rightarrow> 'a result" where
  "http_422 msg = Err (HTTPException 422 msg)"

definition require :: "bool \<Rightarrow> string \<Rightarrow> unit result" where
  "require b msg = (if b then Ok () else http_422 msg)"

lemma require_Ok [simp]: "require b msg = Ok u \<longleftrightarrow> b"
  by (simp add: require_def http_422_def)

text \<open>The number of filler rows that makes a batch divisible by the world size.\<close>

definition filler_rows :: "nat \<Rightarrow> nat \<Rightarrow> nat" where
  "filler_rows n m = nat ((- int n) mod int (max 1 m))"

lemma filler_rows_spec: "max 1 m dvd n + filler_rows n m \<and> filler_rows n m < max 1 m"
proof -
  let ?m = "int (max 1 m)"
  have "(int n + (- int n) mod ?m) mod ?m = 0" by (metis mod_add_right_eq add.right_inverse mod_0)
  then have "?m dvd int n + (- int n) mod ?m" by (simp add: dvd_eq_mod_eq_0)
  moreover have "0 \<le> (- int n) mod ?m" "(- int n) mod ?m < ?m" by simp_all
  ultimately show ?thesis unfolding filler_rows_def
    by (metis int_dvd_int_iff int_nat_eq of_nat_add of_nat_less_iff)
qed

section \<open>Supervised data\<close>

text \<open>A row of a batch: the tokens and the loss mask over them.\<close>

record sft_row =
  sr_full :: "int list"
  sr_mask :: "real list"

definition sft_weights :: "datum \<Rightarrow> tensor result" where
  "sft_weights d =
     (if dict_has ''weights'' (dm_inputs d) then tensor_input ''weights'' d
      else if dict_has ''mask'' (dm_inputs d) then tensor_input ''mask'' d
      else http_422 ''SFT Datum missing weights or mask'')"

definition sft_row_of :: "datum \<Rightarrow> sft_row result" where
  "sft_row_of d =
     bind_res (tensor_input ''target_tokens'' d) (\<lambda>target.
     bind_res (require (length (tn_shape target) = 1) ''all datums in a batch must agree on dimensionality'') (\<lambda>_.
     bind_res (sft_weights d) (\<lambda>weights.
     bind_res (require (numel target = length (dm_prefix d) \<and> numel weights = length (dm_prefix d) \<and> numel target \<noteq> 0)
       ''SFT Datum shape mismatch'') (\<lambda>_.
     bind_res (last_token target) (\<lambda>final.
     if length (dropWhile (\<lambda>k. k = 1) (tn_shape weights)) \<le> 1
     then Ok \<lparr>sr_full = dm_prefix d @ [final], sr_mask = 0 # tn_data weights\<rparr>
     else Err (RuntimeError ''shape mismatch in the assignment of the loss mask''))))))"

text \<open>The batch: real rows, then filler rows that clone the first with a zero mask.\<close>

record sft_td =
  st_input_ids :: "int list list"
  st_position_ids :: "nat list list"
  st_loss_mask :: "real list list"
  st_batch :: nat

definition pack_sft :: "nat \<Rightarrow> sft_row list \<Rightarrow> sft_td" where
  "pack_sft m rows =
     (let pad = replicate (filler_rows (length rows) m) ((hd rows)\<lparr>sr_mask := map (\<lambda>_. 0) (sr_mask (hd rows))\<rparr>);
          all_rows = rows @ pad
      in \<lparr>st_input_ids = map sr_full all_rows, st_position_ids = map (\<lambda>r. [0..<length (sr_full r)]) all_rows,
          st_loss_mask = map sr_mask all_rows, st_batch = length all_rows\<rparr>)"

section \<open>Top-K teacher data\<close>

record topk_row =
  tk_full :: "int list"
  tk_mask :: "real list"
  tk_ids :: "int list list"
  tk_log_probs :: "real list list"

text \<open>The rows of a matrix.\<close>

definition matrix_rows :: "nat \<Rightarrow> nat \<Rightarrow> 'a list \<Rightarrow> 'a list list" where
  "matrix_rows n k xs = map (\<lambda>i. take k (drop (i * k) xs)) [0..<n]"

definition log_prob_min_clamp :: real where
  "log_prob_min_clamp = -10"

definition log_weight :: "real \<Rightarrow> real" where
  "log_weight w = (if w > 0 then ln (max w (1 / 10 ^ 12)) else log_prob_min_clamp)"

definition topk_row_of :: "datum \<Rightarrow> topk_row result" where
  "topk_row_of d =
     bind_res (tensor_input ''target_tokens'' d) (\<lambda>target.
     bind_res (require (length (tn_shape target) = 2) ''expects 2-D target_tokens'') (\<lambda>_.
     bind_res (require (dict_has ''weights'' (dm_inputs d)) ''top-K distillation Datum requires weights'') (\<lambda>_.
     bind_res (tensor_input ''weights'' d) (\<lambda>weights.
     bind_res (require (tn_shape weights = tn_shape target) ''weights shape must match target_tokens shape'') (\<lambda>_.
     let n = tn_shape target ! 0; k = tn_shape target ! 1 in
     bind_res (require (n = length (dm_prefix d)) ''top-K Datum shape mismatch'') (\<lambda>_.
     bind_res (require (n \<noteq> 0) ''target cannot be empty'') (\<lambda>_.
     if k = 0 then Err (IndexError ''index 0 is out of bounds'')
     else let ids = matrix_rows n k (map toward_zero (tn_data target)); ws = matrix_rows n k (tn_data weights) in
       Ok \<lparr>tk_full = dm_prefix d @ [hd (last ids)], tk_mask = 0 # map (\<lambda>w. if sum_list w > 0 then 1 else 0) ws,
           tk_ids = replicate k 0 # ids, tk_log_probs = replicate k log_prob_min_clamp # map (map log_weight) ws\<rparr>)))))))"

record topk_td =
  tt_input_ids :: "int list list"
  tt_position_ids :: "nat list list"
  tt_loss_mask :: "real list list"
  tt_teacher_ids :: "int list list list"
  tt_teacher_logprobs :: "real list list list"
  tt_batch :: nat

definition pack_topk :: "nat \<Rightarrow> topk_row list \<Rightarrow> topk_td" where
  "pack_topk m rows =
     (let pad = replicate (filler_rows (length rows) m) ((hd rows)\<lparr>tk_mask := map (\<lambda>_. 0) (tk_mask (hd rows))\<rparr>);
          all_rows = rows @ pad
      in \<lparr>tt_input_ids = map tk_full all_rows, tt_position_ids = map (\<lambda>r. [0..<length (tk_full r)]) all_rows,
          tt_loss_mask = map tk_mask all_rows, tt_teacher_ids = map tk_ids all_rows, tt_teacher_logprobs = map tk_log_probs all_rows,
          tt_batch = length all_rows\<rparr>)"

definition datums_to_topk_distill_td :: "datum list \<Rightarrow> nat \<Rightarrow> topk_td result" where
  "datums_to_topk_distill_td ds m =
     (if ds = [] then http_422 ''Critic request carried no datums''
      else bind_res (map_res topk_row_of ds) (\<lambda>rows. Ok (pack_topk m rows)))"

text \<open>\<open>_datums_to_sft_td\<close>: the first datum decides which translator handles the batch.\<close>

datatype ce_batch = Plain sft_td | TopK topk_td

definition datums_to_sft_td :: "datum list \<Rightarrow> nat \<Rightarrow> ce_batch result" where
  "datums_to_sft_td ds m =
     (if ds = [] then http_422 ''Critic request carried no datums''
      else bind_res (tensor_input ''target_tokens'' (hd ds)) (\<lambda>first.
        if length (tn_shape first) = 2 then bind_res (datums_to_topk_distill_td ds m) (\<lambda>t. Ok (TopK t))
        else bind_res (map_res sft_row_of ds) (\<lambda>rows. Ok (Plain (pack_sft m rows)))))"

section \<open>Losses over a batch\<close>

text \<open>
  \<open>sft_final_loss\<close> of \<open>backends/_loss.py\<close>: the log-probs and the mask rolled left by one, both over the
  flattened batch, go to VeRL's token-sum aggregation \<open>agg\<close>.
\<close>

definition roll_left :: "'a list \<Rightarrow> 'a list" where
  "roll_left xs = (case xs of [] \<Rightarrow> [] | x # xs' \<Rightarrow> xs' @ [x])"

definition sft_final_loss :: "(real list \<Rightarrow> real list \<Rightarrow> real) \<Rightarrow> sft_td \<Rightarrow> real list list \<Rightarrow> real" where
  "sft_final_loss agg td log_probs = agg (map uminus (concat log_probs)) (roll_left (concat (st_loss_mask td)))"

text \<open>
  \<open>topk_logit_processor\<close> and \<open>topk_final_loss\<close>: \<open>student p v\<close> is the student's log-prob of the token \<open>v\<close> from the
  logits at the flattened position \<open>p\<close>. Only \<open>distillation_losses\<close> enters the loss.
\<close>

definition distillation_losses :: "(nat \<Rightarrow> int \<Rightarrow> real) \<Rightarrow> topk_td \<Rightarrow> real list" where
  "distillation_losses student td =
     (let ids = concat (tt_teacher_ids td); lps = concat (tt_teacher_logprobs td)
      in map (\<lambda>p. - (\<Sum>j<length (ids ! p). exp (lps ! p ! j) * student p (ids ! p ! j))) [0..<length ids])"

definition topk_final_loss :: "(real list \<Rightarrow> real list \<Rightarrow> real) \<Rightarrow> topk_td \<Rightarrow> real list \<Rightarrow> real" where
  "topk_final_loss agg td losses = agg losses (roll_left (concat (tt_loss_mask td)))"

text \<open>VeRL's token-sum aggregation, for one data-parallel rank.\<close>

definition token_sum :: "real list \<Rightarrow> real list \<Rightarrow> real" where
  "token_sum losses msk = (\<Sum>(l, m) \<leftarrow> zip losses msk. l * m)"


section \<open>Sums over batches\<close>

lemma sum_zip_concat:
  "map length xs = map length ys \<Longrightarrow>
   sum_list (map f (zip (concat xs) (concat ys))) = (\<Sum>(x, y) \<leftarrow> zip xs ys. sum_list (map f (zip x y)))"
proof (induction xs arbitrary: ys)
  case (Cons x xs)
  then obtain y ys' where "ys = y # ys'" "length x = length y" "map length xs = map length ys'" by (cases ys) auto
  then show ?case using Cons.IH [of ys'] by simp
qed simp

lemma roll_left_shifted: "roll_left (concat (map (\<lambda>w. a # w) ws)) = concat (map (\<lambda>w. w @ [a]) ws)"
proof -
  have "a # concat (map (\<lambda>w. w @ [a]) ws) = concat (map (\<lambda>w. a # w) ws) @ [a]" by (induction ws) auto
  then show ?thesis by (cases ws) (auto simp: roll_left_def)
qed

lemma zip_snoc_zero:
  "length lp = Suc (length w) \<Longrightarrow> (\<Sum>(l, m) \<leftarrow> zip lp (w @ [0]). g l * m) = (\<Sum>(l, m) \<leftarrow> zip lp w. g l * (m :: real))"
proof (induction w arbitrary: lp)
  case Nil
  then show ?case by (cases lp) auto
next
  case (Cons x w)
  then show ?case by (cases lp) auto
qed

lemma zero_weights: "(\<Sum>(l, m) \<leftarrow> zip lp (map (\<lambda>_. 0 :: real) w). g l * m) = 0"
proof (induction w arbitrary: lp)
  case (Cons x w)
  then show ?case by (cases lp) auto
qed simp

text \<open>The weights that the client put on the target tokens.\<close>

definition wire_weights :: "datum \<Rightarrow> real list" where
  "wire_weights d = (case sft_weights d of Ok t \<Rightarrow> tn_data t | Err _ \<Rightarrow> [])"

lemma sft_row_of_Ok:
  assumes "sft_row_of d = Ok r"
  shows "sr_mask r = 0 # wire_weights d \<and> length (sr_full r) = Suc (length (dm_prefix d)) \<and>
    length (wire_weights d) = length (dm_prefix d) \<and> take (length (dm_prefix d)) (sr_full r) = dm_prefix d"
  using assms by (auto simp: sft_row_of_def wire_weights_def numel_def split: if_splits)

lemma pack_sft_masks:
  assumes "map_res sft_row_of ds = Ok rows" "ds \<noteq> []"
  shows "st_loss_mask (pack_sft m rows) =
    map (\<lambda>w. 0 # w) (map wire_weights ds @ replicate (filler_rows (length ds) m) (map (\<lambda>_. 0) (wire_weights (hd ds))))"
proof -
  have len: "length rows = length ds" and r: "i < length ds \<Longrightarrow> sr_mask (rows ! i) = 0 # wire_weights (ds ! i)" for i
    using assms(1) sft_row_of_Ok unfolding map_res_Ok_nth by blast+
  have "map sr_mask rows = map (\<lambda>w. 0 # w) (map wire_weights ds)"
    by (rule nth_equalityI) (simp_all add: len r)
  moreover have "sr_mask (hd rows) = 0 # wire_weights (hd ds)"
    using r [of 0] len assms(2) by (cases rows; cases ds) auto
  ultimately show ?thesis by (simp add: pack_sft_def Let_def len)
qed

text \<open>
  C13. A supervised batch that the translator accepts has exactly the client's loss, whatever the log-probs: the
  masks, shifted by one and rolled back by one over the flattened batch, put each weight on the log-prob of
  its own target token, across the borders of the samples and around the end, and the filler rows add
  nothing. The batch is a multiple of the world size with fewer filler rows than ranks.
\<close>

theorem sft_loss_is_weighted_ce:
  assumes "datums_to_sft_td ds m = Ok (Plain td)" "map length lps = map length (st_loss_mask td)"
  shows "sft_final_loss token_sum td lps = - (\<Sum>(d, lp) \<leftarrow> zip ds lps. \<Sum>(w, l) \<leftarrow> zip (wire_weights d) lp. w * l) \<and>
    max 1 m dvd st_batch td \<and> length ds \<le> st_batch td \<and> st_batch td < length ds + max 1 m"
proof -
  obtain rows where rows: "map_res sft_row_of ds = Ok rows" and td: "td = pack_sft m rows" and ne: "ds \<noteq> []"
    using assms(1) by (auto simp: datums_to_sft_td_def http_422_def split: if_splits)
  define fill where "fill = replicate (filler_rows (length ds) m) (map (\<lambda>_. 0 :: real) (wire_weights (hd ds)))"
  define ws where "ws = map wire_weights ds @ fill"
  have masks: "st_loss_mask td = map (\<lambda>w. 0 # w) ws"
    using pack_sft_masks [OF rows ne] by (simp add: td ws_def fill_def)
  have len: "map length lps = map (\<lambda>w. Suc (length w)) ws" using assms(2) by (simp add: masks comp_def)
  have row: "(\<Sum>(l, w) \<leftarrow> zip lp (w @ [0]). - l * w) = (\<Sum>(l, w) \<leftarrow> zip lp w. - l * w)"
    if "length lp = Suc (length w)" for lp w :: "real list"
    using zip_snoc_zero [OF that, of uminus] .
  have "sft_final_loss token_sum td lps = (\<Sum>(l, w) \<leftarrow> zip (concat lps) (concat (map (\<lambda>w. w @ [0]) ws)). - l * w)"
    by (simp add: sft_final_loss_def token_sum_def masks roll_left_shifted zip_map1 comp_def case_prod_unfold)
  also have "\<dots> = (\<Sum>(lp, w) \<leftarrow> zip lps (map (\<lambda>w. w @ [0]) ws). \<Sum>(l, w) \<leftarrow> zip lp w. - l * w)"
    using len by (intro sum_zip_concat) (simp add: comp_def)
  also have "\<dots> = (\<Sum>(lp, w) \<leftarrow> zip lps ws. \<Sum>(l, w) \<leftarrow> zip lp w. - l * w)"
    using len
  proof (induction lps arbitrary: ws)
    case (Cons lp lps)
    then obtain w ws' where "ws = w # ws'" by (cases ws) auto
    then show ?case using Cons.IH [of ws'] Cons.prems row [of lp w] by simp
  qed simp
  also have "\<dots> = (\<Sum>(lp, w) \<leftarrow> zip lps (map wire_weights ds). \<Sum>(l, w) \<leftarrow> zip lp w. - l * w)"
  proof -
    define k where "k = length ds"
    have l: "length lps = length ws" using len by (metis length_map)
    have "zip lps ws = zip (take k lps) (map wire_weights ds) @ zip (drop k lps) fill"
      using zip_append [of "take k lps" "map wire_weights ds" "drop k lps" fill] l by (simp add: k_def ws_def)
    moreover have "(\<Sum>(lp, w) \<leftarrow> zip xs fill. \<Sum>(l, w) \<leftarrow> zip lp w. - l * w) = 0" for xs
    proof -
      have z: "(\<Sum>(l, w) \<leftarrow> zip lp w. - l * w) = 0" if "w \<in> set fill" for lp w
        using that zero_weights [of uminus] by (simp add: fill_def split: if_splits)
      have "(\<Sum>(lp, w) \<leftarrow> zip xs fill. \<Sum>(l, w) \<leftarrow> zip lp w. - l * w) = (\<Sum>p \<leftarrow> zip xs fill. 0)"
        by (rule arg_cong [where f = sum_list], rule map_cong [OF refl]) (auto dest: set_zip_rightD simp: z [simplified])
      then show ?thesis by simp
    qed
    moreover have "zip (take k lps) (map wire_weights ds) = zip lps (map wire_weights ds)"
      by (rule nth_equalityI) (simp_all add: k_def)
    ultimately show ?thesis by simp
  qed
  also have "\<dots> = - (\<Sum>(d, lp) \<leftarrow> zip ds lps. \<Sum>(w, l) \<leftarrow> zip (wire_weights d) lp. w * l)"
  proof (induction ds arbitrary: lps)
    case (Cons d ds)
    have "(\<Sum>(l, w) \<leftarrow> zip lp w. - l * w) = - (\<Sum>(w, l) \<leftarrow> zip w lp. w * l)" for lp w :: "real list"
    proof (induction lp arbitrary: w)
      case (Cons l lp)
      then show ?case by (cases w) auto
    qed simp
    then show ?case using Cons.IH by (cases lps) auto
  qed simp
  finally have "sft_final_loss token_sum td lps = - (\<Sum>(d, lp) \<leftarrow> zip ds lps. \<Sum>(w, l) \<leftarrow> zip (wire_weights d) lp. w * l)" .
  moreover have "st_batch td = length ds + filler_rows (length ds) m"
    using map_res_length [OF rows] by (simp add: td pack_sft_def Let_def)
  ultimately show ?thesis using filler_rows_spec [of m "length ds"] by simp
qed

section \<open>The teacher's rows\<close>

lemma matrix_rows_length [simp]: "length (matrix_rows n k xs) = n"
  by (simp add: matrix_rows_def)

lemma matrix_rows_nth [simp]: "i < n \<Longrightarrow> matrix_rows n k xs ! i = take k (drop (i * k) xs)"
  by (simp add: matrix_rows_def)

text \<open>The targets and weights that the client sent, as rows.\<close>

definition wire_rows :: "string \<Rightarrow> datum \<Rightarrow> real list list" where
  "wire_rows key d = (case tensor_input key d of Ok t \<Rightarrow> matrix_rows (tn_shape t ! 0) (tn_shape t ! 1) (tn_data t) | Err _ \<Rightarrow> [])"

lemma matrix_rows_map: "matrix_rows n k (map f xs) = map (map f) (matrix_rows n k xs)"
  by (rule nth_equalityI) (simp_all add: take_map drop_map)

lemma topk_row_of_Ok:
  assumes "topk_row_of d = Ok r"
  shows "\<exists>k. tk_ids r = replicate k 0 # map (map toward_zero) (wire_rows ''target_tokens'' d) \<and>
    tk_log_probs r = replicate k log_prob_min_clamp # map (map log_weight) (wire_rows ''weights'' d) \<and>
    tk_mask r = 0 # map (\<lambda>w. if sum_list w > 0 then 1 else 0) (wire_rows ''weights'' d) \<and>
    length (wire_rows ''target_tokens'' d) = length (dm_prefix d) \<and> length (wire_rows ''weights'' d) = length (dm_prefix d)"
proof -
  obtain target weights where t: "tensor_input ''target_tokens'' d = Ok target" and w: "tensor_input ''weights'' d = Ok weights"
    and s: "tn_shape weights = tn_shape target" "tn_shape target ! 0 = length (dm_prefix d)"
    and r: "tk_ids r = replicate (tn_shape target ! 1) 0 # matrix_rows (tn_shape target ! 0) (tn_shape target ! 1) (map toward_zero (tn_data target))"
      "tk_log_probs r = replicate (tn_shape target ! 1) log_prob_min_clamp # map (map log_weight) (matrix_rows (tn_shape target ! 0) (tn_shape target ! 1) (tn_data weights))"
      "tk_mask r = 0 # map (\<lambda>w. if sum_list w > 0 then 1 else 0) (matrix_rows (tn_shape target ! 0) (tn_shape target ! 1) (tn_data weights))"
    using assms by (auto simp: topk_row_of_def Let_def split: if_splits)
  have "wire_rows ''target_tokens'' d = matrix_rows (tn_shape target ! 0) (tn_shape target ! 1) (tn_data target)"
    "wire_rows ''weights'' d = matrix_rows (tn_shape target ! 0) (tn_shape target ! 1) (tn_data weights)"
    using t w s(1) by (simp_all add: wire_rows_def)
  then show ?thesis using r s by (intro exI [of _ "tn_shape target ! 1"]) (simp add: matrix_rows_map)
qed

lemma token_sum_nth: "length xs = length ys \<Longrightarrow> token_sum xs ys = (\<Sum>i<length ys. xs ! i * ys ! i)"
  by (simp add: token_sum_def sum_list_sum_nth atLeast0LessThan)

text \<open>
  The top-K loss of one sample pairs the student's logits at a position with the teacher's row of the position
  before it: the teacher's rows are packed behind a leading zero row, and only the mask is rolled back. So
  position 0 is compared with token 0 at weight \<open>exp (-10)\<close>, position \<open>p + 1\<close> with the target of position
  \<open>p\<close>, under the mask of its own target, and the last target never enters the loss.
\<close>

theorem topk_teacher_lags:
  assumes "datums_to_topk_distill_td [d] 1 = Ok td"
  shows "let t = wire_rows ''target_tokens'' d; w = wire_rows ''weights'' d;
           active = (\<lambda>p. if sum_list (w ! p) > 0 then 1 else 0) in
    \<exists>k::nat. topk_final_loss token_sum td (distillation_losses student td) =
      (\<Sum>p<length (dm_prefix d). active p *
         (case p of 0 \<Rightarrow> - (\<Sum>j<k. exp (-10) * student 0 0)
          | Suc q \<Rightarrow> - (\<Sum>j<length (t ! q). exp (map log_weight (w ! q) ! j) * student (Suc q) (toward_zero (t ! q ! j)))))"
proof -
  obtain r where r: "topk_row_of d = Ok r" and td: "td = pack_topk 1 [r]"
    using assms by (auto simp: datums_to_topk_distill_td_def split: if_splits)
  let ?t = "wire_rows ''target_tokens'' d" and ?w = "wire_rows ''weights'' d"
  let ?act = "\<lambda>w. if sum_list w > 0 then 1 else 0 :: real"
  define n where "n = length (dm_prefix d)"
  obtain k where k: "tk_ids r = replicate k 0 # map (map toward_zero) ?t"
    "tk_log_probs r = replicate k log_prob_min_clamp # map (map log_weight) ?w" "tk_mask r = 0 # map ?act ?w"
    "length ?t = n" "length ?w = n" using topk_row_of_Ok [OF r] unfolding n_def by blast
  have f: "filler_rows (Suc 0) (Suc 0) = 0" by (simp add: filler_rows_def)
  have td': "concat (tt_teacher_ids td) = tk_ids r" "concat (tt_teacher_logprobs td) = tk_log_probs r"
    "concat (tt_loss_mask td) = tk_mask r"
    by (simp_all add: td pack_topk_def f Let_def)
  let ?body = "\<lambda>p. case p of 0 \<Rightarrow> - (\<Sum>j<k. exp (-10) * student 0 0)
          | Suc q \<Rightarrow> - (\<Sum>j<length (?t ! q). exp (map log_weight (?w ! q) ! j) * student (Suc q) (toward_zero (?t ! q ! j)))"
  define losses where "losses = distillation_losses student td"
  have len: "length losses = Suc n" by (simp add: losses_def distillation_losses_def td' k Let_def)
  have "topk_final_loss token_sum td losses = token_sum losses (map ?act ?w @ [0])"
    by (simp add: topk_final_loss_def td' k(3) roll_left_def)
  also have "\<dots> = (\<Sum>p<n. losses ! p * ?act (?w ! p))"
    by (subst token_sum_nth) (simp_all add: len k(5) nth_append)
  also have "\<dots> = (\<Sum>p<n. ?act (?w ! p) * ?body p)"
  proof (rule sum.cong [OF refl])
    fix p assume p: "p \<in> {..<n}"
    show "losses ! p * ?act (?w ! p) = ?act (?w ! p) * ?body p"
    proof (cases p)
      case 0
      have "losses ! 0 = - (\<Sum>j<k. exp (-10) * student 0 0)"
        unfolding losses_def distillation_losses_def td' k Let_def
        by (simp del: upt_Suc add: log_prob_min_clamp_def)
      then show ?thesis by (simp add: 0)
    next
      case (Suc q)
      have "losses ! Suc q = - (\<Sum>j<length (?t ! q). exp (map log_weight (?w ! q) ! j) * student (Suc q) (toward_zero (?t ! q ! j)))"
        using p unfolding losses_def distillation_losses_def td' k Let_def
        by (simp del: upt_Suc add: Suc k(4,5))
      then show ?thesis by (simp add: Suc)
    qed
  qed
  finally have loss: "topk_final_loss token_sum td losses = (\<Sum>p<n. ?act (?w ! p) * ?body p)" .
  show ?thesis unfolding Let_def by (rule exI [where x = k]) (rule loss [unfolded losses_def n_def])
qed

lemma exp_minus_ten: "(1 :: real) / 10 ^ 6 < exp (-10)"
proof -
  have "exp (10 :: real) = exp 1 ^ 10" by (simp add: exp_of_nat_mult [symmetric])
  also have "\<dots> \<le> 3 ^ 10" by (intro power_mono) (simp_all add: exp_le)
  also have "\<dots> < 10 ^ 6" by simp
  finally have "exp (10 :: real) < 10 ^ 6" .
  then have "inverse (10 ^ 6 :: real) < inverse (exp 10)" by (rule less_imp_inverse_less) simp
  then show ?thesis by (simp only: exp_minus divide_inverse mult_1_left)
qed

text \<open>
  An invalid slot outweighs a rare token: a teacher weight of zero enters the loss as \<open>exp (-10)\<close>, more than
  every positive weight below that, down to the smallest representable one.
\<close>

theorem zero_weight_outweighs:
  assumes "0 < w" "w < exp (-10)"
  shows "exp (log_weight w) = max w (1 / 10 ^ 12) \<and> exp (log_weight w) < exp (log_weight 0)"
proof -
  have "(1 :: real) / 10 ^ 12 < exp (-10)" using exp_minus_ten by simp
  then have "max w (1 / 10 ^ 12) < exp (-10)" using assms(2) by simp
  moreover have "exp (log_weight w) = max w (1 / 10 ^ 12)"
    using assms(1) unfolding log_weight_def by (simp only: if_True exp_ln less_max_iff_disj simp_thms)
  moreover have "exp (log_weight 0) = exp (-10)" by (simp add: log_weight_def log_prob_min_clamp_def)
  ultimately show ?thesis by simp
qed

section \<open>Concrete requests\<close>

definition wire :: "real list \<Rightarrow> tensor_data" where
  "wire xs = \<lparr>td_data = xs, td_shape = [length xs], td_float = True\<rparr>"

definition demo_sft :: "datum list" where
  "demo_sft =
     [\<lparr>dm_prefix = [7, 8], dm_inputs = [(''target_tokens'', wire [8, 9]), (''weights'', wire [0, 1])]\<rparr>,
      \<lparr>dm_prefix = [5], dm_inputs = [(''target_tokens'', wire [6]), (''mask'', wire [1])]\<rparr>,
      \<lparr>dm_prefix = [1], dm_inputs = [(''target_tokens'', wire [2]), (''weights'', wire [2])]\<rparr>]"

lemma demo_sft_td:
  "datums_to_sft_td demo_sft 2 = Ok (Plain \<lparr>st_input_ids = [[7, 8, 9], [5, 6], [1, 2], [7, 8, 9]],
     st_position_ids = [[0, 1, 2], [0, 1], [0, 1], [0, 1, 2]], st_loss_mask = [[0, 0, 1], [0, 1], [0, 2], [0, 0, 0]], st_batch = 4\<rparr>)"
  by (simp add: datums_to_sft_td_def demo_sft_def sft_row_of_def sft_weights_def tensor_input_def tensor_data_to_torch_def dict_index_def
      wire_def numel_def last_token_def toward_zero_def pack_sft_def filler_rows_def upt_rec Let_def)

theorem sft_loss_is_weighted_ce_witness:
  "sft_final_loss token_sum \<lparr>st_input_ids = [[7, 8, 9], [5, 6], [1, 2], [7, 8, 9]],
     st_position_ids = [[0, 1, 2], [0, 1], [0, 1], [0, 1, 2]], st_loss_mask = [[0, 0, 1], [0, 1], [0, 2], [0, 0, 0]], st_batch = 4\<rparr>
     [[-1, -2, -3], [-4, -5], [-6, -7], [-8, -9, -10]] = 2 + 4 + 12"
  using sft_loss_is_weighted_ce [OF demo_sft_td, of "[[-1, -2, -3], [-4, -5], [-6, -7], [-8, -9, -10]]"]
  by (simp add: demo_sft_def wire_weights_def sft_weights_def tensor_input_def tensor_data_to_torch_def dict_index_def wire_def)

definition demo_topk :: datum where
  "demo_topk = \<lparr>dm_prefix = [7, 8], dm_inputs = [
     (''target_tokens'', \<lparr>td_data = [8, 3, 9, 4], td_shape = [2, 2], td_float = False\<rparr>),
     (''weights'', \<lparr>td_data = [1, 0, 1, 0], td_shape = [2, 2], td_float = True\<rparr>)]\<rparr>"

lemma demo_topk_td: "\<exists>td. datums_to_topk_distill_td [demo_topk] 1 = Ok td"
  by (simp add: datums_to_topk_distill_td_def topk_row_of_def demo_topk_def tensor_input_def tensor_data_to_torch_def dict_index_def Let_def
      numeral_2_eq_2)

text \<open>A student that is wrong about the last target only pays for the others.\<close>

theorem topk_teacher_lags_witness:
  "\<exists>td. datums_to_topk_distill_td [demo_topk] 1 = Ok td \<and>
     topk_final_loss token_sum td (distillation_losses (\<lambda>p v. if v = 9 then - 100 else 0) td) = 0"
proof -
  obtain td where td: "datums_to_topk_distill_td [demo_topk] 1 = Ok td" using demo_topk_td by blast
  have rows: "wire_rows ''target_tokens'' demo_topk = [[8, 3], [9, 4]]" "wire_rows ''weights'' demo_topk = [[1, 0], [1, 0]]"
    "length (dm_prefix demo_topk) = 2"
    by (simp_all add: wire_rows_def demo_topk_def tensor_input_def tensor_data_to_torch_def dict_index_def matrix_rows_def toward_zero_def
        upt_rec numeral_2_eq_2)
  show ?thesis using topk_teacher_lags [OF td, of "\<lambda>p v. if v = 9 then - 100 else 0"] td
    by (auto simp: rows toward_zero_def lessThan_Suc numeral_2_eq_2 Let_def)
qed

theorem zero_weight_outweighs_witness: "exp (log_weight (1 / 10 ^ 6)) < exp (log_weight 0)"
  using zero_weight_outweighs [OF _ exp_minus_ten] by simp

end
