(* ===== verification/PolicyPacking.thy ===== *)
theory PolicyPacking
  imports DatumPacking
begin

text \<open>
  The policy-gradient side of \<open>verl_tinker/data/datum_processing.py\<close>: \<open>_datums_to_update_actor_td\<close> and
  \<open>_datums_to_forward_td\<close>, and what \<open>tinker_ops.py\<close> makes of the log-probs that come back. The
  per-token inputs of a datum are vectors here, as its documentation says; the translator does not
  check their lengths, and neither does the model.
\<close>

section \<open>A sample's rows\<close>

definition vector_input :: "string \<Rightarrow> datum \<Rightarrow> real list result" where
  "vector_input k d = bind_res (tensor_input k d) (\<lambda>t.
     if length (tn_shape t) = 1 then Ok (tn_data t) else Err (TypeError ''not a vector''))"

text \<open>Element-wise operations broadcast a vector of one element.\<close>

definition broadcast2 :: "(real \<Rightarrow> real \<Rightarrow> real) \<Rightarrow> real list \<Rightarrow> real list \<Rightarrow> real list result" where
  "broadcast2 f xs ys =
     (if length xs = length ys then Ok (map2 f xs ys)
      else if length xs = 1 then Ok (map (f (hd xs)) ys)
      else if length ys = 1 then Ok (map (\<lambda>x. f x (hd ys)) xs)
      else Err (RuntimeError ''sizes of tensors must match''))"

text \<open>Where the response is: an explicit mask, or every position with an advantage or a log-prob.\<close>

definition response_mask_input :: "real list \<Rightarrow> real list \<Rightarrow> datum \<Rightarrow> real list result" where
  "response_mask_input logp adv d =
     (if dict_has ''response_mask'' (dm_inputs d) then vector_input ''response_mask'' d
      else if dict_has ''mask'' (dm_inputs d) then vector_input ''mask'' d
      else if dict_has ''weights'' (dm_inputs d) then vector_input ''weights'' d
      else broadcast2 (\<lambda>a l. if a \<noteq> 0 \<or> l \<noteq> 0 then 1 else 0) adv logp)"

record policy_row =
  pr_full :: "int list"
  pr_prompt :: "int list"
  pr_response :: "int list"
  pr_mask :: "real list"
  pr_logp :: "real list"
  pr_adv :: "real list"
  pr_isw :: "real list option"

text \<open>The first position of the response; the window extends to the end of the mask.\<close>

fun first_positive :: "real list \<Rightarrow> nat option" where
  "first_positive [] = None"
| "first_positive (x # xs) = (if x > 0 then Some 0 else map_option Suc (first_positive xs))"

definition window :: "nat \<Rightarrow> nat \<Rightarrow> 'a list \<Rightarrow> 'a list" where
  "window start n xs = take n (drop start xs)"

definition policy_row_of :: "datum \<Rightarrow> policy_row result" where
  "policy_row_of d =
     bind_res (vector_input ''target_tokens'' d) (\<lambda>target.
     bind_res (vector_input ''logprobs'' d) (\<lambda>logp.
     bind_res (vector_input ''advantages'' d) (\<lambda>adv.
     bind_res (response_mask_input logp adv d) (\<lambda>resp.
     bind_res (last_token \<lparr>tn_shape = [length target], tn_data = target\<rparr>) (\<lambda>final.
     let full = dm_prefix d @ [final] in
     case first_positive resp of
       None \<Rightarrow> http_422 ''Datum has no inferrable response window''
     | Some start \<Rightarrow>
         let n = length resp - start in
         bind_res (if dict_has ''rollout_is_weights'' (dm_inputs d)
                   then bind_res (vector_input ''rollout_is_weights'' d) (\<lambda>w. Ok (Some (window start n w))) else Ok None) (\<lambda>isw.
         Ok \<lparr>pr_full = full, pr_prompt = take (start + 1) full, pr_response = window (start + 1) n full,
             pr_mask = window start n resp, pr_logp = window start n logp, pr_adv = window start n adv, pr_isw = isw\<rparr>))))))"

section \<open>The batch\<close>

record policy_td =
  pt_input_ids :: "int list list"
  pt_position_ids :: "nat list list"
  pt_prompts :: "int list list"
  pt_responses :: "int list list"
  pt_attention_mask :: "nat list list"
  pt_response_mask :: "real list list"
  pt_old_log_probs :: "real list list"
  pt_advantages :: "real list list"
  pt_isw :: "real list list option"
  pt_batch :: nat
  pt_max_response_len :: nat

definition zeros :: "'a list \<Rightarrow> real list" where
  "zeros xs = replicate (length xs) 0"

definition filler_row :: "bool \<Rightarrow> policy_row \<Rightarrow> policy_row" where
  "filler_row isw r = r\<lparr>pr_mask := zeros (pr_mask r), pr_logp := zeros (pr_logp r), pr_adv := zeros (pr_adv r),
     pr_isw := (if isw then Some (zeros (pr_logp r)) else None)\<rparr>"

text \<open>\<open>row[:n] = values\<close> on a row of zeros; a single value is broadcast.\<close>

definition assign_prefix :: "nat \<Rightarrow> nat \<Rightarrow> real list \<Rightarrow> real list result" where
  "assign_prefix width n values =
     (if length values = n then Ok (values @ replicate (width - n) 0)
      else if length values = 1 then Ok (replicate n (hd values) @ replicate (width - n) 0)
      else Err (RuntimeError ''shape mismatch: value tensor cannot be broadcast''))"

definition padded_row :: "nat \<Rightarrow> policy_row \<Rightarrow> (real list \<times> real list \<times> real list) result" where
  "padded_row width r =
     (let n = length (pr_response r) in
      bind_res (assign_prefix width n (pr_mask r)) (\<lambda>a.
      bind_res (assign_prefix width n (pr_logp r)) (\<lambda>b.
      bind_res (assign_prefix width n (pr_adv r)) (\<lambda>c. Ok (a, b, c)))))"

definition batch_rows :: "nat \<Rightarrow> policy_row list \<Rightarrow> policy_row list" where
  "batch_rows m rows =
     rows @ replicate (filler_rows (length rows) m) (filler_row (\<exists>r \<in> set rows. pr_isw r \<noteq> None) (hd rows))"

definition pack_policy :: "policy_row list \<Rightarrow> policy_td result" where
  "pack_policy rows =
     (let width = Max ((\<lambda>r. length (pr_response r)) ` set rows);
          seq = Max ((\<lambda>r. length (pr_full r)) ` set rows);
          n_isw = length (filter (\<lambda>r. pr_isw r \<noteq> None) rows) in
      bind_res (map_res (padded_row width) rows) (\<lambda>padded.
      bind_res (require (\<not> (0 < n_isw \<and> n_isw < length rows)) ''rollout_is_weights: mixed presence is ambiguous'') (\<lambda>_.
      bind_res (if n_isw = length rows
                then bind_res (map_res (\<lambda>r. assign_prefix width (length (pr_response r)) (the (pr_isw r))) rows) (\<lambda>w. Ok (Some w))
                else Ok None) (\<lambda>isw.
      Ok \<lparr>pt_input_ids = map pr_full rows, pt_position_ids = map (\<lambda>r. [0..<length (pr_full r)]) rows,
          pt_prompts = map pr_prompt rows, pt_responses = map pr_response rows,
          pt_attention_mask = map (\<lambda>r. replicate (length (pr_full r)) 1 @ replicate (seq - length (pr_full r)) 0) rows,
          pt_response_mask = map fst padded, pt_old_log_probs = map (fst \<circ> snd) padded, pt_advantages = map (snd \<circ> snd) padded,
          pt_isw = isw, pt_batch = length rows, pt_max_response_len = width\<rparr>))))"

definition datums_to_update_actor_td :: "datum list \<Rightarrow> nat \<Rightarrow> policy_td result" where
  "datums_to_update_actor_td ds m =
     (if ds = [] then http_422 ''Critic request carried no datums''
      else bind_res (map_res policy_row_of ds) (\<lambda>rows. pack_policy (batch_rows m rows)))"

section \<open>Forward only\<close>

record forward_row =
  fr_full :: "int list"
  fr_mask :: "real list"

record forward_td =
  ft_input_ids :: "int list list"
  ft_position_ids :: "nat list list"
  ft_loss_mask :: "real list list"
  ft_attention_mask :: "nat list list"

definition forward_row_of :: "datum \<Rightarrow> forward_row result" where
  "forward_row_of d =
     bind_res (tensor_input ''target_tokens'' d) (\<lambda>target.
     bind_res (require (length (tn_shape target) = 1) ''supports only 1-D target_tokens'') (\<lambda>_.
     bind_res (require (numel target \<noteq> 0) ''Received empty target'') (\<lambda>_.
     bind_res (last_token target) (\<lambda>final.
     Ok \<lparr>fr_full = dm_prefix d @ [final], fr_mask = replicate (Suc (length (dm_prefix d))) 1\<rparr>))))"

definition pack_forward :: "nat \<Rightarrow> forward_row list \<Rightarrow> forward_td" where
  "pack_forward m rows =
     (let all_rows = rows @ replicate (filler_rows (length rows) m) (hd rows);
          seq = Max ((\<lambda>r. length (fr_full r)) ` set all_rows)
      in \<lparr>ft_input_ids = map fr_full all_rows, ft_position_ids = map (\<lambda>r. [0..<length (fr_full r)]) all_rows,
          ft_loss_mask = map fr_mask all_rows,
          ft_attention_mask = map (\<lambda>r. replicate (length (fr_full r)) 1 @ replicate (seq - length (fr_full r)) 0) all_rows\<rparr>)"

definition datums_to_forward_td :: "datum list \<Rightarrow> nat \<Rightarrow> forward_td result" where
  "datums_to_forward_td ds m =
     (if ds = [] then http_422 ''Critic request carried no datums''
      else bind_res (map_res forward_row_of ds) (\<lambda>rows. Ok (pack_forward m rows)))"

text \<open>
  \<open>forward\<close>: \<open>engine\<close> gives the log-probs of each row of the batch; the last one of each row wraps around and is
  dropped, the rows of the filler are dropped.
\<close>

definition forward_output :: "real list \<times> datum \<Rightarrow> real list result" where
  "forward_output p =
     (if length (fst p) = Suc (length (dm_prefix (snd p))) then Ok (butlast (fst p))
      else Err (RuntimeError ''compute_log_prob returned an unexpected number of log-probs''))"

definition forward :: "(forward_td \<Rightarrow> real list list) \<Rightarrow> nat \<Rightarrow> datum list \<Rightarrow> real list list result" where
  "forward engine m ds =
     bind_res (datums_to_forward_td ds m) (\<lambda>td.
     let rows = take (length ds) (engine td) in
     if length rows \<noteq> length ds then Err (RuntimeError ''compute_log_prob returned too few samples'')
     else map_res forward_output (zip rows ds))"


section \<open>What the client sent\<close>

definition wire_vector :: "string \<Rightarrow> datum \<Rightarrow> real list" where
  "wire_vector k d = (case vector_input k d of Ok xs \<Rightarrow> xs | Err _ \<Rightarrow> [])"

definition wire_mask :: "datum \<Rightarrow> real list" where
  "wire_mask d = (case response_mask_input (wire_vector ''logprobs'' d) (wire_vector ''advantages'' d) d of Ok xs \<Rightarrow> xs | Err _ \<Rightarrow> [])"

text \<open>The lengths that the documentation asks for: one value per target token, and a mask without negative values.\<close>

definition aligned_datum :: "datum \<Rightarrow> bool" where
  "aligned_datum d \<longleftrightarrow>
     (let n = length (dm_prefix d) in length (wire_vector ''logprobs'' d) = n \<and> length (wire_vector ''advantages'' d) = n \<and>
       length (wire_mask d) = n \<and> (\<forall>x \<in> set (wire_mask d). 0 \<le> x))"

text \<open>A loss over tokens: each token's term of its advantage and log-prob, weighted by the mask.\<close>

definition weighted :: "(real \<Rightarrow> real \<Rightarrow> real) \<Rightarrow> real list \<Rightarrow> real list \<Rightarrow> real list \<Rightarrow> real" where
  "weighted f ws ls as = (\<Sum>(w, l, a) \<leftarrow> zip ws (zip ls as). w * f l a)"

lemma weighted_append:
  "length ws = length ls \<Longrightarrow> length ls = length as \<Longrightarrow>
   weighted f (ws @ ws') (ls @ ls') (as @ as') = weighted f ws ls as + weighted f ws' ls' as'"
  by (simp add: weighted_def)

lemma weighted_zeros: "(\<forall>x \<in> set ws. x = 0) \<Longrightarrow> weighted f ws ls as = 0"
proof -
  assume z: "\<forall>x \<in> set ws. x = 0"
  have "(\<Sum>(w, l, a) \<leftarrow> zip ws (zip ls as). w * f l a) = (\<Sum>p \<leftarrow> zip ws (zip ls as). 0)"
    by (rule arg_cong [where f = sum_list], rule map_cong [OF refl]) (use z in \<open>auto dest: set_zip_leftD\<close>)
  then show ?thesis by (simp add: weighted_def)
qed

lemma first_positive_Some:
  "first_positive xs = Some s \<Longrightarrow> s < length xs \<and> (\<forall>x \<in> set (take s xs). x \<le> 0)"
proof (induction xs arbitrary: s)
  case (Cons x xs)
  then show ?case by (cases s) (auto split: if_splits)
qed simp

lemma length_window [simp]: "length (window s n xs) = min (length xs - s) n"
  by (simp add: window_def)

text \<open>The window of a mask loses nothing of the loss.\<close>

lemma weighted_window:
  assumes "first_positive ws = Some s" "\<forall>x \<in> set ws. 0 \<le> x" "length ls = length ws" "length as = length ws"
  shows "weighted f (window s (length ws - s) ws) (window s (length ws - s) ls) (window s (length ws - s) as) = weighted f ws ls as"
proof -
  have z: "\<forall>x \<in> set (take s ws). x = 0" using first_positive_Some [OF assms(1)] assms(2) by (meson antisym in_set_takeD)
  have w: "window s (length ws - s) xs = drop s xs" if "length xs = length ws" for xs :: "real list"
    using that by (simp add: window_def)
  have "weighted f ws ls as = weighted f (take s ws @ drop s ws) (take s ls @ drop s ls) (take s as @ drop s as)" by simp
  also have "\<dots> = weighted f (take s ws) (take s ls) (take s as) + weighted f (drop s ws) (drop s ls) (drop s as)"
    by (rule weighted_append) (use assms(3,4) in simp_all)
  finally show ?thesis using weighted_zeros [OF z] assms(3,4) by (simp add: w)
qed

lemma policy_row_of_Ok:
  assumes "policy_row_of d = Ok r"
  obtains s where "first_positive (wire_mask d) = Some s"
    "pr_mask r = window s (length (wire_mask d) - s) (wire_mask d)"
    "pr_logp r = window s (length (wire_mask d) - s) (wire_vector ''logprobs'' d)"
    "pr_adv r = window s (length (wire_mask d) - s) (wire_vector ''advantages'' d)"
    "pr_prompt r = take (s + 1) (pr_full r)" "pr_response r = window (s + 1) (length (wire_mask d) - s) (pr_full r)"
    "length (pr_full r) = Suc (length (dm_prefix d))" "take (length (dm_prefix d)) (pr_full r) = dm_prefix d"
  using assms that unfolding policy_row_of_def wire_mask_def wire_vector_def
  by (auto simp: Let_def http_422_def split: option.splits sum.splits)

section \<open>Aligned rows\<close>

definition aligned_row :: "policy_row \<Rightarrow> bool" where
  "aligned_row r \<longleftrightarrow> (let n = length (pr_response r) in length (pr_mask r) = n \<and> length (pr_logp r) = n \<and> length (pr_adv r) = n) \<and>
     pr_prompt r @ pr_response r = pr_full r"

definition row_loss :: "(real \<Rightarrow> real \<Rightarrow> real) \<Rightarrow> policy_row \<Rightarrow> real" where
  "row_loss f r = weighted f (pr_mask r) (pr_logp r) (pr_adv r)"

definition datum_loss :: "(real \<Rightarrow> real \<Rightarrow> real) \<Rightarrow> datum \<Rightarrow> real" where
  "datum_loss f d = weighted f (wire_mask d) (wire_vector ''logprobs'' d) (wire_vector ''advantages'' d)"

lemma aligned_datum_row:
  assumes "policy_row_of d = Ok r" "aligned_datum d"
  shows "aligned_row r \<and> row_loss f r = datum_loss f d"
proof -
  from assms(1) obtain s where s: "first_positive (wire_mask d) = Some s"
    "pr_mask r = window s (length (wire_mask d) - s) (wire_mask d)"
    "pr_logp r = window s (length (wire_mask d) - s) (wire_vector ''logprobs'' d)"
    "pr_adv r = window s (length (wire_mask d) - s) (wire_vector ''advantages'' d)"
    "pr_prompt r = take (s + 1) (pr_full r)" "pr_response r = window (s + 1) (length (wire_mask d) - s) (pr_full r)"
    "length (pr_full r) = Suc (length (dm_prefix d))"
    by (rule policy_row_of_Ok)
  have l: "length (wire_mask d) = length (dm_prefix d)" "length (wire_vector ''logprobs'' d) = length (dm_prefix d)"
    "length (wire_vector ''advantages'' d) = length (dm_prefix d)" "\<forall>x \<in> set (wire_mask d). 0 \<le> x"
    using assms(2) by (simp_all add: aligned_datum_def Let_def)
  have "s < length (wire_mask d)" using first_positive_Some [OF s(1)] by simp
  then have "pr_prompt r @ pr_response r = pr_full r" using s(5-7) l(1) by (simp add: window_def)
  moreover have "row_loss f r = datum_loss f d"
    unfolding row_loss_def datum_loss_def s(2-4) by (rule weighted_window [OF s(1)]) (use l in simp_all)
  ultimately show ?thesis using s(2-4,6,7) l by (simp add: aligned_row_def Let_def)
qed

lemma filler_aligned: "aligned_row r \<Longrightarrow> aligned_row (filler_row b r) \<and> row_loss f (filler_row b r) = 0"
  using weighted_zeros [of "zeros (pr_mask r)" f] by (simp add: aligned_row_def filler_row_def row_loss_def zeros_def)

lemma padded_row_aligned:
  assumes "aligned_row r" "length (pr_response r) \<le> width"
  shows "padded_row width r = Ok (pr_mask r @ replicate (width - length (pr_response r)) 0,
    pr_logp r @ replicate (width - length (pr_response r)) 0, pr_adv r @ replicate (width - length (pr_response r)) 0)"
  using assms by (simp add: aligned_row_def padded_row_def assign_prefix_def Let_def)

lemma padded_row_loss:
  assumes "aligned_row r"
  shows "weighted f (pr_mask r @ replicate k 0) (pr_logp r @ replicate k 0) (pr_adv r @ replicate k 0) = row_loss f r"
  using assms weighted_append [of "pr_mask r" "pr_logp r" "pr_adv r" f "replicate k 0" "replicate k 0" "replicate k 0"]
    weighted_zeros [of "replicate k 0" f]
  by (simp add: aligned_row_def row_loss_def Let_def)

text \<open>A batch of aligned rows: rectangular, and with the loss of its rows.\<close>

lemma pack_policy_aligned:
  assumes "pack_policy rows = Ok td" "\<forall>r \<in> set rows. aligned_row r"
  shows "pt_prompts td = map pr_prompt rows \<and> pt_responses td = map pr_response rows \<and> pt_input_ids td = map pr_full rows \<and>
    pt_batch td = length rows \<and>
    (\<forall>xs \<in> set (pt_response_mask td) \<union> set (pt_old_log_probs td) \<union> set (pt_advantages td). length xs = pt_max_response_len td) \<and>
    (\<Sum>(w, l, a) \<leftarrow> zip (pt_response_mask td) (zip (pt_old_log_probs td) (pt_advantages td)). weighted f w l a) =
      (\<Sum>r \<leftarrow> rows. row_loss f r)"
proof -
  define width where "width = Max ((\<lambda>r. length (pr_response r)) ` set rows)"
  let ?z = "\<lambda>r. replicate (width - length (pr_response r)) 0"
  let ?p = "\<lambda>r. (pr_mask r @ ?z r, pr_logp r @ ?z r, pr_adv r @ ?z r)"
  have w: "length (pr_response r) \<le> width" if "r \<in> set rows" for r
    unfolding width_def using that by (intro Max_ge) auto
  have p: "map_res (padded_row width) rows = Ok (map ?p rows)"
    by (rule map_res_all_Ok) (use assms(2) w padded_row_aligned in blast)
  have td: "pt_response_mask td = map (\<lambda>r. pr_mask r @ ?z r) rows" "pt_old_log_probs td = map (\<lambda>r. pr_logp r @ ?z r) rows"
    "pt_advantages td = map (\<lambda>r. pr_adv r @ ?z r) rows" "pt_max_response_len td = width"
    "pt_prompts td = map pr_prompt rows" "pt_responses td = map pr_response rows" "pt_input_ids td = map pr_full rows"
    "pt_batch td = length rows"
    using assms(1) p unfolding pack_policy_def Let_def width_def by (auto simp: comp_def)
  have "\<forall>xs \<in> set (pt_response_mask td) \<union> set (pt_old_log_probs td) \<union> set (pt_advantages td). length xs = pt_max_response_len td"
    using assms(2) w by (auto simp: td aligned_row_def Let_def)
  moreover have "(\<Sum>(w, l, a) \<leftarrow> zip (pt_response_mask td) (zip (pt_old_log_probs td) (pt_advantages td)). weighted f w l a) =
      (\<Sum>r \<leftarrow> rows. weighted f (pr_mask r @ ?z r) (pr_logp r @ ?z r) (pr_adv r @ ?z r))"
    unfolding td by (induction rows) simp_all
  moreover have "\<dots> = (\<Sum>r \<leftarrow> rows. row_loss f r)"
    by (rule arg_cong [where f = sum_list], rule map_cong [OF refl]) (use assms(2) padded_row_loss in blast)
  ultimately show ?thesis by (simp add: td)
qed

section \<open>Properties\<close>


text \<open>
  Lengths are not checked on this path: advantages that end one value into the response window are accepted, and
  that one value is broadcast over the whole response.
\<close>

theorem short_advantages_broadcast:
  assumes "policy_row_of d = Ok r" "first_positive (wire_mask d) = Some s" "length (wire_mask d) = length (dm_prefix d)"
    and "length (wire_vector ''logprobs'' d) = length (dm_prefix d)" "s + 2 \<le> length (dm_prefix d)"
    and "length (wire_vector ''advantages'' d) = Suc s" "\<not> dict_has ''rollout_is_weights'' (dm_inputs d)"
  shows "\<exists>td. datums_to_update_actor_td [d] 1 = Ok td \<and>
    pt_advantages td = [replicate (length (dm_prefix d) - s) (wire_vector ''advantages'' d ! s)]"
proof -
  define n where "n = length (dm_prefix d)"
  from assms(1) obtain s' where s': "first_positive (wire_mask d) = Some s'"
    "pr_mask r = window s' (length (wire_mask d) - s') (wire_mask d)"
    "pr_logp r = window s' (length (wire_mask d) - s') (wire_vector ''logprobs'' d)"
    "pr_adv r = window s' (length (wire_mask d) - s') (wire_vector ''advantages'' d)"
    "pr_response r = window (s' + 1) (length (wire_mask d) - s') (pr_full r)"
    "length (pr_full r) = Suc (length (dm_prefix d))"
    by (rule policy_row_of_Ok)
  have s: "s' = s" using s'(1) assms(2) by simp
  have isw: "pr_isw r = None"
    using assms(1,7) by (auto simp: policy_row_of_def Let_def http_422_def split: option.splits)
  have len: "length (pr_response r) = n - s" "length (pr_mask r) = n - s" "length (pr_logp r) = n - s"
    using s' assms(3-5) by (simp_all add: s n_def)
  have "drop s (wire_vector ''advantages'' d) = [wire_vector ''advantages'' d ! s]"
    using assms(6) by (simp add: Cons_nth_drop_Suc [symmetric])
  then have adv: "pr_adv r = [wire_vector ''advantages'' d ! s]"
    using s'(4) assms(3,5) by (simp add: s window_def)
  have f: "filler_rows (Suc 0) (Suc 0) = 0" by (simp add: filler_rows_def)
  have p: "padded_row (n - s) r = Ok (pr_mask r, pr_logp r, replicate (n - s) (wire_vector ''advantages'' d ! s))"
    using assms(5) by (simp add: padded_row_def assign_prefix_def len adv n_def Let_def)
  show ?thesis using assms(1) p isw
    by (simp add: datums_to_update_actor_td_def batch_rows_def f pack_policy_def len n_def [symmetric] Let_def)
qed

text \<open>
  \<open>/forward\<close> fails only on its input: when the engine returns one log-prob per input token, every request that
  packs gets an answer, and each datum gets the first values of its own row, one per target token, without
  the value that wraps around and without the filler rows.
\<close>

theorem forward_returns_own_row:
  assumes "\<forall>td. map length (engine td) = map length (ft_input_ids td)"
  shows "forward engine m ds =
    bind_res (datums_to_forward_td ds m) (\<lambda>td. Ok (map2 (\<lambda>lp d. take (length (dm_prefix d)) lp) (take (length ds) (engine td)) ds))"
proof (cases "datums_to_forward_td ds m")
  case (Inr td)
  obtain rows where rows: "map_res forward_row_of ds = Ok rows" and td: "td = pack_forward m rows"
    using Inr by (auto simp: datums_to_forward_td_def http_422_def split: if_splits)
  have len: "length rows = length ds" and row: "i < length ds \<Longrightarrow> forward_row_of (ds ! i) = Ok (rows ! i)" for i
    using rows unfolding map_res_Ok_nth by blast+
  have full: "length (fr_full (rows ! i)) = Suc (length (dm_prefix (ds ! i)))" if "i < length ds" for i
    using row [OF that] by (cases "rows ! i") (auto simp: forward_row_of_def)
  have e: "map length (engine td) = map length (ft_input_ids td)" using assms by blast
  have "length (engine td) = length (ft_input_ids td)" using arg_cong [OF e, of length] by simp
  then have el: "length (engine td) = length ds + filler_rows (length ds) m"
    by (simp add: td pack_forward_def Let_def len)
  have lp: "length (engine td ! i) = Suc (length (dm_prefix (ds ! i)))" if "i < length ds" for i
  proof -
    have "length (engine td ! i) = map length (engine td) ! i" using that el by simp
    also have "\<dots> = length (fr_full (rows ! i))" unfolding e using that len by (simp add: td pack_forward_def Let_def nth_append)
    finally show ?thesis using full [OF that] by simp
  qed
  let ?rows = "take (length ds) (engine td)"
  have "map_res forward_output (zip ?rows ds) = Ok (map2 (\<lambda>lp d. take (length (dm_prefix d)) lp) ?rows ds)"
    unfolding map_res_Ok_nth using lp el by (simp add: forward_output_def butlast_conv_take)
  then show ?thesis using Inr el by (simp add: forward_def)
qed (simp add: forward_def)

section \<open>Concrete requests\<close>

definition demo_datum :: "real list \<Rightarrow> datum" where
  "demo_datum adv = \<lparr>dm_prefix = [7, 8, 9], dm_inputs = [(''target_tokens'', wire [8, 9, 10]), (''logprobs'', wire [0, -1, -2]),
     (''advantages'', wire adv), (''response_mask'', wire [0, 1, 1])]\<rparr>"

lemma demo_vectors:
  "wire_vector ''advantages'' (demo_datum adv) = adv" "wire_vector ''logprobs'' (demo_datum adv) = [0, -1, -2]"
  "wire_mask (demo_datum adv) = [0, 1, 1]"
  by (simp_all add: wire_vector_def wire_mask_def response_mask_input_def vector_input_def tensor_input_def tensor_data_to_torch_def
      demo_datum_def wire_def dict_index_def)

lemma demo_policy_row:
  "policy_row_of (demo_datum adv) = Ok \<lparr>pr_full = [7, 8, 9, 10], pr_prompt = [7, 8], pr_response = [9, 10], pr_mask = [1, 1],
     pr_logp = [-1, -2], pr_adv = take 2 (drop 1 adv), pr_isw = None\<rparr>"
  by (simp add: policy_row_of_def vector_input_def tensor_input_def tensor_data_to_torch_def response_mask_input_def
      demo_datum_def wire_def dict_index_def last_token_def toward_zero_def window_def Let_def numeral_2_eq_2)

lemma demo_policy_td:
  "\<exists>td. datums_to_update_actor_td [demo_datum [0, 5, 6]] 2 = Ok td \<and> pt_advantages td = [[5, 6], [0, 0]]"
  by (simp add: datums_to_update_actor_td_def demo_policy_row batch_rows_def filler_rows_def filler_row_def zeros_def
      pack_policy_def padded_row_def assign_prefix_def Let_def numeral_2_eq_2)


theorem short_advantages_broadcast_witness:
  "\<exists>td. datums_to_update_actor_td [demo_datum [0, 5]] 1 = Ok td \<and> pt_advantages td = [[5, 5]]"
proof -
  have "length (dm_prefix (demo_datum [0, 5])) = 3" "\<not> dict_has ''rollout_is_weights'' (dm_inputs (demo_datum [0, 5]))"
    by (simp_all add: demo_datum_def)
  then show ?thesis using short_advantages_broadcast [OF demo_policy_row [of "[0, 5]"], of 1]
    by (simp add: demo_vectors numeral_2_eq_2)
qed

theorem forward_returns_own_row_witness:
  "forward (\<lambda>td. map (map (\<lambda>t. - real_of_int t)) (ft_input_ids td)) 2 [demo_datum []] = Ok [[-7, -8, -9]]"
proof -
  have e: "\<forall>td. map length ((\<lambda>td. map (map (\<lambda>t. - real_of_int t)) (ft_input_ids td)) td) = map length (ft_input_ids td)" by simp
  show ?thesis unfolding forward_returns_own_row [OF e]
    by (simp add: datums_to_forward_td_def forward_row_of_def pack_forward_def filler_rows_def demo_datum_def wire_def
        tensor_input_def tensor_data_to_torch_def dict_index_def numel_def last_token_def toward_zero_def Let_def)
qed

end
