(* ===== verification/LossSpec.thy ===== *)
theory LossSpec
  imports PolicyPacking
begin

text \<open>
  Which loss a request gets: \<open>normalize_tinker_loss_spec\<close> and the first half of \<open>forward_backward\<close>
  (\<open>verl_tinker/tinker_ops.py\<close>) choose the specification and the translator, \<open>make_branching_loss\<close>
  (\<open>backends/_loss.py\<close>) picks the loss from what the batch carries.
\<close>

section \<open>The specification\<close>

text \<open>A value of the client's \<open>loss_fn_config\<close>.\<close>

datatype config_value = IntValue int | FloatValue real | NotFinite | BoolValue bool | OtherValue

fun is_number :: "config_value \<Rightarrow> bool" where
  "is_number (IntValue _) \<longleftrightarrow> True"
| "is_number (FloatValue _) \<longleftrightarrow> True"
| "is_number NotFinite \<longleftrightarrow> True"
| "is_number _ \<longleftrightarrow> False"

fun as_float :: "config_value \<Rightarrow> real" where
  "as_float (IntValue i) = of_int i"
| "as_float (FloatValue x) = x"
| "as_float _ = 0"

definition supported_losses :: "string list" where
  "supported_losses = [''cross_entropy'', ''importance_sampling'', ''ppo'', ''cispo'', ''dro'', ''custom_from_config'']"

record loss_spec =
  ls_name :: string
  ls_clip_low :: "real option"
  ls_clip_high :: "real option"
  ls_dro_beta :: "real option"

definition plain_spec :: "string \<Rightarrow> loss_spec" where
  "plain_spec name = \<lparr>ls_name = name, ls_clip_low = None, ls_clip_high = None, ls_dro_beta = None\<rparr>"

definition config_float :: "string \<Rightarrow> real \<Rightarrow> (string, config_value) dict \<Rightarrow> real" where
  "config_float k v c = (case dict_get c k of Some x \<Rightarrow> as_float x | None \<Rightarrow> v)"

definition only_keys :: "string list \<Rightarrow> (string, config_value) dict \<Rightarrow> bool" where
  "only_keys ks c \<longleftrightarrow> (\<forall>k \<in> set (dict_keys c). k \<in> set ks)"

definition normalize_tinker_loss_spec :: "string \<Rightarrow> (string, config_value) dict \<Rightarrow> loss_spec result" where
  "normalize_tinker_loss_spec name c =
     (if name \<notin> set supported_losses then Err (ValueError ''Unsupported loss'')
      else if name = ''custom_from_config'' then Ok (plain_spec name)
      else if \<exists>v \<in> set (dict_values c). \<not> is_number v then Err (ValueError ''loss_fn_config values must be finite numbers'')
      else if NotFinite \<in> set (dict_values c) then Err (ValueError ''loss_fn_config values must be finite numbers'')
      else if name \<in> {''cross_entropy'', ''importance_sampling''} then
        (if c \<noteq> [] then Err (ValueError ''does not accept loss_fn_config'') else Ok (plain_spec name))
      else if name \<in> {''ppo'', ''cispo''} then
        (if \<not> only_keys [''clip_low_threshold'', ''clip_high_threshold''] c
         then Err (ValueError ''received unsupported config fields'')
         else let (dl, dh) = (if name = ''ppo'' then (8 / 10, 12 / 10) else (0, 4));
                  low = config_float ''clip_low_threshold'' dl c; high = config_float ''clip_high_threshold'' dh c in
           if \<not> (0 \<le> low \<and> low \<le> 1 \<and> 1 \<le> high)
           then Err (ValueError ''requires 0 <= clip_low_threshold <= 1 <= clip_high_threshold'')
           else Ok ((plain_spec name)\<lparr>ls_clip_low := Some (1 - low), ls_clip_high := Some (high - 1)\<rparr>))
      else if \<not> only_keys [''beta''] c then Err (ValueError ''received unsupported config fields'')
      else if \<not> dict_has ''beta'' c \<or> config_float ''beta'' 0 c \<le> 0 then Err (ValueError ''requires a positive beta'')
      else Ok ((plain_spec ''dro'')\<lparr>ls_dro_beta := Some (config_float ''beta'' 0 c)\<rparr>))"

section \<open>The batch of a request\<close>

datatype fb_batch = CrossEntropy ce_batch | Policy policy_td

text \<open>\<open>__loss_mode__\<close> and \<open>distillation_use_topk\<close> of a batch.\<close>

datatype loss_mode = PpoMode | SftMode | TopkMode

fun batch_mode :: "fb_batch \<Rightarrow> loss_mode" where
  "batch_mode (CrossEntropy (Plain _)) = SftMode"
| "batch_mode (CrossEntropy (TopK _)) = TopkMode"
| "batch_mode (Policy _) = PpoMode"

fun uses_topk :: "fb_batch \<Rightarrow> bool" where
  "uses_topk (CrossEntropy (TopK _)) \<longleftrightarrow> True"
| "uses_topk _ \<longleftrightarrow> False"

text \<open>\<open>forward_backward\<close> up to the call of the engine.\<close>

definition fb_request :: "string \<Rightarrow> (string, config_value) dict \<Rightarrow> datum list \<Rightarrow> nat \<Rightarrow> (fb_batch \<times> loss_spec) result" where
  "fb_request name c ds m =
     (case normalize_tinker_loss_spec name c of
        Err _ \<Rightarrow> http_422 ''invalid loss specification''
      | Ok spec \<Rightarrow>
          if name = ''cross_entropy'' then bind_res (datums_to_sft_td ds m) (\<lambda>b. Ok (CrossEntropy b, spec))
          else bind_res (datums_to_update_actor_td ds m) (\<lambda>b. Ok (Policy b, spec)))"

section \<open>The branching loss\<close>

record actor_config =
  ac_loss_mode :: string
  ac_dro_beta :: real
  ac_rollout_is :: "string option"
  ac_rollout_is_threshold :: real
  ac_rollout_is_batch_normalize :: bool
  ac_rollout_rs :: "string option"
  ac_rollout_rs_threshold :: "real option"
  ac_bypass_mode :: bool
  ac_loss_type :: string
  ac_loss_agg_mode :: string
  ac_entropy_coeff :: real
  ac_use_kl_loss :: bool
  ac_clip_ratio_low :: real
  ac_clip_ratio_high :: real
  ac_clip_ratio_c :: real
  ac_global_batch_info :: "(string, real) dict"

definition actor_config_for :: "actor_config \<Rightarrow> loss_spec \<Rightarrow> actor_config" where
  "actor_config_for cfg spec =
     (if ls_name spec = ''custom_from_config'' then cfg
      else let
        mode = (if ls_name spec = ''ppo'' then ''vanilla'' else if ls_name spec = ''importance_sampling'' then ''bypass_mode'' else ls_name spec);
        c1 = (if ls_name spec = ''importance_sampling''
              then cfg\<lparr>ac_rollout_is := Some ''token'', ac_rollout_is_threshold := 2, ac_rollout_is_batch_normalize := False,
                     ac_rollout_rs := None, ac_rollout_rs_threshold := None, ac_bypass_mode := True, ac_loss_type := ''reinforce''\<rparr>
              else cfg);
        c2 = c1\<lparr>ac_loss_mode := mode, ac_dro_beta := (case ls_dro_beta spec of Some b \<Rightarrow> b | None \<Rightarrow> ac_dro_beta cfg),
                ac_loss_agg_mode := ''token-sum'', ac_entropy_coeff := 0, ac_use_kl_loss := False, ac_global_batch_info := []\<rparr>;
        c3 = (if ls_name spec \<in> {''ppo'', ''cispo''}
              then c2\<lparr>ac_clip_ratio_low := the (ls_clip_low spec), ac_clip_ratio_high := the (ls_clip_high spec)\<rparr> else c2)
      in if ls_name spec = ''ppo'' then c3\<lparr>ac_clip_ratio_c := 10 ^ 9\<rparr> else c3)"

datatype loss_choice = LogitProcessor | SftLoss | TopkLoss | PpoLoss actor_config

text \<open>\<open>branching_loss\<close>: called with the student's logits inside the forward pass, or without for the final loss.\<close>

definition branching_loss :: "actor_config \<Rightarrow> bool \<Rightarrow> loss_mode \<Rightarrow> loss_spec option \<Rightarrow> loss_choice result" where
  "branching_loss cfg in_forward mode spec =
     (if in_forward then
        (if mode = TopkMode then Ok LogitProcessor else Err (AssertionError ''invoked as in-forward logit processor''))
      else case mode of
        SftMode \<Rightarrow> Ok SftLoss
      | TopkMode \<Rightarrow> Ok TopkLoss
      | PpoMode \<Rightarrow> (case spec of
          None \<Rightarrow> Err (RuntimeError ''missing normalized __tinker_loss_spec__ metadata'')
        | Some s \<Rightarrow> Ok (PpoLoss (actor_config_for cfg s))))"

section \<open>Typing of specifications and configurations\<close>

text \<open>The fields that each loss carries, and their ranges.\<close>

definition spec_typed :: "loss_spec \<Rightarrow> bool" where
  "spec_typed s \<longleftrightarrow> ls_name s \<in> set supported_losses \<and>
     (if ls_name s \<in> {''ppo'', ''cispo''}
      then (\<exists>l h. ls_clip_low s = Some l \<and> ls_clip_high s = Some h \<and> 0 \<le> l \<and> l \<le> 1 \<and> 0 \<le> h)
      else ls_clip_low s = None \<and> ls_clip_high s = None) \<and>
     (if ls_name s = ''dro'' then (\<exists>b. ls_dro_beta s = Some b \<and> 0 < b) else ls_dro_beta s = None)"

text \<open>The accepted specifications, loss by loss.\<close>

lemma normalize_custom: "normalize_tinker_loss_spec ''custom_from_config'' c = Ok (plain_spec ''custom_from_config'')"
  by (simp add: normalize_tinker_loss_spec_def supported_losses_def)

lemma normalize_plain:
  "name \<in> {''cross_entropy'', ''importance_sampling''} \<Longrightarrow> normalize_tinker_loss_spec name c = Ok spec \<Longrightarrow> spec = plain_spec name"
  by (elim insertE emptyE; hypsubst; simp add: normalize_tinker_loss_spec_def supported_losses_def split: if_splits)

lemma normalize_clip:
  assumes "name \<in> {''ppo'', ''cispo''}" "normalize_tinker_loss_spec name c = Ok spec"
  shows "let low = config_float ''clip_low_threshold'' (if name = ''ppo'' then 8 / 10 else 0) c;
             high = config_float ''clip_high_threshold'' (if name = ''ppo'' then 12 / 10 else 4) c in
    spec = (plain_spec name)\<lparr>ls_clip_low := Some (1 - low), ls_clip_high := Some (high - 1)\<rparr> \<and> 0 \<le> low \<and> low \<le> 1 \<and> 1 \<le> high"
  using assms by (elim insertE emptyE; hypsubst; simp add: normalize_tinker_loss_spec_def supported_losses_def Let_def split: if_splits)

lemma normalize_dro:
  "normalize_tinker_loss_spec ''dro'' c = Ok spec \<Longrightarrow>
   spec = (plain_spec ''dro'')\<lparr>ls_dro_beta := Some (config_float ''beta'' 0 c)\<rparr> \<and> 0 < config_float ''beta'' 0 c"
  by (simp add: normalize_tinker_loss_spec_def supported_losses_def split: if_splits)

lemma normalize_cases:
  assumes "normalize_tinker_loss_spec name c = Ok spec"
  obtains "name = ''custom_from_config''" | "name \<in> {''cross_entropy'', ''importance_sampling''}" | "name \<in> {''ppo'', ''cispo''}" | "name = ''dro''"
proof -
  have "name \<in> set supported_losses" using assms by (rule_tac ccontr) (simp add: normalize_tinker_loss_spec_def)
  then have "name = ''custom_from_config'' \<or> name \<in> {''cross_entropy'', ''importance_sampling''} \<or> name \<in> {''ppo'', ''cispo''} \<or> name = ''dro''"
    by (simp add: supported_losses_def) metis
  then show ?thesis using that by blast
qed

lemma normalize_typed:
  assumes "normalize_tinker_loss_spec name c = Ok spec"
  shows "spec_typed spec \<and> ls_name spec = name"
proof (cases rule: normalize_cases [OF assms])
  case 1
  then have "spec = plain_spec ''custom_from_config''" using assms normalize_custom [of c] by simp
  then show ?thesis using 1 by (simp add: plain_spec_def spec_typed_def supported_losses_def)
next
  case 2
  then have "spec = plain_spec name" using normalize_plain assms by blast
  then show ?thesis using 2 by (elim insertE emptyE; hypsubst; simp add: plain_spec_def spec_typed_def supported_losses_def)
next
  case 3
  note normalize_clip [OF 3 assms, unfolded Let_def]
  then show ?thesis using 3 by (elim insertE emptyE; hypsubst; simp add: plain_spec_def spec_typed_def supported_losses_def)
next
  case 4
  then show ?thesis using normalize_dro [of c spec] assms by (simp add: plain_spec_def spec_typed_def supported_losses_def)
qed

text \<open>What a policy loss is configured with.\<close>

lemma actor_config_sums:
  "ls_name s \<noteq> ''custom_from_config'' \<Longrightarrow> ac_loss_agg_mode (actor_config_for cfg s) = ''token-sum'' \<and>
   ac_entropy_coeff (actor_config_for cfg s) = 0 \<and> \<not> ac_use_kl_loss (actor_config_for cfg s)"
  by (simp add: actor_config_for_def Let_def)

lemma actor_config_clip:
  "ls_name s \<in> {''ppo'', ''cispo''} \<Longrightarrow> ac_clip_ratio_low (actor_config_for cfg s) = the (ls_clip_low s) \<and>
   ac_clip_ratio_high (actor_config_for cfg s) = the (ls_clip_high s)"
  by (elim insertE emptyE; simp add: actor_config_for_def Let_def)

lemma actor_config_dro: "ls_name s = ''dro'' \<Longrightarrow> ls_dro_beta s = Some b \<Longrightarrow> ac_dro_beta (actor_config_for cfg s) = b"
  by (simp add: actor_config_for_def Let_def)


definition demo_actor :: actor_config where
  "demo_actor = \<lparr>ac_loss_mode = ''vanilla'', ac_dro_beta = 1, ac_rollout_is = None, ac_rollout_is_threshold = 1,
     ac_rollout_is_batch_normalize = True, ac_rollout_rs = None, ac_rollout_rs_threshold = None, ac_bypass_mode = False,
     ac_loss_type = ''ppo_clip'', ac_loss_agg_mode = ''token-mean'', ac_entropy_coeff = 1, ac_use_kl_loss = True,
     ac_clip_ratio_low = 0, ac_clip_ratio_high = 0, ac_clip_ratio_c = 3,
     ac_global_batch_info = []\<rparr>"

lemma demo_fb_request: "\<exists>b spec. fb_request ''ppo'' [(''clip_low_threshold'', FloatValue (1 / 2))] [demo_datum [0, 5, 6]] 2 = Ok (b, spec)"
proof -
  obtain td where "datums_to_update_actor_td [demo_datum [0, 5, 6]] 2 = Ok td" using demo_policy_td by blast
  then show ?thesis
    by (simp add: fb_request_def normalize_tinker_loss_spec_def supported_losses_def only_keys_def config_float_def)
qed


end
