(* ===== verification/Advantage.thy ===== *)
theory Advantage
  imports Prelude Complex_Main
begin

text \<open>
  The advantage estimators of \<open>gvpo/gvpo_core_algos.py\<close>: what a batch of token rewards becomes before the
  policy loss. A tensor is a list of rows, one per response, of real numbers without rounding; the tensors
  of one call have the same shape, as the documentation of the functions says. An estimator returns the
  pair (advantages, returns); where both are the same tensor, the model returns it once.
  \<open>masked_whiten\<close> and \<open>group_mean_std\<close> are functions of verl, outside the repository, and are arguments.
\<close>

type_synonym row = "real list"
type_synonym matrix = "real list list"

text \<open>\<open>t.sum(dim=-1)\<close>, \<open>s.unsqueeze(-1) * mask\<close> and the element-wise operations on rows and tensors.\<close>

definition outcome_scores :: "matrix \<Rightarrow> real list" where
  "outcome_scores rewards = map sum_list rewards"

definition spread :: "real \<Rightarrow> row \<Rightarrow> row" where
  "spread c msk = map (\<lambda>m. c * m) msk"

definition per_token :: "real list \<Rightarrow> matrix \<Rightarrow> matrix" where
  "per_token scores msk = map2 spread scores msk"

definition row_times :: "row \<Rightarrow> row \<Rightarrow> row" where
  "row_times xs ys = map2 (*) xs ys"

definition mean :: "real list \<Rightarrow> real" where
  "mean xs = sum_list xs / real (length xs)"

text \<open>\<open>torch.std\<close>, with Bessel's correction.\<close>

definition std :: "real list \<Rightarrow> real" where
  "std xs = sqrt ((\<Sum>x \<leftarrow> xs. (x - mean xs)\<^sup>2) / real (length xs - 1))"

section \<open>Outcome estimators\<close>

text \<open>
  The loops that the outcome estimators share: \<open>id2score[index[i]].append(scores[i])\<close>, then one statistic
  per group, then every response against the statistic of its group.
\<close>

definition id2list :: "'i list \<Rightarrow> 'v list \<Rightarrow> ('i, 'v list) dict" where
  "id2list index vs = map (\<lambda>(k, ps). (k, map snd ps)) (group_by fst (zip index vs))"

definition by_group :: "('v list \<Rightarrow> 's result) \<Rightarrow> ('s \<Rightarrow> 'v \<Rightarrow> real) \<Rightarrow> 'i list \<Rightarrow> 'v list \<Rightarrow> real list result" where
  "by_group stat adv index vs =
     bind_res (map_res (\<lambda>(k, xs). bind_res (stat xs) (\<lambda>s. Ok (k, s))) (id2list index vs)) (\<lambda>table.
     map_res (\<lambda>(k, v). bind_res (dict_index k table) (\<lambda>s. Ok (adv s v))) (zip index vs))"

abbreviation no_score :: py_error where
  "no_score \<equiv> ValueError ''no score in prompt index''"

definition mean_std :: "real list \<Rightarrow> (real \<times> real) result" where
  "mean_std xs = (if length xs = 1 then Ok (0, 1) else if length xs > 1 then Ok (mean xs, std xs) else Err no_score)"

definition mean_only :: "real list \<Rightarrow> real result" where
  "mean_only xs = (if length xs = 1 then Ok 0 else if length xs > 1 then Ok (mean xs) else Err no_score)"

definition compute_grpo_outcome_advantage :: "matrix \<Rightarrow> matrix \<Rightarrow> 'i list \<Rightarrow> real \<Rightarrow> bool \<Rightarrow> matrix result" where
  "compute_grpo_outcome_advantage rewards msk index epsilon by_std =
     bind_res (by_group mean_std (\<lambda>(\<mu>, \<sigma>) s. if by_std then (s - \<mu>) / (\<sigma> + epsilon) else s - \<mu>) index (outcome_scores rewards))
       (\<lambda>scores. Ok (per_token scores msk))"

text \<open>\<open>gms scores index eps\<close> is, for each response, the mean and the deviation of its group.\<close>

definition compute_grpo_vectorized_outcome_advantage ::
    "(real list \<Rightarrow> 'i list \<Rightarrow> real \<Rightarrow> (real \<times> real) list) \<Rightarrow> matrix \<Rightarrow> matrix \<Rightarrow> 'i list \<Rightarrow> real \<Rightarrow> bool \<Rightarrow> matrix" where
  "compute_grpo_vectorized_outcome_advantage gms rewards msk index epsilon by_std =
     (let scores = outcome_scores rewards;
          scalars = map2 (\<lambda>s (\<mu>, \<sigma>). if by_std then (s - \<mu>) / (\<sigma> + epsilon) else s - \<mu>) scores (gms scores index epsilon)
      in per_token scalars msk)"

definition compute_reinforce_plus_plus_baseline_outcome_advantage ::
    "(matrix \<Rightarrow> matrix \<Rightarrow> matrix) \<Rightarrow> matrix \<Rightarrow> matrix \<Rightarrow> 'i list \<Rightarrow> matrix result" where
  "compute_reinforce_plus_plus_baseline_outcome_advantage whiten rewards msk index =
     bind_res (by_group mean_only (\<lambda>\<mu> s. s - \<mu>) index (outcome_scores rewards))
       (\<lambda>scores. Ok (map2 row_times (whiten (per_token scores msk) msk) msk))"

definition compute_rloo_outcome_advantage :: "matrix \<Rightarrow> matrix \<Rightarrow> 'i list \<Rightarrow> matrix result" where
  "compute_rloo_outcome_advantage rewards msk index =
     bind_res (by_group (\<lambda>xs. bind_res (mean_only xs) (\<lambda>\<mu>. Ok (\<mu>, real (length xs))))
         (\<lambda>(\<mu>, num) s. if num > 1 then s * num / (num - 1) - \<mu> * num / (num - 1) else s) index (outcome_scores rewards))
       (\<lambda>scores. Ok (per_token scores msk))"

text \<open>\<open>np.unique(index, return_inverse=True)[1]\<close> and \<open>torch.bincount\<close>, with weights or without.\<close>

definition unique_inverse :: "'i :: linorder list \<Rightarrow> nat list" where
  "unique_inverse index = (let u = sort (remdups index) in map (\<lambda>k. length (takeWhile (\<lambda>x. x \<noteq> k) u)) index)"

definition bincount :: "nat list \<Rightarrow> real list \<Rightarrow> real list" where
  "bincount slots weights =
     map (\<lambda>j. \<Sum>(i, w) \<leftarrow> zip slots weights. if i = j then w else 0) [0..<(if slots = [] then 0 else Suc (Max (set slots)))]"

definition compute_rloo_vectorized_outcome_advantage :: "matrix \<Rightarrow> matrix \<Rightarrow> 'i :: linorder list \<Rightarrow> matrix" where
  "compute_rloo_vectorized_outcome_advantage rewards msk index =
     (let scores = outcome_scores rewards; slots = unique_inverse index;
          c = map (\<lambda>i. bincount slots (map (\<lambda>_. 1) slots) ! i) slots;
          t = map (\<lambda>i. bincount slots scores ! i) slots;
          adv = map2 (\<lambda>(c, t) s. (c * s - t) / max (c - 1) 1 * (if c > 1 then 1 else 0)) (zip c t) scores
      in per_token adv msk)"

text \<open>The baseline of OPO weighs the scores of a group with the response lengths.\<close>

definition length_weighted :: "(real \<times> real) list \<Rightarrow> real result" where
  "length_weighted xs =
     (if length xs = 1 then Ok 0
      else if length xs > 1 then Ok ((\<Sum>(s, l) \<leftarrow> xs. l * s) / (\<Sum>(s, l) \<leftarrow> xs. l))
      else Err no_score)"

definition compute_opo_outcome_advantage :: "matrix \<Rightarrow> matrix \<Rightarrow> 'i list \<Rightarrow> matrix result" where
  "compute_opo_outcome_advantage rewards msk index =
     bind_res (by_group length_weighted (\<lambda>b (s, l). s - b) index (zip (outcome_scores rewards) (map sum_list msk)))
       (\<lambda>scores. Ok (per_token scores msk))"

definition compute_gpg_outcome_advantage :: "matrix \<Rightarrow> matrix \<Rightarrow> 'i list \<Rightarrow> real \<Rightarrow> matrix result" where
  "compute_gpg_outcome_advantage rewards msk index f_norm =
     (let scores = outcome_scores rewards;
          m = real (length (filter (\<lambda>s. s \<noteq> 0) scores));
          alpha = real (length scores) / max m 1
      in bind_res (by_group mean_std (\<lambda>(\<mu>, \<sigma>) s. alpha * (s - \<mu>) / f_norm) index scores)
           (\<lambda>scores'. Ok (per_token scores' msk)))"

text \<open>
  Pass@k: the best response of a group gets its lead over the second best. \<open>best2\<close> is \<open>torch.topk(rewards, 2)\<close>:
  the two largest values and the position of the largest.
\<close>

definition passk_group :: "(real list \<Rightarrow> real \<times> real \<times> nat) \<Rightarrow> real \<Rightarrow> bool \<Rightarrow> (nat \<times> real) list \<Rightarrow> real list \<Rightarrow> real list result" where
  "passk_group best2 epsilon by_std ps advs =
     (if length ps < 2 then Err (ValueError ''Pass@k requires at least 2 samples per group'')
      else let rewards = map snd ps; (r_max, r_second_max, first) = best2 rewards; i_max = fst (ps ! first);
               a = r_max - r_second_max
           in Ok (advs[i_max := if by_std then a / (std rewards + epsilon) else a]))"

fun passk_groups :: "(real list \<Rightarrow> real \<times> real \<times> nat) \<Rightarrow> real \<Rightarrow> bool \<Rightarrow> ('i \<times> (nat \<times> real) list) list \<Rightarrow> real list \<Rightarrow> real list result" where
  "passk_groups best2 epsilon by_std [] advs = Ok advs"
| "passk_groups best2 epsilon by_std ((k, ps) # gs) advs =
     bind_res (passk_group best2 epsilon by_std ps advs) (passk_groups best2 epsilon by_std gs)"

definition compute_grpo_passk_outcome_advantage ::
    "(real list \<Rightarrow> real \<times> real \<times> nat) \<Rightarrow> matrix \<Rightarrow> matrix \<Rightarrow> 'i list \<Rightarrow> real \<Rightarrow> bool \<Rightarrow> matrix result" where
  "compute_grpo_passk_outcome_advantage best2 rewards msk index epsilon by_std =
     (let scores = outcome_scores rewards; bsz = length scores
      in bind_res (passk_groups best2 epsilon by_std (id2list index (zip [0..<bsz] scores)) (replicate bsz 0))
           (\<lambda>advs. Ok (per_token advs msk)))"

section \<open>Estimators over the tokens\<close>

text \<open>The loop of GAE over one row, from the last token; it carries \<open>nextvalues\<close> and \<open>lastgaelam\<close>.\<close>

fun gae_row :: "real \<Rightarrow> real \<Rightarrow> (real \<times> real \<times> real) list \<Rightarrow> real list \<times> real \<times> real" where
  "gae_row \<gamma> lam [] = ([], 0, 0)"
| "gae_row \<gamma> lam ((r, v, m) # ts) =
     (let (advs, nextvalues, lastgaelam) = gae_row \<gamma> lam ts;
          delta = r + \<gamma> * nextvalues - v;
          gaelam = delta + \<gamma> * lam * lastgaelam;
          nextvalues' = v * m + (1 - m) * nextvalues;
          lastgaelam' = gaelam * m + (1 - m) * lastgaelam
      in (lastgaelam' # advs, nextvalues', lastgaelam'))"

definition gae_advantages :: "real \<Rightarrow> real \<Rightarrow> row \<Rightarrow> row \<Rightarrow> row \<Rightarrow> row" where
  "gae_advantages \<gamma> lam rewards vals msk = fst (gae_row \<gamma> lam (zip rewards (zip vals msk)))"

definition compute_gae_advantage_return ::
    "(matrix \<Rightarrow> matrix \<Rightarrow> matrix) \<Rightarrow> matrix \<Rightarrow> matrix \<Rightarrow> matrix \<Rightarrow> real \<Rightarrow> real \<Rightarrow> matrix \<times> matrix" where
  "compute_gae_advantage_return whiten rewards vals msk \<gamma> lam =
     (let advantages = map2 (\<lambda>r (v, m). gae_advantages \<gamma> lam r v m) rewards (zip vals msk);
          returns = map2 (map2 (+)) advantages vals
      in (whiten advantages msk, returns))"

fun running_returns :: "real \<Rightarrow> (real \<times> real) list \<Rightarrow> real list \<times> real" where
  "running_returns \<gamma> [] = ([], 0)"
| "running_returns \<gamma> ((r, m) # ts) =
     (let (returns, running) = running_returns \<gamma> ts; running' = r + \<gamma> * running
      in (running' # returns, running' * m))"

definition compute_reinforce_plus_plus_outcome_advantage ::
    "(matrix \<Rightarrow> matrix \<Rightarrow> matrix) \<Rightarrow> real \<Rightarrow> matrix \<Rightarrow> matrix \<Rightarrow> matrix \<times> matrix" where
  "compute_reinforce_plus_plus_outcome_advantage whiten \<gamma> rewards msk =
     (let returns = map2 (\<lambda>r m. fst (running_returns \<gamma> (zip r m))) rewards msk
      in (map2 row_times (whiten returns msk) msk, returns))"

text \<open>\<open>flip\<close>, \<open>cumsum\<close>, \<open>flip\<close>.\<close>

fun cumsum :: "real \<Rightarrow> real list \<Rightarrow> real list" where
  "cumsum acc [] = []"
| "cumsum acc (x # xs) = (acc + x) # cumsum (acc + x) xs"

definition compute_remax_outcome_advantage :: "matrix \<Rightarrow> real list \<Rightarrow> matrix \<Rightarrow> matrix \<times> matrix" where
  "compute_remax_outcome_advantage rewards baselines msk =
     (let returns = map2 (\<lambda>r m. rev (cumsum 0 (rev (row_times r m)))) rewards msk
      in (map2 (\<lambda>ret (b, m). map2 (-) ret (spread b m)) returns (zip baselines msk), returns))"

section \<open>The KL controllers\<close>

record adaptive_kl =
  kl_value :: real
  kl_target :: real
  kl_horizon :: real

datatype kl_controller = FixedKLController real | AdaptiveKLController adaptive_kl

definition np_clip :: "real \<Rightarrow> real \<Rightarrow> real \<Rightarrow> real" where
  "np_clip x lo hi = min (max x lo) hi"

definition adaptive_update :: "real \<Rightarrow> real \<Rightarrow> adaptive_kl \<Rightarrow> adaptive_kl result" where
  "adaptive_update current_kl n_steps c =
     (if kl_target c = 0 \<or> kl_horizon c = 0 then Err ZeroDivisionError
      else let proportional_error = np_clip (current_kl / kl_target c - 1) (- 0.2) 0.2;
               mult = 1 + proportional_error * n_steps / kl_horizon c
           in Ok (c\<lparr>kl_value := kl_value c * mult\<rparr>))"

fun kl_update :: "real \<Rightarrow> real \<Rightarrow> kl_controller \<Rightarrow> kl_controller result" where
  "kl_update current_kl n_steps (FixedKLController k) = Ok (FixedKLController k)"
| "kl_update current_kl n_steps (AdaptiveKLController c) =
     bind_res (adaptive_update current_kl n_steps c) (\<lambda>c'. Ok (AdaptiveKLController c'))"

definition get_kl_controller :: "string \<Rightarrow> real \<Rightarrow> real \<Rightarrow> real \<Rightarrow> kl_controller result" where
  "get_kl_controller type kl_coef target_kl horizon =
     (if type = ''fixed'' then Ok (FixedKLController kl_coef)
      else if type = ''adaptive''
      then (if horizon > 0 then Ok (AdaptiveKLController \<lparr>kl_value = kl_coef, kl_target = target_kl, kl_horizon = horizon\<rparr>)
            else Err (AssertionError ''horizon must be larger than 0''))
      else Err (NotImplementedError ''''))"

section \<open>What the loops over groups compute\<close>

text \<open>The values of the responses of group \<open>k\<close>, in order.\<close>

definition mates :: "'i \<Rightarrow> 'i list \<Rightarrow> 'v list \<Rightarrow> 'v list" where
  "mates k index vs = map snd (filter (\<lambda>p. fst p = k) (zip index vs))"

lemma mates_map: "mates k index (map f vs) = map f (mates k index vs)"
  by (simp add: mates_def zip_map2 filter_map o_def case_prod_beta)

lemma mates_zip_map: "mates k index (map (\<lambda>(i, v). f i v) (zip index vs)) = map (f k) (mates k index vs)"
proof (induction index arbitrary: vs)
  case (Cons i index)
  then show ?case by (cases vs) (auto simp: mates_def)
qed (simp add: mates_def)

lemma mates_nonempty: "(k, v) \<in> set (zip index vs) \<Longrightarrow> mates k index vs \<noteq> []"
  by (force simp: mates_def filter_empty_conv)

lemma id2list_get: "dict_get (id2list index vs) k = (if k \<in> fst ` set (zip index vs) then Some (mates k index vs) else None)"
  by (auto simp: id2list_def map_of_map group_by_get mates_def)

lemma id2list_ok: "dict_ok (id2list index vs)"
  using group_by_ok [of fst "zip index vs"] by (simp add: id2list_def dict_ok_def o_def case_prod_beta)

lemma id2list_nonempty: "(k, xs) \<in> set (id2list index vs) \<Longrightarrow> xs \<noteq> []"
proof -
  assume "(k, xs) \<in> set (id2list index vs)"
  then have "dict_get (id2list index vs) k = Some xs"
    using id2list_ok [of index vs] by (simp add: dict_ok_def)
  then show "xs \<noteq> []"
    by (force simp: id2list_get mates_def filter_empty_conv split: if_splits)
qed

lemma by_group_eq:
  assumes "\<And>xs. xs \<noteq> [] \<Longrightarrow> stat xs = Ok (st xs)"
  shows "by_group stat adv index vs = Ok (map (\<lambda>(k, v). adv (st (mates k index vs)) v) (zip index vs))"
proof -
  let ?t = "map (\<lambda>(k, xs). (k, st xs)) (id2list index vs)"
  have t: "map_res (\<lambda>(k, xs). bind_res (stat xs) (\<lambda>s. Ok (k, s))) (id2list index vs) = Ok ?t"
    by (rule map_res_all_Ok) (auto simp: assms id2list_nonempty)
  have "dict_index k ?t = Ok (st (mates k index vs))" if "(k, v) \<in> set (zip index vs)" for k v
    using that by (force simp: dict_index_Ok map_of_map id2list_get)
  then have "map_res (\<lambda>(k, v). bind_res (dict_index k ?t) (\<lambda>s. Ok (adv s v))) (zip index vs)
      = Ok (map (\<lambda>(k, v). adv (st (mates k index vs)) v) (zip index vs))"
    by (intro map_res_all_Ok) auto
  then show ?thesis by (simp add: by_group_def t)
qed

lemma mean_std_nonempty: "xs \<noteq> [] \<Longrightarrow> mean_std xs = Ok (if length xs = 1 then (0, 1) else (mean xs, std xs))"
  by (cases xs) (auto simp: mean_std_def)

lemma mean_only_nonempty: "xs \<noteq> [] \<Longrightarrow> mean_only xs = Ok (if length xs = 1 then 0 else mean xs)"
  by (cases xs) (auto simp: mean_only_def)

lemma length_outcome_scores [simp]: "length (outcome_scores rewards) = length rewards"
  by (simp add: outcome_scores_def)

lemma sum_deviations: "xs \<noteq> [] \<Longrightarrow> (\<Sum>x \<leftarrow> xs. x - mean xs) = 0"
  by (simp add: sum_list_subtractf mean_def sum_list_triv)

lemma mean_shift: "xs \<noteq> [] \<Longrightarrow> mean (map (\<lambda>x. x + c) xs) = mean xs + c"
  by (simp add: mean_def sum_list_addf sum_list_triv add_divide_distrib)

lemma std_shift: "xs \<noteq> [] \<Longrightarrow> std (map (\<lambda>x. x + c) xs) = std xs"
  by (simp add: std_def mean_shift o_def)

definition grpo_scalars :: "real \<Rightarrow> bool \<Rightarrow> 'i list \<Rightarrow> real list \<Rightarrow> real list" where
  "grpo_scalars epsilon by_std index scores = map (\<lambda>(k, s). let xs = mates k index scores;
     (\<mu>, \<sigma>) = (if length xs = 1 then (0, 1) else (mean xs, std xs))
   in if by_std then (s - \<mu>) / (\<sigma> + epsilon) else s - \<mu>) (zip index scores)"

lemma grpo_eq: "compute_grpo_outcome_advantage rewards msk index epsilon by_std =
    Ok (per_token (grpo_scalars epsilon by_std index (outcome_scores rewards)) msk)"
  by (simp add: compute_grpo_outcome_advantage_def by_group_eq [OF mean_std_nonempty] grpo_scalars_def Let_def case_prod_beta
      del: bind_res_Ok)

lemma grpo_centred:
  assumes "2 \<le> length (mates k index scores)"
  shows "sum_list (mates k index (grpo_scalars epsilon by_std index scores)) = 0"
proof -
  let ?xs = "mates k index scores"
  have ne: "?xs \<noteq> []" using assms by auto
  have "mates k index (grpo_scalars epsilon by_std index scores) =
      map (\<lambda>s. (s - mean ?xs) / (if by_std then std ?xs + epsilon else 1)) ?xs"
    unfolding grpo_scalars_def mates_zip_map using assms by (simp add: Let_def)
  then show ?thesis using sum_deviations [OF ne] 
    by (simp add: divide_inverse sum_list_mult_const)
qed

lemma grpo_shift:
  assumes "\<And>k. k \<in> set index \<Longrightarrow> 2 \<le> length (mates k index scores)"
  shows "grpo_scalars epsilon by_std index (map (\<lambda>(k, s). s + c k) (zip index scores)) = grpo_scalars epsilon by_std index scores"
proof -
  let ?s' = "map (\<lambda>(k, s). s + c k) (zip index scores)"
  have z: "zip index ?s' = map (\<lambda>(k, s). (k, s + c k)) (zip index scores)"
    by (induction index arbitrary: scores) (auto simp: zip_Cons1 split: list.splits)
  have m: "mates k index ?s' = map (\<lambda>s. s + c k) (mates k index scores)" for k by (rule mates_zip_map)
  have "mates k index scores \<noteq> []" "length (mates k index scores) \<noteq> 1" if "k \<in> set index" for k
    using assms [OF that] by auto
  then show ?thesis unfolding grpo_scalars_def z
    
    by (auto simp: m mean_shift std_shift Let_def dest: set_zip_leftD)
qed

section \<open>RLOO, looped and vectorised\<close>

lemma sort_position:
  assumes "distinct u" "k \<in> set u"
  shows "length (takeWhile (\<lambda>x. x \<noteq> k) u) < length u \<and> u ! length (takeWhile (\<lambda>x. x \<noteq> k) u) = k"
  using assms
proof (induction u)
  case (Cons a u)
  then show ?case by auto
qed simp

lemma unique_inverse_eq:
  assumes "i \<in> set index" "j \<in> set index"
  shows "length (takeWhile (\<lambda>x. x \<noteq> i) (sort (remdups index))) = length (takeWhile (\<lambda>x. x \<noteq> j) (sort (remdups index))) \<longleftrightarrow> i = j"
proof -
  have "distinct (sort (remdups index))" "set (sort (remdups index)) = set index" by simp_all
  then show ?thesis using assms sort_position by metis
qed

lemma bincount_nth:
  assumes "i \<in> set slots"
  shows "bincount slots weights ! i = (\<Sum>(j, w) \<leftarrow> zip slots weights. if j = i then w else 0)"
proof -
  have "i < Suc (Max (set slots))" using assms by (simp add: less_Suc_eq_le)
  moreover have "slots \<noteq> []" using assms by auto
  ultimately show ?thesis by (simp add: bincount_def del: upt_Suc)
qed

lemma sum_select: "(\<Sum>(j, w) \<leftarrow> zip index vs. if j = k then w else 0) = sum_list (mates k index vs :: real list)"
proof (induction index arbitrary: vs)
  case (Cons i index)
  then show ?case by (cases vs) (auto simp: mates_def)
qed (simp add: mates_def)

lemma bincount_group:
  assumes "k \<in> set index"
  shows "bincount (unique_inverse index) vs ! length (takeWhile (\<lambda>x. x \<noteq> k) (sort (remdups index))) = sum_list (mates k index vs)"
proof -
  let ?pos = "\<lambda>k. length (takeWhile (\<lambda>x. x \<noteq> k) (sort (remdups index)))"
  have "(\<Sum>(j, w) \<leftarrow> zip (map ?pos index) vs. if j = ?pos k then w else 0) = (\<Sum>(j, w) \<leftarrow> zip index vs. if j = k then w else 0)"
    unfolding zip_map1 map_map
    by (intro arg_cong [where f = sum_list] map_cong refl)
      (auto simp: unique_inverse_eq [OF _ assms] dest: set_zip_leftD)
  then show ?thesis
    using assms by (subst bincount_nth) (auto simp: unique_inverse_def Let_def sum_select)
qed

lemma sum_ones: "length vs = length index \<Longrightarrow> sum_list (mates k index (map (\<lambda>_. 1) index)) = real (length (mates k index vs))"
  by (induction index vs rule: list_induct2') (auto simp: mates_def)

lemma leave_one_out_scaled: "1 < n \<Longrightarrow> s * n / (n - 1) - t / n * n / (n - 1) = s - (t - s) / (n - 1)" for n :: real
  by (simp add: divide_simps) algebra

text \<open>What both compute: the score against the mean of the other responses of its group.\<close>

definition leave_one_out :: "real list \<Rightarrow> real \<Rightarrow> real" where
  "leave_one_out xs s = s - (sum_list xs - s) / real (length xs - 1)"

lemma rloo_eq: "compute_rloo_outcome_advantage rewards msk index =
    Ok (per_token (map (\<lambda>(k, s). let xs = mates k index (outcome_scores rewards)
      in if length xs = 1 then s else leave_one_out xs s) (zip index (outcome_scores rewards))) msk)"
proof -
  let ?sc = "outcome_scores rewards"
  let ?st = "\<lambda>xs. (if length xs = 1 then 0 else mean xs, real (length xs))"
  have st: "bind_res (mean_only xs) (\<lambda>\<mu>. Ok (\<mu>, real (length xs))) = Ok (?st xs)" if "xs \<noteq> []" for xs :: "real list"
    using that by (simp add: mean_only_nonempty del: bind_res_Ok)
  have "(case ?st (mates k index ?sc) of (\<mu>, num) \<Rightarrow> if num > 1 then s * num / (num - 1) - \<mu> * num / (num - 1) else s)
      = (let xs = mates k index ?sc in if length xs = 1 then s else leave_one_out xs s)" if "(k, s) \<in> set (zip index ?sc)" for k s
  proof (cases "length (mates k index ?sc) = 1")
    case False
    define n where "n = real (length (mates k index ?sc))"
    have "1 < length (mates k index ?sc)" using False mates_nonempty [OF that] by (cases "mates k index ?sc") auto
    then have n: "1 < n" "real (length (mates k index ?sc) - 1) = n - 1" by (simp_all add: n_def of_nat_diff)
    show ?thesis using False n leave_one_out_scaled [OF n(1), of s "sum_list (mates k index ?sc)"]
      by (simp add: leave_one_out_def mean_def Let_def flip: n_def)
  qed simp
  then show ?thesis
    by (simp add: compute_rloo_outcome_advantage_def by_group_eq [OF st] case_prod_beta del: bind_res_Ok cong: map_cong)
qed

lemma rloo_vectorized_eq:
  assumes "length index = length rewards"
  shows "compute_rloo_vectorized_outcome_advantage rewards msk index =
    per_token (map (\<lambda>(k, s). let xs = mates k index (outcome_scores rewards)
      in if length xs = 1 then 0 else leave_one_out xs s) (zip index (outcome_scores rewards))) msk"
proof -
  let ?sc = "outcome_scores rewards" and ?slots = "unique_inverse index"
  let ?c = "map (\<lambda>i. bincount ?slots (map (\<lambda>_. 1) ?slots) ! i) ?slots" and ?t = "map (\<lambda>i. bincount ?slots ?sc ! i) ?slots"
  have c: "?c = map (\<lambda>k. real (length (mates k index ?sc))) index" (is "_ = map ?n index")
    by (auto simp: unique_inverse_def [of index] Let_def bincount_group [unfolded unique_inverse_def Let_def] o_def
        sum_ones [of ?sc, simplified] assms sum_ones)
  have t: "?t = map (\<lambda>k. sum_list (mates k index ?sc)) index" (is "_ = map ?s index")
    by (auto simp: unique_inverse_def [of index] Let_def bincount_group [unfolded unique_inverse_def Let_def])
  have v: "(real (length xs) * s - sum_list xs) / max (real (length xs) - 1) 1 * (if real (length xs) > 1 then 1 else 0) =
      (if length xs = 1 then 0 else leave_one_out xs s)" if "xs \<noteq> []" for s xs
  proof (cases "length xs = 1")
    case False
    then have "1 < length xs" using that by (cases xs) auto
    then show ?thesis by (simp add: leave_one_out_def of_nat_diff divide_simps) (simp add: algebra_simps)
  qed simp
  have "(index ! i, ?sc ! i) \<in> set (zip index ?sc)" if "i < length rewards" for i
    unfolding in_set_zip using that assms by (intro exI [of _ i]) simp
  then have ne: "mates (index ! i) index ?sc \<noteq> []" if "i < length rewards" for i
    using mates_nonempty [of "index ! i" "?sc ! i" index ?sc] that by simp
  have "map2 (\<lambda>(c, t) s. (c * s - t) / max (c - 1) 1 * (if c > 1 then 1 else 0)) (zip (map ?n index) (map ?s index)) ?sc =
      map (\<lambda>(k, s). let xs = mates k index ?sc in if length xs = 1 then 0 else leave_one_out xs s) (zip index ?sc)"
    by (rule nth_equalityI) (simp_all add: assms Let_def v [OF ne, simplified])
  then show ?thesis unfolding compute_rloo_vectorized_outcome_advantage_def Let_def c t by simp
qed

section \<open>GAE\<close>

text \<open>The TD errors of a sequence of (reward, value) pairs, and the advantage as their discounted sum.\<close>

definition td_error :: "real \<Rightarrow> (real \<times> real) list \<Rightarrow> nat \<Rightarrow> real" where
  "td_error \<gamma> ts j = fst (ts ! j) + \<gamma> * (if Suc j < length ts then snd (ts ! Suc j) else 0) - snd (ts ! j)"

definition gae_closed :: "real \<Rightarrow> real \<Rightarrow> (real \<times> real) list \<Rightarrow> nat \<Rightarrow> real" where
  "gae_closed \<gamma> lam ts t = (\<Sum>j\<in>{t..<length ts}. (\<gamma> * lam) ^ (j - t) * td_error \<gamma> ts j)"

lemma td_error_Suc [simp]: "td_error \<gamma> (x # ts) (Suc j) = td_error \<gamma> ts j"
  by (simp add: td_error_def)

lemma gae_closed_Suc [simp]: "gae_closed \<gamma> lam (x # ts) (Suc t) = gae_closed \<gamma> lam ts t"
  by (simp add: gae_closed_def sum.shift_bounds_Suc_ivl del: sum.op_ivl_Suc)

lemma gae_closed_0: "gae_closed \<gamma> lam (x # ts) 0 = td_error \<gamma> (x # ts) 0 + \<gamma> * lam * gae_closed \<gamma> lam ts 0"
proof -
  have "gae_closed \<gamma> lam (x # ts) 0 = td_error \<gamma> (x # ts) 0 + (\<Sum>j\<in>{Suc 0..<Suc (length ts)}. (\<gamma> * lam) ^ j * td_error \<gamma> (x # ts) j)"
    by (simp add: gae_closed_def sum.atLeast_Suc_lessThan del: sum.op_ivl_Suc)
  also have "\<dots> = td_error \<gamma> (x # ts) 0 + (\<Sum>j\<in>{0..<length ts}. \<gamma> * lam * ((\<gamma> * lam) ^ j * td_error \<gamma> ts j))"
    by (simp add: sum.shift_bounds_Suc_ivl mult.assoc del: sum.op_ivl_Suc)
  finally show ?thesis by (simp add: gae_closed_def sum_distrib_left)
qed

text \<open>The (reward, value) pairs of the response tokens: those with mask 1.\<close>

definition response_tokens :: "(real \<times> real \<times> real) list \<Rightarrow> (real \<times> real) list" where
  "response_tokens ts = [(r, v). (r, v, m) \<leftarrow> ts, m = 1]"

lemma response_tokens_simps [simp]:
  "response_tokens [] = []"
  "response_tokens ((r, v, m) # ts) = (if m = 1 then (r, v) # response_tokens ts else response_tokens ts)"
  by (simp_all add: response_tokens_def)

lemma gae_row_compressed:
  assumes "snd ` snd ` set ts \<subseteq> {0, 1}"
  shows "let (advs, nextvalues, lastgaelam) = gae_row \<gamma> lam ts; c = response_tokens ts in
    length advs = length ts \<and>
    [a. (a, r, v, m) \<leftarrow> zip advs ts, m = 1] = map (gae_closed \<gamma> lam c) [0..<length c] \<and>
    nextvalues = (if c = [] then 0 else snd (hd c)) \<and> lastgaelam = gae_closed \<gamma> lam c 0"
  using assms
proof (induction ts)
  case Nil
  then show ?case by (simp add: gae_closed_def)
next
  case (Cons x ts)
  obtain r v m where x: "x = (r, v, m)" by (cases x)
  obtain advs nv lg where g: "gae_row \<gamma> lam ts = (advs, nv, lg)" by (cases "gae_row \<gamma> lam ts")
  let ?c = "response_tokens ts"
  have IH: "length advs = length ts" "[a. (a, r, v, m) \<leftarrow> zip advs ts, m = 1] = map (gae_closed \<gamma> lam ?c) [0..<length ?c]"
    "nv = (if ?c = [] then 0 else snd (hd ?c))" "lg = gae_closed \<gamma> lam ?c 0"
    using Cons g by (simp_all add: Let_def split: if_splits)
  have m: "m = 0 \<or> m = 1" using Cons.prems x by auto
  have "td_error \<gamma> ((r, v) # ?c) 0 = r + \<gamma> * nv - v" using IH(3) by (cases ?c) (auto simp: td_error_def)
  then have z: "gae_closed \<gamma> lam ((r, v) # ?c) 0 = r + \<gamma> * nv - v + \<gamma> * lam * lg" by (simp add: gae_closed_0 IH(4))
  show ?case
  proof (cases "m = 1")
    case True
    have "map (gae_closed \<gamma> lam ((r, v) # ?c)) [0..<Suc (length ?c)] =
        gae_closed \<gamma> lam ((r, v) # ?c) 0 # map (gae_closed \<gamma> lam ?c) [0..<length ?c]"
      by (simp add: upt_conv_Cons map_Suc_upt [symmetric] o_def del: upt_Suc)
    then show ?thesis using True IH(1,2) by (simp add: x g Let_def z del: upt_Suc)
  next
    case False
    then show ?thesis using m IH by (simp add: x g Let_def)
  qed
qed

text \<open>With \<open>\<lambda> = 1\<close> the sum of the TD errors telescopes to the discounted rewards.\<close>

lemma gae_telescopes: "t < length ts \<Longrightarrow>
    gae_closed \<gamma> 1 ts t + snd (ts ! t) = (\<Sum>j\<in>{t..<length ts}. \<gamma> ^ (j - t) * fst (ts ! j))"
proof (induction ts arbitrary: t)
  case (Cons x ts)
  have hd: "gae_closed \<gamma> 1 (x # ts) 0 + snd x = (\<Sum>j\<in>{0..<Suc (length ts)}. \<gamma> ^ j * fst ((x # ts) ! j))"
  proof (cases ts)
    case Nil
    then show ?thesis by (simp add: gae_closed_def td_error_def)
  next
    case (Cons y ys)
    have a: "(\<Sum>j\<in>{0..<length ts}. \<gamma> ^ j * fst (ts ! j)) = gae_closed \<gamma> 1 ts 0 + snd y"
      using Cons.IH [of 0] Cons by simp
    have b: "(\<Sum>j\<in>{0..<Suc (length ts)}. \<gamma> ^ j * fst ((x # ts) ! j)) = fst x + \<gamma> * (\<Sum>j\<in>{0..<length ts}. \<gamma> ^ j * fst (ts ! j))"
      by (simp add: sum.atLeast_Suc_lessThan sum.shift_bounds_Suc_ivl sum_distrib_left mult.assoc del: sum.op_ivl_Suc)
    have "gae_closed \<gamma> 1 (x # ts) 0 = fst x + \<gamma> * snd y - snd x + \<gamma> * gae_closed \<gamma> 1 ts 0"
      using Cons by (simp add: gae_closed_0 td_error_def)
    then show ?thesis unfolding b a by (simp add: distrib_left)
  qed
  show ?case
  proof (cases t)
    case (Suc u)
    then show ?thesis using Cons by (simp add: sum.shift_bounds_Suc_ivl del: sum.op_ivl_Suc)
  qed (use hd in simp)
qed simp

section \<open>Properties\<close>

text \<open>
  GRPO: in a group of two or more responses the advantages of the responses sum to zero, scaled by the
  deviation or not, and only differences within a group matter: rewards that are shifted by a constant per
  group get the same advantages.
\<close>

theorem grpo_centres_groups:
  assumes "length index = length rewards" "\<And>k. k \<in> set index \<Longrightarrow> 2 \<le> count_list index k"
    and "outcome_scores shifted = map (\<lambda>(k, s). s + c k) (zip index (outcome_scores rewards))"
  shows "\<exists>scores. compute_grpo_outcome_advantage rewards msk index epsilon by_std = Ok (per_token scores msk) \<and>
    length scores = length rewards \<and> (\<forall>k. sum_list (mates k index scores) = 0) \<and>
    compute_grpo_outcome_advantage shifted msk index epsilon by_std = compute_grpo_outcome_advantage rewards msk index epsilon by_std"
proof -
  let ?sc = "outcome_scores rewards"
  have n: "length (mates k index vs) = count_list index k" if "length vs = length index" for k and vs :: "real list"
    using that [symmetric] by (induction index vs rule: list_induct2) (auto simp: mates_def)
  have two: "2 \<le> length (mates k index ?sc)" if "k \<in> set index" for k using n assms(1,2) that by simp
  have "sum_list (mates k index (grpo_scalars epsilon by_std index ?sc)) = 0" for k
  proof (cases "k \<in> set index")
    case True then show ?thesis by (rule grpo_centred [OF two])
  next
    case False
    then have "mates k index (grpo_scalars epsilon by_std index ?sc) = []"
      by (auto simp: mates_def filter_empty_conv dest: set_zip_leftD)
    then show ?thesis by simp
  qed
  moreover have "length (grpo_scalars epsilon by_std index ?sc) = length rewards" using assms(1) by (simp add: grpo_scalars_def)
  moreover have "grpo_scalars epsilon by_std index (outcome_scores shifted) = grpo_scalars epsilon by_std index ?sc"
    unfolding assms(3) by (rule grpo_shift [OF two])
  ultimately show ?thesis by (auto simp: grpo_eq intro!: exI [of _ "grpo_scalars epsilon by_std index ?sc"])
qed

text \<open>
  C29. RLOO: the loop and the vectorised version give every response of a group of two or more its score minus the
  mean of the others. They part for a response that is alone in its group: the loop keeps its score, the
  vectorised version gives it no advantage.
\<close>

theorem rloo_versions_agree:
  assumes "length index = length rewards" "length msk = length rewards"
  shows "\<exists>adv. compute_rloo_outcome_advantage rewards msk index = Ok adv \<and>
    (\<forall>i < length rewards. let xs = mates (index ! i) index (outcome_scores rewards); s = sum_list (rewards ! i);
       vec = compute_rloo_vectorized_outcome_advantage rewards msk index ! i in
     if length xs = 1 then adv ! i = spread s (msk ! i) \<and> vec = spread 0 (msk ! i)
     else adv ! i = spread (s - (sum_list xs - s) / real (length xs - 1)) (msk ! i) \<and> vec = adv ! i)"
  using assms by (simp add: rloo_eq rloo_vectorized_eq per_token_def Let_def leave_one_out_def outcome_scores_def)

text \<open>
  C17. GAE on a row whose mask is 0 or 1 is GAE on the response tokens alone: at these tokens the loop gives the
  discounted sum of the TD errors of the sequence without the observation tokens, and with \<open>\<lambda> = 1\<close> the
  return, advantage plus value, is the discounted sum of the rewards from there on.
\<close>

theorem gae_skips_observations:
  assumes "length rewards = length msk" "length vals = length msk" "set msk \<subseteq> {0, 1}"
  shows "let c = response_tokens (zip rewards (zip vals msk));
      advs = [a. (a, m) \<leftarrow> zip (gae_advantages \<gamma> lam rewards vals msk) msk, m = 1] in
    length (gae_advantages \<gamma> lam rewards vals msk) = length msk \<and>
    advs = map (gae_closed \<gamma> lam c) [0..<length c] \<and>
    (lam = 1 \<longrightarrow> map2 (+) advs (map snd c) = map (\<lambda>t. \<Sum>j\<in>{t..<length c}. \<gamma> ^ (j - t) * fst (c ! j)) [0..<length c])"
proof -
  let ?ts = "zip rewards (zip vals msk)"
  let ?c = "response_tokens ?ts" and ?a = "gae_advantages \<gamma> lam rewards vals msk"
  have "snd ` snd ` set ?ts \<subseteq> {0, 1}" using assms(3) by (auto dest!: set_zip_rightD)
  from gae_row_compressed [where ts = ?ts and \<gamma> = \<gamma> and lam = lam, OF this]
  have l: "length ?a = length msk" and
    a: "[a. (a, r, v, m) \<leftarrow> zip ?a ?ts, m = 1] = map (gae_closed \<gamma> lam ?c) [0..<length ?c]"
    by (auto simp: gae_advantages_def Let_def assms split: prod.splits)
  have "[a. (a, r, v, m) \<leftarrow> zip xs (zip rewards (zip vals msk)), m = 1] = [a. (a, m) \<leftarrow> zip xs msk, m = 1]" for xs :: row
    using assms(1,2)
    by (induction msk arbitrary: xs rewards vals) (auto simp: length_Suc_conv zip_Cons1 zip_Cons split: list.splits)
  then have adv: "[a. (a, m) \<leftarrow> zip ?a msk, m = 1] = map (gae_closed \<gamma> lam ?c) [0..<length ?c]" using a by simp
  have "map2 (+) (map (gae_closed \<gamma> 1 ?c) [0..<length ?c]) (map snd ?c) =
      map (\<lambda>t. \<Sum>j\<in>{t..<length ?c}. \<gamma> ^ (j - t) * fst (?c ! j)) [0..<length ?c]"
    by (rule nth_equalityI) (simp_all add: gae_telescopes)
  then show ?thesis unfolding Let_def adv by (auto simp: l)
qed

theorem grpo_centres_groups_witness:
  "compute_grpo_outcome_advantage [[6], [8]] [[1], [1]] [7, 7 :: nat] (1 / 10) True =
     compute_grpo_outcome_advantage [[1], [3]] [[1], [1]] [7, 7 :: nat] (1 / 10) True"
proof -
  have "\<exists>scores. compute_grpo_outcome_advantage [[1], [3]] [[1], [1]] [7, 7 :: nat] (1 / 10) True = Ok (per_token scores [[1], [1]]) \<and>
    length scores = length [[1 :: real], [3]] \<and> (\<forall>k. sum_list (mates k [7, 7 :: nat] scores) = 0) \<and>
    compute_grpo_outcome_advantage [[6], [8]] [[1], [1]] [7, 7 :: nat] (1 / 10) True =
      compute_grpo_outcome_advantage [[1], [3]] [[1], [1]] [7, 7 :: nat] (1 / 10) True"
    by (rule grpo_centres_groups [where c = "\<lambda>_. 5"]) (auto simp: outcome_scores_def)
  then show ?thesis by blast
qed

theorem rloo_versions_agree_witness:
  "\<exists>adv. compute_rloo_outcome_advantage [[1], [3], [5]] [[1], [1], [1]] [7, 7, 8 :: nat] = Ok adv \<and>
    adv ! 0 = [- 2] \<and> compute_rloo_vectorized_outcome_advantage [[1], [3], [5]] [[1], [1], [1]] [7, 7, 8 :: nat] ! 0 = [- 2] \<and>
    adv ! 2 = [5] \<and> compute_rloo_vectorized_outcome_advantage [[1], [3], [5]] [[1], [1], [1]] [7, 7, 8 :: nat] ! 2 = [0]"
proof -
  have m: "mates 7 [7, 7, 8 :: nat] (outcome_scores [[1], [3], [5]]) = [1, 3]" "mates 8 [7, 7, 8 :: nat] (outcome_scores [[1], [3], [5]]) = [5]"
    by (simp_all add: mates_def outcome_scores_def)
  obtain adv where adv: "compute_rloo_outcome_advantage [[1], [3], [5]] [[1], [1], [1]] [7, 7, 8 :: nat] = Ok adv" and
    all: "\<forall>i < 3. let xs = mates ([7, 7, 8 :: nat] ! i) [7, 7, 8] (outcome_scores [[1], [3], [5]]); s = sum_list ([[1], [3], [5]] ! i);
       vec = compute_rloo_vectorized_outcome_advantage [[1], [3], [5]] [[1], [1], [1]] [7, 7, 8 :: nat] ! i in
     if length xs = 1 then adv ! i = spread s ([[1], [1], [1]] ! i) \<and> vec = spread 0 ([[1], [1], [1]] ! i)
     else adv ! i = spread (s - (sum_list xs - s) / real (length xs - 1)) ([[1], [1], [1]] ! i) \<and> vec = adv ! i"
    using rloo_versions_agree [of "[7, 7, 8 :: nat]" "[[1], [3], [5]]" "[[1], [1], [1]]"] by auto
  show ?thesis using adv all [rule_format, of 0] all [rule_format, of 2] by (auto simp: m spread_def Let_def)
qed

text \<open>Three tokens, the middle one an observation.\<close>

theorem gae_skips_observations_witness:
  "[a. (a, m) \<leftarrow> zip (gae_advantages 1 1 [1, 100, 3] [10, 50, 20] [1, 0, 1]) [1, 0, 1 :: real], m = 1] = [1 + 3 - 10, 3 - 20]"
proof -
  have c: "response_tokens (zip [1, 100, 3] (zip [10, 50, 20] [1, 0, 1])) = [(1, 10), (3, 20)]" by simp
  have "gae_closed 1 1 [(1, 10), (3, 20)] 0 = 1 + 3 - 10" "gae_closed 1 1 [(1, 10), (3, 20)] 1 = 3 - 20"
    by (simp_all add: gae_closed_def td_error_def)
  then show ?thesis
    using gae_skips_observations [of "[1, 100, 3]" "[1, 0, 1]" "[10, 50, 20]" 1 1] unfolding c by (simp add: Let_def)
qed

end
