(* ===== verification/PolicyLoss.thy ===== *)
theory PolicyLoss
  imports Advantage "HOL-Library.Multiset"
begin

text \<open>
  The policy losses of \<open>gvpo/gvpo_core_algos.py\<close>, on the tensors of the theory \<open>Advantage\<close>. A loss that divides by
  zero is not a number or infinite in the code; it is \<open>None\<close> here. \<open>masked_mean\<close> is a function of verl, outside
  the repository, and is the argument \<open>mm\<close>. Detaching a tensor does not change its value; gradients are not
  modelled.
\<close>

abbreviation clamp :: "real \<Rightarrow> real \<Rightarrow> real \<Rightarrow> real" where "clamp \<equiv> np_clip"

definition float_div :: "real \<Rightarrow> real \<Rightarrow> real option" where
  "float_div x y = (if y = 0 then None else Some (x / y))"

definition tensor_mean :: "real list \<Rightarrow> real option" where
  "tensor_mean xs = float_div (sum_list xs) (real (length xs))"

text \<open>A list of numbers is a number for further sums when all of them are.\<close>

definition all_numbers :: "'a option list \<Rightarrow> 'a list option" where
  "all_numbers xs = (if None \<in> set xs then None else Some (map the xs))"

definition mat2 :: "('a \<Rightarrow> 'b \<Rightarrow> 'c) \<Rightarrow> 'a list list \<Rightarrow> 'b list list \<Rightarrow> 'c list list" where
  "mat2 f a b = map2 (map2 f) a b"

definition flag :: "bool \<Rightarrow> real" where
  "flag b = (if b then 1 else 0)"

definition masked_sum :: "row \<Rightarrow> row \<Rightarrow> real" where
  "masked_sum xs m = sum_list (row_times xs m)"

definition agg_loss :: "(matrix \<Rightarrow> matrix \<Rightarrow> real) \<Rightarrow> matrix \<Rightarrow> matrix \<Rightarrow> string \<Rightarrow> real option result" where
  "agg_loss mm loss_mat loss_mask mode =
     (if mode = ''token-mean'' then Ok (Some (mm loss_mat loss_mask))
      else if mode = ''seq-mean-token-sum'' then Ok (tensor_mean (map2 masked_sum loss_mat loss_mask))
      else if mode = ''seq-mean-token-mean''
      then Ok (Option.bind (all_numbers (map2 (\<lambda>l m. float_div (masked_sum l m) (sum_list m)) loss_mat loss_mask)) tensor_mean)
      else if mode = ''seq-mean-token-sum-norm''
      then Ok (float_div (sum_list (map2 masked_sum loss_mat loss_mask)) (case loss_mask of [] \<Rightarrow> 0 | m # _ \<Rightarrow> real (length m)))
      else Err (ValueError ''Invalid loss_agg_mode''))"

section \<open>The clipped losses\<close>

text \<open>Loss, clip fraction, KL estimate, lower clip fraction.\<close>

type_synonym loss_report = "real option \<times> real \<times> real \<times> real"

text \<open>One token: \<open>pg_losses1\<close>, \<open>clip_pg_losses1\<close>, \<open>pg_losses3\<close>, and the loss.\<close>

definition pg_losses1 :: "real \<Rightarrow> real \<Rightarrow> real" where
  "pg_losses1 a ratio = - a * ratio"

definition pg_losses2 :: "real \<Rightarrow> real \<Rightarrow> real \<Rightarrow> real \<Rightarrow> real" where
  "pg_losses2 low high a ratio = - a * clamp ratio (1 - low) (1 + high)"

definition pg_losses :: "real \<Rightarrow> real \<Rightarrow> real \<Rightarrow> real \<Rightarrow> real \<Rightarrow> real" where
  "pg_losses low high c a ratio =
     (let clip_pg_losses1 = max (pg_losses1 a ratio) (pg_losses2 low high a ratio);
          pg_losses3 = - a * c;
          clip_pg_losses2 = min pg_losses3 clip_pg_losses1
      in if a < 0 then clip_pg_losses2 else clip_pg_losses1)"

definition clipped_report :: "(matrix \<Rightarrow> matrix \<Rightarrow> real) \<Rightarrow> matrix \<Rightarrow> matrix \<Rightarrow> matrix \<Rightarrow> matrix \<Rightarrow> real \<Rightarrow> real \<Rightarrow> real
    \<Rightarrow> matrix option \<Rightarrow> string \<Rightarrow> loss_report result" where
  "clipped_report mm old_log_prob log_prob advantages msk low high c weights mode =
     (let negative_approx_kl = mat2 (\<lambda>l o'. clamp (l - o') (- 20) 20) log_prob old_log_prob;
          ratio = map (map exp) negative_approx_kl;
          ppo_kl = mm (map (map uminus) negative_approx_kl) msk;
          pg_clipfrac = mm (mat2 (\<lambda>a r. flag (pg_losses2 low high a r > pg_losses1 a r)) advantages ratio) msk;
          pg_clipfrac_lower = mm (mat2 (\<lambda>a r. flag (max (pg_losses1 a r) (pg_losses2 low high a r) > - a * c) * flag (a < 0)) advantages ratio) msk;
          losses = mat2 (pg_losses low high c) advantages ratio;
          weighted = (case weights of None \<Rightarrow> losses | Some w \<Rightarrow> mat2 (*) losses w)
      in bind_res (agg_loss mm weighted msk mode) (\<lambda>pg_loss. Ok (pg_loss, pg_clipfrac, ppo_kl, pg_clipfrac_lower)))"

definition compute_policy_loss :: "(matrix \<Rightarrow> matrix \<Rightarrow> real) \<Rightarrow> matrix \<Rightarrow> matrix \<Rightarrow> matrix \<Rightarrow> matrix
    \<Rightarrow> real option \<Rightarrow> real option \<Rightarrow> real option \<Rightarrow> real \<Rightarrow> string \<Rightarrow> loss_report result" where
  "compute_policy_loss mm old_log_prob log_prob advantages msk cliprange cliprange_low cliprange_high clip_ratio_c mode =
     (if \<not> clip_ratio_c > 1 then Err (AssertionError ''clip_ratio_c'')
      else let low' = (case cliprange_low of None \<Rightarrow> cliprange | Some x \<Rightarrow> Some x);
               high' = (case cliprange_high of None \<Rightarrow> cliprange | Some x \<Rightarrow> Some x)
           in case (low', high') of
                (Some low, Some high) \<Rightarrow> clipped_report mm old_log_prob log_prob advantages msk low high clip_ratio_c None mode
              | _ \<Rightarrow> Err (TypeError ''unsupported operand type(s) for -''))"

text \<open>What a loss reads of its \<open>config\<close>; \<open>None\<close> for an attribute that is unset.\<close>

record clip_config =
  cc_clip_ratio :: real
  cc_clip_ratio_low :: "real option"
  cc_clip_ratio_high :: "real option"
  cc_clip_ratio_c :: "real option"

datatype loss_config = NoConfig | AlgoConfigArg | ActorConfigArg clip_config

definition low_of :: "clip_config \<Rightarrow> real" where
  "low_of cfg = (case cc_clip_ratio_low cfg of Some x \<Rightarrow> x | None \<Rightarrow> cc_clip_ratio cfg)"

definition high_of :: "clip_config \<Rightarrow> real" where
  "high_of cfg = (case cc_clip_ratio_high cfg of Some x \<Rightarrow> x | None \<Rightarrow> cc_clip_ratio cfg)"

fun compute_policy_loss_vanilla :: "(matrix \<Rightarrow> matrix \<Rightarrow> real) \<Rightarrow> matrix \<Rightarrow> matrix \<Rightarrow> matrix \<Rightarrow> matrix
    \<Rightarrow> string \<Rightarrow> loss_config \<Rightarrow> matrix option \<Rightarrow> loss_report result" where
  "compute_policy_loss_vanilla mm old_log_prob log_prob advantages msk mode NoConfig weights = Err (AssertionError '''')"
| "compute_policy_loss_vanilla mm old_log_prob log_prob advantages msk mode AlgoConfigArg weights = Err (AssertionError '''')"
| "compute_policy_loss_vanilla mm old_log_prob log_prob advantages msk mode (ActorConfigArg cfg) weights =
     (let clip_ratio_c = (case cc_clip_ratio_c cfg of Some c \<Rightarrow> c | None \<Rightarrow> 3)
      in if \<not> clip_ratio_c > 1 then Err (AssertionError ''clip_ratio_c'')
         else clipped_report mm old_log_prob log_prob advantages msk (low_of cfg) (high_of cfg) clip_ratio_c weights mode)"

text \<open>GSPO: one importance ratio per sequence; the losses are aggregated per sequence whatever mode is asked for.\<close>

definition gspo_log_ratio :: "row \<Rightarrow> row \<Rightarrow> row \<Rightarrow> row" where
  "gspo_log_ratio log_prob old_log_prob m =
     (let seq_length = max (sum_list m) 1;
          kl_seq = masked_sum (map2 (-) log_prob old_log_prob) m / seq_length
      in map (\<lambda>l. min (l - l + kl_seq) 10) log_prob)"

fun compute_policy_loss_gspo :: "(matrix \<Rightarrow> matrix \<Rightarrow> real) \<Rightarrow> matrix \<Rightarrow> matrix \<Rightarrow> matrix \<Rightarrow> matrix
    \<Rightarrow> string \<Rightarrow> loss_config \<Rightarrow> matrix option \<Rightarrow> loss_report result" where
  "compute_policy_loss_gspo mm old_log_prob log_prob advantages msk mode (ActorConfigArg cfg) weights =
     (let ratio = map (map exp) (map2 (\<lambda>l (o', m). gspo_log_ratio l o' m) log_prob (zip old_log_prob msk));
          l1 = mat2 pg_losses1 advantages ratio;
          l2 = mat2 (pg_losses2 (low_of cfg) (high_of cfg)) advantages ratio;
          losses = mat2 max l1 l2;
          weighted = (case weights of None \<Rightarrow> losses | Some w \<Rightarrow> mat2 (*) losses w)
      in bind_res (agg_loss mm weighted msk ''seq-mean-token-mean'') (\<lambda>pg_loss.
           Ok (pg_loss, mm (mat2 (\<lambda>x y. flag (y > x)) l1 l2) msk, mm (mat2 (\<lambda>l o'. - (l - o')) log_prob old_log_prob) msk, 0)))"
| "compute_policy_loss_gspo mm old_log_prob log_prob advantages msk mode _ weights = Err (AssertionError '''')"

definition compute_policy_loss_gpg :: "(matrix \<Rightarrow> matrix \<Rightarrow> real) \<Rightarrow> matrix \<Rightarrow> matrix \<Rightarrow> matrix \<Rightarrow> string \<Rightarrow> matrix option
    \<Rightarrow> loss_report result" where
  "compute_policy_loss_gpg mm log_prob advantages msk mode weights =
     (let losses = mat2 (\<lambda>l a. - l * a) log_prob advantages;
          weighted = (case weights of None \<Rightarrow> losses | Some w \<Rightarrow> mat2 (*) losses w)
      in bind_res (agg_loss mm weighted msk mode) (\<lambda>pg_loss. Ok (pg_loss, 0, 0, 0)))"

text \<open>GMPO: the ratio is the geometric mean over the tokens, each clipped on the pessimistic side.\<close>

definition geo_token :: "real \<Rightarrow> real \<Rightarrow> real \<Rightarrow> real \<Rightarrow> real" where
  "geo_token low high a kl = sgn a * min (sgn a * kl) (sgn a * clamp kl (- low) high)"

definition geo_row :: "real \<Rightarrow> real \<Rightarrow> row \<Rightarrow> row \<Rightarrow> row \<Rightarrow> real" where
  "geo_row low high kl adv m =
     (let n = sum_list m + 1 / 10 ^ 8;
          ratio = exp (masked_sum (map2 (geo_token low high) adv kl) m / n);
          advantage = masked_sum adv m / n
      in - advantage * ratio)"

fun compute_policy_loss_geo_mean :: "(matrix \<Rightarrow> matrix \<Rightarrow> real) \<Rightarrow> matrix \<Rightarrow> matrix \<Rightarrow> matrix \<Rightarrow> matrix
    \<Rightarrow> loss_config \<Rightarrow> matrix option \<Rightarrow> loss_report result" where
  "compute_policy_loss_geo_mean mm old_log_prob log_prob advantages msk (ActorConfigArg cfg) weights =
     (let kl = mat2 (-) log_prob old_log_prob;
          losses = map2 (\<lambda>k (a, m). geo_row (low_of cfg) (high_of cfg) k a m) kl (zip advantages msk);
          seq_weight = (\<lambda>w m. exp (masked_sum (map (\<lambda>x. ln (x + 1 / 10 ^ 10)) w) m / (sum_list m + 1 / 10 ^ 8)));
          weighted = (case weights of None \<Rightarrow> losses | Some w \<Rightarrow> map2 (*) losses (map2 seq_weight w msk));
          clipped = map (map (\<lambda>k. k \<noteq> clamp k (- low_of cfg) (high_of cfg))) kl
      in Ok (tensor_mean weighted, mm (mat2 (\<lambda>c a. flag (c \<and> a > 0)) clipped advantages) msk, mm (map (map uminus) kl) msk,
             mm (mat2 (\<lambda>c a. flag (c \<and> a < 0)) clipped advantages) msk))"
| "compute_policy_loss_geo_mean mm old_log_prob log_prob advantages msk _ weights = Err (AssertionError '''')"

section \<open>Clip-Cov\<close>

record cov_config =
  cv_clip :: clip_config
  cv_ratio :: "real option"
  cv_ub :: "real option"
  cv_lb :: "real option"

text \<open>
  The tokens of the tensor in row-major order, as positions with what belongs to them: mask, advantage, log-prob
  and ratio. \<open>torch.nonzero\<close> lists positions in this order.
\<close>

record cov_token =
  ct_at :: "nat \<times> nat"
  ct_mask :: real
  ct_adv :: real
  ct_logp :: real
  ct_ratio :: real

definition cov_tokens :: "matrix \<Rightarrow> matrix \<Rightarrow> matrix \<Rightarrow> matrix \<Rightarrow> cov_token list" where
  "cov_tokens old_log_prob log_prob advantages msk =
     concat (map (\<lambda>i. map (\<lambda>j. \<lparr>ct_at = (i, j), ct_mask = msk ! i ! j, ct_adv = advantages ! i ! j, ct_logp = log_prob ! i ! j,
       ct_ratio = exp (log_prob ! i ! j - old_log_prob ! i ! j)\<rparr>) [0..<length (msk ! i)]) [0..<length msk])"

text \<open>\<open>cov_all\<close>: \<open>None\<close> is minus infinity.\<close>

definition token_cov :: "real \<Rightarrow> real \<Rightarrow> real \<Rightarrow> real \<Rightarrow> cov_token \<Rightarrow> real option" where
  "token_cov low high mean_adv mean_logp t =
     (if ct_mask t = 0 \<or> (pg_losses2 low high (ct_adv t) (ct_ratio t) > pg_losses1 (ct_adv t) (ct_ratio t) \<and> ct_mask t > 0) then None
      else Some ((ct_adv t - mean_adv) * (ct_logp t - mean_logp)))"

definition in_band :: "real \<Rightarrow> real \<Rightarrow> real option \<Rightarrow> bool" where
  "in_band lb ub c = (case c of None \<Rightarrow> False | Some x \<Rightarrow> x < ub \<and> x > lb)"

definition or_default :: "real \<Rightarrow> real option \<Rightarrow> real" where
  "or_default d x = (case x of Some y \<Rightarrow> y | None \<Rightarrow> d)"

text \<open>The positions whose loss is dropped; \<open>perm n\<close> is \<open>torch.randperm(n)\<close>.\<close>

definition cov_dropped :: "(nat \<Rightarrow> nat list) \<Rightarrow> real \<Rightarrow> (cov_token \<Rightarrow> bool) \<Rightarrow> cov_token list \<Rightarrow> (nat \<times> nat) list" where
  "cov_dropped perm ratio cand ts =
     (let clip_num = max \<lfloor>ratio * sum_list (map ct_mask ts)\<rfloor> 1;
          top = map ct_at (filter cand ts)
      in if top \<noteq> [] then map (\<lambda>i. top ! i) (take (nat (min clip_num (int (length top)))) (perm (length top))) else [])"

definition compute_policy_loss_clip_cov :: "(matrix \<Rightarrow> matrix \<Rightarrow> real) \<Rightarrow> (nat \<Rightarrow> nat list) \<Rightarrow> matrix \<Rightarrow> matrix \<Rightarrow> matrix \<Rightarrow> matrix
    \<Rightarrow> string \<Rightarrow> cov_config \<Rightarrow> matrix option \<Rightarrow> loss_report result" where
  "compute_policy_loss_clip_cov mm perm old_log_prob log_prob advantages msk mode cfg weights =
     (let ratio = or_default (2 / 10000) (cv_ratio cfg); ub = or_default 5 (cv_ub cfg); lb = or_default 1 (cv_lb cfg);
          low = low_of (cv_clip cfg); high = high_of (cv_clip cfg)
      in if \<not> ratio > 0 then Err (AssertionError ''clip_ratio should be larger than 0.'')
         else let ts = cov_tokens old_log_prob log_prob advantages msk;
                  cand = (\<lambda>t. in_band lb ub (token_cov low high (mm advantages msk) (mm log_prob msk) t) \<and> ct_mask t > 0);
                  dropped = cov_dropped perm ratio cand ts;
                  at_all = (\<lambda>f. map (\<lambda>i. map (\<lambda>j. f i j) [0..<length (msk ! i)]) [0..<length msk]);
                  corr = at_all (\<lambda>i j. flag ((i, j) \<notin> set dropped));
                  kl = mat2 (-) log_prob old_log_prob;
                  losses = mat2 (\<lambda>a r. max (pg_losses1 a r) (pg_losses2 low high a r)) advantages (map (map exp) kl);
                  corrected = mat2 (*) losses corr;
                  weighted = (case weights of None \<Rightarrow> corrected | Some w \<Rightarrow> mat2 (*) corrected w)
              in bind_res (agg_loss mm weighted msk mode) (\<lambda>pg_loss.
                   Ok (pg_loss, mm (map (map (\<lambda>c. flag (c = 0))) corr) msk, mm (map (map uminus) kl) msk, 0)))"

section \<open>Value loss and KL penalties\<close>

text \<open>\<open>clip_by_value x lo hi\<close> is verl's, on numbers.\<close>

definition compute_value_loss :: "(matrix \<Rightarrow> matrix \<Rightarrow> real) \<Rightarrow> (real \<Rightarrow> real \<Rightarrow> real \<Rightarrow> real) \<Rightarrow> matrix \<Rightarrow> matrix \<Rightarrow> matrix \<Rightarrow> matrix
    \<Rightarrow> real \<Rightarrow> string \<Rightarrow> (real option \<times> real) result" where
  "compute_value_loss mm clip_by_value vpreds returns vals msk cliprange_value mode =
     (let vpredclipped = mat2 (\<lambda>p v. clip_by_value p (v - cliprange_value) (v + cliprange_value)) vpreds vals;
          vf_losses1 = mat2 (\<lambda>p r. (p - r)\<^sup>2) vpreds returns;
          vf_losses2 = mat2 (\<lambda>p r. (p - r)\<^sup>2) vpredclipped returns
      in bind_res (agg_loss mm (mat2 max vf_losses1 vf_losses2) msk mode) (\<lambda>loss.
           Ok (map_option (\<lambda>l. l / 2) loss, mm (mat2 (\<lambda>a b. flag (b > a)) vf_losses1 vf_losses2) msk)))"

definition compute_rewards :: "matrix \<Rightarrow> matrix \<Rightarrow> matrix \<Rightarrow> real \<Rightarrow> matrix" where
  "compute_rewards token_level_scores old_log_prob ref_log_prob kl_ratio =
     mat2 (\<lambda>s kl. s - kl * kl_ratio) token_level_scores (mat2 (-) old_log_prob ref_log_prob)"

text \<open>On one token; the code does the same on every element.\<close>

definition kl_penalty_forward :: "string \<Rightarrow> real \<Rightarrow> real \<Rightarrow> real result" where
  "kl_penalty_forward penalty logprob ref_logprob =
     (if penalty \<in> {''kl'', ''k1''} then Ok (logprob - ref_logprob)
      else if penalty = ''abs'' then Ok \<bar>logprob - ref_logprob\<bar>
      else if penalty \<in> {''mse'', ''k2''} then Ok (1 / 2 * (logprob - ref_logprob)\<^sup>2)
      else if penalty \<in> {''low_var_kl'', ''k3''}
      then (let kl = clamp (ref_logprob - logprob) (- 20) 20; ratio = exp kl; kld = ratio - kl - 1 in Ok (clamp kld (- 10) 10))
      else Err (NotImplementedError ''''))"

definition ends_with_plus :: "string \<Rightarrow> bool" where
  "ends_with_plus s \<longleftrightarrow> s \<noteq> [] \<and> last s = CHR ''+''"

definition kl_penalty :: "string \<Rightarrow> real \<Rightarrow> real \<Rightarrow> real result" where
  "kl_penalty penalty logprob ref_logprob =
     bind_res (kl_penalty_forward penalty logprob ref_logprob) (\<lambda>forward_score.
       if \<not> ends_with_plus penalty \<or> penalty \<in> {''mse'', ''k2''} then Ok forward_score
       else let backward_score = 1 / 2 * (logprob - ref_logprob)\<^sup>2 in Ok (backward_score - backward_score + forward_score))"

section \<open>GVPO\<close>

text \<open>
  One rank of the data-parallel group: the rows it holds. \<open>gathered\<close> is what \<open>allgather_dict_tensors\<close> returns, the
  \<open>uid\<close> and \<open>rtheta\<close> of all ranks, in the order of the ranks.
\<close>

record gvpo_row =
  gv_old :: row
  gv_logp :: row
  gv_adv :: row
  gv_mask :: row
  gv_uid :: int

definition rtheta_of :: "real \<Rightarrow> gvpo_row \<Rightarrow> real" where
  "rtheta_of beta r = (masked_sum (gv_logp r) (gv_mask r) - masked_sum (gv_old r) (gv_mask r)) * beta"

definition r_minus_avg_of :: "gvpo_row \<Rightarrow> real option" where
  "r_minus_avg_of r = float_div (masked_sum (gv_adv r) (gv_mask r)) (sum_list (gv_mask r))"

definition group_means :: "nat \<Rightarrow> (int \<times> real) list \<Rightarrow> (int, real) dict result" where
  "group_means n gathered =
     map_res (\<lambda>u. let xs = map snd (filter (\<lambda>p. fst p = u) gathered)
       in if length xs = n then Ok (u, mean xs) else Err (AssertionError '''')) (sort (remdups (map fst gathered)))"

definition compute_policy_loss_gvpo :: "nat \<Rightarrow> real \<Rightarrow> (int \<times> real) list \<Rightarrow> gvpo_row list \<Rightarrow> real option result" where
  "compute_policy_loss_gvpo n beta gathered rows =
     bind_res (group_means n gathered) (\<lambda>means.
     bind_res (map_res (\<lambda>r. bind_res (dict_index (gv_uid r) means) (\<lambda>\<mu>.
         Ok (map_option (\<lambda>avg. 1 / 2 * ((rtheta_of beta r - \<mu>) - avg)\<^sup>2) (r_minus_avg_of r)))) rows) (\<lambda>terms.
     if rows = [] \<and> n = 1 then Err ZeroDivisionError
     else Ok (Option.bind (all_numbers terms) (\<lambda>ts. float_div (sum_list ts) (real n - 1)))))"

text \<open>All ranks at once.\<close>

definition gather :: "real \<Rightarrow> gvpo_row list list \<Rightarrow> (int \<times> real) list" where
  "gather beta ranks = map (\<lambda>r. (gv_uid r, rtheta_of beta r)) (concat ranks)"

definition gvpo_ranks :: "nat \<Rightarrow> real \<Rightarrow> gvpo_row list list \<Rightarrow> real option result list" where
  "gvpo_ranks n beta ranks = map (compute_policy_loss_gvpo n beta (gather beta ranks)) ranks"

section \<open>Properties\<close>

text \<open>The PPO objective of a token with dual clipping, as the papers state it.\<close>

definition ppo_objective :: "real \<Rightarrow> real \<Rightarrow> real \<Rightarrow> real \<Rightarrow> real \<Rightarrow> real" where
  "ppo_objective low high c a ratio =
     (if a < 0 then a * min c (max ratio (1 - low)) else a * min ratio (1 + high))"

lemma scaled_max_min:
  fixes a x y :: real
  shows "a < 0 \<Longrightarrow> max (- a * x) (- a * y) = - a * max x y" "a < 0 \<Longrightarrow> min (- a * x) (- a * y) = - a * min x y"
    "0 \<le> a \<Longrightarrow> max (- a * x) (- a * y) = - a * min x y"
  by (auto simp: max_def min_def mult_le_cancel_left)

lemma pg_losses_objective:
  assumes "0 \<le> low" "0 \<le> high"
  shows "pg_losses low high c a ratio = - ppo_objective low high c a ratio"
proof -
  have "max ratio (clamp ratio (1 - low) (1 + high)) = max ratio (1 - low)"
    "min ratio (clamp ratio (1 - low) (1 + high)) = min ratio (1 + high)"
    using assms by (auto simp: np_clip_def)
  then show ?thesis
    by (cases "a < 0")
      (simp_all add: pg_losses_def Let_def pg_losses1_def pg_losses2_def ppo_objective_def scaled_max_min not_less del: mult_minus_left)
qed


lemma ppo_objective_pessimistic: "0 \<le> low \<Longrightarrow> 0 \<le> high \<Longrightarrow> ratio \<le> c \<Longrightarrow> ppo_objective low high c a ratio \<le> a * ratio"
  by (auto simp: ppo_objective_def mult_le_cancel_left)


lemma ex_if_Ok: "(\<exists>x. (if b then Ok v else r) = Ok x) \<longleftrightarrow> b \<or> (\<exists>x. r = Ok x)"
  by auto

lemma k3_bounds:
  fixes k :: real
  shows "0 \<le> clamp (exp k - k - 1) (- 10) 10" "clamp (exp k - k - 1) (- 10) 10 \<le> 10"
  using exp_ge_add_one_self [of k] unfolding np_clip_def by linarith+

text \<open>
  C39. The KL penalties: only seven names are accepted. Apart from \<open>kl\<close> they are never negative, and \<open>k3\<close> stays
  within 10. Every name that ends with a plus raises, because the plus is still on it when the estimate is
  computed: the straight-through variants that the documentation describes cannot be reached.
\<close>

theorem kl_plus_always_raises:
  "((\<exists>x. kl_penalty p logprob ref_logprob = Ok x) \<longleftrightarrow> p \<in> {''kl'', ''k1'', ''abs'', ''mse'', ''k2'', ''low_var_kl'', ''k3''}) \<and>
   (ends_with_plus p \<longrightarrow> kl_penalty p logprob ref_logprob = Err (NotImplementedError '''')) \<and>
   (\<forall>x. kl_penalty p logprob ref_logprob = Ok x \<longrightarrow> p \<notin> {''kl'', ''k1''} \<longrightarrow> 0 \<le> x \<and> (p \<in> {''low_var_kl'', ''k3''} \<longrightarrow> x \<le> 10))"
proof -
  let ?A = "{''kl'', ''k1''}" and ?C = "{''mse'', ''k2''}" and ?D = "{''low_var_kl'', ''k3''}" and ?f = "kl_penalty_forward p logprob ref_logprob"
  let ?names = "{''kl'', ''k1'', ''abs'', ''mse'', ''k2'', ''low_var_kl'', ''k3''}"
  let ?k = "clamp (ref_logprob - logprob) (- 20) 20"
  have names: "p \<in> ?names \<longleftrightarrow> p \<in> ?A \<or> p = ''abs'' \<or> p \<in> ?C \<or> p \<in> ?D"
    by (simp only: insert_iff empty_iff simp_thms disj_assoc)
  have f: "?f = (if p \<in> ?A then Ok (logprob - ref_logprob) else if p = ''abs'' then Ok \<bar>logprob - ref_logprob\<bar>
      else if p \<in> ?C then Ok ((logprob - ref_logprob)\<^sup>2 / 2)
      else if p \<in> ?D then Ok (clamp (exp ?k - ?k - 1) (- 10) 10) else Err (NotImplementedError ''''))"
    unfolding kl_penalty_forward_def Let_def by (simp only: mult.left_neutral times_divide_eq_left)
  have iff: "(\<exists>x. ?f = Ok x) \<longleftrightarrow> p \<in> ?names"
    unfolding names f by (simp only: ex_if_Ok sum.distinct simp_thms)
  have plus: "p \<notin> ?names" if "ends_with_plus p"
  proof
    assume "p \<in> ?names"
    then show False using that by (elim insertE) (simp_all add: ends_with_plus_def)
  qed
  have err: "?f = Err (NotImplementedError '''')" if "p \<notin> ?names" using that unfolding names f by (simp del: insert_iff)
  have "kl_penalty p logprob ref_logprob = ?f"
  proof (cases "ends_with_plus p")
    case True
    show ?thesis unfolding kl_penalty_def err [OF plus [OF True]] by simp
  next
    case False
    then show ?thesis unfolding kl_penalty_def by (cases ?f) (simp_all del: insert_iff)
  qed
  moreover have "ends_with_plus p \<longrightarrow> ?f = Err (NotImplementedError '''')" by (intro impI err plus)
  moreover have "\<forall>x. ?f = Ok x \<longrightarrow> p \<notin> ?A \<longrightarrow> 0 \<le> x \<and> (p \<in> ?D \<longrightarrow> x \<le> 10)"
  proof (intro allI impI)
    fix x
    assume x: "?f = Ok x" and A: "p \<notin> ?A"
    show "0 \<le> x \<and> (p \<in> ?D \<longrightarrow> x \<le> 10)"
    proof (cases "p = ''abs''")
      case True
      then have "x = \<bar>logprob - ref_logprob\<bar>" using x A unfolding f by (simp only: if_True if_False sum.inject simp_thms)
      then show ?thesis using True by simp
    next
      case nabs: False
      show ?thesis
      proof (cases "p \<in> ?C")
        case True
        then have "(logprob - ref_logprob)\<^sup>2 / 2 = x" using x A nabs unfolding f by (simp only: if_True if_False sum.inject simp_thms)
        from this [symmetric] have "0 \<le> x" by (simp only: zero_le_power2 divide_nonneg_nonneg zero_le_numeral)
        moreover have "p \<notin> ?D" using True by (elim insertE) simp_all
        ultimately show ?thesis by simp
      next
        case False
        then have "x = clamp (exp ?k - ?k - 1) (- 10) 10"
          using x A nabs unfolding f by (cases "p \<in> ?D") (simp_all only: if_True if_False sum.inject sum.distinct simp_thms)
        then show ?thesis using k3_bounds [of ?k] by (simp only: simp_thms)
      qed
    qed
  qed
  ultimately show ?thesis using iff by (simp del: insert_iff)
qed

lemma gvpo_means:
  assumes "\<And>u. u \<in> fst ` set gathered \<Longrightarrow> length (filter (\<lambda>p. fst p = u) gathered) = n"
  shows "group_means n gathered = Ok (map (\<lambda>u. (u, mean (map snd (filter (\<lambda>p. fst p = u) gathered)))) (sort (remdups (map fst gathered))))"
  unfolding group_means_def by (rule map_res_all_Ok) (use assms in \<open>auto simp: Let_def\<close>)

lemma all_numbers_Some: "all_numbers (map (\<lambda>x. Some (f x)) xs) = Some (map f xs)"
  by (auto simp: all_numbers_def)

definition gvpo_term :: "real \<Rightarrow> (int \<times> real) list \<Rightarrow> gvpo_row \<Rightarrow> real" where
  "gvpo_term beta gathered r = 1 / 2 * ((rtheta_of beta r - mean (map snd (filter (\<lambda>p. fst p = gv_uid r) gathered))) -
     masked_sum (gv_adv r) (gv_mask r) / sum_list (gv_mask r))\<^sup>2"

lemma gvpo_loss_eq:
  assumes "\<And>u. u \<in> fst ` set gathered \<Longrightarrow> length (filter (\<lambda>p. fst p = u) gathered) = n" "2 \<le> n"
    and "\<And>r. r \<in> set rows \<Longrightarrow> gv_uid r \<in> fst ` set gathered \<and> sum_list (gv_mask r) \<noteq> 0"
  shows "compute_policy_loss_gvpo n beta gathered rows = Ok (Some ((\<Sum>r \<leftarrow> rows. gvpo_term beta gathered r) / (real n - 1)))"
proof -
  let ?means = "map (\<lambda>u. (u, mean (map snd (filter (\<lambda>p. fst p = u) gathered)))) (sort (remdups (map fst gathered)))"
  have "dict_index (gv_uid r) ?means = Ok (mean (map snd (filter (\<lambda>p. fst p = gv_uid r) gathered)))" if "r \<in> set rows" for r
    using assms(3) [OF that] by (simp add: dict_index_Ok map_of_map_restrict)
  then have "map_res (\<lambda>r. bind_res (dict_index (gv_uid r) ?means) (\<lambda>\<mu>.
         Ok (map_option (\<lambda>avg. 1 / 2 * ((rtheta_of beta r - \<mu>) - avg)\<^sup>2) (r_minus_avg_of r)))) rows =
      Ok (map (\<lambda>r. Some (gvpo_term beta gathered r)) rows)"
    by (intro map_res_all_Ok) (use assms(3) in \<open>simp add: r_minus_avg_of_def float_div_def gvpo_term_def\<close>)
  then show ?thesis using assms(2)
    by (simp add: compute_policy_loss_gvpo_def gvpo_means [OF assms(1)] all_numbers_Some float_div_def del: bind_res_Ok)
qed

lemma gather_groups:
  "filter (\<lambda>p. fst p = u) (gather beta ranks) = map (\<lambda>r. (u, rtheta_of beta r)) (filter (\<lambda>r. gv_uid r = u) (concat ranks))"
  by (simp add: gather_def filter_map o_def cong: map_cong)

text \<open>
  C14. GVPO does not depend on how the batch is spread over the data-parallel ranks: when every prompt has its
  \<open>n \<ge> 2\<close> responses somewhere and no response is empty, every rank gets a loss, and the losses add up to the loss
  of one rank with the whole batch. A constant per prompt in the log-ratios, such as the log-partition function
  of the derivation, cancels.
\<close>

theorem gvpo_shards_add_up:
  assumes "2 \<le> n"
    and "\<And>r. r \<in> set (concat ranks) \<Longrightarrow>
      sum_list (gv_mask r) \<noteq> 0 \<and> length (filter (\<lambda>r'. gv_uid r' = gv_uid r) (concat ranks)) = n"
    and "\<And>r. gv_uid (g r) = gv_uid r \<and> gv_adv (g r) = gv_adv r \<and> gv_mask (g r) = gv_mask r \<and>
      rtheta_of beta (g r) = rtheta_of beta r + z (gv_uid r)"
  shows "\<exists>losses. gvpo_ranks n beta ranks = map (\<lambda>l. Ok (Some l)) losses \<and>
    gvpo_ranks n beta [concat ranks] = [Ok (Some (sum_list losses))] \<and>
    gvpo_ranks n beta (map (map g) ranks) = gvpo_ranks n beta ranks"
proof -
  let ?G = "gather beta ranks" and ?G' = "gather beta (map (map g) ranks)"
  have uid: "gv_uid (g r) = gv_uid r" for r using assms(3) by simp
  have full: "length (filter (\<lambda>p. fst p = u) ?G) = n" if u: "u \<in> fst ` set ?G" for u
  proof -
    obtain r where "r \<in> set (concat ranks)" "u = gv_uid r" using u unfolding gather_def by fastforce
    then show ?thesis using assms(2) unfolding gather_groups by simp
  qed
  have g: "filter (\<lambda>p. fst p = u) ?G' = map (\<lambda>p. (u, snd p + z u)) (filter (\<lambda>p. fst p = u) ?G)" for u
    unfolding gather_groups using assms(3) by (simp add: map_concat [symmetric] filter_map o_def uid)
  have full': "length (filter (\<lambda>p. fst p = u) ?G') = n" if u: "u \<in> fst ` set ?G'" for u
  proof -
    have "map fst ?G' = map fst ?G" by (simp add: gather_def map_concat [symmetric] o_def uid)
    then have "u \<in> fst ` set ?G" using u by (metis set_map)
    then show ?thesis unfolding g using full by simp
  qed
  have tm: "gvpo_term beta ?G' (g r) = gvpo_term beta ?G r" if "r \<in> set (concat ranks)" for r
  proof -
    have "gv_uid r \<in> fst ` set ?G" using that unfolding gather_def by force
    from full [OF this] have "map snd (filter (\<lambda>p. fst p = gv_uid r) ?G) \<noteq> []" using assms(1) by auto
    then have "mean (map snd (filter (\<lambda>p. fst p = gv_uid r) ?G')) = mean (map snd (filter (\<lambda>p. fst p = gv_uid r) ?G)) + z (gv_uid r)"
      unfolding g using mean_shift [of "map snd (filter (\<lambda>p. fst p = gv_uid r) ?G)" "z (gv_uid r)"] by (simp add: o_def)
    then show ?thesis using assms(3) by (simp add: gvpo_term_def)
  qed
  let ?l = "\<lambda>rows. (\<Sum>r \<leftarrow> rows. gvpo_term beta ?G r) / (real n - 1)"
  have ok: "compute_policy_loss_gvpo n beta ?G rows = Ok (Some (?l rows))" if "set rows \<subseteq> set (concat ranks)" for rows
    by (rule gvpo_loss_eq [OF full assms(1)]) (use that assms(2) in \<open>force simp: gather_def\<close>)+
  have ok': "compute_policy_loss_gvpo n beta ?G' (map g rows) = Ok (Some (?l rows))" if rows: "set rows \<subseteq> set (concat ranks)" for rows
  proof -
    have "compute_policy_loss_gvpo n beta ?G' (map g rows) = Ok (Some ((\<Sum>r \<leftarrow> map g rows. gvpo_term beta ?G' r) / (real n - 1)))"
    proof (rule gvpo_loss_eq [OF full' assms(1)])
      fix r
      assume "r \<in> set (map g rows)"
      then obtain q where q: "q \<in> set (concat ranks)" "r = g q" using rows by fastforce
      then have "g q \<in> set (concat (map (map g) ranks))" by auto
      then have "gv_uid r \<in> fst ` set ?G'" unfolding q(2) gather_def set_map image_image fst_conv by (rule imageI)
      moreover have "sum_list (gv_mask r) \<noteq> 0" unfolding q(2) using assms(2) [OF q(1)] assms(3) by simp
      ultimately show "gv_uid r \<in> fst ` set ?G' \<and> sum_list (gv_mask r) \<noteq> 0" by (rule conjI)
    qed
    also have "(\<Sum>r \<leftarrow> map g rows. gvpo_term beta ?G' r) = (\<Sum>r \<leftarrow> rows. gvpo_term beta ?G r)"
      using rows tm by (auto simp: o_def intro!: arg_cong [where f = sum_list] map_cong)
    finally show ?thesis .
  qed
  have "(\<Sum>rows \<leftarrow> xs. (\<Sum>r \<leftarrow> rows. f r) / c) = (\<Sum>r \<leftarrow> concat xs. f r) / c" for f :: "gvpo_row \<Rightarrow> real" and c xs
    by (induction xs) (simp_all add: add_divide_distrib)
  then have "sum_list (map ?l ranks) = ?l (concat ranks)" .
  moreover have "gather beta [concat ranks] = ?G" by (simp add: gather_def)
  moreover have "compute_policy_loss_gvpo n beta ?G rows = Ok (Some (?l rows))"
    "compute_policy_loss_gvpo n beta ?G' (map g rows) = Ok (Some (?l rows))" if "rows \<in> set ranks" for rows
    using that by (auto intro!: ok ok')
  moreover note ok [OF subset_refl]
  ultimately show ?thesis
    by (intro exI [of _ "map ?l ranks"]) (simp add: gvpo_ranks_def o_def cong: map_cong)
qed

lemma cov_tokens_distinct: "distinct (map ct_at (cov_tokens old_log_prob log_prob advantages msk))"
proof -
  have "distinct (concat (map (\<lambda>i. map (Pair i) [0..<f i]) [0..<n])) \<and>
      set (concat (map (\<lambda>i. map (Pair i) [0..<f i]) [0..<n])) \<subseteq> {0..<n} \<times> UNIV" for f and n :: nat
    by (induction n) (auto simp: distinct_map inj_on_def)
  then show ?thesis by (simp add: cov_tokens_def map_concat o_def)
qed

text \<open>
  Clip-Cov drops the loss of distinct response tokens whose covariance lies strictly between the bounds and that
  PPO does not clip already; it drops as many as the ratio of the mask allows, at least one, or all candidates when
  there are fewer.
\<close>

theorem clip_cov_drops_few:
  assumes "\<And>k. mset (perm k) = mset [0..<k]"
    and "ts = cov_tokens old_log_prob log_prob advantages msk" "cand = (\<lambda>t. in_band lb ub (token_cov low high ma ml t) \<and> ct_mask t > 0)"
  shows "let dropped = cov_dropped perm ratio cand ts in
    distinct dropped \<and>
    int (length dropped) = min (max \<lfloor>ratio * sum_list (map ct_mask ts)\<rfloor> 1) (int (length (filter cand ts))) \<and>
    (\<forall>x \<in> set dropped. \<exists>t \<in> set ts. ct_at t = x \<and> ct_mask t > 0 \<and>
       pg_losses2 low high (ct_adv t) (ct_ratio t) \<le> pg_losses1 (ct_adv t) (ct_ratio t) \<and>
       lb < (ct_adv t - ma) * (ct_logp t - ml) \<and> (ct_adv t - ma) * (ct_logp t - ml) < ub)"
proof -
  let ?top = "map ct_at (filter cand ts)" and ?num = "max \<lfloor>ratio * sum_list (map ct_mask ts)\<rfloor> 1"
  let ?p = "perm (length ?top)"
  have p: "distinct ?p" "set ?p = {0..<length ?top}" "length ?p = length ?top"
    using assms(1) [of "length ?top"] by (metis distinct_upt mset_eq_imp_distinct_iff, metis atLeastLessThan_upt mset_eq_setD,
        metis diff_zero length_upt mset_eq_length)
  have d: "distinct ?top" using cov_tokens_distinct assms(2) distinct_map_filter by blast
  have eq: "cov_dropped perm ratio cand ts = map ((!) ?top) (take (nat (min ?num (int (length ?top)))) ?p)"
    using p(3) by (cases "?top = []") (auto simp: cov_dropped_def Let_def)
  have "distinct (cov_dropped perm ratio cand ts)"
    unfolding eq distinct_map using p d by (auto simp: inj_on_def nth_eq_iff_index_eq [OF d] simp del: nth_map dest!: in_set_takeD)
  moreover have "int (length (cov_dropped perm ratio cand ts)) = min ?num (int (length (filter cand ts)))"
  proof -
    have "0 \<le> min ?num (int (length ?top))" by simp
    then show ?thesis unfolding eq using p(3) by simp
  qed
  moreover have "\<exists>t \<in> set ts. ct_at t = x \<and> cand t" if x: "x \<in> set (cov_dropped perm ratio cand ts)" for x
  proof -
    obtain i where "i \<in> set ?p" "x = ?top ! i" using x unfolding eq set_map by (blast dest: in_set_takeD)
    then have "x \<in> set ?top" unfolding p(2) by (simp only: atLeastLessThan_iff nth_mem)
    then show ?thesis by auto
  qed
  moreover have "ct_mask t > 0 \<and> pg_losses2 low high (ct_adv t) (ct_ratio t) \<le> pg_losses1 (ct_adv t) (ct_ratio t) \<and>
       lb < (ct_adv t - ma) * (ct_logp t - ml) \<and> (ct_adv t - ma) * (ct_logp t - ml) < ub" if "cand t" for t
    using that unfolding assms(3) by (auto simp: in_band_def token_cov_def split: if_splits)
  ultimately show ?thesis unfolding Let_def by blast
qed

definition demo_clip :: clip_config where
  "demo_clip = \<lparr>cc_clip_ratio = 1 / 5, cc_clip_ratio_low = None, cc_clip_ratio_high = Some (3 / 10), cc_clip_ratio_c = None\<rparr>"


theorem kl_plus_always_raises_witness:
  "kl_penalty ''k3+'' (- 1) (- 2) = Err (NotImplementedError '''') \<and> 0 \<le> projr (kl_penalty ''k3'' (- 1) (- 2))"
proof -
  have "\<exists>x. kl_penalty ''k3'' (- 1) (- 2) = Ok x" by (simp add: kl_penalty_def kl_penalty_forward_def ends_with_plus_def Let_def)
  then obtain x where "kl_penalty ''k3'' (- 1) (- 2) = Ok x" by blast
  then show ?thesis
    using kl_plus_always_raises [of "''k3+''" "- 1" "- 2"] kl_plus_always_raises [of "''k3''" "- 1" "- 2"] by (simp add: ends_with_plus_def)
qed

text \<open>One prompt with two responses, each on a rank of its own.\<close>

definition demo_response :: "real \<Rightarrow> real \<Rightarrow> gvpo_row" where
  "demo_response l a = \<lparr>gv_old = [0], gv_logp = [l], gv_adv = [a], gv_mask = [1], gv_uid = 7\<rparr>"

theorem gvpo_shards_add_up_witness:
  "\<exists>losses. gvpo_ranks 2 1 [[demo_response 1 1], [demo_response 3 0]] = map (\<lambda>l. Ok (Some l)) losses \<and>
    gvpo_ranks 2 1 [[demo_response 1 1, demo_response 3 0]] = [Ok (Some (sum_list losses))]"
proof -
  let ?ranks = "[[demo_response 1 1], [demo_response 3 0]]"
  have "\<exists>losses. gvpo_ranks 2 1 ?ranks = map (\<lambda>l. Ok (Some l)) losses \<and>
      gvpo_ranks 2 1 [concat ?ranks] = [Ok (Some (sum_list losses))] \<and> gvpo_ranks 2 1 (map (map (\<lambda>r. r)) ?ranks) = gvpo_ranks 2 1 ?ranks"
    by (rule gvpo_shards_add_up [where z = "\<lambda>_. 0"]) (auto simp: demo_response_def)
  then show ?thesis by auto
qed

text \<open>Two response tokens, both candidates; the mask allows one.\<close>

theorem clip_cov_drops_few_witness:
  "length (cov_dropped (\<lambda>k. [0..<k]) (1 / 2) (\<lambda>t. in_band 1 5 (token_cov (1 / 5) (1 / 5) 0 0 t) \<and> ct_mask t > 0)
     (cov_tokens [[2, 2]] [[2, 2]] [[1, 1]] [[1, 1]])) = 1"
proof -
  let ?ts = "cov_tokens [[2, 2]] [[2, 2]] [[1, 1]] [[1, 1]]" and ?cand = "\<lambda>t. in_band 1 5 (token_cov (1 / 5) (1 / 5) 0 0 t) \<and> ct_mask t > 0"
  have "length (filter ?cand ?ts) = 2" "sum_list (map ct_mask ?ts) = 2"
    by (simp_all add: cov_tokens_def in_band_def token_cov_def pg_losses1_def pg_losses2_def np_clip_def)
  then show ?thesis
    using clip_cov_drops_few [of "\<lambda>k. [0..<k]" ?ts "[[2, 2]]" "[[2, 2]]" "[[1, 1]]" "[[1, 1]]" ?cand 1 5 "1 / 5" "1 / 5" 0 0 "1 / 2"]
    by (simp add: Let_def)
qed

end
