(* ===== verification/RewardPipeline.thy ===== *)
theory RewardPipeline
  imports Prelude Complex_Main "HOL-Library.Multiset"
begin

text \<open>
  The reward queue of the asynchronous rollouter (\<open>reward_queue/utils.py\<close>, \<open>reward_queue/rollouter.py\<close>): a
  sample is generated as \<open>n\<close> responses, each response travels through the reward queue on its own and is
  scored on its own, and the aggregator puts the sample together again. The reward queue is a message queue of
  verl, outside the repository: it may refuse what is put, lose what it holds, and deliver in any order; it
  delivers what was put, and that once. \<open>DataProto\<close> is the list of its rows. Wall-clock times and statistics
  are left out.
\<close>

section \<open>Data\<close>

text \<open>One generated response: a row of \<open>padded_output\<close>, with the width of its prompt part.\<close>

record 'o output_row =
  po_prompt :: nat
  po_attention :: "int list"
  po_response_mask :: "int list"
  po_data :: 'o

record 'o sub_item =
  si_sample :: string
  si_epoch :: int
  si_index :: nat
  si_total :: nat
  si_output :: "'o output_row"

record 'o scored_item =
  sc_index :: nat
  sc_output :: "'o output_row"
  sc_score :: real
  sc_extra :: "(string, real) dict"

record 'o group =
  ag_total :: nat
  ag_epoch :: int
  ag_items :: "(nat, 'o scored_item) dict"

definition group_add :: "'o scored_item \<Rightarrow> 'o group \<Rightarrow> 'o group" where
  "group_add x g = g\<lparr>ag_items := dict_set (sc_index x) x (ag_items g)\<rparr>"

definition is_complete :: "'o group \<Rightarrow> bool" where
  "is_complete g \<longleftrightarrow> length (ag_items g) = ag_total g"

section \<open>The aggregator\<close>

type_synonym 'o aggregator = "(string, 'o group) dict"

definition add_scored_item :: "string \<Rightarrow> nat \<Rightarrow> int \<Rightarrow> 'o scored_item \<Rightarrow> 'o aggregator \<Rightarrow> 'o aggregator \<times> bool" where
  "add_scored_item sample_id total_count epoch x a =
     (let g = dict_get_default sample_id \<lparr>ag_total = total_count, ag_epoch = epoch, ag_items = []\<rparr> a;
          g' = group_add x g
      in (dict_set sample_id g' a, is_complete g'))"

definition get_and_remove :: "string \<Rightarrow> 'o aggregator \<Rightarrow> ('o aggregator \<times> 'o group) result" where
  "get_and_remove sample_id a =
     (case dict_get a sample_id of None \<Rightarrow> Err (KeyError '''') | Some g \<Rightarrow> Ok (dict_del sample_id a, g))"

definition total_pending :: "'o aggregator \<Rightarrow> nat" where
  "total_pending a = sum_list (map (\<lambda>g. length (ag_items g)) (dict_values a))"

definition pending_sample_ids :: "'o aggregator \<Rightarrow> string list" where
  "pending_sample_ids a = dict_keys a"

definition pending_groups_count :: "'o aggregator \<Rightarrow> nat" where
  "pending_groups_count a = length a"

section \<open>Finalising a sample\<close>

text \<open>The sample that goes to the message queue.\<close>

record 'o final_sample =
  fs_id :: string
  fs_epoch_of :: int
  fs_rows :: "'o output_row list"
  fs_score :: "real list"
  fs_rm_scores :: "real list list"
  fs_extra :: "(string \<times> real option list) list"
  fs_uid :: "string list"

text \<open>One row of \<open>rm_scores\<close>: zeros, and the score at the index of the last response token. An index is negative for
  an empty response, and tensors take negative indices from the end.\<close>

definition rm_row :: "'o output_row \<Rightarrow> nat \<Rightarrow> real \<Rightarrow> real list result" where
  "rm_row row prompt_length score =
     (let width = int (length (po_response_mask row));
          valid = sum_list (drop prompt_length (po_attention row)) - 1;
          j = (if valid < 0 then valid + width else valid)
      in if 0 \<le> j \<and> j < width then Ok ((replicate (nat width) 0)[nat j := score])
         else Err (IndexError ''index out of bounds''))"

definition finalize_sample :: "string \<Rightarrow> 'o group \<Rightarrow> 'o final_sample result" where
  "finalize_sample sample_id g =
     (let xs = map (\<lambda>i. the (dict_get (ag_items g) i)) (sort (dict_keys (ag_items g)));
          rows = map sc_output xs;
          keys = (case xs of [] \<Rightarrow> [] | x # _ \<Rightarrow> dict_keys (sc_extra x))
      in case rows of [] \<Rightarrow> Err (IndexError ''list index out of range'')
         | r # _ \<Rightarrow>
             bind_res (map_res (\<lambda>x. rm_row (sc_output x) (po_prompt r) (sc_score x)) xs) (\<lambda>rm.
             Ok \<lparr>fs_id = sample_id, fs_epoch_of = ag_epoch g, fs_rows = rows, fs_score = map sc_score xs, fs_rm_scores = rm,
                  fs_extra = map (\<lambda>k. (k, map (\<lambda>x. dict_get (sc_extra x) k) xs)) keys,
                  fs_uid = replicate (length rows) (''uid_'' @ sample_id)\<rparr>))"

section \<open>The pipeline\<close>

text \<open>
  Inference tasks that run, given by sample, epoch, index and number of responses; the reward queue; the scoring
  tasks that run; the aggregator; what was put to the message queue; and the counters.
\<close>

type_synonym infer_task = "string \<times> int \<times> nat \<times> nat"

record 'o pipeline =
  pp_infer :: "infer_task list"
  pp_queue :: "'o sub_item list"
  pp_scoring :: "'o sub_item list"
  pp_groups :: "'o aggregator"
  pp_sent :: "'o final_sample list"
  pp_generated :: nat
  pp_dropped :: nat

definition pp_init :: "'o pipeline" where
  "pp_init = \<lparr>pp_infer = [], pp_queue = [], pp_scoring = [], pp_groups = [], pp_sent = [], pp_generated = 0, pp_dropped = 0\<rparr>"

definition drop_nth :: "nat \<Rightarrow> 'a list \<Rightarrow> 'a list" where
  "drop_nth k xs = take k xs @ drop (Suc k) xs"

text \<open>\<open>_process_sample_with_reward_queue\<close>: one task per response, then what becomes of each.\<close>

definition submit :: "string \<Rightarrow> int \<Rightarrow> nat \<Rightarrow> 'o pipeline \<Rightarrow> 'o pipeline" where
  "submit sample_id epoch n s = s\<lparr>pp_infer := pp_infer s @ map (\<lambda>i. (sample_id, epoch, i, n)) [0..<n]\<rparr>"

definition infer_failed :: "nat \<Rightarrow> 'o pipeline \<Rightarrow> 'o pipeline" where
  "infer_failed k s = s\<lparr>pp_infer := drop_nth k (pp_infer s), pp_dropped := pp_dropped s + 1\<rparr>"

definition inferred :: "nat \<Rightarrow> 'o output_row \<Rightarrow> bool \<Rightarrow> 'o pipeline \<Rightarrow> 'o pipeline" where
  "inferred k row accepted s =
     (let (sample_id, epoch, i, n) = pp_infer s ! k; s' = s\<lparr>pp_infer := drop_nth k (pp_infer s)\<rparr>
      in if accepted
         then s'\<lparr>pp_queue := pp_queue s @ [\<lparr>si_sample = sample_id, si_epoch = epoch, si_index = i, si_total = n, si_output = row\<rparr>]\<rparr>
         else s'\<lparr>pp_dropped := pp_dropped s + 1\<rparr>)"

text \<open>\<open>_reward_consumer_worker\<close> takes an item from the queue and starts a scoring task.\<close>

definition deliver :: "nat \<Rightarrow> 'o pipeline \<Rightarrow> 'o pipeline" where
  "deliver k s = s\<lparr>pp_queue := drop_nth k (pp_queue s), pp_scoring := pp_scoring s @ [pp_queue s ! k]\<rparr>"

text \<open>
  \<open>_process_single_sub_reward_item\<close>: no worker handles, an answer of the chosen worker, or a failure, which scores
  -1. The last argument is whether the message queue accepts the sample, if this item completes it.
\<close>

datatype scoring = NoWorkers | Answer real "(string, real) dict" | Raised

definition scored_of :: "scoring \<Rightarrow> 'o sub_item \<Rightarrow> 'o scored_item" where
  "scored_of r x = (let (score, extra) = (case r of Answer s e \<Rightarrow> (s, e) | _ \<Rightarrow> (- 1, []))
     in \<lparr>sc_index = si_index x, sc_output = si_output x, sc_score = score, sc_extra = extra\<rparr>)"

definition score_item :: "nat \<Rightarrow> scoring \<Rightarrow> bool \<Rightarrow> 'o pipeline \<Rightarrow> 'o pipeline" where
  "score_item k r accepted s =
     (let x = pp_scoring s ! k; s' = s\<lparr>pp_scoring := drop_nth k (pp_scoring s)\<rparr>
      in if r = NoWorkers then s'\<lparr>pp_dropped := pp_dropped s + 1\<rparr>
         else let (a, complete) = add_scored_item (si_sample x) (si_total x) (si_epoch x) (scored_of r x) (pp_groups s)
              in if \<not> complete then s'\<lparr>pp_groups := a\<rparr>
                 else case get_and_remove (si_sample x) a of
                        Inl _ \<Rightarrow> s'\<lparr>pp_groups := a\<rparr>
                      | Inr (a', g) \<Rightarrow>
                          (case finalize_sample (si_sample x) g of
                             Inl _ \<Rightarrow> s'\<lparr>pp_groups := a'\<rparr>
                           | Inr f \<Rightarrow>
                               if accepted then s'\<lparr>pp_groups := a', pp_sent := pp_sent s @ [f], pp_generated := pp_generated s + 1\<rparr>
                               else s'\<lparr>pp_groups := a', pp_dropped := pp_dropped s + 1\<rparr>))"

section \<open>Runs\<close>

datatype 'o event =
    Submit string int nat
  | InferFails nat
  | Infer nat "'o output_row" bool
  | QueueLoses nat
  | Deliver nat
  | Score nat scoring bool

fun pp_exec :: "'o event \<Rightarrow> 'o pipeline \<Rightarrow> 'o pipeline" where
  "pp_exec (Submit i e n) s = submit i e n s"
| "pp_exec (InferFails k) s = infer_failed k s"
| "pp_exec (Infer k row a) s = inferred k row a s"
| "pp_exec (QueueLoses k) s = s\<lparr>pp_queue := drop_nth k (pp_queue s)\<rparr>"
| "pp_exec (Deliver k) s = deliver k s"
| "pp_exec (Score k r a) s = score_item k r a s"

text \<open>
  What happened: the samples submitted, with epoch and number of responses; the responses that were lost; the scores
  that were given; and the samples whose group became complete.
\<close>

type_synonym tag = "string \<times> nat"

record 'o history =
  hi_started :: "(string, int \<times> nat) dict"
  hi_lost :: "tag list"
  hi_scored :: "(tag, 'o scored_item) dict"
  hi_done :: "string list"

definition infer_tag :: "infer_task \<Rightarrow> tag" where
  "infer_tag t = (case t of (sample_id, _, i, _) \<Rightarrow> (sample_id, i))"

definition item_tag :: "'o sub_item \<Rightarrow> tag" where
  "item_tag x = (si_sample x, si_index x)"

definition lose :: "tag \<Rightarrow> 'o history \<Rightarrow> 'o history" where
  "lose t h = h\<lparr>hi_lost := t # hi_lost h\<rparr>"

definition completes :: "scoring \<Rightarrow> 'o sub_item \<Rightarrow> 'o aggregator \<Rightarrow> bool" where
  "completes r x a = snd (add_scored_item (si_sample x) (si_total x) (si_epoch x) (scored_of r x) a)"

fun note_event :: "'o event \<Rightarrow> 'o pipeline \<Rightarrow> 'o history \<Rightarrow> 'o history" where
  "note_event (Submit i e n) s h = h\<lparr>hi_started := (i, e, n) # hi_started h\<rparr>"
| "note_event (InferFails k) s h = lose (infer_tag (pp_infer s ! k)) h"
| "note_event (Infer k row a) s h = (if a then h else lose (infer_tag (pp_infer s ! k)) h)"
| "note_event (QueueLoses k) s h = lose (item_tag (pp_queue s ! k)) h"
| "note_event (Deliver k) s h = h"
| "note_event (Score k r a) s h =
     (let x = pp_scoring s ! k
      in if r = NoWorkers then lose (item_tag x) h
         else h\<lparr>hi_scored := (item_tag x, scored_of r x) # hi_scored h,
                hi_done := (if completes r x (pp_groups s) then si_sample x # hi_done h else hi_done h)\<rparr>)"

text \<open>What generation returns: rows padded to the prompt length \<open>p\<close> and the response length \<open>w\<close>, with an attention mask of 0 and 1.\<close>

definition row_ok :: "nat \<Rightarrow> nat \<Rightarrow> 'o output_row \<Rightarrow> bool" where
  "row_ok p w row \<longleftrightarrow> po_prompt row = p \<and> length (po_response_mask row) = w \<and> length (po_attention row) = p + w \<and>
     set (po_attention row) \<subseteq> {0, 1} \<and> 0 < w"

text \<open>Sample ids are fresh, and an event happens to a task or item that is there.\<close>

fun possible :: "nat \<Rightarrow> nat \<Rightarrow> 'o event \<Rightarrow> 'o pipeline \<Rightarrow> 'o history \<Rightarrow> bool" where
  "possible p w (Submit i e n) s h \<longleftrightarrow> \<not> dict_has i (hi_started h)"
| "possible p w (InferFails k) s h \<longleftrightarrow> k < length (pp_infer s)"
| "possible p w (Infer k row a) s h \<longleftrightarrow> k < length (pp_infer s) \<and> row_ok p w row"
| "possible p w (QueueLoses k) s h \<longleftrightarrow> k < length (pp_queue s)"
| "possible p w (Deliver k) s h \<longleftrightarrow> k < length (pp_queue s)"
| "possible p w (Score k r a) s h \<longleftrightarrow> k < length (pp_scoring s)"

inductive pp_run :: "nat \<Rightarrow> nat \<Rightarrow> 'o pipeline \<Rightarrow> 'o history \<Rightarrow> bool" for p w where
  run_init: "pp_run p w pp_init \<lparr>hi_started = [], hi_lost = [], hi_scored = [], hi_done = []\<rparr>"
| run_step: "pp_run p w s h \<Longrightarrow> possible p w ev s h \<Longrightarrow> pp_run p w (pp_exec ev s) (note_event ev s h)"

section \<open>Where each response is\<close>

definition group_tags :: "string \<times> 'o group \<Rightarrow> tag list" where
  "group_tags g = map (Pair (fst g)) (dict_keys (ag_items (snd g)))"

definition held :: "'o aggregator \<Rightarrow> tag multiset" where
  "held a = mset (concat (map group_tags a))"

definition underway :: "'o pipeline \<Rightarrow> tag multiset" where
  "underway s = mset (map infer_tag (pp_infer s)) + mset (map item_tag (pp_queue s)) + mset (map item_tag (pp_scoring s))"

definition tags :: "'o pipeline \<Rightarrow> 'o history \<Rightarrow> tag multiset" where
  "tags s h = underway s + held (pp_groups s) + mset (hi_lost h)"

lemma mset_drop_nth: "k < length xs \<Longrightarrow> mset xs = add_mset (xs ! k) (mset (drop_nth k xs))"
  by (metis append_take_drop_id drop_nth_def Cons_nth_drop_Suc mset.simps(2) mset_append union_mset_add_mset_right)

lemma mset_map_drop_nth: "k < length xs \<Longrightarrow> mset (map f xs) = add_mset (f (xs ! k)) (mset (map f (drop_nth k xs)))"
  using mset_drop_nth [of k xs] by (metis image_mset_add_mset mset_map)

lemmas image_drop_nth = mset_map_drop_nth [simplified mset_map]

lemma set_drop_nth: "set (drop_nth k xs) \<subseteq> set xs"
  by (auto simp: drop_nth_def dest: in_set_takeD in_set_dropD)

lemma held_simps [simp]: "held [] = {#}" "held (g # a) = mset (group_tags g) + held a"
  by (simp_all add: held_def)

lemma held_set: "dict_ok a \<Longrightarrow> held (dict_set k g a) = held (dict_del k a) + mset (group_tags (k, g))"
proof (induction a)
  case (Cons x a)
  obtain j v where x: "x = (j, v)" by (cases x)
  show ?case
  proof (cases "j = k")
    case True
    then have "dict_del k a = a" using Cons.prems x by (simp add: dict_ok_def delete_id)
    then show ?thesis using True x by (simp add: ac_simps)
  next
    case False
    then show ?thesis using Cons x by (simp add: dict_ok_def ac_simps)
  qed
qed simp

lemma held_get: "dict_ok a \<Longrightarrow> dict_get a k = Some g \<Longrightarrow> held a = held (dict_del k a) + mset (group_tags (k, g))"
proof (induction a)
  case (Cons x a)
  obtain j v where x: "x = (j, v)" by (cases x)
  show ?case
  proof (cases "j = k")
    case True
    then have "dict_del k a = a" using Cons.prems x by (simp add: dict_ok_def delete_id)
    then show ?thesis using True x Cons.prems by (simp add: ac_simps)
  next
    case False
    then show ?thesis using Cons x by (simp add: dict_ok_def ac_simps)
  qed
qed simp

lemma held_None: "dict_get a k = None \<Longrightarrow> dict_del k a = a"
  by (simp add: delete_id map_of_eq_None_iff)

section \<open>The invariant\<close>

definition started :: "'o history \<Rightarrow> string \<Rightarrow> (int \<times> nat) option" where
  "started h i = dict_get (hi_started h) i"

definition task_ok :: "'o history \<Rightarrow> infer_task \<Rightarrow> bool" where
  "task_ok h t = (case t of (sample_id, e, i, n) \<Rightarrow> started h sample_id = Some (e, n) \<and> i < n)"

definition item_ok :: "nat \<Rightarrow> nat \<Rightarrow> 'o history \<Rightarrow> 'o sub_item \<Rightarrow> bool" where
  "item_ok p w h x \<longleftrightarrow> started h (si_sample x) = Some (si_epoch x, si_total x) \<and> si_index x < si_total x \<and> row_ok p w (si_output x)"

definition group_ok :: "nat \<Rightarrow> nat \<Rightarrow> 'o history \<Rightarrow> string \<Rightarrow> 'o group \<Rightarrow> bool" where
  "group_ok p w h k g \<longleftrightarrow> dict_ok (ag_items g) \<and> started h k = Some (ag_epoch g, ag_total g) \<and>
     (\<forall>(i, x) \<in> set (ag_items g). sc_index x = i \<and> i < ag_total g \<and> row_ok p w (sc_output x) \<and> dict_get (hi_scored h) (k, i) = Some x)"

text \<open>A sample is whole: its row, its score and its reward row at \<open>i\<close> are those of response \<open>i\<close>.\<close>

definition sample_ok :: "nat \<Rightarrow> nat \<Rightarrow> 'o history \<Rightarrow> 'o final_sample \<Rightarrow> bool" where
  "sample_ok p w h f \<longleftrightarrow> (\<exists>n. started h (fs_id f) = Some (fs_epoch_of f, n) \<and> length (fs_rows f) = n \<and> length (fs_score f) = n \<and>
     length (fs_rm_scores f) = n \<and> fs_uid f = replicate n (''uid_'' @ fs_id f) \<and>
     (\<forall>i < n. \<exists>x. dict_get (hi_scored h) (fs_id f, i) = Some x \<and> fs_rows f ! i = sc_output x \<and> fs_score f ! i = sc_score x \<and>
        row_ok p w (sc_output x) \<and> rm_row (sc_output x) p (sc_score x) = Ok (fs_rm_scores f ! i)))"

definition tags_ok :: "tag multiset \<Rightarrow> 'o history \<Rightarrow> bool" where
  "tags_ok T h \<longleftrightarrow> (\<forall>t. count T t \<le> 1) \<and>
     (\<forall>t. t \<in># T \<longrightarrow> fst t \<notin> set (hi_done h) \<and> (\<exists>e n. started h (fst t) = Some (e, n) \<and> snd t < n)) \<and>
     (\<forall>k e n i. started h k = Some (e, n) \<longrightarrow> k \<notin> set (hi_done h) \<longrightarrow> i < n \<longrightarrow> (k, i) \<in># T)"

definition stores_ok :: "nat \<Rightarrow> nat \<Rightarrow> 'o pipeline \<Rightarrow> 'o history \<Rightarrow> bool" where
  "stores_ok p w s h \<longleftrightarrow> (\<forall>t \<in> set (pp_infer s). task_ok h t) \<and>
     (\<forall>x \<in> set (pp_queue s) \<union> set (pp_scoring s). item_ok p w h x) \<and>
     dict_ok (pp_groups s) \<and>
     (\<forall>(k, g) \<in> set (pp_groups s). group_ok p w h k g \<and> ag_items g \<noteq> [] \<and> length (ag_items g) < ag_total g)"

definition sent_ok :: "nat \<Rightarrow> nat \<Rightarrow> 'o pipeline \<Rightarrow> 'o history \<Rightarrow> bool" where
  "sent_ok p w s h \<longleftrightarrow> distinct (hi_done h) \<and> (\<forall>k \<in> set (hi_done h). started h k \<noteq> None) \<and>
     distinct (map fs_id (pp_sent s)) \<and> (\<forall>f \<in> set (pp_sent s). fs_id f \<in> set (hi_done h) \<and> sample_ok p w h f)"

definition pp_inv :: "nat \<Rightarrow> nat \<Rightarrow> 'o pipeline \<Rightarrow> 'o history \<Rightarrow> bool" where
  "pp_inv p w s h \<longleftrightarrow> tags_ok (tags s h) h \<and> stores_ok p w s h \<and> sent_ok p w s h"

text \<open>A step that only moves responses between tasks, queue, scoring and the lost ones.\<close>

lemma pp_inv_move:
  assumes "pp_inv p w s h" "tags s' h' = tags s h"
    and "pp_groups s' = pp_groups s" "pp_sent s' = pp_sent s"
    and "hi_started h' = hi_started h" "hi_scored h' = hi_scored h" "hi_done h' = hi_done h"
    and "set (pp_infer s') \<subseteq> set (pp_infer s)" "\<And>x. x \<in> set (pp_queue s') \<union> set (pp_scoring s') \<Longrightarrow> item_ok p w h x"
  shows "pp_inv p w s' h'"
proof -
  have st: "started h' = started h" by (rule ext) (simp add: started_def assms(5))
  have ok: "task_ok h' = task_ok h" "item_ok p w h' = item_ok p w h" "group_ok p w h' = group_ok p w h" "sample_ok p w h' = sample_ok p w h"
    by (intro ext, simp add: task_ok_def item_ok_def group_ok_def sample_ok_def st assms(6))+
  show ?thesis
    using assms(1,8,9) unfolding pp_inv_def tags_ok_def stores_ok_def sent_ok_def assms(2,3,4,7) st ok by blast
qed

lemma submit_inv:
  assumes "pp_inv p w s h" "\<not> dict_has k (hi_started h)"
  shows "pp_inv p w (submit k e n s) (h\<lparr>hi_started := (k, e, n) # hi_started h\<rparr>)" (is "pp_inv p w ?s ?h")
proof -
  have new: "started h k = None" using assms(2) unfolding started_def dict_has_def by blast
  have st: "started ?h j = (if j = k then Some (e, n) else started h j)" for j by (simp add: started_def)
  have keep: "started h j = Some v \<Longrightarrow> started ?h j = Some v" for j v using new st by auto
  have T: "tags ?s ?h = tags s h + mset (map (Pair k) [0..<n])"
    by (simp add: tags_def underway_def submit_def infer_tag_def o_def ac_simps)
  have fresh: "(k, i) \<notin># tags s h" for i
    using assms(1) new unfolding pp_inv_def tags_ok_def by force
  have "count (mset (map (Pair k) [0..<n])) t \<le> 1" for t :: tag
    using distinct_count_atmost_1 [of "map (Pair k) [0..<n]"] by (cases t) (simp add: distinct_map inj_on_def del: set_map)
  moreover have "count (tags s h) t = 0" if "t \<in># mset (map (Pair k) [0..<n])" for t
    using that fresh by (auto simp: count_eq_zero_iff)
  ultimately have one: "count (tags ?s ?h) t \<le> 1" for t
    using assms(1) unfolding T pp_inv_def tags_ok_def count_union
    by (metis add_cancel_right_left add_cancel_right_right count_eq_zero_iff)
  have nd: "k \<notin> set (hi_done h)" using assms(1) new by (force simp: pp_inv_def sent_ok_def)
  have "tags_ok (tags ?s ?h) ?h"
    unfolding tags_ok_def
  proof (intro conjI allI impI)
    fix t assume "t \<in># tags ?s ?h"
    then consider "t \<in># tags s h" | i where "t = (k, i)" "i < n" unfolding T by auto
    then have "fst t \<notin> set (hi_done h) \<and> (\<exists>e n. started ?h (fst t) = Some (e, n) \<and> snd t < n)"
    proof cases
      case 1
      then have "fst t \<notin> set (hi_done h)" "\<exists>e n. started h (fst t) = Some (e, n) \<and> snd t < n"
        using assms(1) unfolding pp_inv_def tags_ok_def by blast+
      then show ?thesis using keep by blast
    qed (simp add: st nd)
    then show "fst t \<notin> set (hi_done ?h)" "\<exists>e n. started ?h (fst t) = Some (e, n) \<and> snd t < n" by simp_all
  next
    fix j e' n' i assume "started ?h j = Some (e', n')" "j \<notin> set (hi_done ?h)" "i < n'"
    then show "(j, i) \<in># tags ?s ?h"
      using assms(1) unfolding T pp_inv_def tags_ok_def by (cases "j = k") (auto simp: st)
  qed (rule one)
  moreover have "stores_ok p w ?s ?h"
    using assms(1) keep unfolding pp_inv_def stores_ok_def
    by (fastforce simp: submit_def task_ok_def st item_ok_def group_ok_def)
  moreover have "sent_ok p w ?s ?h"
    using assms(1) keep unfolding pp_inv_def sent_ok_def
    by (fastforce simp: submit_def st sample_ok_def)
  ultimately show ?thesis by (simp add: pp_inv_def)
qed

text \<open>A complete group gives a whole sample.\<close>

lemma bits_sum: "set xs \<subseteq> {0, 1} \<Longrightarrow> 0 \<le> sum_list xs \<and> sum_list xs \<le> int (length xs)"
  by (induction xs) auto

lemma rm_row_Ok:
  assumes "row_ok p w row"
  shows "\<exists>r. rm_row row p score = Ok r"
proof -
  have "set (drop p (po_attention row)) \<subseteq> {0, 1}" "length (drop p (po_attention row)) = w" "0 < w" "length (po_response_mask row) = w"
    using assms by (auto simp: row_ok_def dest: in_set_dropD)
  then show ?thesis using bits_sum [of "drop p (po_attention row)"] by (auto simp: rm_row_def Let_def)
qed

lemma complete_keys:
  assumes "group_ok p w h k g" "length (ag_items g) = ag_total g"
  shows "set (dict_keys (ag_items g)) = {0..<ag_total g}"
proof -
  have d: "distinct (dict_keys (ag_items g))" using assms(1) by (simp add: group_ok_def dict_ok_def)
  have "set (dict_keys (ag_items g)) \<subseteq> {0..<ag_total g}" using assms(1) by (auto simp: group_ok_def)
  moreover have "card (set (dict_keys (ag_items g))) = ag_total g" using distinct_card [OF d] assms(2) by (simp del: set_map)
  ultimately show ?thesis by (simp add: card_subset_eq)
qed

lemma finalize_ok:
  assumes "group_ok p w h k g" "length (ag_items g) = ag_total g" "0 < ag_total g"
  shows "\<exists>f. finalize_sample k g = Ok f \<and> fs_id f = k \<and> sample_ok p w h f"
proof -
  let ?n = "ag_total g" and ?get = "\<lambda>i. the (dict_get (ag_items g) i)"
  let ?xs = "map ?get [0..<?n]"
  have d: "distinct (dict_keys (ag_items g))" using assms(1) by (simp add: group_ok_def dict_ok_def)
  have keys: "set (dict_keys (ag_items g)) = {0..<?n}" by (rule complete_keys [OF assms(1,2)])
  then have srt: "sort (dict_keys (ag_items g)) = [0..<?n]"
    using d by (intro sorted_distinct_set_unique) simp_all
  have x: "\<exists>x. dict_get (ag_items g) i = Some x \<and> dict_get (hi_scored h) (k, i) = Some x \<and> row_ok p w (sc_output x)" if "i < ?n" for i
  proof -
    have "dict_has i (ag_items g)" unfolding dict_has_iff keys using that by simp
    then obtain y where y: "dict_get (ag_items g) i = Some y" unfolding dict_has_def by blast
    from map_of_SomeD [OF this] show ?thesis using assms(1) y by (auto simp: group_ok_def)
  qed
  obtain r rs where rows: "map sc_output ?xs = r # rs" using assms(3) by (cases "map sc_output ?xs") auto
  have "po_prompt r = p" using x [OF assms(3)] rows assms(3) by (auto simp: upt_conv_Cons row_ok_def)
  moreover have "\<exists>rm. map_res (\<lambda>x. rm_row (sc_output x) p (sc_score x)) ?xs = Ok rm"
  proof -
    have "map_res (\<lambda>x. rm_row (sc_output x) p (sc_score x)) ?xs = Ok (map (\<lambda>x. projr (rm_row (sc_output x) p (sc_score x))) ?xs)"
    proof (rule map_res_all_Ok)
      fix y assume "y \<in> set ?xs"
      then obtain i where "i < ?n" "y = ?get i" by auto
      then have "row_ok p w (sc_output y)" using x by fastforce
      then show "rm_row (sc_output y) p (sc_score y) = Ok (projr (rm_row (sc_output y) p (sc_score y)))"
        using rm_row_Ok by (metis sum.sel(2))
    qed
    then show ?thesis by blast
  qed
  ultimately obtain rm where rm: "map_res (\<lambda>x. rm_row (sc_output x) (po_prompt r) (sc_score x)) ?xs = Ok rm"
    "map_res (\<lambda>x. rm_row (sc_output x) p (sc_score x)) ?xs = Ok rm" by auto
  let ?f = "\<lparr>fs_id = k, fs_epoch_of = ag_epoch g, fs_rows = map sc_output ?xs, fs_score = map sc_score ?xs, fs_rm_scores = rm,
    fs_extra = map (\<lambda>j. (j, map (\<lambda>x. dict_get (sc_extra x) j) ?xs)) (case ?xs of [] \<Rightarrow> [] | x # _ \<Rightarrow> dict_keys (sc_extra x)),
    fs_uid = replicate (length (map sc_output ?xs)) (''uid_'' @ k)\<rparr>"
  have "finalize_sample k g = Ok ?f"
    unfolding finalize_sample_def srt Let_def rows by (simp add: rm(1))
  moreover have "sample_ok p w h ?f"
    using assms(1) x rm(2) unfolding map_res_Ok_nth by (fastforce simp: sample_ok_def group_ok_def)
  ultimately show ?thesis by (intro exI [of _ ?f]) simp
qed

text \<open>What scoring an item finds: its tag is nowhere else, and its group so far.\<close>

definition group_of :: "'o sub_item \<Rightarrow> 'o aggregator \<Rightarrow> 'o group" where
  "group_of x a = dict_get_default (si_sample x) \<lparr>ag_total = si_total x, ag_epoch = si_epoch x, ag_items = []\<rparr> a"

lemma scored_of_simps [simp]: "sc_index (scored_of r x) = si_index x" "sc_output (scored_of r x) = si_output x"
  by (simp_all add: scored_of_def split: scoring.split)

lemma score_facts:
  assumes inv: "pp_inv p w s h" and k: "k < length (pp_scoring s)"
  defines "x \<equiv> pp_scoring s ! k"
  defines "g \<equiv> group_of x (pp_groups s)"
  shows "item_ok p w h x" "\<not> dict_has (si_index x) (ag_items g)" "si_sample x \<notin> set (hi_done h)"
    and "ag_total g = si_total x" "ag_epoch g = si_epoch x" "group_ok p w h (si_sample x) g"
    and "held (pp_groups s) = held (dict_del (si_sample x) (pp_groups s)) + mset (group_tags (si_sample x, g))"
    and "tags s h = add_mset (item_tag x) (tags (s\<lparr>pp_scoring := drop_nth k (pp_scoring s)\<rparr>) h)"
    and "item_tag x \<notin># tags (s\<lparr>pp_scoring := drop_nth k (pp_scoring s)\<rparr>) h"
proof -
  have "x \<in> set (pp_scoring s)" using k by (simp add: x_def)
  then show x: "item_ok p w h x" using inv by (auto simp: pp_inv_def stores_ok_def)
  show T: "tags s h = add_mset (item_tag x) (tags (s\<lparr>pp_scoring := drop_nth k (pp_scoring s)\<rparr>) h)"
    using mset_map_drop_nth [OF k, of item_tag] by (simp add: tags_def underway_def x_def)
  have one: "count (tags s h) t \<le> 1" and in_tags: "t \<in># tags s h \<Longrightarrow> fst t \<notin> set (hi_done h)" for t
    using inv unfolding pp_inv_def tags_ok_def by blast+
  show n: "item_tag x \<notin># tags (s\<lparr>pp_scoring := drop_nth k (pp_scoring s)\<rparr>) h"
    using one [of "item_tag x"] unfolding T by (simp add: count_eq_zero_iff)
  show "si_sample x \<notin> set (hi_done h)" using in_tags [of "item_tag x"] T by (simp add: item_tag_def)
  have ok: "dict_ok (pp_groups s)" using inv by (simp add: pp_inv_def stores_ok_def)
  show hd: "held (pp_groups s) = held (dict_del (si_sample x) (pp_groups s)) + mset (group_tags (si_sample x, g))"
  proof (cases "dict_get (pp_groups s) (si_sample x)")
    case None
    then show ?thesis by (simp add: held_None g_def group_of_def dict_get_default_def group_tags_def)
  next
    case (Some v)
    then show ?thesis using held_get [OF ok] by (simp add: g_def group_of_def dict_get_default_def)
  qed
  show "\<not> dict_has (si_index x) (ag_items g)"
  proof
    assume "dict_has (si_index x) (ag_items g)"
    then have "item_tag x \<in> set (group_tags (si_sample x, g))" by (auto simp: group_tags_def item_tag_def dict_has_iff)
    then have "item_tag x \<in># held (pp_groups s)" unfolding hd by simp
    then show False using n by (simp add: tags_def)
  qed
  have "group_ok p w h (si_sample x) g \<and> ag_total g = si_total x \<and> ag_epoch g = si_epoch x"
  proof (cases "dict_get (pp_groups s) (si_sample x)")
    case None
    then show ?thesis using x by (simp add: g_def group_of_def dict_get_default_def group_ok_def item_ok_def)
  next
    case (Some v)
    then have "group_ok p w h (si_sample x) v" using inv map_of_SomeD [OF Some] by (auto simp: pp_inv_def stores_ok_def)
    then show ?thesis using x Some by (simp add: g_def group_of_def dict_get_default_def group_ok_def item_ok_def)
  qed
  then show "ag_total g = si_total x" "ag_epoch g = si_epoch x" "group_ok p w h (si_sample x) g" by simp_all
qed

lemma group_ok_added:
  assumes "group_ok p w h (si_sample x) g" "\<not> dict_has (si_index x) (ag_items g)" "item_ok p w h x" "ag_total g = si_total x"
    and "started h' = started h" "hi_scored h' = (item_tag x, scored_of r x) # hi_scored h"
  shows "group_ok p w h' (si_sample x) (group_add (scored_of r x) g)"
    "ag_items (group_add (scored_of r x) g) = ag_items g @ [(si_index x, scored_of r x)]"
    "mset (group_tags (si_sample x, group_add (scored_of r x) g)) = add_mset (item_tag x) (mset (group_tags (si_sample x, g)))"
proof -
  show items: "ag_items (group_add (scored_of r x) g) = ag_items g @ [(si_index x, scored_of r x)]"
    using assms(2) by (simp add: group_add_def dict_set_new)
  show "mset (group_tags (si_sample x, group_add (scored_of r x) g)) = add_mset (item_tag x) (mset (group_tags (si_sample x, g)))"
    by (simp add: group_tags_def items item_tag_def)
  have "(i, y) \<in> set (ag_items g) \<Longrightarrow> i \<noteq> si_index x" for i y
    using assms(2) by (force simp: dict_has_iff)
  moreover have "dict_ok (ag_items g @ [(si_index x, scored_of r x)])"
    using assms(1,2) dict_ok_set [of "ag_items g" "si_index x" "scored_of r x"] by (simp add: dict_set_new group_ok_def)
  ultimately show "group_ok p w h' (si_sample x) (group_add (scored_of r x) g)"
    using assms(1,3,4) unfolding group_ok_def items assms(5,6)
    by (auto simp: group_add_def item_ok_def item_tag_def)
qed

lemma scored_elsewhere:
  assumes "started h' = started h" "hi_scored h' = (item_tag x, v) # hi_scored h" "j \<noteq> si_sample x"
  shows "group_ok p w h j g \<Longrightarrow> group_ok p w h' j g"
    and "fs_id f = j \<Longrightarrow> sample_ok p w h f \<Longrightarrow> sample_ok p w h' f"
  using assms by (auto simp: group_ok_def sample_ok_def item_tag_def)

lemma dict_set_mem: "dict_ok a \<Longrightarrow> (j, v) \<in> set (dict_set k g a) \<longleftrightarrow> (if j = k then v = g else (j, v) \<in> set a)"
proof -
  assume ok: "dict_ok a"
  have m: "(j, v) \<in> set d \<longleftrightarrow> dict_get d j = Some v" if "dict_ok d" for d using that by (simp add: dict_ok_def)
  show ?thesis unfolding m [OF ok] m [OF dict_ok_set [OF ok]] dict_get_set by auto
qed

lemma dict_del_set: "dict_del k (dict_set k g a) = dict_del k a"
  by (induction a) auto

lemma dict_del_mem: "(j, v) \<in> set (dict_del k a) \<longleftrightarrow> j \<noteq> k \<and> (j, v) \<in> set a"
  by (induction a) auto

lemma tags_ok_done:
  assumes T: "tags_ok T h" "T = T' + G" and G: "\<And>t. t \<in># G \<longleftrightarrow> (\<exists>i < n. t = (k, i))" and st: "started h k = Some (e, n)"
    and h': "started h' = started h" "hi_done h' = k # hi_done h"
  shows "tags_ok T' h'"
proof -
  have one: "count T t \<le> 1" and in_T: "t \<in># T \<Longrightarrow> fst t \<notin> set (hi_done h) \<and> (\<exists>e n. started h (fst t) = Some (e, n) \<and> snd t < n)"
    and all: "started h j = Some (e', n') \<Longrightarrow> j \<notin> set (hi_done h) \<Longrightarrow> i < n' \<Longrightarrow> (j, i) \<in># T" for t j e' n' i
    using T(1) unfolding tags_ok_def by blast+
  have ne: "fst t \<noteq> k" if t: "t \<in># T'" for t
  proof
    assume "fst t = k"
    then have "t \<in># G" using in_T [of t] t st G [of t] unfolding T(2) by (cases t) auto
    then have "2 \<le> count T t" using t unfolding T(2) by (simp add: Suc_le_eq flip: count_greater_zero_iff)
    then show False using one [of t] by simp
  qed
  have "(j, i) \<in># T'" if "started h j = Some (e', n')" "j \<notin> set (k # hi_done h)" "i < n'" for j e' n' i
  proof -
    have "(j, i) \<in># T" using all that by simp
    moreover have "(j, i) \<notin># G" using G that(2) by auto
    ultimately show ?thesis unfolding T(2) by simp
  qed
  moreover have "count T' t \<le> 1" for t using one [of t] unfolding T(2) by simp
  ultimately show ?thesis using ne in_T unfolding tags_ok_def h' T(2) by auto
qed

lemma group_size: "group_ok p w h k g \<Longrightarrow> length (ag_items g) \<le> ag_total g"
proof -
  assume g: "group_ok p w h k g"
  then have d: "distinct (dict_keys (ag_items g))" and "set (dict_keys (ag_items g)) \<subseteq> {0..<ag_total g}"
    by (auto simp: group_ok_def dict_ok_def)
  then have "card (set (dict_keys (ag_items g))) \<le> ag_total g" by (metis card_atLeastLessThan card_mono diff_zero finite_atLeastLessThan)
  then show ?thesis using distinct_card [OF d] by (simp del: set_map)
qed

lemma score_inv:
  assumes inv: "pp_inv p w s h" and k: "k < length (pp_scoring s)" and r: "r \<noteq> NoWorkers"
  shows "pp_inv p w (score_item k r accepted s) (note_event (Score k r accepted) s h)"
proof -
  define x where "x = pp_scoring s ! k"
  define g where "g = group_of x (pp_groups s)"
  let ?id = "si_sample x" and ?y = "scored_of r x" and ?a = "pp_groups s" and ?d = "drop_nth k (pp_scoring s)"
  let ?g = "group_add ?y g"
  define h' where "h' = note_event (Score k r accepted) s h"
  note f = score_facts [OF inv k, folded x_def, folded g_def]
  have h: "started h' = started h" "hi_scored h' = (item_tag x, ?y) # hi_scored h" "hi_lost h' = hi_lost h"
    "hi_done h' = (if is_complete ?g then ?id # hi_done h else hi_done h)"
    using r 
    by (auto simp: h'_def started_def fun_eq_iff Let_def x_def g_def group_of_def completes_def add_scored_item_def)
  note g = group_ok_added [OF f(6,2,1,4) h(1,2)]
  have ok: "dict_ok ?a" using inv by (simp add: pp_inv_def stores_ok_def)
  have task: "task_ok h' = task_ok h" "item_ok p w h' = item_ok p w h"
    by (intro ext, simp only: task_ok_def item_ok_def h(1))+
  have add: "add_scored_item ?id (si_total x) (si_epoch x) ?y ?a = (dict_set ?id ?g ?a, is_complete ?g)"
    by (simp add: add_scored_item_def Let_def g_def group_of_def)
  have held: "held (dict_set ?id ?g ?a) = add_mset (item_tag x) (held ?a)"
    unfolding held_set [OF ok] f(7) g(3) by simp
  have sub: "set ?d \<subseteq> set (pp_scoring s)" by (rule set_drop_nth)
  have len: "length (ag_items ?g) = Suc (length (ag_items g))" "ag_total ?g = si_total x" "ag_epoch ?g = si_epoch x"
    using f(4,5) by (simp_all add: g(2)) (simp_all add: group_add_def)
  have old: "group_ok p w h' j v \<and> ag_items v \<noteq> [] \<and> length (ag_items v) < ag_total v" if "(j, v) \<in> set ?a" "j \<noteq> ?id" for j v
    using inv that scored_elsewhere(1) [OF h(1,2) that(2)] by (auto simp: pp_inv_def stores_ok_def)
  have sent: "sample_ok p w h' f \<and> fs_id f \<in> set (hi_done h)" if "f \<in> set (pp_sent s)" for f
  proof -
    have "sample_ok p w h f" "fs_id f \<in> set (hi_done h)" using inv that by (auto simp: pp_inv_def sent_ok_def)
    moreover have "fs_id f \<noteq> ?id" using calculation(2) f(3) by auto
    ultimately show ?thesis using scored_elsewhere(2) [OF h(1,2) _ refl] by blast
  qed
  have "pp_inv p w (score_item k r accepted s) h'"
  proof (cases "is_complete ?g")
    case False
    have s: "score_item k r accepted s = s\<lparr>pp_scoring := ?d, pp_groups := dict_set ?id ?g ?a\<rparr>"
      using r False add by (simp add: score_item_def Let_def x_def)
    have "tags (s\<lparr>pp_scoring := ?d, pp_groups := dict_set ?id ?g ?a\<rparr>) h' = tags s h"
      unfolding f(8) by (simp add: tags_def underway_def held h(3))
    moreover have "length (ag_items ?g) < ag_total ?g"
      using group_size [OF g(1)] False by (simp add: is_complete_def)
    moreover have "sent_ok p w s h'"
      using inv sent f(3) False by (simp add: pp_inv_def sent_ok_def h)
    moreover have "stores_ok p w (s\<lparr>pp_scoring := ?d, pp_groups := dict_set ?id ?g ?a\<rparr>) h'"
      using inv sub old g(1,2) calculation(2) ok
      by (auto simp: pp_inv_def stores_ok_def task dict_set_mem [OF ok] split: if_splits)
    ultimately show ?thesis
      using inv False unfolding s by (auto simp: pp_inv_def sent_ok_def tags_ok_def h)
  next
    case True
    have n: "ag_total ?g = length (ag_items ?g)" "0 < ag_total ?g" using True len(1) by (simp_all add: is_complete_def)
    from finalize_ok [OF g(1) n(1) [symmetric] n(2)]
    obtain v where v: "finalize_sample ?id ?g = Ok v" "fs_id v = ?id" "sample_ok p w h' v" by blast
    have "dict_get (dict_set ?id ?g ?a) ?id = Some ?g" by simp
    moreover note dict_del_set [of ?id ?g ?a]
    ultimately have s: "score_item k r accepted s =
        (if accepted then s\<lparr>pp_scoring := ?d, pp_groups := dict_del ?id ?a, pp_sent := pp_sent s @ [v], pp_generated := pp_generated s + 1\<rparr>
         else s\<lparr>pp_scoring := ?d, pp_groups := dict_del ?id ?a, pp_dropped := pp_dropped s + 1\<rparr>)"
      using r True add v(1) by (simp add: score_item_def Let_def x_def get_and_remove_def)
    let ?s = "score_item k r accepted s"
    have parts: "pp_infer ?s = pp_infer s" "pp_queue ?s = pp_queue s" "pp_scoring ?s = ?d" "pp_groups ?s = dict_del ?id ?a"
      by (simp_all add: s)
    have T: "tags s h = tags ?s h' + mset (group_tags (?id, ?g))"
      unfolding f(8) unfolding tags_def underway_def parts h(3) by (simp add: f(7) g(3) parts)
    have "set (dict_keys (ag_items ?g)) = {0..<ag_total ?g}" by (rule complete_keys [OF g(1) n(1) [symmetric]])
    then have G: "t \<in># mset (group_tags (?id, ?g)) \<longleftrightarrow> (\<exists>i < ag_total ?g. t = (?id, i))" for t
      unfolding set_mset_mset group_tags_def fst_conv snd_conv set_map [of "Pair ?id"] by auto
    have "tags_ok (tags ?s h') h'"
      using tags_ok_done [OF _ T G, of h "ag_epoch ?g" h'] inv f(1) True len by (simp add: pp_inv_def item_ok_def h)
    moreover have "stores_ok p w ?s h'"
      using inv sub old ok by (auto simp: pp_inv_def stores_ok_def task parts dict_del_mem)
    moreover have "sent_ok p w ?s h'"
    proof -
      have "?id \<notin> set (map fs_id (pp_sent s))" using sent f(3) by auto
      then show ?thesis
        using inv sent v f(1,3) True by (auto simp: pp_inv_def sent_ok_def s h item_ok_def)
    qed
    ultimately show ?thesis by (simp add: pp_inv_def)
  qed
  then show ?thesis unfolding h'_def .
qed

lemma items_ok:
  assumes "pp_inv p w s h"
  shows "x \<in> set (pp_queue s) \<Longrightarrow> item_ok p w h x" "x \<in> set (pp_scoring s) \<Longrightarrow> item_ok p w h x"
  using assms by (simp_all add: pp_inv_def stores_ok_def)

lemma lost_inv:
  assumes "pp_inv p w s h"
  shows "k < length (pp_infer s) \<Longrightarrow>
      pp_inv p w (s\<lparr>pp_infer := drop_nth k (pp_infer s), pp_dropped := d\<rparr>) (lose (infer_tag (pp_infer s ! k)) h)"
    and "k < length (pp_queue s) \<Longrightarrow>
      pp_inv p w (s\<lparr>pp_queue := drop_nth k (pp_queue s)\<rparr>) (lose (item_tag (pp_queue s ! k)) h)"
    and "k < length (pp_scoring s) \<Longrightarrow>
      pp_inv p w (s\<lparr>pp_scoring := drop_nth k (pp_scoring s), pp_dropped := d\<rparr>) (lose (item_tag (pp_scoring s ! k)) h)"
proof -
  note items = items_ok [OF assms]
  note move = pp_inv_move [OF assms] and sub = subsetD [OF set_drop_nth]
  show "pp_inv p w (s\<lparr>pp_infer := drop_nth k (pp_infer s), pp_dropped := d\<rparr>) (lose (infer_tag (pp_infer s ! k)) h)" if "k < length (pp_infer s)"
    by (rule move) (auto simp: lose_def tags_def underway_def image_drop_nth [OF that] dest: sub intro: items)
  show "pp_inv p w (s\<lparr>pp_queue := drop_nth k (pp_queue s)\<rparr>) (lose (item_tag (pp_queue s ! k)) h)" if "k < length (pp_queue s)"
    by (rule move) (auto simp: lose_def tags_def underway_def image_drop_nth [OF that] dest: sub intro: items)
  show "pp_inv p w (s\<lparr>pp_scoring := drop_nth k (pp_scoring s), pp_dropped := d\<rparr>) (lose (item_tag (pp_scoring s ! k)) h)" if "k < length (pp_scoring s)"
    by (rule move) (auto simp: lose_def tags_def underway_def image_drop_nth [OF that] dest: sub intro: items)
qed

lemma infer_inv:
  assumes "pp_inv p w s h" "k < length (pp_infer s)" "row_ok p w row"
  shows "pp_inv p w (inferred k row True s) h"
proof -
  obtain j e i n where t: "pp_infer s ! k = (j, e, i, n)" by (cases "pp_infer s ! k")
  note items = items_ok [OF assms(1)]
  have "task_ok h (pp_infer s ! k)" using assms(1,2) by (simp add: pp_inv_def stores_ok_def)
  then have "item_ok p w h \<lparr>si_sample = j, si_epoch = e, si_index = i, si_total = n, si_output = row\<rparr>"
    using assms(3) by (simp add: t task_ok_def item_ok_def)
  then show ?thesis
    by (intro pp_inv_move [OF assms(1)])
      (auto simp: inferred_def t tags_def underway_def image_drop_nth [OF assms(2)] infer_tag_def item_tag_def
        dest: subsetD [OF set_drop_nth] intro: items)
qed

lemma deliver_inv:
  assumes "pp_inv p w s h" "k < length (pp_queue s)"
  shows "pp_inv p w (deliver k s) h"
proof -
  note items = items_ok [OF assms(1)]
  show ?thesis using assms(2)
    by (intro pp_inv_move [OF assms(1)])
      (auto simp: deliver_def tags_def underway_def image_drop_nth [OF assms(2)] dest: subsetD [OF set_drop_nth] intro: items)
qed

lemma step_inv:
  assumes inv: "pp_inv p w s h" and pos: "possible p w ev s h"
  shows "pp_inv p w (pp_exec ev s) (note_event ev s h)"
proof (cases ev)
  case (Infer k row a)
  obtain j e i n where t: "pp_infer s ! k = (j, e, i, n)" by (cases "pp_infer s ! k")
  show ?thesis using pos Infer infer_inv [OF inv, of k row] lost_inv(1) [OF inv, of k "pp_dropped s + 1"]
    by (cases a) (simp_all add: inferred_def t)
next
  case (Score k r a)
  show ?thesis
  proof (cases "r = NoWorkers")
    case True
    then show ?thesis using pos Score lost_inv(3) [OF inv, of k "pp_dropped s + 1"] by (simp add: score_item_def Let_def)
  next
    case False
    then show ?thesis using score_inv [OF inv _ False] pos Score by simp
  qed
qed (use pos submit_inv [OF inv] lost_inv(1,2) [OF inv] deliver_inv [OF inv] in \<open>simp_all add: infer_failed_def\<close>)

lemma run_inv: "pp_run p w s h \<Longrightarrow> pp_inv p w s h"
proof (induction rule: pp_run.induct)
  case run_init
  show ?case by (simp add: pp_inv_def tags_ok_def stores_ok_def sent_ok_def pp_init_def tags_def underway_def started_def dict_ok_def)
next
  case (run_step s h ev)
  then show ?case using step_inv by blast
qed

section \<open>Properties\<close>

text \<open>
  C11. In every run each sample that reaches the message queue is whole and reaches it once: it has as many rows as
  responses were asked for, row \<open>i\<close> is the output that was scored as response \<open>i\<close>, with that score, and the reward
  row puts it at the last response token; for an empty response it lands on the last padding position.
\<close>

theorem samples_reach_the_queue_whole:
  assumes "pp_run p w s h"
  shows "distinct (map fs_id (pp_sent s)) \<and>
    (\<forall>f \<in> set (pp_sent s). \<exists>n. started h (fs_id f) = Some (fs_epoch_of f, n) \<and> length (fs_rows f) = n \<and>
      (\<forall>i < n. \<exists>x. dict_get (hi_scored h) (fs_id f, i) = Some x \<and> fs_rows f ! i = sc_output x \<and> fs_score f ! i = sc_score x \<and>
         (let l = sum_list (drop p (po_attention (sc_output x)));
              width = length (po_response_mask (sc_output x))
          in fs_rm_scores f ! i = (replicate width 0)[if l = 0 then width - 1 else nat (l - 1) := sc_score x])))"
proof -
  have inv: "sent_ok p w s h" using run_inv [OF assms] by (simp add: pp_inv_def)
  have "rm = (replicate width 0)[if l = 0 then width - 1 else nat (l - 1) := score]"
    if "rm_row row p score = Ok rm" "l = sum_list (drop p (po_attention row))" "width = length (po_response_mask row)" "row_ok p w row"
    for row :: "'a output_row" and score rm l width
  proof -
    have "0 \<le> l"
      using bits_sum [of "drop p (po_attention row)"] that(2,4) by (auto simp: row_ok_def dest: in_set_dropD)
    then show ?thesis using that(1-3) by (cases "l = 0") (auto simp: rm_row_def Let_def nat_diff_distrib' split: if_splits)
  qed
  then show ?thesis using inv unfolding sent_ok_def sample_ok_def Let_def by metis
qed

lemma held_mem:
  assumes "dict_ok a" "(k, j) \<in># held a"
  shows "\<exists>g. dict_get a k = Some g \<and> dict_has j (ag_items g)"
proof -
  obtain g where g: "(k, g) \<in> set a" "j \<in> set (dict_keys (ag_items g))"
    using assms(2) by (fastforce simp: held_def group_tags_def)
  then have "dict_get a k = Some g" using assms(1) by (simp add: dict_ok_def)
  then show ?thesis using g(2) unfolding dict_has_iff by blast
qed

text \<open>
  C27. Once nothing of a sample is underway any more, its group has become complete exactly when none of its responses
  was lost. One failed inference, one item that the reward queue refuses or loses, and the other responses of the
  sample stay in the aggregator: it has no way to give up on a group.
\<close>

theorem lost_response_strands_sample:
  assumes run: "pp_run p w s h" and st: "started h k = Some (e, n)" "0 < n" and idle: "\<And>j. (k, j) \<notin># underway s"
  shows "(k \<in> set (hi_done h) \<longleftrightarrow> (\<forall>j < n. (k, j) \<notin> set (hi_lost h))) \<and>
    (k \<notin> set (hi_done h) \<longrightarrow> k \<notin> set (map fs_id (pp_sent s)) \<and>
      (\<forall>j < n. (k, j) \<notin> set (hi_lost h) \<longrightarrow> (\<exists>g. dict_get (pp_groups s) k = Some g \<and> dict_has j (ag_items g))))"
proof -
  have inv: "pp_inv p w s h" by (rule run_inv [OF run])
  have in_T: "t \<in># tags s h \<Longrightarrow> fst t \<notin> set (hi_done h)" and all: "k \<notin> set (hi_done h) \<Longrightarrow> j < n \<Longrightarrow> (k, j) \<in># tags s h" for t j
    using inv st(1) unfolding pp_inv_def tags_ok_def by blast+
  have ok: "dict_ok (pp_groups s)" using inv by (simp add: pp_inv_def stores_ok_def)
  have lost: "k \<notin> set (hi_done h)" if "(k, j) \<in> set (hi_lost h)" for j
    using in_T [of "(k, j)"] that by (simp add: tags_def)
  have kept: "\<exists>g. dict_get (pp_groups s) k = Some g \<and> dict_has j (ag_items g)"
    if "k \<notin> set (hi_done h)" "j < n" "(k, j) \<notin> set (hi_lost h)" for j
  proof -
    have "(k, j) \<in># held (pp_groups s)" using all [OF that(1,2)] idle [of j] that(3) by (auto simp: tags_def)
    then show ?thesis by (rule held_mem [OF ok])
  qed
  have "k \<in> set (hi_done h)" if none: "\<forall>j < n. (k, j) \<notin> set (hi_lost h)"
  proof (rule ccontr)
    assume nd: "k \<notin> set (hi_done h)"
    then obtain g where g: "dict_get (pp_groups s) k = Some g" using kept st(2) none by blast
    then have gk: "group_ok p w h k g" "length (ag_items g) < ag_total g"
      using inv map_of_SomeD [OF g] by (auto simp: pp_inv_def stores_ok_def)
    have "{0..<n} \<subseteq> set (dict_keys (ag_items g))"
      using kept [OF nd] none g by (auto simp: dict_has_iff simp del: set_map)
    then have "n \<le> card (set (dict_keys (ag_items g)))" by (metis List.finite_set card_atLeastLessThan card_mono diff_zero)
    also have "\<dots> \<le> length (ag_items g)" by (metis card_length length_map)
    finally show False using gk st(1) by (simp add: group_ok_def)
  qed
  moreover have "k \<notin> set (map fs_id (pp_sent s))" if "k \<notin> set (hi_done h)"
    using inv that by (auto simp: pp_inv_def sent_ok_def)
  ultimately show ?thesis using lost kept by blast
qed

section \<open>Two runs\<close>

fun pp_replay :: "nat \<Rightarrow> nat \<Rightarrow> 'o event list \<Rightarrow> 'o pipeline \<times> 'o history \<Rightarrow> ('o pipeline \<times> 'o history) option" where
  "pp_replay p w [] (s, h) = Some (s, h)"
| "pp_replay p w (ev # evs) (s, h) =
     (if possible p w ev s h then pp_replay p w evs (pp_exec ev s, note_event ev s h) else None)"

definition pp_start :: "'o pipeline \<times> 'o history" where
  "pp_start = (pp_init, \<lparr>hi_started = [], hi_lost = [], hi_scored = [], hi_done = []\<rparr>)"

lemma pp_replay_run: "pp_replay p w evs (s, h) = Some (s', h') \<Longrightarrow> pp_run p w s h \<Longrightarrow> pp_run p w s' h'"
  by (induction evs arbitrary: s h) (auto split: if_splits intro: run_step)

lemma pp_start_run: "pp_replay p w evs pp_start = Some (s', h') \<Longrightarrow> pp_run p w s' h'"
  unfolding pp_start_def by (erule pp_replay_run) (rule run_init)

definition demo_row :: "int \<Rightarrow> int \<Rightarrow> nat \<Rightarrow> nat output_row" where
  "demo_row a b d = \<lparr>po_prompt = 1, po_attention = [1, a, b], po_response_mask = [a, b], po_data = d\<rparr>"

text \<open>Both responses arrive, the second first; one is scored, the scoring of the other fails.\<close>

definition demo_whole :: "nat event list" where
  "demo_whole = [Submit ''a'' 3 2, Infer 0 (demo_row 1 0 7) True, Infer 0 (demo_row 1 1 8) True, Deliver 1, Deliver 0,
     Score 0 (Answer 5 []) True, Score 0 Raised True]"

definition demo_stranded :: "nat event list" where
  "demo_stranded = [Submit ''a'' 3 2, Infer 0 (demo_row 1 0 7) True, InferFails 0, Deliver 0, Score 0 (Answer 5 []) True]"

lemmas demo_defs = demo_whole_def demo_stranded_def demo_row_def pp_start_def pp_init_def submit_def inferred_def infer_failed_def
  deliver_def score_item_def drop_nth_def row_ok_def infer_tag_def item_tag_def lose_def scored_of_def completes_def
  add_scored_item_def get_and_remove_def group_add_def is_complete_def finalize_sample_def rm_row_def dict_has_def dict_get_default_def

lemma demo_whole_ends: "\<exists>s h. pp_replay 1 2 demo_whole pp_start = Some (s, h) \<and> map fs_id (pp_sent s) = [''a''] \<and>
    map fs_rm_scores (pp_sent s) = [[[- 1, 0], [0, 5]]] \<and> started h ''a'' = Some (3, 2)"
  by (simp add: demo_defs Let_def upt_rec started_def numeral_2_eq_2)

lemma demo_stranded_ends: "\<exists>s h. pp_replay 1 2 demo_stranded pp_start = Some (s, h) \<and> started h ''a'' = Some (3, 2) \<and>
    underway s = {#} \<and> hi_lost h = [(''a'', 1)] \<and> hi_done h = []"
  by (simp add: demo_defs Let_def upt_rec started_def underway_def)

theorem samples_reach_the_queue_whole_witness:
  "\<exists>s h f x. pp_run 1 2 (s :: nat pipeline) h \<and> pp_sent s = [f] \<and> dict_get (hi_scored h) (''a'', 1) = Some x \<and> fs_rows f ! 1 = sc_output x \<and>
    fs_rm_scores f ! 1 = [0, 5]"
proof -
  obtain s :: "nat pipeline" and h where e: "pp_replay 1 2 demo_whole pp_start = Some (s, h)" "map fs_id (pp_sent s) = [''a'']"
    "map fs_rm_scores (pp_sent s) = [[[- 1, 0], [0, 5]]]" "started h ''a'' = Some (3, 2)"
    using demo_whole_ends by (elim exE conjE)
  from e(2) obtain f where f: "pp_sent s = [f]" "fs_id f = ''a''" by auto
  note run = pp_start_run [OF e(1)]
  have "\<exists>x. dict_get (hi_scored h) (''a'', 1) = Some x \<and> fs_rows f ! 1 = sc_output x"
  proof -
    obtain n where n: "started h ''a'' = Some (fs_epoch_of f, n)"
      "\<forall>i < n. \<exists>x. dict_get (hi_scored h) (''a'', i) = Some x \<and> fs_rows f ! i = sc_output x"
      using samples_reach_the_queue_whole [OF run] unfolding f(1) list.set ball_simps f(2) Let_def by force
    then have "n = 2" using e(4) by simp
    then show ?thesis using n(2) by simp
  qed
  moreover have "fs_rm_scores f ! 1 = [0, 5]" using f e(3) by simp
  ultimately show ?thesis using run f(1) by blast
qed

theorem lost_response_strands_sample_witness:
  "\<exists>s h g. pp_run 1 2 (s :: nat pipeline) h \<and> hi_lost h = [(''a'', 1)] \<and> dict_get (pp_groups s) ''a'' = Some g \<and> dict_has 0 (ag_items g)"
proof -
  obtain s :: "nat pipeline" and h where e: "pp_replay 1 2 demo_stranded pp_start = Some (s, h)" "started h ''a'' = Some (3, 2)"
    "underway s = {#}" "hi_lost h = [(''a'', 1)]" "hi_done h = []"
    using demo_stranded_ends by (elim exE conjE)
  note run = pp_start_run [OF e(1)]
  have "\<exists>g. dict_get (pp_groups s) ''a'' = Some g \<and> dict_has 0 (ag_items g)"
    using lost_response_strands_sample [OF run e(2)] unfolding e(3-5) by simp
  then show ?thesis using run e(4) by blast
qed

end
