(* ===== verification/DynamoControl.thy ===== *)
theory DynamoControl
  imports Prelude
begin

text \<open>
  The control plane of the Dynamo rollout server (\<open>dynamo/dynamo_async_server.py\<close>, \<open>dynamo/dynamo_sglang_engine.py\<close>):
  releasing and restoring the memory of the engine shards of a node, pausing and resuming generation. The engines
  are processes outside the repository; the model keeps the requests that are sent to them. The ranks of a node
  release and resume concurrently, under the lock of the tags, so each call is atomic here; the other hooks do not
  take the lock, and the trainer calls them one after the other. The shards of one fan-out are independent of each
  other, so their requests are listed shard by shard. Logging, timeouts and profiling are left out.
\<close>

section \<open>Requests to the engines\<close>

datatype engine_kind = Vllm | Sglang

datatype route =
    PauseGeneration
  | ContinueGeneration
  | ReleaseMemory "string list"
  | ResumeMemory "string list"
  | FlushCache

text \<open>
  What becomes of a POST: it is answered; it raises and had no effect; or it raises although it took effect, as
  with a timeout or a lost connection.
\<close>

datatype outcome = Answered | Refused | Unanswered

text \<open>One call of a shard's client, with the POSTs it made, and whether it returned.\<close>

record client_call =
  cl_shard :: nat
  cl_posts :: "(route \<times> outcome) list"
  cl_ok :: bool

type_synonym answers = "nat \<Rightarrow> route \<Rightarrow> outcome"

definition client_post :: "answers \<Rightarrow> route \<Rightarrow> nat \<Rightarrow> client_call" where
  "client_post ans r i = \<lparr>cl_shard = i, cl_posts = [(r, ans i r)], cl_ok = (ans i r = Answered)\<rparr>"

text \<open>\<open>release_memory_occupation\<close>: pause, then release.\<close>

definition client_release :: "answers \<Rightarrow> nat \<Rightarrow> string list \<Rightarrow> client_call" where
  "client_release ans i tags =
     (let p = ans i PauseGeneration; r = ans i (ReleaseMemory tags)
      in if p \<noteq> Answered then \<lparr>cl_shard = i, cl_posts = [(PauseGeneration, p)], cl_ok = False\<rparr>
         else \<lparr>cl_shard = i, cl_posts = [(PauseGeneration, p), (ReleaseMemory tags, r)], cl_ok = (r = Answered)\<rparr>)"

text \<open>\<open>resume_memory_occupation\<close>: restore, then continue.\<close>

definition client_resume :: "answers \<Rightarrow> nat \<Rightarrow> string list \<Rightarrow> client_call" where
  "client_resume ans i tags =
     (let r = ans i (ResumeMemory tags); c = ans i ContinueGeneration
      in if r \<noteq> Answered then \<lparr>cl_shard = i, cl_posts = [(ResumeMemory tags, r)], cl_ok = False\<rparr>
         else \<lparr>cl_shard = i, cl_posts = [(ResumeMemory tags, r), (ContinueGeneration, c)], cl_ok = (c = Answered)\<rparr>)"

section \<open>The server\<close>

text \<open>
  \<open>sv_endpoints\<close> and \<open>sv_sidecars\<close> count the recorded control endpoints of either engine; \<open>sv_clients\<close> is the
  cached list of clients, \<open>sv_by_shard\<close> and \<open>sv_released\<close> are the tags believed released, \<open>sv_open\<close> is the event
  \<open>_generation_resumed\<close>.
\<close>

record server =
  sv_kind :: engine_kind
  sv_free :: bool
  sv_endpoints :: nat
  sv_sidecars :: nat
  sv_clients :: "nat option"
  sv_by_shard :: "string set list option"
  sv_released :: "string set"
  sv_open :: bool
  sv_log :: "client_call list"
  sv_sidecar_log :: "(nat \<times> string \<times> bool) list"

definition server_init :: "engine_kind \<Rightarrow> bool \<Rightarrow> server" where
  "server_init kind free = \<lparr>sv_kind = kind, sv_free = free, sv_endpoints = 0, sv_sidecars = 0, sv_clients = None,
     sv_by_shard = None, sv_released = {}, sv_open = True, sv_log = [], sv_sidecar_log = []\<rparr>"

text \<open>What \<open>_start_engine_workers\<close> records of one more worker.\<close>

definition launch_shard :: "server \<Rightarrow> server" where
  "launch_shard s = (case sv_kind s of
     Sglang \<Rightarrow> s\<lparr>sv_endpoints := sv_endpoints s + 1\<rparr>
   | Vllm \<Rightarrow> s\<lparr>sv_sidecars := sv_sidecars s + 1\<rparr>)"

definition control_clients :: "server \<Rightarrow> server \<times> nat" where
  "control_clients s = (case sv_clients s of
     None \<Rightarrow> (s\<lparr>sv_clients := Some (sv_endpoints s)\<rparr>, sv_endpoints s)
   | Some n \<Rightarrow> (s, n))"

definition shard_state :: "server \<Rightarrow> server \<times> string set list" where
  "shard_state s =
     (let (s', n) = control_clients s; fresh = replicate n {}
      in case sv_by_shard s' of
           Some xs \<Rightarrow> if length xs = n then (s', xs) else (s'\<lparr>sv_by_shard := Some fresh\<rparr>, fresh)
         | None \<Rightarrow> (s'\<lparr>sv_by_shard := Some fresh\<rparr>, fresh))"

definition refresh_released :: "server \<Rightarrow> server" where
  "refresh_released s = s\<lparr>sv_released := (case sv_by_shard s of None \<Rightarrow> {} | Some xs \<Rightarrow> \<Union> (set xs))\<rparr>"

text \<open>The part that release and resume share: call the targets, record the ones that succeeded, then raise if one failed.\<close>

definition fan_out :: "(nat \<Rightarrow> 'w \<Rightarrow> client_call) \<Rightarrow> (string set \<Rightarrow> 'w \<Rightarrow> string set) \<Rightarrow> (nat \<times> 'w) list \<Rightarrow> string set list \<Rightarrow> server
    \<Rightarrow> server \<times> unit result" where
  "fan_out call upd targets per s =
     (if targets = [] then (s, Ok ())
      else let calls = map (\<lambda>(i, w). call i w) targets;
               per' = foldl (\<lambda>p ((i, w), c). if cl_ok c then p[i := upd (p ! i) w] else p) per (zip targets calls);
               s' = refresh_released (s\<lparr>sv_by_shard := Some per', sv_log := sv_log s @ calls\<rparr>)
           in (s', if list_all cl_ok calls then Ok () else Err (RuntimeError ''failed on shard(s)'')))"

definition sglang_release :: "answers \<Rightarrow> string list \<Rightarrow> server \<Rightarrow> server \<times> unit result" where
  "sglang_release ans tags s =
     (let (s', per) = shard_state s;
          targets = filter (\<lambda>(i, w). w \<noteq> []) (map (\<lambda>i. (i, filter (\<lambda>t. t \<notin> per ! i) tags)) [0..<length per])
      in fan_out (client_release ans) (\<lambda>m w. m \<union> set w) targets per s')"

definition sglang_resume :: "answers \<Rightarrow> string list \<Rightarrow> server \<Rightarrow> server \<times> unit result" where
  "sglang_resume ans tags s =
     (let (s', per) = shard_state s;
          targets = filter (\<lambda>(i, w). w \<noteq> []) (map (\<lambda>i. (i, sorted_list_of_set (per ! i))) [0..<length per])
      in fan_out (client_resume ans) (\<lambda>m w. m - set w) targets per s')"

definition control_all :: "answers \<Rightarrow> route \<Rightarrow> server \<Rightarrow> server \<times> unit result" where
  "control_all ans r s =
     (let (s', n) = control_clients s; calls = map (client_post ans r) [0..<n]
      in (s'\<lparr>sv_log := sv_log s @ calls\<rparr>,
          if list_all cl_ok calls then Ok () else Err (RuntimeError ''dynamo.sglang control call failed'')))"

definition engine_method_all :: "(nat \<Rightarrow> string \<Rightarrow> bool) \<Rightarrow> string \<Rightarrow> server \<Rightarrow> server \<times> unit result" where
  "engine_method_all sidecar meth s =
     (let replies = map (\<lambda>i. (i, meth, sidecar i meth)) [0..<sv_sidecars s]
      in (s\<lparr>sv_sidecar_log := sv_sidecar_log s @ replies\<rparr>,
          if list_all (\<lambda>(i, m, ok). ok) replies then Ok () else Err (RuntimeError ''engine_method failed'')))"

section \<open>Life cycle hooks\<close>

type_synonym sidecars = "nat \<Rightarrow> string \<Rightarrow> bool"

definition and_then :: "server \<times> unit result \<Rightarrow> (server \<Rightarrow> server \<times> unit result) \<Rightarrow> server \<times> unit result" where
  "and_then r f = (case r of (s, Inl e) \<Rightarrow> (s, Inl e) | (s, Inr u) \<Rightarrow> f s)"

definition wake_up :: "answers \<Rightarrow> sidecars \<Rightarrow> string list \<Rightarrow> server \<Rightarrow> server \<times> unit result" where
  "wake_up ans sidecar tags s =
     (if \<not> sv_free s then (s, Ok ())
      else if sv_kind s = Sglang then sglang_resume ans (if tags = [] then [''kv_cache'', ''weights''] else tags) s
      else engine_method_all sidecar ''wake_up'' s)"

definition sleep :: "answers \<Rightarrow> sidecars \<Rightarrow> server \<Rightarrow> server \<times> unit result" where
  "sleep ans sidecar s =
     (if \<not> sv_free s then (s, Ok ())
      else if sv_kind s = Sglang then sglang_release ans [''kv_cache'', ''weights''] s
      else engine_method_all sidecar ''sleep'' s)"

definition clear_kv_cache :: "answers \<Rightarrow> sidecars \<Rightarrow> server \<Rightarrow> server \<times> unit result" where
  "clear_kv_cache ans sidecar s =
     (if sv_kind s = Sglang then control_all ans FlushCache s else engine_method_all sidecar ''reset_prefix_cache'' s)"

definition release_kv_cache :: "answers \<Rightarrow> server \<Rightarrow> server \<times> unit result" where
  "release_kv_cache ans s = (if sv_kind s = Sglang then sglang_release ans [''kv_cache''] s else (s, Ok ()))"

definition resume_kv_cache :: "answers \<Rightarrow> server \<Rightarrow> server \<times> unit result" where
  "resume_kv_cache ans s = (if sv_kind s = Sglang then sglang_resume ans [''kv_cache''] s else (s, Ok ()))"

definition wait_for_requests_to_drain :: "sidecars \<Rightarrow> server \<Rightarrow> server \<times> unit result" where
  "wait_for_requests_to_drain sidecar s = engine_method_all sidecar ''wait_for_requests_to_drain'' s"

definition abort_all_requests :: "answers \<Rightarrow> sidecars \<Rightarrow> bool \<Rightarrow> bool \<Rightarrow> server \<Rightarrow> server \<times> unit result" where
  "abort_all_requests ans sidecar direct reset_prefix_cache s =
     (if sv_kind s = Sglang
      then and_then (control_all ans PauseGeneration (s\<lparr>sv_open := False\<rparr>)) (\<lambda>s'.
             if reset_prefix_cache then control_all ans FlushCache s' else (s', Ok ()))
      else if direct then (s, Err (RuntimeError ''direct_generate=true is incompatible with abort_all_requests''))
      else engine_method_all sidecar ''pause_generation'' (s\<lparr>sv_open := False\<rparr>))"

definition resume_generation :: "answers \<Rightarrow> sidecars \<Rightarrow> server \<Rightarrow> server \<times> unit result" where
  "resume_generation ans sidecar s =
     and_then (if sv_kind s = Sglang then control_all ans ContinueGeneration s else (s, Ok ())) (\<lambda>s'.
     and_then (engine_method_all sidecar ''resume_generation'' s') (\<lambda>s''. (s''\<lparr>sv_open := True\<rparr>, Ok ())))"

text \<open>The ranks' adapter (\<open>dynamo/dynamo_sglang_rollout.py\<close>): only the leader of a shard has a client.\<close>

definition adapter_resume :: "bool \<Rightarrow> answers \<Rightarrow> string list \<Rightarrow> server \<Rightarrow> server \<times> unit result" where
  "adapter_resume leader ans tags s = (if \<not> leader \<or> \<not> sv_free s then (s, Ok ()) else sglang_resume ans tags s)"

definition adapter_release :: "bool \<Rightarrow> answers \<Rightarrow> server \<Rightarrow> server \<times> unit result" where
  "adapter_release leader ans s = (if \<not> leader \<or> \<not> sv_free s then (s, Ok ()) else sglang_release ans [''kv_cache'', ''weights''] s)"

section \<open>Runs\<close>

datatype control_op =
    LaunchShard
  | Release "string list"
  | Resume "string list"
  | WakeUp "string list"
  | Sleep
  | ClearKv
  | ReleaseKv
  | ResumeKv
  | WaitDrain
  | AbortAll bool bool
  | ResumeGeneration
  | AdapterResume bool "string list"
  | AdapterRelease bool

fun control_exec :: "answers \<Rightarrow> sidecars \<Rightarrow> control_op \<Rightarrow> server \<Rightarrow> server \<times> unit result" where
  "control_exec ans sc LaunchShard s = (launch_shard s, Ok ())"
| "control_exec ans sc (Release tags) s = sglang_release ans tags s"
| "control_exec ans sc (Resume tags) s = sglang_resume ans tags s"
| "control_exec ans sc (WakeUp tags) s = wake_up ans sc tags s"
| "control_exec ans sc Sleep s = sleep ans sc s"
| "control_exec ans sc ClearKv s = clear_kv_cache ans sc s"
| "control_exec ans sc ReleaseKv s = release_kv_cache ans s"
| "control_exec ans sc ResumeKv s = resume_kv_cache ans s"
| "control_exec ans sc WaitDrain s = wait_for_requests_to_drain sc s"
| "control_exec ans sc (AbortAll direct reset) s = abort_all_requests ans sc direct reset s"
| "control_exec ans sc ResumeGeneration s = resume_generation ans sc s"
| "control_exec ans sc (AdapterResume leader tags) s = adapter_resume leader ans tags s"
| "control_exec ans sc (AdapterRelease leader) s = adapter_release leader ans s"

text \<open>Callers list each tag once, and resume generation after the memory, as the choreography of a weight sync has it.\<close>

fun orderly :: "control_op \<Rightarrow> server \<Rightarrow> bool" where
  "orderly (Release tags) s \<longleftrightarrow> distinct tags"
| "orderly ResumeGeneration s \<longleftrightarrow> sv_released s = {}"
| "orderly _ s \<longleftrightarrow> True"

inductive control_run :: "server \<Rightarrow> bool" where
  control_start: "control_run (server_init kind free)"
| control_step: "control_run s \<Longrightarrow> orderly op s \<Longrightarrow> control_run (fst (control_exec ans sc op s))"

section \<open>What an engine sees\<close>

text \<open>
  The memory of a shard as its engine has it, from the POSTs that took effect: the tags that are released. SGLang
  corrupts its pool when a released tag is released again, and its scheduler dies when a tag is restored that is
  not released; generation must not continue while memory is released.
\<close>

fun released_after :: "string set \<Rightarrow> (route \<times> outcome) list \<Rightarrow> string set" where
  "released_after m [] = m"
| "released_after m ((r, out) # ps) =
     released_after (if out = Refused then m else case r of ReleaseMemory ts \<Rightarrow> m \<union> set ts | ResumeMemory ts \<Rightarrow> m - set ts | _ \<Rightarrow> m) ps"

fun lawful_post :: "string set \<Rightarrow> route \<Rightarrow> bool" where
  "lawful_post m (ReleaseMemory ts) \<longleftrightarrow> ts \<noteq> [] \<and> distinct ts \<and> set ts \<inter> m = {}"
| "lawful_post m (ResumeMemory ts) \<longleftrightarrow> ts \<noteq> [] \<and> set ts = m"
| "lawful_post m ContinueGeneration \<longleftrightarrow> m = {}"
| "lawful_post m _ \<longleftrightarrow> True"

fun lawful :: "string set \<Rightarrow> (route \<times> outcome) list \<Rightarrow> bool" where
  "lawful m [] \<longleftrightarrow> True"
| "lawful m ((r, out) # ps) \<longleftrightarrow> lawful_post m r \<and> lawful (released_after m [(r, out)]) ps"

definition posts_to :: "nat \<Rightarrow> client_call list \<Rightarrow> (route \<times> outcome) list" where
  "posts_to i log = concat (map cl_posts (filter (\<lambda>c. cl_shard c = i) log))"

text \<open>A call that raised although it changed the memory of the shard.\<close>

definition half_done :: "client_call \<Rightarrow> bool" where
  "half_done c \<longleftrightarrow> \<not> cl_ok c \<and> (\<exists>(r, out) \<in> set (cl_posts c). out \<noteq> Refused \<and> (case r of ReleaseMemory _ \<Rightarrow> True | ResumeMemory _ \<Rightarrow> True | _ \<Rightarrow> False))"

definition settled :: "nat \<Rightarrow> server \<Rightarrow> bool" where
  "settled i s \<longleftrightarrow> list_all (\<lambda>c. cl_shard c = i \<longrightarrow> \<not> half_done c) (sv_log s)"

text \<open>The tags that the server believes released on shard \<open>i\<close>.\<close>

definition believed :: "nat \<Rightarrow> server \<Rightarrow> string set" where
  "believed i s = (case sv_by_shard s of Some xs \<Rightarrow> if i < length xs then xs ! i else {} | None \<Rightarrow> {})"

section \<open>Lemmas about calls and logs\<close>

lemma released_after_append: "released_after m (ps @ qs) = released_after (released_after m ps) qs"
  by (induction ps arbitrary: m) auto

lemma lawful_append: "lawful m (ps @ qs) \<longleftrightarrow> lawful m ps \<and> lawful (released_after m ps) qs"
  by (induction ps arbitrary: m) auto

lemma posts_to_append: "posts_to i (log @ calls) = posts_to i log @ posts_to i calls"
  by (simp add: posts_to_def)

lemma settled_append: "settled i (s\<lparr>sv_log := sv_log s @ calls\<rparr>) \<longleftrightarrow> settled i s \<and> list_all (\<lambda>c. cl_shard c = i \<longrightarrow> \<not> half_done c) calls"
  by (simp add: settled_def)

lemma call_shards [simp]: "cl_shard (client_post ans r i) = i" "cl_shard (client_release ans i w) = i" "cl_shard (client_resume ans i w) = i"
  by (simp_all add: client_post_def client_release_def client_resume_def Let_def)

lemma client_release_cases:
  "ans i PauseGeneration \<noteq> Answered \<Longrightarrow> client_release ans i w = \<lparr>cl_shard = i, cl_posts = [(PauseGeneration, ans i PauseGeneration)], cl_ok = False\<rparr>"
  "ans i PauseGeneration = Answered \<Longrightarrow> client_release ans i w =
     \<lparr>cl_shard = i, cl_posts = [(PauseGeneration, Answered), (ReleaseMemory w, ans i (ReleaseMemory w))], cl_ok = (ans i (ReleaseMemory w) = Answered)\<rparr>"
  by (simp_all add: client_release_def Let_def)

lemma client_resume_cases:
  "ans i (ResumeMemory w) \<noteq> Answered \<Longrightarrow> client_resume ans i w = \<lparr>cl_shard = i, cl_posts = [(ResumeMemory w, ans i (ResumeMemory w))], cl_ok = False\<rparr>"
  "ans i (ResumeMemory w) = Answered \<Longrightarrow> client_resume ans i w =
     \<lparr>cl_shard = i, cl_posts = [(ResumeMemory w, Answered), (ContinueGeneration, ans i ContinueGeneration)], cl_ok = (ans i ContinueGeneration = Answered)\<rparr>"
  by (simp_all add: client_resume_def Let_def)

lemma release_effect:
  assumes "\<not> half_done (client_release ans i w)" "w \<noteq> []" "distinct w" "set w \<inter> m = {}"
  shows "lawful m (cl_posts (client_release ans i w)) \<and>
    released_after m (cl_posts (client_release ans i w)) = (if cl_ok (client_release ans i w) then m \<union> set w else m)"
proof (cases "ans i PauseGeneration = Answered")
  case True
  note c = client_release_cases(2) [where ans = ans and i = i and w = w, OF True]
  show ?thesis using assms unfolding c by (cases "ans i (ReleaseMemory w)") (simp_all add: half_done_def)
next
  case False
  show ?thesis unfolding client_release_cases(1) [where ans = ans and i = i and w = w, OF False] by simp
qed

lemma resume_effect:
  assumes "\<not> half_done (client_resume ans i w)" "w \<noteq> []" "set w = m"
  shows "lawful m (cl_posts (client_resume ans i w)) \<and>
    released_after m (cl_posts (client_resume ans i w)) = (if cl_ok (client_resume ans i w) then m - set w else m)"
proof (cases "ans i (ResumeMemory w) = Answered")
  case True
  note c = client_resume_cases(2) [where ans = ans and i = i and w = w, OF True]
  show ?thesis using assms unfolding c by (cases "ans i ContinueGeneration") (simp_all add: half_done_def)
next
  case False
  note c = client_resume_cases(1) [where ans = ans and i = i and w = w, OF False]
  show ?thesis using assms False unfolding c by (cases "ans i (ResumeMemory w)") (simp_all add: half_done_def)
qed

text \<open>A fan-out calls each target once and changes what is believed of the targets that succeeded.\<close>

lemma posts_to_calls:
  assumes "distinct (map fst ts)" "\<And>i w. cl_shard (call i w) = i"
  shows "posts_to i (map (\<lambda>(i, w). call i w) ts) = (case map_of ts i of None \<Rightarrow> [] | Some w \<Rightarrow> cl_posts (call i w))"
  using assms(1)
proof (induction ts)
  case (Cons t ts)
  obtain j w where t: "t = (j, w)" by (cases t)
  have "filter (\<lambda>c. cl_shard c = j) (map (\<lambda>(i, w). call i w) ts) = []"
    using Cons.prems assms(2) t by (force simp: filter_empty_conv)
  then show ?case using Cons t assms(2) by (auto simp: posts_to_def)
qed (simp add: posts_to_def)

lemma recorded:
  fixes call :: "nat \<Rightarrow> 'w \<Rightarrow> client_call" and upd :: "string set \<Rightarrow> 'w \<Rightarrow> string set"
  assumes "distinct (map fst ts)" "\<forall>(i, w) \<in> set ts. i < length p"
  defines "q \<equiv> foldl (\<lambda>p ((i, w), c). if cl_ok c then p[i := upd (p ! i) w] else p) p (zip ts (map (\<lambda>(i, w). call i w) ts))"
  shows "length q = length p \<and> (\<forall>i. q ! i = (case map_of ts i of None \<Rightarrow> p ! i | Some w \<Rightarrow> if cl_ok (call i w) then upd (p ! i) w else p ! i))"
  using assms(1,2) unfolding q_def
proof (induction ts arbitrary: p)
  case (Cons t ts)
  obtain j w where t: "t = (j, w)" by (cases t)
  let ?p = "if cl_ok (call j w) then p[j := upd (p ! j) w] else p"
  have j: "j < length p" "map_of ts j = None" using Cons.prems t by (auto simp: map_of_eq_None_iff)
  have "\<forall>(i, w) \<in> set ts. i < length ?p" using Cons.prems by auto
  from Cons.IH [OF _ this] Cons.prems(1) t
  have IH: "length (foldl (\<lambda>p ((i, w), c). if cl_ok c then p[i := upd (p ! i) w] else p) ?p (zip ts (map (\<lambda>(i, w). call i w) ts))) = length ?p \<and>
    (\<forall>i. foldl (\<lambda>p ((i, w), c). if cl_ok c then p[i := upd (p ! i) w] else p) ?p (zip ts (map (\<lambda>(i, w). call i w) ts)) ! i =
      (case map_of ts i of None \<Rightarrow> ?p ! i | Some w \<Rightarrow> if cl_ok (call i w) then upd (?p ! i) w else ?p ! i))"
    by simp
  show ?case using IH j t by (auto split: option.splits)
qed simp

section \<open>The invariant\<close>

definition shard_ok :: "nat \<Rightarrow> server \<Rightarrow> bool" where
  "shard_ok i s \<longleftrightarrow> (settled i s \<longrightarrow> lawful {} (posts_to i (sv_log s)) \<and> released_after {} (posts_to i (sv_log s)) = believed i s)"

definition control_inv :: "server \<Rightarrow> bool" where
  "control_inv s \<longleftrightarrow> (\<forall>i. shard_ok i s) \<and>
     (case sv_by_shard s of
        None \<Rightarrow> sv_released s = {}
      | Some xs \<Rightarrow> sv_clients s = Some (length xs) \<and> (\<forall>m \<in> set xs. finite m) \<and> sv_released s = \<Union> (set xs))"

lemma control_inv_cong:
  "sv_clients s' = sv_clients s \<Longrightarrow> sv_by_shard s' = sv_by_shard s \<Longrightarrow> sv_released s' = sv_released s \<Longrightarrow> sv_log s' = sv_log s \<Longrightarrow>
   control_inv s' = control_inv s"
  by (simp add: control_inv_def shard_ok_def settled_def believed_def cong: option.case_cong)

lemma clients_inv:
  assumes "control_inv s" "control_clients s = (s', n)"
  shows "control_inv s'" "sv_log s' = sv_log s" "sv_released s' = sv_released s" "sv_clients s' = Some n" "sv_kind s' = sv_kind s"
    "sv_sidecars s' = sv_sidecars s" "sv_by_shard s' = sv_by_shard s"
  using assms by (auto simp: control_clients_def control_inv_def shard_ok_def settled_def believed_def split: option.splits)

lemma state_inv:
  assumes "control_inv s" "shard_state s = (s', per)"
  shows "control_inv s'" "sv_log s' = sv_log s" "sv_by_shard s' = Some per" "sv_clients s' = Some (length per)" "believed i s' = believed i s"
    "sv_kind s' = sv_kind s" "sv_sidecars s' = sv_sidecars s"
proof -
  obtain t n where t: "control_clients s = (t, n)" by (cases "control_clients s")
  note c = clients_inv [OF assms(1) t]
  show "control_inv s'" "sv_log s' = sv_log s" "sv_by_shard s' = Some per" "sv_clients s' = Some (length per)" "believed i s' = believed i s"
    "sv_kind s' = sv_kind s" "sv_sidecars s' = sv_sidecars s"
    using assms(2) c by (auto simp: shard_state_def t Let_def control_inv_def shard_ok_def settled_def believed_def split: option.splits if_splits)
qed

lemma fan_out_inv:
  assumes inv: "control_inv s" "sv_by_shard s = Some per"
    and ts: "distinct (map fst ts)" "\<And>i w. (i, w) \<in> set ts \<Longrightarrow> i < length per"
    and call: "\<And>i w. cl_shard (call i w) = i"
    and eff: "\<And>i w. (i, w) \<in> set ts \<Longrightarrow> \<not> half_done (call i w) \<Longrightarrow> lawful (per ! i) (cl_posts (call i w)) \<and>
      released_after (per ! i) (cl_posts (call i w)) = (if cl_ok (call i w) then upd (per ! i) w else per ! i)"
    and fin: "\<And>m w. finite m \<Longrightarrow> finite (upd m w)"
  shows "control_inv (fst (fan_out call upd ts per s))"
proof (cases "ts = []")
  case False
  define q where "q = foldl (\<lambda>p ((i, w), c). if cl_ok c then p[i := upd (p ! i) w] else p) per (zip ts (map (\<lambda>(i, w). call i w) ts))"
  have q: "length q = length per" "\<And>i. q ! i = (case map_of ts i of None \<Rightarrow> per ! i | Some w \<Rightarrow> if cl_ok (call i w) then upd (per ! i) w else per ! i)"
    using recorded [OF ts(1), of per upd call] ts(2) unfolding q_def by auto
  define s' where "s' = refresh_released (s\<lparr>sv_by_shard := Some q, sv_log := sv_log s @ map (\<lambda>(i, w). call i w) ts\<rparr>)"
  have s': "fst (fan_out call upd ts per s) = s'" using False by (simp add: fan_out_def Let_def q_def s'_def)
  have fields: "sv_by_shard s' = Some q" "sv_clients s' = sv_clients s" "sv_released s' = \<Union> (set q)"
    "sv_log s' = sv_log s @ map (\<lambda>(i, w). call i w) ts" by (simp_all add: s'_def refresh_released_def)
  have "shard_ok i s'" for i
  proof -
    have old: "shard_ok i s" using inv(1) by (simp add: control_inv_def)
    have "lawful {} (posts_to i (sv_log s')) \<and> released_after {} (posts_to i (sv_log s')) = believed i s'" if st: "settled i s'"
    proof -
      have sets: "settled i s" "\<And>w. (i, w) \<in> set ts \<Longrightarrow> \<not> half_done (call i w)"
        using st call by (auto simp: settled_def fields list_all_iff)
      then have prev: "lawful {} (posts_to i (sv_log s))" "released_after {} (posts_to i (sv_log s)) = believed i s"
        using old by (auto simp: shard_ok_def)
      show ?thesis
      proof (cases "map_of ts i")
        case None
        then show ?thesis using prev q by (simp add: fields posts_to_append posts_to_calls [OF ts(1) call] believed_def inv(2))
      next
        case (Some w)
        then have mem: "(i, w) \<in> set ts" by (rule map_of_SomeD)
        have b: "believed i s = per ! i" "believed i s' = q ! i" using ts(2) [OF mem] q(1) by (simp_all add: believed_def inv(2) fields)
        show ?thesis
          using prev eff [OF mem sets(2) [OF mem]] Some q(2) [of i]
          by (simp add: fields posts_to_append posts_to_calls [OF ts(1) call] lawful_append released_after_append b)
      qed
    qed
    then show ?thesis by (simp add: shard_ok_def)
  qed
  moreover have "\<forall>m \<in> set q. finite m"
  proof
    fix m assume "m \<in> set q"
    then obtain i where i: "i < length per" "m = q ! i" using q(1) by (auto simp: in_set_conv_nth)
    then have "finite (per ! i)" using inv by (auto simp: control_inv_def)
    then show "finite m" using i fin by (auto simp: q(2) split: option.splits)
  qed
  ultimately show ?thesis using inv q(1) by (simp add: control_inv_def s' fields)
qed (use inv in \<open>simp add: fan_out_def\<close>)

lemma targets_facts:
  assumes "ts = filter (\<lambda>(i, w). w \<noteq> []) (map (\<lambda>i. (i, f i)) [0..<n])"
  shows "distinct (map fst ts)" "(i, w) \<in> set ts \<longleftrightarrow> i < n \<and> w = f i \<and> w \<noteq> []"
proof -
  have "map fst ts = filter (\<lambda>i. f i \<noteq> []) [0..<n]" using assms by (simp add: filter_map comp_def)
  then show "distinct (map fst ts)" by simp
qed (auto simp: assms)

lemma release_inv: "control_inv s \<Longrightarrow> distinct tags \<Longrightarrow> control_inv (fst (sglang_release ans tags s))"
proof -
  assume inv: "control_inv s" and d: "distinct tags"
  obtain s' per where s': "shard_state s = (s', per)" by (cases "shard_state s")
  note c = state_inv [OF inv s']
  define ts where "ts = filter (\<lambda>(i, w). w \<noteq> []) (map (\<lambda>i. (i, filter (\<lambda>t. t \<notin> per ! i) tags)) [0..<length per])"
  note ts = targets_facts [OF ts_def]
  have "control_inv (fst (fan_out (client_release ans) (\<lambda>m w. m \<union> set w) ts per s'))"
  proof (rule fan_out_inv [OF c(1,3) ts(1)])
    fix i w assume m: "(i, w) \<in> set ts" and nh: "\<not> half_done (client_release ans i w)"
    show "lawful (per ! i) (cl_posts (client_release ans i w)) \<and> released_after (per ! i) (cl_posts (client_release ans i w)) =
        (if cl_ok (client_release ans i w) then per ! i \<union> set w else per ! i)"
    proof -
      have w: "w \<noteq> []" "distinct w" "set w \<inter> per ! i = {}" using m d by (auto simp: ts(2))
      show ?thesis by (rule release_effect [OF nh w])
    qed
  qed (auto simp: ts(2))
  then show ?thesis by (simp add: sglang_release_def s' ts_def)
qed

lemma resume_inv: "control_inv s \<Longrightarrow> control_inv (fst (sglang_resume ans tags s))"
proof -
  assume inv: "control_inv s"
  obtain s' per where s': "shard_state s = (s', per)" by (cases "shard_state s")
  note c = state_inv [OF inv s']
  define ts where "ts = filter (\<lambda>(i, w). w \<noteq> []) (map (\<lambda>i. (i, sorted_list_of_set (per ! i))) [0..<length per])"
  note ts = targets_facts [OF ts_def]
  have fin: "finite (per ! i)" if "i < length per" for i using c(1,3) that by (auto simp: control_inv_def)
  have "control_inv (fst (fan_out (client_resume ans) (\<lambda>m w. m - set w) ts per s'))"
  proof (rule fan_out_inv [OF c(1,3) ts(1)])
    fix i w assume m: "(i, w) \<in> set ts" and nh: "\<not> half_done (client_resume ans i w)"
    show "lawful (per ! i) (cl_posts (client_resume ans i w)) \<and> released_after (per ! i) (cl_posts (client_resume ans i w)) =
        (if cl_ok (client_resume ans i w) then per ! i - set w else per ! i)"
    proof -
      have w: "w \<noteq> []" "set w = per ! i" using m fin by (auto simp: ts(2))
      show ?thesis by (rule resume_effect [OF nh w])
    qed
  qed (auto simp: ts(2))
  then show ?thesis by (simp add: sglang_resume_def s' ts_def)
qed

lemma control_all_inv:
  assumes inv: "control_inv s" and r: "r \<in> {PauseGeneration, FlushCache} \<or> r = ContinueGeneration \<and> sv_released s = {}"
  shows "control_inv (fst (control_all ans r s))" "sv_released (fst (control_all ans r s)) = sv_released s"
proof -
  obtain s' n where s': "control_clients s = (s', n)" by (cases "control_clients s")
  note c = clients_inv [OF inv s']
  define calls where "calls = map (client_post ans r) [0..<n]"
  have fst_eq: "fst (control_all ans r s) = s'\<lparr>sv_log := sv_log s @ calls\<rparr>" by (simp add: control_all_def s' calls_def Let_def)
  show "sv_released (fst (control_all ans r s)) = sv_released s" by (simp add: fst_eq c)
  have posts: "set (posts_to i calls) \<subseteq> {(r, ans i r)}" for i by (auto simp: posts_to_def calls_def client_post_def)
  have same: "released_after m ps = m" if "set ps \<subseteq> {(r, a)}" for m ps a using that r by (induction ps) auto
  have fine: "lawful m ps" if "set ps \<subseteq> {(r, a)}" "r = ContinueGeneration \<Longrightarrow> m = {}" for m ps a
    using that(1) by (induction ps) (use r that(2) same [of "[(r, a)]"] in auto)
  have empty: "believed i s' = {}" if "r = ContinueGeneration" for i
    using c(1,3) r that by (auto simp: control_inv_def believed_def split: option.splits)
  have "shard_ok i (s'\<lparr>sv_log := sv_log s @ calls\<rparr>)" for i
  proof -
    have "shard_ok i s'" using c(1) by (simp add: control_inv_def)
    then have "settled i s' \<Longrightarrow> lawful {} (posts_to i (sv_log s @ calls)) \<and> released_after {} (posts_to i (sv_log s @ calls)) = believed i s'"
      using fine [OF posts, of "believed i s'"] empty [of i] same [OF posts]
      by (simp add: shard_ok_def c(2) posts_to_append lawful_append released_after_append)
    then show ?thesis by (simp add: shard_ok_def settled_def c(2) believed_def)
  qed
  then show "control_inv (fst (control_all ans r s))" using c(1) by (simp add: fst_eq control_inv_def cong: option.case_cong)
qed

lemma engine_method_inv: "control_inv (fst (engine_method_all sc meth s)) = control_inv s"
  by (rule control_inv_cong) (simp_all add: engine_method_all_def Let_def)

lemma and_then_fst: "fst (and_then r f) = (if isl (snd r) then fst r else fst (f (fst r)))"
  by (cases r; cases "snd r") (auto simp: and_then_def)

lemma open_inv [simp]: "control_inv (s\<lparr>sv_open := b\<rparr>) = control_inv s"
  by (rule control_inv_cong) simp_all

lemma control_init_inv: "control_inv (server_init kind free)"
  by (simp add: control_inv_def shard_ok_def settled_def believed_def server_init_def posts_to_def)

lemma launch_inv: "control_inv (launch_shard s) = control_inv s"
  by (rule control_inv_cong) (simp_all add: launch_shard_def split: engine_kind.splits)

lemma control_exec_inv: "control_inv s \<Longrightarrow> orderly op s \<Longrightarrow> control_inv (fst (control_exec ans sc op s))"
proof (cases op)
  case (AbortAll d r)
  assume inv: "control_inv s"
  have "control_inv (fst (control_all ans PauseGeneration (s\<lparr>sv_open := False\<rparr>)))" by (rule control_all_inv) (simp_all add: inv)
  then show ?thesis using inv control_all_inv(1) [of "fst (control_all ans PauseGeneration (s\<lparr>sv_open := False\<rparr>))" FlushCache ans]
    by (simp add: AbortAll abort_all_requests_def and_then_fst engine_method_inv)
next
  case ResumeGeneration
  assume inv: "control_inv s" and "orderly op s"
  then have "control_inv (fst (control_all ans ContinueGeneration s))" using ResumeGeneration by (auto intro: control_all_inv)
  then show ?thesis using inv by (simp add: ResumeGeneration resume_generation_def and_then_fst engine_method_inv)
qed (simp_all add: release_inv resume_inv control_all_inv engine_method_inv launch_inv wake_up_def sleep_def clear_kv_cache_def release_kv_cache_def
  resume_kv_cache_def wait_for_requests_to_drain_def adapter_resume_def adapter_release_def)

lemma control_run_inv: "control_run s \<Longrightarrow> control_inv s"
  by (induction rule: control_run.induct) (simp_all add: control_init_inv control_exec_inv)

section \<open>Properties\<close>

lemma memory_calls:
  assumes "control_run s" "settled i s"
  shows "lawful {} (posts_to i (sv_log s))" "released_after {} (posts_to i (sv_log s)) = believed i s"
  using control_run_inv [OF assms(1)] assms(2) by (simp_all add: control_inv_def shard_ok_def)


text \<open>The number of shards a call acts on: the clients are made once, from the endpoints known then.\<close>

definition shards :: "server \<Rightarrow> nat" where
  "shards s = (case sv_clients s of Some n \<Rightarrow> n | None \<Rightarrow> sv_endpoints s)"

lemma shard_state_shards: "control_inv s \<Longrightarrow> shard_state s = (s', per) \<Longrightarrow> length per = shards s \<and> (\<forall>i < length per. per ! i = believed i s)"
  by (auto simp: shard_state_def control_clients_def shards_def Let_def believed_def control_inv_def split: option.splits if_splits)

lemma fan_out_shard:
  assumes "sv_by_shard s = Some per" "sv_clients s = Some (length per)" "distinct (map fst ts)" "\<And>i w. (i, w) \<in> set ts \<Longrightarrow> i < length per"
    and call: "\<And>i w. cl_shard (call i w) = i"
  shows "posts_to i (sv_log (fst (fan_out call upd ts per s))) =
      posts_to i (sv_log s) @ (case map_of ts i of None \<Rightarrow> [] | Some w \<Rightarrow> cl_posts (call i w))"
    "believed i (fst (fan_out call upd ts per s)) =
      (case map_of ts i of None \<Rightarrow> believed i s | Some w \<Rightarrow> if cl_ok (call i w) then upd (believed i s) w else believed i s)"
    "snd (fan_out call upd ts per s) = Ok () \<longleftrightarrow> (\<forall>(i, w) \<in> set ts. cl_ok (call i w))"
    "shards (fst (fan_out call upd ts per s)) = shards s"
proof -
  define q where "q = foldl (\<lambda>p ((i, w), c). if cl_ok c then p[i := upd (p ! i) w] else p) per (zip ts (map (\<lambda>(i, w). call i w) ts))"
  have q: "length q = length per" "\<And>i. q ! i = (case map_of ts i of None \<Rightarrow> per ! i | Some w \<Rightarrow> if cl_ok (call i w) then upd (per ! i) w else per ! i)"
    using recorded [OF assms(3), of per upd call] assms(4) unfolding q_def by auto
  define s' where "s' = refresh_released (s\<lparr>sv_by_shard := Some q, sv_log := sv_log s @ map (\<lambda>(i, w). call i w) ts\<rparr>)"
  have s': "ts \<noteq> [] \<Longrightarrow> fst (fan_out call upd ts per s) = s'" by (simp add: fan_out_def Let_def q_def s'_def)
  show "posts_to i (sv_log (fst (fan_out call upd ts per s))) =
      posts_to i (sv_log s) @ (case map_of ts i of None \<Rightarrow> [] | Some w \<Rightarrow> cl_posts (call i w))"
    by (cases "ts = []") (simp_all add: s', simp_all add: fan_out_def s'_def refresh_released_def posts_to_append posts_to_calls [OF assms(3) call])
  show "believed i (fst (fan_out call upd ts per s)) =
      (case map_of ts i of None \<Rightarrow> believed i s | Some w \<Rightarrow> if cl_ok (call i w) then upd (believed i s) w else believed i s)"
  proof (cases "ts = []")
    case False
    have "map_of ts i = Some w \<Longrightarrow> i < length per" for w using assms(4) by (blast dest: map_of_SomeD)
    then show ?thesis using q False by (auto simp: s' s'_def refresh_released_def believed_def assms(1) split: option.splits)
  qed (simp add: fan_out_def)
  show "snd (fan_out call upd ts per s) = Ok () \<longleftrightarrow> (\<forall>(i, w) \<in> set ts. cl_ok (call i w))"
    by (auto simp: fan_out_def Let_def list_all_iff)
  show "shards (fst (fan_out call upd ts per s)) = shards s"
    by (cases "ts = []") (simp_all add: s', simp_all add: fan_out_def s'_def refresh_released_def shards_def assms(2))
qed

lemma map_of_targets:
  assumes "ts = filter (\<lambda>(i, w). w \<noteq> []) (map (\<lambda>i. (i, f i)) [0..<n])"
  shows "map_of ts i = (if i < n \<and> f i \<noteq> [] then Some (f i) else None)"
  using targets_facts [OF assms] by (auto simp: map_of_eq_None_iff dest: map_of_SomeD intro: map_of_is_SomeI)

lemma release_shard:
  fixes tags :: "string list"
  assumes "control_inv s"
  defines "wanted \<equiv> \<lambda>i. if i < shards s then filter (\<lambda>t. t \<notin> believed i s) tags else []"
  shows "posts_to i (sv_log (fst (sglang_release ans tags s))) =
      posts_to i (sv_log s) @ (if wanted i = [] then [] else cl_posts (client_release ans i (wanted i)))"
    "believed i (fst (sglang_release ans tags s)) =
      (if wanted i \<noteq> [] \<and> cl_ok (client_release ans i (wanted i)) then believed i s \<union> set (wanted i) else believed i s)"
    "snd (sglang_release ans tags s) = Ok () \<longleftrightarrow> (\<forall>i. wanted i \<noteq> [] \<longrightarrow> cl_ok (client_release ans i (wanted i)))"
    "shards (fst (sglang_release ans tags s)) = shards s"
proof -
  obtain s' per where s': "shard_state s = (s', per)" by (cases "shard_state s")
  note c = state_inv [OF assms(1) s'] and n = shard_state_shards [OF assms(1) s']
  define ts where "ts = filter (\<lambda>(i, w). w \<noteq> []) (map (\<lambda>i. (i, filter (\<lambda>t. t \<notin> per ! i) tags)) [0..<length per])"
  note ts = targets_facts [OF ts_def]
  have rel: "sglang_release ans tags s = fan_out (client_release ans) (\<lambda>m w. m \<union> set w) ts per s'" by (simp add: sglang_release_def s' ts_def)
  have range: "(i, w) \<in> set ts \<Longrightarrow> i < length per" for i w by (simp add: ts(2))
  note fan = fan_out_shard [OF c(3,4) ts(1) range call_shards(2)]
  have m: "map_of ts i = (if wanted i \<noteq> [] then Some (wanted i) else None)" for i
    using n by (simp add: map_of_targets [OF ts_def] wanted_def)
  show "posts_to i (sv_log (fst (sglang_release ans tags s))) =
      posts_to i (sv_log s) @ (if wanted i = [] then [] else cl_posts (client_release ans i (wanted i)))"
    by (simp add: rel fan(1) m c(2))
  show "believed i (fst (sglang_release ans tags s)) =
      (if wanted i \<noteq> [] \<and> cl_ok (client_release ans i (wanted i)) then believed i s \<union> set (wanted i) else believed i s)"
    by (simp add: rel fan(2) m c(5))
  show "snd (sglang_release ans tags s) = Ok () \<longleftrightarrow> (\<forall>i. wanted i \<noteq> [] \<longrightarrow> cl_ok (client_release ans i (wanted i)))"
  proof -
    have "(\<forall>(i, w) \<in> set ts. cl_ok (client_release ans i w)) \<longleftrightarrow> (\<forall>i. wanted i \<noteq> [] \<longrightarrow> cl_ok (client_release ans i (wanted i)))"
      using n by (auto simp: ts(2) wanted_def)
    then show ?thesis by (simp add: rel fan(3))
  qed
  show "shards (fst (sglang_release ans tags s)) = shards s" using n by (simp add: rel fan(4)) (simp add: shards_def c(4))
qed

lemma resume_shard:
  assumes "control_inv s"
  defines "wanted \<equiv> \<lambda>i. sorted_list_of_set (believed i s)"
  shows "posts_to i (sv_log (fst (sglang_resume ans tags s))) =
      posts_to i (sv_log s) @ (if believed i s = {} then [] else cl_posts (client_resume ans i (wanted i)))"
    "believed i (fst (sglang_resume ans tags s)) = (if cl_ok (client_resume ans i (wanted i)) then {} else believed i s)"
    "snd (sglang_resume ans tags s) = Ok () \<longleftrightarrow> (\<forall>i. believed i s \<noteq> {} \<longrightarrow> cl_ok (client_resume ans i (wanted i)))"
    "set (wanted i) = believed i s" "shards (fst (sglang_resume ans tags s)) = shards s"
proof -
  obtain s' per where s': "shard_state s = (s', per)" by (cases "shard_state s")
  note c = state_inv [OF assms(1) s'] and n = shard_state_shards [OF assms(1) s']
  define ts where "ts = filter (\<lambda>(i, w). w \<noteq> []) (map (\<lambda>i. (i, sorted_list_of_set (per ! i))) [0..<length per])"
  note ts = targets_facts [OF ts_def]
  have fin: "finite (believed i s)" for i
    using assms(1) by (auto simp: control_inv_def believed_def split: option.splits)
  have out: "believed i s = {}" if "\<not> i < length per" for i
    using that c(5) [of i] by (simp add: believed_def c(3))
  have res: "sglang_resume ans tags s = fan_out (client_resume ans) (\<lambda>m w. m - set w) ts per s'" by (simp add: sglang_resume_def s' ts_def)
  have range: "(i, w) \<in> set ts \<Longrightarrow> i < length per" for i w by (simp add: ts(2))
  note fan = fan_out_shard [OF c(3,4) ts(1) range call_shards(3)]
  show w: "set (wanted i) = believed i s" for i by (simp add: wanted_def fin)
  have m: "map_of ts i = (if believed i s \<noteq> {} then Some (wanted i) else None)" for i
    using n out [of i] fin by (auto simp: map_of_targets [OF ts_def] wanted_def)
  show "posts_to i (sv_log (fst (sglang_resume ans tags s))) =
      posts_to i (sv_log s) @ (if believed i s = {} then [] else cl_posts (client_resume ans i (wanted i)))"
    by (simp add: res fan(1) m c(2))
  show "believed i (fst (sglang_resume ans tags s)) = (if cl_ok (client_resume ans i (wanted i)) then {} else believed i s)"
    by (simp add: res fan(2) m c(5) w)
  show "snd (sglang_resume ans tags s) = Ok () \<longleftrightarrow> (\<forall>i. believed i s \<noteq> {} \<longrightarrow> cl_ok (client_resume ans i (wanted i)))"
  proof -
    have "(\<forall>(i, w) \<in> set ts. cl_ok (client_resume ans i w)) \<longleftrightarrow> (\<forall>i w. map_of ts i = Some w \<longrightarrow> cl_ok (client_resume ans i w))"
      using ts(1) by (auto dest: map_of_SomeD simp: map_of_eq_Some_iff)
    then show ?thesis by (simp add: res fan(3) m)
  qed
  show "shards (fst (sglang_resume ans tags s)) = shards s" using n by (simp add: res fan(4)) (simp add: shards_def c(4))
qed

text \<open>
  A release that is asked for again, by another rank or after a failure, only reaches the shards whose first
  call failed; when the first one succeeded the second makes no request at all, so the many leaders of a node can
  all ask for it.
\<close>

theorem release_retries_failures:
  assumes "control_run s" "distinct tags"
  shows "let wanted = (\<lambda>i. if i < shards s then filter (\<lambda>t. t \<notin> believed i s) tags else []);
      failed = (\<lambda>i. wanted i \<noteq> [] \<and> \<not> cl_ok (client_release ans i (wanted i)));
      (s', r) = sglang_release ans tags s; (s'', r') = sglang_release ans' tags s'
    in (r = Ok () \<longleftrightarrow> (\<forall>i. \<not> failed i)) \<and>
       (\<forall>i. posts_to i (sv_log s'') = posts_to i (sv_log s') @ (if failed i then cl_posts (client_release ans' i (wanted i)) else []))"
proof -
  define wanted where "wanted = (\<lambda>i. if i < shards s then filter (\<lambda>t. t \<notin> believed i s) tags else [])"
  define s' where "s' = fst (sglang_release ans tags s)"
  have inv: "control_inv s" by (rule control_run_inv [OF assms(1)])
  have inv': "control_inv s'" unfolding s'_def by (rule release_inv [OF inv assms(2)])
  have first: "believed i s' = (if wanted i \<noteq> [] \<and> cl_ok (client_release ans i (wanted i)) then believed i s \<union> set (wanted i) else believed i s)"
    "snd (sglang_release ans tags s) = Ok () \<longleftrightarrow> (\<forall>i. wanted i \<noteq> [] \<longrightarrow> cl_ok (client_release ans i (wanted i)))"
    "shards s' = shards s" for i
    unfolding wanted_def s'_def by (rule release_shard [OF inv])+
  have left: "(if i < shards s' then filter (\<lambda>t. t \<notin> believed i s') tags else []) =
      (if wanted i \<noteq> [] \<and> \<not> cl_ok (client_release ans i (wanted i)) then wanted i else [])" for i
    using first(1) [of i] first(3) by (auto simp: wanted_def filter_empty_conv)
  have "posts_to i (sv_log (fst (sglang_release ans' tags s'))) = posts_to i (sv_log s') @
      (if wanted i \<noteq> [] \<and> \<not> cl_ok (client_release ans i (wanted i)) then cl_posts (client_release ans' i (wanted i)) else [])" for i
    using release_shard(1) [OF inv', where ans = ans' and tags = tags and i = i] unfolding left by auto
  moreover have "snd (sglang_release ans tags s) = Ok () \<longleftrightarrow> (\<forall>i. \<not> (wanted i \<noteq> [] \<and> \<not> cl_ok (client_release ans i (wanted i))))"
    using first(2) by auto
  ultimately show ?thesis by (simp add: Let_def split_beta wanted_def s'_def)
qed

text \<open>
  Whatever tags it is asked for, a resume that the engines answer restores every shard completely, in one
  request per shard that has something released, and lets it generate again.
\<close>

theorem resume_restores_everything:
  assumes "control_run s" "\<And>i r. ans i r = Answered"
  shows "let (s', r) = sglang_resume ans tags s in r = Ok () \<and> sv_released s' = {} \<and>
    (\<forall>i. believed i s' = {} \<and> posts_to i (sv_log s') = posts_to i (sv_log s) @
       (if believed i s = {} then [] else [(ResumeMemory (sorted_list_of_set (believed i s)), Answered), (ContinueGeneration, Answered)]))"
proof -
  have inv: "control_inv s" by (rule control_run_inv [OF assms(1)])
  define s' where "s' = fst (sglang_resume ans tags s)"
  have inv': "control_inv s'" unfolding s'_def by (rule resume_inv [OF inv])
  have call: "client_resume ans i w = \<lparr>cl_shard = i, cl_posts = [(ResumeMemory w, Answered), (ContinueGeneration, Answered)], cl_ok = True\<rparr>" for i w
    by (simp add: client_resume_def assms(2))
  note res = resume_shard(1,2,3) [OF inv, where ans = ans and tags = tags, folded s'_def]
  have none: "believed i s' = {}" for i by (simp add: res(2) call)
  have "m = {}" if xs: "sv_by_shard s' = Some xs" "m \<in> set xs" for xs m
  proof -
    obtain i where "i < length xs" "m = xs ! i" using xs(2) by (auto simp: in_set_conv_nth)
    then show ?thesis using none [of i] xs(1) by (simp add: believed_def)
  qed
  then have "sv_released s' = {}" using inv' by (auto simp: control_inv_def split: option.splits)
  moreover have "snd (sglang_resume ans tags s) = Ok ()" unfolding res(3) by (simp add: call)
  ultimately show ?thesis using res(1) none by (simp add: Let_def split_beta s'_def [symmetric] call)
qed

text \<open>
  C40. The client restores the memory and then continues generation in one call. When the second request fails, the
  memory is back but the server still records it as released: the next resume asks the engine to restore tags it
  does not have released, which kills its scheduler, and a release in between is skipped.
\<close>

theorem failed_continue_resumes_twice:
  assumes "control_run s" "settled i s" "believed i s \<noteq> {}"
    and "\<And>ts. ans i (ResumeMemory ts) = Answered" "ans i ContinueGeneration \<noteq> Answered"
  shows "let (s', r) = sglang_resume ans tags s; s'' = fst (sglang_resume ans' tags' s'); t = fst (sglang_release ans'' tags'' s')
    in r \<noteq> Ok () \<and> released_after {} (posts_to i (sv_log s')) = {} \<and> believed i s' = believed i s \<and>
       \<not> lawful {} (posts_to i (sv_log s'')) \<and> (set tags'' \<subseteq> believed i s \<longrightarrow> posts_to i (sv_log t) = posts_to i (sv_log s'))"
proof -
  have inv: "control_inv s" by (rule control_run_inv [OF assms(1)])
  define s' where "s' = fst (sglang_resume ans tags s)"
  have inv': "control_inv s'" unfolding s'_def by (rule resume_inv [OF inv])
  define w where "w = sorted_list_of_set (believed i s)"
  note res = resume_shard(1,2,3) [OF inv, where ans = ans and tags = tags, folded s'_def]
  have w: "set w = believed i s" "w \<noteq> []" using resume_shard(4) [OF inv, of i] assms(3) by (auto simp: w_def)
  have call: "cl_posts (client_resume ans i w) = [(ResumeMemory w, Answered), (ContinueGeneration, ans i ContinueGeneration)]"
    "\<not> cl_ok (client_resume ans i w)" using assms(4,5) by (simp_all add: client_resume_def Let_def)
  have b: "believed i s' = believed i s" using res(2) [of i] call by (simp add: w_def)
  have truth: "released_after {} (posts_to i (sv_log s)) = set w" using memory_calls [OF assms(1,2)] w(1) by simp
  have gone: "released_after {} (posts_to i (sv_log s')) = {}"
    using res(1) [of i] assms(3) truth by (simp add: call released_after_append flip: w_def)
  have fst_post: "\<exists>out rest. cl_posts (client_resume ans' i w) = (ResumeMemory w, out) # rest" by (simp add: client_resume_def Let_def)
  have "\<not> lawful {} (posts_to i (sv_log (fst (sglang_resume ans' tags' s'))))"
    using resume_shard(1) [OF inv', where ans = ans' and tags = tags' and i = i] fst_post w assms(3) gone by (auto simp: b lawful_append simp flip: w_def)
  moreover have "snd (sglang_resume ans tags s) \<noteq> Ok ()" unfolding res(3) using assms(3) call(2) w_def by blast
  moreover have "posts_to i (sv_log (fst (sglang_release ans'' tags'' s'))) = posts_to i (sv_log s')" if "set tags'' \<subseteq> believed i s"
  proof -
    have "filter (\<lambda>t. t \<notin> believed i s') tags'' = []" using that b by (auto simp: filter_empty_conv)
    then show ?thesis using release_shard(1) [OF inv', where ans = ans'' and tags = tags'' and i = i] by simp
  qed
  ultimately show ?thesis using gone b by (simp add: Let_def split_beta s'_def [symmetric])
qed

text \<open>A control call before the workers are launched caches an empty list of clients: no later call reaches a shard.\<close>

lemma early_call_blinds:
  fixes ans :: answers and tags :: "string list"
  assumes "sv_endpoints s = 0" "sv_clients s = None" "control_run s"
  defines "s' \<equiv> launch_shard (fst (sglang_release ans tags s))"
  shows "sv_log (fst (sglang_release ans' tags' s')) = sv_log s"
proof -
  have "shard_state s = (s\<lparr>sv_clients := Some 0, sv_by_shard := Some []\<rparr>, [])"
    using assms(2,1) control_run_inv [OF assms(3)]
    by (auto simp: shard_state_def control_clients_def control_inv_def Let_def split: option.splits)
  then have "s' = launch_shard (s\<lparr>sv_clients := Some 0, sv_by_shard := Some []\<rparr>)"
    by (simp add: s'_def sglang_release_def fan_out_def)
  then show ?thesis
    by (simp add: sglang_release_def shard_state_def control_clients_def launch_shard_def fan_out_def Let_def split: engine_kind.splits)
qed

section \<open>A node with two shards\<close>

definition all_answered :: answers where "all_answered i r = Answered"

text \<open>The second shard refuses the release at first; later the first shard does not continue.\<close>

definition one_refuses :: answers where "one_refuses i r = (if i = 1 \<and> r \<noteq> PauseGeneration then Refused else Answered)"

definition no_continue :: answers where "no_continue i r = (if r = ContinueGeneration then Refused else Answered)"

fun demo_ops :: "(answers \<times> control_op) list \<Rightarrow> server \<Rightarrow> server" where
  "demo_ops [] s = s"
| "demo_ops ((ans, op) # ops) s = demo_ops ops (fst (control_exec ans (\<lambda>_ _. True) op s))"

fun demo_orderly :: "(answers \<times> control_op) list \<Rightarrow> server \<Rightarrow> bool" where
  "demo_orderly [] s \<longleftrightarrow> True"
| "demo_orderly ((ans, op) # ops) s \<longleftrightarrow> orderly op s \<and> demo_orderly ops (fst (control_exec ans (\<lambda>_ _. True) op s))"

lemma demo_ops_run: "control_run s \<Longrightarrow> demo_orderly ops s \<Longrightarrow> control_run (demo_ops ops s)"
  by (induction ops s rule: demo_ops.induct) (auto intro: control_step)

definition demo_node :: server where
  "demo_node = demo_ops [(all_answered, LaunchShard), (all_answered, LaunchShard), (one_refuses, Sleep)] (server_init Sglang True)"

lemma demo_node_run: "control_run demo_node"
  unfolding demo_node_def by (rule demo_ops_run [OF control_start]) simp

lemma demo_node_facts: "settled 0 demo_node" "believed 0 demo_node = {''kv_cache'', ''weights''}" "believed 1 demo_node = {}" "shards demo_node = 2"
  "posts_to 0 (sv_log demo_node) = [(PauseGeneration, Answered), (ReleaseMemory [''kv_cache'', ''weights''], Answered)]"
  "posts_to 1 (sv_log demo_node) = [(PauseGeneration, Answered), (ReleaseMemory [''kv_cache'', ''weights''], Refused)]"
  by code_simp+


theorem release_retries_failures_witness:
  "\<exists>s s' r s'' r'. control_run s \<and> sglang_release one_refuses [''weights''] s = (s', r) \<and> sglang_release all_answered [''weights''] s' = (s'', r') \<and>
     r \<noteq> Ok () \<and> posts_to 0 (sv_log s'') = posts_to 0 (sv_log s')"
proof -
  obtain s' r where s': "sglang_release one_refuses [''weights''] demo_node = (s', r)" by (cases "sglang_release one_refuses [''weights''] demo_node")
  obtain s'' r' where s'': "sglang_release all_answered [''weights''] s' = (s'', r')" by (cases "sglang_release all_answered [''weights''] s'")
  define wanted where "wanted = (\<lambda>i. if i < 2 then filter (\<lambda>t. t \<notin> believed i demo_node) [''weights''] else [])"
  have w: "wanted 0 = []" "wanted 1 = [''weights'']" using demo_node_facts(2,3) by (simp_all add: wanted_def)
  have f: "\<not> cl_ok (client_release one_refuses 1 [''weights''])" by code_simp
  have "distinct [''weights'']" by simp
  from release_retries_failures [OF demo_node_run this, of one_refuses all_answered]
  have c: "r = Ok () \<longleftrightarrow> (\<forall>i. \<not> (wanted i \<noteq> [] \<and> \<not> cl_ok (client_release one_refuses i (wanted i))))"
    "\<And>i. posts_to i (sv_log s'') = posts_to i (sv_log s') @
      (if wanted i \<noteq> [] \<and> \<not> cl_ok (client_release one_refuses i (wanted i)) then cl_posts (client_release all_answered i (wanted i)) else [])"
    unfolding s' Let_def prod.case s'' demo_node_facts(4) wanted_def [symmetric] by blast+
  have "r \<noteq> Ok ()" using c(1) w(2) f by (metis list.distinct(1))
  moreover have "posts_to 0 (sv_log s'') = posts_to 0 (sv_log s')" using c(2) [of 0] w(1) by simp
  ultimately have "r \<noteq> Ok () \<and> posts_to 0 (sv_log s'') = posts_to 0 (sv_log s')" by blast
  then show ?thesis using demo_node_run s' s'' by blast
qed

theorem resume_restores_everything_witness:
  "\<exists>s s'. control_run s \<and> sglang_resume all_answered [''weights''] s = (s', Ok ()) \<and> sv_released s' = {} \<and>
     posts_to 0 (sv_log s') = posts_to 0 (sv_log s) @ [(ResumeMemory [''kv_cache'', ''weights''], Answered), (ContinueGeneration, Answered)]"
proof -
  obtain s' r where s': "sglang_resume all_answered [''weights''] demo_node = (s', r)" by (cases "sglang_resume all_answered [''weights''] demo_node")
  have w: "sorted_list_of_set {''kv_cache'', ''weights''} = [''kv_cache'', ''weights'']" by code_simp
  have "\<And>i r. all_answered i r = Answered" by (simp add: all_answered_def)
  from resume_restores_everything [where ans = all_answered and tags = "[''weights'']", OF demo_node_run this]
  have "r = Ok () \<and> sv_released s' = {} \<and> posts_to 0 (sv_log s') = posts_to 0 (sv_log demo_node) @
      [(ResumeMemory [''kv_cache'', ''weights''], Answered), (ContinueGeneration, Answered)]"
    unfolding s' by (simp add: demo_node_facts(2) w)
  then show ?thesis using demo_node_run s' by blast
qed

theorem failed_continue_resumes_twice_witness:
  "\<exists>s s'. control_run s \<and> s' = fst (sglang_resume no_continue [''weights''] s) \<and> released_after {} (posts_to 0 (sv_log s')) = {} \<and>
     \<not> lawful {} (posts_to 0 (sv_log (fst (sglang_resume all_answered [''weights''] s'))))"
proof -
  define s' where "s' = fst (sglang_resume no_continue [''weights''] demo_node)"
  have a: "\<And>ts. no_continue 0 (ResumeMemory ts) = Answered" "no_continue 0 ContinueGeneration \<noteq> Answered" by (simp_all add: no_continue_def)
  have b: "believed 0 demo_node \<noteq> {}" by (simp add: demo_node_facts(2))
  have "released_after {} (posts_to 0 (sv_log s')) = {} \<and> \<not> lawful {} (posts_to 0 (sv_log (fst (sglang_resume all_answered [''weights''] s'))))"
    using failed_continue_resumes_twice [where ans = no_continue and tags = "[''weights'']" and ans' = all_answered and tags' = "[''weights'']",
        OF demo_node_run demo_node_facts(1) b a]
    by (simp add: Let_def split_beta s'_def)
  then show ?thesis using demo_node_run s'_def by blast
qed

end
