(* ===== verification/DynamoTokens.thy ===== *)
theory DynamoTokens
  imports Prelude Complex_Main
begin

text \<open>
  The data plane of the Dynamo rollout server (\<open>dynamo/dynamo_async_server.py\<close>): the request that is sent to the
  frontend and what becomes of its answer. A wrong answer here does not crash a training run, it spoils its data,
  so the code refuses what it cannot trust. JSON values are a datatype, numbers are exact. The tokenizer and
  \<open>normalize_token_ids\<close> of verl are arguments, and so is the id of the request. Keys of a mapping are distinct. Logging and counters of warnings are left out.
\<close>

section \<open>JSON values\<close>

datatype json = JNull | JBool bool | JInt int | JReal real | JStr string | JList "json list" | JObj "(string \<times> json) list"

type_synonym json_dict = "(string, json) dict"

definition truthy :: "json \<Rightarrow> bool" where
  "truthy v = (case v of JNull \<Rightarrow> False | JBool b \<Rightarrow> b | JInt i \<Rightarrow> i \<noteq> 0 | JReal r \<Rightarrow> r \<noteq> 0 | JStr s \<Rightarrow> s \<noteq> [] | JList xs \<Rightarrow> xs \<noteq> [] | JObj d \<Rightarrow> d \<noteq> [])"

definition field :: "string \<Rightarrow> json_dict \<Rightarrow> json" where
  "field k d = (case dict_get d k of None \<Rightarrow> JNull | Some v \<Rightarrow> v)"

text \<open>\<open>v.get(k)\<close> of any value, and \<open>(v or {}).get(k)\<close>.\<close>

definition json_get :: "string \<Rightarrow> json \<Rightarrow> json result" where
  "json_get k v = (case v of JObj d \<Rightarrow> Ok (field k d) | _ \<Rightarrow> Err (AttributeError ''get''))"

definition get_or_empty :: "string \<Rightarrow> json \<Rightarrow> json result" where
  "get_or_empty k v = (if truthy v then json_get k v else Ok JNull)"

text \<open>The fields of a value that is a mapping; of any other value nothing is asked.\<close>

definition dict_fields :: "json \<Rightarrow> string list \<Rightarrow> json list" where
  "dict_fields v ks = (case v of JObj d \<Rightarrow> map (\<lambda>k. field k d) ks | _ \<Rightarrow> [])"

definition dict_field :: "json \<Rightarrow> string \<Rightarrow> json" where
  "dict_field v k = (case v of JObj d \<Rightarrow> field k d | _ \<Rightarrow> JNull)"

definition as_int :: "json \<Rightarrow> int option" where
  "as_int v = (case v of JInt i \<Rightarrow> Some i | JBool b \<Rightarrow> Some (if b then 1 else 0) | _ \<Rightarrow> None)"

section \<open>Token ids\<close>

text \<open>
  \<open>tk_encode\<close> is \<open>tokenizer.encode(_, add_special_tokens=False)\<close>, as a list; \<open>tk_norm\<close> is \<open>normalize_token_ids\<close>, which
  raises \<open>TypeError\<close> for what is not a sequence of ids; \<open>tk_float\<close> is \<open>float\<close> of a string.
\<close>

record tokens_env =
  tk_encode :: "json \<Rightarrow> int list result"
  tk_norm :: "json \<Rightarrow> int list result"
  tk_float :: "string \<Rightarrow> real result"
  tk_eos :: "int option"
  tk_pad :: "int option"

definition id_keys :: "string list" where
  "id_keys = [''completion_token_ids'', ''output_token_ids'', ''generated_token_ids'']"

definition engine_fields :: "json \<Rightarrow> json list" where
  "engine_fields nvext = dict_fields nvext id_keys @ dict_fields (dict_field nvext ''engine_data'') id_keys"

definition choice_nvext_fields :: "json \<Rightarrow> json list" where
  "choice_nvext_fields nvext =
     dict_fields nvext (id_keys @ [''token_ids'']) @ dict_fields (dict_field nvext ''engine_data'') id_keys"

definition id_candidates :: "json_dict \<Rightarrow> json_dict \<Rightarrow> json list" where
  "id_candidates choice response =
     map (\<lambda>k. field k choice) [''token_ids'', ''output_token_ids'', ''completion_token_ids'']
     @ engine_fields (field ''nvext'' response)
     @ choice_nvext_fields (field ''nvext'' choice)
     @ dict_fields (field ''logprobs'' choice) [''token_ids'', ''output_token_ids'', ''completion_token_ids'']"

fun first_ids :: "(json \<Rightarrow> int list result) \<Rightarrow> json list \<Rightarrow> int list option result" where
  "first_ids nrm [] = Ok None"
| "first_ids nrm (c # cs) =
     (if c = JNull then first_ids nrm cs
      else case nrm c of
             Inr ids \<Rightarrow> Ok (Some ids)
           | Inl (TypeError _) \<Rightarrow> first_ids nrm cs
           | Inl e \<Rightarrow> Err e)"

definition parse_token_id :: "json \<Rightarrow> int option" where
  "parse_token_id v = (case v of
     JStr s \<Rightarrow>
       (let prefix = takeWhile (\<lambda>c. c \<noteq> CHR '':'') s; suffix = drop (length prefix + 1) s
        in if strip_spaces prefix \<noteq> ''token_id'' \<or> length prefix = length s then None
           else case py_int (strip_spaces suffix) of Inr i \<Rightarrow> Some i | Inl _ \<Rightarrow> None)
   | _ \<Rightarrow> None)"

text \<open>The ids of a list when every item has one.\<close>

fun all_ids :: "(json \<Rightarrow> int option) \<Rightarrow> json list \<Rightarrow> int list option" where
  "all_ids f [] = Some []"
| "all_ids f (v # vs) = (case f v of None \<Rightarrow> None | Some i \<Rightarrow> map_option (\<lambda>is. i # is) (all_ids f vs))"

definition parse_token_id_strings :: "json \<Rightarrow> int list option" where
  "parse_token_id_strings v = (case v of JList (x # xs) \<Rightarrow> all_ids parse_token_id (x # xs) | _ \<Rightarrow> None)"

fun encode_all :: "(json \<Rightarrow> int list result) \<Rightarrow> json list \<Rightarrow> int list option result" where
  "encode_all encode [] = Ok (Some [])"
| "encode_all encode (v # vs) =
     (case v of
        JStr s \<Rightarrow>
          bind_res (encode v) (\<lambda>ids. case ids of [i] \<Rightarrow> bind_res (encode_all encode vs) (\<lambda>r. Ok (map_option (\<lambda>is. i # is) r)) | _ \<Rightarrow> Ok None)
      | _ \<Rightarrow> Ok None)"

definition encode_logprob_token_strings :: "(json \<Rightarrow> int list result) \<Rightarrow> json \<Rightarrow> int list option result" where
  "encode_logprob_token_strings encode v = (case v of JList (x # xs) \<Rightarrow> encode_all encode (x # xs) | _ \<Rightarrow> Ok None)"

definition extract_completion_token_ids :: "tokens_env \<Rightarrow> json_dict \<Rightarrow> json_dict \<Rightarrow> bool \<Rightarrow> int list option result" where
  "extract_completion_token_ids env choice response allow_text_mapping =
     bind_res (first_ids (tk_norm env) (id_candidates choice response)) (\<lambda>found.
       case found of
         Some ids \<Rightarrow> Ok (Some ids)
       | None \<Rightarrow>
           (case field ''logprobs'' choice of
              JObj lp \<Rightarrow>
                (case parse_token_id_strings (field ''tokens'' lp) of
                   Some ids \<Rightarrow> Ok (Some ids)
                 | None \<Rightarrow> if allow_text_mapping then encode_logprob_token_strings (tk_encode env) (field ''tokens'' lp) else Ok None)
            | _ \<Rightarrow> Ok None))"

section \<open>Log-probabilities\<close>

definition to_float :: "(string \<Rightarrow> real result) \<Rightarrow> json \<Rightarrow> real result" where
  "to_float pf v = (case v of
     JInt i \<Rightarrow> Ok (of_int i) | JReal r \<Rightarrow> Ok r | JBool b \<Rightarrow> Ok (if b then 1 else 0) | JStr s \<Rightarrow> pf s
   | _ \<Rightarrow> Err (TypeError ''float() argument must be a string or a real number''))"

definition logprob_fill_value :: "real list \<Rightarrow> real option" where
  "logprob_fill_value observed = (if observed = [] then None else Some (sum_list observed / real (length observed)))"

definition normalize_strict :: "(string \<Rightarrow> real result) \<Rightarrow> json list \<Rightarrow> nat \<Rightarrow> real list option result" where
  "normalize_strict pf vs token_count =
     (if length vs \<noteq> token_count then Err (RuntimeError ''refusing to pad/truncate'')
      else bind_res (map_res (\<lambda>v. if v = JNull then Err (RuntimeError ''None logprob'') else to_float pf v) vs) (\<lambda>xs. Ok (Some xs)))"

definition normalize_padded :: "(string \<Rightarrow> real result) \<Rightarrow> json list \<Rightarrow> nat \<Rightarrow> real list option result" where
  "normalize_padded pf vs token_count =
     (let raw = take token_count vs
      in bind_res (map_res (to_float pf) (filter (\<lambda>v. v \<noteq> JNull) raw)) (\<lambda>observed.
         case logprob_fill_value observed of
           None \<Rightarrow> Ok None
         | Some fill \<Rightarrow>
             bind_res (map_res (\<lambda>v. if v = JNull then Ok fill else to_float pf v) raw) (\<lambda>xs.
             Ok (Some (xs @ replicate (token_count - length raw) fill)))))"

text \<open>What \<open>enumerate(values)\<close> and \<open>values[:n]\<close> see: a string is a sequence of characters, a mapping has keys but no slices.\<close>

definition log_prob_items :: "bool \<Rightarrow> json \<Rightarrow> json list option" where
  "log_prob_items strict v = (case v of
     JList vs \<Rightarrow> Some vs
   | JStr s \<Rightarrow> Some (map (\<lambda>c. JStr [c]) s)
   | JObj d \<Rightarrow> if strict then Some (map (JStr \<circ> fst) d) else None
   | _ \<Rightarrow> None)"

definition normalize_log_probs :: "(string \<Rightarrow> real result) \<Rightarrow> json \<Rightarrow> nat \<Rightarrow> bool \<Rightarrow> real list option result" where
  "normalize_log_probs pf v token_count strict =
     (case log_prob_items strict v of
        Some vs \<Rightarrow> if strict then normalize_strict pf vs token_count else normalize_padded pf vs token_count
      | None \<Rightarrow> Err (TypeError ''token_logprobs''))"

text \<open>The engine's own data of one \<open>nvext\<close>: nothing, values, or ids without values, which is refused.\<close>

definition engine_log_probs :: "(string \<Rightarrow> real result) \<Rightarrow> json \<Rightarrow> nat \<Rightarrow> bool \<Rightarrow> real list option result option" where
  "engine_log_probs pf nvext token_count strict =
     (case dict_field nvext ''engine_data'' of
        JObj e \<Rightarrow>
          (case field ''completion_logprobs'' e of
             JList vs \<Rightarrow> Some (normalize_log_probs pf (JList vs) token_count strict)
           | _ \<Rightarrow> (case field ''completion_token_ids'' e of
                    JList _ \<Rightarrow> Some (Err (RuntimeError ''dynamo omitted engine_data.completion_logprobs''))
                  | _ \<Rightarrow> None))
      | _ \<Rightarrow> None)"

definition extract_completion_log_probs :: "(string \<Rightarrow> real result) \<Rightarrow> json_dict \<Rightarrow> nat \<Rightarrow> json_dict \<Rightarrow> bool \<Rightarrow> real list option result" where
  "extract_completion_log_probs pf choice token_count response strict =
     (case engine_log_probs pf (field ''nvext'' response) token_count strict of
        Some r \<Rightarrow> r
      | None \<Rightarrow>
          (case engine_log_probs pf (field ''nvext'' choice) token_count strict of
             Some r \<Rightarrow> r
           | None \<Rightarrow>
               (case field ''logprobs'' choice of
                  JObj lp \<Rightarrow>
                    (let v = (if field ''token_logprobs'' lp = JNull then field ''logprobs'' lp else field ''token_logprobs'' lp)
                     in if v = JNull then Ok None else normalize_log_probs pf v token_count strict)
                | _ \<Rightarrow> Ok None)))"

section \<open>The answer of the frontend\<close>

record token_output =
  to_ids :: "int list"
  to_logp :: "real list option"
  to_stop :: json
  to_steps :: "int option"

definition map_finish_reason :: "json \<Rightarrow> json" where
  "map_finish_reason r =
     (if r \<in> {JStr ''stop'', JStr ''length''} then JStr ''completed''
      else if r \<in> {JStr ''abort'', JStr ''cancelled''} then JStr ''aborted'' else r)"

definition fallback_token_ids :: "tokens_env \<Rightarrow> int list" where
  "fallback_token_ids env = (case tk_eos env of Some t \<Rightarrow> [t] | None \<Rightarrow> (case tk_pad env of Some t \<Rightarrow> [t] | None \<Rightarrow> [0]))"

definition build_token_output :: "tokens_env \<Rightarrow> int \<Rightarrow> int list option \<Rightarrow> real list option \<Rightarrow> json \<Rightarrow> bool \<Rightarrow> token_output result" where
  "build_token_output env steps token_ids log_probs stop allow_empty =
     (let ids = (case token_ids of Some (i # is) \<Rightarrow> i # is | _ \<Rightarrow> if allow_empty then [] else fallback_token_ids env)
      in if (case log_probs of Some lp \<Rightarrow> length lp \<noteq> length ids | None \<Rightarrow> False)
         then Err (RuntimeError ''log_probs/token_ids length mismatch'')
         else Ok \<lparr>to_ids = ids, to_logp = log_probs, to_stop = stop, to_steps = (if ids = [] then None else Some steps)\<rparr>)"

definition aborted_output :: "tokens_env \<Rightarrow> int \<Rightarrow> bool \<Rightarrow> token_output result" where
  "aborted_output env steps include_log_probs =
     build_token_output env steps (Some []) (if include_log_probs then Some [] else None) (JStr ''aborted'') True"

text \<open>\<open>choices[0]\<close>, which has to be a mapping.\<close>

definition first_choice :: "json_dict \<Rightarrow> json_dict result" where
  "first_choice data =
     (let choices = field ''choices'' data
      in if \<not> truthy choices then Err (RuntimeError ''frontend response has no choices'')
         else case choices of
                JList (JObj c # _) \<Rightarrow> Ok c
              | JObj _ \<Rightarrow> Err (KeyError ''0'')
              | JList (JList _ # _) \<Rightarrow> Err (AttributeError ''get'')
              | JList (JStr _ # _) \<Rightarrow> Err (AttributeError ''get'')
              | JStr _ \<Rightarrow> Err (AttributeError ''get'')
              | _ \<Rightarrow> Err (TypeError ''no subscript or no containment test''))"

definition choice_text :: "json_dict \<Rightarrow> json result" where
  "choice_text c =
     bind_res (if dict_has ''text'' c then Ok (field ''text'' c) else get_or_empty ''content'' (field ''message'' c))
       (\<lambda>t. Ok (if truthy t then t else JStr []))"

text \<open>\<open>strict\<close> is \<open>not _is_sglang()\<close>, \<open>ids_requested\<close> is \<open>_request_completion_token_ids()\<close>.\<close>

record output_cfg =
  oc_strict :: bool
  oc_ids_requested :: bool
  oc_steps :: int

definition found_ids :: "tokens_env \<Rightarrow> output_cfg \<Rightarrow> json_dict \<Rightarrow> json_dict \<Rightarrow> bool \<Rightarrow> (int list \<times> bool) result" where
  "found_ids env cfg choice data include_log_probs =
     bind_res (choice_text choice) (\<lambda>text.
     bind_res (extract_completion_token_ids env choice data (\<not> include_log_probs)) (\<lambda>found.
       case found of
         Some ids \<Rightarrow> Ok (ids, False)
       | None \<Rightarrow>
           if oc_ids_requested cfg then Err (RuntimeError ''no parseable token ids although request_completion_token_ids=true'')
           else bind_res (tk_encode env text) (\<lambda>is. bind_res (tk_norm env (JList (map JInt is))) (\<lambda>ids. Ok (ids, True)))))"

definition usage_mismatch :: "json_dict \<Rightarrow> json \<Rightarrow> int list \<Rightarrow> bool result" where
  "usage_mismatch data finish ids =
     bind_res (get_or_empty ''completion_tokens'' (field ''usage'' data)) (\<lambda>u.
     Ok (finish \<in> {JStr ''stop'', JStr ''length''} \<and> (case as_int u of Some n \<Rightarrow> n \<noteq> int (length ids) | None \<Rightarrow> False)))"

definition needed_log_probs :: "tokens_env \<Rightarrow> output_cfg \<Rightarrow> json_dict \<Rightarrow> json_dict \<Rightarrow> int list \<Rightarrow> real list result" where
  "needed_log_probs env cfg choice data ids =
     bind_res (extract_completion_log_probs (tk_float env) choice (length ids) data (oc_strict cfg)) (\<lambda>lp.
       case lp of Some xs \<Rightarrow> Ok xs | None \<Rightarrow> Err (RuntimeError ''no usable logprob source''))"

text \<open>The part after the ids: the checks against \<open>usage\<close>, the log-probabilities, the output.\<close>

definition output_of :: "tokens_env \<Rightarrow> output_cfg \<Rightarrow> json_dict \<Rightarrow> json_dict \<Rightarrow> bool \<Rightarrow> int list \<Rightarrow> bool \<Rightarrow> token_output result" where
  "output_of env cfg choice data include_log_probs ids used_text_fallback =
     (let finish = field ''finish_reason'' choice;
          stop = map_finish_reason finish;
          is_aborted = (stop = JStr ''aborted'');
          aborted = aborted_output env (oc_steps cfg) include_log_probs
      in if ids = [] then if is_aborted then aborted else Err (RuntimeError ''Dynamo frontend returned an empty completion'')
         else bind_res (usage_mismatch data finish ids) (\<lambda>mismatch.
           if \<not> used_text_fallback \<and> mismatch then Err (RuntimeError ''the token array is not the sampled sequence'')
           else if \<not> include_log_probs then build_token_output env (oc_steps cfg) (Some ids) None stop False
           else if used_text_fallback
           then if is_aborted then aborted else Err (RuntimeError ''calculate_log_probs=True requires a real token-id channel'')
           else case needed_log_probs env cfg choice data ids of
                  Inr lp \<Rightarrow> build_token_output env (oc_steps cfg) (Some ids) (Some lp) stop False
                | Inl (RuntimeError m) \<Rightarrow> if is_aborted then aborted else Err (RuntimeError m)
                | Inl e \<Rightarrow> Err e))"

definition completion_response_to_token_output :: "tokens_env \<Rightarrow> output_cfg \<Rightarrow> json \<Rightarrow> bool \<Rightarrow> token_output result" where
  "completion_response_to_token_output env cfg response include_log_probs =
     (case response of
        JObj data \<Rightarrow>
          bind_res (first_choice data) (\<lambda>choice.
          bind_res (found_ids env cfg choice data include_log_probs) (\<lambda>(ids, used_text_fallback).
          output_of env cfg choice data include_log_probs ids used_text_fallback))
      | _ \<Rightarrow> Err (AttributeError ''get''))"

section \<open>The request\<close>

record dyn_cfg =
  dc_model :: string
  dc_prompt_length :: int
  dc_response_length :: int
  dc_engine_data :: bool
  dc_completion_ids :: bool
  dc_payload_request_id :: bool
  dc_tokens_as_ids :: bool
  dc_force_logprobs :: bool

fun merge_fields :: "json list \<Rightarrow> string list \<Rightarrow> json list" where
  "merge_fields requested [] = requested"
| "merge_fields requested (f # fs) = merge_fields (if JStr f \<in> set requested then requested else requested @ [JStr f]) fs"

definition merge_nvext_extra_fields :: "json \<Rightarrow> string list \<Rightarrow> json" where
  "merge_nvext_extra_fields nvext names =
     (let merged = (case nvext of JObj d \<Rightarrow> d | _ \<Rightarrow> []);
          requested = (case field ''extra_fields'' merged of JList xs \<Rightarrow> xs | _ \<Rightarrow> [])
      in JObj (dict_set ''extra_fields'' (JList (merge_fields requested names)) merged))"

definition json_int :: "json \<Rightarrow> int result" where
  "json_int v = (case v of
     JInt i \<Rightarrow> Ok i | JBool b \<Rightarrow> Ok (if b then 1 else 0) | JReal r \<Rightarrow> Ok (if r < 0 then \<lceil>r\<rceil> else \<lfloor>r\<rfloor>) | JStr s \<Rightarrow> py_int s
   | _ \<Rightarrow> Err (TypeError ''int() argument must be a string or a real number''))"

text \<open>\<open>sp.pop("max_tokens", None) or sp.pop("max_new_tokens", None)\<close>: the second one is only popped when the first is not set.\<close>

definition pop_max_tokens :: "json_dict \<Rightarrow> json \<times> json_dict" where
  "pop_max_tokens sp =
     (let v = field ''max_tokens'' sp; sp' = dict_del ''max_tokens'' sp
      in if truthy v then (v, sp') else (field ''max_new_tokens'' sp', dict_del ''max_new_tokens'' sp'))"

definition max_possible :: "dyn_cfg \<Rightarrow> int list \<Rightarrow> int" where
  "max_possible cfg prompt = max 1 (dc_prompt_length cfg + dc_response_length cfg - int (length prompt))"

definition default_max_tokens :: "dyn_cfg \<Rightarrow> int list \<Rightarrow> int" where
  "default_max_tokens cfg prompt =
     max 1 (min (dc_response_length cfg) (dc_prompt_length cfg + dc_response_length cfg - int (length prompt)))"

text \<open>The payload before the remaining sampling parameters are copied into it.\<close>

definition base_payload :: "dyn_cfg \<Rightarrow> int list \<Rightarrow> string \<Rightarrow> int \<Rightarrow> json \<Rightarrow> bool \<Rightarrow> json_dict" where
  "base_payload cfg prompt request_id max_tokens nvext want_logprobs =
     (let p0 = [(''model'', JStr (dc_model cfg)), (''prompt'', JList (map JInt prompt)), (''max_tokens'', JInt max_tokens), (''stream'', JBool False)];
          asked_fields = (if dc_engine_data cfg then [''engine_data''] else []) @ (if dc_completion_ids cfg then [''completion_token_ids''] else []);
          p1 = (if asked_fields \<noteq> [] then dict_set ''nvext'' (merge_nvext_extra_fields nvext asked_fields) p0
                else if nvext \<noteq> JNull then dict_set ''nvext'' nvext p0 else p0);
          p2 = (if dc_payload_request_id cfg then dict_set ''request_id'' (JStr request_id) p1 else p1);
          p3 = (if dc_tokens_as_ids cfg then dict_set ''return_tokens_as_token_ids'' (JBool True) p2 else p2)
      in if want_logprobs \<or> dc_tokens_as_ids cfg \<or> dc_force_logprobs cfg then dict_set ''logprobs'' (JInt 0) p3 else p3)"

definition build_frontend_completion_payload :: "dyn_cfg \<Rightarrow> int list \<Rightarrow> json_dict \<Rightarrow> string \<Rightarrow> json_dict result" where
  "build_frontend_completion_payload cfg prompt params request_id =
     (let (mt, sp) = pop_max_tokens params
      in bind_res (if mt = JNull then Ok (default_max_tokens cfg prompt) else json_int mt) (\<lambda>asked.
         let max_tokens = min asked (max_possible cfg prompt);
             sp' = dict_del ''prompt_logprobs'' (dict_del ''nvext'' (dict_del ''logprobs'' sp));
             p = base_payload cfg prompt request_id max_tokens (field ''nvext'' sp) (truthy (field ''logprobs'' params))
         in Ok (foldl (\<lambda>p (k, v). if v = JNull then p else dict_set k v p) p sp')))"

text \<open>
  The limit of the direct path: numbers are compared before they are truncated, \<open>rep\<close> is the configured
  repetition penalty.
\<close>

definition direct_limit :: "dyn_cfg \<Rightarrow> int list \<Rightarrow> json \<Rightarrow> int result" where
  "direct_limit cfg prompt mt = (let most = max_possible cfg prompt in case mt of
     JNull \<Rightarrow> Ok (max 1 (min (default_max_tokens cfg prompt) most))
   | JInt i \<Rightarrow> Ok (max 1 (min i most))
   | JBool b \<Rightarrow> Ok (max 1 (min (if b then 1 else 0) most))
   | JReal r \<Rightarrow> Ok \<lfloor>max 1 (min r (of_int most))\<rfloor>
   | _ \<Rightarrow> Err (TypeError ''not supported between instances''))"

definition build_direct_sampling_params :: "dyn_cfg \<Rightarrow> json \<Rightarrow> int list \<Rightarrow> json_dict \<Rightarrow> json_dict result" where
  "build_direct_sampling_params cfg rep prompt params =
     (let (mt, sp) = pop_max_tokens params
      in bind_res (direct_limit cfg prompt mt) (\<lambda>m.
         let sp1 = dict_set ''max_tokens'' (JInt m) sp;
             sp2 = dict_set ''logprobs'' (if truthy (field ''logprobs'' sp1) then JInt 0 else JNull) (dict_del ''logprobs'' sp1);
             sp3 = dict_del ''prompt_logprobs'' sp2;
             sp4 = (if dict_has ''repetition_penalty'' sp3 then sp3 else dict_set ''repetition_penalty'' rep sp3)
         in Ok (filter (\<lambda>(k, v). v \<noteq> JNull) sp4)))"

definition drop_frontend_extension_fields :: "json_dict \<Rightarrow> json_dict" where
  "drop_frontend_extension_fields payload = filter (\<lambda>(k, v). k \<notin> {''request_id'', ''return_tokens_as_token_ids''}) payload"

definition has_extension_fields :: "json_dict \<Rightarrow> bool" where
  "has_extension_fields payload \<longleftrightarrow> dict_has ''request_id'' payload \<or> dict_has ''return_tokens_as_token_ids'' payload"

text \<open>
  \<open>generate\<close>: \<open>resumed_before\<close> and \<open>resumed_after\<close> are the event \<open>_generation_resumed\<close> at the start and when an exception is
  caught; \<open>post p\<close> is \<open>_frontend_post\<close>, the status and the text of the answer, or an exception; \<open>parse\<close> is \<open>json.loads\<close>;
  \<open>unsupported\<close> tests for the text \<open>Unsupported parameter\<close>. The direct path is not modelled.
\<close>

definition exchange :: "tokens_env \<Rightarrow> output_cfg \<Rightarrow> dyn_cfg \<Rightarrow> (json_dict \<Rightarrow> (int \<times> string) result) \<Rightarrow> (string \<Rightarrow> bool) \<Rightarrow> (string \<Rightarrow> json result)
    \<Rightarrow> int list \<Rightarrow> json_dict \<Rightarrow> string \<Rightarrow> token_output result" where
  "exchange env ocfg cfg post unsupported parse prompt params request_id =
     bind_res (build_frontend_completion_payload cfg prompt params request_id) (\<lambda>payload.
     bind_res (post payload) (\<lambda>(status, body).
     bind_res (if status = 400 \<and> unsupported body \<and> has_extension_fields payload
               then post (drop_frontend_extension_fields payload) else Ok (status, body)) (\<lambda>(status', body').
     if status' \<noteq> 200 then Err (RuntimeError ''Dynamo frontend /v1/completions failed'')
     else bind_res (parse body') (\<lambda>response.
       completion_response_to_token_output env ocfg response (truthy (field ''logprobs'' params))))))"

definition generate :: "tokens_env \<Rightarrow> output_cfg \<Rightarrow> dyn_cfg \<Rightarrow> bool \<Rightarrow> bool \<Rightarrow> bool \<Rightarrow> (json_dict \<Rightarrow> (int \<times> string) result) \<Rightarrow> (string \<Rightarrow> bool) \<Rightarrow> (string \<Rightarrow> json result)
    \<Rightarrow> int list \<Rightarrow> json_dict \<Rightarrow> string \<Rightarrow> token_output result" where
  "generate env ocfg cfg multimodal resumed_before resumed_after post unsupported parse prompt params request_id =
     (if multimodal
      then build_token_output env (oc_steps ocfg) None None (JStr ''error: Dynamo frontend generate does not support multimodal inputs'') False
      else let aborted = aborted_output env (oc_steps ocfg) (truthy (field ''logprobs'' params))
      in if \<not> resumed_before then aborted
         else case exchange env ocfg cfg post unsupported parse prompt params request_id of
                Inr out \<Rightarrow> Ok out
              | Inl e \<Rightarrow> if \<not> resumed_after then aborted else Err e)"

section \<open>Lemmas\<close>

lemma build_token_output_Ok:
  assumes "build_token_output env steps ids lp stop allow = Ok out"
  shows "to_logp out = lp" "to_stop out = stop" "lp = Some xs \<Longrightarrow> length xs = length (to_ids out)"
    "to_steps out = (if to_ids out = [] then None else Some steps)" "ids = Some (i # is) \<Longrightarrow> to_ids out = i # is"
  using assms by (auto simp: build_token_output_def Let_def split: if_splits option.splits)

lemma aborted_output_eq:
  "aborted_output env steps inc = Ok \<lparr>to_ids = [], to_logp = (if inc then Some [] else None), to_stop = JStr ''aborted'', to_steps = None\<rparr>"
  by (simp add: aborted_output_def build_token_output_def)

lemma bind_cases: "bind_res r f = Ok y \<Longrightarrow> (\<And>x. r = Ok x \<Longrightarrow> f x = Ok y \<Longrightarrow> P) \<Longrightarrow> P"
  by auto

text \<open>How an accepted answer becomes an output with tokens.\<close>

lemma output_of_Ok:
  assumes "output_of env cfg choice data inc ids used = Ok out"
  shows "Ok out = aborted_output env (oc_steps cfg) inc \<or>
    ids \<noteq> [] \<and> (used \<or> usage_mismatch data (field ''finish_reason'' choice) ids = Ok False) \<and> \<not> (inc \<and> used) \<and>
    (\<exists>lp. build_token_output env (oc_steps cfg) (Some ids) lp (map_finish_reason (field ''finish_reason'' choice)) False = Ok out \<and>
       (lp \<noteq> None \<longleftrightarrow> inc))"
proof (cases "ids = []")
  case True
  then show ?thesis using assms by (simp add: output_of_def split: if_splits)
next
  case False
  obtain mm where m: "usage_mismatch data (field ''finish_reason'' choice) ids = Ok mm" and u: "used \<or> \<not> mm"
    using assms False by (auto simp: output_of_def Let_def split: if_splits)
  consider (none) "\<not> inc" | (reencoded) "inc" "used" | (exact) "inc" "\<not> used" by blast
  then show ?thesis
  proof cases
    case none
    then have "build_token_output env (oc_steps cfg) (Some ids) None (map_finish_reason (field ''finish_reason'' choice)) False = Ok out"
      using assms False u by (simp add: output_of_def Let_def m split: if_splits)
    then show ?thesis using False m u none by auto
  next
    case reencoded
    then show ?thesis using assms False by (simp add: output_of_def Let_def m split: if_splits)
  next
    case exact
    show ?thesis
    proof (cases "needed_log_probs env cfg choice data ids")
      case (Inl e)
      then show ?thesis using assms False u exact by (cases e) (simp_all add: output_of_def Let_def m split: if_splits)
    next
      case (Inr lp)
      then have "build_token_output env (oc_steps cfg) (Some ids) (Some lp) (map_finish_reason (field ''finish_reason'' choice)) False = Ok out"
        using assms False u exact by (simp add: output_of_def Let_def m)
      then show ?thesis using False m u exact by auto
    qed
  qed
qed

lemma response_Ok:
  assumes "completion_response_to_token_output env cfg response inc = Ok out"
  obtains data choice ids used where "response = JObj data" "first_choice data = Ok choice" "found_ids env cfg choice data inc = Ok (ids, used)"
    "output_of env cfg choice data inc ids used = Ok out"
  using assms by (cases response) (auto simp: completion_response_to_token_output_def)

section \<open>Properties\<close>


lemma map_res_Ok_iff: "map_res f xs = Ok ys \<longleftrightarrow> list_all2 (\<lambda>x y. f x = Ok y) xs ys"
  by (auto simp: map_res_Ok_nth list_all2_conv_all_nth)

lemma sum_list_bounds:
  fixes xs :: "real list"
  assumes "xs \<noteq> []"
  shows "Min (set xs) \<le> sum_list xs / real (length xs)" "sum_list xs / real (length xs) \<le> Max (set xs)"
proof -
  have "real (length xs) * Min (set xs) \<le> sum_list xs" using sum_list_mono [of xs "\<lambda>_. Min (set xs)" "\<lambda>x. x"] by (simp add: sum_list_triv)
  moreover have "sum_list xs \<le> real (length xs) * Max (set xs)" using sum_list_mono [of xs "\<lambda>x. x" "\<lambda>_. Max (set xs)"] by (simp add: sum_list_triv)
  moreover have "0 < real (length xs)" using assms by simp
  ultimately show "Min (set xs) \<le> sum_list xs / real (length xs)" "sum_list xs / real (length xs) \<le> Max (set xs)"
    by (simp_all add: pos_le_divide_eq pos_divide_le_eq mult.commute)
qed

text \<open>What a padded list is made of.\<close>

lemma padded_parts:
  assumes "map_res (to_float pf) (filter (\<lambda>v. v \<noteq> JNull) raw) = Ok obs" "map_res (\<lambda>v. if v = JNull then Ok c else to_float pf v) raw = Ok xs"
  shows "obs = map snd (filter (\<lambda>(v, x). v \<noteq> JNull) (zip raw xs))"
  using assms
proof (induction raw arbitrary: obs xs)
  case (Cons v raw)
  then show ?case by (cases "v = JNull") auto
qed simp

lemma padded_values:
  assumes "normalize_padded pf vs n = Ok (Some xs)" "given = (\<lambda>i. i < length vs \<and> vs ! i \<noteq> JNull)"
    "obs = map (\<lambda>i. xs ! i) (filter given [0..<n])"
  shows "length xs = n \<and> obs \<noteq> [] \<and>
    (\<forall>i < n. (given i \<longrightarrow> to_float pf (vs ! i) = Ok (xs ! i)) \<and> (\<not> given i \<longrightarrow> xs ! i = sum_list obs / real (length obs)))"
proof -
  define raw where "raw = take n vs"
  obtain obs' fill ys where o: "map_res (to_float pf) (filter (\<lambda>v. v \<noteq> JNull) raw) = Ok obs'" "logprob_fill_value obs' = Some fill"
    "map_res (\<lambda>v. if v = JNull then Ok fill else to_float pf v) raw = Ok ys" "xs = ys @ replicate (n - length raw) fill"
    using assms(1) by (auto simp: normalize_padded_def raw_def Let_def split: option.splits)
  have len: "length ys = length raw" "length raw = min n (length vs)" using map_res_length [OF o(3)] by (simp_all add: raw_def)
  have at: "xs ! i = ys ! i \<and> raw ! i = vs ! i" if "i < length raw" for i using that len o(4) by (auto simp: nth_append raw_def)
  have nth: "(if raw ! i = JNull then Ok fill else to_float pf (raw ! i)) = Ok (ys ! i)" if "i < length raw" for i
    using o(3) that by (simp add: map_res_Ok_nth)
  have "obs' = map snd (filter (\<lambda>(v, x). v \<noteq> JNull) (zip raw ys))" by (rule padded_parts [OF o(1,3)])
  also have "zip raw ys = map (\<lambda>i. (raw ! i, ys ! i)) [0..<length raw]" by (rule nth_equalityI) (simp_all add: len(1))
  also have "map snd (filter (\<lambda>(v, x). v \<noteq> JNull) (map (\<lambda>i. (raw ! i, ys ! i)) [0..<length raw])) =
      map (\<lambda>i. ys ! i) (filter (\<lambda>i. raw ! i \<noteq> JNull) [0..<length raw])" by (simp add: filter_map comp_def)
  also have "\<dots> = map (\<lambda>i. xs ! i) (filter given [0..<length raw])"
    using at len(2) by (intro map_cong filter_cong) (auto simp: assms(2))
  also have "filter given [0..<length raw] = filter given [0..<n]"
  proof -
    have "[0..<n] = [0..<length raw] @ [length raw..<n]" using len(2) upt_add_eq_append [of 0 "length raw" "n - length raw"] by simp
    moreover have "filter given [length raw..<n] = []" using len(2) by (auto simp: filter_empty_conv assms(2))
    ultimately show ?thesis by simp
  qed
  finally have obs: "obs' = obs" by (simp add: assms(3))
  have fill: "obs \<noteq> []" "fill = sum_list obs / real (length obs)" using o(2) obs by (auto simp: logprob_fill_value_def split: if_splits)
  have one: "(given i \<longrightarrow> to_float pf (vs ! i) = Ok (xs ! i)) \<and> (\<not> given i \<longrightarrow> xs ! i = fill)" if "i < n" for i
  proof (cases "i < length raw")
    case True
    then show ?thesis using at [OF True] nth [OF True] len(2) by (auto simp: assms(2) split: if_splits)
  next
    case no: False
    then show ?thesis using that len o(4) by (auto simp: assms(2) nth_append)
  qed
  then show ?thesis using fill len o(4) by auto
qed

text \<open>
  C16. Log-probabilities are never invented: in strict mode there is one number in the answer for each token, and it is
  the one that is used; otherwise a missing one is filled with the mean of those that are there, which lies between
  them, and when none is there no list is made.
\<close>

theorem log_probs_never_invented:
  assumes "normalize_log_probs pf v n strict = Ok (Some xs)"
  shows "\<exists>vs. log_prob_items strict v = Some vs \<and> length xs = n \<and>
    (let given = (\<lambda>i. i < length vs \<and> vs ! i \<noteq> JNull); obs = map (\<lambda>i. xs ! i) (filter given [0..<n]) in
     (\<forall>i < n. given i \<longrightarrow> to_float pf (vs ! i) = Ok (xs ! i)) \<and>
     (strict \<longrightarrow> length vs = n \<and> (\<forall>i < n. given i)) \<and>
     (\<not> strict \<longrightarrow> obs \<noteq> [] \<and> (\<forall>i < n. \<not> given i \<longrightarrow> xs ! i = sum_list obs / real (length obs) \<and> Min (set obs) \<le> xs ! i \<and> xs ! i \<le> Max (set obs))))"
proof -
  obtain vs where v: "log_prob_items strict v = Some vs" using assms by (cases "log_prob_items strict v") (simp_all add: normalize_log_probs_def)
  then have nv: "(if strict then normalize_strict pf vs n else normalize_padded pf vs n) = Ok (Some xs)"
    using assms by (simp add: normalize_log_probs_def)
  define given where "given = (\<lambda>i. i < length vs \<and> vs ! i \<noteq> JNull)"
  define obs where "obs = map (\<lambda>i. xs ! i) (filter given [0..<n])"
  have main: "length xs = n \<and> (\<forall>i < n. given i \<longrightarrow> to_float pf (vs ! i) = Ok (xs ! i)) \<and>
     (strict \<longrightarrow> length vs = n \<and> (\<forall>i < n. given i)) \<and>
     (\<not> strict \<longrightarrow> obs \<noteq> [] \<and> (\<forall>i < n. \<not> given i \<longrightarrow> xs ! i = sum_list obs / real (length obs)))"
  proof (cases strict)
    case True
    then have "length vs = n" "map_res (\<lambda>v. if v = JNull then Err (RuntimeError ''None logprob'') else to_float pf v) vs = Ok xs"
      using nv by (auto simp: normalize_strict_def split: if_splits)
    then show ?thesis using True by (auto simp: map_res_Ok_nth given_def split: if_splits)
  next
    case False
    then show ?thesis using padded_values [OF _ given_def obs_def] nv by simp
  qed
  then have "\<not> strict \<Longrightarrow> obs \<noteq> [] \<and> Min (set obs) \<le> sum_list obs / real (length obs) \<and> sum_list obs / real (length obs) \<le> Max (set obs)"
    using sum_list_bounds by blast
  with main have "length xs = n \<and> (\<forall>i < n. given i \<longrightarrow> to_float pf (vs ! i) = Ok (xs ! i)) \<and> (strict \<longrightarrow> length vs = n \<and> (\<forall>i < n. given i)) \<and>
     (\<not> strict \<longrightarrow> obs \<noteq> [] \<and> (\<forall>i < n. \<not> given i \<longrightarrow> xs ! i = sum_list obs / real (length obs) \<and> Min (set obs) \<le> xs ! i \<and> xs ! i \<le> Max (set obs)))"
    by simp
  then show ?thesis unfolding Let_def obs_def given_def using v by blast
qed

lemma foldl_nonnull_get:
  assumes "\<not> dict_has k sp"
  shows "dict_get (foldl (\<lambda>p (j, v). if v = JNull then p else dict_set j v p) p sp) k = dict_get p k"
  using assms by (induction sp arbitrary: p) auto

lemma base_payload_limit: "dict_get (base_payload cfg prompt request_id m nvext lp) ''max_tokens'' = Some (JInt m)"
  unfolding base_payload_def Let_def
  by (simp del: AList.update.simps)

lemma pop_max_tokens_gone: "pop_max_tokens params = (mt, sp) \<Longrightarrow> \<not> dict_has ''max_tokens'' sp"
  by (auto simp: pop_max_tokens_def Let_def split: if_splits)

text \<open>
  A request never asks for more tokens than prompt and response lengths leave, whatever the caller asked for, and it
  asks for at least one when the caller gave no limit; no other parameter can replace the limit.
\<close>

theorem request_within_budget:
  assumes "build_frontend_completion_payload cfg prompt params request_id = Ok payload"
  shows "\<exists>m. dict_get payload ''max_tokens'' = Some (JInt m) \<and>
    (m \<le> 1 \<or> int (length prompt) + m \<le> dc_prompt_length cfg + dc_response_length cfg) \<and>
    (\<forall>a. dict_get params ''max_tokens'' = Some (JInt a) \<longrightarrow> a \<noteq> 0 \<longrightarrow> m = min a (max_possible cfg prompt)) \<and>
    (\<not> dict_has ''max_tokens'' params \<longrightarrow> \<not> dict_has ''max_new_tokens'' params \<longrightarrow> 1 \<le> m)"
proof -
  obtain mt sp where p: "pop_max_tokens params = (mt, sp)" by (cases "pop_max_tokens params")
  obtain asked where asked: "(if mt = JNull then Ok (default_max_tokens cfg prompt) else json_int mt) = Ok asked"
    using assms by (auto simp: build_frontend_completion_payload_def p Let_def)
  define m where "m = min asked (max_possible cfg prompt)"
  have "\<not> dict_has ''max_tokens'' (dict_del ''prompt_logprobs'' (dict_del ''nvext'' (dict_del ''logprobs'' sp)))"
    using pop_max_tokens_gone [OF p] by simp
  then have "dict_get payload ''max_tokens'' = Some (JInt m)"
    using assms asked by (auto simp: build_frontend_completion_payload_def p Let_def m_def foldl_nonnull_get base_payload_limit)
  moreover have "m \<le> 1 \<or> int (length prompt) + m \<le> dc_prompt_length cfg + dc_response_length cfg"
    by (auto simp: m_def max_possible_def)
  moreover have "m = min a (max_possible cfg prompt)" if a: "dict_get params ''max_tokens'' = Some (JInt a)" "a \<noteq> 0" for a
  proof -
    have "mt = JInt a" using p a by (auto simp: pop_max_tokens_def Let_def field_def truthy_def)
    then show ?thesis using asked by (simp add: json_int_def m_def)
  qed
  moreover have "1 \<le> m" if none: "\<not> dict_has ''max_tokens'' params" "\<not> dict_has ''max_new_tokens'' params"
  proof -
    have "dict_get params ''max_tokens'' = None" "dict_get params ''max_new_tokens'' = None"
      using none by (auto simp: dict_has_def split: option.splits)
    then have "mt = JNull" using p by (auto simp: pop_max_tokens_def Let_def field_def truthy_def)
    then show ?thesis using asked by (auto simp: m_def default_max_tokens_def max_possible_def)
  qed
  ultimately show ?thesis by blast
qed

lemma dict_get_nonnull: "dict_get d k = Some v \<Longrightarrow> v \<noteq> JNull \<Longrightarrow> dict_get (filter (\<lambda>(k, v). v \<noteq> JNull) d) k = Some v"
  by (induction d) (auto split: if_splits)

lemma direct_limit_at_least_one:
  assumes "json_int mt = Ok a" "direct_limit cfg prompt mt = Ok m"
  shows "m = max 1 (min a (max_possible cfg prompt))"
proof (cases mt)
  case (JReal r)
  have m: "m = \<lfloor>max 1 (min r (of_int (max_possible cfg prompt)))\<rfloor>" and a: "a = (if r < 0 then \<lceil>r\<rceil> else \<lfloor>r\<rfloor>)"
    using assms by (simp_all add: JReal direct_limit_def json_int_def)
  show ?thesis
  proof (cases "r < 1")
    case True
    then have "m = 1" unfolding m by (simp add: max_def min_def)
    moreover have "a \<le> 0" unfolding a using True by (auto simp: ceiling_le_iff floor_less_iff intro: zle_diff1_eq [THEN iffD1])
    ultimately show ?thesis by simp
  next
    case False
    then have "a = \<lfloor>r\<rfloor>" by (simp add: a)
    moreover have "m = max 1 (min \<lfloor>r\<rfloor> (max_possible cfg prompt))"
      unfolding m by (simp add: max_def min_def le_floor_iff floor_le_iff) linarith
    ultimately show ?thesis by simp
  qed
qed (use assms in \<open>auto simp: direct_limit_def json_int_def Let_def\<close>)

text \<open>
  The two paths bound the same request the same way, but for its lower end: where both accept it, the direct path
  asks for the limit of the frontend payload or for one token, whichever is more. So they agree exactly when the
  frontend's limit is positive; a negative limit reaches the frontend as it is.
\<close>

theorem paths_differ_below_one:
  assumes "build_frontend_completion_payload cfg prompt params request_id = Ok payload"
    "build_direct_sampling_params cfg penalty prompt params = Ok direct"
  shows "\<exists>m. dict_get payload ''max_tokens'' = Some (JInt m) \<and> dict_get direct ''max_tokens'' = Some (JInt (max 1 m))"
proof -
  obtain mt sp where p: "pop_max_tokens params = (mt, sp)" by (cases "pop_max_tokens params")
  obtain asked where asked: "(if mt = JNull then Ok (default_max_tokens cfg prompt) else json_int mt) = Ok asked"
    using assms by (auto simp: build_frontend_completion_payload_def p Let_def)
  define m where "m = min asked (max_possible cfg prompt)"
  have "\<not> dict_has ''max_tokens'' (dict_del ''prompt_logprobs'' (dict_del ''nvext'' (dict_del ''logprobs'' sp)))"
    using pop_max_tokens_gone [OF p] by simp
  then have "dict_get payload ''max_tokens'' = Some (JInt m)"
    using assms(1) asked by (auto simp: build_frontend_completion_payload_def p Let_def m_def foldl_nonnull_get base_payload_limit)
  moreover obtain d where d: "direct_limit cfg prompt mt = Ok d" using assms(2) by (auto simp: build_direct_sampling_params_def p Let_def)
  have "dict_get direct ''max_tokens'' = Some (JInt d)"
    using assms(2) by (auto simp: build_direct_sampling_params_def p d Let_def intro!: dict_get_nonnull)
  moreover have "d = max 1 m"
  proof (cases "mt = JNull")
    case True
    then show ?thesis using d asked by (simp add: m_def direct_limit_def Let_def)
  next
    case False
    then show ?thesis using direct_limit_at_least_one [OF _ d] asked by (simp add: m_def)
  qed
  ultimately show ?thesis by blast
qed

text \<open>A response that satisfies \<open>P\<close> came back with status 200 for the payload, or for the payload without the extension fields.\<close>

definition answered :: "dyn_cfg \<Rightarrow> (json_dict \<Rightarrow> (int \<times> string) result) \<Rightarrow> (string \<Rightarrow> bool) \<Rightarrow> (string \<Rightarrow> json result)
    \<Rightarrow> int list \<Rightarrow> json_dict \<Rightarrow> string \<Rightarrow> (json \<Rightarrow> bool) \<Rightarrow> bool" where
  "answered cfg post unsupported parse prompt params request_id P \<longleftrightarrow>
     (\<exists>payload sent body response. build_frontend_completion_payload cfg prompt params request_id = Ok payload \<and>
        (sent = payload \<or> sent = drop_frontend_extension_fields payload \<and> (\<exists>refusal. post payload = Ok (400, refusal) \<and> unsupported refusal)) \<and>
        post sent = Ok (200, body) \<and> parse body = Ok response \<and> P response)"

text \<open>
  C26. While generation is paused a trajectory never fails: a call that arrives then is answered at once, without a
  request, by an empty output that the client retries; a call that was under way and fails for whatever reason is
  answered the same way; and any other output comes from an answer of the frontend.
\<close>

theorem paused_generate_retries:
  "let g = (\<lambda>before after. generate env ocfg cfg False before after post unsupported parse prompt params request_id);
      inc = truthy (field ''logprobs'' params);
      retry = \<lparr>to_ids = [], to_logp = (if inc then Some [] else None), to_stop = JStr ''aborted'', to_steps = None\<rparr>
    in g False after = Ok retry \<and> (\<exists>out. g before False = Ok out) \<and>
       (\<forall>out. g before after = Ok out \<longrightarrow> out \<noteq> retry \<longrightarrow>
          before \<and> answered cfg post unsupported parse prompt params request_id (\<lambda>response. completion_response_to_token_output env ocfg response inc = Ok out))"
proof -
  define inc where "inc = truthy (field ''logprobs'' params)"
  define g where "g = (\<lambda>before after. generate env ocfg cfg False before after post unsupported parse prompt params request_id)"
  define retry where "retry = \<lparr>to_ids = [], to_logp = (if inc then Some [] else None), to_stop = JStr ''aborted'', to_steps = None\<rparr>"
  have ab: "aborted_output env (oc_steps ocfg) inc = Ok retry" by (simp add: aborted_output_eq retry_def)
  obtain r where r: "\<And>before after. g before after = (if \<not> before then Ok retry else case r of Inr out \<Rightarrow> Ok out | Inl e \<Rightarrow> if \<not> after then Ok retry else Err e)"
    "\<And>out. r = Ok out \<Longrightarrow> answered cfg post unsupported parse prompt params request_id (\<lambda>response. completion_response_to_token_output env ocfg response inc = Ok out)"
  proof
    fix before after
    show "g before after = (if \<not> before then Ok retry else case exchange env ocfg cfg post unsupported parse prompt params request_id of
        Inr out \<Rightarrow> Ok out | Inl e \<Rightarrow> if \<not> after then Ok retry else Err e)"
      by (simp add: g_def generate_def ab Let_def flip: inc_def)
  next
    fix out
    assume "exchange env ocfg cfg post unsupported parse prompt params request_id = Ok out"
    then show "answered cfg post unsupported parse prompt params request_id (\<lambda>response. completion_response_to_token_output env ocfg response inc = Ok out)"
      unfolding exchange_def inc_def answered_def by (auto split: if_splits)
  qed
  then have "g False after = Ok retry \<and> (\<exists>out. g before False = Ok out) \<and> (\<forall>out. g before after = Ok out \<longrightarrow> out \<noteq> retry \<longrightarrow>
      before \<and> answered cfg post unsupported parse prompt params request_id (\<lambda>response. completion_response_to_token_output env ocfg response inc = Ok out))"
    by (cases r) auto
  then show ?thesis unfolding Let_def g_def retry_def inc_def .
qed


text \<open>A multimodal request is not refused: it is answered by the fallback token, which counts as generated at this version.\<close>

lemma multimodal_answered_by_fallback:
  "generate env ocfg cfg True before after post unsupported parse prompt params request_id =
     Ok \<lparr>to_ids = fallback_token_ids env, to_logp = None,
       to_stop = JStr ''error: Dynamo frontend generate does not support multimodal inputs'', to_steps = Some (oc_steps ocfg)\<rparr>"
  by (auto simp: generate_def build_token_output_def Let_def fallback_token_ids_def split: option.splits)

section \<open>Examples\<close>

text \<open>An answer of two tokens with their log-probabilities, and an environment that knows lists of numbers only.\<close>

definition sample_env :: tokens_env where
  "sample_env = \<lparr>tk_encode = (\<lambda>v. Ok [7]),
     tk_norm = (\<lambda>v. case v of JList [JInt a, JInt b] \<Rightarrow> Ok [a, b] | _ \<Rightarrow> Err (TypeError ''ids'')),
     tk_float = (\<lambda>s. Err (ValueError ''float'')), tk_eos = Some 2, tk_pad = None\<rparr>"

definition sample_ocfg :: output_cfg where
  "sample_ocfg = \<lparr>oc_strict = True, oc_ids_requested = True, oc_steps = 3\<rparr>"

definition sample_cfg :: dyn_cfg where
  "sample_cfg = \<lparr>dc_model = ''m'', dc_prompt_length = 4, dc_response_length = 6, dc_engine_data = False, dc_completion_ids = True,
     dc_payload_request_id = False, dc_tokens_as_ids = False, dc_force_logprobs = False\<rparr>"

definition sample_choice :: json_dict where
  "sample_choice = [(''text'', JStr ''ab''), (''finish_reason'', JStr ''stop''), (''token_ids'', JList [JInt 5, JInt 2]),
     (''logprobs'', JObj [(''token_logprobs'', JList [JReal (- 1), JInt (- 2)])])]"

definition sample_data :: json_dict where
  "sample_data = [(''choices'', JList [JObj sample_choice]), (''usage'', JObj [(''completion_tokens'', JInt 2)])]"

lemma sample_choice_found: "first_choice sample_data = Ok sample_choice"
  by (simp add: first_choice_def sample_data_def field_def truthy_def)

lemma sample_ids: "found_ids sample_env sample_ocfg sample_choice sample_data inc = Ok ([5, 2], False)"
  by (simp add: found_ids_def choice_text_def extract_completion_token_ids_def id_candidates_def sample_choice_def sample_data_def sample_env_def
      field_def truthy_def)

lemma sample_log_probs: "needed_log_probs sample_env sample_ocfg sample_choice sample_data [5, 2] = Ok [- 1, - 2]"
  by (simp add: needed_log_probs_def extract_completion_log_probs_def engine_log_probs_def dict_field_def sample_choice_def sample_data_def
      sample_ocfg_def field_def normalize_log_probs_def log_prob_items_def normalize_strict_def to_float_def)

lemma sample_output: "completion_response_to_token_output sample_env sample_ocfg (JObj sample_data) True =
    Ok \<lparr>to_ids = [5, 2], to_logp = Some [- 1, - 2], to_stop = JStr ''completed'', to_steps = Some 3\<rparr>"
proof -
  have finish: "field ''finish_reason'' sample_choice = JStr ''stop''" by (simp add: sample_choice_def field_def)
  have count: "usage_mismatch sample_data (JStr ''stop'') [5, 2] = Ok False"
    by (simp add: usage_mismatch_def get_or_empty_def json_get_def sample_data_def field_def truthy_def as_int_def)
  have steps: "oc_steps sample_ocfg = 3" by (simp add: sample_ocfg_def)
  show ?thesis
    by (simp add: completion_response_to_token_output_def sample_choice_found sample_ids output_of_def finish count sample_log_probs
        map_finish_reason_def build_token_output_def steps Let_def)
qed


theorem log_probs_never_invented_witness:
  "normalize_log_probs (tk_float sample_env) (JList [JReal (- 1), JNull, JReal (- 3)]) 4 False = Ok (Some [- 1, - 2, - 3, - 2]) \<and>
   (\<exists>vs. log_prob_items False (JList [JReal (- 1), JNull, JReal (- 3)]) = Some vs \<and> length [- 1, - 2, - 3, - 2 :: real] = 4)"
proof -
  have n: "normalize_log_probs (tk_float sample_env) (JList [JReal (- 1), JNull, JReal (- 3)]) 4 False = Ok (Some [- 1, - 2, - 3, - 2])"
    by (simp add: normalize_log_probs_def log_prob_items_def normalize_padded_def to_float_def logprob_fill_value_def Let_def)
  show ?thesis using log_probs_never_invented [OF n] n by blast
qed

text \<open>A call that comes back while the engines run, and one that arrives while they are paused.\<close>

theorem paused_generate_retries_witness:
  "(let g = (\<lambda>before. generate sample_env sample_ocfg sample_cfg False before True (\<lambda>p. Ok (200, ''body'')) (\<lambda>b. False) (\<lambda>b. Ok (JObj sample_data))
        [1] [(''logprobs'', JBool True)] ''r'')
    in g True = Ok \<lparr>to_ids = [5, 2], to_logp = Some [- 1, - 2], to_stop = JStr ''completed'', to_steps = Some 3\<rparr> \<and>
       g False = Ok \<lparr>to_ids = [], to_logp = Some [], to_stop = JStr ''aborted'', to_steps = None\<rparr>) \<and>
   answered sample_cfg (\<lambda>p. Ok (200, ''body'')) (\<lambda>b. False) (\<lambda>b. Ok (JObj sample_data)) [1] [(''logprobs'', JBool True)] ''r''
     (\<lambda>response. completion_response_to_token_output sample_env sample_ocfg response True =
        Ok \<lparr>to_ids = [5, 2], to_logp = Some [- 1, - 2], to_stop = JStr ''completed'', to_steps = Some 3\<rparr>)"
proof -
  define g where "g = (\<lambda>before. generate sample_env sample_ocfg sample_cfg False before True (\<lambda>p. Ok (200, ''body'')) (\<lambda>b. False)
    (\<lambda>b. Ok (JObj sample_data)) [1] [(''logprobs'', JBool True)] ''r'')"
  have inc: "truthy (field ''logprobs'' [(''logprobs'', JBool True)])" by (simp add: truthy_def field_def)
  obtain payload where "build_frontend_completion_payload sample_cfg [1] [(''logprobs'', JBool True)] ''r'' = Ok payload"
    by (simp add: build_frontend_completion_payload_def pop_max_tokens_def Let_def field_def truthy_def)
  then have run: "g True = Ok \<lparr>to_ids = [5, 2], to_logp = Some [- 1, - 2], to_stop = JStr ''completed'', to_steps = Some 3\<rparr>"
    by (simp add: g_def generate_def exchange_def Let_def inc sample_output)
  have all: "g False = Ok \<lparr>to_ids = [], to_logp = Some [], to_stop = JStr ''aborted'', to_steps = None\<rparr> \<and>
    (\<forall>out. g True = Ok out \<longrightarrow> out \<noteq> \<lparr>to_ids = [], to_logp = Some [], to_stop = JStr ''aborted'', to_steps = None\<rparr> \<longrightarrow>
      answered sample_cfg (\<lambda>p. Ok (200, ''body'')) (\<lambda>b. False) (\<lambda>b. Ok (JObj sample_data)) [1] [(''logprobs'', JBool True)] ''r''
        (\<lambda>response. completion_response_to_token_output sample_env sample_ocfg response True = Ok out))"
    using paused_generate_retries [of sample_env sample_ocfg sample_cfg "\<lambda>p. Ok (200, ''body'')" "\<lambda>b. False" "\<lambda>b. Ok (JObj sample_data)" "[1]"
        "[(''logprobs'', JBool True)]" "''r''" True True] inc
    by (simp add: Let_def g_def)
  have "answered sample_cfg (\<lambda>p. Ok (200, ''body'')) (\<lambda>b. False) (\<lambda>b. Ok (JObj sample_data)) [1] [(''logprobs'', JBool True)] ''r''
     (\<lambda>response. completion_response_to_token_output sample_env sample_ocfg response True =
        Ok \<lparr>to_ids = [5, 2], to_logp = Some [- 1, - 2], to_stop = JStr ''completed'', to_steps = Some 3\<rparr>)"
    using all run by blast
  then show ?thesis using all run by (simp add: Let_def g_def)
qed

end
